(* ===== verification/Mneme_Prelude.thy ===== *)
theory Mneme_Prelude
  imports Main "HOL-Library.Word" "HOL-Library.AList"
begin

text \<open>
  The shared layer of the development: names for the machine types of the Rust sources, the
  standard-library pieces the components use (hash maps as association lists, saturating
  arithmetic, decimal printing, string searching and splitting), and two interfaces that several
  components implement: a transition system with an inductive invariant, and a bounded log that
  keeps the most recent entries.
\<close>

section \<open>Machine types and errors\<close>

type_synonym u64 = "64 word"
type_synonym u32 = "32 word"
type_synonym i32 = "32 word"
type_synonym f32 = "32 word"

text \<open>
  An \<open>i64\<close> read from or bound to SQLite is kept as the integer it denotes. Lengths and indices
  (\<open>usize\<close>) are natural numbers; an \<open>f32\<close> is its bit pattern; instants and durations are natural numbers of nanoseconds, as
  \<open>std::time::Duration\<close> has them; a path is its byte string.
\<close>

type_synonym i64 = int
type_synonym usize = nat
type_synonym instant = nat
type_synonym duration = nat
type_synonym path = string
type_synonym bytes = "8 word list"

definition from_millis :: "nat \<Rightarrow> duration" where
  "from_millis ms = ms * 1000000"

definition from_secs :: "nat \<Rightarrow> duration" where
  "from_secs s = s * 1000000000"

definition as_millis :: "duration \<Rightarrow> nat" where
  "as_millis d = d div 1000000"

definition as_secs :: "duration \<Rightarrow> nat" where
  "as_secs d = d div 1000000000"

text \<open>\<open>Instant::duration_since\<close> saturates at zero.\<close>

definition duration_since :: "instant \<Rightarrow> instant \<Rightarrow> duration" where
  "duration_since now t = now - t"

definition saturating_add_u64 :: "u64 \<Rightarrow> u64 \<Rightarrow> u64" where
  "saturating_add_u64 a b = (if unat a + unat b < 2 ^ 64 then a + b else 0xFFFFFFFFFFFFFFFF)"

text \<open>\<open>x as i64\<close> on a \<open>u64\<close> reinterprets the bits; \<open>x as u64\<close> on an \<open>i64\<close> does the reverse.\<close>

definition u64_as_i64 :: "u64 \<Rightarrow> i64" where
  "u64_as_i64 w = sint w"

definition i64_as_u64 :: "i64 \<Rightarrow> u64" where
  "i64_as_u64 i = word_of_int i"

named_theorems model_defs \<open>definitions of the operations of a component\<close>
named_theorems wf_intros \<open>preservation of the components' well-formedness\<close>

lemma u64_as_i64_inj [simp]: "u64_as_i64 a = u64_as_i64 b \<longleftrightarrow> a = b"
  by (auto simp: u64_as_i64_def dest: arg_cong[where f = "of_int :: int \<Rightarrow> u64"])

lemma i64_as_u64_as_i64 [simp]: "i64_as_u64 (u64_as_i64 w) = w"
  by (simp add: u64_as_i64_def i64_as_u64_def)

lemma unat_saturating_add_u64: "unat (saturating_add_u64 a b) = min (unat a + unat b) (2 ^ 64 - 1)"
proof (cases "unat a + unat b < 2 ^ 64")
  case True
  then have "unat (a + b) = unat a + unat b"
    by (subst unat_word_ariths) simp
  with True show ?thesis by (simp add: saturating_add_u64_def)
next
  case False
  moreover have "unat (0xFFFFFFFFFFFFFFFF :: u64) = 2 ^ 64 - 1"
    by simp
  ultimately show ?thesis by (simp add: saturating_add_u64_def)
qed

section \<open>Hash maps\<close>

text \<open>
  A \<open>HashMap\<close> is an association list with distinct keys. The order of the list is the order in
  which the map iterates; the sources make no assumption about it, so every statement of the
  development is for arbitrary lists.
\<close>

type_synonym ('k, 'v) hmap = "('k \<times> 'v) list"

abbreviation hm_get :: "('k, 'v) hmap \<Rightarrow> 'k \<Rightarrow> 'v option" where
  "hm_get m k \<equiv> map_of m k"

abbreviation hm_insert :: "'k \<Rightarrow> 'v \<Rightarrow> ('k, 'v) hmap \<Rightarrow> ('k, 'v) hmap" where
  "hm_insert k v m \<equiv> AList.update k v m"

abbreviation hm_remove :: "'k \<Rightarrow> ('k, 'v) hmap \<Rightarrow> ('k, 'v) hmap" where
  "hm_remove k m \<equiv> AList.delete k m"

definition hm_keys :: "('k, 'v) hmap \<Rightarrow> 'k list" where
  "hm_keys m = map fst m"

definition hm_wf :: "('k, 'v) hmap \<Rightarrow> bool" where
  "hm_wf m \<longleftrightarrow> distinct (hm_keys m)"

text \<open>\<open>get_mut\<close> followed by an assignment through the reference.\<close>

definition hm_modify :: "'k \<Rightarrow> ('v \<Rightarrow> 'v) \<Rightarrow> ('k, 'v) hmap \<Rightarrow> ('k, 'v) hmap" where
  "hm_modify k f m = (case hm_get m k of None \<Rightarrow> m | Some v \<Rightarrow> hm_insert k (f v) m)"

lemma hm_get_insert [simp]: "hm_get (hm_insert k v m) k' = (if k' = k then Some v else hm_get m k')"
  by (simp add: update_conv')

lemma hm_get_remove [simp]: "hm_get (hm_remove k m) k' = (if k' = k then None else hm_get m k')"
  by (simp add: delete_conv')

lemma hm_get_modify [simp]:
  "hm_get (hm_modify k f m) k' = (if k' = k then map_option f (hm_get m k) else hm_get m k')"
  by (simp add: hm_modify_def split: option.splits)

lemma hm_wf_Nil [simp, intro]: "hm_wf []"
  by (simp add: hm_wf_def hm_keys_def)

lemma hm_wf_insert [simp, wf_intros]: "hm_wf m \<Longrightarrow> hm_wf (hm_insert k v m)"
  by (simp add: hm_wf_def hm_keys_def distinct_update)

lemma hm_wf_remove [simp, wf_intros]: "hm_wf m \<Longrightarrow> hm_wf (hm_remove k m)"
  by (simp add: hm_wf_def hm_keys_def distinct_delete)

lemma hm_wf_modify [simp, wf_intros]: "hm_wf m \<Longrightarrow> hm_wf (hm_modify k f m)"
  by (simp add: hm_modify_def split: option.splits)

lemma hm_get_iff_keys: "hm_get m k \<noteq> None \<longleftrightarrow> k \<in> set (hm_keys m)"
  by (simp add: hm_keys_def map_of_eq_None_iff)

lemma hm_keys_insert [simp]: "set (hm_keys (hm_insert k v m)) = insert k (set (hm_keys m))"
  by (auto simp: update_keys hm_keys_def)

lemma hm_keys_remove [simp]: "set (hm_keys (hm_remove k m)) = set (hm_keys m) - {k}"
  by (simp add: hm_keys_def delete_keys)

lemma hm_keys_modify [simp]: "set (hm_keys (hm_modify k f m)) = set (hm_keys m)"
  using hm_get_iff_keys[of m k]
  by (auto simp: hm_modify_def split: option.splits)

lemma hm_get_mem: "hm_wf m \<Longrightarrow> hm_get m k = Some v \<longleftrightarrow> (k, v) \<in> set m"
  by (simp add: hm_wf_def hm_keys_def)

lemma length_hm_insert_le: "length (hm_insert k v m) \<le> Suc (length m)"
  by (induction m) auto

lemma length_hm_remove_le: "length (hm_remove k m) \<le> length m"
  by (simp add: AList.delete_eq)

lemma length_hm_remove_mem:
  "hm_wf m \<Longrightarrow> k \<in> set (hm_keys m) \<Longrightarrow> Suc (length (hm_remove k m)) = length m"
proof (induction m)
  case Nil
  then show ?case by (simp add: hm_keys_def)
next
  case (Cons p m)
  have *: "k \<notin> fst ` set m \<Longrightarrow> hm_remove k m = m"
    by (simp add: delete_idem)
  show ?case
    using Cons * by (cases p) (auto simp: hm_wf_def hm_keys_def)
qed

section \<open>Decimal printing\<close>

definition digit_char :: "nat \<Rightarrow> char" where
  "digit_char d = char_of (48 + d)"

text \<open>\<open>format!("{n}")\<close> on an unsigned integer.\<close>

fun show_nat :: "nat \<Rightarrow> string" where
  "show_nat n = (if n < 10 then [digit_char n] else show_nat (n div 10) @ [digit_char (n mod 10)])"

declare show_nat.simps [simp del]

definition read_digits :: "string \<Rightarrow> nat" where
  "read_digits s = foldl (\<lambda>a c. 10 * a + (of_char c - 48)) 0 s"

lemma of_char_digit [simp]: "d < 10 \<Longrightarrow> of_char (digit_char d) = (48 + d :: nat)"
  by (simp add: digit_char_def)

lemma read_show_nat [simp]: "read_digits (show_nat n) = n"
proof (induction n rule: show_nat.induct)
  case (1 n)
  show ?case
  proof (cases "n < 10")
    case True
    then show ?thesis by (simp add: show_nat.simps[of n] read_digits_def)
  next
    case False
    with 1 have "read_digits (show_nat (n div 10)) = n div 10" by simp
    with False show ?thesis by (simp add: show_nat.simps[of n] read_digits_def)
  qed
qed

lemma show_nat_inj [simp]: "show_nat a = show_nat b \<longleftrightarrow> a = b"
  by (metis read_show_nat)

lemma show_nat_digits: "c \<in> set (show_nat n) \<Longrightarrow> 48 \<le> (of_char c :: nat) \<and> (of_char c :: nat) < 58"
proof (induction n rule: show_nat.induct)
  case (1 n)
  then show ?case
    by (cases "n < 10") (auto simp: show_nat.simps[of n])
qed

lemma show_nat_nonempty [simp]: "show_nat n \<noteq> []"
  by (simp add: show_nat.simps[of n])

section \<open>Strings\<close>

text \<open>A name between single quotes, as the error messages print it.\<close>

definition quoted :: "string \<Rightarrow> string" where
  "quoted s = CHR 0x27 # s @ [CHR 0x27]"

fun starts_with :: "string \<Rightarrow> string \<Rightarrow> bool" where
  "starts_with s [] = True"
| "starts_with [] (p # ps) = False"
| "starts_with (c # s) (p # ps) = (c = p \<and> starts_with s ps)"

definition ends_with :: "string \<Rightarrow> string \<Rightarrow> bool" where
  "ends_with s suffix = starts_with (rev s) (rev suffix)"

lemma starts_with_iff: "starts_with s p \<longleftrightarrow> (\<exists>r. s = p @ r)"
  by (induction s p rule: starts_with.induct) auto

lemma starts_with_append [simp]: "starts_with (p @ r) p"
  by (auto simp: starts_with_iff)

lemma ends_with_iff: "ends_with s p \<longleftrightarrow> (\<exists>r. s = r @ p)"
proof
  assume "ends_with s p"
  then obtain r where "rev s = rev p @ r"
    by (auto simp: ends_with_def starts_with_iff)
  then have "s = rev r @ p" by (metis rev_append rev_rev_ident)
  then show "\<exists>r. s = r @ p" ..
qed (auto simp: ends_with_def)

text \<open>\<open>str::find\<close> with a string needle: the byte offset of the first occurrence.\<close>

fun str_find :: "string \<Rightarrow> string \<Rightarrow> nat option" where
  "str_find s needle =
     (if starts_with s needle then Some 0
      else case s of [] \<Rightarrow> None | c # s' \<Rightarrow> map_option Suc (str_find s' needle))"

declare str_find.simps [simp del]

lemma str_find_None_iff: "str_find s n = None \<longleftrightarrow> \<not> (\<exists>a b. s = a @ n @ b)"
proof (induction s n rule: str_find.induct)
  case (1 s n)
  show ?case
  proof (cases "starts_with s n")
    case True
    then obtain r where "s = n @ r" by (auto simp: starts_with_iff)
    then show ?thesis using True by (subst str_find.simps) (auto intro: exI[of _ "[]"])
  next
    case False
    show ?thesis
    proof (cases s)
      case Nil
      with False show ?thesis by (subst str_find.simps) (auto simp: starts_with_iff)
    next
      case (Cons c s')
      have "(\<exists>a b. s = a @ n @ b) \<longleftrightarrow> (\<exists>a b. s' = a @ n @ b)"
        using False unfolding Cons by (metis append_Cons append_Nil list.exhaust list.sel(3) starts_with_iff tl_append2)
      moreover have "str_find s n = map_option Suc (str_find s' n)"
        using False by (subst str_find.simps) (simp add: Cons)
      ultimately show ?thesis using 1[OF False Cons] by simp
    qed
  qed
qed

text \<open>\<open>str::contains\<close>.\<close>

definition str_contains :: "string \<Rightarrow> string \<Rightarrow> bool" where
  "str_contains s needle \<longleftrightarrow> str_find s needle \<noteq> None"

lemma str_contains_iff: "str_contains s n \<longleftrightarrow> (\<exists>a b. s = a @ n @ b)"
  by (simp add: str_contains_def str_find_None_iff)

text \<open>\<open>str::split(c)\<close>: the segments between the separators, always at least one.\<close>

fun split_on :: "char \<Rightarrow> string \<Rightarrow> string list" where
  "split_on c [] = [[]]"
| "split_on c (x # xs) =
     (if x = c then [] # split_on c xs
      else case split_on c xs of [] \<Rightarrow> [[x]] | s # ss \<Rightarrow> (x # s) # ss)"

lemma split_on_not_Nil [simp]: "split_on c s \<noteq> []"
  by (induction s) (auto split: list.splits)

fun join_on :: "char \<Rightarrow> string list \<Rightarrow> string" where
  "join_on c [] = []"
| "join_on c [s] = s"
| "join_on c (s # ss) = s @ c # join_on c ss"

lemma join_split [simp]: "join_on c (split_on c s) = s"
proof (induction s)
  case (Cons x xs)
  obtain y ys where "split_on c xs = y # ys"
    by (cases "split_on c xs") auto
  with Cons show ?case by (cases ys) auto
qed simp

text \<open>\<open>to_ascii_lowercase\<close>.\<close>

definition ascii_lower :: "char \<Rightarrow> char" where
  "ascii_lower c = (let n = (of_char c :: nat) in if 65 \<le> n \<and> n \<le> 90 then char_of (n + 32) else c)"

definition to_ascii_lowercase :: "string \<Rightarrow> string" where
  "to_ascii_lowercase s = map ascii_lower s"

text \<open>A newline of a text literal and the spaces that indent its next line.\<close>

definition nl :: "nat \<Rightarrow> string" where
  "nl n = CHR 0x0A # replicate n (CHR '' '')"

section \<open>Trimming and paths\<close>

text \<open>
  \<open>str::trim\<close> removes the code points with the Unicode property White\_Space; these are their UTF-8
  encodings.
\<close>

definition utf8 :: "nat list \<Rightarrow> string" where
  "utf8 bs = map char_of bs"

definition ws_tokens :: "string list" where
  "ws_tokens = map utf8
     ([[9], [10], [11], [12], [13], [32], [0xC2, 0x85], [0xC2, 0xA0], [0xE1, 0x9A, 0x80]]
      @ map (\<lambda>b. [0xE2, 0x80, b]) ([0x80..<0x8B] @ [0xA8, 0xA9, 0xAF])
      @ [[0xE2, 0x81, 0x9F], [0xE3, 0x80, 0x80]])"

function strip_tokens :: "string list \<Rightarrow> string \<Rightarrow> string" where
  "strip_tokens toks s =
     (case find (\<lambda>w. w \<noteq> [] \<and> starts_with s w) toks of
        None \<Rightarrow> s | Some w \<Rightarrow> strip_tokens toks (drop (length w) s))"
  by pat_completeness auto
termination
proof (relation "measure (\<lambda>(toks, s). length s)", goal_cases)
  case (2 toks s w)
  then have "w \<noteq> []" "starts_with s w"
    by (auto simp: find_Some_iff)
  then have "length w \<noteq> 0" "length w \<le> length s"
    by (auto simp: starts_with_iff)
  then have "length s - length w < length s" by linarith
  then show ?case by simp
qed simp

declare strip_tokens.simps [simp del]

definition trim_start :: "string \<Rightarrow> string" where
  "trim_start s = strip_tokens ws_tokens s"

definition trim_end :: "string \<Rightarrow> string" where
  "trim_end s = rev (strip_tokens (map rev ws_tokens) (rev s))"

definition trim :: "string \<Rightarrow> string" where
  "trim s = trim_end (trim_start s)"

text \<open>\<open>Path::join\<close> on Unix.\<close>

definition path_join :: "path \<Rightarrow> path \<Rightarrow> path" where
  "path_join a b =
     (if starts_with b ''/'' then b
      else if a = [] \<or> ends_with a ''/'' then a @ b
      else a @ ''/'' @ b)"

text \<open>\<open>Path::file_name\<close> and \<open>Path::extension\<close> on Unix.\<close>

definition file_name :: "path \<Rightarrow> string option" where
  "file_name p =
     (case filter (\<lambda>s. s \<noteq> [] \<and> s \<noteq> ''.'') (split_on (CHR ''/'') p) of
        [] \<Rightarrow> None
      | segs \<Rightarrow> (if last segs = ''..'' then None else Some (last segs)))"

definition extension :: "path \<Rightarrow> string option" where
  "extension p =
     (case file_name p of
        None \<Rightarrow> None
      | Some n \<Rightarrow>
          (case split_on (CHR ''.'') n of
             [_] \<Rightarrow> None
           | segs \<Rightarrow> if butlast segs = [[]] then None else Some (last segs)))"

section \<open>Transition systems\<close>

inductive reach :: "('s \<Rightarrow> bool) \<Rightarrow> ('s \<Rightarrow> 's \<Rightarrow> bool) \<Rightarrow> 's \<Rightarrow> bool"
  for init :: "'s \<Rightarrow> bool" and step :: "'s \<Rightarrow> 's \<Rightarrow> bool" where
  reach_init: "init s \<Longrightarrow> reach init step s"
| reach_step: "reach init step s \<Longrightarrow> step s t \<Longrightarrow> reach init step t"

text \<open>
  What a component that is a transition system provides: an invariant that its start states
  have and its steps keep.
\<close>

locale transition_invariant =
  fixes init :: "'s \<Rightarrow> bool"
    and step :: "'s \<Rightarrow> 's \<Rightarrow> bool"
    and inv :: "'s \<Rightarrow> bool"
  assumes inv_init: "init s \<Longrightarrow> inv s"
    and inv_step: "inv s \<Longrightarrow> step s t \<Longrightarrow> inv t"
begin

lemma reach_inv: "reach init step s \<Longrightarrow> inv s"
  by (induction rule: reach.induct) (auto intro: inv_init inv_step)

lemma rtranclp_inv: "step\<^sup>*\<^sup>* s t \<Longrightarrow> inv s \<Longrightarrow> inv t"
  by (induction rule: rtranclp_induct) (auto intro: inv_step)

end

section \<open>Bounded logs\<close>

definition take_last :: "nat \<Rightarrow> 'a list \<Rightarrow> 'a list" where
  "take_last n xs = drop (length xs - n) xs"

text \<open>\<open>while q.len() > cap { q.pop_front(); }\<close>\<close>

fun trim_front :: "nat \<Rightarrow> 'a list \<Rightarrow> 'a list" where
  "trim_front cap [] = []"
| "trim_front cap (x # xs) = (if length (x # xs) > cap then trim_front cap xs else x # xs)"

lemma trim_front_take_last: "trim_front cap xs = take_last cap xs"
proof (induction xs)
  case (Cons x xs)
  then show ?case
    by (cases "length xs < cap") (auto simp: take_last_def Suc_diff_le)
qed (simp add: take_last_def)

lemma length_take_last [simp]: "length (take_last n xs) = min (length xs) n"
  by (simp add: take_last_def)

lemma take_last_all: "length xs \<le> n \<Longrightarrow> take_last n xs = xs"
  by (simp add: take_last_def)

lemma take_last_append: "take_last n (take_last n xs @ ys) = take_last n (xs @ ys)"
  by (cases "length xs \<le> n") (auto simp: take_last_def add.commute)

lemma take_last_suffix: "\<exists>ys. xs = ys @ take_last n xs"
  by (metis append_take_drop_id take_last_def)

text \<open>
  A log that keeps its most recent entries: a push appends the entry of its argument and forgets
  from the front. The laws are about one push on a good state; the lemmas are about a whole history
  of pushes.
\<close>

locale bounded_log =
  fixes push :: "'c \<Rightarrow> 's \<Rightarrow> 's"
    and entry :: "'c \<Rightarrow> 'e"
    and contents :: "'s \<Rightarrow> 'e list"
    and cap :: "'s \<Rightarrow> nat"
    and good :: "'s \<Rightarrow> bool"
  assumes good_bounded: "good s \<Longrightarrow> length (contents s) \<le> cap s"
    and good_push: "good s \<Longrightarrow> good (push c s)"
    and cap_push: "cap (push c s) = cap s"
    and push_contents: "good s \<Longrightarrow> contents (push c s) = take_last (cap s) (contents s @ [entry c])"
begin

lemma good_pushes: "good s \<Longrightarrow> good (fold push cs s)"
  by (induction cs arbitrary: s) (auto simp: good_push)

lemma cap_pushes: "cap (fold push cs s) = cap s"
  by (induction cs arbitrary: s) (auto simp: cap_push)

lemma pushes_contents:
  "good s \<Longrightarrow> contents (fold push cs s) = take_last (cap s) (contents s @ map entry cs)"
proof (induction cs arbitrary: s)
  case Nil
  then show ?case by (simp add: take_last_all good_bounded)
next
  case (Cons c cs)
  from Cons.IH[OF good_push[OF Cons.prems]] Cons.prems show ?case
    by (simp add: push_contents cap_push take_last_append)
qed

lemma pushes_bounded: "good s \<Longrightarrow> length (contents (fold push cs s)) \<le> cap s"
  by (simp add: pushes_contents)

end

end
