(* ===== verification/Jobs.thy ===== *)
theory Jobs
  imports Mneme_Prelude
begin

text \<open>
  The cross-process job schema (\<open>common/src/jobs.rs\<close>): job identifiers drawn from a shared atomic
  counter, the four kinds of work with the worker pool each targets, and the outcome a worker
  reports.
\<close>

section \<open>JSON values\<close>

text \<open>The values \<open>serde_json::Value\<close> ranges over, with the two accessors the sources use.\<close>

datatype json = JNull | JBool bool | JNum int | JStr string | JArr "json list"
  | JObj "(string \<times> json) list"

fun json_get :: "json \<Rightarrow> string \<Rightarrow> json option" where
  "json_get (JObj kvs) k = map_of kvs k"
| "json_get _ k = None"

fun as_str :: "json \<Rightarrow> string option" where
  "as_str (JStr s) = Some s"
| "as_str _ = None"

section \<open>Job identifiers\<close>

type_synonym JobId = u64

text \<open>
  The state of \<open>JOB_ID_COUNTER\<close> is passed explicitly. \<open>fetch_add\<close> returns the old target and wraps.
\<close>

definition JOB_ID_COUNTER :: u64 where
  "JOB_ID_COUNTER = 1"

definition JobId_next :: "u64 \<Rightarrow> JobId \<times> u64" where
  "JobId_next counter = (counter, counter + 1)"

text \<open>
  The compare-and-swap loop of \<open>seed_to\<close>. \<open>obs\<close> lists the target of the counter at each attempt: it
  differs from \<open>current\<close> where another thread moved the counter in between. The result is \<open>None\<close> while
  the loop has not returned, \<open>Some None\<close> when it returned without writing and \<open>Some (Some v)\<close> when its
  exchange stored \<open>v\<close>.
\<close>

fun seed_to_loop :: "u64 \<Rightarrow> u64 \<Rightarrow> u64 list \<Rightarrow> u64 option option" where
  "seed_to_loop target current [] = (if current \<ge> target then Some None else None)"
| "seed_to_loop target current (c # obs) =
     (if current \<ge> target then Some None
      else if c = current then Some (Some target)
      else seed_to_loop target c obs)"

text \<open>Without interference the counter is what the loop read.\<close>

definition seed_to :: "u64 \<Rightarrow> u64 \<Rightarrow> u64" where
  "seed_to target counter =
     (case seed_to_loop target counter [counter] of Some (Some v) \<Rightarrow> v | _ \<Rightarrow> counter)"

section \<open>Jobs and outcomes\<close>

datatype Job =
    Parse (job_file_path: path) (job_shard_root: path)
  | Scan (job_file_path: path) (job_ast_id: "u64 option") (job_shard_root: path)
  | Embed (job_node_qualified: string) (job_text: string) (job_shard_root: path)
  | Ingest (job_md_file: path) (job_shard_root: path)

fun pool_prefix :: "Job \<Rightarrow> string" where
  "pool_prefix (Parse _ _) = ''parser-worker-''"
| "pool_prefix (Scan _ _ _) = ''scanner-worker-''"
| "pool_prefix (Embed _ _ _) = ''brain-worker''"
| "pool_prefix (Ingest _ _) = ''md-ingest-worker''"

fun kind_label :: "Job \<Rightarrow> string" where
  "kind_label (Parse _ _) = ''parse''"
| "kind_label (Scan _ _ _) = ''scan''"
| "kind_label (Embed _ _ _) = ''embed''"
| "kind_label (Ingest _ _) = ''ingest''"

datatype JobOutcome =
    OutcomeOk (out_payload: "json option") (out_duration_ms: u64) (out_stats: json)
  | OutcomeErr (out_message: string) (out_duration_ms: u64) (out_stats: json)

fun is_ok :: "JobOutcome \<Rightarrow> bool" where
  "is_ok (OutcomeOk _ _ _) = True"
| "is_ok (OutcomeErr _ _ _) = False"

fun outcome_duration_ms :: "JobOutcome \<Rightarrow> u64" where
  "outcome_duration_ms (OutcomeOk _ d _) = d"
| "outcome_duration_ms (OutcomeErr _ d _) = d"

fun outcome_stats :: "JobOutcome \<Rightarrow> json" where
  "outcome_stats (OutcomeOk _ _ s) = s"
| "outcome_stats (OutcomeErr _ _ s) = s"

definition status_str :: "JobOutcome \<Rightarrow> string" where
  "status_str o' = (if is_ok o' then ''ok'' else ''error'')"

section \<open>Properties\<close>

lemma seed_to_max: "seed_to target counter = max counter target"
  by (auto simp: seed_to_def max_def)

text \<open>
  Identifiers handed out in a row are consecutive; they are distinct until the counter has gone
  all the way round.
\<close>

fun JobId_next_n :: "nat \<Rightarrow> u64 \<Rightarrow> JobId list" where
  "JobId_next_n 0 counter = []"
| "JobId_next_n (Suc n) counter =
     (let (id, counter') = JobId_next counter in id # JobId_next_n n counter')"

lemma JobId_next_n_conv: "JobId_next_n n counter = map (\<lambda>i. counter + of_nat i) [0..<n]"
proof (induction n arbitrary: counter)
  case (Suc n)
  have "[0..<Suc n] = 0 # map Suc [0..<n]"
    by (simp add: map_Suc_upt upt_conv_Cons)
  with Suc show ?case
    by (simp add: JobId_next_def algebra_simps)
qed simp

lemma distinct_JobId_next_n:
  assumes "n < 2 ^ 64"
  shows "distinct (JobId_next_n n counter)"
proof -
  have "inj_on (\<lambda>i. counter + (of_nat i :: u64)) {0..<n}"
    using assms by (auto simp: inj_on_def word_of_nat_eq_iff take_bit_nat_eq_self)
  then show ?thesis by (simp add: JobId_next_n_conv distinct_map)
qed

lemma seed_to_loop_written: "seed_to_loop target current obs = Some (Some v) \<Longrightarrow> v = target"
  by (induction target current obs rule: seed_to_loop.induct) (auto split: if_splits)

text \<open>
  Every failed exchange means that another thread raised the counter, so the distance to the
  target bounds the number of attempts.
\<close>

lemma seed_to_loop_bounded:
  assumes "sorted_wrt (<) (current # obs)" and "unat target - unat current \<le> length obs"
  shows "seed_to_loop target current obs = Some None \<and> (\<exists>c \<in> set (current # obs). target \<le> c)"
  using assms
proof (induction target current obs rule: seed_to_loop.induct)
  case (1 target current)
  then show ?case by (auto simp: word_le_nat_alt)
next
  case (2 target current c obs)
  show ?case
  proof (cases "target \<le> current")
    case False
    from "2.prems" have "unat current < unat c"
      by (simp add: word_less_nat_alt)
    with "2.prems" have "unat target - unat c \<le> length obs" by simp
    with 2 False show ?thesis by auto
  qed simp
qed

text \<open>
  Identifiers drawn one after another from the shared counter are pairwise distinct as long
  as fewer than \<open>2^64\<close> of them are drawn, and after \<open>seed_to target\<close> none of them is below \<open>target\<close>
  while the counter has not wrapped round.
\<close>

theorem JobId_next_distinct_and_seeded:
  assumes "n < 2 ^ 64" and "unat (seed_to target counter) + n < 2 ^ 64"
  shows "distinct (JobId_next_n n counter) \<and>
    (\<forall>id \<in> set (JobId_next_n n (seed_to target counter)). target \<le> id)"
proof
  show "distinct (JobId_next_n n counter)" using assms(1) by (rule distinct_JobId_next_n)
next
  show "\<forall>id \<in> set (JobId_next_n n (seed_to target counter)). target \<le> id"
  proof (clarsimp simp: JobId_next_n_conv)
    fix i
    assume "i < n"
    let ?c = "seed_to target counter"
    have "unat (of_nat i :: u64) = i"
      using \<open>i < n\<close> assms(1) by (simp add: unat_of_nat take_bit_nat_eq_self)
    then have "unat (?c + of_nat i) = unat ?c + i"
      using \<open>i < n\<close> assms(2) by (subst unat_word_ariths) simp
    moreover have "target \<le> ?c" by (simp add: seed_to_max)
    ultimately show "target \<le> ?c + of_nat i"
      by (simp add: word_le_nat_alt)
  qed
qed

theorem JobId_next_distinct_and_seeded_witness:
  "distinct (JobId_next_n 3 1) \<and> list_all (\<lambda>id. 100 \<le> id) (JobId_next_n 3 (seed_to 100 1))"
proof -
  have "unat (seed_to 100 1) + 3 < 2 ^ 64"
    by (simp add: seed_to_max max_def)
  then show ?thesis
    using JobId_next_distinct_and_seeded[of 3 100 1] unfolding list_all_iff by simp
qed

end
