(* ===== verification/Supervisor_Error.thy ===== *)
theory Supervisor_Error
  imports Mneme_Prelude
begin

text \<open>
  The supervisor's error type (\<open>supervisor/src/error.rs\<close>). An \<open>io::Error\<close> is its kind and its text;
  only the three kinds the sources match on are told apart. The errors of the JSON and TOML libraries
  are their texts.
\<close>

datatype io_error_kind = NotFound | PermissionDenied | UnexpectedEof | OtherKind

datatype io_error = IoError (io_kind: io_error_kind) (io_text: string)

datatype SupervisorError =
    Spawn (spawn_name: string) (spawn_source: io_error)
  | RestartBudgetExceeded (rbe_name: string) (rbe_restarts: u32) (rbe_window_secs: u64)
  | HeartbeatMissed (hbm_name: string) (hbm_missed_ms: u64) (hbm_limit_ms: u64)
  | Io io_error
  | Json string
  | TomlDe string
  | Http string
  | Ipc string
  | Config string
  | Other string

type_synonym 'a sup_result = "SupervisorError + 'a"

text \<open>The \<open>Display\<close> texts of the \<open>error\<close> attributes.\<close>

fun sup_error_text :: "SupervisorError \<Rightarrow> string" where
  "sup_error_text (Spawn n e) = ''child '' @ quoted n @ '' spawn failed: '' @ io_text e"
| "sup_error_text (RestartBudgetExceeded n r w) =
     ''child '' @ quoted n @ '' exceeded restart budget ('' @ show_nat (unat r) @ '' in '' @ show_nat (unat w) @ ''s)''"
| "sup_error_text (HeartbeatMissed n m l) =
     ''child '' @ quoted n @ '' missed heartbeat for '' @ show_nat (unat m) @ ''ms (limit '' @ show_nat (unat l) @ ''ms)''"
| "sup_error_text (Io e) = ''io error: '' @ io_text e"
| "sup_error_text (Json e) = ''json error: '' @ e"
| "sup_error_text (TomlDe e) = ''toml deserialize error: '' @ e"
| "sup_error_text (Http e) = ''http server error: '' @ e"
| "sup_error_text (Ipc e) = ''ipc error: '' @ e"
| "sup_error_text (Config e) = ''invalid configuration: '' @ e"
| "sup_error_text (Other e) = ''internal error: '' @ e"

end
