(* ===== verification/Durable_Queue.thy ===== *)
theory Durable_Queue
  imports Jobs Supervisor_Error
begin

text \<open>
  The disk-backed job table (\<open>supervisor/src/job_queue_db.rs\<close>). The table \<open>jobs\<close> of \<open>jobs.db\<close> is a
  list of rows in ascending rowid order, the order SQLite stores and scans a rowid table in; each
  statement of the source is an operation on that list. What SQLite answers to a statement
  (\<open>sql_result\<close>) and the JSON codec of \<open>serde_json\<close> are parameters.

  The interface \<open>job_store\<close> states what the in-memory queue relies on, without the columns; its lemmas
  say which jobs a restarted supervisor finds. The table operations interpret it.
\<close>

section \<open>The table\<close>

record job_row =
  row_kind :: string
  row_payload :: bytes
  row_state :: string
  row_assigned_to :: "string option"
  row_enqueued_at :: i64
  row_started_at :: "i64 option"
  row_finished_at :: "i64 option"
  row_error :: "string option"

type_synonym jobs_table = "(i64 \<times> job_row) list"

datatype sql_result = SqlOk | SqlPrep string | SqlExec string | SqlRow string

record codec =
  to_vec :: "Job \<Rightarrow> bytes option"
  from_slice :: "bytes \<Rightarrow> Job option"

text \<open>\<open>INSERT OR REPLACE\<close> on the primary key, and \<open>UPDATE ... WHERE\<close>.\<close>

fun tbl_put :: "i64 \<Rightarrow> job_row \<Rightarrow> jobs_table \<Rightarrow> jobs_table" where
  "tbl_put k r [] = [(k, r)]"
| "tbl_put k r ((k', r') # t) =
     (if k < k' then (k, r) # (k', r') # t
      else if k = k' then (k, r) # t
      else (k', r') # tbl_put k r t)"

definition tbl_update :: "(i64 \<Rightarrow> job_row \<Rightarrow> bool) \<Rightarrow> (job_row \<Rightarrow> job_row) \<Rightarrow> jobs_table \<Rightarrow> jobs_table" where
  "tbl_update P f t = map (\<lambda>(k, r). (k, if P k r then f r else r)) t"

section \<open>Operations\<close>

text \<open>
  \<open>open\<close>: the parent directory, the connection, two pragmas and the schema, each of which may fail
  with an error text; the third pragma's failure is ignored. \<open>CREATE TABLE IF NOT EXISTS\<close> keeps the
  rows that are there.
\<close>

definition dq_open ::
  "path \<Rightarrow> path option \<Rightarrow> string option \<Rightarrow> string option \<Rightarrow> string option \<Rightarrow> string option \<Rightarrow>
   string option \<Rightarrow> jobs_table \<Rightarrow> jobs_table sup_result" where
  "dq_open db_path parent mkdir conn wal synchronous schema rows =
     (case (parent, mkdir) of
        (Some d, Some e) \<Rightarrow> Inl (Other (''create jobs.db parent '' @ d @ '': '' @ e))
      | _ \<Rightarrow>
     (case conn of Some e \<Rightarrow> Inl (Other (''open jobs.db at '' @ db_path @ '': '' @ e)) | None \<Rightarrow>
     (case wal of Some e \<Rightarrow> Inl (Other (''set WAL: '' @ e)) | None \<Rightarrow>
     (case synchronous of Some e \<Rightarrow> Inl (Other (''set synchronous: '' @ e)) | None \<Rightarrow>
     (case schema of Some e \<Rightarrow> Inl (Other (''create jobs schema: '' @ e)) | None \<Rightarrow> Inr rows)))))"

text \<open>\<open>conn.execute(..).map_err(..)\<close>, and the prepare, execute and step errors of a query.\<close>

fun exec_sql :: "string \<Rightarrow> sql_result \<Rightarrow> 'a \<Rightarrow> 'a sup_result" where
  "exec_sql op SqlOk v = Inr v"
| "exec_sql op (SqlPrep e) v = Inl (Other (op @ '': '' @ e))"
| "exec_sql op (SqlExec e) v = Inl (Other (op @ '': '' @ e))"
| "exec_sql op (SqlRow e) v = Inl (Other (op @ '': '' @ e))"

fun query_sql :: "string \<Rightarrow> sql_result \<Rightarrow> 'a \<Rightarrow> 'a sup_result" where
  "query_sql op SqlOk v = Inr v"
| "query_sql op (SqlPrep e) v = Inl (Other (''prep '' @ op @ '': '' @ e))"
| "query_sql op (SqlExec e) v = Inl (Other (''exec '' @ op @ '': '' @ e))"
| "query_sql op (SqlRow e) v = Inl (Other (''row '' @ op @ '': '' @ e))"

definition push_row :: "string \<Rightarrow> i64 \<Rightarrow> JobId \<Rightarrow> bytes \<Rightarrow> jobs_table \<Rightarrow> jobs_table" where
  "push_row kind now jid p t =
     tbl_put (u64_as_i64 jid)
       \<lparr>row_kind = kind, row_payload = p, row_state = ''queued'', row_assigned_to = None,
        row_enqueued_at = now, row_started_at = None, row_finished_at = None, row_error = None\<rparr> t"

definition dq_push ::
  "codec \<Rightarrow> sql_result \<Rightarrow> i64 \<Rightarrow> JobId \<Rightarrow> Job \<Rightarrow> jobs_table \<Rightarrow> jobs_table sup_result" where
  "dq_push cd sql now jid job t =
     (case to_vec cd job of
        None \<Rightarrow> Inl (Json ''serialize'')
      | Some p \<Rightarrow> exec_sql ''durable push'' sql (push_row (kind_label job) now jid p t))"

definition dq_next_queued ::
  "codec \<Rightarrow> sql_result \<Rightarrow> jobs_table \<Rightarrow> (JobId \<times> Job) option sup_result" where
  "dq_next_queued cd sql t =
     (case query_sql ''next_queued'' sql t of
        Inl e \<Rightarrow> Inl e
      | Inr rows \<Rightarrow>
          (case find (\<lambda>(k, r). row_state r = ''queued'') rows of
             None \<Rightarrow> Inr None
           | Some (k, r) \<Rightarrow>
               (case from_slice cd (row_payload r) of
                  None \<Rightarrow> Inl (Other ''decode job payload'')
                | Some job \<Rightarrow> Inr (Some (i64_as_u64 k, job)))))"

definition mark_in_flight_row :: "i64 \<Rightarrow> JobId \<Rightarrow> string \<Rightarrow> jobs_table \<Rightarrow> jobs_table" where
  "mark_in_flight_row now jid worker t =
     tbl_update (\<lambda>k r. k = u64_as_i64 jid)
       (\<lambda>r. r\<lparr>row_state := ''in_flight'', row_assigned_to := Some worker,
               row_started_at := Some now\<rparr>) t"

definition dq_mark_in_flight ::
  "sql_result \<Rightarrow> i64 \<Rightarrow> JobId \<Rightarrow> string \<Rightarrow> jobs_table \<Rightarrow> jobs_table sup_result" where
  "dq_mark_in_flight sql now jid worker t =
     exec_sql ''mark_in_flight'' sql (mark_in_flight_row now jid worker t)"

definition requeue_row :: "JobId \<Rightarrow> jobs_table \<Rightarrow> jobs_table" where
  "requeue_row jid t =
     tbl_update (\<lambda>k r. k = u64_as_i64 jid)
       (\<lambda>r. r\<lparr>row_state := ''queued'', row_assigned_to := None, row_started_at := None\<rparr>) t"

definition dq_requeue :: "sql_result \<Rightarrow> JobId \<Rightarrow> jobs_table \<Rightarrow> jobs_table sup_result" where
  "dq_requeue sql jid t = exec_sql ''requeue'' sql (requeue_row jid t)"

definition mark_done_row :: "i64 \<Rightarrow> JobId \<Rightarrow> JobOutcome \<Rightarrow> jobs_table \<Rightarrow> jobs_table" where
  "mark_done_row now jid outcome t =
     (let state = (if is_ok outcome then ''done'' else ''failed'');
          err_msg = (case outcome of OutcomeErr message _ _ \<Rightarrow> Some message
                     | OutcomeOk _ _ _ \<Rightarrow> None)
      in tbl_update (\<lambda>k r. k = u64_as_i64 jid)
           (\<lambda>r. r\<lparr>row_state := state, row_finished_at := Some now, row_error := err_msg\<rparr>) t)"

definition dq_mark_done ::
  "sql_result \<Rightarrow> i64 \<Rightarrow> JobId \<Rightarrow> JobOutcome \<Rightarrow> jobs_table \<Rightarrow> jobs_table sup_result" where
  "dq_mark_done sql now jid outcome t = exec_sql ''mark_done'' sql (mark_done_row now jid outcome t)"

record RecoveredJob =
  rj_id :: JobId
  rj_job :: Job
  rj_assigned_to :: "string option"

text \<open>\<open>SELECT ... WHERE state = ? ORDER BY id ASC\<close>, and the decoding loop that skips corrupt rows.\<close>

definition select_state :: "string \<Rightarrow> jobs_table \<Rightarrow> jobs_table" where
  "select_state st t = filter (\<lambda>(k, r). row_state r = st) t"

fun decode_rows :: "codec \<Rightarrow> jobs_table \<Rightarrow> RecoveredJob list" where
  "decode_rows cd [] = []"
| "decode_rows cd ((k, r) # rows) =
     (case from_slice cd (row_payload r) of
        None \<Rightarrow> decode_rows cd rows
      | Some job \<Rightarrow>
          \<lparr>rj_id = i64_as_u64 k, rj_job = job, rj_assigned_to = row_assigned_to r\<rparr>
            # decode_rows cd rows)"

definition dq_recover_in_flight ::
  "codec \<Rightarrow> sql_result \<Rightarrow> jobs_table \<Rightarrow> RecoveredJob list sup_result" where
  "dq_recover_in_flight cd sql t =
     query_sql ''recover'' sql (decode_rows cd (select_state ''in_flight'' t))"

definition dq_recover_queued ::
  "codec \<Rightarrow> sql_result \<Rightarrow> jobs_table \<Rightarrow> RecoveredJob list sup_result" where
  "dq_recover_queued cd sql t =
     query_sql ''recover_queued'' sql (decode_rows cd (select_state ''queued'' t))"

text \<open>\<open>SELECT COALESCE(MAX(id), 0)\<close>, clamped at zero and read back as a \<open>u64\<close>.\<close>

definition max_id_of :: "jobs_table \<Rightarrow> u64" where
  "max_id_of t =
     (let v = (case map fst t of [] \<Rightarrow> 0 | k # ks \<Rightarrow> fold max ks k) in i64_as_u64 (max v 0))"

definition dq_max_id :: "sql_result \<Rightarrow> jobs_table \<Rightarrow> u64 sup_result" where
  "dq_max_id sql t = query_sql ''max_id'' sql (max_id_of t)"

definition requeue_all_rows :: "jobs_table \<Rightarrow> jobs_table" where
  "requeue_all_rows t =
     tbl_update (\<lambda>k r. row_state r = ''in_flight'')
       (\<lambda>r. r\<lparr>row_state := ''queued'', row_assigned_to := None, row_started_at := None\<rparr>) t"

definition dq_requeue_all_in_flight ::
  "sql_result \<Rightarrow> jobs_table \<Rightarrow> (usize \<times> jobs_table) sup_result" where
  "dq_requeue_all_in_flight sql t =
     exec_sql ''requeue_all_in_flight'' sql
       (length (select_state ''in_flight'' t), requeue_all_rows t)"

lemmas dq_row_defs [model_defs] =
  push_row_def mark_in_flight_row_def requeue_row_def mark_done_row_def requeue_all_rows_def

section \<open>The table invariant\<close>

text \<open>Rows in ascending key order, every key an \<open>i64\<close>.\<close>

definition dq_wf :: "jobs_table \<Rightarrow> bool" where
  "dq_wf t \<longleftrightarrow>
     sorted_wrt (<) (map fst t) \<and> (\<forall>k \<in> fst ` set t. u64_as_i64 (i64_as_u64 k) = k)"

lemma dq_wf_Nil [simp, intro]: "dq_wf []"
  by (simp add: dq_wf_def)

lemma fst_set_tbl_put: "fst ` set (tbl_put k r t) = insert k (fst ` set t)"
  by (induction k r t rule: tbl_put.induct) (simp_all add: insert_commute)

lemma sorted_tbl_put: "sorted_wrt (<) (map fst t) \<Longrightarrow> sorted_wrt (<) (map fst (tbl_put k r t))"
  by (induction k r t rule: tbl_put.induct) (auto simp: fst_set_tbl_put)

lemma dq_wf_tbl_put [wf_intros]: "dq_wf t \<Longrightarrow> dq_wf (tbl_put (u64_as_i64 i) r t)"
  by (simp add: dq_wf_def fst_set_tbl_put sorted_tbl_put)

lemma keys_tbl_update [simp]: "map fst (tbl_update P f t) = map fst t"
  by (auto simp: tbl_update_def)

lemma dq_wf_tbl_update [simp, wf_intros]: "dq_wf (tbl_update P f t) = dq_wf t"
proof -
  have "fst ` set (tbl_update P f t) = fst ` set t"
    by (simp flip: set_map)
  then show ?thesis by (simp only: dq_wf_def keys_tbl_update)
qed

lemma map_of_tbl_put: "map_of (tbl_put k r t) = (map_of t)(k \<mapsto> r)"
  by (induction k r t rule: tbl_put.induct) auto

lemma map_of_tbl_update:
  "map_of (tbl_update P f t) k = map_option (\<lambda>r. if P k r then f r else r) (map_of t k)"
  by (induction t) (auto simp: tbl_update_def)

lemma dq_wf_distinct: "dq_wf t \<Longrightarrow> distinct (map fst t)"
  by (simp add: dq_wf_def strict_sorted_iff)

section \<open>The interface the in-memory queue relies on\<close>

text \<open>
  Seen through \<open>row\<close>, the store maps an identifier to the payload and state of its row. A row is live
  when its job is neither done nor failed.
\<close>

definition live_of :: "(bytes \<times> string) option \<Rightarrow> bytes option" where
  "live_of r = (case r of None \<Rightarrow> None
     | Some (p, st) \<Rightarrow> if st = ''queued'' \<or> st = ''in_flight'' then Some p else None)"

locale job_store =
  fixes row :: "'t \<Rightarrow> JobId \<Rightarrow> (bytes \<times> string) option"
    and ok :: "'t \<Rightarrow> bool"
    and push :: "JobId \<Rightarrow> bytes \<Rightarrow> 't \<Rightarrow> 't"
    and start :: "JobId \<Rightarrow> string \<Rightarrow> 't \<Rightarrow> 't"
    and put_back :: "JobId \<Rightarrow> 't \<Rightarrow> 't"
    and finish :: "JobId \<Rightarrow> JobOutcome \<Rightarrow> 't \<Rightarrow> 't"
    and flip :: "'t \<Rightarrow> 't"
    and queued :: "'t \<Rightarrow> (JobId \<times> bytes) list"
  assumes row_push: "row (push i p t) = (row t)(i \<mapsto> (p, ''queued''))"
    and row_start: "row (start i w t) =
      (row t)(i := map_option (\<lambda>(p, _). (p, ''in_flight'')) (row t i))"
    and row_put_back: "row (put_back i t) = (row t)(i := map_option (\<lambda>(p, _). (p, ''queued'')) (row t i))"
    and row_finish: "row (finish i out t) =
      (row t)(i := map_option (\<lambda>(p, _). (p, if is_ok out then ''done'' else ''failed'')) (row t i))"
    and row_flip: "row (flip t) i =
      map_option (\<lambda>(p, st). (p, if st = ''in_flight'' then ''queued'' else st)) (row t i)"
    and queued_iff: "ok t \<Longrightarrow> (i, p) \<in> set (queued t) \<longleftrightarrow> row t i = Some (p, ''queued'')"
    and ok_push: "ok t \<Longrightarrow> ok (push i p t)"
    and ok_start: "ok t \<Longrightarrow> ok (start i w t)"
    and ok_put_back: "ok t \<Longrightarrow> ok (put_back i t)"
    and ok_finish: "ok t \<Longrightarrow> ok (finish i out t)"
    and ok_flip: "ok t \<Longrightarrow> ok (flip t)"
begin

lemmas ok_ops = ok_push ok_start ok_put_back ok_finish ok_flip

lemma live_push: "live_of (row (push i p t) j) = (if j = i then Some p else live_of (row t j))"
  by (simp add: row_push live_of_def)

lemma start_keeps_live: "live_of (row t j) = Some p \<Longrightarrow> live_of (row (start i w t) j) = Some p"
  by (auto simp: row_start live_of_def split: option.splits if_splits)

lemma put_back_keeps_live: "live_of (row t j) = Some p \<Longrightarrow> live_of (row (put_back i t) j) = Some p"
  by (auto simp: row_put_back live_of_def split: option.splits if_splits)

lemma live_finish: "live_of (row (finish i out t) j) = (if j = i then None else live_of (row t j))"
  by (auto simp: row_finish live_of_def split: option.splits)

lemma start_resurrects:
  "live_of (row (start i w (finish i out t)) i) = map_option fst (row t i)"
  by (auto simp: row_finish row_start live_of_def split: option.splits)

lemma recovered_iff_live:
  assumes "ok t"
  shows "(i, p) \<in> set (queued (flip t)) \<longleftrightarrow> live_of (row t i) = Some p"
proof -
  have "(i, p) \<in> set (queued (flip t)) \<longleftrightarrow> row (flip t) i = Some (p, ''queued'')"
    by (rule queued_iff) (rule ok_flip[OF assms])
  also have "\<dots> \<longleftrightarrow> live_of (row t i) = Some p"
    by (cases "row t i") (auto simp: row_flip live_of_def split: if_splits)
  finally show ?thesis .
qed

end

definition dq_row :: "jobs_table \<Rightarrow> JobId \<Rightarrow> (bytes \<times> string) option" where
  "dq_row t i = map_option (\<lambda>r. (row_payload r, row_state r)) (map_of t (u64_as_i64 i))"

definition dq_queued :: "jobs_table \<Rightarrow> (JobId \<times> bytes) list" where
  "dq_queued t = map (\<lambda>(k, r). (i64_as_u64 k, row_payload r)) (select_state ''queued'' t)"

lemma dq_queued_iff:
  assumes "dq_wf t"
  shows "(i, p) \<in> set (dq_queued t) \<longleftrightarrow> dq_row t i = Some (p, ''queued'')"
proof -
  have key: "u64_as_i64 (i64_as_u64 k) = k" if "(k, r) \<in> set t" for k r
    using assms that by (force simp: dq_wf_def)
  have "(i, p) \<in> set (dq_queued t) \<longleftrightarrow>
      (\<exists>k r. (k, r) \<in> set t \<and> row_state r = ''queued'' \<and> i64_as_u64 k = i \<and> row_payload r = p)"
    by (auto simp: dq_queued_def select_state_def image_iff)
  also have "\<dots> \<longleftrightarrow>
      (\<exists>r. (u64_as_i64 i, r) \<in> set t \<and> row_state r = ''queued'' \<and> row_payload r = p)"
    by (metis key i64_as_u64_as_i64)
  also have "\<dots> \<longleftrightarrow> dq_row t i = Some (p, ''queued'')"
    using assms by (auto simp: dq_row_def dq_wf_distinct)
  finally show ?thesis .
qed

interpretation dq: job_store dq_row dq_wf "push_row kind now" "mark_in_flight_row now'" requeue_row
  "mark_done_row now''" requeue_all_rows dq_queued for kind now now' now''
proof (unfold_locales, goal_cases)
  case (5 t i)
  then show ?case
    by (cases "map_of t (u64_as_i64 i)") (auto simp: dq_row_defs dq_row_def map_of_tbl_update)
next
  case (6 t i p)
  then show ?case by (rule dq_queued_iff)
qed (auto simp: dq_row_defs dq_row_def map_of_tbl_put map_of_tbl_update fun_eq_iff Let_def
      option.map_comp comp_def split_beta dq_wf_tbl_put split: option.splits)

section \<open>Recovery and identifier seeding\<close>

lemma set_decode_rows:
  "\<rho> \<in> set (decode_rows cd rows) \<longleftrightarrow>
     (\<exists>k r job. (k, r) \<in> set rows \<and> from_slice cd (row_payload r) = Some job \<and>
        \<rho> = \<lparr>rj_id = i64_as_u64 k, rj_job = job, rj_assigned_to = row_assigned_to r\<rparr>)"
  by (induction cd rows rule: decode_rows.induct) (fastforce split: option.splits)+

lemma decode_rows_ids_sorted:
  "sorted_wrt (<) (map fst rows) \<Longrightarrow> \<forall>k \<in> fst ` set rows. u64_as_i64 (i64_as_u64 k) = k \<Longrightarrow>
   sorted_wrt (<) (map (\<lambda>\<rho>. u64_as_i64 (rj_id \<rho>)) (decode_rows cd rows))"
  by (induction cd rows rule: decode_rows.induct)
    (fastforce simp: set_decode_rows split: option.splits)+

lemma recovered_job_iff:
  assumes "dq_wf t"
  shows "(\<exists>\<rho> \<in> set (decode_rows cd (select_state ''queued'' (requeue_all_rows t))).
            rj_id \<rho> = i \<and> rj_job \<rho> = job) \<longleftrightarrow>
         (\<exists>p. live_of (dq_row t i) = Some p \<and> from_slice cd p = Some job)"
    (is "?L \<longleftrightarrow> ?R")
proof -
  have "?L \<longleftrightarrow> (\<exists>p. (i, p) \<in> set (dq_queued (requeue_all_rows t)) \<and> from_slice cd p = Some job)"
    unfolding dq_queued_def set_decode_rows Bex_def by force
  then show ?thesis
    by (simp add: dq.recovered_iff_live[OF assms])
qed

text \<open>A non-negative \<open>i64\<close> compares like the \<open>u64\<close> with the same bits.\<close>

lemma u64_le_of_i64_le:
  assumes "0 \<le> u64_as_i64 a" and "u64_as_i64 a \<le> m" and "m < 2 ^ 63"
  shows "a \<le> i64_as_u64 m"
proof -
  have "uint (i64_as_u64 m) = m"
    using assms by (simp add: i64_as_u64_def uint_word_of_int_eq take_bit_int_eq_self)
  moreover have "uint a = u64_as_i64 a"
  proof -
    have "uint a = take_bit 64 (sint a)"
      using uint_sint[of a] by simp
    also have "\<dots> = sint a"
      using assms sint_lt[of a] by (simp add: u64_as_i64_def take_bit_int_eq_self)
    finally show ?thesis by (simp add: u64_as_i64_def)
  qed
  ultimately show ?thesis
    using assms by (simp add: word_le_def)
qed

lemma fold_max_ge: "x \<in> set (k # ks) \<Longrightarrow> x \<le> fold max ks (k :: int)"
proof -
  have "fold max ks k = Max (set (k # ks))"
    by (simp only: Max.set_eq_fold)
  then show "x \<in> set (k # ks) \<Longrightarrow> x \<le> fold max ks k" by simp
qed

lemma fold_max_in: "fold max ks (k :: int) \<in> set (k # ks)"
  using Max_in[of "set (k # ks)"] by (simp only: Max.set_eq_fold[symmetric]) simp

text \<open>
  On a well-formed table, every stored identifier whose \<open>i64\<close> form is not negative is at most
  \<open>max_id\<close>, so the identifiers \<open>with_durable\<close> seeds past it do not collide with a stored row.
\<close>

theorem max_id_bounds_rows:
  assumes "dq_wf t" and "dq_row t i \<noteq> None" and "0 \<le> u64_as_i64 i"
  shows "\<exists>m. dq_max_id SqlOk t = Inr m \<and> i \<le> m"
proof -
  let ?ks = "map fst t"
  have mem: "u64_as_i64 i \<in> set ?ks"
    using assms(2) hm_get_iff_keys[of t "u64_as_i64 i"] by (simp add: dq_row_def hm_keys_def)
  then obtain k ks where ks: "?ks = k # ks" by (cases ?ks) auto
  let ?v = "fold max ks k"
  have "u64_as_i64 i \<le> ?v"
    using mem unfolding ks by (rule fold_max_ge)
  moreover have "?v < 2 ^ 63"
  proof -
    have "?v \<in> set ?ks" unfolding ks by (rule fold_max_in)
    then have "u64_as_i64 (i64_as_u64 ?v) = ?v"
      using assms(1) by (auto simp: dq_wf_def)
    then show ?thesis
      using sint_lt[of "i64_as_u64 ?v"] by (simp add: u64_as_i64_def)
  qed
  ultimately have "i \<le> i64_as_u64 ?v"
    using assms(3) by (intro u64_le_of_i64_le)
  moreover have "max ?v 0 = ?v"
    using \<open>u64_as_i64 i \<le> ?v\<close> assms(3) by simp
  ultimately show ?thesis
    by (simp add: dq_max_id_def max_id_of_def ks)
qed

theorem max_id_bounds_rows_witness:
  "\<exists>m. dq_max_id SqlOk (push_row ''parse'' 0 7 [] []) = Inr m \<and> 7 \<le> m"
  by (rule max_id_bounds_rows)
    (simp_all add: dq.ok_push dq.row_push, simp add: u64_as_i64_def)

end
