(* ===== verification/Job_Queue.thy ===== *)
theory Job_Queue
  imports Durable_Queue
begin

text \<open>
  The supervisor's job queue (\<open>supervisor/src/job_queue.rs\<close>). Every method takes the queue's lock for
  its whole effect on \<open>Inner\<close> and is one state transformer here, with its writes to the disk, which the source does
  after it has let go of the lock (\<open>submit\<close> before). \<open>Queue_Interleaving\<close> takes the two apart and lets other tasks run
  in between. The record holds \<open>Inner\<close>, the capacity,
  the optional disk table and what the method makes visible outside: whether the router has been
  notified and which outcomes were sent on the one-shot wakers (a waker is named by a number).
  A disk failure is logged by the source and otherwise ignored, which \<open>mirror\<close> does.
\<close>

section \<open>State\<close>

record Tracked =
  trk_job :: Job
  trk_assigned_to :: "string option"
  trk_enqueued_at :: instant
  trk_waker :: "nat option"

record JobQueue =
  pending :: "JobId list"
  tracked :: "(JobId, Tracked) hmap"
  in_flight :: "(JobId, string) hmap"
  completed_count :: u64
  failed_count :: u64
  requeued_count :: u64
  max_pending :: usize
  durable :: "jobs_table option"
  wake_router :: bool
  woken :: "(nat \<times> JobOutcome) list"

text \<open>What a call finds around it: the JSON codec, SQLite's answer per job, the two clocks.\<close>

record qenv =
  qe_codec :: codec
  qe_sql :: "JobId \<Rightarrow> sql_result"
  qe_unix_ms :: i64
  qe_instant :: instant

section \<open>Operations\<close>

definition mirror :: "(jobs_table \<Rightarrow> jobs_table sup_result) \<Rightarrow> JobQueue \<Rightarrow> JobQueue" where
  "mirror f q = (case durable q of None \<Rightarrow> q
     | Some t \<Rightarrow> (case f t of Inl e \<Rightarrow> q | Inr t' \<Rightarrow> q\<lparr>durable := Some t'\<rparr>))"

definition jq_new :: "usize \<Rightarrow> JobQueue" where
  "jq_new cap =
     \<lparr>pending = [], tracked = [], in_flight = [], completed_count = 0, failed_count = 0,
      requeued_count = 0, max_pending = cap, durable = None, wake_router = False, woken = []\<rparr>"

text \<open>\<open>with_durable\<close> also seeds the shared identifier counter, which it returns.\<close>

definition jq_with_durable ::
  "sql_result \<Rightarrow> usize \<Rightarrow> jobs_table \<Rightarrow> u64 \<Rightarrow> (JobQueue \<times> u64) sup_result" where
  "jq_with_durable sql cap t counter =
     (case dq_max_id sql t of
        Inl e \<Rightarrow> Inl e
      | Inr max_id \<Rightarrow>
          Inr ((jq_new cap)\<lparr>durable := Some t\<rparr>,
               if max_id > 0 then seed_to (max_id + 1) counter else counter))"

fun load_recovered :: "instant \<Rightarrow> RecoveredJob list \<Rightarrow> JobQueue \<Rightarrow> JobQueue" where
  "load_recovered now [] q = q"
| "load_recovered now (r # rs) q =
     load_recovered now rs
       (q\<lparr>pending := pending q @ [rj_id r],
          tracked := hm_insert (rj_id r)
            \<lparr>trk_job = rj_job r, trk_assigned_to = None, trk_enqueued_at = now, trk_waker = None\<rparr>
            (tracked q)\<rparr>)"

definition jq_recover_from_disk ::
  "codec \<Rightarrow> instant \<Rightarrow> sql_result \<Rightarrow> sql_result \<Rightarrow> JobQueue \<Rightarrow> usize sup_result \<times> JobQueue" where
  "jq_recover_from_disk cd now sql_flip sql_select q =
     (case durable q of
        None \<Rightarrow> (Inr 0, q)
      | Some t \<Rightarrow>
          (case dq_requeue_all_in_flight sql_flip t of
             Inl e \<Rightarrow> (Inl e, q)
           | Inr (flipped, t') \<Rightarrow>
               let q' = q\<lparr>durable := Some t'\<rparr> in
               (case dq_recover_queued cd sql_select t' of
                  Inl e \<Rightarrow> (Inl e, q')
                | Inr queued \<Rightarrow>
                    let n = length queued in
                    (Inr n,
                     if n > 0 then (load_recovered now queued q')\<lparr>wake_router := True\<rparr> else q'))))"

definition jq_submit ::
  "qenv \<Rightarrow> Job \<Rightarrow> nat option \<Rightarrow> u64 \<Rightarrow> JobQueue \<Rightarrow> JobId sup_result \<times> u64 \<times> JobQueue" where
  "jq_submit env job waker counter q =
     (let (jid, counter') = JobId_next counter in
      if length (pending q) + length (in_flight q) \<ge> max_pending q then
        (Inl (Other (''job queue full ('' @ show_nat (max_pending q) @ ''); refusing submit'')),
         counter', q)
      else
        let q1 = mirror (dq_push (qe_codec env) (qe_sql env jid) (qe_unix_ms env) jid job) q in
        (Inr jid, counter',
         q1\<lparr>pending := pending q @ [jid],
            tracked := hm_insert jid
              \<lparr>trk_job = job, trk_assigned_to = None, trk_enqueued_at = qe_instant env,
               trk_waker = waker\<rparr> (tracked q),
            wake_router := True\<rparr>))"

definition jq_next_pending :: "JobQueue \<Rightarrow> (JobId \<times> Job) option \<times> JobQueue" where
  "jq_next_pending q =
     (case pending q of
        [] \<Rightarrow> (None, q)
      | jid # rest \<Rightarrow>
          (map_option (\<lambda>t. (jid, trk_job t)) (hm_get (tracked q) jid), q\<lparr>pending := rest\<rparr>))"

definition jq_mark_assigned :: "qenv \<Rightarrow> JobId \<Rightarrow> string \<Rightarrow> JobQueue \<Rightarrow> JobQueue" where
  "jq_mark_assigned env jid worker q =
     mirror (dq_mark_in_flight (qe_sql env jid) (qe_unix_ms env) jid worker)
       (q\<lparr>tracked := hm_modify jid (\<lambda>t. t\<lparr>trk_assigned_to := Some worker\<rparr>) (tracked q),
          in_flight := hm_insert jid worker (in_flight q)\<rparr>)"

definition jq_return_pending :: "qenv \<Rightarrow> JobId \<Rightarrow> JobQueue \<Rightarrow> JobQueue" where
  "jq_return_pending env jid q =
     (mirror (dq_requeue (qe_sql env jid) jid)
       (q\<lparr>in_flight := hm_remove jid (in_flight q),
          pending := (if hm_get (tracked q) jid \<noteq> None then jid # pending q else pending q)\<rparr>))
     \<lparr>wake_router := True\<rparr>"

definition jq_complete ::
  "qenv \<Rightarrow> JobId \<Rightarrow> JobOutcome \<Rightarrow> JobQueue \<Rightarrow> string option \<times> JobQueue" where
  "jq_complete env jid outcome q =
     (let q1 = q\<lparr>in_flight := hm_remove jid (in_flight q)\<rparr> in
      case hm_get (tracked q) jid of
        None \<Rightarrow> (None, q1)
      | Some t \<Rightarrow>
          let q2 = q1\<lparr>tracked := hm_remove jid (tracked q)\<rparr>;
              q3 = (if is_ok outcome then q2\<lparr>completed_count := completed_count q + 1\<rparr>
                    else q2\<lparr>failed_count := failed_count q + 1\<rparr>);
              q4 = mirror (dq_mark_done (qe_sql env jid) (qe_unix_ms env) jid outcome) q3;
              q5 = (case trk_waker t of None \<Rightarrow> q4
                    | Some w \<Rightarrow> q4\<lparr>woken := woken q @ [(w, outcome)]\<rparr>)
          in (trk_assigned_to t, q5))"

text \<open>\<open>requeue_worker\<close>: the in-memory loop over the collected ids, then the disk loop over them.\<close>

definition requeue_one :: "JobId \<Rightarrow> JobQueue \<Rightarrow> JobQueue" where
  "requeue_one jid q =
     q\<lparr>in_flight := hm_remove jid (in_flight q),
       tracked := hm_modify jid (\<lambda>t. t\<lparr>trk_assigned_to := None\<rparr>) (tracked q),
       pending := jid # pending q,
       requeued_count := requeued_count q + 1\<rparr>"

definition worker_jobs :: "string \<Rightarrow> JobQueue \<Rightarrow> JobId list" where
  "worker_jobs worker q = map fst (filter (\<lambda>(_, w). w = worker) (in_flight q))"

definition jq_requeue_worker :: "qenv \<Rightarrow> string \<Rightarrow> JobQueue \<Rightarrow> usize \<times> JobQueue" where
  "jq_requeue_worker env worker q =
     (let ids = worker_jobs worker q;
          q1 = fold requeue_one ids q;
          n = length ids
      in (n, if n > 0
             then (fold (\<lambda>jid. mirror (dq_requeue (qe_sql env jid) jid)) ids q1)\<lparr>wake_router := True\<rparr>
             else q1))"

record JobQueueSnapshot =
  snap_pending :: usize
  snap_in_flight :: usize
  snap_completed :: u64
  snap_failed :: u64
  snap_requeued :: u64

definition jq_snapshot :: "JobQueue \<Rightarrow> JobQueueSnapshot" where
  "jq_snapshot q =
     \<lparr>snap_pending = length (pending q), snap_in_flight = length (in_flight q),
      snap_completed = completed_count q, snap_failed = failed_count q,
      snap_requeued = requeued_count q\<rparr>"

lemmas jq_defs [model_defs] =
  jq_submit_def jq_next_pending_def jq_mark_assigned_def jq_return_pending_def jq_complete_def
  jq_requeue_worker_def requeue_one_def

section \<open>What the disk mirror leaves alone\<close>

lemma mirror_frame [simp]:
  "pending (mirror f q) = pending q" "tracked (mirror f q) = tracked q"
  "in_flight (mirror f q) = in_flight q" "max_pending (mirror f q) = max_pending q"
  "completed_count (mirror f q) = completed_count q" "failed_count (mirror f q) = failed_count q"
  "requeued_count (mirror f q) = requeued_count q" "woken (mirror f q) = woken q"
  by (simp_all add: mirror_def split: option.splits sum.splits)

lemma fold_mirror_frame [simp]:
  "pending (fold (\<lambda>i. mirror (f i)) is q) = pending q"
  "tracked (fold (\<lambda>i. mirror (f i)) is q) = tracked q"
  "in_flight (fold (\<lambda>i. mirror (f i)) is q) = in_flight q"
  "max_pending (fold (\<lambda>i. mirror (f i)) is q) = max_pending q"
  "requeued_count (fold (\<lambda>i. mirror (f i)) is q) = requeued_count q"
  by (induction "is" arbitrary: q) simp_all

lemma requeue_one_frame [simp]:
  "max_pending (requeue_one i q) = max_pending q" "durable (requeue_one i q) = durable q"
  "in_flight (requeue_one i q) = hm_remove i (in_flight q)"
  "pending (requeue_one i q) = i # pending q"
  "tracked (requeue_one i q) =
     hm_modify i (\<lambda>t. t\<lparr>trk_assigned_to := None\<rparr>) (tracked q)"
  "requeued_count (requeue_one i q) = requeued_count q + 1"
  by (simp_all add: requeue_one_def)

lemma fold_requeue_one:
  "pending (fold requeue_one ids q) = rev ids @ pending q"
  "max_pending (fold requeue_one ids q) = max_pending q"
  "durable (fold requeue_one ids q) = durable q"
  "requeued_count (fold requeue_one ids q) = requeued_count q + of_nat (length ids)"
  by (induction ids arbitrary: q) (simp_all add: algebra_simps)

lemma fold_requeue_one_in_flight:
  "hm_get (in_flight (fold requeue_one ids q)) i =
     (if i \<in> set ids then None else hm_get (in_flight q) i)"
  by (induction ids arbitrary: q) auto

lemma fold_requeue_one_job:
  "map_option trk_job (hm_get (tracked (fold requeue_one ids q)) i) =
     map_option trk_job (hm_get (tracked q) i)"
proof (induction ids arbitrary: q)
  case (Cons j ids)
  then show ?case by (cases "hm_get (tracked q) i") auto
qed simp

section \<open>Well-formedness\<close>

definition jq_wf :: "JobQueue \<Rightarrow> bool" where
  "jq_wf q \<longleftrightarrow> hm_wf (tracked q) \<and> hm_wf (in_flight q) \<and>
     (\<forall>t. durable q = Some t \<longrightarrow> dq_wf t)"

text \<open>The disk operations the queue calls keep the table well-formed whatever SQLite answers.\<close>

definition dq_keeps_wf :: "(jobs_table \<Rightarrow> jobs_table sup_result) \<Rightarrow> bool" where
  "dq_keeps_wf f \<longleftrightarrow> (\<forall>t t'. dq_wf t \<longrightarrow> f t = Inr t' \<longrightarrow> dq_wf t')"

lemma exec_sql_Inr [simp]: "exec_sql op sql v = Inr w \<longleftrightarrow> sql = SqlOk \<and> w = v"
  by (cases sql) auto

lemma query_sql_Inr [simp]: "query_sql op sql v = Inr w \<longleftrightarrow> sql = SqlOk \<and> w = v"
  by (cases sql) auto

lemma dq_ops_keep_wf [simp, wf_intros]:
  "dq_keeps_wf (dq_push cd sql now i job)" "dq_keeps_wf (dq_mark_in_flight sql now i w)"
  "dq_keeps_wf (dq_requeue sql i)" "dq_keeps_wf (dq_mark_done sql now i out)"
  by (auto simp: dq_keeps_wf_def dq_push_def dq_mark_in_flight_def dq_requeue_def dq_mark_done_def
      dq.ok_ops split: option.splits)

lemma mirror_durable_wf:
  "dq_keeps_wf f \<Longrightarrow> (\<forall>t. durable q = Some t \<longrightarrow> dq_wf t) \<Longrightarrow> durable (mirror f q) = Some t \<Longrightarrow> dq_wf t"
  by (auto simp: mirror_def dq_keeps_wf_def split: option.splits sum.splits)

lemma jq_wf_mirror [wf_intros]: "dq_keeps_wf f \<Longrightarrow> jq_wf q \<Longrightarrow> jq_wf (mirror f q)"
  by (auto simp: jq_wf_def intro: mirror_durable_wf)

lemma jq_wf_fold_mirror [wf_intros]:
  "(\<And>i. dq_keeps_wf (f i)) \<Longrightarrow> jq_wf q \<Longrightarrow> jq_wf (fold (\<lambda>i. mirror (f i)) is q)"
  by (induction "is" arbitrary: q) (auto intro: wf_intros)

lemma jq_wf_wake [simp]: "jq_wf (q\<lparr>wake_router := b\<rparr>) = jq_wf q"
  by (simp add: jq_wf_def)

lemma jq_wf_requeue_one: "jq_wf q \<Longrightarrow> jq_wf (requeue_one i q)"
  by (simp add: jq_wf_def)

lemma jq_wf_fold_requeue_one: "jq_wf q \<Longrightarrow> jq_wf (fold requeue_one ids q)"
  by (induction ids arbitrary: q) (simp_all add: jq_wf_requeue_one)

lemma jq_wf_new [simp]: "jq_wf (jq_new cap)"
  by (simp add: jq_wf_def jq_new_def)

lemma jq_wf_submit [wf_intros]: "jq_wf q \<Longrightarrow> jq_wf (snd (snd (jq_submit env job w c q)))"
  by (auto simp: jq_submit_def jq_wf_def JobId_next_def Let_def elim!: mirror_durable_wf[rotated 2])

lemma jq_wf_next_pending [wf_intros]: "jq_wf q \<Longrightarrow> jq_wf (snd (jq_next_pending q))"
  by (simp add: jq_next_pending_def jq_wf_def split: list.splits)

lemma jq_wf_mark_assigned [wf_intros]: "jq_wf q \<Longrightarrow> jq_wf (jq_mark_assigned env i w q)"
  by (auto simp: jq_mark_assigned_def intro!: jq_wf_mirror) (simp add: jq_wf_def)

lemma jq_wf_return_pending [wf_intros]: "jq_wf q \<Longrightarrow> jq_wf (jq_return_pending env i q)"
  by (auto simp: jq_return_pending_def intro!: jq_wf_mirror) (simp_all add: jq_wf_def)

lemma jq_wf_complete [wf_intros]: "jq_wf q \<Longrightarrow> jq_wf (snd (jq_complete env i out q))"
  by (auto simp: jq_complete_def jq_wf_def Let_def split: option.splits
      elim!: mirror_durable_wf[rotated 2])

lemma jq_wf_requeue_worker [wf_intros]: "jq_wf q \<Longrightarrow> jq_wf (snd (jq_requeue_worker env w q))"
  by (auto simp: jq_requeue_worker_def Let_def intro!: jq_wf_fold_mirror jq_wf_fold_requeue_one)

section \<open>Outstanding jobs: the abstract view\<close>

text \<open>
  What the queue promises its clients is about the outstanding jobs only: a map from identifiers
  to jobs that \<open>submit\<close> extends, \<open>complete\<close> shrinks and every other operation leaves alone.
\<close>

definition outstanding :: "JobQueue \<Rightarrow> JobId \<Rightarrow> Job option" where
  "outstanding q i = map_option trk_job (hm_get (tracked q) i)"

lemma outstanding_new [simp]: "outstanding (jq_new cap) = Map.empty"
  by (simp add: outstanding_def jq_new_def fun_eq_iff)

lemma outstanding_submit_ok:
  "length (pending q) + length (in_flight q) < max_pending q \<Longrightarrow>
   outstanding (snd (snd (jq_submit env job w c q))) = (outstanding q)(c \<mapsto> job)"
  by (simp add: jq_submit_def JobId_next_def outstanding_def fun_eq_iff Let_def)

lemma outstanding_submit_full:
  "max_pending q \<le> length (pending q) + length (in_flight q) \<Longrightarrow>
   snd (snd (jq_submit env job w c q)) = q"
  by (simp add: jq_submit_def JobId_next_def Let_def)

lemma outstanding_next_pending [simp]: "outstanding (snd (jq_next_pending q)) = outstanding q"
  by (simp add: jq_next_pending_def outstanding_def fun_eq_iff split: list.splits)

lemma outstanding_mark_assigned [simp]: "outstanding (jq_mark_assigned env i w q) = outstanding q"
  by (simp add: jq_mark_assigned_def outstanding_def fun_eq_iff option.map_comp comp_def)

lemma outstanding_return_pending [simp]: "outstanding (jq_return_pending env i q) = outstanding q"
  by (simp add: jq_return_pending_def outstanding_def fun_eq_iff)

lemma outstanding_complete:
  "outstanding (snd (jq_complete env i out q)) = (outstanding q)(i := None)"
  by (auto simp: jq_complete_def outstanding_def fun_eq_iff Let_def split: option.splits)

lemma outstanding_requeue_worker [simp]:
  "outstanding (snd (jq_requeue_worker env w q)) = outstanding q"
  by (simp add: jq_requeue_worker_def outstanding_def fun_eq_iff Let_def fold_requeue_one_job)

lemmas outstanding_simps =
  outstanding_submit_ok outstanding_submit_full outstanding_next_pending outstanding_mark_assigned
  outstanding_return_pending outstanding_complete outstanding_requeue_worker

section \<open>Where an operation puts the identifiers\<close>

lemma requeue_worker_pending:
  "pending (snd (jq_requeue_worker env w q)) = rev (worker_jobs w q) @ pending q"
  by (simp add: jq_requeue_worker_def Let_def fold_requeue_one)

lemma requeue_worker_in_flight:
  "hm_get (in_flight (snd (jq_requeue_worker env w q))) i =
     (if i \<in> set (worker_jobs w q) then None else hm_get (in_flight q) i)"
  by (simp add: jq_requeue_worker_def Let_def fold_requeue_one_in_flight)

lemma worker_jobs_iff:
  "hm_wf (in_flight q) \<Longrightarrow> i \<in> set (worker_jobs w q) \<longleftrightarrow> hm_get (in_flight q) i = Some w"
  by (force simp: worker_jobs_def hm_get_mem)

lemma distinct_worker_jobs: "hm_wf (in_flight q) \<Longrightarrow> distinct (worker_jobs w q)"
  by (simp add: worker_jobs_def hm_wf_def hm_keys_def distinct_map_filter)

lemma length_fold_requeue_one_in_flight:
  "hm_wf (in_flight q) \<Longrightarrow> distinct ids \<Longrightarrow> set ids \<subseteq> set (hm_keys (in_flight q)) \<Longrightarrow>
   length (in_flight (fold requeue_one ids q)) + length ids = length (in_flight q)"
proof (induction ids arbitrary: q)
  case (Cons i ids)
  have "Suc (length (hm_remove i (in_flight q))) = length (in_flight q)"
    using Cons.prems by (intro length_hm_remove_mem) auto
  moreover have "length (in_flight (fold requeue_one ids (requeue_one i q))) + length ids
      = length (in_flight (requeue_one i q))"
    using Cons.prems by (intro Cons.IH) auto
  ultimately show ?case by simp
qed simp

lemma requeue_worker_size:
  assumes "jq_wf q"
  shows "length (pending (snd (jq_requeue_worker env w q)))
       + length (in_flight (snd (jq_requeue_worker env w q)))
       = length (pending q) + length (in_flight q)"
proof -
  have wf: "hm_wf (in_flight q)" using assms by (simp add: jq_wf_def)
  have "set (worker_jobs w q) \<subseteq> set (hm_keys (in_flight q))"
    by (auto simp: worker_jobs_def hm_keys_def)
  from length_fold_requeue_one_in_flight[OF wf distinct_worker_jobs[OF wf] this]
  show ?thesis
    by (simp add: jq_requeue_worker_def Let_def fold_requeue_one)
qed

end
