(* ===== verification/Child.thy ===== *)
theory Child
  imports Supervisor_Error
begin

text \<open>
  Worker descriptions and runtime handles (\<open>supervisor/src/child.rs\<close>) and the restart policy of
  \<open>supervisor/src/config.rs\<close>. Clock readings are arguments. A writable stdin pipe is the byte string
  written to it so far; \<open>None\<close> is a handle without a pipe.

  The two rolling windows of a handle (job durations, latency samples) interpret \<open>bounded_log\<close>.
\<close>

section \<open>Specifications and handles\<close>

type_synonym utc = int

datatype RestartStrategy = Permanent | Transient | Temporary

datatype ChildStatus = Pending | Running | Restarting | Degraded | Stopped

record ChildSpec =
  cs_name :: string
  cs_command :: string
  cs_args :: "string list"
  cs_env :: "(string \<times> string) list"
  cs_restart :: RestartStrategy
  cs_rss_limit_mb :: "u64 option"
  cs_cpu_limit_percent :: "u32 option"
  cs_health_endpoint :: "string option"

record ChildHandle =
  spec :: ChildSpec
  pid :: "u32 option"
  last_started_at :: "utc option"
  last_started_instant :: "instant option"
  last_restart_at :: "utc option"
  restart_count :: u64
  restart_window :: "instant list"
  status :: ChildStatus
  last_exit_code :: "i32 option"
  last_heartbeat :: "instant option"
  total_uptime :: duration
  current_backoff :: duration
  latency_samples_us :: "u64 list"
  stdin :: "string option"
  last_job_id :: "u64 option"
  last_job_duration_ms :: "u64 option"
  last_job_status :: "string option"
  job_durations_ms :: "u64 list"
  last_job_completed_at :: "utc option"
  total_jobs_completed :: u64
  total_jobs_failed :: u64

definition ChildHandle_new :: "ChildSpec \<Rightarrow> duration \<Rightarrow> ChildHandle" where
  "ChildHandle_new sp initial_backoff =
     \<lparr>spec = sp, pid = None, last_started_at = None, last_started_instant = None,
      last_restart_at = None, restart_count = 0, restart_window = [], status = Pending,
      last_exit_code = None, last_heartbeat = None, total_uptime = 0,
      current_backoff = initial_backoff, latency_samples_us = [], stdin = None,
      last_job_id = None, last_job_duration_ms = None, last_job_status = None,
      job_durations_ms = [], last_job_completed_at = None, total_jobs_completed = 0,
      total_jobs_failed = 0\<rparr>"

section \<open>Operations on a handle\<close>

definition record_job_completion ::
  "utc \<Rightarrow> u64 \<Rightarrow> string \<Rightarrow> u64 \<Rightarrow> ChildHandle \<Rightarrow> ChildHandle" where
  "record_job_completion now job_id st dur h =
     (let h1 = h\<lparr>last_job_id := Some job_id, last_job_duration_ms := Some dur,
                 last_job_status := Some st, last_job_completed_at := Some now,
                 job_durations_ms := trim_front 256 (job_durations_ms h @ [dur])\<rparr>
      in if st = ''ok''
         then h1\<lparr>total_jobs_completed := saturating_add_u64 (total_jobs_completed h) 1\<rparr>
         else h1\<lparr>total_jobs_failed := saturating_add_u64 (total_jobs_failed h) 1\<rparr>)"

definition avg_job_ms :: "ChildHandle \<Rightarrow> u64 option" where
  "avg_job_ms h =
     (if job_durations_ms h = [] then None
      else Some (sum_list (job_durations_ms h) div of_nat (length (job_durations_ms h))))"

definition record_restart :: "instant \<Rightarrow> utc \<Rightarrow> duration \<Rightarrow> ChildHandle \<Rightarrow> ChildHandle" where
  "record_restart now wall window h =
     h\<lparr>restart_window :=
         dropWhile (\<lambda>front. duration_since now front > window) (restart_window h @ [now]),
       restart_count := saturating_add_u64 (restart_count h) 1,
       last_restart_at := Some wall\<rparr>"

definition restarts_in_window :: "instant \<Rightarrow> duration \<Rightarrow> ChildHandle \<Rightarrow> u32" where
  "restarts_in_window now window h =
     of_nat (length (filter (\<lambda>t. duration_since now t \<le> window) (restart_window h)))"

definition current_uptime :: "instant \<Rightarrow> ChildHandle \<Rightarrow> duration" where
  "current_uptime now h =
     (case last_started_instant h of Some t \<Rightarrow> duration_since now t | None \<Rightarrow> 0)"

definition record_latency_us :: "u64 \<Rightarrow> ChildHandle \<Rightarrow> ChildHandle" where
  "record_latency_us sample h =
     h\<lparr>latency_samples_us := trim_front 4096 (latency_samples_us h @ [sample])\<rparr>"

text \<open>
  \<open>pick p\<close> computes \<open>floor(len * p)\<close> in \<open>f64\<close>. For the lengths a window can have (at most 4096) and the
  three constants 0.50, 0.95 and 0.99 that product floors to the integer quotient used here.
\<close>

definition pick :: "u64 list \<Rightarrow> nat \<Rightarrow> u64" where
  "pick v p100 = v ! min (length v * p100 div 100) (length v - 1)"

definition latency_percentiles_us :: "ChildHandle \<Rightarrow> (u64 \<times> u64 \<times> u64) option" where
  "latency_percentiles_us h =
     (if latency_samples_us h = [] then None
      else let v = sort (latency_samples_us h) in Some (pick v 50, pick v 95, pick v 99))"

section \<open>Restart policy\<close>

text \<open>
  The multiplier is an \<open>f32\<close>, given by its bit pattern. The one computation with it,
  \<open>(ms as f32 * m) as u64\<close>, is an argument of the functions that use it.
\<close>

record RestartPolicy =
  initial_backoff :: duration
  max_backoff :: duration
  backoff_multiplier :: f32
  max_restarts_per_window :: u32
  budget_window :: duration

definition RestartPolicy_default :: RestartPolicy where
  "RestartPolicy_default =
     \<lparr>initial_backoff = from_millis 100, max_backoff = from_secs 10, backoff_multiplier = 0x40A00000,
      max_restarts_per_window = 5, budget_window = from_secs 60\<rparr>"

section \<open>The rolling windows\<close>

interpretation durations: bounded_log
  "\<lambda>(now, i, st, dur). record_job_completion now i st dur" "\<lambda>(now, i, st, dur). dur"
  job_durations_ms "\<lambda>_. 256"
  "\<lambda>h. length (job_durations_ms h) \<le> 256"
  by unfold_locales (auto simp: record_job_completion_def trim_front_take_last Let_def)

interpretation latencies: bounded_log record_latency_us "\<lambda>x. x" latency_samples_us "\<lambda>_. 4096"
  "\<lambda>h. length (latency_samples_us h) \<le> 4096"
  by unfold_locales (auto simp: record_latency_us_def trim_front_take_last)

lemma pick_index: "v \<noteq> [] \<Longrightarrow> min n (length v - 1) < length v"
  by (cases v) auto

lemma pick_in_set: "v \<noteq> [] \<Longrightarrow> pick v p \<in> set v"
  unfolding pick_def by (intro nth_mem pick_index)

lemma pick_mono:
  assumes "sorted v" and "v \<noteq> []" and "p \<le> p'"
  shows "pick v p \<le> pick v p'"
proof -
  have "length v * p div 100 \<le> length v * p' div 100"
    using assms(3) by (intro div_le_mono mult_le_mono2)
  then have "min (length v * p div 100) (length v - 1) \<le> min (length v * p' div 100) (length v - 1)"
    by (rule min.mono) simp
  with assms(1,2) show ?thesis
    unfolding pick_def by (intro sorted_nth_mono pick_index)
qed

text \<open>
  The latency percentiles are samples of the window and are ordered: p50 <= p95 <= p99.
\<close>

theorem percentiles_ordered_samples:
  assumes "latency_percentiles_us h = Some (p50, p95, p99)"
  shows "p50 \<le> p95 \<and> p95 \<le> p99 \<and> {p50, p95, p99} \<subseteq> set (latency_samples_us h)"
proof -
  let ?v = "sort (latency_samples_us h)"
  from assms have ne: "?v \<noteq> []" and eqs: "p50 = pick ?v 50" "p95 = pick ?v 95" "p99 = pick ?v 99"
    by (auto simp: latency_percentiles_us_def Let_def split: if_splits) (metis set_empty set_sort)
  from ne have "{p50, p95, p99} \<subseteq> set ?v"
    by (simp only: eqs insert_subset pick_in_set empty_subsetI simp_thms)
  moreover have "p50 \<le> p95" "p95 \<le> p99"
    using ne by (simp_all add: eqs pick_mono)
  ultimately show ?thesis by simp
qed

theorem percentiles_ordered_samples_witness:
  "let h = fold record_latency_us [30, 10, 20] (ChildHandle_new undefined 0) in
   latency_percentiles_us h = Some (20, 30, 30) \<and> (20::u64) \<le> 30 \<and>
   {20, 30, 30} \<subseteq> set (latency_samples_us h)"
proof -
  let ?h = "fold record_latency_us [30, 10, 20] (ChildHandle_new undefined 0)"
  have "latency_percentiles_us ?h = Some (20, 30, 30)"
    by (simp add: latency_percentiles_us_def record_latency_us_def ChildHandle_new_def pick_def)
  then show ?thesis
    using percentiles_ordered_samples[of ?h 20 30 30] by (simp add: Let_def)
qed

section \<open>The restart budget\<close>

text \<open>
  A handle that saw restarts at the instants \<open>ts\<close>, each recorded when it happened.
\<close>

fun record_restarts :: "duration \<Rightarrow> instant list \<Rightarrow> ChildHandle \<Rightarrow> ChildHandle" where
  "record_restarts window [] h = h"
| "record_restarts window (t # ts) h = record_restarts window ts (record_restart t 0 window h)"

lemma dropWhile_sorted_filter:
  "sorted ts \<Longrightarrow> dropWhile (\<lambda>t. now - t > w) ts = filter (\<lambda>t. now - t \<le> (w::nat)) ts"
proof (induction ts)
  case (Cons a ts)
  show ?case
  proof (cases "now - a > w")
    case False
    then have "filter (\<lambda>t. now - t \<le> w) ts = ts"
      using Cons.prems by (fastforce simp: filter_id_conv)
    with False show ?thesis by simp
  qed (use Cons in auto)
qed simp

lemma restart_window_step:
  assumes "sorted (restart_window h @ [t])"
  shows "restart_window (record_restart t wall w h) =
         filter (\<lambda>x. t - x \<le> w) (restart_window h) @ [t]"
  using assms by (simp add: record_restart_def duration_since_def dropWhile_sorted_filter)

lemma restart_window_history:
  assumes "sorted (hs @ ts)" and "restart_window h = filter (\<lambda>x. last hs - x \<le> w) hs" and "hs \<noteq> []"
  shows "restart_window (record_restarts w ts h) =
         filter (\<lambda>x. last (hs @ ts) - x \<le> w) (hs @ ts)"
  using assms
proof (induction ts arbitrary: hs h)
  case (Cons t ts)
  have sorted_hs: "sorted hs" and le: "\<forall>x \<in> set hs. x \<le> t"
    using Cons.prems(1) by (auto simp: sorted_append)
  have "restart_window (record_restart t 0 w h) =
      filter (\<lambda>x. t - x \<le> w) (restart_window h) @ [t]"
    using sorted_hs le Cons.prems(2)
    by (intro restart_window_step) (auto simp: sorted_append sorted_wrt_filter)
  also have "filter (\<lambda>x. t - x \<le> w) (restart_window h) = filter (\<lambda>x. t - x \<le> w) hs"
    using le last_in_set[OF Cons.prems(3)] by (auto simp: Cons.prems(2) intro!: filter_cong)
  finally have "restart_window (record_restart t 0 w h) =
      filter (\<lambda>x. last (hs @ [t]) - x \<le> w) (hs @ [t])"
    by simp
  from Cons.IH[OF _ this] Cons.prems(1) show ?case by simp
qed simp

text \<open>
  The pruned deque loses nothing the budget needs: after restarts at the instants \<open>ts\<close> of a clock
  that never goes back, \<open>restarts_in_window\<close> read at the last of them is the number of those instants
  inside the window (as a \<open>u32\<close>).
\<close>

theorem restarts_in_window_counts_history:
  assumes "sorted ts" and "ts \<noteq> []" and "restart_window h = []"
  shows "restarts_in_window (last ts) w (record_restarts w ts h) =
         of_nat (length (filter (\<lambda>t. last ts - t \<le> w) ts))"
proof -
  obtain t ts' where ts: "ts = t # ts'" using assms(2) by (cases ts) auto
  have "restart_window (record_restart t 0 w h) = filter (\<lambda>x. last [t] - x \<le> w) [t]"
    using assms(3) by (simp add: record_restart_def duration_since_def)
  from restart_window_history[OF _ this, of ts'] assms(1)
  have "restart_window (record_restarts w ts h) = filter (\<lambda>x. last ts - x \<le> w) ts"
    by (simp add: ts)
  then show ?thesis by (simp add: restarts_in_window_def duration_since_def)
qed

theorem restarts_in_window_counts_history_witness:
  "restarts_in_window 100 60 (record_restarts 60 [10, 50, 90, 100] (ChildHandle_new undefined 0)) = 3"
  using restarts_in_window_counts_history[of "[10, 50, 90, 100]" "ChildHandle_new undefined 0" 60]
  by (simp add: ChildHandle_new_def)

end
