(* ===== verification/Log_Ring.thy ===== *)
theory Log_Ring
  imports Jobs Child
begin

text \<open>
  The bounded ring of worker log lines (\<open>supervisor/src/log_ring.rs\<close>). \<open>serde_json::from_str\<close> is a
  parameter. The ring interprets \<open>bounded_log\<close>.
\<close>

datatype LogLevel = Trace | Debug | Info | Warn | Error | Fatal

record LogEntry =
  le_timestamp :: utc
  le_child :: string
  le_level :: LogLevel
  le_message :: string
  le_fields :: "json option"

definition LogLevel_default :: LogLevel where
  "LogLevel_default = Info"

definition LogLevel_parse :: "string \<Rightarrow> LogLevel" where
  "LogLevel_parse s =
     (let l = to_ascii_lowercase s in
      if l = ''trace'' then Trace
      else if l = ''debug'' then Debug
      else if l = ''info'' then Info
      else if l = ''warn'' \<or> l = ''warning'' then Warn
      else if l = ''error'' \<or> l = ''err'' then Error
      else if l = ''fatal'' \<or> l = ''critical'' then Fatal
      else Info)"

record LogRing =
  capacity :: usize
  inner :: "LogEntry list"

definition LogRing_new :: "usize \<Rightarrow> LogRing" where
  "LogRing_new cap = \<lparr>capacity = max cap 16, inner = []\<rparr>"

definition lr_push :: "LogEntry \<Rightarrow> LogRing \<Rightarrow> LogRing" where
  "lr_push e r =
     (let guard = (if length (inner r) = capacity r then tl (inner r) else inner r)
      in r\<lparr>inner := guard @ [e]\<rparr>)"

definition parse_log_line :: "(string \<Rightarrow> json option) \<Rightarrow> utc \<Rightarrow> string \<Rightarrow> string \<Rightarrow> LogEntry" where
  "parse_log_line from_str now child line =
     (let trimmed = trim line;
          raw = \<lparr>le_timestamp = now, le_child = child, le_level = Info, le_message = trimmed,
                 le_fields = None\<rparr>
      in if starts_with trimmed ''{'' then
           (case from_str trimmed of
              Some v \<Rightarrow>
                let level = (case Option.bind (json_get v ''level'') as_str of
                               Some s \<Rightarrow> LogLevel_parse s | None \<Rightarrow> LogLevel_default);
                    message = (case Option.bind
                                 (case json_get v ''message'' of
                                    Some x \<Rightarrow> Some x | None \<Rightarrow> json_get v ''msg'') as_str of
                                 Some s \<Rightarrow> s | None \<Rightarrow> trimmed)
                in \<lparr>le_timestamp = now, le_child = child, le_level = level, le_message = message,
                    le_fields = Some v\<rparr>
            | None \<Rightarrow> raw)
         else raw)"

definition lr_push_raw ::
  "(string \<Rightarrow> json option) \<Rightarrow> utc \<times> string \<times> string \<Rightarrow> LogRing \<Rightarrow> LogRing" where
  "lr_push_raw from_str = (\<lambda>(now, child, line) r. lr_push (parse_log_line from_str now child line) r)"

definition lr_tail :: "string option \<Rightarrow> usize \<Rightarrow> LogRing \<Rightarrow> LogEntry list" where
  "lr_tail child n r =
     (let collected = filter (\<lambda>e. case child of Some c \<Rightarrow> le_child e = c | None \<Rightarrow> True) (inner r);
          start = length collected - n
      in drop start collected)"

definition lr_len :: "LogRing \<Rightarrow> usize" where
  "lr_len r = length (inner r)"

definition lr_is_empty :: "LogRing \<Rightarrow> bool" where
  "lr_is_empty r = (lr_len r = 0)"

section \<open>Properties\<close>

definition lr_wf :: "LogRing \<Rightarrow> bool" where
  "lr_wf r \<longleftrightarrow> 0 < capacity r \<and> length (inner r) \<le> capacity r"

lemma lr_wf_new [simp]: "lr_wf (LogRing_new cap)"
  by (simp add: lr_wf_def LogRing_new_def)

lemma capacity_push [simp]: "capacity (lr_push e r) = capacity r"
  by (simp add: lr_push_def)

lemma lr_push_inner: "lr_wf r \<Longrightarrow> inner (lr_push e r) = take_last (capacity r) (inner r @ [e])"
  by (cases "inner r") (auto simp: lr_push_def lr_wf_def take_last_def)

interpretation ring: bounded_log "lr_push_raw from_str"
  "\<lambda>(now, child, line). parse_log_line from_str now child line" inner capacity lr_wf for from_str
proof (unfold_locales, goal_cases)
  case (2 s c)
  then have "length (inner (lr_push e s)) \<le> capacity s" for e
    by (simp add: lr_push_inner)
  with 2 show ?case by (simp add: lr_push_raw_def lr_wf_def split_beta)
qed (auto simp: lr_wf_def lr_push_raw_def lr_push_inner split_beta)

lemma lr_tail_take_last:
  "lr_tail child n r =
     take_last n (filter (\<lambda>e. case child of Some c \<Rightarrow> le_child e = c | None \<Rightarrow> True) (inner r))"
  by (simp add: lr_tail_def take_last_def Let_def)

text \<open>
  Whatever lines the workers print, the ring holds at most \<open>max(capacity, 16)\<close> entries, and \<open>tail\<close>
  returns, oldest first, the last \<open>n\<close> entries of the asked child among the most recent
  \<open>max(capacity, 16)\<close> lines of all children.
\<close>

theorem log_ring_tail_of_history:
  "lr_tail child n (fold (lr_push_raw from_str) lines (LogRing_new cap)) =
     take_last n (filter (\<lambda>e. case child of Some c \<Rightarrow> le_child e = c | None \<Rightarrow> True)
       (take_last (max cap 16)
         (map (\<lambda>(now, ch, line). parse_log_line from_str now ch line) lines))) \<and>
   lr_len (fold (lr_push_raw from_str) lines (LogRing_new cap)) \<le> max cap 16"
  using ring.pushes_contents[OF lr_wf_new, of from_str lines cap]
  by (simp add: lr_tail_take_last lr_len_def LogRing_new_def)

end
