(* ===== verification/Supervisor_Config.thy ===== *)
theory Supervisor_Config
  imports Child Jobs
begin

text \<open>
  The supervisor's configuration (\<open>supervisor/src/config.rs\<close>), Unix variant. Environment variables,
  the file system, the TOML parser and the CPU count are arguments.
\<close>

record SupervisorConfig =
  root_dir :: path
  bin_dir :: path
  log_dir :: path
  ipc_socket_path :: path
  health_port :: "16 word"
  health_check_interval :: duration
  default_restart_policy :: RestartPolicy
  children :: "ChildSpec list"

fun check_unique :: "string list \<Rightarrow> ChildSpec list \<Rightarrow> unit sup_result" where
  "check_unique seen [] = Inr ()"
| "check_unique seen (c # cs) =
     (if cs_name c \<in> set seen
      then Inl (Config (''duplicate child name '' @ quoted (cs_name c)))
      else check_unique (cs_name c # seen) cs)"

definition validate :: "SupervisorConfig \<Rightarrow> unit sup_result" where
  "validate cfg =
     (if children cfg = [] then Inl (Config ''no children configured'')
      else if health_port cfg = 0 then Inl (Config ''health_port must not be zero'')
      else check_unique [] (children cfg))"

definition home_dir :: "(string \<Rightarrow> string option) \<Rightarrow> path" where
  "home_dir env =
     (case env ''MNEME_HOME'' of
        Some h \<Rightarrow> h
      | None \<Rightarrow> (case env ''HOME'' of Some h \<Rightarrow> h | None \<Rightarrow> ''.''))"

definition default_ipc_path :: "path \<Rightarrow> path" where
  "default_ipc_path root = path_join root ''supervisor.sock''"

definition worker_spec :: "path \<Rightarrow> string \<Rightarrow> string \<Rightarrow> string list \<Rightarrow> u64 \<Rightarrow> u32 \<Rightarrow> ChildSpec" where
  "worker_spec bin name command args rss cpu =
     \<lparr>cs_name = name, cs_command = path_join bin command, cs_args = args, cs_env = [],
      cs_restart = Permanent, cs_rss_limit_mb = Some rss, cs_cpu_limit_percent = Some cpu,
      cs_health_endpoint = Some ''/health''\<rparr>"

definition default_children :: "path \<Rightarrow> nat \<Rightarrow> ChildSpec list" where
  "default_children bin num_cpus =
     (let parser_pool_size = max num_cpus 1; scanner_pool_size = max (num_cpus div 2) 1 in
      [worker_spec bin ''store-worker'' ''mneme-store'' [] 512 80]
      @ map (\<lambda>i. worker_spec bin (''parser-worker-'' @ show_nat i) ''mneme-parsers''
               [''--worker-id'', show_nat i] 384 75) [0..<parser_pool_size]
      @ map (\<lambda>i. worker_spec bin (''scanner-worker-'' @ show_nat i) ''mneme-scanners''
               [''--worker-id'', show_nat i] 256 60) [0..<scanner_pool_size]
      @ [worker_spec bin ''md-ingest-worker'' ''mneme-md-ingest'' [] 192 40,
         worker_spec bin ''brain-worker'' ''mneme-brain'' [] 2048 90,
         worker_spec bin ''livebus-worker'' ''mneme-livebus'' [] 128 40])"

definition default_layout :: "(string \<Rightarrow> string option) \<Rightarrow> nat \<Rightarrow> SupervisorConfig" where
  "default_layout env num_cpus =
     (let root = path_join (home_dir env) ''.mneme''; bin = path_join root ''bin'' in
      \<lparr>root_dir = root, bin_dir = bin, log_dir = path_join root ''logs'',
       ipc_socket_path = default_ipc_path root, health_port = 7777,
       health_check_interval = from_secs 60, default_restart_policy = RestartPolicy_default,
       children = default_children bin num_cpus\<rparr>)"

text \<open>\<open>load\<close>: \<open>file\<close> is \<open>None\<close> where the path does not exist, else what reading it gives.\<close>

definition load_config ::
  "(string \<Rightarrow> string option) \<Rightarrow> nat \<Rightarrow> (string \<Rightarrow> string + SupervisorConfig) \<Rightarrow>
   (io_error + string) option \<Rightarrow> SupervisorConfig sup_result" where
  "load_config env num_cpus toml file =
     (case file of
        None \<Rightarrow> Inr (default_layout env num_cpus)
      | Some (Inl e) \<Rightarrow> Inl (Io e)
      | Some (Inr text) \<Rightarrow>
          (case toml text of
             Inl e \<Rightarrow> Inl (TomlDe e)
           | Inr cfg \<Rightarrow> (case validate cfg of Inl e \<Rightarrow> Inl e | Inr _ \<Rightarrow> Inr cfg)))"

section \<open>Properties\<close>

lemma check_unique_iff:
  "check_unique seen cs = Inr () \<longleftrightarrow>
     distinct (map cs_name cs) \<and> set (map cs_name cs) \<inter> set seen = {}"
  by (induction seen cs rule: check_unique.induct) auto

lemma validate_iff:
  "validate cfg = Inr () \<longleftrightarrow>
     children cfg \<noteq> [] \<and> health_port cfg \<noteq> 0 \<and> distinct (map cs_name (children cfg))"
  by (simp add: validate_def check_unique_iff)

lemma default_names:
  "map cs_name (default_children bin n) =
     [''store-worker''] @ map (\<lambda>i. ''parser-worker-'' @ show_nat i) [0..<max n 1]
     @ map (\<lambda>i. ''scanner-worker-'' @ show_nat i) [0..<max (n div 2) 1]
     @ [''md-ingest-worker'', ''brain-worker'', ''livebus-worker'']"
  by (simp add: default_children_def worker_spec_def Let_def)

lemma default_names_distinct: "distinct (map cs_name (default_children bin n))"
  unfolding default_names by (auto simp: distinct_map inj_on_def)

lemma pool_has_child:
  "\<exists>name \<in> set (map cs_name (default_children bin n)). starts_with name (pool_prefix job)"
proof (cases job)
  case (Parse f r)
  then have "''parser-worker-'' @ show_nat 0 \<in> set (map cs_name (default_children bin n))"
    unfolding default_names by force
  then show ?thesis using Parse by (intro bexI) (auto simp: starts_with_iff)
next
  case (Scan f a r)
  then have "''scanner-worker-'' @ show_nat 0 \<in> set (map cs_name (default_children bin n))"
    unfolding default_names by force
  then show ?thesis using Scan by (intro bexI) (auto simp: starts_with_iff)
qed (auto simp: default_names starts_with_iff)

text \<open>
  \<open>load\<close> never hands the supervisor a bad configuration. Whatever the file, the parser and the
  number of CPUs, a configuration it returns has children with pairwise distinct names and a
  non-zero port; and the default layout of a fresh install has, for every kind of job, a child in
  the pool that job is dispatched to.
\<close>

theorem load_config_valid:
  "(\<forall>cfg. load_config env n toml file = Inr cfg \<longrightarrow>
      children cfg \<noteq> [] \<and> health_port cfg \<noteq> 0 \<and> distinct (map cs_name (children cfg))) \<and>
   (\<forall>job. \<exists>name \<in> set (map cs_name (children (default_layout env n))).
      starts_with name (pool_prefix job))"
proof -
  have default: "validate (default_layout env n) = Inr ()"
    by (simp add: validate_iff default_layout_def Let_def default_names_distinct)
      (simp add: default_children_def Let_def)
  have "validate cfg = Inr ()" if "load_config env n toml file = Inr cfg" for cfg
    using that default by (auto simp: load_config_def split: option.splits sum.splits)
  then show ?thesis
    using pool_has_child by (simp add: validate_iff default_layout_def Let_def)
qed

theorem load_config_valid_witness:
  "children (default_layout (\<lambda>_. None) 4) \<noteq> [] \<and>
   distinct (map cs_name (children (default_layout (\<lambda>_. None) 4)))"
proof -
  have "load_config (\<lambda>_. None) 4 (\<lambda>_. Inl []) None = Inr (default_layout (\<lambda>_. None) 4)"
    by (simp add: load_config_def)
  then show ?thesis
    using load_config_valid[of "\<lambda>_. None" 4 "\<lambda>_. Inl []" None] by blast
qed

end
