(* ===== verification/Manager.thy ===== *)
theory Manager
  imports Job_Queue Log_Ring Supervisor_Config "HOL-Library.List_Lexorder" "HOL-Library.Char_ord"
begin

text \<open>
  The child process manager (\<open>supervisor/src/manager.rs\<close>). The state holds the handles, the names with
  a monitor task, the shutdown flag, the restart channel and the attached job queue. What the
  operating system answers (the result of a spawn, a write or a kill) and the clocks are arguments.
  The body of \<open>monitor_child\<close> after the child's exit is \<open>child_exited\<close>; the sleep inside \<open>respawn_one\<close>
  splits it into \<open>respawn_begin\<close> and \<open>respawn_end\<close>, between which other steps may happen. What \<open>spawn_child\<close> records of a
  new process is written by the task that then monitors it, before it waits for the exit; here it is part of
  \<open>spawn_child\<close>, so the moment between the two, when the process runs and the handle does not show it yet, is not a state.
\<close>

section \<open>State\<close>

record RestartRequest =
  rr_name :: string
  rr_exit_code :: i32
  rr_queued_at :: instant

record ChildManager =
  config :: SupervisorConfig
  log_ring :: LogRing
  handles :: "(string, ChildHandle) hmap"
  monitors :: "string list"
  shutdown_flag :: bool
  restart_chan :: "RestartRequest list"
  job_queue :: "JobQueue option"

text \<open>The two clocks a call reads.\<close>

record clock =
  ck_instant :: instant
  ck_utc :: utc

definition ChildManager_new :: "SupervisorConfig \<Rightarrow> LogRing \<Rightarrow> ChildManager" where
  "ChildManager_new cfg ring =
     \<lparr>config = cfg, log_ring = ring, handles = [], monitors = [], shutdown_flag = False,
      restart_chan = [], job_queue = None\<rparr>"

definition attach_job_queue :: "JobQueue \<Rightarrow> ChildManager \<Rightarrow> ChildManager" where
  "attach_job_queue q m = m\<lparr>job_queue := Some q\<rparr>"

definition handle_for :: "string \<Rightarrow> ChildManager \<Rightarrow> ChildHandle option" where
  "handle_for name m = hm_get (handles m) name"

definition child_names :: "ChildManager \<Rightarrow> string list" where
  "child_names m = hm_keys (handles m)"

definition modify_handle :: "string \<Rightarrow> (ChildHandle \<Rightarrow> ChildHandle) \<Rightarrow> ChildManager \<Rightarrow> ChildManager" where
  "modify_handle name f m = m\<lparr>handles := hm_modify name f (handles m)\<rparr>"

section \<open>Spawning\<close>

text \<open>\<open>spawn_os_process\<close> gives the new process id, which the runtime may not know, or an error.\<close>

type_synonym os_spawn = "io_error + u32 option"

definition started :: "clock \<Rightarrow> u32 option \<Rightarrow> ChildHandle \<Rightarrow> ChildHandle" where
  "started ck p h =
     h\<lparr>pid := p, status := Running, last_started_at := Some (ck_utc ck),
       last_started_instant := Some (ck_instant ck), last_heartbeat := Some (ck_instant ck),
       stdin := Some []\<rparr>"

definition spawn_child ::
  "clock \<Rightarrow> os_spawn \<Rightarrow> ChildSpec \<Rightarrow> ChildManager \<Rightarrow> unit sup_result \<times> ChildManager" where
  "spawn_child ck os sp m =
     (let name = cs_name sp;
          m1 = (case hm_get (handles m) name of
                  Some _ \<Rightarrow> m
                | None \<Rightarrow> m\<lparr>handles := hm_insert name
                    (ChildHandle_new sp (initial_backoff (default_restart_policy (config m))))
                    (handles m)\<rparr>)
      in case os of
           Inl e \<Rightarrow> (Inl (Spawn name e), m1)
         | Inr p \<Rightarrow>
             (Inr (), (modify_handle name (started ck p) m1)\<lparr>monitors := List.insert name (monitors m)\<rparr>))"

fun spawn_specs ::
  "clock \<Rightarrow> (ChildSpec \<Rightarrow> os_spawn) \<Rightarrow> ChildSpec list \<Rightarrow> ChildManager \<Rightarrow> unit sup_result \<times> ChildManager" where
  "spawn_specs ck os [] m = (Inr (), m)"
| "spawn_specs ck os (sp # sps) m =
     (case spawn_child ck (os sp) sp m of
        (Inr _, m') \<Rightarrow> spawn_specs ck os sps m'
      | (Inl (Spawn name e), m') \<Rightarrow>
          if io_kind e = NotFound \<or> io_kind e = PermissionDenied
          then spawn_specs ck os sps m'
          else (Inl (Spawn name e), m')
      | (Inl e, m') \<Rightarrow> (Inl e, m'))"

definition spawn_all ::
  "clock \<Rightarrow> (ChildSpec \<Rightarrow> os_spawn) \<Rightarrow> ChildManager \<Rightarrow> unit sup_result \<times> ChildManager" where
  "spawn_all ck os m = spawn_specs ck os (children (config m)) m"

section \<open>Exit, restart, shutdown\<close>

fun should_restart :: "RestartStrategy \<Rightarrow> i32 \<Rightarrow> bool" where
  "should_restart Permanent code = True"
| "should_restart Transient code = (code \<noteq> 0)"
| "should_restart Temporary code = False"

definition exit_bookkeeping :: "clock \<Rightarrow> i32 \<Rightarrow> ChildHandle \<Rightarrow> ChildHandle" where
  "exit_bookkeeping ck code h =
     h\<lparr>last_exit_code := Some code,
       total_uptime :=
         (case last_started_instant h of
            Some start \<Rightarrow> total_uptime h + duration_since (ck_instant ck) start
          | None \<Rightarrow> total_uptime h),
       pid := None, stdin := None\<rparr>"

text \<open>\<open>exit_status.code().unwrap_or(-1)\<close>; nothing happens where \<open>wait()\<close> itself fails.\<close>

definition child_exited ::
  "qenv \<Rightarrow> clock \<Rightarrow> string \<Rightarrow> i32 option \<Rightarrow> ChildManager \<Rightarrow> ChildManager" where
  "child_exited env ck name exit_status m =
     (let code = (case exit_status of Some c \<Rightarrow> c | None \<Rightarrow> - 1);
          m1 = modify_handle name (exit_bookkeeping ck code) m;
          m2 = (case job_queue m1 of None \<Rightarrow> m1
                | Some q \<Rightarrow> m1\<lparr>job_queue := Some (snd (jq_requeue_worker env name q))\<rparr>)
      in if shutdown_flag m2 then modify_handle name (\<lambda>h. h\<lparr>status := Stopped\<rparr>) m2
         else case hm_get (handles m2) name of
                None \<Rightarrow> m2
              | Some h \<Rightarrow>
                  if \<not> should_restart (cs_restart (spec h)) code
                  then modify_handle name (\<lambda>h. h\<lparr>status := Stopped\<rparr>) m2
                  else (modify_handle name (\<lambda>h. h\<lparr>status := Restarting\<rparr>) m2)
                       \<lparr>restart_chan := restart_chan m2 @
                          [\<lparr>rr_name = name, rr_exit_code = code, rr_queued_at = ck_instant ck\<rparr>]\<rparr>)"

definition next_backoff :: "(nat \<Rightarrow> f32 \<Rightarrow> nat) \<Rightarrow> RestartPolicy \<Rightarrow> duration \<Rightarrow> duration" where
  "next_backoff fmul policy cur =
     (let nxt = fmul (as_millis cur) (backoff_multiplier policy);
          capped = min nxt (as_millis (max_backoff policy))
      in from_millis (max capped 1))"

text \<open>
  The part of \<open>respawn_one\<close> under the handle lock: \<open>Inr None\<close> for an unknown child, else the delay to
  sleep and the spec to spawn.
\<close>

definition respawn_begin ::
  "(nat \<Rightarrow> f32 \<Rightarrow> nat) \<Rightarrow> clock \<Rightarrow> RestartRequest \<Rightarrow> ChildManager \<Rightarrow>
   (duration \<times> ChildSpec) option sup_result \<times> ChildManager" where
  "respawn_begin fmul ck req m =
     (let policy = default_restart_policy (config m); name = rr_name req in
      case hm_get (handles m) name of
        None \<Rightarrow> (Inr None, m)
      | Some h \<Rightarrow>
          let h1 = record_restart (ck_instant ck) (ck_utc ck) (budget_window policy) h;
              in_window = restarts_in_window (ck_instant ck) (budget_window policy) h1
          in if in_window > max_restarts_per_window policy
             then (Inl (RestartBudgetExceeded name in_window
                          (of_nat (as_secs (budget_window policy)))),
                   modify_handle name (\<lambda>_. h1\<lparr>status := Degraded\<rparr>) m)
             else (Inr (Some (current_backoff h1, spec h1)),
                   modify_handle name
                     (\<lambda>_. h1\<lparr>current_backoff := next_backoff fmul policy (current_backoff h1)\<rparr>) m))"

definition respawn_end ::
  "clock \<Rightarrow> os_spawn \<Rightarrow> ChildSpec \<Rightarrow> ChildManager \<Rightarrow> unit sup_result \<times> ChildManager" where
  "respawn_end ck os sp m = (if shutdown_flag m then (Inr (), m) else spawn_child ck os sp m)"

text \<open>One iteration of \<open>run_restart_loop\<close> up to the sleep; \<open>None\<close> where the channel is empty.\<close>

definition restart_loop_recv ::
  "(nat \<Rightarrow> f32 \<Rightarrow> nat) \<Rightarrow> clock \<Rightarrow> ChildManager \<Rightarrow>
   ((duration \<times> ChildSpec) option sup_result \<times> ChildManager) option" where
  "restart_loop_recv fmul ck m =
     (case restart_chan m of
        [] \<Rightarrow> None
      | req # reqs \<Rightarrow>
          let m1 = m\<lparr>restart_chan := reqs\<rparr> in
          Some (if shutdown_flag m1 then (Inr None, m1) else respawn_begin fmul ck req m1))"

definition shutdown_all :: "ChildManager \<Rightarrow> ChildManager" where
  "shutdown_all m =
     m\<lparr>shutdown_flag := True, monitors := [],
       handles := map (\<lambda>(n, h). (n, h\<lparr>status := Stopped\<rparr>)) (handles m)\<rparr>"

text \<open>The process id \<open>kill_child\<close> signals, and its result for what the kill answers.\<close>

definition kill_target :: "string \<Rightarrow> ChildManager \<Rightarrow> u32 option" where
  "kill_target name m = (case hm_get (handles m) name of Some h \<Rightarrow> pid h | None \<Rightarrow> None)"

definition kill_child :: "(u32 \<Rightarrow> string option) \<Rightarrow> string \<Rightarrow> ChildManager \<Rightarrow> unit sup_result" where
  "kill_child kill name m =
     (case kill_target name m of
        None \<Rightarrow> Inr ()
      | Some p \<Rightarrow>
          (case kill p of
             Some e \<Rightarrow> Inl (Other (''kill('' @ show_nat (unat p) @ '') failed: '' @ e))
           | None \<Rightarrow> Inr ()))"

section \<open>Telemetry and dispatch\<close>

definition mgr_record_job_completion ::
  "utc \<Rightarrow> string \<Rightarrow> u64 \<Rightarrow> string \<Rightarrow> u64 \<Rightarrow> ChildManager \<Rightarrow> ChildManager" where
  "mgr_record_job_completion now worker_name job_id st dur m =
     modify_handle worker_name (record_job_completion now job_id st dur) m"

definition record_heartbeat :: "instant \<Rightarrow> string \<Rightarrow> ChildManager \<Rightarrow> ChildManager" where
  "record_heartbeat now name m = modify_handle name (\<lambda>h. h\<lparr>last_heartbeat := Some now\<rparr>) m"

fun show_status :: "ChildStatus \<Rightarrow> string" where
  "show_status Pending = ''Pending''"
| "show_status Running = ''Running''"
| "show_status Restarting = ''Restarting''"
| "show_status Degraded = ''Degraded''"
| "show_status Stopped = ''Stopped''"

text \<open>
  \<open>dispatch_job\<close>: \<open>write\<close> answers for the writes and the flush on a child's pipe. A pipe whose write
  fails keeps its recorded contents.
\<close>

definition dispatch_job ::
  "(string \<Rightarrow> io_error option) \<Rightarrow> string \<Rightarrow> string \<Rightarrow> ChildManager \<Rightarrow> unit sup_result \<times> ChildManager" where
  "dispatch_job write name payload m =
     (case hm_get (handles m) name of
        None \<Rightarrow> (Inl (Other (''unknown child: '' @ name)), m)
      | Some h \<Rightarrow>
          if status h \<noteq> Running then
            (Inl (Other (''child '' @ quoted name @ '' not running (status '' @
                         show_status (status h) @ '')'')), m)
          else case stdin h of
            None \<Rightarrow> (Inl (Other (''child '' @ quoted name @ '' has no stdin'')), m)
          | Some sent \<Rightarrow>
              (case write name of
                 Some e \<Rightarrow> (Inl (Io e), m)
               | None \<Rightarrow>
                   (Inr (), modify_handle name
                     (\<lambda>h. h\<lparr>stdin := Some (sent @ payload @
                        (if ends_with payload [CHR 0x0A] then [] else [CHR 0x0A]))\<rparr>) m)))"

fun dispatch_first ::
  "(string \<Rightarrow> io_error option) \<Rightarrow> string list \<Rightarrow> string \<Rightarrow> ChildManager \<Rightarrow> string option \<times> ChildManager" where
  "dispatch_first write [] payload m = (None, m)"
| "dispatch_first write (name # names) payload m =
     (case dispatch_job write name payload m of
        (Inr _, m') \<Rightarrow> (Some name, m')
      | (Inl e, m') \<Rightarrow> dispatch_first write names payload m')"

definition pool_candidates :: "string \<Rightarrow> ChildManager \<Rightarrow> string list" where
  "pool_candidates prefix m = sort (filter (\<lambda>n. starts_with n prefix) (child_names m))"

definition dispatch_to_pool ::
  "(string \<Rightarrow> io_error option) \<Rightarrow> string \<Rightarrow> string \<Rightarrow> ChildManager \<Rightarrow> string sup_result \<times> ChildManager" where
  "dispatch_to_pool write prefix payload m =
     (let candidates = pool_candidates prefix m in
      case dispatch_first write candidates payload m of
        (Some name, m') \<Rightarrow> (Inr name, m')
      | (None, m') \<Rightarrow>
          (Inl (Other (''no worker matching prefix '' @ quoted prefix @
                       '' is accepting jobs ('' @ show_nat (length candidates) @ '' candidates)'')), m'))"

record ChildSnapshot =
  sn_name :: string
  sn_status :: ChildStatus
  sn_pid :: "u32 option"
  sn_restart_count :: u64
  sn_current_uptime_ms :: nat
  sn_total_uptime_ms :: nat
  sn_last_exit_code :: "i32 option"
  sn_last_started_at :: "utc option"
  sn_last_restart_at :: "utc option"
  sn_p50_us :: "u64 option"
  sn_p95_us :: "u64 option"
  sn_p99_us :: "u64 option"
  sn_last_job_id :: "u64 option"
  sn_last_job_duration_ms :: "u64 option"
  sn_last_job_status :: "string option"
  sn_last_job_completed_at :: "utc option"
  sn_avg_job_ms :: "u64 option"
  sn_total_jobs_completed :: u64
  sn_total_jobs_failed :: u64

definition snapshot_of :: "instant \<Rightarrow> string \<times> ChildHandle \<Rightarrow> ChildSnapshot" where
  "snapshot_of now nh =
     (let h = snd nh; percentiles = latency_percentiles_us h in
      \<lparr>sn_name = fst nh, sn_status = status h, sn_pid = pid h, sn_restart_count = restart_count h,
       sn_current_uptime_ms = as_millis (current_uptime now h),
       sn_total_uptime_ms = as_millis (total_uptime h), sn_last_exit_code = last_exit_code h,
       sn_last_started_at = last_started_at h, sn_last_restart_at = last_restart_at h,
       sn_p50_us = map_option (\<lambda>p. fst p) percentiles,
       sn_p95_us = map_option (\<lambda>p. fst (snd p)) percentiles,
       sn_p99_us = map_option (\<lambda>p. snd (snd p)) percentiles,
       sn_last_job_id = last_job_id h, sn_last_job_duration_ms = last_job_duration_ms h,
       sn_last_job_status = last_job_status h, sn_last_job_completed_at = last_job_completed_at h,
       sn_avg_job_ms = avg_job_ms h, sn_total_jobs_completed = total_jobs_completed h,
       sn_total_jobs_failed = total_jobs_failed h\<rparr>)"

definition mgr_snapshot :: "instant \<Rightarrow> ChildManager \<Rightarrow> ChildSnapshot list" where
  "mgr_snapshot now m = sort_key sn_name (map (snapshot_of now) (handles m))"

lemmas mgr_defs [model_defs] =
  spawn_child_def child_exited_def respawn_begin_def respawn_end_def restart_loop_recv_def
  shutdown_all_def dispatch_job_def dispatch_to_pool_def modify_handle_def

end
