(* ===== verification/Manager_Lifecycle.thy ===== *)
theory Manager_Lifecycle
  imports Manager
begin

text \<open>
  The life of the supervised children: the manager's operations as the steps of a transition
  system, its invariant, and what follows for restarts. The state pairs the manager with the spec the
  restart loop is sleeping on, if any. The queue operations of other tasks change \<open>job_queue\<close> only.
\<close>

section \<open>Steps\<close>

type_synonym mstate = "ChildManager \<times> ChildSpec option"

inductive mgr_step :: "mstate \<Rightarrow> mstate \<Rightarrow> bool" where
  exited: "hm_get (handles m) name = Some h \<Longrightarrow> stdin h \<noteq> None \<Longrightarrow>
     mgr_step (m, r) (child_exited env ck name code m, r)"
| recv_sleep: "restart_loop_recv fmul ck m = Some (Inr (Some (d, sp)), m') \<Longrightarrow>
     mgr_step (m, None) (m', Some sp)"
| recv_drop: "restart_loop_recv fmul ck m = Some (Inr None, m') \<Longrightarrow> mgr_step (m, None) (m', None)"
| recv_fail: "restart_loop_recv fmul ck m = Some (Inl e, m') \<Longrightarrow> mgr_step (m, None) (m', None)"
| wake: "mgr_step (m, Some sp) (snd (respawn_end ck os sp m), None)"
| shutdown: "mgr_step (m, r) (shutdown_all m, r)"
| heartbeat: "mgr_step (m, r) (record_heartbeat now name m, r)"
| telemetry: "mgr_step (m, r) (mgr_record_job_completion now name i st dur m, r)"
| dispatch: "mgr_step (m, r) (snd (dispatch_to_pool wr prefix payload m), r)"
| queue_op: "mgr_step (m, r) (m\<lparr>job_queue := q\<rparr>, r)"

definition mgr_init :: "mstate \<Rightarrow> bool" where
  "mgr_init s \<longleftrightarrow> (\<exists>cfg ring q ck os.
     s = (snd (spawn_all ck os (attach_job_queue q (ChildManager_new cfg ring))), None))"

inductive_cases mgr_stepE: "mgr_step (m, r) s"

section \<open>Invariant\<close>

definition restarting_names :: "mstate \<Rightarrow> string list" where
  "restarting_names s =
     map rr_name (restart_chan (fst s)) @ (case snd s of None \<Rightarrow> [] | Some sp \<Rightarrow> [cs_name sp])"

definition handle_ok :: "string \<Rightarrow> ChildHandle \<Rightarrow> bool" where
  "handle_ok n h \<longleftrightarrow> cs_name (spec h) = n \<and> (stdin h = None \<longrightarrow> status h \<noteq> Running) \<and>
     (status h = Degraded \<longrightarrow> stdin h = None)"

definition handles_ok :: "ChildManager \<Rightarrow> bool" where
  "handles_ok m \<longleftrightarrow> (\<forall>n h. hm_get (handles m) n = Some h \<longrightarrow> handle_ok n h)"

definition dead_in :: "ChildManager \<Rightarrow> string \<Rightarrow> bool" where
  "dead_in m n \<longleftrightarrow> (\<exists>h. hm_get (handles m) n = Some h \<and> stdin h = None \<and> status h \<noteq> Degraded)"

definition mgr_inv :: "mstate \<Rightarrow> bool" where
  "mgr_inv s \<longleftrightarrow> handles_ok (fst s) \<and> distinct (restarting_names s) \<and>
     (\<forall>n \<in> set (restarting_names s). dead_in (fst s) n)"

lemma mgr_inv_mono:
  "mgr_inv (m, r) \<Longrightarrow> handles_ok m' \<Longrightarrow> restart_chan m' = restart_chan m \<Longrightarrow>
   (\<And>n. dead_in m n \<Longrightarrow> dead_in m' n) \<Longrightarrow> mgr_inv (m', r)"
  by (simp add: mgr_inv_def restarting_names_def)

lemma mgr_inv_names:
  "mgr_inv (m, r) \<longleftrightarrow> handles_ok m \<and>
     distinct (map rr_name (restart_chan m) @ (case r of None \<Rightarrow> [] | Some sp \<Rightarrow> [cs_name sp])) \<and>
     (\<forall>n \<in> set (map rr_name (restart_chan m)). dead_in m n) \<and>
     (\<forall>sp. r = Some sp \<longrightarrow> dead_in m (cs_name sp))"
  by (auto simp: mgr_inv_def restarting_names_def split: option.splits)

text \<open>An update of one handle that keeps the fields the invariant reads.\<close>

definition quiet :: "(ChildHandle \<Rightarrow> ChildHandle) \<Rightarrow> bool" where
  "quiet f \<longleftrightarrow> (\<forall>h. spec (f h) = spec h \<and> status (f h) = status h \<and> (stdin (f h) = None \<longleftrightarrow> stdin h = None))"

lemma handles_modify_handle [simp]: "handles (modify_handle n f m) = hm_modify n f (handles m)"
  and restart_chan_modify_handle [simp]: "restart_chan (modify_handle n f m) = restart_chan m"
  and shutdown_flag_modify_handle [simp]: "shutdown_flag (modify_handle n f m) = shutdown_flag m"
  and config_modify_handle [simp]: "config (modify_handle n f m) = config m"
  and job_queue_modify_handle [simp]: "job_queue (modify_handle n f m) = job_queue m"
  by (simp_all add: modify_handle_def)

lemma handles_ok_modify:
  "handles_ok m \<Longrightarrow> (\<And>h. hm_get (handles m) n = Some h \<Longrightarrow> handle_ok n (f h)) \<Longrightarrow>
   handles_ok (modify_handle n f m)"
  by (auto simp: handles_ok_def)

lemma handles_ok_quiet: "handles_ok m \<Longrightarrow> quiet f \<Longrightarrow> handles_ok (modify_handle n f m)"
  by (auto simp: handles_ok_def handle_ok_def quiet_def)

lemma dead_in_quiet: "quiet f \<Longrightarrow> dead_in (modify_handle n f m) = dead_in m"
  by (auto simp: dead_in_def quiet_def fun_eq_iff)

lemma mgr_inv_quiet: "mgr_inv (m, r) \<Longrightarrow> quiet f \<Longrightarrow> mgr_inv (modify_handle n f m, r)"
  by (simp add: mgr_inv_def handles_ok_quiet dead_in_quiet restarting_names_def)

lemma handles_ok_congs [simp]:
  "handles_ok (m\<lparr>job_queue := q\<rparr>) = handles_ok m" "handles_ok (m\<lparr>restart_chan := c\<rparr>) = handles_ok m"
  "handles_ok (m\<lparr>monitors := ms\<rparr>) = handles_ok m"
  "dead_in (m\<lparr>job_queue := q\<rparr>) = dead_in m" "dead_in (m\<lparr>restart_chan := c\<rparr>) = dead_in m"
  "dead_in (m\<lparr>monitors := ms\<rparr>) = dead_in m"
  by (simp_all add: handles_ok_def dead_in_def fun_eq_iff)

lemma quiet_ops [simp]:
  "quiet (\<lambda>h. h\<lparr>last_heartbeat := Some now\<rparr>)" "quiet (record_job_completion utc i st dur)"
  by (simp_all add: quiet_def record_job_completion_def Let_def)

section \<open>Preservation, operation by operation\<close>

lemma dispatch_job_inv:
  assumes "mgr_inv (m, r)"
  shows "mgr_inv (snd (dispatch_job wr name payload m), r)"
proof (cases "hm_get (handles m) name")
  case (Some h)
  show ?thesis
  proof (cases "fst (dispatch_job wr name payload m)")
    case (Inr u)
    then obtain sent where running: "status h = Running" "stdin h = Some sent"
      using Some by (auto simp: dispatch_job_def split: if_splits option.splits)
    let ?f = "\<lambda>h. h\<lparr>stdin := Some (sent @ payload @
      (if ends_with payload [CHR 0x0A] then [] else [CHR 0x0A]))\<rparr>"
    have "handles_ok (modify_handle name ?f m)"
      using assms running Some
      by (intro handles_ok_modify) (auto simp: mgr_inv_def handles_ok_def handle_ok_def)
    moreover have "dead_in (modify_handle name ?f m) n" if "dead_in m n" for n
      using that running Some by (auto simp: dead_in_def)
    ultimately have "mgr_inv (modify_handle name ?f m, r)"
      using assms by (auto simp: mgr_inv_def restarting_names_def)
    then show ?thesis
      using Inr Some running by (auto simp: dispatch_job_def split: option.splits)
  next
    case (Inl e)
    with Some assms show ?thesis by (auto simp: dispatch_job_def split: if_splits option.splits)
  qed
qed (use assms in \<open>simp add: dispatch_job_def\<close>)

lemma dispatch_first_inv:
  "mgr_inv (m, r) \<Longrightarrow> mgr_inv (snd (dispatch_first wr names payload m), r)"
proof (induction names arbitrary: m)
  case (Cons n names)
  obtain res m' where eq: "dispatch_job wr n payload m = (res, m')" by force
  with dispatch_job_inv[OF Cons.prems, of wr n payload] have "mgr_inv (m', r)" by simp
  with Cons.IH[of m'] show ?case by (cases res) (simp_all add: eq)
qed simp

lemma snd_dispatch_to_pool:
  "snd (dispatch_to_pool wr prefix payload m) =
   snd (dispatch_first wr (pool_candidates prefix m) payload m)"
  by (simp add: dispatch_to_pool_def Let_def split: prod.splits option.splits)

lemma spawn_child_handles:
  "hm_get (handles (snd (spawn_child ck os sp m))) n =
     (if n = cs_name sp then
        (let h = (case hm_get (handles m) n of Some h \<Rightarrow> h
                  | None \<Rightarrow> ChildHandle_new sp (initial_backoff (default_restart_policy (config m))))
         in Some (case os of Inl _ \<Rightarrow> h | Inr p \<Rightarrow> started ck p h))
      else hm_get (handles m) n)"
  by (auto simp: spawn_child_def Let_def modify_handle_def split: sum.splits option.splits)

lemma spawn_child_chan [simp]: "restart_chan (snd (spawn_child ck os sp m)) = restart_chan m"
  by (auto simp: spawn_child_def Let_def split: sum.splits option.splits)

lemma spawn_child_handles_ok: "handles_ok m \<Longrightarrow> handles_ok (snd (spawn_child ck os sp m))"
  unfolding handles_ok_def spawn_child_handles
  by (auto simp: handle_ok_def ChildHandle_new_def started_def Let_def split: sum.splits option.splits)

lemma spawn_specs_ok:
  "handles_ok m \<Longrightarrow> handles_ok (snd (spawn_specs ck os sps m)) \<and>
   restart_chan (snd (spawn_specs ck os sps m)) = restart_chan m"
proof (induction sps arbitrary: m)
  case (Cons sp sps)
  obtain res m' where eq: "spawn_child ck (os sp) sp m = (res, m')" by force
  have "handles_ok m'" "restart_chan m' = restart_chan m"
    using spawn_child_handles_ok[OF Cons.prems, of ck "os sp" sp]
      spawn_child_chan[of ck "os sp" sp m] by (simp_all add: eq)
  note IH = Cons.IH[OF this(1)] this
  show ?case
  proof (cases res)
    case (Inl e)
    with IH show ?thesis by (cases e) (simp_all add: eq)
  qed (use IH in \<open>simp add: eq\<close>)
qed simp

lemma respawn_end_inv:
  assumes "mgr_inv (m, Some sp)"
  shows "mgr_inv (snd (respawn_end ck os sp m), None)"
proof -
  have "dead_in (snd (spawn_child ck os sp m)) n" if "dead_in m n" "n \<noteq> cs_name sp" for n
    using that by (simp add: dead_in_def spawn_child_handles)
  moreover have "n \<noteq> cs_name sp \<and> dead_in m n" if "n \<in> set (map rr_name (restart_chan m))" for n
    using assms that unfolding mgr_inv_def restarting_names_def
    by (metis (no_types, lifting) Un_iff disjoint_iff distinct_append fst_conv list.set_intros(1)
        option.simps(5) set_append snd_conv)
  ultimately show ?thesis
    using assms by (simp add: respawn_end_def mgr_inv_def restarting_names_def spawn_child_handles_ok)
qed

lemma shutdown_all_inv: "mgr_inv (m, r) \<Longrightarrow> mgr_inv (shutdown_all m, r)"
proof -
  have get: "hm_get (handles (shutdown_all m)) n =
      map_option (\<lambda>h. h\<lparr>status := Stopped\<rparr>) (hm_get (handles m) n)" for n
    by (simp add: shutdown_all_def map_of_map)
  assume inv: "mgr_inv (m, r)"
  then have "handles_ok (shutdown_all m)"
    by (auto simp: mgr_inv_def handles_ok_def handle_ok_def get)
  moreover have "restart_chan (shutdown_all m) = restart_chan m"
    by (simp add: shutdown_all_def)
  moreover have "dead_in (shutdown_all m) n" if "dead_in m n" for n
    using that by (auto simp: dead_in_def get)
  ultimately show "mgr_inv (shutdown_all m, r)"
    by (rule mgr_inv_mono[OF inv])
qed

text \<open>After an exit the handle is dead and either stopped or waiting for its restart.\<close>

lemma child_exited_handles:
  "hm_get (handles (child_exited env ck name code m)) n =
     (if n = name then
        map_option (\<lambda>h. (exit_bookkeeping ck (case code of Some c \<Rightarrow> c | None \<Rightarrow> - 1) h)
          \<lparr>status := (if \<not> shutdown_flag m \<and>
             should_restart (cs_restart (spec h)) (case code of Some c \<Rightarrow> c | None \<Rightarrow> - 1)
             then Restarting else Stopped)\<rparr>) (hm_get (handles m) name)
      else hm_get (handles m) n)"
  by (cases "hm_get (handles m) name")
    (auto simp: child_exited_def Let_def exit_bookkeeping_def split: option.splits)

lemma child_exited_chan:
  "map rr_name (restart_chan (child_exited env ck name code m)) =
     map rr_name (restart_chan m) \<or>
   map rr_name (restart_chan (child_exited env ck name code m)) =
     map rr_name (restart_chan m) @ [name]"
  by (auto simp: child_exited_def Let_def split: option.splits)

lemma child_exited_inv:
  assumes inv: "mgr_inv (m, r)" and h: "hm_get (handles m) name = Some h" "stdin h \<noteq> None"
  shows "mgr_inv (child_exited env ck name code m, r)"
proof -
  let ?m = "child_exited env ck name code m"
  have fresh: "name \<notin> set (restarting_names (m, r))"
    using inv h by (auto simp: mgr_inv_def dead_in_def)
  have ok: "handles_ok ?m"
    using inv h by (auto simp: mgr_inv_def handles_ok_def child_exited_handles handle_ok_def
        exit_bookkeeping_def)
  have dead: "dead_in ?m n" if "dead_in m n \<or> n = name" for n
    using that h by (auto simp: dead_in_def child_exited_handles exit_bookkeeping_def)
  have all: "distinct (ns @ rs) \<and> (\<forall>n \<in> set (ns @ rs). dead_in ?m n)"
    if "ns = map rr_name (restart_chan m) \<or> ns = map rr_name (restart_chan m) @ [name]"
      and "rs = (case r of None \<Rightarrow> [] | Some sp \<Rightarrow> [cs_name sp])" for ns rs
    using that fresh inv dead by (fastforce simp: mgr_inv_def restarting_names_def simp del: distinct_map)
  show ?thesis
    using all[OF child_exited_chan refl] ok
    unfolding mgr_inv_def restarting_names_def by simp
qed

text \<open>The handle of a popped request may be replaced by another dead one of the same child.\<close>

lemma popped_update_inv:
  assumes inv: "mgr_inv (m\<lparr>restart_chan := req # restart_chan m\<rparr>, None)"
    and h: "handle_ok (rr_name req) h" "stdin h = None"
  shows "mgr_inv (modify_handle (rr_name req) (\<lambda>_. h) m, None)"
    and "status h \<noteq> Degraded \<Longrightarrow> mgr_inv (modify_handle (rr_name req) (\<lambda>_. h) m, Some (spec h))"
proof -
  let ?m = "modify_handle (rr_name req) (\<lambda>_. h) m"
  from inv have names: "rr_name req \<notin> set (map rr_name (restart_chan m))"
      "distinct (map rr_name (restart_chan m))"
    and dead: "\<forall>n \<in> set (map rr_name (restart_chan m)). dead_in m n" "dead_in m (rr_name req)"
    and ok: "handles_ok m"
    by (auto simp: mgr_inv_names)
  have ok': "handles_ok ?m" using ok h by (intro handles_ok_modify)
  have dead': "\<forall>n \<in> set (map rr_name (restart_chan m)). dead_in ?m n"
    using names dead by (metis (no_types, lifting) dead_in_def handles_modify_handle hm_get_modify)
  show "mgr_inv (?m, None)"
    using ok' dead' names by (simp add: mgr_inv_names)
  show "mgr_inv (?m, Some (spec h))" if "status h \<noteq> Degraded"
  proof -
    have "dead_in ?m (rr_name req)"
      using dead(2) that h(2) by (auto simp: dead_in_def)
    with ok' dead' names h(1) show ?thesis
      by (simp add: mgr_inv_names handle_ok_def)
  qed
qed

lemma respawn_begin_inv:
  assumes inv: "mgr_inv (m\<lparr>restart_chan := req # restart_chan m\<rparr>, None)"
  shows "case respawn_begin fmul ck req m of
      (Inr (Some (d, sp)), m') \<Rightarrow> mgr_inv (m', Some sp) | (_, m') \<Rightarrow> mgr_inv (m', None)"
proof -
  from inv obtain h where h: "hm_get (handles m) (rr_name req) = Some h" "stdin h = None"
      "status h \<noteq> Degraded" "handle_ok (rr_name req) h"
    by (auto simp: mgr_inv_names dead_in_def handles_ok_def)
  define h1 where "h1 = record_restart (ck_instant ck) (ck_utc ck)
    (budget_window (default_restart_policy (config m))) h"
  have h1: "stdin h1 = None" "spec h1 = spec h" "status h1 = status h"
    using h by (simp_all add: h1_def record_restart_def)
  have ok: "handle_ok (rr_name req) (h1\<lparr>status := Degraded\<rparr>)"
      "handle_ok (rr_name req) (h1\<lparr>current_backoff := b\<rparr>)" for b
    using h h1 by (auto simp: handle_ok_def)
  show ?thesis
    using popped_update_inv(1)[OF inv ok(1)] popped_update_inv(2)[OF inv ok(2)] h h1
    by (simp add: respawn_begin_def Let_def h1_def[symmetric])
qed

lemma restart_loop_recv_inv:
  assumes "mgr_inv (m, None)" and "restart_loop_recv fmul ck m = Some (res, m')"
  shows "case res of Inr (Some (d, sp)) \<Rightarrow> mgr_inv (m', Some sp) | _ \<Rightarrow> mgr_inv (m', None)"
proof -
  obtain req reqs where chan: "restart_chan m = req # reqs"
    using assms(2) by (auto simp: restart_loop_recv_def split: list.splits)
  let ?m = "m\<lparr>restart_chan := reqs\<rparr>"
  have "?m\<lparr>restart_chan := req # restart_chan ?m\<rparr> = m"
    using chan by simp
  with assms(1) have inv: "mgr_inv (?m\<lparr>restart_chan := req # restart_chan ?m\<rparr>, None)" by simp
  show ?thesis
  proof (cases "shutdown_flag m")
    case True
    with assms chan show ?thesis
      by (auto simp: restart_loop_recv_def mgr_inv_def restarting_names_def)
  next
    case False
    with assms(2) chan respawn_begin_inv[OF inv, of fmul ck] show ?thesis
      by (auto simp: restart_loop_recv_def split: sum.splits option.splits)
  qed
qed

section \<open>The system\<close>

interpretation lifecycle: transition_invariant mgr_init mgr_step mgr_inv
proof
  fix s :: mstate
  assume "mgr_init s"
  then obtain cfg ring q ck os where
    s: "s = (snd (spawn_all ck os (attach_job_queue q (ChildManager_new cfg ring))), None)"
    by (auto simp: mgr_init_def)
  let ?m0 = "attach_job_queue q (ChildManager_new cfg ring)"
  have "handles_ok ?m0" and chan: "restart_chan ?m0 = []"
    by (simp_all add: handles_ok_def attach_job_queue_def ChildManager_new_def)
  from spawn_specs_ok[OF this(1), of ck os "children (config ?m0)"] chan show "mgr_inv s"
    by (simp add: s spawn_all_def mgr_inv_def restarting_names_def)
next
  fix s t :: mstate
  assume inv: "mgr_inv s" and step: "mgr_step s t"
  from step inv show "mgr_inv t"
  proof cases
    case exited
    with inv show ?thesis by (blast intro: child_exited_inv)
  next
    case recv_sleep
    with inv show ?thesis using restart_loop_recv_inv by fastforce
  next
    case recv_drop
    with inv show ?thesis using restart_loop_recv_inv by fastforce
  next
    case recv_fail
    with inv show ?thesis using restart_loop_recv_inv by fastforce
  next
    case dispatch
    with inv show ?thesis by (simp add: snd_dispatch_to_pool dispatch_first_inv)
  next
    case queue_op
    with inv show ?thesis by (simp add: mgr_inv_def restarting_names_def)
  qed (auto simp: respawn_end_inv shutdown_all_inv record_heartbeat_def
      mgr_record_job_completion_def intro: mgr_inv_quiet)
qed

section \<open>Restarts never double a process\<close>

text \<open>
  C3: in every reachable state, the child the restart loop is about to spawn has no live process (its
  stdin pipe is gone and it is not marked running), and no second restart request for it is queued;
  so a respawn never replaces a running worker.
\<close>

theorem respawn_targets_dead_child:
  assumes "reach mgr_init mgr_step (m, Some sp)"
  shows "(\<exists>h. handle_for (cs_name sp) m = Some h \<and> stdin h = None \<and> status h \<noteq> Running) \<and>
         cs_name sp \<notin> set (map rr_name (restart_chan m))"
proof -
  have inv: "mgr_inv (m, Some sp)" using assms by (rule lifecycle.reach_inv)
  then obtain h where "hm_get (handles m) (cs_name sp) = Some h" "stdin h = None"
    by (auto simp: mgr_inv_names dead_in_def)
  with inv show ?thesis
    by (auto simp: mgr_inv_names handles_ok_def handle_ok_def handle_for_def)
qed

text \<open>A run with one child that exits and is about to be restarted.\<close>

definition demo_spec :: ChildSpec where
  "demo_spec = worker_spec ''/bin'' ''brain-worker'' ''mneme-brain'' [] 1 1"

definition demo_config :: "u32 \<Rightarrow> SupervisorConfig" where
  "demo_config k = (default_layout (\<lambda>_. None) 1)\<lparr>children := [demo_spec],
     default_restart_policy := RestartPolicy_default\<lparr>max_restarts_per_window := k\<rparr>\<rparr>"

definition demo_clock :: clock where
  "demo_clock = \<lparr>ck_instant = 0, ck_utc = 0\<rparr>"

definition demo_env :: qenv where
  "demo_env = \<lparr>qe_codec = \<lparr>to_vec = (\<lambda>_. None), from_slice = (\<lambda>_. None)\<rparr>, qe_sql = (\<lambda>_. SqlOk),
    qe_unix_ms = 0, qe_instant = 0\<rparr>"

definition demo_start :: "u32 \<Rightarrow> ChildManager" where
  "demo_start k = snd (spawn_all demo_clock (\<lambda>_. Inr (Some 42))
     (attach_job_queue (jq_new 4) (ChildManager_new (demo_config k) (LogRing_new 16))))"

definition demo_exited :: "u32 \<Rightarrow> ChildManager" where
  "demo_exited k = child_exited demo_env demo_clock ''brain-worker'' (Some 1) (demo_start k)"

definition demo_received :: "u32 \<Rightarrow> ChildManager" where
  "demo_received k = snd (the (restart_loop_recv (\<lambda>ms _. ms * 5) demo_clock (demo_exited k)))"

lemmas demo_defs = demo_spec_def demo_config_def demo_clock_def demo_env_def demo_start_def
  demo_exited_def demo_received_def worker_spec_def default_layout_def Let_def spawn_all_def
  attach_job_queue_def ChildManager_new_def spawn_child_def ChildHandle_new_def started_def
  modify_handle_def hm_modify_def

lemma demo_exited_reach: "reach mgr_init mgr_step (demo_exited k, None)"
proof -
  have "mgr_init (demo_start k, None)"
    unfolding mgr_init_def demo_start_def by blast
  then have "reach mgr_init mgr_step (demo_start k, None)" by (rule reach_init)
  moreover have "\<exists>h. hm_get (handles (demo_start k)) ''brain-worker'' = Some h \<and> stdin h \<noteq> None"
    by (simp add: demo_defs)
  then have "mgr_step (demo_start k, None) (demo_exited k, None)"
    unfolding demo_exited_def by (blast intro: mgr_step.exited)
  ultimately show ?thesis by (rule reach_step)
qed

lemmas demo_eval = demo_defs restart_loop_recv_def respawn_begin_def child_exited_def
  jq_requeue_worker_def worker_jobs_def jq_new_def exit_bookkeeping_def record_restart_def
  restarts_in_window_def RestartPolicy_default_def duration_since_def

lemma demo_sleeping_reach: "reach mgr_init mgr_step (demo_received 5, Some demo_spec)"
proof -
  have "restart_loop_recv (\<lambda>ms _. ms * 5) demo_clock (demo_exited 5) =
      Some (Inr (Some (from_millis 100, demo_spec)), demo_received 5)"
    by (simp add: demo_eval)
  then have "mgr_step (demo_exited 5, None) (demo_received 5, Some demo_spec)"
    by (rule mgr_step.recv_sleep)
  with demo_exited_reach show ?thesis by (rule reach_step)
qed

lemma demo_degraded_reach: "reach mgr_init mgr_step (demo_received 0, None)"
proof -
  have "restart_loop_recv (\<lambda>ms _. ms * 5) demo_clock (demo_exited 0) =
      Some (Inl (RestartBudgetExceeded ''brain-worker'' 1 60), demo_received 0)"
    by (simp add: demo_eval from_secs_def as_secs_def)
  then have "mgr_step (demo_exited 0, None) (demo_received 0, None)"
    by (rule mgr_step.recv_fail)
  with demo_exited_reach show ?thesis by (rule reach_step)
qed

theorem respawn_targets_dead_child_witness:
  "(\<exists>h. handle_for (cs_name demo_spec) (demo_received 5) = Some h \<and> stdin h = None \<and>
      status h \<noteq> Running) \<and>
   cs_name demo_spec \<notin> set (map rr_name (restart_chan (demo_received 5)))"
  by (rule respawn_targets_dead_child[OF demo_sleeping_reach])

section \<open>A degraded child stays down\<close>

definition degraded_or_down :: "string \<Rightarrow> mstate \<Rightarrow> bool" where
  "degraded_or_down n s \<longleftrightarrow> shutdown_flag (fst s) \<or>
     (\<exists>h. hm_get (handles (fst s)) n = Some h \<and> status h = Degraded)"

lemma dispatch_job_frame:
  "shutdown_flag (snd (dispatch_job wr name payload m)) = shutdown_flag m"
  "map_option status (hm_get (handles (snd (dispatch_job wr name payload m))) n) =
     map_option status (hm_get (handles m) n)"
  by (auto simp: dispatch_job_def option.map_comp comp_def split: option.splits)

lemma dispatch_first_frame:
  "shutdown_flag (snd (dispatch_first wr names payload m)) = shutdown_flag m \<and>
   map_option status (hm_get (handles (snd (dispatch_first wr names payload m))) n) =
     map_option status (hm_get (handles m) n)"
proof (induction names arbitrary: m)
  case (Cons x names)
  obtain res m' where eq: "dispatch_job wr x payload m = (res, m')" by force
  with dispatch_job_frame[of wr x payload m] Cons.IH[of m'] show ?case
    by (cases res) (simp_all add: eq)
qed simp

lemma shutdown_flag_ops [simp]:
  "shutdown_flag (child_exited env ck name code m) = shutdown_flag m"
  "shutdown_flag (snd (respawn_begin fmul ck req m)) = shutdown_flag m"
  "shutdown_flag (snd (spawn_child ck os sp m)) = shutdown_flag m"
  by (auto simp: child_exited_def respawn_begin_def spawn_child_def Let_def
      split: option.splits sum.splits)

lemma degraded_quiet:
  "quiet f \<Longrightarrow> degraded_or_down n (modify_handle name f m, r) = degraded_or_down n (m, r)"
  by (auto simp: degraded_or_down_def quiet_def)

lemma restart_loop_recv_degraded:
  assumes "mgr_inv (m, None)" and "degraded_or_down n (m, None)"
    and "restart_loop_recv fmul ck m = Some (res, m')"
  shows "degraded_or_down n (m', r)"
proof -
  obtain req reqs where chan: "restart_chan m = req # reqs"
    using assms(3) by (auto simp: restart_loop_recv_def split: list.splits)
  with assms(1) have "dead_in m (rr_name req)" by (auto simp: mgr_inv_names)
  then show ?thesis
    using assms(2,3) chan
    by (auto simp: degraded_or_down_def restart_loop_recv_def respawn_begin_def dead_in_def Let_def
        split: if_splits option.splits)
qed

interpretation degraded: transition_invariant
  "\<lambda>s. mgr_inv s \<and> degraded_or_down n s" mgr_step "\<lambda>s. mgr_inv s \<and> degraded_or_down n s" for n
proof
  fix s t
  assume s: "mgr_inv s \<and> degraded_or_down n s" and step: "mgr_step s t"
  then have inv: "mgr_inv s" "degraded_or_down n s" by simp_all
  from step inv have "degraded_or_down n t"
  proof cases
    case (exited m name h r env ck code)
    with inv show ?thesis
      by (auto simp: degraded_or_down_def child_exited_handles mgr_inv_def handles_ok_def
          handle_ok_def)
  next
    case (wake m sp ck os)
    with inv show ?thesis
      by (auto simp: degraded_or_down_def respawn_end_def spawn_child_handles mgr_inv_names
          dead_in_def)
  next
    case (dispatch m r wr prefix payload)
    with inv dispatch_first_frame[of wr "pool_candidates prefix m" payload m n] show ?thesis
      by (auto simp: degraded_or_down_def snd_dispatch_to_pool)
  next
    case queue_op
    with inv show ?thesis by (simp add: degraded_or_down_def)
  qed (use inv in \<open>auto simp: degraded_quiet record_heartbeat_def mgr_record_job_completion_def
      intro: restart_loop_recv_degraded\<close>, simp add: degraded_or_down_def shutdown_all_def)
  with inv step show "mgr_inv t \<and> degraded_or_down n t" by (blast intro: lifecycle.inv_step)
qed simp

text \<open>
  A child that exceeded its restart budget stays degraded: no sequence of manager steps brings it
  back to life, short of a supervisor shutdown.
\<close>

theorem degraded_is_final:
  assumes "reach mgr_init mgr_step (m, r)" and "mgr_step\<^sup>*\<^sup>* (m, r) (m', r')"
    and "handle_for n m = Some h" and "status h = Degraded"
  shows "shutdown_flag m' \<or> (\<exists>h'. handle_for n m' = Some h' \<and> status h' = Degraded)"
proof -
  have "mgr_inv (m, r) \<and> degraded_or_down n (m, r)"
    using assms lifecycle.reach_inv by (auto simp: degraded_or_down_def handle_for_def)
  with assms(2) have "degraded_or_down n (m', r')"
    using degraded.rtranclp_inv by blast
  then show ?thesis by (simp add: degraded_or_down_def handle_for_def)
qed

theorem degraded_is_final_witness:
  "shutdown_flag (demo_received 0) \<or>
   (\<exists>h'. handle_for ''brain-worker'' (demo_received 0) = Some h' \<and> status h' = Degraded)"
proof -
  obtain h where "handle_for ''brain-worker'' (demo_received 0) = Some h" "status h = Degraded"
    by (simp add: demo_eval handle_for_def)
  then show ?thesis
    by (rule degraded_is_final[OF demo_degraded_reach rtranclp.rtrancl_refl])
qed

end
