(* ===== verification/Manager_Dispatch.thy ===== *)
theory Manager_Dispatch
  imports Manager
begin

text \<open>
  What \<open>dispatch_to_pool\<close> (\<open>supervisor/src/manager.rs\<close>) does with a job line: which worker of the pool
  gets it, what reaches that worker's pipe, and what happens when no worker accepts.
\<close>

section \<open>One worker\<close>

text \<open>A worker accepts when it runs, has a pipe and the pipe takes the write.\<close>

definition accepts :: "(string \<Rightarrow> io_error option) \<Rightarrow> ChildManager \<Rightarrow> string \<Rightarrow> bool" where
  "accepts wr m n =
     (case hm_get (handles m) n of None \<Rightarrow> False
      | Some h \<Rightarrow> status h = Running \<and> stdin h \<noteq> None \<and> wr n = None)"

definition with_newline :: "string \<Rightarrow> string" where
  "with_newline s = (if ends_with s [CHR 0x0A] then s else s @ [CHR 0x0A])"

text \<open>What has been written to a child's pipe since it was spawned.\<close>

definition pipe :: "ChildManager \<Rightarrow> string \<Rightarrow> string option" where
  "pipe m n = (case hm_get (handles m) n of None \<Rightarrow> None | Some h \<Rightarrow> stdin h)"

definition send :: "string \<Rightarrow> string \<Rightarrow> ChildManager \<Rightarrow> ChildManager" where
  "send n payload m =
     modify_handle n (\<lambda>h. h\<lparr>stdin := map_option (\<lambda>s. s @ with_newline payload) (stdin h)\<rparr>) m"

lemma pipe_send:
  "pipe (send n payload m) n' =
     (if n' = n then map_option (\<lambda>s. s @ with_newline payload) (pipe m n) else pipe m n')"
  by (simp add: pipe_def send_def modify_handle_def split: option.splits)

lemma accepts_send [simp]: "accepts wr (send n payload m) n' = accepts wr m n'"
  by (auto simp: accepts_def send_def modify_handle_def split: option.splits)

lemma child_names_send [simp]: "set (child_names (send n payload m)) = set (child_names m)"
  by (simp add: child_names_def send_def modify_handle_def)

lemma hm_modify_cong:
  "(\<And>v. hm_get m k = Some v \<Longrightarrow> f v = g v) \<Longrightarrow> hm_modify k f m = hm_modify k g m"
  by (auto simp: hm_modify_def split: option.splits)

lemma dispatch_job_accepted:
  assumes "accepts wr m n"
  shows "dispatch_job wr n payload m = (Inr (), send n payload m)"
proof -
  obtain h s where h: "hm_get (handles m) n = Some h" "status h = Running" "stdin h = Some s"
      "wr n = None"
    using assms by (auto simp: accepts_def split: option.splits)
  have "hm_modify n (\<lambda>h. h\<lparr>stdin := Some (s @ payload @
          (if ends_with payload [CHR 0x0A] then [] else [CHR 0x0A]))\<rparr>) (handles m) =
        hm_modify n (\<lambda>h. h\<lparr>stdin := map_option (\<lambda>s. s @ with_newline payload) (stdin h)\<rparr>) (handles m)"
    using h by (intro hm_modify_cong) (auto simp: with_newline_def)
  with h show ?thesis by (simp add: dispatch_job_def send_def modify_handle_def)
qed

lemma dispatch_job_refused:
  assumes "\<not> accepts wr m n"
  shows "\<exists>e. dispatch_job wr n payload m = (Inl e, m)"
  using assms by (auto simp: accepts_def dispatch_job_def split: option.split)

section \<open>The pool\<close>

lemma dispatch_first_find:
  "dispatch_first wr ns payload m =
     (case find (accepts wr m) ns of
        None \<Rightarrow> (None, m) | Some n \<Rightarrow> (Some n, send n payload m))"
proof (induction ns)
  case (Cons n ns)
  show ?case
  proof (cases "accepts wr m n")
    case True
    then show ?thesis by (simp add: dispatch_job_accepted)
  next
    case False
    then obtain e where "dispatch_job wr n payload m = (Inl e, m)"
      using dispatch_job_refused by blast
    with False Cons show ?thesis by simp
  qed
qed simp

lemma find_sorted_least:
  fixes xs :: "'a :: linorder list"
  assumes "sorted xs" and "find P xs = Some x"
  shows "x \<in> set xs \<and> P x \<and> (\<forall>y \<in> set xs. P y \<longrightarrow> x \<le> y)"
  using assms by (induction xs) (auto split: if_splits)

lemma set_pool_candidates:
  "set (pool_candidates prefix m) = {n \<in> set (child_names m). starts_with n prefix}"
  by (simp add: pool_candidates_def)

text \<open>
  A job line goes to the least accepting worker of the pool in name order, exactly once and
  newline-terminated, and no other pipe sees it; the call fails exactly when no worker of the pool
  accepts, and then nothing was written at all.
\<close>

theorem dispatch_to_pool_correct:
  "case dispatch_to_pool wr prefix payload m of
     (Inr n, m') \<Rightarrow>
       n \<in> set (child_names m) \<and> starts_with n prefix \<and> accepts wr m n \<and>
       (\<forall>n' \<in> set (child_names m). starts_with n' prefix \<and> accepts wr m n' \<longrightarrow> n \<le> n') \<and>
       (\<exists>sent. pipe m n = Some sent \<and> pipe m' n = Some (sent @ with_newline payload)) \<and>
       (\<forall>n'. n' \<noteq> n \<longrightarrow> pipe m' n' = pipe m n')
   | (Inl _, m') \<Rightarrow>
       m' = m \<and> (\<forall>n' \<in> set (child_names m). starts_with n' prefix \<longrightarrow> \<not> accepts wr m n')"
proof (cases "find (accepts wr m) (pool_candidates prefix m)")
  case None
  then have "\<forall>n' \<in> set (pool_candidates prefix m). \<not> accepts wr m n'"
    by (simp add: find_None_iff)
  with None show ?thesis
    by (auto simp: dispatch_to_pool_def dispatch_first_find set_pool_candidates)
next
  case (Some n)
  have "sorted (pool_candidates prefix m)" by (simp add: pool_candidates_def)
  note least = find_sorted_least[OF this Some]
  then have "accepts wr m n" by blast
  then obtain sent where "pipe m n = Some sent"
    by (auto simp: accepts_def pipe_def split: option.splits)
  with Some least show ?thesis
    by (auto simp: dispatch_to_pool_def dispatch_first_find set_pool_candidates pipe_send)
qed

text \<open>A pool of two running parsers, the first of which takes the write.\<close>

definition demo_pool :: ChildManager where
  "demo_pool =
     (let h = (ChildHandle_new undefined 0)\<lparr>status := Running, stdin := Some []\<rparr> in
      (ChildManager_new undefined (LogRing_new 16))
        \<lparr>handles := [(''parser-worker-2'', h), (''parser-worker-1'', h)]\<rparr>)"

theorem dispatch_to_pool_correct_witness:
  "fst (dispatch_to_pool (\<lambda>_. None) ''parser-worker-'' ''{}'' demo_pool) = Inr ''parser-worker-1'' \<and>
   pipe (snd (dispatch_to_pool (\<lambda>_. None) ''parser-worker-'' ''{}'' demo_pool)) ''parser-worker-2'' =
     pipe demo_pool ''parser-worker-2''"
proof -
  have run: "fst (dispatch_to_pool (\<lambda>_. None) ''parser-worker-'' ''{}'' demo_pool) =
      Inr ''parser-worker-1''"
    by code_simp
  then obtain m' where
    "dispatch_to_pool (\<lambda>_. None) ''parser-worker-'' ''{}'' demo_pool = (Inr ''parser-worker-1'', m')"
    by (metis prod.collapse)
  with run show ?thesis
    using dispatch_to_pool_correct
      [where m = demo_pool and prefix = "''parser-worker-''" and payload = "''{}''" and wr = "\<lambda>_. None"]
    by simp
qed

text \<open>
  The choice does not rotate. As long as the same workers accept, every later line of the same
  pool goes to the same worker, whatever the lines are.
\<close>

theorem dispatch_to_pool_never_rotates:
  assumes "dispatch_to_pool wr prefix payload m = (Inr n, m')"
  shows "\<exists>m''. dispatch_to_pool wr prefix payload' m' = (Inr n, m'')"
proof -
  have found: "find (accepts wr m) (pool_candidates prefix m) = Some n" and m': "m' = send n payload m"
    using assms by (auto simp: dispatch_to_pool_def dispatch_first_find Let_def split: option.splits)
  have "hm_keys (hm_modify n f hs) = hm_keys hs" for f and hs :: "(string, ChildHandle) hmap"
    by (induction hs) (auto simp: hm_modify_def hm_keys_def update_keys split: option.splits dest: map_of_SomeD intro: rev_image_eqI)
  then have "pool_candidates prefix m' = pool_candidates prefix m"
    by (simp add: m' pool_candidates_def child_names_def send_def modify_handle_def)
  moreover have "find (accepts wr m') xs = find (accepts wr m) xs" for xs
    by (simp add: m' cong: find_cong)
  ultimately show ?thesis
    using found by (simp add: dispatch_to_pool_def dispatch_first_find)
qed

theorem dispatch_to_pool_never_rotates_witness:
  "\<exists>m' m''. dispatch_to_pool (\<lambda>_. None) ''parser-worker-'' ''{}'' demo_pool = (Inr ''parser-worker-1'', m') \<and>
     dispatch_to_pool (\<lambda>_. None) ''parser-worker-'' ''[]'' m' = (Inr ''parser-worker-1'', m'')"
proof -
  have "fst (dispatch_to_pool (\<lambda>_. None) ''parser-worker-'' ''{}'' demo_pool) = Inr ''parser-worker-1''"
    by code_simp
  then obtain m' where
    "dispatch_to_pool (\<lambda>_. None) ''parser-worker-'' ''{}'' demo_pool = (Inr ''parser-worker-1'', m')"
    by (metis prod.collapse)
  with dispatch_to_pool_never_rotates[OF this] show ?thesis by blast
qed

end
