(* ===== verification/Restart_Budget.thy ===== *)
theory Restart_Budget
  imports Manager
begin

text \<open>
  The restart budget and the backoff of \<open>respawn_one\<close> (\<open>supervisor/src/manager.rs\<close>): how often a child
  can be respawned in any stretch of time, and how the delay before a respawn grows.
\<close>

section \<open>A specification of the budget\<close>

text \<open>
  Attempts at the instants \<open>ts\<close> after the history \<open>hs\<close>: an attempt counts from then on, and it is
  permitted when at most \<open>k\<close> attempts, itself included, lie within \<open>w\<close> before it.
\<close>

fun budget_allowed :: "nat \<Rightarrow> nat \<Rightarrow> instant list \<Rightarrow> instant list \<Rightarrow> instant list" where
  "budget_allowed w k hs [] = []"
| "budget_allowed w k hs (t # ts) =
     (if length (filter (\<lambda>x. t - x \<le> w) (hs @ [t])) \<le> k then [t] else [])
       @ budget_allowed w k (hs @ [t]) ts"

lemma budget_allowed_snoc:
  "budget_allowed w k hs (ts @ [t]) =
     budget_allowed w k hs ts @
       (if length (filter (\<lambda>x. t - x \<le> w) (hs @ ts @ [t])) \<le> k then [t] else [])"
  by (induction w k hs ts rule: budget_allowed.induct) auto

lemma length_filter_budget_allowed:
  "length (filter P (budget_allowed w k hs ts)) \<le> length (filter P ts)"
  by (induction w k hs ts rule: budget_allowed.induct) auto

lemma set_budget_allowed: "set (budget_allowed w k hs ts) \<subseteq> set ts"
  by (induction w k hs ts rule: budget_allowed.induct) auto

lemma length_filter_mono:
  "(\<And>x. x \<in> set xs \<Longrightarrow> P x \<Longrightarrow> Q x) \<Longrightarrow> length (filter P xs) \<le> length (filter Q xs)"
  by (induction xs) (fastforce intro: le_SucI)+

lemma budget_allowed_rate:
  assumes "sorted ts"
  shows "length (filter (\<lambda>x. x \<le> u \<and> u \<le> x + w) (budget_allowed w k hs ts)) \<le> k"
  using assms
proof (induction ts rule: rev_induct)
  case (snoc t ts)
  let ?W = "\<lambda>x. x \<le> u \<and> u \<le> x + w" and ?A = "budget_allowed w k hs ts"
  have IH: "length (filter ?W ?A) \<le> k" using snoc by (simp add: sorted_append)
  show ?case
  proof (cases "?W t \<and> length (filter (\<lambda>x. t - x \<le> w) (hs @ ts @ [t])) \<le> k")
    case True
    have "length (filter ?W ?A) \<le> length (filter (\<lambda>x. t - x \<le> w) ?A)"
      using True by (intro length_filter_mono) auto
    also have "\<dots> \<le> length (filter (\<lambda>x. t - x \<le> w) ts)"
      by (rule length_filter_budget_allowed)
    finally have "length (filter ?W (?A @ [t])) \<le> length (filter (\<lambda>x. t - x \<le> w) (hs @ ts @ [t]))"
      using True by simp
    with True show ?thesis by (simp only: budget_allowed_snoc if_True) linarith
  next
    case False
    with IH show ?thesis by (auto simp: budget_allowed_snoc)
  qed
qed simp

section \<open>The manager implements it\<close>

text \<open>The instants at which \<open>respawn_one\<close> let the child through, for requests handled at \<open>cks\<close>.\<close>

fun respawn_run ::
  "(nat \<Rightarrow> f32 \<Rightarrow> nat) \<Rightarrow> RestartRequest \<Rightarrow> clock list \<Rightarrow> ChildManager \<Rightarrow> instant list" where
  "respawn_run fmul req [] m = []"
| "respawn_run fmul req (ck # cks) m =
     (case respawn_begin fmul ck req m of
        (Inr (Some _), m') \<Rightarrow> ck_instant ck # respawn_run fmul req cks m'
      | (_, m') \<Rightarrow> respawn_run fmul req cks m')"

text \<open>The handle's deque is the part of the whole history that the window still reaches.\<close>

definition deque_of :: "nat \<Rightarrow> instant list \<Rightarrow> instant list" where
  "deque_of w hs = (if hs = [] then [] else filter (\<lambda>x. last hs - x \<le> w) hs)"

lemma deque_of_step:
  assumes "sorted (hs @ [t])" and "restart_window h = deque_of w hs"
  shows "restart_window (record_restart t wall w h) = deque_of w (hs @ [t])"
proof -
  have "sorted (restart_window h @ [t])"
    using assms by (auto simp: deque_of_def sorted_append sorted_wrt_filter)
  then have "restart_window (record_restart t wall w h) =
      filter (\<lambda>x. t - x \<le> w) (deque_of w hs) @ [t]"
    using assms(2) by (simp add: restart_window_step)
  also have "filter (\<lambda>x. t - x \<le> w) (deque_of w hs) = filter (\<lambda>x. t - x \<le> w) hs"
  proof (cases "hs = []")
    case False
    then have "last hs \<le> t" using assms(1) by (auto simp: sorted_append)
    with False show ?thesis by (auto simp: deque_of_def intro!: filter_cong)
  qed (simp add: deque_of_def)
  finally show ?thesis by (simp add: deque_of_def)
qed

lemma restarts_in_window_deque:
  assumes "restart_window h = deque_of w (hs @ [t])" and "length hs < 2 ^ 32 - 1"
  shows "unat (restarts_in_window t w h) = length (filter (\<lambda>x. t - x \<le> w) (hs @ [t]))"
proof -
  have "length (filter (\<lambda>x. t - x \<le> w) (hs @ [t])) \<le> length (hs @ [t])"
    by (rule length_filter_le)
  also have "\<dots> < 2 ^ 32" using assms(2) by simp
  finally have "length (filter (\<lambda>x. t - x \<le> w) (hs @ [t])) < 2 ^ 32" .
  moreover have "filter (\<lambda>x. t - x \<le> w) (restart_window h) = filter (\<lambda>x. t - x \<le> w) (hs @ [t])"
    by (simp add: assms(1) deque_of_def)
  ultimately show ?thesis
    by (simp only: restarts_in_window_def duration_since_def unat_of_nat) simp
qed

lemma respawn_begin_budget:
  assumes "hm_get (handles m) (rr_name req) = Some h" and "sorted (hs @ [ck_instant ck])"
    and "restart_window h = deque_of (budget_window (default_restart_policy (config m))) hs"
    and "length hs < 2 ^ 32 - 1"
  defines "P \<equiv> default_restart_policy (config m)"
  shows "((\<exists>x. fst (respawn_begin fmul ck req m) = Inr (Some x)) \<longleftrightarrow>
            length (filter (\<lambda>x. ck_instant ck - x \<le> budget_window P) (hs @ [ck_instant ck]))
              \<le> unat (max_restarts_per_window P)) \<and>
         config (snd (respawn_begin fmul ck req m)) = config m \<and>
         (\<exists>h'. hm_get (handles (snd (respawn_begin fmul ck req m))) (rr_name req) = Some h' \<and>
            restart_window h' = deque_of (budget_window P) (hs @ [ck_instant ck]))"
proof -
  let ?t = "ck_instant ck"
  let ?h1 = "record_restart ?t (ck_utc ck) (budget_window P) h"
  have dq: "restart_window ?h1 = deque_of (budget_window P) (hs @ [?t])"
    using assms(2,3) by (intro deque_of_step) (simp_all add: P_def)
  have "unat (restarts_in_window ?t (budget_window P) ?h1) =
      length (filter (\<lambda>x. ?t - x \<le> budget_window P) (hs @ [?t]))"
    by (rule restarts_in_window_deque[OF dq assms(4)])
  then have "restarts_in_window ?t (budget_window P) ?h1 > max_restarts_per_window P \<longleftrightarrow>
      \<not> length (filter (\<lambda>x. ?t - x \<le> budget_window P) (hs @ [?t])) \<le> unat (max_restarts_per_window P)"
    by (simp add: word_less_nat_alt not_le)
  then show ?thesis
    using assms(1) dq by (simp add: respawn_begin_def Let_def P_def modify_handle_def)
qed

lemma respawn_run_budget:
  assumes "hm_get (handles m) (rr_name req) = Some h" and "sorted (hs @ map ck_instant cks)"
    and "restart_window h = deque_of (budget_window (default_restart_policy (config m))) hs"
    and "length hs + length cks < 2 ^ 32"
  shows "respawn_run fmul req cks m =
         budget_allowed (budget_window (default_restart_policy (config m)))
           (unat (max_restarts_per_window (default_restart_policy (config m)))) hs (map ck_instant cks)"
  using assms
proof (induction cks arbitrary: m h hs)
  case (Cons ck cks)
  obtain r m' where rm: "respawn_begin fmul ck req m = (r, m')" by force
  have sorted: "sorted (hs @ [ck_instant ck])" and len: "length hs < 2 ^ 32 - 1"
    using Cons.prems by (auto simp: sorted_append)
  note step = respawn_begin_budget[OF Cons.prems(1) sorted Cons.prems(3) len, of fmul]
  from step obtain h' where h': "hm_get (handles m') (rr_name req) = Some h'"
      "restart_window h' = deque_of (budget_window (default_restart_policy (config m))) (hs @ [ck_instant ck])"
    and cfg: "config m' = config m"
    unfolding rm by auto
  have "respawn_run fmul req cks m' =
      budget_allowed (budget_window (default_restart_policy (config m)))
        (unat (max_restarts_per_window (default_restart_policy (config m))))
        (hs @ [ck_instant ck]) (map ck_instant cks)"
    using Cons.IH[OF h'(1), of "hs @ [ck_instant ck]"] h'(2) Cons.prems(2,4) by (simp add: cfg)
  moreover have "(\<exists>x. r = Inr (Some x)) \<longleftrightarrow>
      length (filter (\<lambda>x. ck_instant ck - x \<le> budget_window (default_restart_policy (config m)))
        (hs @ [ck_instant ck])) \<le> unat (max_restarts_per_window (default_restart_policy (config m)))"
    using step by (simp add: rm)
  ultimately show ?case
    by (auto simp: rm split: sum.splits option.splits)
qed simp

text \<open>
  C4: however often a child crashes, in no stretch of time as long as the budget window does the
  manager let it be respawned more often than the budget allows; the attempts it refuses count too.
\<close>

theorem respawn_rate_bounded:
  assumes "handle_for (rr_name req) m = Some h" and "restart_window h = []"
    and "sorted (map ck_instant cks)" and "length cks < 2 ^ 32"
  shows "length (filter (\<lambda>t. t \<le> u \<and> u \<le> t + budget_window (default_restart_policy (config m)))
           (respawn_run fmul req cks m)) \<le> unat (max_restarts_per_window (default_restart_policy (config m)))"
proof -
  have "respawn_run fmul req cks m =
      budget_allowed (budget_window (default_restart_policy (config m)))
        (unat (max_restarts_per_window (default_restart_policy (config m)))) [] (map ck_instant cks)"
    using assms by (intro respawn_run_budget) (simp_all add: handle_for_def deque_of_def)
  then show ?thesis
    using budget_allowed_rate[OF assms(3)] by simp
qed

text \<open>A child that crashes every second: five respawns are let through, the sixth is refused.\<close>

definition demo_crash_loop :: ChildManager where
  "demo_crash_loop =
     (ChildManager_new (default_layout (\<lambda>_. None) 1) (LogRing_new 16))
       \<lparr>handles := [(''brain-worker'', ChildHandle_new (worker_spec [] [] [] [] 0 0) (from_millis 100))]\<rparr>"

definition demo_crashes :: "clock list" where
  "demo_crashes = map (\<lambda>s. \<lparr>ck_instant = from_secs s, ck_utc = 0\<rparr>) [1, 2, 3, 4, 5, 6, 7]"

definition demo_request :: RestartRequest where
  "demo_request = \<lparr>rr_name = ''brain-worker'', rr_exit_code = 1, rr_queued_at = 0\<rparr>"

lemmas demo_eval =
  demo_crash_loop_def demo_crashes_def demo_request_def ChildManager_new_def default_layout_def
  RestartPolicy_default_def ChildHandle_new_def respawn_begin_def modify_handle_def hm_modify_def
  record_restart_def restarts_in_window_def duration_since_def next_backoff_def from_secs_def
  from_millis_def as_millis_def Let_def

theorem respawn_rate_bounded_witness:
  "respawn_run (\<lambda>ms _. 5 * ms) demo_request demo_crashes demo_crash_loop = map from_secs [1, 2, 3, 4, 5] \<and>
   length (filter (\<lambda>t. t \<le> from_secs 7 \<and> from_secs 7 \<le> t + from_secs 60)
     (respawn_run (\<lambda>ms _. 5 * ms) demo_request demo_crashes demo_crash_loop)) \<le> 5"
proof -
  have "respawn_run (\<lambda>ms _. 5 * ms) demo_request demo_crashes demo_crash_loop =
      map from_secs [1, 2, 3, 4, 5]"
    by (simp add: demo_eval)
  moreover have "budget_window (default_restart_policy (config demo_crash_loop)) = from_secs 60"
    and "unat (max_restarts_per_window (default_restart_policy (config demo_crash_loop))) = 5"
    by (simp_all add: demo_eval)
  moreover have "handle_for (rr_name demo_request) demo_crash_loop =
      Some (ChildHandle_new (worker_spec [] [] [] [] 0 0) (from_millis 100))"
    by (simp add: handle_for_def demo_crash_loop_def demo_request_def)
  moreover have "sorted (map ck_instant demo_crashes)" "length demo_crashes < 2 ^ 32"
    by (simp_all add: demo_crashes_def from_secs_def)
  ultimately show ?thesis
    using respawn_rate_bounded[of demo_request demo_crash_loop
        "ChildHandle_new (worker_spec [] [] [] [] 0 0) (from_millis 100)" demo_crashes "from_secs 7"
        "\<lambda>ms _. 5 * ms"]
    by (simp add: ChildHandle_new_def)
qed

section \<open>Backoff\<close>

text \<open>The delays of successive permitted respawns of one child.\<close>

fun respawn_delays ::
  "(nat \<Rightarrow> f32 \<Rightarrow> nat) \<Rightarrow> RestartRequest \<Rightarrow> clock list \<Rightarrow> ChildManager \<Rightarrow> duration list" where
  "respawn_delays fmul req [] m = []"
| "respawn_delays fmul req (ck # cks) m =
     (case respawn_begin fmul ck req m of
        (Inr (Some (d, _)), m') \<Rightarrow> d # respawn_delays fmul req cks m'
      | (_, m') \<Rightarrow> respawn_delays fmul req cks m')"

definition backoff_ok :: "RestartPolicy \<Rightarrow> duration \<Rightarrow> bool" where
  "backoff_ok P d \<longleftrightarrow> from_millis 1 \<le> d \<and> d \<le> max (max_backoff P) (from_millis 1)"

lemma next_backoff_ok: "backoff_ok P (next_backoff fmul P d)"
proof -
  have "from_millis (as_millis (max_backoff P)) \<le> max_backoff P"
    by (simp add: from_millis_def as_millis_def)
  then show ?thesis
    by (auto simp: backoff_ok_def next_backoff_def Let_def from_millis_def max_def min_def)
qed

lemma respawn_begin_backoff:
  assumes "hm_get (handles m) (rr_name req) = Some h"
  shows "case respawn_begin fmul ck req m of
     (r, m') \<Rightarrow> config m' = config m \<and>
       (\<forall>d sp. r = Inr (Some (d, sp)) \<longrightarrow> d = current_backoff h) \<and>
       (\<exists>h'. hm_get (handles m') (rr_name req) = Some h' \<and>
          (current_backoff h' = current_backoff h \<or>
           backoff_ok (default_restart_policy (config m)) (current_backoff h')))"
  using assms
  by (auto simp: respawn_begin_def Let_def modify_handle_def record_restart_def next_backoff_ok)

lemma respawn_delays_ok:
  assumes "hm_get (handles m) (rr_name req) = Some h"
    and "backoff_ok (default_restart_policy (config m)) (current_backoff h)"
  shows "\<forall>d \<in> set (respawn_delays fmul req cks m). backoff_ok (default_restart_policy (config m)) d"
  using assms
proof (induction cks arbitrary: m h)
  case (Cons ck cks)
  obtain r m' where rm: "respawn_begin fmul ck req m = (r, m')" by force
  note step = respawn_begin_backoff[OF Cons.prems(1), of fmul ck, unfolded rm]
  from step Cons.prems(2) obtain h' where "hm_get (handles m') (rr_name req) = Some h'"
      "backoff_ok (default_restart_policy (config m')) (current_backoff h')" "config m' = config m"
    by auto
  then have "\<forall>d \<in> set (respawn_delays fmul req cks m'). backoff_ok (default_restart_policy (config m)) d"
    using Cons.IH[of m' h'] by simp
  then show ?case
    using step Cons.prems(2) by (simp add: rm split: sum.split option.split) blast
qed simp

text \<open>
  Every delay before a respawn is at least a millisecond and at most the policy's maximum,
  whatever the floating-point product gives, when the configured first delay is.
\<close>

theorem backoff_bounded:
  assumes "handle_for (rr_name req) m = Some (ChildHandle_new sp (initial_backoff P))"
    and "P = default_restart_policy (config m)"
    and "from_millis 1 \<le> initial_backoff P" and "initial_backoff P \<le> max_backoff P"
  shows "\<forall>d \<in> set (respawn_delays fmul req cks m). from_millis 1 \<le> d \<and> d \<le> max_backoff P"
proof -
  have "backoff_ok P (current_backoff (ChildHandle_new sp (initial_backoff P)))"
    using assms(3,4) by (simp add: backoff_ok_def ChildHandle_new_def)
  then have "\<forall>d \<in> set (respawn_delays fmul req cks m). backoff_ok P d"
    using respawn_delays_ok[OF assms(1)[unfolded handle_for_def]] assms(2) by simp
  moreover have "max (max_backoff P) (from_millis 1) = max_backoff P"
    using assms(3,4) by simp
  ultimately show ?thesis by (simp add: backoff_ok_def)
qed

theorem backoff_bounded_witness:
  "respawn_delays (\<lambda>ms _. 5 * ms) demo_request demo_crashes demo_crash_loop =
     map from_millis [100, 500, 2500, 10000, 10000] \<and>
   list_all (\<lambda>d. from_millis 1 \<le> d \<and> d \<le> from_secs 10)
     (respawn_delays (\<lambda>ms _. 5 * ms) demo_request demo_crashes demo_crash_loop)"
proof -
  have P: "default_restart_policy (config demo_crash_loop) = RestartPolicy_default"
    by (simp add: demo_crash_loop_def ChildManager_new_def default_layout_def Let_def)
  have "\<forall>d \<in> set (respawn_delays (\<lambda>ms _. 5 * ms) demo_request demo_crashes demo_crash_loop).
      from_millis 1 \<le> d \<and> d \<le> max_backoff RestartPolicy_default"
    by (rule backoff_bounded[where sp = "worker_spec [] [] [] [] 0 0"])
      (simp_all add: P, simp_all add: handle_for_def demo_crash_loop_def demo_request_def
        RestartPolicy_default_def from_millis_def from_secs_def)
  moreover have "respawn_delays (\<lambda>ms _. 5 * ms) demo_request demo_crashes demo_crash_loop =
      map from_millis [100, 500, 2500, 10000, 10000]"
    by (simp add: demo_eval)
  ultimately show ?thesis by (simp add: RestartPolicy_default_def list_all_iff)
qed

end
