(* ===== verification/Watchdog.thy ===== *)
theory Watchdog
  imports Manager
begin

text \<open>
  The watchdog (\<open>supervisor/src/watchdog.rs\<close>). A pass reads the handles and signals processes; it does
  not change the manager's state (the exit it causes is a later \<open>child_exited\<close> step). A pass is the
  list of the calls it makes: \<open>kill_child\<close> with its result, or the self-test verdict that is logged.
\<close>

section \<open>The two passes\<close>

definition HEARTBEAT_DEADLINE :: duration where
  "HEARTBEAT_DEADLINE = from_secs 3600"

fun heartbeat_names ::
  "instant \<Rightarrow> (u32 \<Rightarrow> string option) \<Rightarrow> ChildManager \<Rightarrow> string list \<Rightarrow> (string \<times> unit sup_result) list" where
  "heartbeat_names now kill m [] = []"
| "heartbeat_names now kill m (name # names) =
     (case handle_for name m of
        None \<Rightarrow> heartbeat_names now kill m names
      | Some h \<Rightarrow>
          if status h \<noteq> Running then heartbeat_names now kill m names
          else case last_heartbeat h of
            None \<Rightarrow> heartbeat_names now kill m names
          | Some t \<Rightarrow>
              if duration_since now t > HEARTBEAT_DEADLINE
              then (name, kill_child kill name m) # heartbeat_names now kill m names
              else heartbeat_names now kill m names)"

definition heartbeat_pass ::
  "instant \<Rightarrow> (u32 \<Rightarrow> string option) \<Rightarrow> ChildManager \<Rightarrow> (string \<times> unit sup_result) list" where
  "heartbeat_pass now kill m = heartbeat_names now kill m (child_names m)"

text \<open>\<open>as_millis() as u64\<close> truncates the \<open>u128\<close>.\<close>

definition elapsed_ms :: "instant \<Rightarrow> ChildHandle \<Rightarrow> u64" where
  "elapsed_ms now h =
     (case last_heartbeat h of
        Some t \<Rightarrow> of_nat (as_millis (duration_since now t))
      | None \<Rightarrow> - 1)"

fun self_test_names ::
  "duration \<Rightarrow> instant \<Rightarrow> ChildManager \<Rightarrow> string list \<Rightarrow> (string \<times> string \<times> bool) list" where
  "self_test_names interval now m [] = []"
| "self_test_names interval now m (name # names) =
     (case handle_for name m of
        None \<Rightarrow> self_test_names interval now m names
      | Some h \<Rightarrow>
          if status h \<noteq> Running then self_test_names interval now m names
          else case cs_health_endpoint (spec h) of
            None \<Rightarrow> self_test_names interval now m names
          | Some endpoint \<Rightarrow>
              (name, endpoint, elapsed_ms now h < of_nat (as_millis interval))
                # self_test_names interval now m names)"

definition self_test_pass ::
  "duration \<Rightarrow> instant \<Rightarrow> ChildManager \<Rightarrow> (string \<times> string \<times> bool) list" where
  "self_test_pass interval now m = self_test_names interval now m (child_names m)"

section \<open>Which children a pass signals\<close>

definition overdue :: "instant \<Rightarrow> ChildHandle \<Rightarrow> bool" where
  "overdue now h \<longleftrightarrow> status h = Running \<and>
     (case last_heartbeat h of None \<Rightarrow> False | Some t \<Rightarrow> t + HEARTBEAT_DEADLINE < now)"

definition overdue_child :: "instant \<Rightarrow> ChildManager \<Rightarrow> string \<Rightarrow> bool" where
  "overdue_child now m n = (case handle_for n m of None \<Rightarrow> False | Some h \<Rightarrow> overdue now h)"

lemma heartbeat_names_filter:
  "heartbeat_names now kill m names =
     map (\<lambda>n. (n, kill_child kill n m)) (filter (overdue_child now m) names)"
proof (induction names)
  case (Cons n names)
  have "t + HEARTBEAT_DEADLINE < now \<longleftrightarrow> HEARTBEAT_DEADLINE < now - t" for t by linarith
  with Cons show ?case
    by (auto simp: overdue_child_def overdue_def duration_since_def split: option.splits)
qed simp

text \<open>
  A heartbeat pass force-kills exactly the running children whose last heartbeat is older than the
  deadline, each once. In particular a child whose heartbeat was recorded no longer than the deadline
  ago is not among them.
\<close>

theorem heartbeat_pass_exact:
  assumes "hm_wf (handles m)"
  shows "distinct (map fst (heartbeat_pass now kill m)) \<and>
         (\<forall>n. n \<in> set (map fst (heartbeat_pass now kill m)) \<longleftrightarrow>
            (\<exists>h t. handle_for n m = Some h \<and> status h = Running \<and> last_heartbeat h = Some t \<and>
               t + from_secs 3600 < now)) \<and>
         (\<forall>n t. now \<le> t + from_secs 3600 \<longrightarrow>
            n \<notin> set (map fst (heartbeat_pass now kill (record_heartbeat t n m))))"
proof -
  have names: "map fst (heartbeat_pass now kill m') = filter (overdue_child now m') (child_names m')" for m'
    by (simp add: heartbeat_pass_def heartbeat_names_filter comp_def)
  have mem: "n \<in> set (child_names m')" if "handle_for n m' = Some h" for n h m'
    using that hm_get_iff_keys[of "handles m'" n] by (simp add: handle_for_def child_names_def)
  have "distinct (child_names m)"
    using assms by (simp add: child_names_def hm_wf_def)
  moreover have "n \<in> set (filter (overdue_child now m) (child_names m)) \<longleftrightarrow>
      (\<exists>h t. handle_for n m = Some h \<and> status h = Running \<and> last_heartbeat h = Some t \<and>
         t + from_secs 3600 < now)" for n
    using mem[of n m]
    by (auto simp: overdue_child_def overdue_def HEARTBEAT_DEADLINE_def split: option.splits)
  moreover have "n \<notin> set (filter (overdue_child now (record_heartbeat t n m)) (child_names (record_heartbeat t n m)))"
    if "now \<le> t + from_secs 3600" for n t
    using that by (auto simp: overdue_child_def overdue_def HEARTBEAT_DEADLINE_def record_heartbeat_def
        handle_for_def modify_handle_def split: option.splits)
  ultimately show ?thesis unfolding names by simp
qed

definition demo_silent :: ChildManager where
  "demo_silent =
     (ChildManager_new undefined (LogRing_new 16))
       \<lparr>handles := [(''a'', (ChildHandle_new undefined 0)\<lparr>status := Running, last_heartbeat := Some 5\<rparr>)]\<rparr>"

theorem heartbeat_pass_exact_witness:
  "''a'' \<in> set (map fst (heartbeat_pass (from_secs 3600 + 6) (\<lambda>_. None) demo_silent)) \<and>
   ''a'' \<notin> set (map fst (heartbeat_pass (from_secs 3600 + 6) (\<lambda>_. None)
             (record_heartbeat 6 ''a'' demo_silent)))"
proof -
  have "hm_wf (handles demo_silent)"
    by (simp add: demo_silent_def hm_wf_def hm_keys_def)
  from heartbeat_pass_exact[OF this, of "from_secs 3600 + 6" "\<lambda>_. None"] show ?thesis
    by (simp add: demo_silent_def handle_for_def)
qed

end
