(* ===== verification/Router.thy ===== *)
theory Router
  imports Job_Queue
begin

text \<open>
  The router of the supervisor (\<open>supervisor/src/lib.rs\<close>): the wire encoding of a job, one iteration of
  the drain loop of \<open>run_router\<close> split where it awaits the dispatch, and the part of \<open>run\<close> that opens the
  job queue at boot. File contents, the JSON printer of \<open>serde_json\<close> and the answer of
  \<open>dispatch_to_pool\<close> are arguments.
\<close>

section \<open>Encoding for the workers\<close>

definition infer_language_tag :: "path \<Rightarrow> string option" where
  "infer_language_tag p =
     (case extension p of
        None \<Rightarrow> None
      | Some e \<Rightarrow>
          let x = to_ascii_lowercase e in
          if x = ''rs'' then Some ''rust''
          else if x = ''py'' then Some ''python''
          else if x \<in> set [''ts'', ''tsx''] then Some ''typescript''
          else if x \<in> set [''js'', ''jsx'', ''mjs'', ''cjs''] then Some ''javascript''
          else if x = ''go'' then Some ''go''
          else if x = ''java'' then Some ''java''
          else if x \<in> set [''c'', ''h''] then Some ''c''
          else if x \<in> set [''cpp'', ''cc'', ''hpp'', ''hh'', ''cxx''] then Some ''cpp''
          else if x \<in> set [''md'', ''markdown''] then Some ''markdown''
          else if x = ''json'' then Some ''json''
          else if x = ''toml'' then Some ''toml''
          else if x \<in> set [''yaml'', ''yml''] then Some ''yaml''
          else None)"

text \<open>
  The object a worker receives. \<open>read\<close> gives the contents of a file or an error text. A \<open>json!\<close> object
  is a \<open>BTreeMap\<close>, whose order the printer decides; the fields stand in source order here.
\<close>

definition job_message :: "(path \<Rightarrow> string + string) \<Rightarrow> JobId \<Rightarrow> Job \<Rightarrow> string + json" where
  "job_message read jid job =
     (case job of
        Parse file_path _ \<Rightarrow>
          (case read file_path of
             Inl e \<Rightarrow> Inl (''read '' @ file_path @ '': '' @ e)
           | Inr content \<Rightarrow>
               (case infer_language_tag file_path of
                  None \<Rightarrow> Inl (''no language for '' @ file_path)
                | Some language \<Rightarrow>
                    Inr (JObj [(''job_id'', JNum (uint jid)), (''file_path'', JStr file_path),
                               (''language'', JStr language), (''content'', JStr content)])))
      | Scan file_path ast_id _ \<Rightarrow>
          (case read file_path of
             Inl e \<Rightarrow> Inl (''read '' @ file_path @ '': '' @ e)
           | Inr content \<Rightarrow>
               Inr (JObj [(''job_id'', JNum (uint jid)), (''file_path'', JStr file_path),
                          (''content'', JStr content),
                          (''ast_id'', case ast_id of None \<Rightarrow> JNull | Some a \<Rightarrow> JNum (uint a)),
                          (''scanner_filter'', JArr [])]))
      | Embed node_qualified txt _ \<Rightarrow>
          Inr (JObj [(''job_id'', JNum (uint jid)), (''node_qualified'', JStr node_qualified),
                     (''text'', JStr txt)])
      | Ingest md_file _ \<Rightarrow>
          Inr (JObj [(''job_id'', JNum (uint jid)), (''md_file'', JStr md_file)]))"

definition encode_for_worker ::
  "(json \<Rightarrow> string) \<Rightarrow> (path \<Rightarrow> string + string) \<Rightarrow> JobId \<Rightarrow> Job \<Rightarrow> string + string" where
  "encode_for_worker render read jid job =
     (case job_message read jid job of Inl e \<Rightarrow> Inl e | Inr j \<Rightarrow> Inr (render j))"

section \<open>The drain loop\<close>

text \<open>What the router does with the job it took once it knows the encoding and the dispatch result.\<close>

datatype routed = EncodeFailed | Dispatched string | NoWorker

definition router_settle ::
  "qenv \<Rightarrow> (json \<Rightarrow> string) \<Rightarrow> (path \<Rightarrow> string + string) \<Rightarrow> (string \<Rightarrow> string \<Rightarrow> string sup_result) \<Rightarrow>
   JobId \<Rightarrow> Job \<Rightarrow> JobQueue \<Rightarrow> routed \<times> JobQueue" where
  "router_settle env render read dispatch jid job q =
     (let prefix = pool_prefix job in
      case encode_for_worker render read jid job of
        Inl e \<Rightarrow>
          (EncodeFailed,
           snd (jq_complete env jid (OutcomeErr (''router encode: '' @ e) 0 JNull) q))
      | Inr line \<Rightarrow>
          (case dispatch prefix line of
             Inr worker \<Rightarrow> (Dispatched worker, jq_mark_assigned env jid worker q)
           | Inl _ \<Rightarrow> (NoWorker, jq_return_pending env jid q)))"

text \<open>
  One burst without other tasks in between: it goes on until the queue gives no job or no worker
  takes one. Each round that goes on removes one identifier from \<open>pending\<close>.
\<close>

function router_burst ::
  "qenv \<Rightarrow> (json \<Rightarrow> string) \<Rightarrow> (path \<Rightarrow> string + string) \<Rightarrow> (string \<Rightarrow> string \<Rightarrow> string sup_result) \<Rightarrow>
   JobQueue \<Rightarrow> JobQueue" where
  "router_burst env render read dispatch q =
     (case jq_next_pending q of
        (None, q') \<Rightarrow> q'
      | (Some (jid, job), q') \<Rightarrow>
          (case router_settle env render read dispatch jid job q' of
             (NoWorker, q'') \<Rightarrow> q''
           | (_, q'') \<Rightarrow> router_burst env render read dispatch q''))"
  by pat_completeness auto

lemma router_settle_pending:
  "router_settle env render read dispatch jid job q = (r, q') \<Longrightarrow> r \<noteq> NoWorker \<Longrightarrow>
   pending q' = pending q"
  by (auto simp: router_settle_def jq_complete_def jq_mark_assigned_def Let_def
      split: sum.splits option.splits)

lemma next_pending_shrinks:
  "jq_next_pending q = (Some (jid, job), q') \<Longrightarrow> length (pending q') < length (pending q)"
  by (auto simp: jq_next_pending_def split: list.splits)

lemma router_round_shrinks:
  assumes "(Some (jid, job), q') = jq_next_pending q"
    and "(r, q'') = router_settle env render read dispatch jid job q'" and "r \<noteq> NoWorker"
  shows "length (pending q'') < length (pending q)"
  using router_settle_pending[OF assms(2)[symmetric] assms(3)] next_pending_shrinks[OF assms(1)[symmetric]]
  by simp

termination router_burst
  by (relation "measure (\<lambda>(env, render, read, dispatch, q). length (pending q))")
    (auto intro: router_round_shrinks)

declare router_burst.simps [simp del]

section \<open>Boot\<close>

definition jobs_db_path :: "(string \<Rightarrow> string option) \<Rightarrow> path option \<Rightarrow> path \<Rightarrow> path" where
  "jobs_db_path env home temp =
     (case env ''MNEME_JOBS_DB'' of
        Some v \<Rightarrow> v
      | None \<Rightarrow>
          (case home of
             Some h \<Rightarrow> path_join (path_join (path_join h ''.mneme'') ''run'') ''jobs.db''
           | None \<Rightarrow> path_join temp ''mneme-jobs.db''))"

text \<open>
  The queue of a starting supervisor: \<open>opened\<close> is what opening the database gave and \<open>counter\<close> the
  identifier counter of the new process. A failed recovery leaves what it had done.
\<close>

definition BOOT_CAP :: usize where
  "BOOT_CAP = 16 * 1024"

definition boot_queue ::
  "codec \<Rightarrow> instant \<Rightarrow> jobs_table sup_result \<Rightarrow> sql_result \<Rightarrow> sql_result \<Rightarrow> sql_result \<Rightarrow> u64 \<Rightarrow>
   JobQueue \<times> u64" where
  "boot_queue cd now opened sql_max sql_flip sql_select counter =
     (let (q, counter') =
        (case opened of
           Inr t \<Rightarrow>
             (case jq_with_durable sql_max BOOT_CAP t counter of
                Inr qc \<Rightarrow> qc
              | Inl _ \<Rightarrow> (jq_new BOOT_CAP, counter))
         | Inl _ \<Rightarrow> (jq_new BOOT_CAP, counter))
      in (snd (jq_recover_from_disk cd now sql_flip sql_select q), counter'))"

end
