(* ===== verification/Supervisor_System.thy ===== *)
theory Supervisor_System
  imports Router
begin

text \<open>
  The job queue at work: clients submit, the router takes and settles, workers complete or die, and
  the supervisor crashes and boots again, in any order. The state is the queue, the identifier
  counter and the job the router holds between \<open>next_pending\<close> and the end of its dispatch. The grain is coarse: a method
  and its writes are one step, so are a dispatch and the \<open>mark_assigned\<close> after it, and a crash boots with a database
  that can be read. \<open>Queue_Interleaving\<close> has the finer steps and every boot; the invariant here is used there.
\<close>

section \<open>Steps\<close>

type_synonym sysst = "JobQueue \<times> u64 \<times> (JobId \<times> Job) option"

datatype event = LSubmit JobId | LRefused | LTake | LRoute JobId | LComplete JobId | LWorkerExit string | LCrash

text \<open>
  \<open>E\<close> restricts what the calls find around them. A submission is a step while fewer than \<open>2^63 - 1\<close>
  identifiers have been drawn, so that the \<open>i64\<close> keys on disk keep the order of the identifiers.
\<close>

inductive sys_step :: "(qenv \<Rightarrow> bool) \<Rightarrow> codec \<Rightarrow> sysst \<Rightarrow> event \<Rightarrow> sysst \<Rightarrow> bool"
  for E :: "qenv \<Rightarrow> bool" and cd :: codec where
  submitted: "E env \<Longrightarrow> unat c < 2 ^ 63 - 1 \<Longrightarrow> jq_submit env job w c q = (Inr i, c', q') \<Longrightarrow>
     sys_step E cd (q, c, h) (LSubmit i) (q', c', h)"
| refused: "E env \<Longrightarrow> unat c < 2 ^ 63 - 1 \<Longrightarrow> jq_submit env job w c q = (Inl e, c', q') \<Longrightarrow>
     sys_step E cd (q, c, h) LRefused (q', c', h)"
| taken: "jq_next_pending q = (h', q') \<Longrightarrow> sys_step E cd (q, c, None) LTake (q', c, h')"
| settled: "E env \<Longrightarrow> router_settle env render read dispatch i job q = (r, q') \<Longrightarrow>
     sys_step E cd (q, c, Some (i, job)) (if r = EncodeFailed then LComplete i else LRoute i) (q', c, None)"
| completed: "E env \<Longrightarrow> jq_complete env i out q = (w, q') \<Longrightarrow>
     sys_step E cd (q, c, h) (LComplete i) (q', c, h)"
| worker_exit: "E env \<Longrightarrow> jq_requeue_worker env w q = (n, q') \<Longrightarrow>
     sys_step E cd (q, c, h) (LWorkerExit w) (q', c, h)"
| crashed: "durable q = Some t \<Longrightarrow>
     boot_queue cd now (Inr t) SqlOk SqlOk SqlOk JOB_ID_COUNTER = (q', c') \<Longrightarrow>
     sys_step E cd (q, c, h) LCrash (q', c', None)"

inductive sys_run :: "(qenv \<Rightarrow> bool) \<Rightarrow> codec \<Rightarrow> sysst \<Rightarrow> event list \<Rightarrow> sysst \<Rightarrow> bool"
  for E :: "qenv \<Rightarrow> bool" and cd :: codec where
  run_refl: "sys_run E cd s [] s"
| run_step: "sys_step E cd s l s' \<Longrightarrow> sys_run E cd s' ls t \<Longrightarrow> sys_run E cd s (l # ls) t"

text \<open>A new queue, in memory or on an empty table.\<close>

definition sys_init :: "sysst \<Rightarrow> bool" where
  "sys_init s \<longleftrightarrow> (\<exists>cap d. s = ((jq_new cap)\<lparr>durable := d\<rparr>, JOB_ID_COUNTER, None) \<and> d \<in> {None, Some []})"

section \<open>Invariant\<close>

definition held_ids :: "(JobId \<times> Job) option \<Rightarrow> JobId list" where
  "held_ids h = (case h of None \<Rightarrow> [] | Some (i, _) \<Rightarrow> [i])"

text \<open>Every identifier stands in one place only, and every tracked one stands somewhere.\<close>

definition placed :: "JobId list \<Rightarrow> JobQueue \<Rightarrow> bool" where
  "placed hs q \<longleftrightarrow> distinct (hs @ pending q) \<and>
     set (hs @ pending q) \<inter> set (hm_keys (in_flight q)) = {} \<and>
     set (hm_keys (tracked q)) \<subseteq> set (hs @ pending q) \<union> set (hm_keys (in_flight q))"

text \<open>No identifier in use, in memory or on disk, has reached the counter.\<close>

definition tbl_keys :: "jobs_table \<Rightarrow> i64 set" where
  "tbl_keys t = fst ` set t"

definition keys_below :: "u64 \<Rightarrow> JobQueue \<Rightarrow> bool" where
  "keys_below c q \<longleftrightarrow>
     (\<forall>t. durable q = Some t \<longrightarrow> (\<forall>k \<in> tbl_keys t. 0 \<le> k \<and> k < u64_as_i64 c))"

definition below :: "u64 \<Rightarrow> JobId list \<Rightarrow> JobQueue \<Rightarrow> bool" where
  "below c hs q \<longleftrightarrow> unat c < 2 ^ 63 \<and>
     (\<forall>i \<in> set (hs @ pending q) \<union> set (hm_keys (in_flight q)). i < c) \<and> keys_below c q"

definition sys_inv :: "sysst \<Rightarrow> bool" where
  "sys_inv s \<longleftrightarrow> (case s of (q, c, h) \<Rightarrow> jq_wf q \<and> placed (held_ids h) q \<and> below c (held_ids h) q)"

lemma sys_inv_iff [simp]:
  "sys_inv (q, c, h) \<longleftrightarrow> jq_wf q \<and> placed (held_ids h) q \<and> below c (held_ids h) q"
  by (simp add: sys_inv_def)

lemma held_ids_simps [simp]:
  "held_ids None = []" "held_ids (Some (i, job)) = [i]"
  by (simp_all add: held_ids_def)

text \<open>Identifiers and their keys on disk, below \<open>2^63\<close>.\<close>

lemma u64_as_i64_small:
  assumes "unat i < 2 ^ 63"
  shows "u64_as_i64 i = uint i"
proof -
  have "nat (uint i) < nat (2 ^ 63)"
    using assms by (simp only: unat_eq_nat_uint) simp
  then have lt: "uint i < 2 ^ 63" by (simp only: nat_less_eq_zless[OF uint_ge_0])
  have ge: "- (2 ^ 63) \<le> uint i"
    by (rule order_trans[OF _ uint_ge_0]) simp
  have "sint i = signed_take_bit (LENGTH(64) - Suc 0) (uint i)"
    by (rule sint_uint)
  also have "LENGTH(64) - Suc 0 = 63" by simp
  also have "signed_take_bit 63 (uint i) = uint i"
    using ge lt by (rule signed_take_bit_int_eq_self)
  finally show ?thesis by (simp only: u64_as_i64_def)
qed

lemma u64_as_i64_less:
  assumes "unat c < 2 ^ 63" and "i < c"
  shows "0 \<le> u64_as_i64 i \<and> u64_as_i64 i < u64_as_i64 c"
proof -
  have "unat i < 2 ^ 63" using assms by (simp add: word_less_nat_alt)
  with assms show ?thesis by (simp add: u64_as_i64_small word_less_def)
qed

lemma counter_step: "unat c < 2 ^ 63 - 1 \<Longrightarrow> c < c + 1 \<and> unat (c + 1) < 2 ^ 63"
  for c :: u64
proof -
  assume "unat c < 2 ^ 63 - 1"
  then have "unat (c + 1) = unat c + 1" by (subst unat_word_ariths) simp
  with \<open>unat c < 2 ^ 63 - 1\<close> show ?thesis by (simp add: word_less_nat_alt)
qed

section \<open>What a step does to the disk keys\<close>

lemma durable_mirror_cong: "durable q' = durable q \<Longrightarrow> durable (mirror f q') = durable (mirror f q)"
  by (simp add: mirror_def split: option.splits sum.splits)

lemma durable_fold_mirror_cong:
  "durable q' = durable q \<Longrightarrow>
   durable (fold (\<lambda>i. mirror (f i)) is q') = durable (fold (\<lambda>i. mirror (f i)) is q)"
proof (induction "is" arbitrary: q q')
  case (Cons i "is")
  from Cons.IH[OF durable_mirror_cong[OF Cons.prems]] show ?case by simp
qed simp

lemma durable_mark_assigned:
  "durable (jq_mark_assigned env i w q) =
     durable (mirror (dq_mark_in_flight (qe_sql env i) (qe_unix_ms env) i w) q)"
  by (auto simp: jq_mark_assigned_def intro!: durable_mirror_cong)

lemma durable_return_pending:
  "durable (jq_return_pending env i q) = durable (mirror (dq_requeue (qe_sql env i) i) q)"
  by (auto simp: jq_return_pending_def intro!: durable_mirror_cong)

lemma durable_requeue_worker:
  "durable (snd (jq_requeue_worker env w q)) =
     durable (fold (\<lambda>jid. mirror (dq_requeue (qe_sql env jid) jid)) (worker_jobs w q) q)"
  by (auto simp: jq_requeue_worker_def Let_def fold_requeue_one intro!: durable_fold_mirror_cong)

lemma durable_complete:
  "durable (snd (jq_complete env i out q)) =
     (if hm_get (tracked q) i = None then durable q
      else durable (mirror (dq_mark_done (qe_sql env i) (qe_unix_ms env) i out) q))"
  by (auto simp: jq_complete_def Let_def split: option.splits intro!: durable_mirror_cong)

lemma tbl_keys_update [simp]: "tbl_keys (tbl_update P f t) = tbl_keys t"
  by (simp add: tbl_keys_def flip: set_map)

lemma tbl_keys_put [simp]: "tbl_keys (tbl_put k r t) = insert k (tbl_keys t)"
  by (simp add: tbl_keys_def fst_set_tbl_put)

definition keeps_keys :: "(jobs_table \<Rightarrow> jobs_table sup_result) \<Rightarrow> bool" where
  "keeps_keys f \<longleftrightarrow> (\<forall>t t'. f t = Inr t' \<longrightarrow> tbl_keys t' = tbl_keys t)"

lemma keys_below_mirror: "keeps_keys f \<Longrightarrow> keys_below c q \<Longrightarrow> keys_below c (mirror f q)"
  by (auto simp: mirror_def keys_below_def keeps_keys_def split: option.splits sum.splits)

lemma keys_below_fold_mirror:
  "(\<And>i. keeps_keys (f i)) \<Longrightarrow> keys_below c q \<Longrightarrow> keys_below c (fold (\<lambda>i. mirror (f i)) is q)"
  by (induction "is" arbitrary: q) (simp_all add: keys_below_mirror)

lemma dq_ops_keys [simp]:
  "keeps_keys (dq_mark_in_flight sql now i w)" "keeps_keys (dq_requeue sql i)"
  "keeps_keys (dq_mark_done sql now i out)"
  by (simp_all add: keeps_keys_def dq_mark_in_flight_def dq_requeue_def dq_mark_done_def dq_row_defs Let_def)

lemma keys_below_mono:
  "keys_below c q \<Longrightarrow> unat c' < 2 ^ 63 \<Longrightarrow> c < c' \<Longrightarrow> keys_below c' q"
  using u64_as_i64_less[of c' c] by (fastforce simp: keys_below_def)

lemma keys_below_cong: "durable q' = durable q \<Longrightarrow> keys_below c q' = keys_below c q"
  by (simp add: keys_below_def)

lemma keys_below_push:
  assumes "keys_below c q" and "unat (c + 1) < 2 ^ 63" and "c < c + 1"
  shows "keys_below (c + 1) (mirror (dq_push cd sql now c job) q)"
proof -
  have "0 \<le> u64_as_i64 c" "u64_as_i64 c < u64_as_i64 (c + 1)"
    using u64_as_i64_less[OF assms(2,3)] by auto
  moreover have "keys_below (c + 1) q"
    using assms by (rule keys_below_mono)
  ultimately show ?thesis
    by (auto simp: keys_below_def mirror_def dq_push_def push_row_def split: option.splits sum.splits)
qed

section \<open>The invariant is kept\<close>

lemma tracked_iff_outstanding: "i \<in> set (hm_keys (tracked q)) \<longleftrightarrow> outstanding q i \<noteq> None"
  using hm_get_iff_keys[of "tracked q" i] by (simp add: outstanding_def)

lemma submit_cases:
  assumes "jq_submit env job w c q = (r, c', q')"
  obtains (full) e where "r = Inl e" "q' = q" "c' = c + 1"
  | (ok) q1 where "r = Inr c" "c' = c + 1"
      "q1 = mirror (dq_push (qe_codec env) (qe_sql env c) (qe_unix_ms env) c job) q"
      "q' = q1\<lparr>pending := pending q @ [c], tracked := hm_insert c
          \<lparr>trk_job = job, trk_assigned_to = None, trk_enqueued_at = qe_instant env, trk_waker = w\<rparr>
          (tracked q), wake_router := True\<rparr>"
      "length (pending q) + length (in_flight q) < max_pending q"
  using assms by (auto simp: jq_submit_def JobId_next_def Let_def split: if_splits)

lemma sys_inv_submit:
  assumes "sys_inv (q, c, h)" and "unat c < 2 ^ 63 - 1" and "jq_submit env job w c q = (r, c', q')"
  shows "sys_inv (q', c', h)"
proof -
  have c: "c < c + 1" "unat (c + 1) < 2 ^ 63" using counter_step[OF assms(2)] by auto
  have wf: "jq_wf q'" using assms(1) jq_wf_submit[of q env job w c] by (simp add: assms(3))
  have fresh: "c \<notin> set (held_ids h @ pending q) \<union> set (hm_keys (in_flight q))"
    and lt: "\<forall>i \<in> set (held_ids h @ pending q) \<union> set (hm_keys (in_flight q)). i < c + 1"
    using assms(1) c(1) by (auto simp: below_def intro: less_trans)
  from assms(3) show ?thesis
  proof (cases rule: submit_cases)
    case full
    have "keys_below (c + 1) q"
      using assms(1) c by (auto simp: below_def intro: keys_below_mono)
    with full assms(1) wf c lt show ?thesis by (simp add: below_def)
  next
    case (ok q1)
    have "keys_below (c + 1) q1"
      unfolding ok(3) using assms(1) c by (intro keys_below_push) (simp_all add: below_def)
    then have "below (c + 1) (held_ids h) q'"
      using c lt by (auto simp: ok below_def keys_below_def)
    moreover have "placed (held_ids h) q'"
      using assms(1) fresh by (auto simp: ok placed_def)
    ultimately show ?thesis using wf ok(2) by simp
  qed
qed

lemma sys_inv_taken:
  assumes "sys_inv (q, c, None)" and "jq_next_pending q = (h', q')"
  shows "sys_inv (q', c, h')"
proof (cases "pending q")
  case Nil
  with assms show ?thesis by (auto simp: jq_next_pending_def)
next
  case (Cons i rest)
  then have q': "q' = q\<lparr>pending := rest\<rparr>" and h': "h' = map_option (\<lambda>t. (i, trk_job t)) (hm_get (tracked q) i)"
    using assms(2) by (auto simp: jq_next_pending_def)
  have "i \<notin> set (hm_keys (tracked q))" if "h' = None"
    using that hm_get_iff_keys[of "tracked q" i] by (simp add: h')
  moreover have "held_ids h' = (if h' = None then [] else [i])"
    by (auto simp: held_ids_def h')
  ultimately show ?thesis
    using assms(1) Cons
    by (auto simp: q' jq_wf_def placed_def below_def keys_below_def)
qed

lemma sys_inv_completed:
  assumes "sys_inv (q, c, h)" and "jq_complete env i out q = (w, q')"
  shows "sys_inv (q', c, h)"
proof -
  have wf: "jq_wf q'" using assms jq_wf_complete[of q env i out] by simp
  have frame: "pending q' = pending q" "in_flight q' = hm_remove i (in_flight q)"
    "tracked q' = hm_remove i (tracked q)"
    using assms(2) by (auto simp: jq_complete_def Let_def delete_idem map_of_eq_None_iff split: option.splits)
  have "keys_below c q'"
    using assms(1) durable_complete[of env i out q]
    by (simp add: assms(2) below_def keys_below_mirror keys_below_cong[of q' q]
        keys_below_cong[of q' "mirror (dq_mark_done (qe_sql env i) (qe_unix_ms env) i out) q"]
        split: if_splits)
  with wf assms(1) show ?thesis
    by (auto simp: placed_def below_def frame)
qed

lemma sys_inv_worker_exit:
  assumes "sys_inv (q, c, h)" and "jq_requeue_worker env w q = (n, q')"
  shows "sys_inv (q', c, h)"
proof -
  have q': "q' = snd (jq_requeue_worker env w q)" using assms(2) by simp
  have wf: "jq_wf q'" using assms(1) by (simp add: q' jq_wf_requeue_worker)
  have wfi: "hm_wf (in_flight q)" using assms(1) by (simp add: jq_wf_def)
  have pend: "pending q' = rev (worker_jobs w q) @ pending q"
    by (simp add: q' requeue_worker_pending)
  have "set (hm_keys (in_flight q')) = set (hm_keys (in_flight q)) - set (worker_jobs w q)"
    by (auto simp: q' requeue_worker_in_flight split: if_splits simp flip: hm_get_iff_keys)
  moreover have "set (worker_jobs w q) \<subseteq> set (hm_keys (in_flight q))"
    by (auto simp: worker_jobs_iff[OF wfi] simp flip: hm_get_iff_keys)
  moreover have "set (hm_keys (tracked q')) = set (hm_keys (tracked q))"
    by (simp add: set_eq_iff tracked_iff_outstanding q')
  moreover have "keys_below c q'"
    using assms(1) unfolding q' keys_below_cong[OF durable_requeue_worker]
    by (intro keys_below_fold_mirror) (simp_all add: below_def)
  ultimately show ?thesis
    using wf assms(1) distinct_worker_jobs[OF wfi]
    by (auto simp: placed_def below_def pend)
qed

lemma sys_inv_settled:
  assumes "sys_inv (q, c, Some (i, job))"
    and "router_settle env render read dispatch i job q = (r, q')"
  shows "sys_inv (q', c, None)"
proof -
  have i: "i \<notin> set (pending q)" "i \<notin> set (hm_keys (in_flight q))" "i < c"
    and kb: "keys_below c q" using assms(1) by (auto simp: placed_def below_def)
  have assigned: "sys_inv (jq_mark_assigned env i w q, c, None)" for w
  proof -
    have "keys_below c (jq_mark_assigned env i w q)"
      using kb unfolding keys_below_cong[OF durable_mark_assigned] by (intro keys_below_mirror) simp_all
    with assms(1) i jq_wf_mark_assigned[of q env i w] show ?thesis
      by (auto simp: placed_def below_def jq_mark_assigned_def)
  qed
  have returned: "sys_inv (jq_return_pending env i q, c, None)"
  proof -
    have "keys_below c (jq_return_pending env i q)"
      using kb unfolding keys_below_cong[OF durable_return_pending] by (intro keys_below_mirror) simp_all
    moreover have "hm_get (tracked q) i = None \<Longrightarrow> i \<notin> set (hm_keys (tracked q))"
      using hm_get_iff_keys[of "tracked q" i] by simp
    ultimately show ?thesis
      using assms(1) i jq_wf_return_pending[of q env i]
      by (auto simp: placed_def below_def jq_return_pending_def)
  qed
  have failed: "sys_inv (snd (jq_complete env i out q), c, None)" for out
  proof -
    obtain w q'' where c: "jq_complete env i out q = (w, q'')" by force
    have "sys_inv (q'', c, Some (i, job))" by (rule sys_inv_completed[OF assms(1) c])
    moreover have "i \<notin> set (hm_keys (tracked q''))"
      using outstanding_complete[of env i out q] by (simp add: tracked_iff_outstanding c)
    ultimately show ?thesis by (auto simp: c placed_def below_def)
  qed
  from assms(2) show ?thesis
    using assigned returned failed by (auto simp: router_settle_def Let_def split: sum.splits)
qed

end
