(* ===== verification/Boot.thy ===== *)
theory Boot
  imports Supervisor_System
begin

text \<open>
  What a booting supervisor makes of the table a crashed one left: the identifiers it may hand out
  and the queue \<open>recover_from_disk\<close> (\<open>supervisor/src/job_queue.rs\<close>) loads.
\<close>

section \<open>The identifier counter\<close>

lemma uint_i64_as_u64: "0 \<le> k \<Longrightarrow> k < 2 ^ 63 \<Longrightarrow> uint (i64_as_u64 k) = k"
  by (simp add: i64_as_u64_def uint_word_of_int_eq take_bit_int_eq_self)

definition max_key :: "jobs_table \<Rightarrow> i64" where
  "max_key t = (case map fst t of [] \<Rightarrow> 0 | k # ks \<Rightarrow> fold max ks k)"

lemma max_key_ge: "k \<in> tbl_keys t \<Longrightarrow> k \<le> max_key t"
proof -
  assume "k \<in> tbl_keys t"
  then have mem: "k \<in> set (map fst t)" by (simp add: tbl_keys_def)
  then obtain a as where "map fst t = a # as" by (cases "map fst t") auto
  with mem show ?thesis using fold_max_ge[of k a as] by (simp add: max_key_def)
qed

lemma max_key_in: "t \<noteq> [] \<Longrightarrow> max_key t \<in> tbl_keys t"
proof -
  assume "t \<noteq> []"
  then obtain a as where "map fst t = a # as" by (cases "map fst t") auto
  moreover from this have "fold max as a \<in> set (map fst t)" by (simp only: fold_max_in)
  ultimately have "max_key t \<in> set (map fst t)" by (simp only: max_key_def list.case)
  then show ?thesis by (simp add: tbl_keys_def)
qed

definition boot_counter :: "jobs_table \<Rightarrow> u64" where
  "boot_counter t =
     (if max_id_of t > 0 then seed_to (max_id_of t + 1) JOB_ID_COUNTER else JOB_ID_COUNTER)"

lemma uint_boot_counter:
  assumes "\<forall>k \<in> tbl_keys t. 0 \<le> k \<and> k < 2 ^ 63 - 1"
  shows "uint (boot_counter t) = max_key t + 1 \<and> 0 \<le> max_key t \<and> max_key t < 2 ^ 63 - 1"
proof -
  have range: "0 \<le> max_key t" "max_key t < 2 ^ 63 - 1"
    using assms max_key_in[of t] by (cases "t = []"; simp add: max_key_def)+
  then have max_id: "max_id_of t = i64_as_u64 (max_key t)" and u: "uint (max_id_of t) = max_key t"
    by (simp_all add: max_id_of_def max_key_def[symmetric] uint_i64_as_u64)
  show ?thesis
  proof (cases "max_key t = 0")
    case True
    then have "max_id_of t = 0" by (simp add: max_id i64_as_u64_def)
    with True range show ?thesis by (simp add: boot_counter_def JOB_ID_COUNTER_def)
  next
    case False
    then have pos: "max_id_of t > 0"
      using u range by (simp add: word_less_def)
    have "uint (max_id_of t + 1) = max_key t + 1"
      using u range by (simp add: uint_word_ariths)
    moreover from this have "seed_to (max_id_of t + 1) JOB_ID_COUNTER = max_id_of t + 1"
      using range False by (simp add: seed_to_max JOB_ID_COUNTER_def max_def word_le_def)
    ultimately show ?thesis using pos range by (simp add: boot_counter_def)
  qed
qed

section \<open>Loading the recovered jobs\<close>

lemma load_recovered_frame [simp]:
  "pending (load_recovered now rs q) = pending q @ map rj_id rs"
  "in_flight (load_recovered now rs q) = in_flight q"
  "durable (load_recovered now rs q) = durable q"
  "max_pending (load_recovered now rs q) = max_pending q"
  by (induction now rs q rule: load_recovered.induct) simp_all

lemma hm_wf_load_recovered: "hm_wf (tracked q) \<Longrightarrow> hm_wf (tracked (load_recovered now rs q))"
  by (induction now rs q rule: load_recovered.induct) simp_all

lemma outstanding_load_recovered:
  "distinct (map rj_id rs) \<Longrightarrow>
   outstanding (load_recovered now rs q) i =
     (case map_of (map (\<lambda>\<rho>. (rj_id \<rho>, rj_job \<rho>)) rs) i of
        Some job \<Rightarrow> Some job | None \<Rightarrow> outstanding q i)"
proof (induction now rs q rule: load_recovered.induct)
  case (2 now r rs q)
  have "map_of (map (\<lambda>\<rho>. (rj_id \<rho>, rj_job \<rho>)) rs) (rj_id r) = None"
    using "2.prems" by (auto simp: map_of_eq_None_iff)
  with 2 show ?case by (auto simp: outstanding_def split: option.splits)
qed (simp add: outstanding_def)

definition recovered :: "codec \<Rightarrow> jobs_table \<Rightarrow> RecoveredJob list" where
  "recovered cd t = decode_rows cd (select_state ''queued'' (requeue_all_rows t))"

lemma recovered_sorted:
  assumes "dq_wf t"
  shows "sorted_wrt (<) (map (\<lambda>\<rho>. u64_as_i64 (rj_id \<rho>)) (recovered cd t))"
proof -
  have "dq_wf (requeue_all_rows t)" using assms by (rule dq.ok_flip)
  then have "sorted_wrt (<) (map fst (select_state ''queued'' (requeue_all_rows t)))"
    and "\<forall>k \<in> fst ` set (select_state ''queued'' (requeue_all_rows t)). u64_as_i64 (i64_as_u64 k) = k"
    by (auto simp: dq_wf_def select_state_def sorted_wrt_map sorted_wrt_filter)
  then show ?thesis unfolding recovered_def by (rule decode_rows_ids_sorted)
qed

lemma recovered_distinct: "dq_wf t \<Longrightarrow> distinct (map rj_id (recovered cd t))"
proof -
  assume "dq_wf t"
  then have "distinct (map u64_as_i64 (map rj_id (recovered cd t)))"
    using recovered_sorted[of t cd] by (simp add: strict_sorted_iff comp_def)
  then show ?thesis by (simp only: distinct_map)
qed

lemma recovered_keys:
  assumes "\<rho> \<in> set (recovered cd t)"
  shows "\<exists>k \<in> tbl_keys t. rj_id \<rho> = i64_as_u64 k"
proof -
  obtain k r where "(k, r) \<in> set (requeue_all_rows t)" "rj_id \<rho> = i64_as_u64 k"
    using assms by (auto simp: recovered_def set_decode_rows select_state_def)
  moreover from this have "k \<in> tbl_keys (requeue_all_rows t)"
    by (force simp: tbl_keys_def)
  ultimately show ?thesis by (auto simp: requeue_all_rows_def)
qed

lemma outstanding_wake [simp]: "outstanding (q\<lparr>wake_router := b\<rparr>) = outstanding q"
  by (simp add: outstanding_def fun_eq_iff)

lemma outstanding_new_durable [simp]: "outstanding ((jq_new cap)\<lparr>durable := d\<rparr>) i = None"
  by (simp add: outstanding_def jq_new_def)

text \<open>The booted queue, in terms of the rows.\<close>

lemma boot_queue_shape:
  assumes "boot_queue cd now (Inr t) SqlOk SqlOk SqlOk JOB_ID_COUNTER = (q', c')"
  shows "c' = boot_counter t" and "pending q' = map rj_id (recovered cd t)" and "in_flight q' = []"
    and "durable q' = Some (requeue_all_rows t)" and "hm_wf (tracked q')"
    and "max_pending q' = BOOT_CAP"
    and "dq_wf t \<Longrightarrow> outstanding q' i =
      map_of (map (\<lambda>\<rho>. (rj_id \<rho>, rj_job \<rho>)) (recovered cd t)) i"
proof -
  let ?q1 = "(jq_new BOOT_CAP)\<lparr>durable := Some (requeue_all_rows t)\<rparr>"
  have q': "q' = (if recovered cd t = [] then ?q1
      else (load_recovered now (recovered cd t) ?q1)\<lparr>wake_router := True\<rparr>)"
    and c': "c' = boot_counter t"
    using assms
    by (auto simp: boot_queue_def jq_with_durable_def dq_max_id_def jq_recover_from_disk_def
        dq_requeue_all_in_flight_def dq_recover_queued_def Let_def boot_counter_def jq_new_def
        recovered_def[symmetric] split: if_splits)
  show "c' = boot_counter t" by (rule c')
  show "pending q' = map rj_id (recovered cd t)" "in_flight q' = []"
    "durable q' = Some (requeue_all_rows t)" "hm_wf (tracked q')" "max_pending q' = BOOT_CAP"
    by (simp_all add: q' jq_new_def hm_wf_load_recovered)
  show "outstanding q' i = map_of (map (\<lambda>\<rho>. (rj_id \<rho>, rj_job \<rho>)) (recovered cd t)) i" if "dq_wf t"
    using outstanding_load_recovered[OF recovered_distinct[OF that], of now cd ?q1 i]
    by (simp add: q' outstanding_new_durable split: option.splits)
qed

text \<open>Which jobs are outstanding after a boot: those of the live rows that decode.\<close>

lemma boot_outstanding:
  assumes "boot_queue cd now (Inr t) SqlOk SqlOk SqlOk JOB_ID_COUNTER = (q', c')" and "dq_wf t"
  shows "outstanding q' i = Some job \<longleftrightarrow>
    (\<exists>p. live_of (dq_row t i) = Some p \<and> from_slice cd p = Some job)"
proof -
  have "outstanding q' i = Some job \<longleftrightarrow> (\<exists>\<rho> \<in> set (recovered cd t). rj_id \<rho> = i \<and> rj_job \<rho> = job)"
    using recovered_distinct[OF assms(2), of cd]
    by (auto simp: boot_queue_shape(7)[OF assms] comp_def)
  then show ?thesis using recovered_job_iff[OF assms(2)] by (simp add: recovered_def)
qed

section \<open>A crash keeps the invariant\<close>

lemma sys_inv_crashed:
  assumes "sys_inv (q, c, h)" and "durable q = Some t"
    and "boot_queue cd now (Inr t) SqlOk SqlOk SqlOk JOB_ID_COUNTER = (q', c')"
  shows "sys_inv (q', c', None)"
proof -
  note shape = boot_queue_shape[OF assms(3)]
  have wf: "dq_wf t" and c: "unat c < 2 ^ 63"
    and keys: "\<forall>k \<in> tbl_keys t. 0 \<le> k \<and> k < u64_as_i64 c"
    using assms(1,2) by (auto simp: jq_wf_def below_def keys_below_def)
  have uc: "u64_as_i64 c = uint c" "uint c < 2 ^ 63"
    using c by (simp_all add: u64_as_i64_small unat_eq_nat_uint nat_less_iff del: nat_uint_eq)
  have kb: "\<forall>k \<in> tbl_keys t. 0 \<le> k \<and> k < 2 ^ 63 - 1"
    using keys uc by auto
  note cnt = uint_boot_counter[OF kb]
  then have c63: "unat c' < 2 ^ 63"
    by (simp add: shape(1) unat_eq_nat_uint nat_less_iff del: nat_uint_eq)
  have lt: "i64_as_u64 k < c'" if "k \<in> tbl_keys t" for k
    using kb that cnt max_key_ge[OF that] by (simp add: word_less_def shape(1) uint_i64_as_u64)
  have "below c' [] q'"
    using c63 recovered_keys[of _ cd t] lt cnt max_key_ge
    by (fastforce simp: below_def keys_below_def shape requeue_all_rows_def hm_keys_def
        u64_as_i64_small[OF c63[unfolded shape(1)]] kb)
  moreover have "set (hm_keys (tracked q')) = set (map rj_id (recovered cd t))"
    by (force simp: set_eq_iff tracked_iff_outstanding shape(7)[OF wf] map_of_eq_None_iff)
  then have "placed [] q'"
    using recovered_distinct[OF wf, of cd] by (simp add: placed_def shape hm_keys_def)
  moreover have "jq_wf q'"
    using wf by (simp add: jq_wf_def shape dq.ok_flip)
  ultimately show ?thesis by simp
qed

lemma sys_inv_step:
  assumes "sys_inv s" and "sys_step E cd s l s'"
  shows "sys_inv s'"
  using assms(2,1)
  by (cases rule: sys_step.cases)
    (auto intro: sys_inv_submit sys_inv_taken sys_inv_settled sys_inv_completed sys_inv_worker_exit
      sys_inv_crashed simp del: sys_inv_iff)

lemma sys_inv_init: "sys_init s \<Longrightarrow> sys_inv s"
  by (auto simp: sys_init_def jq_wf_def placed_def below_def keys_below_def jq_new_def hm_keys_def
      JOB_ID_COUNTER_def tbl_keys_def)

interpretation sys: transition_invariant sys_init "\<lambda>s t. \<exists>l. sys_step E cd s l t" sys_inv for E cd
  by unfold_locales (auto intro: sys_inv_init sys_inv_step)

lemma sys_run_inv: "sys_run E cd s ls t \<Longrightarrow> sys_inv s \<Longrightarrow> sys_inv t"
  by (induction rule: sys_run.induct) (auto intro: sys_inv_step)

end
