(* ===== verification/Supervisor_Guarantees.thy ===== *)
theory Supervisor_Guarantees
  imports Boot
begin

text \<open>
  What ties the job queue's memory to its disk: a codec whose encoding reads back, the relation that holds when every
  outstanding job has a live row, and the calls that keep it (\<open>Queue_Interleaving\<close> runs them in any order). A codec and
  a first job serve as examples there and elsewhere. The last section bounds what a queue holds.
\<close>

section \<open>The disk mirrors the memory\<close>

text \<open>
  What the durable queue relies on of \<open>serde_json\<close>: a job serializes, and what was serialized reads
  back as the same job.
\<close>

definition codec_ok :: "codec \<Rightarrow> bool" where
  "codec_ok cd \<longleftrightarrow> (\<forall>job. \<exists>p. to_vec cd job = Some p \<and> from_slice cd p = Some job)"

text \<open>A call that uses that codec and whose SQL statements succeed.\<close>

definition disk_ok :: "codec \<Rightarrow> qenv \<Rightarrow> bool" where
  "disk_ok cd env \<longleftrightarrow> qe_codec env = cd \<and> qe_sql env = (\<lambda>_. SqlOk)"

definition on_disk :: "codec \<Rightarrow> jobs_table \<Rightarrow> JobId \<Rightarrow> Job \<Rightarrow> bool" where
  "on_disk cd t i job \<longleftrightarrow> (\<exists>p. live_of (dq_row t i) = Some p \<and> from_slice cd p = Some job)"

definition mirrored :: "codec \<Rightarrow> JobQueue \<Rightarrow> bool" where
  "mirrored cd q \<longleftrightarrow> (\<exists>t. durable q = Some t \<and> (\<forall>i job. outstanding q i = Some job \<longrightarrow> on_disk cd t i job))"

definition keeps_live :: "(jobs_table \<Rightarrow> jobs_table sup_result) \<Rightarrow> bool" where
  "keeps_live f \<longleftrightarrow>
     (\<forall>t t' j p. f t = Inr t' \<longrightarrow> live_of (dq_row t j) = Some p \<longrightarrow> live_of (dq_row t' j) = Some p)"

lemma dq_ops_keep_live [simp]:
  "keeps_live (dq_mark_in_flight sql now i w)" "keeps_live (dq_requeue sql i)"
  by (auto simp: keeps_live_def dq_mark_in_flight_def dq_requeue_def
      intro: dq.start_keeps_live dq.put_back_keeps_live)

lemma mirrored_mirror:
  assumes "mirrored cd q" and "keeps_live f" and "outstanding q' = outstanding q"
    and "durable q' = durable (mirror f q)"
  shows "mirrored cd q'"
  using assms
  by (fastforce simp: mirrored_def on_disk_def keeps_live_def mirror_def split: option.splits sum.splits)

lemma outstanding_mirror [simp]: "outstanding (mirror f q) = outstanding q"
  by (simp add: outstanding_def fun_eq_iff)

lemma mirrored_cong:
  "mirrored cd q \<Longrightarrow> outstanding q' = outstanding q \<Longrightarrow> durable q' = durable q \<Longrightarrow> mirrored cd q'"
  by (simp add: mirrored_def)

lemma mirrored_submit:
  assumes "codec_ok cd" and "disk_ok cd env" and "mirrored cd q"
    and "jq_submit env job w c q = (r, c', q')"
  shows "mirrored cd q'"
  using assms(4)
proof (cases rule: submit_cases)
  case full
  with assms(3) show ?thesis by simp
next
  case (ok q1)
  obtain p where p: "to_vec cd job = Some p" "from_slice cd p = Some job"
    using assms(1) by (auto simp: codec_ok_def)
  obtain t where t: "durable q = Some t" "\<And>i job. outstanding q i = Some job \<Longrightarrow> on_disk cd t i job"
    using assms(3) by (auto simp: mirrored_def)
  have "durable q' = Some (push_row (kind_label job) (qe_unix_ms env) c p t)"
    using assms(2) p t by (simp add: ok mirror_def dq_push_def disk_ok_def)
  moreover have "outstanding q' i = (if i = c then Some job else outstanding q i)" for i
    by (simp add: ok outstanding_def)
  ultimately show ?thesis
    using p t(2) by (auto simp: mirrored_def on_disk_def dq.live_push split: if_splits)
qed

lemma mirrored_crashed:
  assumes "dq_wf t" and "boot_queue cd now (Inr t) SqlOk SqlOk SqlOk JOB_ID_COUNTER = (q', c')"
  shows "mirrored cd q'"
proof -
  have "live_of (dq_row (requeue_all_rows t) i) = live_of (dq_row t i)" for i
    by (cases "dq_row t i") (auto simp: dq.row_flip live_of_def)
  then show ?thesis
    using boot_outstanding[OF assms(2,1)]
    by (auto simp: mirrored_def on_disk_def boot_queue_shape(4)[OF assms(2)])
qed

section \<open>A codec and an example\<close>

text \<open>
  A concrete codec for the examples: a job is its tag and its fields, and a string is its bytes, each
  marked, up to an end mark.
\<close>

definition enc_str :: "string \<Rightarrow> bytes" where
  "enc_str s = concat (map (\<lambda>c. [1, of_nat (of_char c)]) s) @ [0]"

fun dec_str :: "bytes \<Rightarrow> (string \<times> bytes) option" where
  "dec_str (m # bs) =
     (if m = 0 then Some ([], bs)
      else case bs of [] \<Rightarrow> None
        | b # bs' \<Rightarrow> map_option (\<lambda>(s, r). (char_of (unat b) # s, r)) (dec_str bs'))"
| "dec_str [] = None"

definition enc_u64_opt :: "u64 option \<Rightarrow> string" where
  "enc_u64_opt a = (case a of None \<Rightarrow> [] | Some n \<Rightarrow> show_nat (unat n))"

definition dec_u64_opt :: "string \<Rightarrow> u64 option" where
  "dec_u64_opt s = (if s = [] then None else Some (of_nat (read_digits s)))"

fun demo_to_vec :: "Job \<Rightarrow> bytes" where
  "demo_to_vec (Parse f r) = 0 # enc_str f @ enc_str r @ enc_str []"
| "demo_to_vec (Scan f a r) = 1 # enc_str f @ enc_str r @ enc_str (enc_u64_opt a)"
| "demo_to_vec (Embed n t r) = 2 # enc_str n @ enc_str t @ enc_str r"
| "demo_to_vec (Ingest f r) = 3 # enc_str f @ enc_str r @ enc_str []"

definition demo_from_slice :: "bytes \<Rightarrow> Job option" where
  "demo_from_slice bs =
     (case bs of [] \<Rightarrow> None
      | tag # bs1 \<Rightarrow>
          (case dec_str bs1 of None \<Rightarrow> None | Some (a, bs2) \<Rightarrow>
          (case dec_str bs2 of None \<Rightarrow> None | Some (b, bs3) \<Rightarrow>
          (case dec_str bs3 of None \<Rightarrow> None | Some (c, _) \<Rightarrow>
             Some (if tag = 0 then Parse a b else if tag = 1 then Scan a (dec_u64_opt c) b
                   else if tag = 2 then Embed a b c else Ingest a b)))))"

definition demo_codec :: codec where
  "demo_codec = \<lparr>to_vec = \<lambda>job. Some (demo_to_vec job), from_slice = demo_from_slice\<rparr>"

lemma dec_enc_str [simp]: "dec_str (enc_str s @ bs) = Some (s, bs)"
proof (induction s)
  case (Cons c s)
  have "unat (of_nat (of_char c) :: 8 word) = of_char c"
    using nat_of_char_less_256[of c] by (simp add: unat_of_nat take_bit_nat_eq_self)
  with Cons show ?case by (simp add: enc_str_def)
qed (simp add: enc_str_def)

lemma dec_enc_u64_opt [simp]: "dec_u64_opt (enc_u64_opt a) = a"
  by (simp add: dec_u64_opt_def enc_u64_opt_def split: option.splits)

lemma demo_codec_ok: "codec_ok demo_codec"
proof -
  have "demo_from_slice (demo_to_vec job) = Some job" for job
    using dec_enc_str[of _ "[]"] by (cases job) (simp_all add: demo_from_slice_def)
  then show ?thesis by (simp add: codec_ok_def demo_codec_def)
qed

text \<open>A job is submitted, taken by the router and routed to a worker.\<close>

definition demo_env :: qenv where
  "demo_env = \<lparr>qe_codec = demo_codec, qe_sql = (\<lambda>_. SqlOk), qe_unix_ms = 0, qe_instant = 0\<rparr>"

definition demo_job :: Job where
  "demo_job = Ingest ''a.md'' ''p''"

definition demo_dispatch :: "string \<Rightarrow> string \<Rightarrow> string sup_result" where
  "demo_dispatch prefix line = Inr prefix"

definition demo_q0 :: JobQueue where
  "demo_q0 = (jq_new 1)\<lparr>durable := Some []\<rparr>"

definition demo_q1 :: JobQueue where
  "demo_q1 = snd (snd (jq_submit demo_env demo_job None 1 demo_q0))"

definition demo_q2 :: JobQueue where
  "demo_q2 = snd (jq_next_pending demo_q1)"

definition demo_q3 :: JobQueue where
  "demo_q3 = jq_mark_assigned demo_env 1 ''md-ingest-worker'' demo_q2"

lemmas demo_sys_defs = demo_q0_def demo_q1_def demo_q2_def demo_q3_def demo_env_def demo_job_def demo_codec_def

lemma demo_init: "sys_init (demo_q0, 1, None)"
  by (auto simp: sys_init_def demo_q0_def JOB_ID_COUNTER_def)

lemma demo_table: "durable demo_q1 = Some (push_row ''ingest'' 0 1 (demo_to_vec demo_job) [])"
  by (simp add: demo_sys_defs jq_submit_def JobId_next_def jq_new_def mirror_def dq_push_def Let_def)

lemma demo_disk_ok [simp]: "disk_ok demo_codec demo_env"
  by (simp add: disk_ok_def demo_env_def)

lemma demo_submit: "jq_submit demo_env demo_job None 1 demo_q0 = (Inr 1, 2, demo_q1)"
  by (simp add: demo_q1_def jq_submit_def JobId_next_def demo_q0_def jq_new_def Let_def)

lemma demo_take: "jq_next_pending demo_q1 = (Some (1, demo_job), demo_q2)"
  by (simp add: demo_q2_def demo_q1_def jq_next_pending_def jq_submit_def JobId_next_def demo_q0_def
      jq_new_def Let_def)

lemma demo_settle:
  "router_settle demo_env (\<lambda>_. []) Inl demo_dispatch 1 demo_job q =
     (Dispatched ''md-ingest-worker'', jq_mark_assigned demo_env 1 ''md-ingest-worker'' q)"
  by (simp add: router_settle_def encode_for_worker_def job_message_def demo_job_def demo_dispatch_def
      Let_def)

lemma demo_run_taken:
  "sys_run (disk_ok demo_codec) demo_codec (demo_q0, 1, None) [LSubmit 1, LTake] (demo_q2, 2, Some (1, demo_job))"
proof -
  have "sys_step (disk_ok demo_codec) demo_codec (demo_q0, 1, None) (LSubmit 1) (demo_q1, 2, None)"
    by (rule submitted) (rule demo_disk_ok, simp, rule demo_submit)
  then show ?thesis
    by (rule run_step[OF _ run_step[OF taken[OF demo_take] run_refl]])
qed

lemma demo_outstanding [simp]: "outstanding demo_q2 1 = Some demo_job"
  by (simp add: demo_q2_def demo_q1_def outstanding_def jq_submit_def JobId_next_def demo_q0_def jq_new_def Let_def)

section \<open>Capacity\<close>

lemma count_list_distinct: "distinct xs \<Longrightarrow> x \<in> set xs \<Longrightarrow> count_list xs x = 1"
  by (induction xs) (auto simp: count_list_0_iff)

definition load :: "sysst \<Rightarrow> nat" where
  "load s = (case s of (q, c, h) \<Rightarrow> length (held_ids h) + length (pending q) + length (in_flight q))"

lemma length_held_ids: "length (held_ids h) \<le> 1"
  by (simp add: held_ids_def split: option.split)

lemma load_settled:
  assumes "sys_inv (q, c, Some (i, job))" and "router_settle env render read dispatch i job q = (r, q')"
  shows "length (pending q') + length (in_flight q') \<le> Suc (length (pending q) + length (in_flight q)) \<and>
    max_pending q' = max_pending q"
proof -
  have "length (in_flight (snd (jq_complete env i out q))) \<le> length (in_flight q) \<and>
      pending (snd (jq_complete env i out q)) = pending q \<and>
      max_pending (snd (jq_complete env i out q)) = max_pending q" for out
    by (auto simp: jq_complete_def Let_def length_hm_remove_le split: option.splits)
  moreover have "length (hm_insert i w (in_flight q)) \<le> Suc (length (in_flight q))" for w
    by (rule length_hm_insert_le)
  ultimately show ?thesis
    using assms(2) length_hm_remove_le[of i "in_flight q"]
    by (auto simp: router_settle_def jq_mark_assigned_def jq_return_pending_def Let_def le_SucI
        split: sum.splits if_splits)
qed

lemma load_step:
  assumes "sys_step E cd (q, c, h) l (q', c', h')" and "l \<noteq> LCrash" and "sys_inv (q, c, h)"
  shows "max_pending q' = max_pending q \<and> load (q', c', h') \<le> max (Suc (max_pending q)) (load (q, c, h))"
  using assms(1)
proof (cases rule: sys_step.cases)
  case (submitted env job w i)
  then show ?thesis
    using length_held_ids[of h] by (auto elim!: submit_cases simp: load_def)
next
  case (refused env job w e)
  then show ?thesis by (auto elim!: submit_cases simp: load_def)
next
  case taken
  then show ?thesis
    by (auto simp: jq_next_pending_def load_def held_ids_def split: list.splits option.splits)
next
  case (settled env render read dispatch i job r)
  with load_settled[of q c i job env render read dispatch r q'] assms(3) show ?thesis
    by (auto simp: load_def)
next
  case (completed env i out w)
  then have "max_pending q' = max_pending q \<and> pending q' = pending q \<and> length (in_flight q') \<le> length (in_flight q)"
    by (auto simp: jq_complete_def Let_def length_hm_remove_le split: option.splits)
  with completed show ?thesis by (auto simp: load_def)
next
  case (worker_exit env w n)
  have "length (pending q') + length (in_flight q') = length (pending q) + length (in_flight q)"
    using requeue_worker_size[of q env w] assms(3) by (simp add: worker_exit)
  moreover have "max_pending q' = max_pending q"
    using worker_exit by (auto simp: jq_requeue_worker_def Let_def fold_requeue_one split: if_splits)
  ultimately show ?thesis using worker_exit by (simp add: load_def)
qed (use assms in simp)

lemma load_run:
  assumes "sys_run E cd s ls t" and "LCrash \<notin> set ls" and "sys_inv s"
  shows "max_pending (fst t) = max_pending (fst s) \<and> load t \<le> max (Suc (max_pending (fst s))) (load s)"
  using assms
proof (induction rule: sys_run.induct)
  case (run_step s l s' ls t)
  obtain q c h q' c' h' where s: "s = (q, c, h)" "s' = (q', c', h')" by (cases s, cases s')
  have "max_pending q' = max_pending q \<and> load (q', c', h') \<le> max (Suc (max_pending q)) (load (q, c, h))"
    using run_step.hyps(1) run_step.prems by (intro load_step) (auto simp: s simp del: sys_inv_iff)
  moreover have "sys_inv s'" using run_step sys_inv_step by blast
  ultimately show ?case
    using run_step.IH run_step.prems by (fastforce simp: s simp del: sys_inv_iff)
qed simp

text \<open>
  Backpressure holds: between boots the queue never holds more than \<open>max_pending\<close> jobs beyond
  the one the router has in its hands (which \<open>submit\<close> does not count).
\<close>

theorem queue_capacity:
  assumes "sys_init (q0, c0, h0)" and "sys_run (\<lambda>_. True) cd (q0, c0, h0) ls (q, c, h)" and "LCrash \<notin> set ls"
  shows "max_pending q = max_pending q0 \<and>
    length (held_ids h) + length (pending q) + length (in_flight q) \<le> max_pending q0 + 1"
proof -
  have "load (q0, c0, h0) = 0" using assms(1) by (auto simp: sys_init_def load_def jq_new_def)
  then show ?thesis
    using load_run[OF assms(2,3) sys_inv_init[OF assms(1)]] by (simp add: load_def)
qed

text \<open>The bound is met: with capacity one, a second job is accepted while the router holds the first.\<close>

theorem queue_capacity_witness:
  "\<exists>q c h. sys_run (\<lambda>_. True) demo_codec (demo_q0, 1, None) [LSubmit 1, LTake, LSubmit 2] (q, c, h) \<and>
     length (held_ids h) + length (pending q) + length (in_flight q) = max_pending demo_q0 + 1 \<and>
     length (held_ids h) + length (pending q) + length (in_flight q) \<le> max_pending demo_q0 + 1"
proof -
  let ?q = "snd (snd (jq_submit demo_env demo_job None 2 demo_q2))"
  have sub: "jq_submit demo_env demo_job None 2 demo_q2 = (Inr 2, 3, ?q)" and
    len: "length (pending ?q) = 1" "in_flight ?q = []" "max_pending demo_q0 = 1"
    by (simp_all add: demo_q2_def demo_q1_def jq_submit_def JobId_next_def demo_q0_def jq_new_def
        jq_next_pending_def Let_def)
  have step1: "sys_step (\<lambda>_. True) demo_codec (demo_q0, 1, None) (LSubmit 1) (demo_q1, 2, None)"
    by (rule submitted[where env = demo_env]) (simp, simp, rule demo_submit)
  have step3: "sys_step (\<lambda>_. True) demo_codec (demo_q2, 2, Some (1, demo_job)) (LSubmit 2) (?q, 3, Some (1, demo_job))"
    by (rule submitted[where env = demo_env]) (simp, simp, rule sub)
  have run: "sys_run (\<lambda>_. True) demo_codec (demo_q0, 1, None) [LSubmit 1, LTake, LSubmit 2]
      (?q, 3, Some (1, demo_job))"
    by (rule run_step[OF step1 run_step[OF taken[OF demo_take] run_step[OF step3 run_refl]]])
  have "length (held_ids (Some (1, demo_job))) + length (pending ?q) + length (in_flight ?q) \<le> max_pending demo_q0 + 1"
    using queue_capacity[OF demo_init run] by simp
  with run len show ?thesis
    by (intro exI[of _ ?q] exI[of _ 3] exI[of _ "Some (1, demo_job)"]) simp
qed

end
