(* ===== verification/Queue_Behaviour.thy ===== *)
theory Queue_Behaviour
  imports Supervisor_Guarantees
begin

text \<open>
  Behaviour of single queue operations (\<open>supervisor/src/job_queue.rs\<close>): what a worker's death does to
  its jobs, the order jobs leave the queue in, and what a completion does that overtakes the router's
  \<open>mark_assigned\<close>.
\<close>

section \<open>A worker dies\<close>

lemma requeue_worker_assigned:
  assumes "i \<in> set ids"
  shows "map_option trk_assigned_to (hm_get (tracked (fold requeue_one ids q)) i) =
         map_option (\<lambda>_. None) (hm_get (tracked q) i)"
proof -
  have stays: "map_option trk_assigned_to (hm_get (tracked (fold requeue_one js q)) i) =
      map_option (\<lambda>_. None) (hm_get (tracked q) i)"
    if "map_option trk_assigned_to (hm_get (tracked q) i) = map_option (\<lambda>_. None) (hm_get (tracked q) i)" for js q
    using that
  proof (induction js arbitrary: q)
    case (Cons j js)
    have "map_option trk_assigned_to (hm_get (tracked (requeue_one j q)) i) =
        map_option (\<lambda>_. None) (hm_get (tracked (requeue_one j q)) i)"
      using Cons.prems by (auto simp: option.map_comp comp_def)
    from Cons.IH[OF this] show ?case by (simp add: option.map_comp comp_def)
  qed simp
  from assms show ?thesis
  proof (induction ids arbitrary: q)
    case (Cons j ids)
    show ?case
    proof (cases "i = j")
      case True
      have "map_option trk_assigned_to (hm_get (tracked (requeue_one j q)) i) =
          map_option (\<lambda>_. None) (hm_get (tracked (requeue_one j q)) i)"
        by (simp add: True option.map_comp comp_def)
      from stays[OF this, of ids] show ?thesis by (simp add: True option.map_comp comp_def)
    next
      case False
      with Cons show ?thesis by simp
    qed
  qed simp
qed

text \<open>
  C10: when a worker dies, exactly its jobs go back to the front of the queue, each once and
  unassigned; the jobs of other workers and the jobs already waiting keep their places, no job is
  added or dropped, and the counter and the result give their number.
\<close>

theorem requeue_worker_correct:
  assumes "jq_wf q" and "jq_requeue_worker env w q = (n, q')"
  shows "\<exists>ids. distinct ids \<and> set ids = {i. hm_get (in_flight q) i = Some w} \<and>
     pending q' = ids @ pending q \<and> n = length ids \<and> requeued_count q' = requeued_count q + of_nat n \<and>
     (\<forall>i. hm_get (in_flight q') i = (if i \<in> set ids then None else hm_get (in_flight q) i)) \<and>
     outstanding q' = outstanding q \<and>
     (\<forall>i \<in> set ids. \<forall>t. hm_get (tracked q') i = Some t \<longrightarrow> trk_assigned_to t = None)"
proof (intro exI conjI)
  have wf: "hm_wf (in_flight q)" using assms(1) by (simp add: jq_wf_def)
  have q': "q' = snd (jq_requeue_worker env w q)" and n: "n = fst (jq_requeue_worker env w q)"
    using assms(2) by simp_all
  let ?ids = "rev (worker_jobs w q)"
  show "distinct ?ids" using distinct_worker_jobs[OF wf] by simp
  show "set ?ids = {i. hm_get (in_flight q) i = Some w}" using worker_jobs_iff[OF wf] by auto
  show "pending q' = ?ids @ pending q" by (simp add: q' requeue_worker_pending)
  show "n = length ?ids" by (simp add: n jq_requeue_worker_def Let_def)
  show "requeued_count q' = requeued_count q + of_nat n"
    by (simp add: q' n jq_requeue_worker_def Let_def fold_requeue_one)
  show "\<forall>i. hm_get (in_flight q') i = (if i \<in> set ?ids then None else hm_get (in_flight q) i)"
    by (simp add: q' requeue_worker_in_flight)
  show "outstanding q' = outstanding q" by (simp add: q')
  show "\<forall>i \<in> set ?ids. \<forall>t. hm_get (tracked q') i = Some t \<longrightarrow> trk_assigned_to t = None"
  proof (intro ballI allI impI)
    fix i t
    assume i: "i \<in> set ?ids" and t: "hm_get (tracked q') i = Some t"
    have "tracked q' = tracked (fold requeue_one (worker_jobs w q) q)"
      by (simp add: q' jq_requeue_worker_def Let_def)
    with requeue_worker_assigned[of i "worker_jobs w q" q] i t
    have "Some (trk_assigned_to t) = map_option (\<lambda>_. None) (hm_get (tracked q) i)" by simp
    then show "trk_assigned_to t = None" by (cases "hm_get (tracked q) i") simp_all
  qed
qed

theorem requeue_worker_correct_witness:
  "fst (jq_requeue_worker demo_env ''md-ingest-worker'' demo_q3) = 1 \<and>
   pending (snd (jq_requeue_worker demo_env ''md-ingest-worker'' demo_q3)) = [1]"
proof -
  have "jq_wf demo_q2"
    using sys_run_inv[OF demo_run_taken sys_inv_init[OF demo_init]] by simp
  then have "jq_wf demo_q3" by (simp add: demo_q3_def jq_wf_mark_assigned)
  moreover obtain n q' where r: "jq_requeue_worker demo_env ''md-ingest-worker'' demo_q3 = (n, q')"
    by force
  moreover have fl: "in_flight demo_q3 = [(1, ''md-ingest-worker'')]" "pending demo_q3 = []"
    by (simp_all add: demo_q3_def jq_mark_assigned_def demo_q2_def demo_q1_def jq_submit_def
        JobId_next_def demo_q0_def jq_new_def jq_next_pending_def Let_def)
  ultimately obtain ids where ids: "distinct ids" "set ids = {1}" "pending q' = ids" "n = length ids"
    using requeue_worker_correct[of demo_q3 demo_env "''md-ingest-worker''" n q'] by auto
  then have "length ids = 1" using distinct_card[of ids] by simp
  with ids(2) have "ids = [1]" by (cases ids) auto
  with ids r show ?thesis by simp
qed

section \<open>Order\<close>

text \<open>Submitting a list of jobs, and taking the pending jobs one after another.\<close>

fun submit_all :: "qenv \<Rightarrow> Job list \<Rightarrow> u64 \<Rightarrow> JobQueue \<Rightarrow> JobQueue" where
  "submit_all env [] c q = q"
| "submit_all env (job # jobs) c q =
     (case jq_submit env job None c q of (_, c', q') \<Rightarrow> submit_all env jobs c' q')"

fun take_all :: "nat \<Rightarrow> JobQueue \<Rightarrow> (JobId \<times> Job) option list" where
  "take_all 0 q = []"
| "take_all (Suc n) q = (case jq_next_pending q of (r, q') \<Rightarrow> r # take_all n q')"

lemma take_all_pending:
  "take_all (length (pending q)) q = map (\<lambda>i. map_option (Pair i) (outstanding q i)) (pending q)"
proof (induction "pending q" arbitrary: q)
  case (Cons i rest)
  let ?q' = "q\<lparr>pending := rest\<rparr>"
  have "pending q = i # rest" using Cons.hyps(2) by simp
  moreover from this have "jq_next_pending q = (map_option (Pair i) (outstanding q i), ?q')"
    by (simp add: jq_next_pending_def outstanding_def option.map_comp comp_def)
  moreover have "outstanding ?q' = outstanding q" by (simp add: outstanding_def fun_eq_iff)
  ultimately show ?case using Cons.hyps(1)[of ?q'] by simp
qed simp

lemma submit_all_pending:
  assumes "length (pending q) + length (in_flight q) + length jobs \<le> max_pending q"
    and "length jobs < 2 ^ 64" and "\<forall>j \<in> set (JobId_next_n (length jobs) c). outstanding q j = None"
  shows "pending (submit_all env jobs c q) = pending q @ JobId_next_n (length jobs) c \<and>
    outstanding (submit_all env jobs c q) = outstanding q ++ map_of (zip (JobId_next_n (length jobs) c) jobs)"
  using assms
proof (induction jobs arbitrary: c q)
  case (Cons job jobs)
  obtain r q' where s: "jq_submit env job None c q = (r, c + 1, q')"
    by (metis prod_cases3 submit_cases)
  have q': "pending q' = pending q @ [c]" "in_flight q' = in_flight q" "max_pending q' = max_pending q"
    "outstanding q' = (outstanding q)(c \<mapsto> job)"
  proof -
    have room: "length (pending q) + length (in_flight q) < max_pending q" using Cons.prems(1) by simp
    then show "outstanding q' = (outstanding q)(c \<mapsto> job)"
      using outstanding_submit_ok[of q env job None c] by (simp add: s)
    have "q' = snd (snd (jq_submit env job None c q))" by (simp add: s)
    with room show "pending q' = pending q @ [c]" "in_flight q' = in_flight q" "max_pending q' = max_pending q"
      by (simp_all add: jq_submit_def JobId_next_def Let_def)
  qed
  have ids: "JobId_next_n (Suc (length jobs)) c = c # JobId_next_n (length jobs) (c + 1)"
    by (simp add: JobId_next_def)
  have "distinct (JobId_next_n (Suc (length jobs)) c)"
    using Cons.prems(2) by (intro distinct_JobId_next_n) simp
  then have fresh: "c \<notin> set (JobId_next_n (length jobs) (c + 1))" unfolding ids by simp
  have "pending (submit_all env jobs (c + 1) q') = pending q' @ JobId_next_n (length jobs) (c + 1) \<and>
      outstanding (submit_all env jobs (c + 1) q') =
        outstanding q' ++ map_of (zip (JobId_next_n (length jobs) (c + 1)) jobs)"
    using Cons.prems fresh by (intro Cons.IH) (auto simp: q' JobId_next_def)
  moreover have "map_of (zip (JobId_next_n (length jobs) (c + 1)) jobs) c = None"
    using fresh by (auto simp: map_of_eq_None_iff dest: set_zip_leftD)
  ultimately show ?case
    unfolding length_Cons ids zip_Cons_Cons submit_all.simps s prod.case
    by (simp add: q' map_add_def fun_eq_iff split: option.split)
qed simp

text \<open>
  The queue is first-in first-out: jobs submitted to an idle queue with room for them come out of
  \<open>next_pending\<close> in submission order, each under the identifier its submission drew.
\<close>

theorem queue_fifo:
  assumes "pending q = []" and "in_flight q = []" and "tracked q = []"
    and "length jobs \<le> max_pending q" and "length jobs < 2 ^ 64"
  shows "take_all (length jobs) (submit_all env jobs c q) =
    map Some (zip (JobId_next_n (length jobs) c) jobs)"
proof -
  let ?q = "submit_all env jobs c q" and ?ids = "JobId_next_n (length jobs) c"
  have all: "pending ?q = ?ids" "outstanding ?q = map_of (zip ?ids jobs)"
    using submit_all_pending[of q jobs c env] assms by (simp_all add: outstanding_def fun_eq_iff map_add_def split: option.splits)
  have len: "length ?ids = length jobs" by (simp add: JobId_next_n_conv)
  have dist: "distinct ?ids" using assms(5) by (rule distinct_JobId_next_n)
  have "take_all (length jobs) ?q = map (\<lambda>i. map_option (Pair i) (map_of (zip ?ids jobs) i)) ?ids"
    using take_all_pending[of ?q] by (simp add: all len)
  also have "\<dots> = map Some (zip ?ids jobs)"
    using dist len by (intro nth_equalityI) (auto simp: map_of_zip_nth)
  finally show ?thesis .
qed

theorem queue_fifo_witness:
  "take_all 2 (submit_all demo_env [demo_job, Embed ''f'' ''t'' ''p''] 7 (jq_new 4)) =
     [Some (7, demo_job), Some (8, Embed ''f'' ''t'' ''p'')]"
proof -
  have "JobId_next_n 2 7 = [7, 8]" by (simp add: numeral_2_eq_2 JobId_next_def)
  then show ?thesis
    using queue_fifo[of "jq_new 4" "[demo_job, Embed ''f'' ''t'' ''p'']" demo_env 7]
    by (simp add: jq_new_def del: take_all.simps submit_all.simps JobId_next_n.simps
        flip: numeral_2_eq_2)
qed

section \<open>A completion that overtakes the router\<close>

text \<open>
  \<open>dispatch_to_pool\<close> has handed the line to the worker before \<open>mark_assigned\<close> runs. If the worker's
  completion is processed in between, the identifier of the finished job is entered in \<open>in_flight\<close> for
  good: it occupies capacity although nothing is outstanding under it, and its row on disk, already
  \<open>done\<close>, becomes live again, so the finished job is run once more after a restart.
\<close>

theorem early_completion_leaks:
  assumes "disk_ok cd env" and "durable q = Some t" and "dq_wf t" and "on_disk cd t i job"
    and "outstanding q i = Some job"
    and "jq_complete env i out q = (w', q1)"
    and "router_settle env render read dispatch i job q1 = (Dispatched w, q2)"
    and "boot_queue cd now (Inr (the (durable q2))) SqlOk SqlOk SqlOk JOB_ID_COUNTER = (q3, c3)"
  shows "outstanding q2 i = None \<and> hm_get (in_flight q2) i = Some w \<and> outstanding q3 i = Some job"
proof -
  have q2: "q2 = jq_mark_assigned env i w q1"
    using assms(7) by (auto simp: router_settle_def Let_def split: sum.splits)
  have q1: "q1 = snd (jq_complete env i out q)" using assms(6) by simp
  obtain tr where "hm_get (tracked q) i = Some tr" using assms(5) by (auto simp: outstanding_def)
  then have d1: "durable q1 = Some (mark_done_row (qe_unix_ms env) i out t)"
    using assms(1,2) by (simp add: q1 durable_complete mirror_def dq_mark_done_def disk_ok_def)
  let ?t2 = "mark_in_flight_row (qe_unix_ms env) i w (mark_done_row (qe_unix_ms env) i out t)"
  have d2: "durable q2 = Some ?t2"
    using assms(1) d1 by (simp add: q2 durable_mark_assigned mirror_def dq_mark_in_flight_def disk_ok_def)
  obtain p st where p: "dq_row t i = Some (p, st)" "from_slice cd p = Some job"
    using assms(4) by (auto simp: on_disk_def live_of_def split: option.splits if_splits)
  then have "live_of (dq_row ?t2 i) = Some p" by (simp add: dq.start_resurrects)
  moreover have "dq_wf ?t2" using assms(3) by (intro dq.ok_ops)
  ultimately have "outstanding q3 i = Some job"
    using boot_outstanding[of cd now ?t2 q3 c3 i job] assms(8) p(2) by (simp add: d2)
  moreover have "outstanding q2 i = None" by (simp add: q2 q1 outstanding_complete)
  moreover have "hm_get (in_flight q2) i = Some w" by (simp add: q2 jq_mark_assigned_def)
  ultimately show ?thesis by simp
qed

theorem early_completion_leaks_witness:
  "\<exists>q1 q2 q3 c3.
     jq_complete demo_env 1 (OutcomeOk None 5 JNull) demo_q2 = (None, q1) \<and>
     router_settle demo_env (\<lambda>_. []) Inl demo_dispatch 1 demo_job q1 = (Dispatched ''md-ingest-worker'', q2) \<and>
     outstanding q2 1 = None \<and> hm_get (in_flight q2) 1 = Some ''md-ingest-worker'' \<and>
     boot_queue demo_codec 0 (Inr (the (durable q2))) SqlOk SqlOk SqlOk JOB_ID_COUNTER = (q3, c3) \<and>
     outstanding q3 1 = Some demo_job"
proof -
  let ?out = "OutcomeOk None 5 JNull"
  let ?t = "push_row ''ingest'' 0 1 (demo_to_vec demo_job) []"
  have t: "durable demo_q2 = Some ?t"
    using demo_table by (auto simp: demo_q2_def jq_next_pending_def split: list.splits)
  have "codec_ok demo_codec" by (rule demo_codec_ok)
  then have "on_disk demo_codec ?t 1 demo_job"
    by (auto simp: on_disk_def dq.live_push codec_ok_def demo_codec_def)
  moreover obtain q1 where q1: "jq_complete demo_env 1 ?out demo_q2 = (None, q1)"
    by (auto simp: jq_complete_def Let_def demo_q2_def demo_q1_def jq_submit_def JobId_next_def demo_q0_def
        jq_new_def jq_next_pending_def)
  moreover obtain q3 c3 where q3: "boot_queue demo_codec 0 (Inr (the (durable
      (jq_mark_assigned demo_env 1 ''md-ingest-worker'' q1)))) SqlOk SqlOk SqlOk JOB_ID_COUNTER = (q3, c3)"
    by force
  ultimately have "outstanding (jq_mark_assigned demo_env 1 ''md-ingest-worker'' q1) 1 = None \<and>
      hm_get (in_flight (jq_mark_assigned demo_env 1 ''md-ingest-worker'' q1)) 1 = Some ''md-ingest-worker'' \<and>
      outstanding q3 1 = Some demo_job"
    by (intro early_completion_leaks[OF demo_disk_ok t _ _ demo_outstanding q1 demo_settle q3])
      (simp_all add: dq.ok_push)
  with q1 q3 demo_settle[of q1] show ?thesis by blast
qed

section \<open>A burst of the router\<close>

text \<open>What settling a job does, and that it concerns that job only.\<close>

lemma router_settle_accepted:
  assumes "dispatch (pool_prefix job) = (\<lambda>_. Inr w)"
    and "router_settle env render read dispatch i job q = (r, q')"
  shows "r \<noteq> NoWorker \<and> pending q' = pending q \<and>
    (case job_message read i job of
       Inl _ \<Rightarrow> outstanding q' i = None
     | Inr _ \<Rightarrow> outstanding q' i = outstanding q i \<and> hm_get (in_flight q') i = Some w)"
  using assms
  by (auto simp: router_settle_def encode_for_worker_def Let_def jq_mark_assigned_def outstanding_def
      jq_complete_def option.map_comp comp_def split: sum.splits option.splits)

lemma router_settle_frame:
  assumes "router_settle env render read dispatch i job q = (r, q')" and "j \<noteq> i"
  shows "outstanding q' j = outstanding q j \<and> hm_get (in_flight q') j = hm_get (in_flight q) j"
proof -
  have "hm_get (in_flight (snd (jq_complete env i out q))) j = hm_get (in_flight q) j" for out
    using assms(2) by (simp add: jq_complete_def Let_def split: option.splits)
  moreover have "hm_get (in_flight (jq_mark_assigned env i w q)) j = hm_get (in_flight q) j" for w
    using assms(2) by (simp add: jq_mark_assigned_def)
  moreover have "hm_get (in_flight (jq_return_pending env i q)) j = hm_get (in_flight q) j"
    using assms(2) by (simp add: jq_return_pending_def)
  ultimately show ?thesis
    using assms by (auto simp: router_settle_def Let_def outstanding_complete split: sum.splits)
qed

definition routed_ok :: "(path \<Rightarrow> string + string) \<Rightarrow> JobQueue \<Rightarrow> JobQueue \<Rightarrow> JobId \<Rightarrow> bool" where
  "routed_ok read q q' i =
     (case outstanding q i of None \<Rightarrow> False
      | Some job \<Rightarrow>
          (case job_message read i job of
             Inl _ \<Rightarrow> outstanding q' i = None
           | Inr _ \<Rightarrow> outstanding q' i = Some job \<and> hm_get (in_flight q') i \<noteq> None))"

lemma router_burst_accepting:
  assumes "\<And>prefix. \<exists>w. dispatch prefix = (\<lambda>_. Inr w)" and "distinct (pending q)"
    and "\<forall>i \<in> set (pending q). outstanding q i \<noteq> None"
  shows "pending (router_burst env render read dispatch q) = [] \<and>
    (\<forall>i \<in> set (pending q). routed_ok read q (router_burst env render read dispatch q) i) \<and>
    (\<forall>j. j \<notin> set (pending q) \<longrightarrow>
       outstanding (router_burst env render read dispatch q) j = outstanding q j \<and>
       hm_get (in_flight (router_burst env render read dispatch q)) j = hm_get (in_flight q) j)"
  using assms(2,3)
proof (induction "pending q" arbitrary: q)
  case Nil
  then have "jq_next_pending q = (None, q)" by (simp add: jq_next_pending_def split: list.splits)
  then have "router_burst env render read dispatch q = q" by (simp add: router_burst.simps)
  with Nil show ?case by simp
next
  case (Cons i rest)
  let ?q1 = "q\<lparr>pending := rest\<rparr>"
  have p: "pending q = i # rest" using Cons.hyps(2) by simp
  with Cons.prems obtain job where job: "outstanding q i = Some job" by auto
  then have nxt: "jq_next_pending q = (Some (i, job), ?q1)"
    using p by (auto simp: jq_next_pending_def outstanding_def)
  obtain w where w: "dispatch (pool_prefix job) = (\<lambda>_. Inr w)" using assms(1) by blast
  obtain r q2 where q2: "router_settle env render read dispatch i job ?q1 = (r, q2)" by force
  note acc = router_settle_accepted[where dispatch = dispatch, OF w q2]
  have fr: "outstanding q2 j = outstanding q j \<and> hm_get (in_flight q2) j = hm_get (in_flight q) j" if "j \<noteq> i" for j
    using router_settle_frame[OF q2 that] by (simp add: outstanding_def)
  have run: "router_burst env render read dispatch q = router_burst env render read dispatch q2"
    using acc by (subst router_burst.simps) (auto simp: nxt q2 split: routed.split)
  have p2: "pending q2 = rest" using acc by simp
  have i: "i \<notin> set rest" using Cons.prems(1) p by simp
  have IH: "pending (router_burst env render read dispatch q2) = [] \<and>
      (\<forall>i \<in> set rest. routed_ok read q2 (router_burst env render read dispatch q2) i) \<and>
      (\<forall>j. j \<notin> set rest \<longrightarrow>
         outstanding (router_burst env render read dispatch q2) j = outstanding q2 j \<and>
         hm_get (in_flight (router_burst env render read dispatch q2)) j = hm_get (in_flight q2) j)"
    using Cons.hyps(1)[of q2] Cons.prems i p by (simp add: p2) (metis fr)
  have out1: "outstanding ?q1 i = Some job" using job by (simp add: outstanding_def)
  have "routed_ok read q (router_burst env render read dispatch q2) i"
    using acc IH i job out1 by (auto simp: routed_ok_def split: sum.splits)
  moreover have "routed_ok read q (router_burst env render read dispatch q2) j" if "j \<in> set rest" for j
  proof -
    have "j \<noteq> i" using that i by blast
    then have "routed_ok read q q' j = routed_ok read q2 q' j" for q' using fr[of j] by (simp add: routed_ok_def)
    with IH that show ?thesis by simp
  qed
  ultimately show ?case
    using IH fr by (auto simp: run p)
qed

text \<open>
  A burst of the router empties the queue when the pools accept: every waiting job ends up in
  flight at a worker if it encodes, and is completed as failed if it does not (its file cannot be read
  or has no known language); jobs that were not waiting are left alone.
\<close>

theorem router_burst_drains:
  assumes "\<forall>prefix. \<exists>w. dispatch prefix = (\<lambda>_. Inr w)" and "distinct (pending q)"
    and "\<forall>i \<in> set (pending q). outstanding q i \<noteq> None"
  shows "pending (router_burst env render read dispatch q) = [] \<and>
    (\<forall>i \<in> set (pending q). \<forall>job. outstanding q i = Some job \<longrightarrow>
       (case encode_for_worker render read i job of
          Inl _ \<Rightarrow> outstanding (router_burst env render read dispatch q) i = None
        | Inr _ \<Rightarrow> outstanding (router_burst env render read dispatch q) i = Some job \<and>
                  hm_get (in_flight (router_burst env render read dispatch q)) i \<noteq> None)) \<and>
    (\<forall>j. j \<notin> set (pending q) \<longrightarrow>
       outstanding (router_burst env render read dispatch q) j = outstanding q j)"
proof -
  have "\<And>prefix. \<exists>w. dispatch prefix = (\<lambda>_. Inr w)" using assms(1) by blast
  note burst = router_burst_accepting[of dispatch, OF this assms(2,3), of env render read]
  then have "case encode_for_worker render read i job of
      Inl _ \<Rightarrow> outstanding (router_burst env render read dispatch q) i = None
    | Inr _ \<Rightarrow> outstanding (router_burst env render read dispatch q) i = Some job \<and>
              hm_get (in_flight (router_burst env render read dispatch q)) i \<noteq> None"
    if "i \<in> set (pending q)" "outstanding q i = Some job" for i job
    using that by (fastforce simp: routed_ok_def encode_for_worker_def split: sum.splits)
  with burst show ?thesis by blast
qed

theorem router_burst_drains_witness:
  "pending (router_burst demo_env (\<lambda>_. []) Inl demo_dispatch demo_q1) = [] \<and>
   outstanding (router_burst demo_env (\<lambda>_. []) Inl demo_dispatch demo_q1) 1 = Some demo_job"
proof -
  have q1: "pending demo_q1 = [1]" "outstanding demo_q1 1 = Some demo_job"
    by (simp_all add: demo_q1_def outstanding_def jq_submit_def JobId_next_def demo_q0_def jq_new_def Let_def)
  have "\<forall>prefix. \<exists>w. demo_dispatch prefix = (\<lambda>_. Inr w)" by (auto simp: demo_dispatch_def fun_eq_iff)
  from router_burst_drains[OF this, of demo_q1 demo_env "\<lambda>_. []" Inl] show ?thesis
    by (simp add: q1 encode_for_worker_def job_message_def demo_job_def)
qed

end
