(* ===== verification/Queue_Interleaving.thy ===== *)
theory Queue_Interleaving
  imports Supervisor_Guarantees
begin

text \<open>
  The job queue at the grain of its lock. A method of \<open>supervisor/src/job_queue.rs\<close> changes the memory under the lock
  and, but for \<open>submit\<close>, writes to the disk after it has let go of it; the router (\<open>supervisor/src/lib.rs\<close>) holds a
  job while it awaits the dispatch and, once a worker took it, until \<open>mark_assigned\<close>. Here each of these is a step of
  its own: identifiers are drawn before the lock is taken, the writes are a list from which any one may be done at
  any time, and the supervisor may crash and boot between any two steps, with any answers of the disk. The order of
  the writes is freer than in the code, where one task does its writes in turn. A crash is one of the process: what
  SQLite has committed is there afterwards.
\<close>

section \<open>The locked part and the write of each operation\<close>

datatype disk_write =
    WInFlight JobId string
  | WRequeue JobId
  | WDone JobId JobOutcome "nat option"

definition mem_mark_assigned :: "JobId \<Rightarrow> string \<Rightarrow> JobQueue \<Rightarrow> JobQueue" where
  "mem_mark_assigned jid worker q =
     q\<lparr>tracked := hm_modify jid (\<lambda>t. t\<lparr>trk_assigned_to := Some worker\<rparr>) (tracked q),
       in_flight := hm_insert jid worker (in_flight q)\<rparr>"

definition mem_return_pending :: "JobId \<Rightarrow> JobQueue \<Rightarrow> JobQueue" where
  "mem_return_pending jid q =
     q\<lparr>in_flight := hm_remove jid (in_flight q),
       pending := (if hm_get (tracked q) jid \<noteq> None then jid # pending q else pending q)\<rparr>"

definition mem_complete :: "JobId \<Rightarrow> JobOutcome \<Rightarrow> JobQueue \<Rightarrow> disk_write list \<times> JobQueue" where
  "mem_complete jid outcome q =
     (let q1 = q\<lparr>in_flight := hm_remove jid (in_flight q)\<rparr> in
      case hm_get (tracked q) jid of
        None \<Rightarrow> ([], q1)
      | Some t \<Rightarrow>
          let q2 = q1\<lparr>tracked := hm_remove jid (tracked q)\<rparr> in
          ([WDone jid outcome (trk_waker t)],
           if is_ok outcome then q2\<lparr>completed_count := completed_count q + 1\<rparr>
           else q2\<lparr>failed_count := failed_count q + 1\<rparr>))"

definition mem_requeue_worker :: "string \<Rightarrow> JobQueue \<Rightarrow> disk_write list \<times> JobQueue" where
  "mem_requeue_worker worker q = (map WRequeue (worker_jobs worker q), fold requeue_one (worker_jobs worker q) q)"

text \<open>
  A write, and what its method does after it: the router is notified, the waiting submitter gets the outcome. The
  death of a worker notifies once, after its last write.
\<close>

fun perform :: "qenv \<Rightarrow> disk_write \<Rightarrow> JobQueue \<Rightarrow> JobQueue" where
  "perform env (WInFlight jid worker) q = mirror (dq_mark_in_flight (qe_sql env jid) (qe_unix_ms env) jid worker) q"
| "perform env (WRequeue jid) q = (mirror (dq_requeue (qe_sql env jid) jid) q)\<lparr>wake_router := True\<rparr>"
| "perform env (WDone jid outcome waker) q =
     (let q1 = mirror (dq_mark_done (qe_sql env jid) (qe_unix_ms env) jid outcome) q in
      case waker of None \<Rightarrow> q1 | Some w \<Rightarrow> q1\<lparr>woken := woken q1 @ [(w, outcome)]\<rparr>)"

text \<open>Without other tasks in between, the two parts are the methods as \<open>Job_Queue\<close> has them.\<close>

lemma mirror_wake: "mirror f (q\<lparr>wake_router := b\<rparr>) = (mirror f q)\<lparr>wake_router := b\<rparr>"
  by (simp add: mirror_def split: option.split sum.split)

lemma fold_perform_requeue:
  "fold (perform env) (map WRequeue ids) q =
     (if ids = [] then q
      else (fold (\<lambda>jid. mirror (dq_requeue (qe_sql env jid) jid)) ids q)\<lparr>wake_router := True\<rparr>)"
proof (induction ids arbitrary: q)
  case (Cons i ids)
  have "fold (\<lambda>jid. mirror (dq_requeue (qe_sql env jid) jid)) is (r\<lparr>wake_router := True\<rparr>) =
      (fold (\<lambda>jid. mirror (dq_requeue (qe_sql env jid) jid)) is r)\<lparr>wake_router := True\<rparr>" for "is" r
    by (induction "is" arbitrary: r) (simp_all add: mirror_wake)
  with Cons show ?case by (auto simp: mirror_wake)
qed simp

lemma operations_split:
  "jq_mark_assigned env i w q = perform env (WInFlight i w) (mem_mark_assigned i w q)"
  "jq_return_pending env i q = perform env (WRequeue i) (mem_return_pending i q)"
  "snd (jq_complete env i out q) = fold (perform env) (fst (mem_complete i out q)) (snd (mem_complete i out q))"
  "snd (jq_requeue_worker env w q) = fold (perform env) (fst (mem_requeue_worker w q)) (snd (mem_requeue_worker w q))"
proof -
  show "jq_mark_assigned env i w q = perform env (WInFlight i w) (mem_mark_assigned i w q)"
    by (simp add: jq_mark_assigned_def mem_mark_assigned_def)
  show "jq_return_pending env i q = perform env (WRequeue i) (mem_return_pending i q)"
    by (simp add: jq_return_pending_def mem_return_pending_def)
  show "snd (jq_complete env i out q) = fold (perform env) (fst (mem_complete i out q)) (snd (mem_complete i out q))"
    by (simp add: jq_complete_def mem_complete_def Let_def split: option.split)
  show "snd (jq_requeue_worker env w q) = fold (perform env) (fst (mem_requeue_worker w q)) (snd (mem_requeue_worker w q))"
    by (simp add: jq_requeue_worker_def mem_requeue_worker_def Let_def fold_perform_requeue)
qed

section \<open>Steps\<close>

datatype router_pc = RIdle | RHolds JobId Job | RSent JobId string

record lockst =
  lk_queue :: JobQueue
  lk_file :: jobs_table
  lk_counter :: u64
  lk_router :: router_pc
  lk_drawn :: "JobId list"
  lk_writes :: "disk_write list"

text \<open>What a booting supervisor meets: whether the database opens, and SQLite's answers to the three statements.\<close>

record boot_env =
  bt_codec :: codec
  bt_now :: instant
  bt_open :: "SupervisorError option"
  bt_max :: sql_result
  bt_flip :: sql_result
  bt_select :: sql_result

definition boot :: "boot_env \<Rightarrow> jobs_table \<Rightarrow> lockst" where
  "boot b t =
     (case boot_queue (bt_codec b) (bt_now b) (case bt_open b of Some e \<Rightarrow> Inl e | None \<Rightarrow> Inr t)
             (bt_max b) (bt_flip b) (bt_select b) JOB_ID_COUNTER of
        (q, c) \<Rightarrow> \<lparr>lk_queue = q, lk_file = t, lk_counter = c, lk_router = RIdle, lk_drawn = [], lk_writes = []\<rparr>)"

text \<open>The table on the disk: that of the queue, or the one a queue without a disk left alone.\<close>

definition disk_table :: "lockst \<Rightarrow> jobs_table" where
  "disk_table s = (case durable (lk_queue s) of Some t \<Rightarrow> t | None \<Rightarrow> lk_file s)"

datatype task_event =
    KDraw JobId | KSubmit JobId | KRefused JobId | KTake | KSent JobId string | KBounce JobId | KMark JobId
  | KComplete JobId | KWorkerExit string | KWrite | KCrash

text \<open>
  \<open>E\<close> restricts what the calls find around them and \<open>B\<close> what a boot finds. The answer of \<open>dispatch_to_pool\<close> is
  free: any worker, or an error.
\<close>

inductive task_step :: "(qenv \<Rightarrow> bool) \<Rightarrow> (boot_env \<Rightarrow> bool) \<Rightarrow> lockst \<Rightarrow> task_event \<Rightarrow> lockst \<Rightarrow> bool"
  for E :: "qenv \<Rightarrow> bool" and B :: "boot_env \<Rightarrow> bool" where
  draw: "unat (lk_counter s) < 2 ^ 63 - 1 \<Longrightarrow> JobId_next (lk_counter s) = (i, c) \<Longrightarrow>
     task_step E B s (KDraw i) (s\<lparr>lk_counter := c, lk_drawn := i # lk_drawn s\<rparr>)"
| submit: "i \<in> set (lk_drawn s) \<Longrightarrow> E env \<Longrightarrow> jq_submit env job w i (lk_queue s) = (Inr i, c, q) \<Longrightarrow>
     task_step E B s (KSubmit i) (s\<lparr>lk_queue := q, lk_drawn := remove1 i (lk_drawn s)\<rparr>)"
| refuse: "i \<in> set (lk_drawn s) \<Longrightarrow> E env \<Longrightarrow> jq_submit env job w i (lk_queue s) = (Inl e, c, q) \<Longrightarrow>
     task_step E B s (KRefused i) (s\<lparr>lk_queue := q, lk_drawn := remove1 i (lk_drawn s)\<rparr>)"
| take_job: "lk_router s = RIdle \<Longrightarrow> jq_next_pending (lk_queue s) = (r, q) \<Longrightarrow>
     task_step E B s KTake
       (s\<lparr>lk_queue := q, lk_router := (case r of None \<Rightarrow> RIdle | Some (i, job) \<Rightarrow> RHolds i job)\<rparr>)"
| encode_fails: "lk_router s = RHolds i job \<Longrightarrow> encode_for_worker render read i job = Inl e \<Longrightarrow>
     mem_complete i (OutcomeErr (''router encode: '' @ e) 0 JNull) (lk_queue s) = (ws, q) \<Longrightarrow>
     task_step E B s (KComplete i) (s\<lparr>lk_queue := q, lk_router := RIdle, lk_writes := lk_writes s @ ws\<rparr>)"
| sent: "lk_router s = RHolds i job \<Longrightarrow> encode_for_worker render read i job = Inr line \<Longrightarrow>
     task_step E B s (KSent i w) (s\<lparr>lk_router := RSent i w\<rparr>)"
| bounce: "lk_router s = RHolds i job \<Longrightarrow> encode_for_worker render read i job = Inr line \<Longrightarrow>
     task_step E B s (KBounce i)
       (s\<lparr>lk_queue := mem_return_pending i (lk_queue s), lk_router := RIdle, lk_writes := lk_writes s @ [WRequeue i]\<rparr>)"
| mark: "lk_router s = RSent i w \<Longrightarrow>
     task_step E B s (KMark i)
       (s\<lparr>lk_queue := mem_mark_assigned i w (lk_queue s), lk_router := RIdle, lk_writes := lk_writes s @ [WInFlight i w]\<rparr>)"
| complete: "mem_complete i out (lk_queue s) = (ws, q) \<Longrightarrow>
     task_step E B s (KComplete i) (s\<lparr>lk_queue := q, lk_writes := lk_writes s @ ws\<rparr>)"
| exits: "mem_requeue_worker w (lk_queue s) = (ws, q) \<Longrightarrow>
     task_step E B s (KWorkerExit w) (s\<lparr>lk_queue := q, lk_writes := lk_writes s @ ws\<rparr>)"
| disk: "lk_writes s = ws @ x # ws' \<Longrightarrow> E env \<Longrightarrow>
     task_step E B s KWrite (s\<lparr>lk_queue := perform env x (lk_queue s), lk_writes := ws @ ws'\<rparr>)"
| crash: "B b \<Longrightarrow> task_step E B s KCrash (boot b (disk_table s))"

inductive task_run :: "(qenv \<Rightarrow> bool) \<Rightarrow> (boot_env \<Rightarrow> bool) \<Rightarrow> lockst \<Rightarrow> task_event list \<Rightarrow> lockst \<Rightarrow> bool"
  for E :: "qenv \<Rightarrow> bool" and B :: "boot_env \<Rightarrow> bool" where
  task_refl: "task_run E B s [] s"
| task_cons: "task_step E B s l s' \<Longrightarrow> task_run E B s' ls t \<Longrightarrow> task_run E B s (l # ls) t"

text \<open>A supervisor that has booted on a table of an earlier one.\<close>

definition table_ok :: "jobs_table \<Rightarrow> bool" where
  "table_ok t \<longleftrightarrow> dq_wf t \<and> (\<forall>k \<in> tbl_keys t. 0 \<le> k \<and> k < 2 ^ 63 - 1)"

definition booted :: "(boot_env \<Rightarrow> bool) \<Rightarrow> lockst \<Rightarrow> bool" where
  "booted B s \<longleftrightarrow> (\<exists>b t. B b \<and> table_ok t \<and> s = boot b t)"

section \<open>Invariant\<close>

fun held_by :: "router_pc \<Rightarrow> JobId list" where
  "held_by RIdle = []"
| "held_by (RHolds i job) = [i]"
| "held_by (RSent i w) = [i]"

fun done_id :: "disk_write \<Rightarrow> JobId option" where
  "done_id (WDone i out w) = Some i"
| "done_id x = None"

definition done_ids :: "disk_write list \<Rightarrow> JobId set" where
  "done_ids ws = {i. Some i \<in> done_id ` set ws}"

lemma done_ids_simps [simp]:
  "done_ids [] = {}" "done_ids (x # ws) = set_option (done_id x) \<union> done_ids ws"
  "done_ids (ws @ ws') = done_ids ws \<union> done_ids ws'" "done_ids (map WRequeue ids) = {}"
  by (auto simp: done_ids_def)

definition core :: "u64 \<Rightarrow> JobId list \<Rightarrow> JobQueue \<Rightarrow> bool" where
  "core c hs q \<longleftrightarrow> jq_wf q \<and> placed hs q \<and> below c hs q"

text \<open>A drawn identifier is nowhere yet, and no completed job's write is about one.\<close>

definition queue_inv :: "lockst \<Rightarrow> bool" where
  "queue_inv s \<longleftrightarrow> core (lk_counter s) (held_by (lk_router s)) (lk_queue s) \<and> table_ok (lk_file s) \<and>
     distinct (lk_drawn s) \<and>
     (\<forall>i \<in> set (lk_drawn s). i < lk_counter s \<and> i \<notin> set (held_by (lk_router s) @ pending (lk_queue s)) \<and>
        i \<notin> set (hm_keys (in_flight (lk_queue s)))) \<and>
     (\<forall>i \<in> done_ids (lk_writes s). i < lk_counter s \<and> i \<notin> set (lk_drawn s))"

lemma tracked_somewhere:
  "placed hs q \<Longrightarrow> outstanding q i \<noteq> None \<Longrightarrow> i \<in> set (hs @ pending q) \<union> set (hm_keys (in_flight q))"
  using tracked_iff_outstanding[of i q] by (auto simp: placed_def)

subsection \<open>Booting\<close>

lemma core_new: "core JOB_ID_COUNTER [] (jq_new cap)"
  by (simp add: core_def placed_def below_def keys_below_def jq_new_def hm_keys_def JOB_ID_COUNTER_def jq_wf_def)

lemma boot_counter_bound:
  assumes "table_ok t"
  shows "unat (boot_counter t) < 2 ^ 63" and "k \<in> tbl_keys t \<Longrightarrow> 0 \<le> k \<and> k < u64_as_i64 (boot_counter t)"
proof -
  note b = uint_boot_counter[of t] assms[unfolded table_ok_def]
  then have u: "uint (boot_counter t) = max_key t + 1" "0 \<le> max_key t" "max_key t < 2 ^ 63 - 1" by blast+
  then show c: "unat (boot_counter t) < 2 ^ 63" by (simp add: unat_eq_nat_uint nat_less_iff del: nat_uint_eq)
  show "0 \<le> k \<and> k < u64_as_i64 (boot_counter t)" if "k \<in> tbl_keys t"
    using max_key_ge[OF that] b(2) that u(1) by (simp add: u64_as_i64_small[OF c])
qed

lemma core_attached:
  assumes "table_ok t"
  shows "core (boot_counter t) [] ((jq_new cap)\<lparr>durable := Some t\<rparr>)"
  using assms boot_counter_bound[OF assms]
  by (auto simp: core_def placed_def below_def keys_below_def jq_new_def hm_keys_def jq_wf_def table_ok_def)

lemma table_ok_flip: "table_ok t \<Longrightarrow> table_ok (requeue_all_rows t)"
  by (simp add: table_ok_def dq.ok_flip) (simp add: requeue_all_rows_def)

lemma boot_counter_flip: "boot_counter (requeue_all_rows t) = boot_counter t"
  by (simp add: boot_counter_def max_id_of_def requeue_all_rows_def)

lemma core_recovered:
  assumes t: "table_ok t" and b: "boot_queue cd now (Inr t) SqlOk SqlOk SqlOk JOB_ID_COUNTER = (q, c)"
  shows "core c [] q"
proof -
  let ?c = "2 ^ 63 - 1 :: u64"
  have c: "unat ?c = 2 ^ 63 - 1" by simp
  then have "unat ?c < 2 ^ 63" by simp
  from u64_as_i64_small[OF this] have "u64_as_i64 ?c = 2 ^ 63 - 1" by simp
  then have "sys_inv ((jq_new 0)\<lparr>durable := Some t\<rparr>, ?c, None)"
    using t c by (auto simp: table_ok_def jq_wf_def placed_def below_def keys_below_def jq_new_def hm_keys_def)
  from sys_inv_crashed[OF this _ b] show ?thesis by (simp add: core_def)
qed

lemma boot_core: "table_ok t \<Longrightarrow> core (lk_counter (boot b t)) [] (lk_queue (boot b t))"
proof -
  assume t: "table_ok t"
  consider "bt_open b \<noteq> None" | "bt_open b = None" "bt_max b \<noteq> SqlOk" | "bt_open b = None" "bt_max b = SqlOk" by blast
  then show ?thesis
  proof cases
    case 1
    then show ?thesis
      using core_new by (auto simp: boot_def boot_queue_def jq_recover_from_disk_def jq_new_def)
  next
    case 2
    then have "\<exists>e. dq_max_id (bt_max b) t = Inl e" by (cases "bt_max b") (simp_all add: dq_max_id_def)
    with 2 show ?thesis
      using core_new by (auto simp: boot_def boot_queue_def jq_with_durable_def jq_recover_from_disk_def jq_new_def)
  next
    case 3
    have w: "jq_with_durable SqlOk BOOT_CAP t JOB_ID_COUNTER = Inr ((jq_new BOOT_CAP)\<lparr>durable := Some t\<rparr>, boot_counter t)"
      by (simp add: jq_with_durable_def dq_max_id_def boot_counter_def)
    show ?thesis
    proof (cases "bt_flip b = SqlOk \<and> bt_select b = SqlOk")
      case True
      with 3 core_recovered[OF t] show ?thesis by (auto simp: boot_def split: prod.split)
    next
      case False
      then consider "bt_flip b \<noteq> SqlOk" | "bt_flip b = SqlOk" "bt_select b \<noteq> SqlOk" by blast
      then show ?thesis
      proof cases
        case 1
        then have "\<exists>e. dq_requeue_all_in_flight (bt_flip b) t = Inl e"
          by (cases "bt_flip b") (simp_all add: dq_requeue_all_in_flight_def)
        with 3 w core_attached[OF t] show ?thesis
          by (auto simp: boot_def boot_queue_def jq_recover_from_disk_def)
      next
        case 2
        then have "\<exists>e. dq_recover_queued (bt_codec b) (bt_select b) (requeue_all_rows t) = Inl e"
          by (cases "bt_select b") (simp_all add: dq_recover_queued_def)
        with 2 3 w core_attached[OF table_ok_flip[OF t]] show ?thesis
          by (auto simp: boot_def boot_queue_def jq_recover_from_disk_def dq_requeue_all_in_flight_def boot_counter_flip)
      qed
    qed
  qed
qed

lemma boot_frame [simp]:
  "lk_file (boot b t) = t" "lk_router (boot b t) = RIdle" "lk_drawn (boot b t) = []" "lk_writes (boot b t) = []"
  by (simp_all add: boot_def split: prod.split)

lemma queue_inv_boot: "table_ok t \<Longrightarrow> queue_inv (boot b t)"
  by (simp add: queue_inv_def boot_core)

lemma queue_inv_table:
  assumes "queue_inv s"
  shows "table_ok (disk_table s)"
proof (cases "durable (lk_queue s)")
  case None
  with assms show ?thesis by (simp add: queue_inv_def disk_table_def)
next
  case (Some t)
  have c: "unat (lk_counter s) < 2 ^ 63" and t: "dq_wf t" "\<forall>k \<in> tbl_keys t. 0 \<le> k \<and> k < u64_as_i64 (lk_counter s)"
    using assms Some by (auto simp: queue_inv_def core_def below_def keys_below_def jq_wf_def)
  have "u64_as_i64 (lk_counter s) < 2 ^ 63"
    using c by (simp add: u64_as_i64_small unat_eq_nat_uint nat_less_iff del: nat_uint_eq)
  with t Some show ?thesis by (fastforce simp: disk_table_def table_ok_def)
qed

subsection \<open>The steps keep it\<close>

definition places :: "JobId list \<Rightarrow> JobQueue \<Rightarrow> JobId set" where
  "places hs q = set (hs @ pending q) \<union> set (hm_keys (in_flight q))"

lemma perform_frame [simp]:
  "pending (perform env x q) = pending q" "tracked (perform env x q) = tracked q" "in_flight (perform env x q) = in_flight q"
  by (cases x; simp add: Let_def split: option.split)+

lemma perform_places [simp]: "places hs (perform env x q) = places hs q"
  by (simp add: places_def)

lemma core_perform: "core c hs q \<Longrightarrow> core c hs (perform env x q)"
proof -
  assume q: "core c hs q"
  then have "jq_wf (perform env x q) \<and> keys_below c (perform env x q)"
  proof (cases x)
    case (WDone i out w)
    let ?m = "mirror (dq_mark_done (qe_sql env i) (qe_unix_ms env) i out) q"
    have "jq_wf ?m" "keys_below c ?m"
      using q by (auto simp: core_def below_def intro!: jq_wf_mirror keys_below_mirror)
    then show ?thesis by (simp add: WDone Let_def jq_wf_def keys_below_def split: option.split)
  next
    case (WRequeue i)
    let ?m = "mirror (dq_requeue (qe_sql env i) i) q"
    have "jq_wf ?m" "keys_below c ?m"
      using q by (auto simp: core_def below_def intro!: jq_wf_mirror keys_below_mirror)
    then show ?thesis by (simp add: WRequeue keys_below_def)
  qed (auto simp: core_def below_def intro!: jq_wf_mirror keys_below_mirror)
  with q show ?thesis by (simp add: core_def placed_def below_def)
qed

lemma core_submit:
  assumes "core c hs q" and "i < c" and "i \<notin> places hs q" and "jq_submit env job w i q = (r, c', q')"
  shows "core c hs q' \<and> places hs q' \<subseteq> insert i (places hs q)"
  using assms(4)
proof (cases rule: submit_cases)
  case full
  with assms(1) show ?thesis by auto
next
  case (ok q1)
  have "0 \<le> u64_as_i64 i" "u64_as_i64 i < u64_as_i64 c"
    using u64_as_i64_less[of c i] assms(1,2) by (auto simp: core_def below_def)
  then have "keys_below c q1"
    using assms(1)
    by (auto simp: ok(3) core_def below_def keys_below_def mirror_def dq_push_def push_row_def split: option.splits sum.splits)
  moreover have "jq_wf q'" using assms(1,4) jq_wf_submit[of q env job w i] by (simp add: core_def)
  ultimately show ?thesis
    using assms(1-3) by (auto simp: ok core_def placed_def below_def keys_below_def places_def)
qed

lemma core_take:
  assumes "core c [] q" and "jq_next_pending q = (r, q')"
  shows "core c (held_ids r) q' \<and> places (held_ids r) q' \<subseteq> places [] q"
proof -
  from assms(1) have "sys_inv (q, c, None)" by (simp add: core_def)
  from sys_inv_taken[OF this assms(2)] have "core c (held_ids r) q'" by (simp add: core_def)
  moreover have "places (held_ids r) q' \<subseteq> places [] q"
    using assms(2)
    by (cases "hm_get (tracked q) (hd (pending q))")
      (auto simp: jq_next_pending_def places_def held_ids_def split: list.splits option.splits)
  ultimately show ?thesis by blast
qed

lemma mem_complete_frame:
  assumes "mem_complete i out q = (ws, q')"
  shows "pending q' = pending q" "in_flight q' = hm_remove i (in_flight q)" "tracked q' = hm_remove i (tracked q)"
    "durable q' = durable q" "done_ids ws = (if outstanding q i = None then {} else {i})"
proof -
  have "hm_remove i (tracked q) = tracked q" if "hm_get (tracked q) i = None"
    using that by (simp add: delete_idem map_of_eq_None_iff)
  with assms show "pending q' = pending q" "in_flight q' = hm_remove i (in_flight q)"
    "tracked q' = hm_remove i (tracked q)" "durable q' = durable q"
    "done_ids ws = (if outstanding q i = None then {} else {i})"
    by (auto simp: mem_complete_def Let_def outstanding_def split: option.splits if_splits)
qed

lemma core_complete:
  assumes "core c hs q" and "mem_complete i out q = (ws, q')"
  shows "core c hs q' \<and> core c (filter (\<lambda>j. j \<noteq> i) hs) q' \<and> places hs q' \<subseteq> places hs q \<and> done_ids ws \<subseteq> places hs q"
proof -
  note frame = mem_complete_frame[OF assms(2)]
  have "done_ids ws \<subseteq> places hs q"
    using tracked_somewhere[of hs q i] assms(1) by (auto simp: frame(5) core_def places_def)
  moreover have "jq_wf q'" using assms(1) by (simp add: jq_wf_def core_def frame)
  moreover have "keys_below c q'" using assms(1) keys_below_cong[OF frame(4)] by (simp add: core_def below_def)
  ultimately show ?thesis
    using assms(1) by (auto simp: core_def placed_def below_def places_def frame)
qed

lemma core_return:
  assumes "core c [i] q"
  shows "core c [] (mem_return_pending i q) \<and> places [] (mem_return_pending i q) \<subseteq> places [i] q"
proof -
  have "hm_get (tracked q) i = None \<Longrightarrow> i \<notin> set (hm_keys (tracked q))"
    using hm_get_iff_keys[of "tracked q" i] by simp
  with assms show ?thesis
    by (auto simp: core_def placed_def below_def keys_below_def places_def mem_return_pending_def jq_wf_def)
qed

lemma core_mark:
  assumes "core c [i] q"
  shows "core c [] (mem_mark_assigned i w q) \<and> places [] (mem_mark_assigned i w q) \<subseteq> places [i] q"
  using assms
  by (auto simp: core_def placed_def below_def keys_below_def places_def mem_mark_assigned_def jq_wf_def)

lemma core_exit:
  assumes "core c hs q" and "mem_requeue_worker w q = (ws, q')"
  shows "core c hs q' \<and> places hs q' \<subseteq> places hs q \<and> done_ids ws = {}"
proof -
  let ?ids = "worker_jobs w q"
  have q': "q' = fold requeue_one ?ids q" and ws: "ws = map WRequeue ?ids"
    using assms(2) by (auto simp: mem_requeue_worker_def)
  have wf: "jq_wf q" "hm_wf (in_flight q)" using assms(1) by (simp_all add: core_def jq_wf_def)
  have keys: "set (hm_keys (in_flight q')) = set (hm_keys (in_flight q)) - set ?ids"
    by (auto simp: q' fold_requeue_one_in_flight split: if_splits simp flip: hm_get_iff_keys)
  have ids: "set ?ids \<subseteq> set (hm_keys (in_flight q))"
    by (auto simp: worker_jobs_iff[OF wf(2)] simp flip: hm_get_iff_keys)
  have "set (hm_keys (tracked q')) = set (hm_keys (tracked q))"
    by (simp add: set_eq_iff tracked_iff_outstanding outstanding_def q' fold_requeue_one_job)
  moreover have "keys_below c q'"
    using assms(1) by (simp add: core_def below_def keys_below_def q' fold_requeue_one)
  ultimately show ?thesis
    using assms(1) ids keys distinct_worker_jobs[OF wf(2)] jq_wf_fold_requeue_one[OF wf(1), of ?ids]
    by (auto simp: core_def placed_def below_def places_def q' fold_requeue_one ws)
qed

lemma queue_inv_iff:
  "queue_inv s \<longleftrightarrow> core (lk_counter s) (held_by (lk_router s)) (lk_queue s) \<and> table_ok (lk_file s) \<and>
     distinct (lk_drawn s) \<and>
     (\<forall>i \<in> set (lk_drawn s). i < lk_counter s \<and> i \<notin> places (held_by (lk_router s)) (lk_queue s)) \<and>
     (\<forall>i \<in> done_ids (lk_writes s). i < lk_counter s \<and> i \<notin> set (lk_drawn s))"
  by (auto simp: queue_inv_def places_def)

text \<open>A step that moves jobs between the places and adds writes about jobs that stood there.\<close>

lemma queue_inv_move:
  assumes s: "queue_inv s"
    and q: "core (lk_counter s) (held_by r) q" "places (held_by r) q \<subseteq> places (held_by (lk_router s)) (lk_queue s)"
    and ws: "done_ids ws \<subseteq> done_ids (lk_writes s) \<union> places (held_by (lk_router s)) (lk_queue s)"
  shows "queue_inv (s\<lparr>lk_queue := q, lk_router := r, lk_writes := ws\<rparr>)"
proof -
  have "i < lk_counter s" if "i \<in> places (held_by (lk_router s)) (lk_queue s)" for i
    using s that by (auto simp: queue_inv_iff core_def below_def places_def)
  with assms show ?thesis unfolding queue_inv_iff by (simp del: held_by.simps) blast
qed

lemma queue_inv_submit:
  assumes s: "queue_inv s" and i: "i \<in> set (lk_drawn s)" and sub: "jq_submit env job w i (lk_queue s) = (r, c, q)"
  shows "queue_inv (s\<lparr>lk_queue := q, lk_drawn := remove1 i (lk_drawn s)\<rparr>)"
proof -
  have "i < lk_counter s" "i \<notin> places (held_by (lk_router s)) (lk_queue s)"
    and "core (lk_counter s) (held_by (lk_router s)) (lk_queue s)" and d: "distinct (lk_drawn s)"
    using s i by (auto simp: queue_inv_iff)
  from core_submit[OF this(3,1,2) sub] s show ?thesis
    using set_remove1_eq[OF d, of i] unfolding queue_inv_iff by (simp add: d) blast
qed

lemma queue_inv_draw:
  assumes s: "queue_inv s" and "unat (lk_counter s) < 2 ^ 63 - 1"
  shows "queue_inv (s\<lparr>lk_counter := lk_counter s + 1, lk_drawn := lk_counter s # lk_drawn s\<rparr>)"
proof -
  let ?c = "lk_counter s"
  note step = counter_step[OF assms(2)]
  have old: "i < ?c" if "i \<in> places (held_by (lk_router s)) (lk_queue s) \<or> i \<in> set (lk_drawn s) \<or> i \<in> done_ids (lk_writes s)" for i
    using s that by (auto simp: queue_inv_iff core_def below_def places_def)
  have lt: "i < ?c \<Longrightarrow> i < ?c + 1" for i using step by (auto intro: less_trans)
  have "core (?c + 1) (held_by (lk_router s)) (lk_queue s)"
    using s step keys_below_mono[of ?c "lk_queue s" "?c + 1"] lt by (auto simp: queue_inv_iff core_def below_def)
  then show ?thesis using s step old lt unfolding queue_inv_iff by auto
qed

lemma queue_inv_step:
  assumes "queue_inv s" and "task_step E B s l s'"
  shows "queue_inv s'"
  using assms(2)
proof (cases rule: task_step.cases)
  case (draw i c)
  then have "i = lk_counter s" "c = lk_counter s + 1" by (auto simp: JobId_next_def)
  with draw queue_inv_draw[OF assms(1)] show ?thesis by simp
next
  case (submit i env job w c q)
  then show ?thesis using queue_inv_submit[OF assms(1)] by blast
next
  case (refuse i env job w e c q)
  then show ?thesis using queue_inv_submit[OF assms(1)] by blast
next
  case (take_job r q)
  have "held_by (case r of None \<Rightarrow> RIdle | Some (i, job) \<Rightarrow> RHolds i job) = held_ids r" by (auto simp: held_ids_def split: option.split)
  then show ?thesis
    using queue_inv_move[OF assms(1), of "case r of None \<Rightarrow> RIdle | Some (i, job) \<Rightarrow> RHolds i job" q "lk_writes s"]
      core_take[of "lk_counter s" "lk_queue s" r q] assms(1) take_job
    by (simp add: queue_inv_iff)
next
  case (encode_fails i job render read e ws q)
  have c: "core (lk_counter s) [i] (lk_queue s)" using assms(1) encode_fails(3) by (simp add: queue_inv_iff)
  from core_complete[OF c encode_fails(5)] show ?thesis
    using queue_inv_move[OF assms(1), of RIdle q "lk_writes s @ ws"] encode_fails by (auto simp: places_def)
next
  case (sent i job render read line w)
  then show ?thesis using assms(1) by (simp add: queue_inv_iff)
next
  case (bounce i job render read line)
  have c: "core (lk_counter s) [i] (lk_queue s)" using assms(1) bounce(3) by (simp add: queue_inv_iff)
  from core_return[OF c] show ?thesis
    using queue_inv_move[OF assms(1), of RIdle "mem_return_pending i (lk_queue s)" "lk_writes s @ [WRequeue i]"] bounce by simp
next
  case (mark i w)
  have c: "core (lk_counter s) [i] (lk_queue s)" using assms(1) mark(3) by (simp add: queue_inv_iff)
  from core_mark[OF c] show ?thesis
    using queue_inv_move[OF assms(1), of RIdle "mem_mark_assigned i w (lk_queue s)" "lk_writes s @ [WInFlight i w]"] mark by simp
next
  case (complete i out ws q)
  from core_complete[OF _ complete(3)] assms(1) show ?thesis
    using queue_inv_move[OF assms(1), of "lk_router s" q "lk_writes s @ ws"] complete by (auto simp: queue_inv_iff)
next
  case (exits w ws q)
  from core_exit[OF _ exits(3)] assms(1) show ?thesis
    using queue_inv_move[OF assms(1), of "lk_router s" q "lk_writes s @ ws"] exits by (auto simp: queue_inv_iff)
next
  case (disk ws x ws' env)
  have "core (lk_counter s) (held_by (lk_router s)) (perform env x (lk_queue s))"
    using assms(1) core_perform by (simp add: queue_inv_iff)
  then show ?thesis
    using queue_inv_move[OF assms(1), of "lk_router s" "perform env x (lk_queue s)" "ws @ ws'"] disk by auto
next
  case (crash b)
  then show ?thesis using queue_inv_boot[OF queue_inv_table[OF assms(1)]] by simp
qed

interpretation lock: transition_invariant "booted B" "\<lambda>s t. \<exists>l. task_step E B s l t" queue_inv for E B
  by unfold_locales (auto simp: booted_def intro: queue_inv_boot queue_inv_step)

lemma task_run_inv: "task_run E B s ls t \<Longrightarrow> queue_inv s \<Longrightarrow> queue_inv t"
  by (induction rule: task_run.induct) (auto intro: queue_inv_step)

section \<open>The disk keeps what is outstanding\<close>

text \<open>A boot that reads its database, with the codec of the calls.\<close>

definition boot_ok :: "codec \<Rightarrow> boot_env \<Rightarrow> bool" where
  "boot_ok cd b \<longleftrightarrow> bt_codec b = cd \<and> bt_open b = None \<and> bt_max b = SqlOk \<and> bt_flip b = SqlOk \<and> bt_select b = SqlOk"

text \<open>Every outstanding job has a live row, and no write waits that would finish it.\<close>

definition kept :: "codec \<Rightarrow> lockst \<Rightarrow> bool" where
  "kept cd s \<longleftrightarrow> queue_inv s \<and> mirrored cd (lk_queue s) \<and>
     (\<forall>i \<in> done_ids (lk_writes s). outstanding (lk_queue s) i = None)"

lemma outstanding_mem [simp]:
  "outstanding (mem_mark_assigned j w q) = outstanding q"
  "outstanding (mem_return_pending j q) = outstanding q"
  "outstanding (snd (mem_requeue_worker w q)) = outstanding q"
proof -
  show "outstanding (mem_mark_assigned j w q) = outstanding q"
    by (auto simp: fun_eq_iff outstanding_def mem_mark_assigned_def option.map_comp comp_def)
  show "outstanding (mem_return_pending j q) = outstanding q"
    by (simp add: outstanding_def mem_return_pending_def fun_eq_iff)
  show "outstanding (snd (mem_requeue_worker w q)) = outstanding q"
    by (simp add: outstanding_def mem_requeue_worker_def fun_eq_iff fold_requeue_one_job)
qed

lemma outstanding_perform [simp]: "outstanding (perform env x q) = outstanding q"
  by (simp add: outstanding_def fun_eq_iff)

lemma outstanding_mem_complete:
  "mem_complete j out q = (ws, q') \<Longrightarrow> outstanding q' i = (if i = j then None else outstanding q i)"
  by (simp add: outstanding_def mem_complete_frame(3))

lemma mirrored_weaken:
  "mirrored cd q \<Longrightarrow> durable q' = durable q \<Longrightarrow>
   (\<And>i job. outstanding q' i = Some job \<Longrightarrow> outstanding q i = Some job) \<Longrightarrow> mirrored cd q'"
  by (auto simp: mirrored_def)

lemma mirrored_perform:
  assumes "disk_ok cd env" and q: "mirrored cd q" and "\<forall>i \<in> set_option (done_id x). outstanding q i = None"
  shows "mirrored cd (perform env x q)"
proof (cases x)
  case (WInFlight i w)
  show ?thesis
    by (rule mirrored_mirror[OF q dq_ops_keep_live(1) outstanding_perform]) (simp add: WInFlight)
next
  case (WRequeue i)
  show ?thesis
    by (rule mirrored_mirror[OF q dq_ops_keep_live(2) outstanding_perform]) (simp add: WRequeue)
next
  case (WDone i out w)
  obtain t where t: "durable q = Some t" "\<And>j job. outstanding q j = Some job \<Longrightarrow> on_disk cd t j job"
    using q by (auto simp: mirrored_def)
  have "durable (perform env x q) = Some (mark_done_row (qe_unix_ms env) i out t)"
    using assms(1) t(1) by (simp add: WDone Let_def mirror_def dq_mark_done_def disk_ok_def split: option.split)
  with t(2) assms(3) show ?thesis
    unfolding mirrored_def outstanding_perform by (auto simp: on_disk_def dq.live_finish WDone simp del: perform.simps)
qed

lemma kept_move:
  assumes "kept cd s" and "queue_inv s'" and "durable (lk_queue s') = durable (lk_queue s)"
    and "outstanding (lk_queue s') = outstanding (lk_queue s)" and "done_ids (lk_writes s') \<subseteq> done_ids (lk_writes s)"
  shows "kept cd s'"
  using assms by (auto simp: kept_def intro: mirrored_cong)

lemma kept_complete:
  assumes s: "kept cd s" and m: "mem_complete j out (lk_queue s) = (ws, q)" and s': "queue_inv s'"
    and "lk_queue s' = q" "lk_writes s' = lk_writes s @ ws"
  shows "kept cd s'"
proof -
  have "mirrored cd q"
    using s by (auto simp: kept_def outstanding_mem_complete[OF m] mem_complete_frame(4)[OF m]
        intro: mirrored_weaken split: if_splits)
  with assms show ?thesis
    by (auto simp: kept_def outstanding_mem_complete[OF m] mem_complete_frame(5)[OF m])
qed

lemma drawn_not_outstanding: "queue_inv s \<Longrightarrow> i \<in> set (lk_drawn s) \<Longrightarrow> outstanding (lk_queue s) i = None"
  using tracked_somewhere[of "held_by (lk_router s)" "lk_queue s" i] unfolding queue_inv_def core_def by fastforce

lemma kept_booted:
  assumes b: "boot_ok cd b" and t: "table_ok t"
  shows "kept cd (boot b t)"
    and "outstanding (lk_queue (boot b t)) i = Some job \<longleftrightarrow>
      (\<exists>p. live_of (dq_row t i) = Some p \<and> from_slice cd p = Some job)"
proof -
  obtain q c where q: "boot_queue cd (bt_now b) (Inr t) SqlOk SqlOk SqlOk JOB_ID_COUNTER = (q, c)" by fastforce
  with b have boot: "lk_queue (boot b t) = q" by (simp add: boot_def boot_ok_def)
  have "dq_wf t" using t by (simp add: table_ok_def)
  from mirrored_crashed[OF this q] boot_outstanding[OF q this] show "kept cd (boot b t)"
    "outstanding (lk_queue (boot b t)) i = Some job \<longleftrightarrow>
      (\<exists>p. live_of (dq_row t i) = Some p \<and> from_slice cd p = Some job)"
    using queue_inv_boot[OF t] by (simp_all add: kept_def boot)
qed

lemma kept_step:
  assumes cd: "codec_ok cd" and step: "task_step (disk_ok cd) (boot_ok cd) s l s'" and s: "kept cd s"
  shows "kept cd s' \<and>
    (outstanding (lk_queue s) i = Some job \<and> l \<noteq> KComplete i \<longrightarrow> outstanding (lk_queue s') i = Some job)"
proof -
  have inv: "queue_inv s" and inv': "queue_inv s'" using s queue_inv_step[OF _ step] by (simp_all add: kept_def)
  note move = kept_move[OF s inv']
  show ?thesis
    using step
  proof (cases rule: task_step.cases)
    case (draw j c)
    with move show ?thesis by simp
  next
    case (submit j env job' w c q)
    have out: "outstanding q k = (if k = j then Some job' else outstanding (lk_queue s) k)" for k
      using submit(5) by (auto elim!: submit_cases simp: outstanding_def)
    have "mirrored cd q" using mirrored_submit[OF cd submit(4) _ submit(5)] s by (simp add: kept_def)
    moreover have "j \<notin> done_ids (lk_writes s)" using inv submit(3) by (auto simp: queue_inv_def)
    ultimately show ?thesis
      using s inv' submit out drawn_not_outstanding[OF inv submit(3)] by (auto simp: kept_def)
  next
    case (refuse j env job' w e c q)
    then have "q = lk_queue s" by (auto elim!: submit_cases)
    with refuse move show ?thesis by simp
  next
    case (take_job r q)
    then have "outstanding q = outstanding (lk_queue s)" "durable q = durable (lk_queue s)"
      using outstanding_next_pending[of "lk_queue s"] by (auto simp: jq_next_pending_def split: list.splits)
    with take_job move show ?thesis by simp
  next
    case (encode_fails j job' render read e ws q)
    from kept_complete[OF s encode_fails(5) inv'] encode_fails show ?thesis
      by (auto simp: outstanding_mem_complete[OF encode_fails(5)])
  next
    case (sent j job' render read line w)
    with move show ?thesis by simp
  next
    case (bounce j job' render read line)
    have "durable (mem_return_pending j (lk_queue s)) = durable (lk_queue s)" by (simp add: mem_return_pending_def)
    with bounce move show ?thesis by simp
  next
    case (mark j w)
    have "durable (mem_mark_assigned j w (lk_queue s)) = durable (lk_queue s)" by (simp add: mem_mark_assigned_def)
    with mark move show ?thesis by simp
  next
    case (complete j out ws q)
    from kept_complete[OF s complete(3) inv'] complete show ?thesis
      by (auto simp: outstanding_mem_complete[OF complete(3)])
  next
    case (exits w ws q)
    then have "outstanding q = outstanding (lk_queue s)" using outstanding_mem(3)[of w "lk_queue s"] by simp
    moreover have "done_ids ws = {}" "durable q = durable (lk_queue s)"
      using exits(3) by (auto simp: mem_requeue_worker_def fold_requeue_one)
    ultimately show ?thesis using exits(1,2) move by simp
  next
    case (disk ws x ws' env)
    then have "mirrored cd (perform env x (lk_queue s))"
      using s by (intro mirrored_perform) (auto simp: kept_def)
    with s disk inv' show ?thesis by (auto simp: kept_def)
  next
    case (crash b)
    obtain t where t: "durable (lk_queue s) = Some t" "\<And>k job. outstanding (lk_queue s) k = Some job \<Longrightarrow> on_disk cd t k job"
      using s by (auto simp: kept_def mirrored_def)
    then have "s' = boot b t" using crash by (simp add: disk_table_def)
    moreover have "table_ok t" using queue_inv_table[OF inv] t(1) by (simp add: disk_table_def)
    ultimately show ?thesis
      using kept_booted(1)[OF crash(3), of t] kept_booted(2)[OF crash(3), of t i job] t(2)[of i job]
      unfolding on_disk_def by blast
  qed
qed

lemma kept_run:
  assumes "task_run (disk_ok cd) (boot_ok cd) s ls s'" and "codec_ok cd" and "kept cd s"
  shows "kept cd s'"
  using assms by (induction rule: task_run.induct) (auto dest: kept_step)

lemma kept_outstanding:
  assumes "task_run (disk_ok cd) (boot_ok cd) s ls s'" and "codec_ok cd" and "kept cd s"
    and "outstanding (lk_queue s) i = Some job" and "KComplete i \<notin> set ls"
  shows "outstanding (lk_queue s') i = Some job"
  using assms by (induction rule: task_run.induct) (auto dest: kept_step)

inductive_cases task_run_elims: "task_run E B s [] t" "task_run E B s (l # ls) t"

section \<open>Guarantees\<close>

lemma outstanding_place:
  assumes "queue_inv s" and "outstanding (lk_queue s) i \<noteq> None"
  shows "count_list (held_by (lk_router s) @ pending (lk_queue s) @ hm_keys (in_flight (lk_queue s))) i = 1"
proof (rule count_list_distinct)
  let ?q = "lk_queue s"
  have "placed (held_by (lk_router s)) ?q" "hm_wf (in_flight ?q)"
    using assms(1) by (simp_all add: queue_inv_def core_def jq_wf_def)
  then show "distinct (held_by (lk_router s) @ pending ?q @ hm_keys (in_flight ?q))"
    and "i \<in> set (held_by (lk_router s) @ pending ?q @ hm_keys (in_flight ?q))"
    using tracked_somewhere[OF _ assms(2), of "held_by (lk_router s)"] by (auto simp: placed_def hm_wf_def)
qed

text \<open>An example run: a job is submitted, taken, sent to a worker and marked, and the supervisor crashes.\<close>

definition demo_boot_env :: boot_env where
  "demo_boot_env =
     \<lparr>bt_codec = demo_codec, bt_now = 0, bt_open = None, bt_max = SqlOk, bt_flip = SqlOk, bt_select = SqlOk\<rparr>"

definition demo_booted :: lockst where
  "demo_booted = boot demo_boot_env []"

definition demo_accepted :: lockst where
  "demo_accepted = demo_booted
     \<lparr>lk_counter := 2, lk_queue := snd (snd (jq_submit demo_env demo_job None 1 (lk_queue demo_booted))), lk_drawn := []\<rparr>"

lemma demo_boot_ok: "boot_ok demo_codec demo_boot_env"
  by (simp add: boot_ok_def demo_boot_env_def)

lemma demo_booted_ok: "B demo_boot_env \<Longrightarrow> booted B demo_booted"
  unfolding booted_def demo_booted_def
  by (intro exI[of _ demo_boot_env] exI[of _ "[]"]) (simp add: table_ok_def tbl_keys_def)

lemma demo_booted_queue:
  "lk_queue demo_booted = (jq_new BOOT_CAP)\<lparr>durable := Some []\<rparr>" "lk_counter demo_booted = 1"
  "lk_router demo_booted = RIdle" "lk_drawn demo_booted = []" "lk_writes demo_booted = []"
  by (simp_all add: demo_booted_def boot_def demo_boot_env_def boot_queue_def jq_with_durable_def dq_max_id_def
      max_id_of_def jq_recover_from_disk_def dq_requeue_all_in_flight_def dq_recover_queued_def requeue_all_rows_def
      jq_new_def JOB_ID_COUNTER_def BOOT_CAP_def tbl_update_def select_state_def i64_as_u64_def)

lemma demo_submit_boot:
  "\<exists>q. jq_submit demo_env demo_job None 1 (lk_queue demo_booted) = (Inr 1, 2, q) \<and> pending q = [1] \<and>
     in_flight q = [] \<and> outstanding q 1 = Some demo_job \<and> lk_queue demo_accepted = q"
  by (simp add: demo_accepted_def demo_booted_queue jq_submit_def JobId_next_def jq_new_def BOOT_CAP_def outstanding_def Let_def)

lemma demo_accept_run:
  assumes "E demo_env"
  shows "task_run E B demo_booted [KDraw 1, KSubmit 1] demo_accepted"
proof -
  obtain q where q: "jq_submit demo_env demo_job None 1 (lk_queue demo_booted) = (Inr 1, 2, q)" "lk_queue demo_accepted = q"
    using demo_submit_boot by blast
  let ?s = "demo_booted\<lparr>lk_counter := 2, lk_drawn := [1]\<rparr>"
  have "task_step E B demo_booted (KDraw 1) ?s"
    using task_step.draw[of demo_booted 1 2 E B] by (simp add: demo_booted_queue JobId_next_def)
  moreover have "task_step E B ?s (KSubmit 1) demo_accepted"
    using task_step.submit[of 1 ?s E demo_env demo_job None 2 q B] assms q
    by (simp add: demo_accepted_def)
  ultimately show ?thesis by (blast intro: task_run.intros)
qed

lemma demo_crash_run:
  assumes "B demo_boot_env"
  shows "\<exists>s. task_run E B demo_accepted [KTake, KSent 1 ''md-ingest-worker'', KMark 1, KCrash] s"
proof -
  obtain q where q: "pending q = [1]" "outstanding q 1 = Some demo_job" "lk_queue demo_accepted = q"
    using demo_submit_boot by blast
  have r: "lk_router demo_accepted = RIdle" by (simp add: demo_accepted_def demo_booted_queue)
  have take_: "jq_next_pending q = (Some (1, demo_job), q\<lparr>pending := []\<rparr>)"
    using q by (auto simp: jq_next_pending_def outstanding_def)
  obtain line where line: "encode_for_worker (\<lambda>_. []) Inl 1 demo_job = Inr line"
    by (simp add: encode_for_worker_def job_message_def demo_job_def)
  let ?s = "demo_accepted\<lparr>lk_queue := q\<lparr>pending := []\<rparr>, lk_router := RHolds 1 demo_job\<rparr>"
  have "task_step E B demo_accepted KTake ?s"
    using task_step.take_job[OF r, of "Some (1, demo_job)" "q\<lparr>pending := []\<rparr>" E B] take_ q by simp
  moreover have "task_step E B ?s (KSent 1 ''md-ingest-worker'') (?s\<lparr>lk_router := RSent 1 ''md-ingest-worker''\<rparr>)"
    by (rule task_step.sent[OF _ line]) simp
  moreover note task_step.mark[of "?s\<lparr>lk_router := RSent 1 ''md-ingest-worker''\<rparr>" 1 "''md-ingest-worker''" E B]
  moreover have "task_step E B s KCrash (boot demo_boot_env (disk_table s))" for s
    using assms by (rule task_step.crash)
  ultimately show ?thesis by (fastforce intro: task_run.intros)
qed

text \<open>
  C1: an accepted job is never lost. Take a supervisor that has booted with a readable database, and let SQLite's
  statements succeed, each boot open the database and the codec read back what it wrote. A job that is outstanding
  stays outstanding with the same payload, and stands in exactly one place, through any interleaving of submissions,
  the router's steps, reports of other jobs, deaths of workers, single disk writes and crashes of the supervisor
  between any two of these, until the job itself is completed by a report or because the router could not encode it.
  Fewer than 2^63 - 1 identifiers are drawn.
\<close>

theorem accepted_job_survives:
  assumes "codec_ok cd" and "booted (boot_ok cd) s0" and "task_run (disk_ok cd) (boot_ok cd) s0 ls s"
    and "outstanding (lk_queue s) i = Some job"
    and "task_run (disk_ok cd) (boot_ok cd) s ls' s'" and "KComplete i \<notin> set ls'"
  shows "outstanding (lk_queue s') i = Some job \<and>
    count_list (held_by (lk_router s') @ pending (lk_queue s') @ hm_keys (in_flight (lk_queue s'))) i = 1"
proof -
  have "kept cd s0" using assms(2) kept_booted(1) by (auto simp: booted_def)
  with kept_run[OF assms(3,1)] have s: "kept cd s" by blast
  have "outstanding (lk_queue s') i = Some job" by (rule kept_outstanding[OF assms(5,1) s assms(4,6)])
  moreover have "queue_inv s'" using kept_run[OF assms(5,1) s] by (simp add: kept_def)
  ultimately show ?thesis using outstanding_place[of s' i] by simp
qed

theorem accepted_job_survives_witness:
  "\<exists>s'. task_run (disk_ok demo_codec) (boot_ok demo_codec) demo_accepted
       [KTake, KSent 1 ''md-ingest-worker'', KMark 1, KCrash] s' \<and>
     outstanding (lk_queue s') 1 = Some demo_job \<and>
     count_list (held_by (lk_router s') @ pending (lk_queue s') @ hm_keys (in_flight (lk_queue s'))) 1 = 1"
proof -
  obtain s' where run: "task_run (disk_ok demo_codec) (boot_ok demo_codec) demo_accepted
       [KTake, KSent 1 ''md-ingest-worker'', KMark 1, KCrash] s'"
    using demo_crash_run[of "boot_ok demo_codec", OF demo_boot_ok] by blast
  have "outstanding (lk_queue demo_accepted) 1 = Some demo_job" using demo_submit_boot by auto
  from accepted_job_survives[OF demo_codec_ok demo_booted_ok[of "boot_ok demo_codec", OF demo_boot_ok] demo_accept_run this run] run
  show ?thesis by auto
qed

text \<open>
  C2: whatever SQLite answers, to the calls and to the boots, and even when a boot cannot open the database, each
  outstanding job stands in exactly one place, once: waiting in \<open>pending\<close>, in the router's hands (before or after the
  dispatch, until \<open>mark_assigned\<close>), or in flight at a worker. This holds after every step of a supervisor that has
  booted on any table whose identifiers are distinct and below 2^63 - 1, the lock taken and the disk written in
  separate steps.
\<close>

theorem outstanding_job_in_one_place:
  assumes "booted (\<lambda>_. True) s0" and "task_run (\<lambda>_. True) (\<lambda>_. True) s0 ls s"
    and "outstanding (lk_queue s) i \<noteq> None"
  shows "count_list (held_by (lk_router s) @ pending (lk_queue s) @ hm_keys (in_flight (lk_queue s))) i = 1"
proof -
  have "queue_inv s0" using assms(1) queue_inv_boot by (auto simp: booted_def)
  then show ?thesis using task_run_inv[OF assms(2)] outstanding_place[OF _ assms(3)] by blast
qed

theorem outstanding_job_in_one_place_witness:
  "count_list (held_by (lk_router demo_accepted) @ pending (lk_queue demo_accepted) @
     hm_keys (in_flight (lk_queue demo_accepted))) 1 = 1"
proof (rule outstanding_job_in_one_place)
  show "booted (\<lambda>_. True) demo_booted" by (rule demo_booted_ok) simp
  show "task_run (\<lambda>_. True) (\<lambda>_. True) demo_booted [KDraw 1, KSubmit 1] demo_accepted" by (rule demo_accept_run) simp
  show "outstanding (lk_queue demo_accepted) 1 \<noteq> None" using demo_submit_boot by auto
qed

section \<open>A worker that dies before its job is marked\<close>

text \<open>
  The placement does not say that the worker lives. One that dies after the dispatch and before \<open>mark_assigned\<close> has
  nothing in flight when it is requeued; the mark then puts the job in flight at the dead worker, where it stays until
  a report for it, the next death of a worker of that name, or a crash.
\<close>

lemma exit_before_mark_strands:
  assumes "lk_router s = RSent i w" and "task_run E B s [KWorkerExit w, KMark i] s'"
  shows "hm_get (in_flight (lk_queue s')) i = Some w"
proof -
  obtain s1 where "task_step E B s (KWorkerExit w) s1" and mark: "task_step E B s1 (KMark i) s'"
    using assms(2) by (auto elim!: task_run_elims)
  from this(1) assms(1) have "lk_router s1 = RSent i w" by (auto elim: task_step.cases)
  with mark show ?thesis by (auto elim!: task_step.cases simp: mem_mark_assigned_def)
qed

lemma in_flight_stays:
  assumes "task_step E B s l s'" and "queue_inv s" and i: "hm_get (in_flight (lk_queue s)) i = Some w"
    and l: "l \<notin> {KComplete i, KWorkerExit w, KCrash}"
  shows "hm_get (in_flight (lk_queue s')) i = Some w"
proof -
  have "i \<in> set (hm_keys (in_flight (lk_queue s)))" using i hm_get_iff_keys[of "in_flight (lk_queue s)" i] by simp
  then have free: "i \<notin> set (held_by (lk_router s))" using assms(2) by (auto simp: queue_inv_def core_def placed_def)
  have wf: "hm_wf (in_flight (lk_queue s))" using assms(2) by (simp add: queue_inv_def core_def jq_wf_def)
  show ?thesis
    using assms(1)
  proof (cases rule: task_step.cases)
    case (submit j env job c q)
    then show ?thesis using i by (auto elim!: submit_cases)
  next
    case (refuse j env job e c q)
    then show ?thesis using i by (auto elim!: submit_cases)
  next
    case (take_job r q)
    then show ?thesis using i by (auto simp: jq_next_pending_def split: list.splits)
  next
    case (encode_fails j job render read e ws q)
    then show ?thesis using i l by (simp add: mem_complete_frame)
  next
    case (bounce j job render read line)
    then show ?thesis using i free by (simp add: mem_return_pending_def)
  next
    case (mark j w')
    then show ?thesis using i free by (simp add: mem_mark_assigned_def)
  next
    case (complete j out ws q)
    then show ?thesis using i l by (simp add: mem_complete_frame)
  next
    case (exits w' ws q)
    then have "w' \<noteq> w" using l by simp
    with exits i show ?thesis
      by (auto simp: mem_requeue_worker_def fold_requeue_one_in_flight worker_jobs_iff[OF wf])
  qed (use i l in simp_all)
qed

end
