(* ===== verification/Topics.thy ===== *)
theory Topics
  imports Mneme_Prelude
begin

text \<open>
  Topics and topic patterns of the event bus (\<open>livebus/src/bus.rs\<close>): validation, wildcard matching, and
  the declarative meaning of the wildcards that the matcher is proved to implement.
\<close>

section \<open>Errors\<close>

datatype LivebusError =
    Bind string
  | LbIo string
  | LbJson string
  | InvalidTopic string
  | SubscriberEvicted string string
  | BusClosed
  | Http string
  | FrameTooLarge usize usize
  | Internal string

type_synonym 'a lb_result = "LivebusError + 'a"

section \<open>Validation\<close>

text \<open>
  \<open>char::is_control\<close> (the code points below 32 and from 127 to 159) or a space, on the bytes of a UTF-8
  string: the code points from 128 to 159 are the byte 0xC2 followed by one from 0x80 to 0x9F.
\<close>

fun has_control_or_space :: "string \<Rightarrow> bool" where
  "has_control_or_space [] = False"
| "has_control_or_space (c # cs) =
     (let n = (of_char c :: nat) in
      n < 32 \<or> n = 127 \<or> n = 32 \<or>
      (n = 0xC2 \<and> (case cs of [] \<Rightarrow> False | d # _ \<Rightarrow> 0x80 \<le> (of_char d :: nat) \<and> (of_char d :: nat) \<le> 0x9F)) \<or>
      has_control_or_space cs)"

fun check_segments :: "string \<Rightarrow> string list \<Rightarrow> unit lb_result" where
  "check_segments topic [] = Inr ()"
| "check_segments topic (seg # segs) =
     (if seg = [] then Inl (InvalidTopic (''topic '' @ quoted topic @ '' contains empty segment''))
      else if has_control_or_space seg
      then Inl (InvalidTopic (''topic '' @ quoted topic @ '' contains control or whitespace character''))
      else check_segments topic segs)"

definition validate_topic :: "string \<Rightarrow> unit lb_result" where
  "validate_topic topic =
     (if topic = [] then Inl (InvalidTopic ''topic is empty'')
      else check_segments topic (split_on (CHR ''.'') topic))"

definition is_concrete_topic :: "string \<Rightarrow> bool" where
  "is_concrete_topic topic = (\<not> list_ex (\<lambda>s. s = ''*'' \<or> s = ''#'') (split_on (CHR ''.'') topic))"

section \<open>Matching\<close>

text \<open>The loop over the zipped segments; it stops where the shorter list ends.\<close>

fun zip_match :: "string list \<Rightarrow> string list \<Rightarrow> bool" where
  "zip_match (p # ps) (t # ts) = (if p \<noteq> ''*'' \<and> p \<noteq> t then False else zip_match ps ts)"
| "zip_match _ _ = True"

definition topic_matches :: "string \<Rightarrow> string \<Rightarrow> bool" where
  "topic_matches pattern topic =
     (let pat_segs = split_on (CHR ''.'') pattern;
          top_segs = split_on (CHR ''.'') topic
      in if pat_segs \<noteq> [] \<and> last pat_segs = ''#'' \<and> length pat_segs \<ge> 2 then
           (let prefix = butlast pat_segs in
            if length top_segs < length prefix + 1 then False else zip_match prefix top_segs)
         else if pat_segs \<noteq> [] \<and> last pat_segs = ''#'' \<and> length pat_segs = 1 then
           top_segs \<noteq> [] \<and> topic \<noteq> []
         else if length pat_segs \<noteq> length top_segs then False
         else zip_match pat_segs top_segs)"

definition topic_matches_any :: "string list \<Rightarrow> string \<Rightarrow> bool" where
  "topic_matches_any patterns topic = list_ex (\<lambda>p. topic_matches p topic) patterns"

section \<open>What the wildcards mean\<close>

text \<open>
  A star stands for one segment, a final hash for one or more segments, anything else for itself.
\<close>

inductive seg_match :: "string list \<Rightarrow> string list \<Rightarrow> bool" where
  match_end: "seg_match [] []"
| match_star: "seg_match ps ts \<Longrightarrow> seg_match (''*'' # ps) (t # ts)"
| match_same: "seg_match ps ts \<Longrightarrow> seg_match (p # ps) (p # ts)"
| match_hash: "ts \<noteq> [] \<Longrightarrow> seg_match [''#''] ts"

inductive_simps seg_match_Nil [simp]: "seg_match [] ts"
inductive_simps seg_match_Nil2 [simp]: "seg_match ps []"
inductive_simps seg_match_Cons: "seg_match (p # ps) ts"

lemma seg_match_no_hash:
  "ps = [] \<or> last ps \<noteq> ''#'' \<Longrightarrow> seg_match ps ts \<longleftrightarrow> length ps = length ts \<and> zip_match ps ts"
proof (induction ps ts rule: zip_match.induct)
  case (1 p ps t ts)
  then show ?case by (cases ps) (auto simp: seg_match_Cons split: if_splits)
qed (auto simp: seg_match_Cons)

lemma seg_match_hash:
  "seg_match (ps @ [''#'']) ts \<longleftrightarrow> length ps < length ts \<and> zip_match ps ts"
proof (induction ps arbitrary: ts)
  case Nil
  then show ?case by (cases ts) (auto simp: seg_match_Cons)
next
  case (Cons p ps)
  then show ?case by (cases ts) (auto simp: seg_match_Cons[of p])
qed

lemma split_on_Nil_iff: "split_on c s = [[]] \<longleftrightarrow> s = []"
  by (cases s) (auto split: list.splits)

lemma topic_matches_seg_match:
  assumes "topic \<noteq> []"
  shows "topic_matches pattern topic \<longleftrightarrow>
    seg_match (split_on (CHR ''.'') pattern) (split_on (CHR ''.'') topic)"
proof (cases "last (split_on (CHR ''.'') pattern) = ''#''")
  case True
  let ?ps = "split_on (CHR ''.'') pattern"
  have ps: "?ps = butlast ?ps @ [''#'']"
    using True append_butlast_last_id[of ?ps] by simp
  have len: "length ?ps = Suc (length (butlast ?ps))" by (subst ps) simp
  have "seg_match ?ps ts \<longleftrightarrow> length (butlast ?ps) < length ts \<and> zip_match (butlast ?ps) ts" for ts
    by (subst ps) (rule seg_match_hash)
  with True assms len show ?thesis
    by (cases "butlast ?ps") (auto simp: topic_matches_def Let_def)
next
  case False
  then show ?thesis by (simp add: topic_matches_def Let_def seg_match_no_hash)
qed

lemma split_on_inj [simp]: "split_on c s = split_on c t \<longleftrightarrow> s = t"
  by (metis join_split)

lemma seg_match_concrete:
  "\<not> list_ex (\<lambda>s. s = ''*'' \<or> s = ''#'') ps \<Longrightarrow> seg_match ps ts \<longleftrightarrow> ts = ps"
  by (induction ps arbitrary: ts) (auto simp: seg_match_Cons)

text \<open>
  C12: \<open>topic_matches\<close> gives the wildcards their documented meaning on every non-empty topic: a star is
  exactly one segment, a final hash one or more; so a pattern without wildcards matches its own topic
  only.
\<close>

theorem topic_matches_correct:
  assumes "topic \<noteq> []"
  shows "(topic_matches pattern topic \<longleftrightarrow>
            seg_match (split_on (CHR ''.'') pattern) (split_on (CHR ''.'') topic)) \<and>
         (is_concrete_topic pattern \<longrightarrow> topic_matches pattern topic = (topic = pattern))"
  using topic_matches_seg_match[OF assms, of pattern]
    seg_match_concrete[of "split_on (CHR ''.'') pattern" "split_on (CHR ''.'') topic"]
  by (auto simp: is_concrete_topic_def)

theorem topic_matches_correct_witness:
  "seg_match [''project'', ''*'', ''file_changed''] [''project'', ''abc'', ''file_changed''] \<and>
   topic_matches ''system.health'' ''system.health''"
proof -
  have "topic_matches ''project.*.file_changed'' ''project.abc.file_changed''"
    and "is_concrete_topic ''system.health''" by code_simp+
  then show ?thesis
    using topic_matches_correct[of "''project.abc.file_changed''" "''project.*.file_changed''"]
      topic_matches_correct[of "''system.health''" "''system.health''"]
    by auto
qed

lemma check_segments_ok:
  "check_segments topic segs = Inr () \<longleftrightarrow> (\<forall>s \<in> set segs. s \<noteq> [] \<and> \<not> has_control_or_space s)"
  by (induction topic segs rule: check_segments.induct) auto

lemma check_segments_error: "check_segments topic segs = Inl e \<Longrightarrow> \<exists>msg. e = InvalidTopic msg"
  by (induction topic segs rule: check_segments.induct) (auto split: if_splits)

text \<open>
  \<open>validate_topic\<close> accepts exactly the topics all of whose dot-separated segments are non-empty and
  free of control characters and spaces, refuses every other with \<open>InvalidTopic\<close>, and an accepted
  concrete topic is matched by itself, by the bare hash, and by no other concrete topic.
\<close>

theorem validate_topic_correct:
  "(validate_topic topic = Inr () \<longleftrightarrow>
      (\<forall>s \<in> set (split_on (CHR ''.'') topic). s \<noteq> [] \<and> \<not> has_control_or_space s)) \<and>
   (validate_topic topic = Inr () \<or> (\<exists>msg. validate_topic topic = Inl (InvalidTopic msg))) \<and>
   (validate_topic topic = Inr () \<longrightarrow> topic_matches ''#'' topic \<and>
      (\<forall>p. is_concrete_topic p \<longrightarrow> topic_matches p topic = (p = topic)))"
proof -
  have ok: "validate_topic topic = Inr () \<longleftrightarrow>
      (\<forall>s \<in> set (split_on (CHR ''.'') topic). s \<noteq> [] \<and> \<not> has_control_or_space s)"
    by (cases "topic = []") (simp_all add: validate_topic_def check_segments_ok)
  have err: "validate_topic topic = Inr () \<or> (\<exists>msg. validate_topic topic = Inl (InvalidTopic msg))"
    using check_segments_error[of topic "split_on (CHR ''.'') topic"]
    by (cases "check_segments topic (split_on (CHR ''.'') topic)") (auto simp: validate_topic_def)
  have "topic_matches ''#'' topic \<and> (\<forall>p. is_concrete_topic p \<longrightarrow> topic_matches p topic = (p = topic))"
    if v: "validate_topic topic = Inr ()"
  proof -
    have ne: "topic \<noteq> []" using v by (auto simp: validate_topic_def)
    note m = topic_matches_seg_match[OF ne]
    have "seg_match [''#''] (split_on (CHR ''.'') topic)" by (rule match_hash) simp
    then show ?thesis
      using m by (auto simp: is_concrete_topic_def seg_match_concrete)
  qed
  with ok err show ?thesis by blast
qed

theorem validate_topic_correct_witness:
  "validate_topic ''project.abc.test_status'' = Inr () \<and>
   topic_matches ''#'' ''project.abc.test_status'' \<and> validate_topic ''a..b'' \<noteq> Inr ()"
proof -
  have "validate_topic ''project.abc.test_status'' = Inr ()" "validate_topic ''a..b'' \<noteq> Inr ()" by code_simp+
  then show ?thesis using validate_topic_correct[of "''project.abc.test_status''"] by blast
qed

end
