(* ===== verification/Bus_Event.thy ===== *)
theory Bus_Event
  imports Jobs Topics
begin

text \<open>
  The event envelope and the typed payloads of the bus (\<open>livebus/src/event.rs\<close>) and the bus itself
  (\<open>livebus/src/bus.rs\<close>). The broadcast channel belongs to the \<open>async-broadcast\<close> crate: its answer to a
  publication is an argument. The serializer \<open>serde_json::to_value\<close> is an argument too.
\<close>

section \<open>Payloads\<close>

type_synonym timestamp = int

datatype FileChangeKind = FcCreated | FcModified | FcDeleted | FcRenamed

record FileChanged =
  fc_path :: string
  fc_change_kind :: FileChangeKind
  fc_bytes :: "u64 option"
  fc_content_hash :: "string option"

datatype TestState = TsRunning | TsPassed | TsFailed | TsErrored | TsSkipped

record TestStatus =
  ts_suite :: string
  ts_status :: TestState
  ts_passed :: "u32 option"
  ts_failed :: "u32 option"
  ts_duration_ms :: "u64 option"
  ts_failing_tests :: "string list option"

datatype DriftSeverity = DsInfo | DsLow | DsMedium | DsHigh | DsCritical

record DriftFinding =
  df_finding_id :: string
  df_severity :: DriftSeverity
  df_category :: string
  df_summary :: string
  df_affected_files :: "string list"
  df_suggested_fix :: "string option"

record SubagentEvent =
  sa_agent_name :: string
  sa_phase :: string
  sa_message :: "string option"
  sa_tokens_used :: "u64 option"

record CompactionDetected =
  cd_session_id :: string
  cd_trigger :: string
  cd_previous_token_count :: u64
  cd_current_token_count :: u64
  cd_recovery_handle :: "string option"

record StepAdvanced =
  sd_session_id :: string
  sd_step_index :: u32
  sd_step_label :: string
  sd_roadmap_id :: "string option"

record HealthUpdate =
  hu_component :: string
  hu_status :: string
  hu_uptime_seconds :: u64
  hu_metrics :: "json option"

record DegradedMode =
  dm_reason :: string
  dm_subscriber_id :: "string option"
  dm_dropped_count :: "u64 option"

datatype EventPayload =
    PFileChanged FileChanged
  | PTestStatus TestStatus
  | PDriftFinding DriftFinding
  | PSubagentEvent SubagentEvent
  | PCompactionDetected CompactionDetected
  | PStepAdvanced StepAdvanced
  | PHealthUpdate HealthUpdate
  | PDegradedMode DegradedMode
  | PRaw json

record Event =
  ev_topic :: string
  ev_timestamp :: timestamp
  ev_session_id :: "string option"
  ev_project_hash :: "string option"
  ev_payload :: json

definition from_typed ::
  "(EventPayload \<Rightarrow> json option) \<Rightarrow> timestamp \<Rightarrow> string \<Rightarrow> string option \<Rightarrow> string option \<Rightarrow> EventPayload \<Rightarrow> Event" where
  "from_typed to_value now topic session project p =
     \<lparr>ev_topic = topic, ev_timestamp = now, ev_session_id = session, ev_project_hash = project,
      ev_payload = (case to_value p of Some v \<Rightarrow> v | None \<Rightarrow> JNull)\<rparr>"

definition from_json ::
  "timestamp \<Rightarrow> string \<Rightarrow> string option \<Rightarrow> string option \<Rightarrow> json \<Rightarrow> Event" where
  "from_json now topic session project p =
     \<lparr>ev_topic = topic, ev_timestamp = now, ev_session_id = session, ev_project_hash = project,
      ev_payload = p\<rparr>"

section \<open>The bus\<close>

record BusConfig =
  channel_capacity :: usize

definition BusConfig_default :: BusConfig where
  "BusConfig_default = \<lparr>channel_capacity = 4096\<rparr>"

text \<open>
  The counters, and the events handed to the channel in order (with its capacity). \<open>Ok(None)\<close>,
  \<open>Ok(Some(_))\<close> and the three errors of \<open>try_broadcast\<close>.
\<close>

record EventBus =
  bus_capacity :: usize
  bus_started_at :: instant
  bus_published :: u64
  bus_dropped :: u64
  bus_sent :: "Event list"

datatype broadcast_answer = SentOk | SentEvicted | SendFull | SendClosed | SendInactive

definition with_config :: "instant \<Rightarrow> BusConfig \<Rightarrow> EventBus" where
  "with_config now cfg =
     \<lparr>bus_capacity = channel_capacity cfg, bus_started_at = now, bus_published = 0, bus_dropped = 0,
      bus_sent = []\<rparr>"

definition EventBus_new :: "instant \<Rightarrow> EventBus" where
  "EventBus_new now = with_config now BusConfig_default"

definition publish :: "broadcast_answer \<Rightarrow> Event \<Rightarrow> EventBus \<Rightarrow> unit lb_result \<times> EventBus" where
  "publish answer ev b =
     (case answer of
        SentOk \<Rightarrow> (Inr (), b\<lparr>bus_published := bus_published b + 1, bus_sent := bus_sent b @ [ev]\<rparr>)
      | SentEvicted \<Rightarrow>
          (Inr (), b\<lparr>bus_published := bus_published b + 1, bus_dropped := bus_dropped b + 1,
                     bus_sent := bus_sent b @ [ev]\<rparr>)
      | SendFull \<Rightarrow> (Inr (), b\<lparr>bus_dropped := bus_dropped b + 1\<rparr>)
      | SendClosed \<Rightarrow> (Inl BusClosed, b)
      | SendInactive \<Rightarrow> (Inr (), b\<lparr>bus_published := bus_published b + 1\<rparr>))"

definition uptime_seconds :: "instant \<Rightarrow> EventBus \<Rightarrow> u64" where
  "uptime_seconds now b = of_nat (as_secs (duration_since now (bus_started_at b)))"

definition record_drop :: "EventBus \<Rightarrow> EventBus" where
  "record_drop b = b\<lparr>bus_dropped := bus_dropped b + 1\<rparr>"

end
