(* ===== verification/Subscribers.thy ===== *)
theory Subscribers
  imports Bus_Event
begin

text \<open>
  The subscriber registry of the bus (\<open>livebus/src/subscriber.rs\<close>): registration, fan-out of an event to
  the matching subscribers, and eviction of slow consumers. The bounded channel to a transport task is
  tokio's: \<open>try_send\<close> on a channel is an argument, and \<open>channel_ok\<close> states the documented behaviour that
  the properties rely on. The registry lock is held or the snapshot taken at once, so an operation is
  one state transformer; a subscriber's atomics are shared through its \<open>Arc\<close>, so an update through the
  snapshot is an update of the registry entry.
\<close>

section \<open>State\<close>

definition BACKPRESSURE_WINDOW :: nat where
  "BACKPRESSURE_WINDOW = 50"

record SubscriberStats =
  active_subscribers :: usize
  evicted_subscribers :: u64

record 'ch Subscriber =
  sub_id :: string
  sub_patterns :: "string list"
  sub_tx :: 'ch
  sub_lag :: u64
  sub_delivered :: u64

record 'ch SubscriberManager =
  subscribers :: "(string, 'ch Subscriber) hmap"
  sm_bus :: EventBus
  next_id :: u64
  evicted_count :: u64

datatype send_answer = Sent | ChanFull | ChanClosed

type_synonym 'ch try_send = "'ch \<Rightarrow> Event \<Rightarrow> send_answer \<times> 'ch"

text \<open>What the calls find around them: the channel, the clock, the serializer and the bus channel.\<close>

record 'ch senv =
  se_try_send :: "'ch try_send"
  se_now :: timestamp
  se_to_value :: "EventPayload \<Rightarrow> json option"
  se_broadcast :: "EventBus \<Rightarrow> Event \<Rightarrow> broadcast_answer"

section \<open>Operations\<close>

definition Subscriber_new :: "string \<Rightarrow> string list \<Rightarrow> 'ch \<Rightarrow> 'ch Subscriber" where
  "Subscriber_new sid patterns tx =
     \<lparr>sub_id = sid, sub_patterns = patterns, sub_tx = tx, sub_lag = 0, sub_delivered = 0\<rparr>"

definition sub_matches :: "'ch Subscriber \<Rightarrow> string \<Rightarrow> bool" where
  "sub_matches s topic = topic_matches_any (sub_patterns s) topic"

definition SubscriberManager_new :: "EventBus \<Rightarrow> 'ch SubscriberManager" where
  "SubscriberManager_new b = \<lparr>subscribers = [], sm_bus = b, next_id = 1, evicted_count = 0\<rparr>"

fun validate_all :: "string list \<Rightarrow> unit lb_result" where
  "validate_all [] = Inr ()"
| "validate_all (p # ps) = (case validate_topic p of Inl e \<Rightarrow> Inl e | Inr _ \<Rightarrow> validate_all ps)"

text \<open>\<open>channel\<close> makes a bounded channel of the given size.\<close>

definition register ::
  "(nat \<Rightarrow> 'ch) \<Rightarrow> string list \<Rightarrow> 'ch SubscriberManager \<Rightarrow> string lb_result \<times> 'ch SubscriberManager" where
  "register channel patterns m =
     (case validate_all patterns of
        Inl e \<Rightarrow> (Inl e, m)
      | Inr _ \<Rightarrow>
          let n = next_id m;
              sid = ''sub-'' @ show_nat (unat n)
          in (Inr sid,
              m\<lparr>next_id := n + 1,
                subscribers := hm_insert sid (Subscriber_new sid patterns (channel BACKPRESSURE_WINDOW))
                  (subscribers m)\<rparr>))"

definition update_patterns ::
  "string \<Rightarrow> string list \<Rightarrow> 'ch SubscriberManager \<Rightarrow> unit lb_result \<times> 'ch SubscriberManager" where
  "update_patterns sid patterns m =
     (case validate_all patterns of
        Inl e \<Rightarrow> (Inl e, m)
      | Inr _ \<Rightarrow>
          (case hm_get (subscribers m) sid of
             None \<Rightarrow> (Inl (SubscriberEvicted sid ''subscriber not found''), m)
           | Some existing \<Rightarrow>
               (Inr (), m\<lparr>subscribers :=
                  hm_insert sid (existing\<lparr>sub_patterns := patterns\<rparr>) (subscribers m)\<rparr>)))"

definition unregister :: "string \<Rightarrow> 'ch SubscriberManager \<Rightarrow> 'ch SubscriberManager" where
  "unregister sid m = m\<lparr>subscribers := hm_remove sid (subscribers m)\<rparr>"

text \<open>
  The loop over the snapshot: the updated entry, and the reason to evict it if there is one. With the
  recursion guard set nobody is evicted.
\<close>

definition offer :: "'ch try_send \<Rightarrow> bool \<Rightarrow> Event \<Rightarrow> 'ch Subscriber \<Rightarrow> 'ch Subscriber \<times> string option" where
  "offer try_send guard ev s =
     (if \<not> sub_matches s (ev_topic ev) then (s, None)
      else case try_send (sub_tx s) ev of
        (Sent, tx') \<Rightarrow> (s\<lparr>sub_tx := tx', sub_lag := 0, sub_delivered := sub_delivered s + 1\<rparr>, None)
      | (ChanFull, tx') \<Rightarrow>
          (let lag = sub_lag s + 1 in
           (s\<lparr>sub_tx := tx', sub_lag := lag\<rparr>,
            if \<not> guard \<and> unat lag \<ge> BACKPRESSURE_WINDOW
            then Some (''lag '' @ show_nat (unat lag) @ '' >= backpressure window '' @ show_nat BACKPRESSURE_WINDOW)
            else None))
      | (ChanClosed, tx') \<Rightarrow> (s\<lparr>sub_tx := tx'\<rparr>, if guard then None else Some ''channel closed''))"

fun offer_all ::
  "'ch try_send \<Rightarrow> bool \<Rightarrow> Event \<Rightarrow> (string, 'ch Subscriber) hmap \<Rightarrow>
   (string, 'ch Subscriber) hmap \<times> (string \<times> string) list" where
  "offer_all try_send guard ev [] = ([], [])"
| "offer_all try_send guard ev ((k, s) # subs) =
     (case offer try_send guard ev s of
        (s', r) \<Rightarrow>
          (case offer_all try_send guard ev subs of
             (subs', rs) \<Rightarrow>
               ((k, s') # subs', (case r of None \<Rightarrow> rs | Some reason \<Rightarrow> (sub_id s, reason) # rs))))"

text \<open>\<open>dispatch_internal\<close> with the guard set: its list of evictions is empty.\<close>

definition dispatch_guarded :: "'ch senv \<Rightarrow> Event \<Rightarrow> 'ch SubscriberManager \<Rightarrow> 'ch SubscriberManager" where
  "dispatch_guarded env ev m =
     m\<lparr>subscribers := fst (offer_all (se_try_send env) True ev (subscribers m))\<rparr>"

definition degraded_event :: "'ch senv \<Rightarrow> string \<Rightarrow> string \<Rightarrow> u64 \<Rightarrow> Event" where
  "degraded_event env sid reason n =
     from_typed (se_to_value env) (se_now env) ''system.degraded_mode'' None None
       (PDegradedMode \<lparr>dm_reason = reason, dm_subscriber_id = Some sid, dm_dropped_count = Some n\<rparr>)"

definition evict :: "'ch senv \<Rightarrow> string \<Rightarrow> string \<Rightarrow> 'ch SubscriberManager \<Rightarrow> 'ch SubscriberManager" where
  "evict env sid reason m =
     (case hm_get (subscribers m) sid of
        None \<Rightarrow> m
      | Some _ \<Rightarrow>
          let m1 = m\<lparr>subscribers := hm_remove sid (subscribers m),
                     evicted_count := evicted_count m + 1,
                     sm_bus := record_drop (sm_bus m)\<rparr>;
              ev = degraded_event env sid reason (evicted_count m1);
              m2 = m1\<lparr>sm_bus := snd (publish (se_broadcast env (sm_bus m1) ev) ev (sm_bus m1))\<rparr>
          in dispatch_guarded env ev m2)"

fun evict_all ::
  "'ch senv \<Rightarrow> (string \<times> string) list \<Rightarrow> 'ch SubscriberManager \<Rightarrow> 'ch SubscriberManager" where
  "evict_all env [] m = m"
| "evict_all env ((sid, reason) # es) m = evict_all env es (evict env sid reason m)"

definition dispatch_internal ::
  "'ch senv \<Rightarrow> Event \<Rightarrow> bool \<Rightarrow> 'ch SubscriberManager \<Rightarrow> 'ch SubscriberManager" where
  "dispatch_internal env ev guard m =
     (case offer_all (se_try_send env) guard ev (subscribers m) of
        (subs, to_evict) \<Rightarrow> evict_all env to_evict (m\<lparr>subscribers := subs\<rparr>))"

definition dispatch :: "'ch senv \<Rightarrow> Event \<Rightarrow> 'ch SubscriberManager \<Rightarrow> 'ch SubscriberManager" where
  "dispatch env ev m =
     (case offer_all (se_try_send env) False ev (subscribers m) of
        (subs, to_evict) \<Rightarrow> evict_all env to_evict (m\<lparr>subscribers := subs\<rparr>))"

definition stats :: "'ch SubscriberManager \<Rightarrow> SubscriberStats" where
  "stats m = \<lparr>active_subscribers = length (subscribers m), evicted_subscribers = evicted_count m\<rparr>"

section \<open>The guard\<close>

lemma offer_guarded [simp]: "snd (offer ts True ev s) = None"
  by (simp add: offer_def Let_def split: prod.split send_answer.split)

lemma offer_all_guarded [simp]: "snd (offer_all ts True ev subs) = []"
proof (induction subs)
  case (Cons p subs)
  obtain k s where "p = (k, s)" by force
  moreover obtain s' where "offer ts True ev s = (s', None)" by (metis offer_guarded prod.collapse)
  ultimately show ?case using Cons by (auto split: prod.split)
qed simp

text \<open>So the call inside \<open>evict\<close> is the general routine, and it does not recurse.\<close>

lemma dispatch_internal_guarded: "dispatch_internal env ev True m = dispatch_guarded env ev m"
  by (simp add: dispatch_internal_def dispatch_guarded_def split: prod.split)
    (metis evict_all.simps(1) offer_all_guarded snd_conv fst_conv)

section \<open>Registered identifiers\<close>

text \<open>Every entry is filed under its own identifier, which the counter has already passed.\<close>

definition sm_wf :: "'ch SubscriberManager \<Rightarrow> bool" where
  "sm_wf m \<longleftrightarrow> hm_wf (subscribers m) \<and>
     (\<forall>k s. hm_get (subscribers m) k = Some s \<longrightarrow> sub_id s = k) \<and>
     (\<forall>k \<in> set (hm_keys (subscribers m)). \<exists>n. n < unat (next_id m) \<and> k = ''sub-'' @ show_nat n)"

lemma offer_id [simp]: "sub_id (fst (offer ts g ev s)) = sub_id s" "sub_patterns (fst (offer ts g ev s)) = sub_patterns s"
  by (simp_all add: offer_def Let_def split: prod.split send_answer.split)

lemma offer_all_map: "fst (offer_all ts g ev subs) = map (\<lambda>(k, s). (k, fst (offer ts g ev s))) subs"
  by (induction ts g ev subs rule: offer_all.induct) (auto split: prod.splits)

lemma offer_all_get:
  "hm_get (fst (offer_all ts g ev subs)) k = map_option (\<lambda>s. fst (offer ts g ev s)) (hm_get subs k)"
  by (simp add: offer_all_map map_of_map)

lemma offer_all_keys [simp]: "hm_keys (fst (offer_all ts g ev subs)) = hm_keys subs"
  by (induction ts g ev subs rule: offer_all.induct) (auto simp: hm_keys_def split: prod.splits)

lemma offer_all_evictions:
  "(i, reason) \<in> set (snd (offer_all ts g ev subs)) \<longleftrightarrow>
     (\<exists>k s. (k, s) \<in> set subs \<and> sub_id s = i \<and> snd (offer ts g ev s) = Some reason)"
  by (induction ts g ev subs rule: offer_all.induct)
    (fastforce split: prod.splits option.splits)+

lemma evict_frame:
  "subscribers (evict env sid reason m) =
     (if hm_get (subscribers m) sid = None then subscribers m
      else fst (offer_all (se_try_send env) True (degraded_event env sid reason (evicted_count m + 1))
             (hm_remove sid (subscribers m))))"
  "next_id (evict env sid reason m) = next_id m"
  "evicted_count (evict env sid reason m) =
     (if hm_get (subscribers m) sid = None then evicted_count m else evicted_count m + 1)"
  by (simp_all add: evict_def dispatch_guarded_def Let_def split: option.split)

definition subs_ok :: "nat \<Rightarrow> (string, 'ch Subscriber) hmap \<Rightarrow> bool" where
  "subs_ok n subs \<longleftrightarrow> hm_wf subs \<and> (\<forall>k s. hm_get subs k = Some s \<longrightarrow> sub_id s = k) \<and>
     (\<forall>k \<in> set (hm_keys subs). \<exists>j. j < n \<and> k = ''sub-'' @ show_nat j)"

lemma sm_wf_subs: "sm_wf m \<longleftrightarrow> subs_ok (unat (next_id m)) (subscribers m)"
  by (simp add: sm_wf_def subs_ok_def)

lemma subs_ok_offer_all: "subs_ok n subs \<Longrightarrow> subs_ok n (fst (offer_all ts g ev subs))"
  by (auto simp: subs_ok_def offer_all_get hm_wf_def)

lemma subs_ok_remove: "subs_ok n subs \<Longrightarrow> subs_ok n (hm_remove k subs)"
  by (auto simp: subs_ok_def split: if_splits)

lemma sm_wf_evict [wf_intros]: "sm_wf m \<Longrightarrow> sm_wf (evict env sid reason m)"
  by (simp add: sm_wf_subs evict_frame subs_ok_offer_all subs_ok_remove)

lemma sm_wf_evict_all [wf_intros]: "sm_wf m \<Longrightarrow> sm_wf (evict_all env es m)"
  by (induction env es m rule: evict_all.induct) (simp_all add: sm_wf_evict)

lemma sm_wf_dispatch [wf_intros]: "sm_wf m \<Longrightarrow> sm_wf (dispatch env ev m)"
proof -
  assume "sm_wf m"
  then have "sm_wf (m\<lparr>subscribers := fst (offer_all (se_try_send env) False ev (subscribers m))\<rparr>)"
    by (simp add: sm_wf_subs subs_ok_offer_all)
  then show ?thesis by (auto simp: dispatch_def sm_wf_evict_all split: prod.split)
qed

lemma sm_wf_unregister [wf_intros]: "sm_wf m \<Longrightarrow> sm_wf (unregister sid m)"
  by (simp add: sm_wf_subs unregister_def subs_ok_remove)

lemma sm_wf_update_patterns [wf_intros]: "sm_wf m \<Longrightarrow> sm_wf (snd (update_patterns sid ps m))"
  by (auto simp: sm_wf_def update_patterns_def hm_get_iff_keys[symmetric] split: sum.splits option.splits)

lemma sub_id_fresh:
  assumes "sm_wf m"
  shows "hm_get (subscribers m) (''sub-'' @ show_nat (unat (next_id m))) = None"
proof (rule ccontr)
  assume "\<not> ?thesis"
  then have "''sub-'' @ show_nat (unat (next_id m)) \<in> set (hm_keys (subscribers m))"
    using hm_get_iff_keys[of "subscribers m"] by blast
  with assms show False by (auto simp: sm_wf_def)
qed

lemma sm_wf_register [wf_intros]:
  assumes "sm_wf m" and "unat (next_id m) < 2 ^ 64 - 1"
  shows "sm_wf (snd (register channel ps m))"
proof -
  have "unat (next_id m + 1) = unat (next_id m) + 1"
    using assms(2) by (subst unat_word_ariths) simp
  with assms(1) show ?thesis
    by (auto simp: register_def Let_def sm_wf_def Subscriber_new_def less_Suc_eq split: sum.splits)
qed

section \<open>The channel\<close>

text \<open>
  The documented behaviour of a bounded channel that \<open>dispatch\<close> relies on: a send to a closed channel
  fails, a send to a channel with room appends, and a send to a full one fails and changes nothing.
\<close>

definition channel_ok :: "'ch try_send \<Rightarrow> ('ch \<Rightarrow> Event list) \<Rightarrow> ('ch \<Rightarrow> bool) \<Rightarrow> bool" where
  "channel_ok ts contents closed \<longleftrightarrow> (\<forall>ch ev.
     (closed ch \<longrightarrow> (\<exists>ch'. ts ch ev = (ChanClosed, ch') \<and> closed ch' \<and> contents ch' = contents ch)) \<and>
     (\<not> closed ch \<and> length (contents ch) < BACKPRESSURE_WINDOW \<longrightarrow>
        (\<exists>ch'. ts ch ev = (Sent, ch') \<and> \<not> closed ch' \<and> contents ch' = contents ch @ [ev])) \<and>
     (\<not> closed ch \<and> length (contents ch) \<ge> BACKPRESSURE_WINDOW \<longrightarrow>
        (\<exists>ch'. ts ch ev = (ChanFull, ch') \<and> \<not> closed ch' \<and> contents ch' = contents ch)))"

definition takes :: "('ch \<Rightarrow> Event list) \<Rightarrow> ('ch \<Rightarrow> bool) \<Rightarrow> string \<Rightarrow> 'ch Subscriber \<Rightarrow> bool" where
  "takes contents closed topic s \<longleftrightarrow> sub_matches s topic \<and> \<not> closed (sub_tx s) \<and>
     length (contents (sub_tx s)) < BACKPRESSURE_WINDOW"

definition given_up :: "('ch \<Rightarrow> Event list) \<Rightarrow> ('ch \<Rightarrow> bool) \<Rightarrow> string \<Rightarrow> 'ch Subscriber \<Rightarrow> bool" where
  "given_up contents closed topic s \<longleftrightarrow> sub_matches s topic \<and>
     (closed (sub_tx s) \<or>
      length (contents (sub_tx s)) \<ge> BACKPRESSURE_WINDOW \<and> unat (sub_lag s + 1) \<ge> BACKPRESSURE_WINDOW)"

lemma offer_effect:
  assumes "channel_ok ts contents closed"
  shows "contents (sub_tx (fst (offer ts g ev s))) =
           contents (sub_tx s) @ (if takes contents closed (ev_topic ev) s then [ev] else []) \<and>
         (snd (offer ts False ev s) \<noteq> None \<longleftrightarrow> given_up contents closed (ev_topic ev) s)"
proof -
  consider "closed (sub_tx s)" | "\<not> closed (sub_tx s)" "length (contents (sub_tx s)) < BACKPRESSURE_WINDOW"
    | "\<not> closed (sub_tx s)" "length (contents (sub_tx s)) \<ge> BACKPRESSURE_WINDOW" by fastforce
  then show ?thesis
  proof cases
    case 1
    with assms obtain ch' where "ts (sub_tx s) ev = (ChanClosed, ch')" "contents ch' = contents (sub_tx s)"
      unfolding channel_ok_def by blast
    with 1 show ?thesis by (auto simp: offer_def takes_def given_up_def)
  next
    case 2
    with assms obtain ch' where "ts (sub_tx s) ev = (Sent, ch')" "contents ch' = contents (sub_tx s) @ [ev]"
      unfolding channel_ok_def by blast
    with 2 show ?thesis by (auto simp: offer_def takes_def given_up_def)
  next
    case 3
    with assms obtain ch' where "ts (sub_tx s) ev = (ChanFull, ch')" "contents ch' = contents (sub_tx s)"
      unfolding channel_ok_def by blast
    with 3 show ?thesis by (auto simp: offer_def takes_def given_up_def Let_def)
  qed
qed

section \<open>Fan-out\<close>

text \<open>What the degraded-mode notices of later evictions may add to an entry.\<close>

definition notified :: "('ch \<Rightarrow> Event list) \<Rightarrow> 'ch Subscriber \<Rightarrow> 'ch Subscriber \<Rightarrow> bool" where
  "notified contents s s' \<longleftrightarrow> sub_patterns s' = sub_patterns s \<and>
     (\<exists>ns. contents (sub_tx s') = contents (sub_tx s) @ ns \<and>
        (\<forall>n \<in> set ns. ev_topic n = ''system.degraded_mode'' \<and> sub_matches s ''system.degraded_mode''))"

lemma notified_refl [simp]: "notified contents s s"
  by (simp add: notified_def)

lemma notified_trans: "notified contents s t \<Longrightarrow> notified contents t u \<Longrightarrow> notified contents s u"
  by (fastforce simp: notified_def sub_matches_def)

lemma notified_offer:
  assumes "channel_ok ts contents closed" and "ev_topic ev = ''system.degraded_mode''"
  shows "notified contents s (fst (offer ts True ev s))"
  using offer_effect[OF assms(1), of True ev s] assms(2)
  by (auto simp: notified_def takes_def)

lemma ev_topic_degraded [simp]: "ev_topic (degraded_event env sid reason n) = ''system.degraded_mode''"
  by (simp add: degraded_event_def from_typed_def)

lemma evict_all_entry:
  assumes "channel_ok (se_try_send env) contents closed"
  shows "(k \<in> fst ` set es \<longrightarrow> hm_get (subscribers (evict_all env es m)) k = None) \<and>
    (hm_get (subscribers m) k = None \<longrightarrow> hm_get (subscribers (evict_all env es m)) k = None) \<and>
    (\<forall>s. k \<notin> fst ` set es \<and> hm_get (subscribers m) k = Some s \<longrightarrow>
       (\<exists>s'. hm_get (subscribers (evict_all env es m)) k = Some s' \<and> notified contents s s'))"
proof (induction es arbitrary: m)
  case (Cons e es)
  obtain i r where e: "e = (i, r)" by force
  let ?m = "evict env i r m"
  have gone: "hm_get (subscribers ?m) i = None"
    by (simp add: evict_frame offer_all_get)
  have none: "hm_get (subscribers m) k = None \<Longrightarrow> hm_get (subscribers ?m) k = None"
    by (simp add: evict_frame offer_all_get)
  have stays: "\<exists>s'. hm_get (subscribers ?m) k = Some s' \<and> notified contents s s'"
    if "hm_get (subscribers m) k = Some s" "k \<noteq> i" for s
    using that by (auto simp: evict_frame offer_all_get intro: notified_offer[OF assms])
  have "\<exists>s'. hm_get (subscribers (evict_all env es ?m)) k = Some s' \<and> notified contents s s'"
    if s: "hm_get (subscribers m) k = Some s" "k \<noteq> i" "k \<notin> fst ` set es" for s
    using stays[OF s(1,2)] Cons.IH[of ?m] s(3) notified_trans by blast
  with Cons.IH[of ?m] gone none show ?case by (auto simp: e)
qed simp

text \<open>
  C11: an event reaches exactly the subscribers that want it. A subscriber is dropped by a dispatch if
  and only if it matches the topic and its channel is closed or has been full for the whole window;
  every other one keeps its patterns and its buffered events and gets the event, in order, exactly if
  it matches and has room. Beyond that it can only see degraded-mode notices, if it subscribed to them.
\<close>

theorem dispatch_delivers:
  assumes "sm_wf m" and "channel_ok (se_try_send env) contents closed" and "hm_get (subscribers m) k = Some s"
  shows "case hm_get (subscribers (dispatch env ev m)) k of
     None \<Rightarrow> sub_matches s (ev_topic ev) \<and>
       (closed (sub_tx s) \<or> length (contents (sub_tx s)) \<ge> 50 \<and> unat (sub_lag s + 1) \<ge> 50)
   | Some s' \<Rightarrow>
       \<not> (sub_matches s (ev_topic ev) \<and>
          (closed (sub_tx s) \<or> length (contents (sub_tx s)) \<ge> 50 \<and> unat (sub_lag s + 1) \<ge> 50)) \<and>
       sub_patterns s' = sub_patterns s \<and>
       (\<exists>ns. contents (sub_tx s') =
          contents (sub_tx s) @
          (if sub_matches s (ev_topic ev) \<and> \<not> closed (sub_tx s) \<and> length (contents (sub_tx s)) < 50
           then [ev] else []) @ ns \<and>
          (\<forall>n \<in> set ns. ev_topic n = ''system.degraded_mode'' \<and> sub_matches s ''system.degraded_mode''))"
proof -
  let ?ts = "se_try_send env"
  obtain subs es where oa: "offer_all ?ts False ev (subscribers m) = (subs, es)" by force
  have d: "dispatch env ev m = evict_all env es (m\<lparr>subscribers := subs\<rparr>)" by (simp add: dispatch_def oa)
  have mem: "(k, s) \<in> set (subscribers m)" using assms(3) by (rule map_of_SomeD)
  have ids: "sub_id s' = k'" if "(k', s') \<in> set (subscribers m)" for k' s'
    using assms(1) that by (auto simp: sm_wf_def hm_get_mem)
  have evi: "k \<in> fst ` set es \<longleftrightarrow> given_up contents closed (ev_topic ev) s"
  proof -
    have "k \<in> fst ` set es \<longleftrightarrow> (\<exists>r. (k, r) \<in> set (snd (offer_all ?ts False ev (subscribers m))))"
      by (force simp: oa)
    also have "\<dots> \<longleftrightarrow> (\<exists>r s'. (k, s') \<in> set (subscribers m) \<and> snd (offer ?ts False ev s') = Some r)"
      unfolding offer_all_evictions using ids by fastforce
    also have "\<dots> \<longleftrightarrow> snd (offer ?ts False ev s) \<noteq> None"
      using assms(1,3) by (auto simp: sm_wf_def simp flip: hm_get_mem)
    finally show ?thesis using offer_effect[OF assms(2), of False ev s] by simp
  qed
  have entry: "hm_get (subscribers (m\<lparr>subscribers := subs\<rparr>)) k = Some (fst (offer ?ts False ev s))"
    using offer_all_get[of ?ts False ev "subscribers m" k] assms(3) by (simp add: oa)
  note ea = evict_all_entry[OF assms(2), of k es "m\<lparr>subscribers := subs\<rparr>"]
  show ?thesis
  proof (cases "given_up contents closed (ev_topic ev) s")
    case True
    with ea evi have "hm_get (subscribers (dispatch env ev m)) k = None" by (simp add: d)
    with True show ?thesis by (simp add: given_up_def BACKPRESSURE_WINDOW_def)
  next
    case False
    with ea evi entry obtain s' where s': "hm_get (subscribers (dispatch env ev m)) k = Some s'"
      "notified contents (fst (offer ?ts False ev s)) s'" unfolding d by blast
    moreover have "sub_matches (fst (offer ?ts False ev s)) t = sub_matches s t" for t
      by (simp add: sub_matches_def)
    ultimately show ?thesis
      using False offer_effect[OF assms(2), of False ev s]
      by (auto simp: notified_def given_up_def takes_def BACKPRESSURE_WINDOW_def)
  qed
qed

text \<open>A concrete channel for the examples: the buffered events and whether the receiver is gone.\<close>

type_synonym demo_chan = "Event list \<times> bool"

definition demo_try_send :: "demo_chan try_send" where
  "demo_try_send ch ev =
     (if snd ch then (ChanClosed, ch)
      else if length (fst ch) < BACKPRESSURE_WINDOW then (Sent, (fst ch @ [ev], False))
      else (ChanFull, ch))"

lemma demo_channel_ok: "channel_ok demo_try_send fst snd"
  by (simp add: channel_ok_def demo_try_send_def)

definition demo_senv :: "demo_chan senv" where
  "demo_senv = \<lparr>se_try_send = demo_try_send, se_now = 0, se_to_value = (\<lambda>_. None), se_broadcast = (\<lambda>_ _. SentOk)\<rparr>"

definition demo_manager :: "demo_chan SubscriberManager" where
  "demo_manager = snd (register (\<lambda>_. ([], False)) [''system.health''] (SubscriberManager_new (EventBus_new 0)))"

definition health :: Event where
  "health = from_json 0 ''system.health'' None None JNull"

lemma demo_manager_eq:
  "subscribers demo_manager = [(''sub-1'', Subscriber_new ''sub-1'' [''system.health''] ([], False))]"
  and demo_manager_next: "next_id demo_manager = 2"
proof -
  have "validate_topic ''system.health'' = Inr ()" "''sub-'' @ show_nat 1 = ''sub-1''" by code_simp+
  then show "subscribers demo_manager = [(''sub-1'', Subscriber_new ''sub-1'' [''system.health''] ([], False))]"
    and "next_id demo_manager = 2"
    by (simp_all add: demo_manager_def register_def SubscriberManager_new_def Let_def)
qed

lemma demo_manager_wf: "sm_wf demo_manager"
proof -
  have "sm_wf (SubscriberManager_new (EventBus_new 0) :: demo_chan SubscriberManager)"
    by (simp add: sm_wf_def SubscriberManager_new_def hm_keys_def)
  then show ?thesis
    unfolding demo_manager_def by (rule sm_wf_register) (simp add: SubscriberManager_new_def)
qed

lemma health_matches: "topic_matches_any [''system.health''] (ev_topic health)"
  by code_simp

theorem dispatch_delivers_witness:
  "\<exists>s'. hm_get (subscribers (dispatch demo_senv health demo_manager)) ''sub-1'' = Some s' \<and>
     (\<exists>ns. fst (sub_tx s') = health # ns)"
proof -
  let ?s = "Subscriber_new ''sub-1'' [''system.health''] ([], False)"
  have "channel_ok (se_try_send demo_senv) fst snd" by (simp add: demo_senv_def demo_channel_ok)
  moreover have "hm_get (subscribers demo_manager) ''sub-1'' = Some ?s" by (simp add: demo_manager_eq)
  ultimately show ?thesis
    using dispatch_delivers[OF demo_manager_wf, of demo_senv fst snd "''sub-1''" ?s health] health_matches
    by (auto simp: Subscriber_new_def sub_matches_def split: option.splits)
qed

section \<open>Registration\<close>

lemma validate_all_ok: "validate_all ps = Inr () \<longleftrightarrow> (\<forall>p \<in> set ps. validate_topic p = Inr ())"
  by (induction ps) (auto split: sum.splits)

text \<open>
  \<open>register\<close> never takes over somebody else's entry: it files the new subscriber, with valid
  patterns, an empty lag and a fresh channel, under an identifier nobody has, and leaves every other
  entry alone; with an invalid pattern it changes nothing.
\<close>

theorem register_fresh:
  assumes "sm_wf m" and "unat (next_id m) < 2 ^ 64 - 1"
  shows "case register channel ps m of
     (Inr sid, m') \<Rightarrow>
       (\<forall>p \<in> set ps. validate_topic p = Inr ()) \<and> hm_get (subscribers m) sid = None \<and>
       hm_get (subscribers m') sid = Some (Subscriber_new sid ps (channel 50)) \<and>
       (\<forall>k. k \<noteq> sid \<longrightarrow> hm_get (subscribers m') k = hm_get (subscribers m) k) \<and> sm_wf m'
   | (Inl _, m') \<Rightarrow> m' = m \<and> (\<exists>p \<in> set ps. validate_topic p \<noteq> Inr ())"
proof (cases "validate_all ps")
  case (Inl e)
  then have "\<not> (\<forall>p \<in> set ps. validate_topic p = Inr ())" by (simp flip: validate_all_ok)
  with Inl show ?thesis by (auto simp: register_def)
next
  case (Inr u)
  then have "\<forall>p \<in> set ps. validate_topic p = Inr ()" by (simp flip: validate_all_ok)
  moreover have "sm_wf (snd (register channel ps m))" using assms by (rule sm_wf_register)
  ultimately show ?thesis
    using sub_id_fresh[OF assms(1)] Inr by (simp add: register_def Let_def BACKPRESSURE_WINDOW_def)
qed

theorem register_fresh_witness:
  "\<exists>sid m'. register (\<lambda>_. ([], False)) [''#''] demo_manager = (Inr sid, m') \<and> sid \<noteq> ''sub-1'' \<and>
     hm_get (subscribers m') ''sub-1'' \<noteq> None"
proof -
  have "validate_topic ''#'' = Inr ()" by code_simp
  then obtain sid m' where r: "register (\<lambda>_. ([], False)) [''#''] demo_manager = (Inr sid, m')"
    by (simp add: register_def Let_def)
  have "unat (next_id demo_manager) < 2 ^ 64 - 1" by (simp add: demo_manager_next)
  from register_fresh[OF demo_manager_wf this, where ps = "[''#'']" and channel = "\<lambda>_. ([], False)"]
  have sid: "hm_get (subscribers demo_manager) sid = None"
    "\<forall>k. k \<noteq> sid \<longrightarrow> hm_get (subscribers m') k = hm_get (subscribers demo_manager) k"
    by (simp_all add: r)
  then have "sid \<noteq> ''sub-1''" by (auto simp: demo_manager_eq)
  with sid r show ?thesis by (auto simp: demo_manager_eq)
qed

section \<open>Slow consumers\<close>

text \<open>A lone subscriber whose transport takes nothing from its channel, after \<open>n\<close> matching events.\<close>

definition stalled :: "('ch \<Rightarrow> Event list) \<Rightarrow> ('ch \<Rightarrow> bool) \<Rightarrow> string \<Rightarrow> string list \<Rightarrow> nat \<Rightarrow> 'ch SubscriberManager \<Rightarrow> bool" where
  "stalled contents closed k ps n m \<longleftrightarrow>
     (\<exists>s. subscribers m = [(k, s)] \<and> sub_id s = k \<and> sub_patterns s = ps \<and> \<not> closed (sub_tx s) \<and>
        length (contents (sub_tx s)) = min n 50 \<and> sub_lag s = of_nat (n - 50))"

lemma stalled_step:
  assumes "channel_ok (se_try_send env) contents closed" and "topic_matches_any ps (ev_topic ev)"
    and "stalled contents closed k ps n m" and "n < 100"
  shows "if n < 99 then stalled contents closed k ps (Suc n) (dispatch env ev m)
         else subscribers (dispatch env ev m) = []"
proof -
  let ?ts = "se_try_send env"
  obtain s where s: "subscribers m = [(k, s)]" "sub_id s = k" "sub_patterns s = ps" "\<not> closed (sub_tx s)"
      "length (contents (sub_tx s)) = min n 50" "sub_lag s = of_nat (n - 50)"
    using assms(3) by (auto simp: stalled_def)
  show ?thesis
  proof (cases "n < 50")
    case True
    with assms(1) s obtain ch' where ch': "?ts (sub_tx s) ev = (Sent, ch')" "\<not> closed ch'"
        "contents ch' = contents (sub_tx s) @ [ev]"
      unfolding channel_ok_def BACKPRESSURE_WINDOW_def by (metis min.absorb3 min.commute)
    then have "dispatch env ev m =
        m\<lparr>subscribers := [(k, s\<lparr>sub_tx := ch', sub_lag := 0, sub_delivered := sub_delivered s + 1\<rparr>)]\<rparr>"
      using s assms(2) by (simp add: dispatch_def offer_def sub_matches_def)
    with True s ch' show ?thesis by (auto simp: stalled_def)
  next
    case False
    with assms(1) s obtain ch' where ch': "?ts (sub_tx s) ev = (ChanFull, ch')" "\<not> closed ch'"
        "contents ch' = contents (sub_tx s)"
      unfolding channel_ok_def BACKPRESSURE_WINDOW_def by (metis linorder_not_less min.absorb4 min.commute nle_le min_def)
    have lag: "sub_lag s + 1 = of_nat (Suc n - 50)" using s(6) False by (simp add: Suc_diff_le add.commute)
    have u: "unat (sub_lag s + 1) = Suc n - 50"
      using assms(4) unfolding lag by (simp only: unat_of_nat) (simp add: take_bit_nat_eq_self)
    show ?thesis
    proof (cases "n < 99")
      case True
      then have "dispatch env ev m = m\<lparr>subscribers := [(k, s\<lparr>sub_tx := ch', sub_lag := of_nat (Suc n - 50)\<rparr>)]\<rparr>"
        using s ch' assms(2) u lag by (simp add: dispatch_def offer_def sub_matches_def Let_def BACKPRESSURE_WINDOW_def)
      with True False s ch' show ?thesis by (auto simp: stalled_def)
    next
      case False
      then show ?thesis
        using s ch' assms(2,4) u lag
        by (simp add: dispatch_def offer_def sub_matches_def Let_def BACKPRESSURE_WINDOW_def evict_frame)
    qed
  qed
qed

lemma stalled_run:
  assumes "channel_ok (se_try_send env) contents closed" and "stalled contents closed k ps 0 m"
    and "\<forall>ev \<in> set evs. topic_matches_any ps (ev_topic ev)"
  shows "if length evs < 100 then stalled contents closed k ps (length evs) (fold (dispatch env) evs m)
         else subscribers (fold (dispatch env) evs m) = []"
  using assms(3)
proof (induction evs rule: rev_induct)
  case (snoc ev evs)
  consider "length evs < 99" | "length evs = 99" | "length evs \<ge> 100" by linarith
  then show ?case
  proof cases
    case 3
    with snoc have "subscribers (fold (dispatch env) evs m) = []" by simp
    with 3 show ?thesis by (simp add: dispatch_def)
  qed (use snoc stalled_step[OF assms(1), of ps ev k "length evs" "fold (dispatch env) evs m"] in auto)
qed (use assms(2) in simp)

text \<open>
  A subscriber that stops reading is tolerated for its 50 buffered events and 50 more, and is
  evicted exactly by the 100th matching event; a slower burst of events never drops it.
\<close>

theorem slow_subscriber_evicted:
  assumes "channel_ok (se_try_send env) contents closed"
    and "subscribers m = [(k, Subscriber_new k ps ch)]" and "contents ch = []" and "\<not> closed ch"
    and "\<forall>ev \<in> set evs. topic_matches_any ps (ev_topic ev)"
  shows "hm_get (subscribers (fold (dispatch env) evs m)) k = None \<longleftrightarrow> length evs \<ge> 100"
proof -
  have "stalled contents closed k ps 0 m"
    using assms(2-4) by (auto simp: stalled_def Subscriber_new_def)
  from stalled_run[OF assms(1) this assms(5)] show ?thesis
    by (auto simp: stalled_def split: if_splits)
qed

theorem slow_subscriber_evicted_witness:
  "hm_get (subscribers (fold (dispatch demo_senv) (replicate 99 health) demo_manager)) ''sub-1'' \<noteq> None \<and>
   hm_get (subscribers (fold (dispatch demo_senv) (replicate 100 health) demo_manager)) ''sub-1'' = None"
proof -
  have ok: "channel_ok (se_try_send demo_senv) fst snd" by (simp add: demo_senv_def demo_channel_ok)
  have "hm_get (subscribers (fold (dispatch demo_senv) (replicate n health) demo_manager)) ''sub-1'' = None \<longleftrightarrow> n \<ge> 100" for n
    using slow_subscriber_evicted[OF ok demo_manager_eq, of "replicate n health"] health_matches by simp
  from this[of 99] this[of 100] show ?thesis by simp
qed

end
