(* ===== verification/Cli_Error.thy ===== *)
theory Cli_Error
  imports Supervisor_Error
begin

text \<open>
  The error type of the command line (\<open>cli/src/error.rs\<close>) with its exit codes. The errors of other
  libraries are their texts; the debug form of an optional path is an argument of the display function.
\<close>

datatype CliError =
    Clap string
  | CliIo "path option" io_error
  | CliJson string
  | CliTomlDe string
  | CliTomlSer string
  | CliIpc string
  | CliSupervisor string
  | UnknownPlatform string
  | InvalidScope string
  | BackupFailed path string
  | MarkerEdited path
  | CliOther string

type_synonym 'a cli_result = "CliError + 'a"

fun cli_error_text :: "(path option \<Rightarrow> string) \<Rightarrow> CliError \<Rightarrow> string" where
  "cli_error_text dbg (Clap e) = ''clap exit: '' @ e"
| "cli_error_text dbg (CliIo p e) = ''io error at '' @ dbg p @ '': '' @ io_text e"
| "cli_error_text dbg (CliJson e) = ''json error: '' @ e"
| "cli_error_text dbg (CliTomlDe e) = ''toml decode error: '' @ e"
| "cli_error_text dbg (CliTomlSer e) = ''toml encode error: '' @ e"
| "cli_error_text dbg (CliIpc e) = ''ipc error: '' @ e"
| "cli_error_text dbg (CliSupervisor e) = ''supervisor: '' @ e"
| "cli_error_text dbg (UnknownPlatform e) = ''unknown platform: '' @ e"
| "cli_error_text dbg (InvalidScope e) = ''invalid scope: '' @ e @ '' (expected global|user|project)''"
| "cli_error_text dbg (BackupFailed p r) = ''backup failed for '' @ p @ '': '' @ r"
| "cli_error_text dbg (MarkerEdited p) =
     ''marker block at '' @ p @ '' was edited by user (sha mismatch); pass --force to overwrite''"
| "cli_error_text dbg (CliOther e) = e"

fun exit_code :: "CliError \<Rightarrow> int" where
  "exit_code (Clap _) = 0"
| "exit_code (CliIo _ _) = 2"
| "exit_code (CliJson _) = 3"
| "exit_code (CliTomlDe _) = 3"
| "exit_code (CliTomlSer _) = 3"
| "exit_code (CliIpc _) = 4"
| "exit_code (CliSupervisor _) = 5"
| "exit_code (UnknownPlatform _) = 6"
| "exit_code (InvalidScope _) = 6"
| "exit_code (BackupFailed _ _) = 7"
| "exit_code (MarkerEdited _) = 7"
| "exit_code (CliOther _) = 1"

end
