(* ===== verification/Markers.thy ===== *)
theory Markers
  imports Cli_Error
begin

text \<open>
  Marker-based injection of the mneme section into a text manifest (\<open>cli/src/markers.rs\<close>): finding the
  block between the two sentinels, splicing a new body in, and removing the block. Strings are byte
  strings, as the source slices them. SHA-256 belongs to a crate and is an argument; the hexadecimal
  printing of the digest is the source's own.
\<close>

section \<open>Standard library\<close>

text \<open>\<open>str::split_whitespace\<close>; \<open>cur\<close> is the token read so far, reversed.\<close>

definition ws_at :: "string \<Rightarrow> string option" where
  "ws_at s = find (\<lambda>w. w \<noteq> [] \<and> starts_with s w) ws_tokens"

lemma ws_at_nonempty: "ws_at s = Some w \<Longrightarrow> 0 < length w"
  by (auto simp: ws_at_def find_Some_iff)

definition flush_token :: "string \<Rightarrow> string list" where
  "flush_token cur = (if cur = [] then [] else [rev cur])"

function split_ws :: "string \<Rightarrow> string \<Rightarrow> string list" where
  "split_ws cur [] = flush_token cur"
| "split_ws cur (c # s) =
     (case ws_at (c # s) of
        Some w \<Rightarrow> flush_token cur @ split_ws [] (drop (length w) (c # s))
      | None \<Rightarrow> split_ws (c # cur) s)"
  by pat_completeness auto
termination
  by (relation "measure (\<lambda>(cur, s). length s)")
    (auto dest!: ws_at_nonempty)

definition split_whitespace :: "string \<Rightarrow> string list" where
  "split_whitespace s = split_ws [] s"

definition strip_prefix :: "string \<Rightarrow> string \<Rightarrow> string option" where
  "strip_prefix s p = (if starts_with s p then Some (drop (length p) s) else None)"

definition trim_start_matches :: "string \<Rightarrow> string \<Rightarrow> string" where
  "trim_start_matches s p = strip_tokens [p] s"

definition trim_end_matches :: "string \<Rightarrow> string \<Rightarrow> string" where
  "trim_end_matches s p = rev (strip_tokens [rev p] (rev s))"

section \<open>The module\<close>

definition MARKER_VERSION :: string where
  "MARKER_VERSION = ''1.0''"

definition MARKER_START_PREFIX :: string where
  "MARKER_START_PREFIX = ''<!-- mneme-start ''"

definition MARKER_END :: string where
  "MARKER_END = ''<!-- mneme-end -->''"

definition newline :: string where
  "newline = [CHR 0x0A]"

record MarkerBlock =
  start_byte :: usize
  end_byte :: usize
  mb_body :: string
  mb_version :: string
  recorded_hash :: "string option"

type_synonym sha256 = "string \<Rightarrow> 8 word list"

definition hex_digit :: "8 word \<Rightarrow> char" where
  "hex_digit n = ''0123456789abcdef'' ! unat n"

fun hex_lower :: "8 word list \<Rightarrow> string" where
  "hex_lower [] = []"
| "hex_lower (b # bs) = hex_digit (drop_bit 4 b) # hex_digit (and b 0x0F) # hex_lower bs"

definition compute_body_hash :: "sha256 \<Rightarrow> string \<Rightarrow> string" where
  "compute_body_hash sha body = hex_lower (sha body)"

definition body_matches_recorded_hash :: "sha256 \<Rightarrow> MarkerBlock \<Rightarrow> bool" where
  "body_matches_recorded_hash sha b =
     (case recorded_hash b of None \<Rightarrow> True | Some expected \<Rightarrow> compute_body_hash sha (mb_body b) = expected)"

text \<open>The loop over the remaining tokens keeps the last hash.\<close>

fun scan_hash :: "string option \<Rightarrow> string list \<Rightarrow> string option" where
  "scan_hash h [] = h"
| "scan_hash h (tok # toks) =
     scan_hash (case strip_prefix tok ''sha256='' of Some rest \<Rightarrow> Some rest | None \<Rightarrow> h) toks"

definition parse_start_header :: "string \<Rightarrow> string \<times> string option" where
  "parse_start_header header =
     (let inner = trim (trim_end_matches (trim_start_matches header ''<!--'') ''-->'');
          tokens = drop 1 (split_whitespace inner);
          version = (case tokens of
              [] \<Rightarrow> MARKER_VERSION
            | t # _ \<Rightarrow> (case strip_prefix t ''v'' of Some v \<Rightarrow> v | None \<Rightarrow> MARKER_VERSION))
      in (version, scan_hash None (drop 1 tokens)))"

definition find_block :: "string \<Rightarrow> MarkerBlock option" where
  "find_block txt =
     (case str_find txt MARKER_START_PREFIX of
        None \<Rightarrow> None
      | Some start_idx \<Rightarrow>
          let after_prefix = start_idx + length MARKER_START_PREFIX in
          (case str_find (drop after_prefix txt) ''-->'' of
             None \<Rightarrow> None
           | Some k \<Rightarrow>
               let close_of_start = k + after_prefix + 3;
                   header = take (close_of_start - start_idx) (drop start_idx txt);
                   (version, h) = parse_start_header header
               in (case str_find (drop close_of_start txt) MARKER_END of
                     None \<Rightarrow> None
                   | Some e \<Rightarrow>
                       let end_idx = e + close_of_start;
                           endb = end_idx + length MARKER_END
                       in Some \<lparr>start_byte = start_idx, end_byte = endb,
                                mb_body = take (end_idx - close_of_start) (drop close_of_start txt),
                                mb_version = version, recorded_hash = h\<rparr>)))"

definition ensure_surrounding_newlines :: "string \<Rightarrow> string" where
  "ensure_surrounding_newlines body =
     (let s = (if starts_with body newline then [] else newline) @ body
      in if ends_with s newline then s else s @ newline)"

definition render_block :: "sha256 \<Rightarrow> string \<Rightarrow> string" where
  "render_block sha body =
     (let normalized = ensure_surrounding_newlines body;
          h = compute_body_hash sha normalized
      in MARKER_START_PREFIX @ ''v'' @ MARKER_VERSION @ '' sha256='' @ h @ '' -->'' @ normalized @ MARKER_END)"

definition separator :: "string \<Rightarrow> string" where
  "separator existing =
     (if ends_with existing (newline @ newline) then []
      else if ends_with existing newline then newline
      else if existing \<noteq> [] then newline @ newline
      else [])"

definition inject :: "sha256 \<Rightarrow> string \<Rightarrow> string \<Rightarrow> path \<Rightarrow> bool \<Rightarrow> string cli_result" where
  "inject sha existing new_body manifest_path force =
     (let new_block = render_block sha new_body in
      case find_block existing of
        Some found \<Rightarrow>
          if \<not> body_matches_recorded_hash sha found \<and> \<not> force then Inl (MarkerEdited manifest_path)
          else Inr (take (start_byte found) existing @ new_block @ drop (end_byte found) existing)
      | None \<Rightarrow>
          (let out = existing @ separator existing @ new_block
           in Inr (if ends_with out newline then out else out @ newline)))"

definition remove_block :: "string \<Rightarrow> string" where
  "remove_block existing =
     (case find_block existing of
        None \<Rightarrow> existing
      | Some found \<Rightarrow>
          take (start_byte found) existing @
          (let after = drop (end_byte found) existing in
           case strip_prefix after newline of Some r \<Rightarrow> r | None \<Rightarrow> after))"

section \<open>First occurrences\<close>

text \<open>A needle that is not in \<open>pre\<close> and cannot straddle the border is first found at the border.\<close>

lemma str_find_at:
  assumes "\<And>i. i < length pre \<Longrightarrow> \<not> starts_with (drop i (pre @ n @ rest)) n"
  shows "str_find (pre @ n @ rest) n = Some (length pre)"
  using assms
proof (induction pre)
  case Nil
  show ?case by (subst str_find.simps) simp
next
  case (Cons c pre)
  have "str_find (pre @ n @ rest) n = Some (length pre)"
    by (rule Cons.IH) (use Cons.prems[of "Suc _"] in auto)
  moreover have "\<not> starts_with (c # pre @ n @ rest) n" using Cons.prems[of 0] by simp
  ultimately show ?case by (subst str_find.simps) simp
qed

lemma str_find_head_fresh:
  assumes "c \<notin> set pre"
  shows "str_find (pre @ (c # n) @ rest) (c # n) = Some (length pre)"
proof (rule str_find_at)
  fix i
  assume i: "i < length pre"
  then have "drop i (pre @ (c # n) @ rest) = pre ! i # drop (Suc i) pre @ (c # n) @ rest"
    by (simp add: Cons_nth_drop_Suc)
  moreover have "pre ! i \<noteq> c" using assms i by (metis nth_mem)
  ultimately show "\<not> starts_with (drop i (pre @ (c # n) @ rest)) (c # n)" by simp
qed

lemma str_find_no_overlap:
  assumes "c \<notin> set n" and "str_find pre (c # n) = None"
  shows "str_find (pre @ (c # n) @ rest) (c # n) = Some (length pre)"
proof (rule str_find_at, rule notI)
  fix i
  assume i: "i < length pre" and "starts_with (drop i (pre @ (c # n) @ rest)) (c # n)"
  then obtain r where r: "drop i pre @ (c # n) @ rest = (c # n) @ r"
    by (auto simp: starts_with_iff)
  show False
  proof (cases "length (c # n) \<le> length (drop i pre)")
    case True
    then have "drop i pre = (c # n) @ drop (length (c # n)) (drop i pre)"
      using r by (metis append_eq_append_conv_if append_take_drop_id)
    then have "pre = take i pre @ (c # n) @ drop (length (c # n)) (drop i pre)"
      by (metis append_take_drop_id)
    with assms(2) show False unfolding str_find_None_iff by blast
  next
    case False
    let ?j = "length (drop i pre)"
    have "0 < ?j" "?j < length (c # n)" using False i by auto
    moreover have "(drop i pre @ (c # n) @ rest) ! ?j = c" by (simp add: nth_append)
    moreover have "((c # n) @ r) ! ?j = (c # n) ! ?j" using \<open>?j < length (c # n)\<close> by (simp only: nth_append if_True)
    ultimately have "n ! (?j - 1) = c" "?j - 1 < length n" using r by (auto simp: nth_Cons')
    with assms(1) show False by (metis nth_mem)
  qed
qed

section \<open>The header that was written is the header that is read\<close>

text \<open>Printable ASCII without the space: no whitespace token starts or ends with such a character.\<close>

definition plain :: "char \<Rightarrow> bool" where
  "plain c \<longleftrightarrow> 33 \<le> (of_char c :: nat) \<and> (of_char c :: nat) \<le> 126"

definition ws_family :: "string list \<Rightarrow> bool" where
  "ws_family toks \<longleftrightarrow> list_all (\<lambda>w. w \<noteq> [] \<and> \<not> plain (hd w) \<and> (hd w = CHR '' '' \<longrightarrow> w = '' '')) toks \<and>
     list_ex (\<lambda>w. w = '' '') toks"

lemma ws_family_tokens: "ws_family ws_tokens" "ws_family (map rev ws_tokens)"
  by code_simp+

lemma find_ws_plain:
  assumes "ws_family toks" and "plain c"
  shows "find (\<lambda>w. w \<noteq> [] \<and> starts_with (c # s) w) toks = None"
proof -
  have "\<not> (w \<noteq> [] \<and> starts_with (c # s) w)" if "w \<in> set toks" for w
    using assms that by (cases w) (auto simp: ws_family_def list_all_iff)
  then show ?thesis by (simp add: find_None_iff)
qed

lemma find_ws_space:
  assumes "ws_family toks"
  shows "find (\<lambda>w. w \<noteq> [] \<and> starts_with (CHR '' '' # s) w) toks = Some '' ''"
proof -
  have "\<exists>w \<in> set toks. w \<noteq> [] \<and> starts_with (CHR '' '' # s) w"
    using assms by (intro bexI[of _ "'' ''"]) (auto simp: ws_family_def list_ex_iff)
  then obtain w where w: "find (\<lambda>w. w \<noteq> [] \<and> starts_with (CHR '' '' # s) w) toks = Some w"
    by (metis (mono_tags, lifting) find_None_iff not_Some_eq)
  then have "starts_with (CHR '' '' # s) w" "w \<noteq> []" and mem: "w \<in> set toks"
    by (auto simp: find_Some_iff)
  then have "hd w = CHR '' ''" by (metis list.collapse starts_with.simps(3))
  with mem have "w = '' ''" using assms by (auto simp: ws_family_def list_all_iff)
  with w show ?thesis by simp
qed

lemma strip_ws_plain: "ws_family toks \<Longrightarrow> plain c \<Longrightarrow> strip_tokens toks (c # s) = c # s"
  by (subst strip_tokens.simps) (simp add: find_ws_plain)

lemma strip_ws_space: "ws_family toks \<Longrightarrow> strip_tokens toks (CHR '' '' # s) = strip_tokens toks s"
  by (subst strip_tokens.simps) (simp add: find_ws_space)

lemma split_ws_plain: "\<forall>c \<in> set t. plain c \<Longrightarrow> split_ws cur (t @ s) = split_ws (rev t @ cur) s"
  by (induction t arbitrary: cur) (simp_all add: ws_at_def find_ws_plain ws_family_tokens)

lemma split_ws_space: "split_ws cur (CHR '' '' # s) = flush_token cur @ split_ws [] s"
  by (simp add: ws_at_def find_ws_space ws_family_tokens)

lemma plain_hex_digit: "unat n < 16 \<Longrightarrow> plain (hex_digit n) \<and> hex_digit n \<noteq> CHR ''-''"
proof -
  assume "unat n < 16"
  moreover have "\<forall>k < 16. plain (''0123456789abcdef'' ! k) \<and> ''0123456789abcdef'' ! k \<noteq> CHR ''-''"
    by code_simp
  ultimately show ?thesis unfolding hex_digit_def by blast
qed

lemma plain_hex_lower: "\<forall>c \<in> set (hex_lower bs). plain c \<and> c \<noteq> CHR ''-''"
proof (induction bs)
  case (Cons b bs)
  have "unat b < 2 ^ LENGTH(8)" by (rule unsigned_less)
  then have "unat (drop_bit 4 b) < 16" by (simp add: drop_bit_eq_div unat_div)
  moreover have "unat (and b 0x0F) < 16"
  proof -
    have "and b 0x0F = take_bit 4 b" by (simp add: take_bit_eq_mask mask_eq_exp_minus_1)
    then show ?thesis by (simp add: take_bit_eq_mod unat_mod)
  qed
  ultimately show ?case using Cons plain_hex_digit by simp
qed simp

text \<open>The part of the header between the two dashes, and what the parser makes of it.\<close>

lemma trim_header:
  assumes "\<forall>c \<in> set t. plain c" and "t \<noteq> []"
  shows "trim ('' mneme-start v1.0 '' @ t @ '' '') = ''mneme-start v1.0 '' @ t"
proof -
  have start: "trim_start ('' mneme-start v1.0 '' @ t @ '' '') = ''mneme-start v1.0 '' @ t @ '' ''"
    by (simp add: trim_start_def strip_ws_space strip_ws_plain ws_family_tokens plain_def)
  obtain c t' where t: "rev t = c # t'" using assms(2) by (cases "rev t") auto
  then have "plain c" using assms(1) by (metis list.set_intros(1) set_rev)
  then have "strip_tokens (map rev ws_tokens) (CHR '' '' # rev t @ rev ''mneme-start v1.0 '') =
      rev t @ rev ''mneme-start v1.0 ''"
    unfolding t by (simp only: strip_ws_space ws_family_tokens append_Cons strip_ws_plain)
  moreover have "rev (''mneme-start v1.0 '' @ t @ '' '') = CHR '' '' # rev t @ rev ''mneme-start v1.0 ''"
    by simp
  ultimately have "trim_end (''mneme-start v1.0 '' @ t @ '' '') = rev (rev t @ rev ''mneme-start v1.0 '')"
    by (simp only: trim_end_def)
  then have "trim_end (''mneme-start v1.0 '' @ t @ '' '') = ''mneme-start v1.0 '' @ t"
    by (simp only: rev_append rev_rev_ident)
  with start show ?thesis by (simp only: trim_def)
qed

lemma strip_token_once:
  assumes "p \<noteq> []" and "\<not> starts_with s p"
  shows "strip_tokens [p] (p @ s) = s"
proof -
  have "strip_tokens [p] s = s" using assms by (subst strip_tokens.simps) simp
  moreover have "strip_tokens [p] (p @ s) = strip_tokens [p] s"
    using assms(1) by (subst strip_tokens.simps) simp
  ultimately show ?thesis by simp
qed

definition rendered_header :: "string \<Rightarrow> string" where
  "rendered_header h = MARKER_START_PREFIX @ ''v'' @ MARKER_VERSION @ '' sha256='' @ h @ '' -->''"

lemma parse_rendered_header:
  assumes "\<forall>c \<in> set h. plain c"
  shows "parse_start_header (rendered_header h) = (''1.0'', Some h)"
proof -
  let ?t = "''sha256='' @ h"
  let ?inner = "'' mneme-start v1.0 '' @ ?t @ '' ''"
  have t: "\<forall>c \<in> set ?t. plain c" using assms by (auto simp: plain_def)
  have "trim_start_matches (rendered_header h) ''<!--'' = ?inner @ ''-->''"
  proof -
    have "rendered_header h = ''<!--'' @ ?inner @ ''-->''"
      by (simp add: rendered_header_def MARKER_START_PREFIX_def MARKER_VERSION_def)
    then show ?thesis by (simp only: trim_start_matches_def) (subst strip_token_once; simp)
  qed
  moreover have "trim_end_matches (?inner @ ''-->'') ''-->'' = ?inner"
  proof -
    have "rev (?inner @ ''-->'') = rev ''-->'' @ rev ?inner" by (simp only: rev_append)
    moreover have "strip_tokens [rev ''-->''] (rev ''-->'' @ rev ?inner) = rev ?inner"
      by (rule strip_token_once) simp_all
    ultimately show ?thesis by (simp only: trim_end_matches_def rev_rev_ident)
  qed
  ultimately have "trim (trim_end_matches (trim_start_matches (rendered_header h) ''<!--'') ''-->'') =
      ''mneme-start v1.0 '' @ ?t"
    using trim_header[OF t] by (simp only: append_Cons append_Nil list.distinct not_False_eq_True simp_thms)
  moreover have "split_whitespace (''mneme-start v1.0 '' @ ?t) = [''mneme-start'', ''v1.0'', ?t]"
  proof -
    have "split_whitespace (''mneme-start v1.0 '' @ ?t) =
        split_ws [] (''mneme-start'' @ CHR '' '' # ''v1.0'' @ CHR '' '' # ?t @ [])"
      by (simp add: split_whitespace_def)
    also have "\<dots> = [''mneme-start'', ''v1.0'', ?t]"
      using t by (subst split_ws_plain, simp add: plain_def, subst split_ws_space,
          subst split_ws_plain, simp add: plain_def, subst split_ws_space,
          subst split_ws_plain, assumption) (simp add: flush_token_def)
    finally show ?thesis .
  qed
  ultimately show ?thesis
    by (simp add: parse_start_header_def Let_def strip_prefix_def)
qed

section \<open>Finding a rendered block\<close>

definition not_in :: "string \<Rightarrow> string \<Rightarrow> bool" where
  "not_in n s \<longleftrightarrow> str_find s n = None"

lemma not_in_Cons:
  assumes "not_in n s" and "n \<noteq> []" and "c \<notin> set n"
  shows "not_in n (c # s)"
  unfolding not_in_def str_find_None_iff
proof clarify
  fix a b
  assume eq: "c # s = a @ n @ b"
  show False
  proof (cases a)
    case Nil
    with eq assms(2) have "c = hd n" by (metis append_Nil hd_append2 list.sel(1))
    with assms(2,3) show False by simp
  next
    case (Cons x a')
    with eq have "s = a' @ n @ b" by simp
    with assms(1) show False by (auto simp: not_in_def str_find_None_iff)
  qed
qed

lemma not_in_snoc:
  assumes "not_in n s" and "n \<noteq> []" and "c \<notin> set n"
  shows "not_in n (s @ [c])"
  unfolding not_in_def str_find_None_iff
proof clarify
  fix a b
  assume eq: "s @ [c] = a @ n @ b"
  show False
  proof (cases b rule: rev_cases)
    case Nil
    with eq assms(2) have "c = last n" by (metis append.right_neutral last_appendR last_snoc)
    with assms(2,3) show False by simp
  next
    case (snoc b' x)
    with eq have "s = a @ n @ b'" by simp
    with assms(1) show False by (auto simp: not_in_def str_find_None_iff)
  qed
qed

lemma newlines_not_in:
  assumes "not_in MARKER_END body"
  shows "not_in MARKER_END (ensure_surrounding_newlines body)"
proof -
  have "CHR 0x0A \<notin> set MARKER_END" "MARKER_END \<noteq> []" by (simp_all add: MARKER_END_def)
  with assms show ?thesis
    by (simp add: ensure_surrounding_newlines_def Let_def newline_def not_in_Cons not_in_snoc)
qed

lemma separator_not_in:
  assumes "not_in MARKER_START_PREFIX s"
  shows "not_in MARKER_START_PREFIX (s @ separator s)"
proof -
  have "CHR 0x0A \<notin> set MARKER_START_PREFIX" "MARKER_START_PREFIX \<noteq> []"
    by (simp_all add: MARKER_START_PREFIX_def)
  then have step: "not_in MARKER_START_PREFIX t \<Longrightarrow> not_in MARKER_START_PREFIX (t @ newline)" for t
    unfolding newline_def by (blast intro: not_in_snoc)
  from assms step[OF step[OF assms]] step[OF assms] show ?thesis by (auto simp: separator_def)
qed

lemma render_block_eq:
  "render_block sha body =
     rendered_header (compute_body_hash sha (ensure_surrounding_newlines body)) @
     ensure_surrounding_newlines body @ MARKER_END"
  by (simp add: render_block_def rendered_header_def Let_def)

text \<open>A block after text without a start sentinel is found, with its body and its hash.\<close>

lemma find_sentinels:
  assumes "not_in MARKER_START_PREFIX pre" and "not_in MARKER_END n"
    and hex: "\<forall>c \<in> set h. plain c \<and> c \<noteq> CHR ''-''"
  shows "find_block (pre @ rendered_header h @ n @ MARKER_END @ post) =
    Some \<lparr>start_byte = length pre, end_byte = length (pre @ rendered_header h @ n @ MARKER_END),
      mb_body = n, mb_version = ''1.0'', recorded_hash = Some h\<rparr>"
proof -
  let ?txt = "pre @ rendered_header h @ n @ MARKER_END @ post"
  let ?ver = "''v1.0 sha256='' @ h @ '' ''"
  have tx: "?txt = pre @ MARKER_START_PREFIX @ (?ver @ ''-->'' @ n @ MARKER_END @ post)"
    by (simp add: rendered_header_def MARKER_VERSION_def)
  have start: "str_find ?txt MARKER_START_PREFIX = Some (length pre)"
    unfolding tx using assms(1) unfolding not_in_def MARKER_START_PREFIX_def
    by (intro str_find_no_overlap) simp_all
  have d1: "drop (length pre + length MARKER_START_PREFIX) ?txt = ?ver @ ''-->'' @ n @ MARKER_END @ post"
    unfolding tx by simp
  have "CHR ''-'' \<notin> set ?ver" using hex by auto
  then have close: "str_find (?ver @ ''-->'' @ n @ MARKER_END @ post) ''-->'' = Some (length ?ver)"
    by (rule str_find_head_fresh)
  let ?close = "length ?ver + (length pre + length MARKER_START_PREFIX) + 3"
  have tx2: "?txt = (pre @ rendered_header h) @ n @ MARKER_END @ post" by simp
  have lens: "?close = length (pre @ rendered_header h)"
    by (simp add: rendered_header_def MARKER_VERSION_def)
  have header: "take (?close - length pre) (drop (length pre) ?txt) = rendered_header h"
    unfolding lens tx2 by simp
  have fin: "str_find (n @ MARKER_END @ post) MARKER_END = Some (length n)"
    using assms(2) unfolding not_in_def MARKER_END_def by (intro str_find_no_overlap) simp_all
  have d2: "drop ?close ?txt = n @ MARKER_END @ post" unfolding lens tx2 by simp
  have p: "parse_start_header (rendered_header h) = (''1.0'', Some h)"
    using hex by (intro parse_rendered_header) simp
  have len: "length n + ?close + length MARKER_END = length (pre @ rendered_header h @ n @ MARKER_END)"
    unfolding lens by simp
  show ?thesis
    unfolding find_block_def start option.case Let_def d1 close header p prod.case d2 fin
    using len by simp
qed

lemma hash_chars: "\<forall>c \<in> set (compute_body_hash sha s). plain c \<and> c \<noteq> CHR ''-''"
  by (simp add: compute_body_hash_def plain_hex_lower)

lemma find_rendered:
  assumes "not_in MARKER_START_PREFIX pre" and "not_in MARKER_END body"
  shows "find_block (pre @ render_block sha body @ post) =
    Some \<lparr>start_byte = length pre, end_byte = length pre + length (render_block sha body),
      mb_body = ensure_surrounding_newlines body, mb_version = ''1.0'',
      recorded_hash = Some (compute_body_hash sha (ensure_surrounding_newlines body))\<rparr>"
  using find_sentinels[OF assms(1) newlines_not_in[OF assms(2)] hash_chars]
  by (simp add: render_block_eq)

lemma find_none_clean: "not_in MARKER_START_PREFIX s \<Longrightarrow> find_block s = None"
  by (simp add: find_block_def not_in_def)

lemma inject_clean:
  assumes "not_in MARKER_START_PREFIX existing"
  shows "inject sha existing body p force =
    Inr (existing @ separator existing @ render_block sha body @ newline)"
proof -
  obtain b where "render_block sha body = b @ ''>''"
    by (auto simp: render_block_eq MARKER_END_def)
  then have "\<not> ends_with (existing @ separator existing @ render_block sha body) newline"
    by (simp add: ends_with_def newline_def)
  with find_none_clean[OF assms] show ?thesis by (simp add: inject_def Let_def)
qed

lemma inject_rendered:
  assumes "not_in MARKER_START_PREFIX pre" and "not_in MARKER_END body"
  shows "inject sha (pre @ render_block sha body @ post) body' p force = Inr (pre @ render_block sha body' @ post)"
  by (simp add: inject_def Let_def find_rendered[OF assms] body_matches_recorded_hash_def)

text \<open>
  C13: installing is idempotent and touches nothing but the block. On a manifest without a start
  sentinel, the section is appended after the user's text; running it again, with the same or with
  another body, replaces exactly the block, without \<open>--force\<close> and without duplicating it. (The bodies
  must not contain the end sentinel.)
\<close>

theorem inject_idempotent:
  assumes "not_in MARKER_START_PREFIX existing" and "not_in MARKER_END body"
    and "inject sha existing body p force = Inr out"
  shows "out = existing @ separator existing @ render_block sha body @ newline \<and>
    inject sha out body p' False = Inr out \<and>
    inject sha out body' p' False = Inr (existing @ separator existing @ render_block sha body' @ newline)"
proof -
  have out: "out = existing @ separator existing @ render_block sha body @ newline"
    using inject_clean[OF assms(1)] assms(3) by simp
  moreover have "inject sha out b p' False = Inr (existing @ separator existing @ render_block sha b @ newline)" for b
    using inject_rendered[OF separator_not_in[OF assms(1)] assms(2), of sha newline b p' False] by (simp add: out)
  ultimately show ?thesis by simp
qed

definition demo_sha :: sha256 where
  "demo_sha s = [of_nat (length s)]"

theorem inject_idempotent_witness:
  "\<exists>out. inject demo_sha ''hello'' ''body'' ''CLAUDE.md'' False = Inr out \<and>
     inject demo_sha out ''body'' ''CLAUDE.md'' False = Inr out"
proof -
  have "not_in MARKER_START_PREFIX ''hello''" "not_in MARKER_END ''body''"
    by (simp_all add: not_in_def MARKER_START_PREFIX_def MARKER_END_def str_find.simps)
  then show ?thesis using inject_idempotent inject_clean by blast
qed

section \<open>User edits\<close>

lemma hex_lower_inj: "hex_lower a = hex_lower b \<Longrightarrow> a = b"
proof (induction a arbitrary: b)
  case Nil
  then show ?case by (cases b) auto
next
  case (Cons x a)
  then obtain y b' where b: "b = y # b'" by (cases b) auto
  have lt: "unat (drop_bit 4 w) < 16" "unat (and w 0x0F) < 16" for w :: "8 word"
  proof -
    have "unat w < 2 ^ LENGTH(8)" by (rule unsigned_less)
    then show "unat (drop_bit 4 w) < 16" by (simp add: drop_bit_eq_div unat_div)
    have "and w 0x0F = take_bit 4 w" by (simp add: take_bit_eq_mask mask_eq_exp_minus_1)
    then show "unat (and w 0x0F) < 16" by (simp add: take_bit_eq_mod unat_mod)
  qed
  have inj: "m = n" if "hex_digit m = hex_digit n" "unat m < 16" "unat n < 16" for m n
  proof -
    have "distinct ''0123456789abcdef''" by simp
    with that show ?thesis by (simp only: hex_digit_def) (auto simp: nth_eq_iff_index_eq unsigned_word_eqI)
  qed
  from Cons.prems have "drop_bit 4 x = drop_bit 4 y" "and x 0x0F = and y 0x0F" "hex_lower a = hex_lower b'"
    by (auto simp: b intro!: inj lt)
  moreover have "w = push_bit 4 (drop_bit 4 w) + and w 0x0F" for w :: "8 word"
  proof -
    have "and w 0x0F = take_bit 4 w" by (simp add: take_bit_eq_mask mask_eq_exp_minus_1)
    then show ?thesis by (simp only: bits_ident)
  qed
  ultimately show ?case using Cons.IH b by metis
qed

text \<open>
  C14: a hand-edited section is never overwritten silently. If the text between the sentinels was changed
  (to anything whose digest differs), injecting without \<open>--force\<close> is refused with \<open>MarkerEdited\<close>; with
  \<open>--force\<close> only the block is replaced. Removing gives back the text around the block either way.
\<close>

theorem edited_block_refused:
  assumes "not_in MARKER_START_PREFIX pre" and "not_in MARKER_END edited"
    and "sha edited \<noteq> sha (ensure_surrounding_newlines body)"
    and manifest_def: "manifest = pre @ rendered_header (compute_body_hash sha (ensure_surrounding_newlines body))
                        @ edited @ MARKER_END @ newline @ post"
  shows "inject sha manifest body' p False = Inl (MarkerEdited p) \<and>
    inject sha manifest body' p True = Inr (pre @ render_block sha body' @ newline @ post) \<and>
    remove_block manifest = pre @ post"
proof -
  let ?h = "compute_body_hash sha (ensure_surrounding_newlines body)"
  have found: "find_block manifest =
      Some \<lparr>start_byte = length pre, end_byte = length (pre @ rendered_header ?h @ edited @ MARKER_END),
        mb_body = edited, mb_version = ''1.0'', recorded_hash = Some ?h\<rparr>"
    unfolding manifest_def by (rule find_sentinels[OF assms(1,2) hash_chars])
  have split: "manifest = (pre @ rendered_header ?h @ edited @ MARKER_END) @ newline @ post"
    by (simp add: manifest_def)
  have take: "take (length pre) manifest = pre" by (simp add: manifest_def)
  have drop: "drop (length (pre @ rendered_header ?h @ edited @ MARKER_END)) manifest = newline @ post"
    unfolding split by simp
  have "compute_body_hash sha edited \<noteq> ?h"
    using assms(3) hex_lower_inj by (auto simp: compute_body_hash_def)
  with found take drop show ?thesis
    by (simp add: inject_def remove_block_def Let_def body_matches_recorded_hash_def strip_prefix_def newline_def
        del: length_append)
qed

theorem edited_block_refused_witness:
  "inject demo_sha (rendered_header (compute_body_hash demo_sha (ensure_surrounding_newlines ''body''))
      @ ''mine, longer'' @ MARKER_END @ newline) ''new'' ''AGENTS.md'' False = Inl (MarkerEdited ''AGENTS.md'')"
proof -
  have "not_in MARKER_START_PREFIX []" "not_in MARKER_END ''mine, longer''"
    by (simp_all add: not_in_def MARKER_START_PREFIX_def MARKER_END_def str_find.simps)
  moreover have "demo_sha ''mine, longer'' \<noteq> demo_sha (ensure_surrounding_newlines ''body'')"
    by code_simp
  ultimately show ?thesis
    using edited_block_refused[where pre = "[]" and edited = "''mine, longer''" and sha = demo_sha and
        body = "''body''" and post = "[]" and body' = "''new''" and p = "''AGENTS.md''", OF _ _ _ refl]
    by simp
qed

text \<open>
  Uninstalling after a clean install gives the user's text back, but with the blank lines the
  install put in front of the block left behind: the result is the original text exactly if that was
  empty or ended in a blank line.
\<close>

theorem remove_after_inject:
  assumes "not_in MARKER_START_PREFIX existing" and "not_in MARKER_END body"
    and "inject sha existing body p force = Inr out"
  shows "remove_block out = existing @ separator existing \<and>
    (remove_block out = existing \<longleftrightarrow> existing = [] \<or> ends_with existing (newline @ newline))"
proof -
  have out: "out = (existing @ separator existing) @ render_block sha body @ newline"
    using inject_clean[OF assms(1)] assms(3) by simp
  have "find_block out =
      Some \<lparr>start_byte = length (existing @ separator existing),
        end_byte = length (existing @ separator existing) + length (render_block sha body),
        mb_body = ensure_surrounding_newlines body, mb_version = ''1.0'',
        recorded_hash = Some (compute_body_hash sha (ensure_surrounding_newlines body))\<rparr>"
    unfolding out by (rule find_rendered[OF separator_not_in[OF assms(1)] assms(2)])
  moreover have "drop (length (existing @ separator existing) + length (render_block sha body)) out = newline"
    "take (length (existing @ separator existing)) out = existing @ separator existing"
    by (simp_all add: out)
  ultimately have rem: "remove_block out = existing @ separator existing"
    by (simp add: remove_block_def strip_prefix_def newline_def del: length_append)
  have "separator existing = [] \<longleftrightarrow> existing = [] \<or> ends_with existing (newline @ newline)"
    by (auto simp: separator_def newline_def ends_with_def)
  with rem show ?thesis by simp
qed

theorem remove_after_inject_witness:
  "\<exists>out. inject demo_sha ''hello'' ''body'' ''CLAUDE.md'' False = Inr out \<and>
     remove_block out = ''hello'' @ newline @ newline \<and> remove_block out \<noteq> ''hello''"
proof -
  have "not_in MARKER_START_PREFIX ''hello''" "not_in MARKER_END ''body''"
    by (simp_all add: not_in_def MARKER_START_PREFIX_def MARKER_END_def str_find.simps)
  moreover obtain out where out: "inject demo_sha ''hello'' ''body'' ''CLAUDE.md'' False = Inr out"
    using calculation inject_clean by blast
  moreover have "separator ''hello'' = newline @ newline" "\<not> ends_with ''hello'' (newline @ newline)" by code_simp+
  ultimately show ?thesis
    using remove_after_inject[of "''hello''" "''body''" demo_sha "''CLAUDE.md''" False out] by auto
qed

end
