(* ===== verification/Blast.thy ===== *)
theory Blast
  imports Mneme_Prelude
begin

text \<open>
  Blast-radius risk scoring (\<open>brain/src/blast.rs\<close>): the report of a change's consumers and the rule
  that classifies it. The severity ladder is a linear order, so that scoring can be proved monotone.
\<close>

section \<open>Model\<close>

record CodeRef =
  cr_qualified_name :: string
  cr_file :: "string option"
  cr_line :: "u32 option"
  cr_kind :: string

definition CodeRef_new :: "string \<Rightarrow> string \<Rightarrow> CodeRef" where
  "CodeRef_new name knd = \<lparr>cr_qualified_name = name, cr_file = None, cr_line = None, cr_kind = knd\<rparr>"

datatype RiskLevel = Low | Medium | High | Critical

record BlastReport =
  direct_consumers :: "CodeRef list"
  transitive_consumers :: "CodeRef list"
  tests_affected :: "CodeRef list"
  decisions_assumed :: "string list"
  risk :: RiskLevel

definition total_consumers :: "BlastReport \<Rightarrow> usize" where
  "total_consumers r = length (direct_consumers r) + length (transitive_consumers r)"

fun bump :: "RiskLevel \<Rightarrow> RiskLevel" where
  "bump Low = Medium"
| "bump Medium = High"
| "bump High = Critical"
| "bump Critical = Critical"

definition compute_risk :: "usize \<Rightarrow> usize \<Rightarrow> usize \<Rightarrow> usize \<Rightarrow> RiskLevel" where
  "compute_risk direct transitive tests decisions =
     (if decisions > 0 then Critical
      else
        let level = Low;
            level = (if direct > 5 then Medium else level);
            level = (if direct > 15 \<or> transitive > 20 then High else level);
            level = (if direct + transitive > 100 then Critical else level)
        in if tests = 0 \<and> direct + transitive > 0 then bump level else level)"

definition build_report ::
  "CodeRef list \<Rightarrow> CodeRef list \<Rightarrow> CodeRef list \<Rightarrow> string list \<Rightarrow> BlastReport" where
  "build_report direct transitive tests decisions =
     \<lparr>direct_consumers = direct, transitive_consumers = transitive, tests_affected = tests,
      decisions_assumed = decisions,
      risk = compute_risk (length direct) (length transitive) (length tests) (length decisions)\<rparr>"

section \<open>The severity ladder\<close>

fun rank :: "RiskLevel \<Rightarrow> nat" where
  "rank Low = 0"
| "rank Medium = 1"
| "rank High = 2"
| "rank Critical = 3"

lemma rank_inj: "rank a = rank b \<longleftrightarrow> a = b"
  by (cases a; cases b) simp_all

instantiation RiskLevel :: linorder
begin

definition less_eq_RiskLevel :: "RiskLevel \<Rightarrow> RiskLevel \<Rightarrow> bool" where
  "less_eq_RiskLevel a b = (rank a \<le> rank b)"

definition less_RiskLevel :: "RiskLevel \<Rightarrow> RiskLevel \<Rightarrow> bool" where
  "less_RiskLevel a b = (rank a < rank b)"

instance
  by standard (auto simp: less_eq_RiskLevel_def less_RiskLevel_def simp flip: rank_inj)

end

lemma bump_mono: "a \<le> b \<Longrightarrow> bump a \<le> bump b"
  by (cases a; cases b) (simp_all add: less_eq_RiskLevel_def)

lemma bump_increases: "a \<le> bump a"
  by (cases a) (simp_all add: less_eq_RiskLevel_def)

definition base_level :: "nat \<Rightarrow> nat \<Rightarrow> RiskLevel" where
  "base_level d t =
     (if d + t > 100 then Critical else if d > 15 \<or> t > 20 then High else if d > 5 then Medium else Low)"

lemma base_level_mono: "d \<le> d' \<Longrightarrow> t \<le> t' \<Longrightarrow> base_level d t \<le> base_level d' t'"
  by (auto simp: base_level_def less_eq_RiskLevel_def)

lemma compute_risk_base:
  "compute_risk d t ts ds =
     (if ds > 0 then Critical
      else if ts = 0 \<and> d + t > 0 then bump (base_level d t) else base_level d t)"
  by (simp add: compute_risk_def base_level_def Let_def)

lemma Critical_top: "r \<le> Critical"
  by (cases r) (simp_all add: less_eq_RiskLevel_def)

text \<open>
  The score never goes down when a change reaches more code: it is monotone in the number of
  direct consumers, transitive consumers and affected decisions, and antitone in the number of
  affected tests.
\<close>

theorem compute_risk_mono:
  assumes "d \<le> d'" and "t \<le> t'" and "ts' \<le> ts" and "ds \<le> ds'"
  shows "compute_risk d t ts ds \<le> compute_risk d' t' ts' ds'"
proof (cases "ds' > 0")
  case True
  then show ?thesis by (simp add: compute_risk_base[of d' t'] Critical_top)
next
  case False
  have base: "base_level d t \<le> base_level d' t'" using assms(1,2) by (rule base_level_mono)
  from False assms(4) have "ds = 0" "ds' = 0" by auto
  then show ?thesis
    using assms bump_mono[OF base] base order_trans[OF base bump_increases]
    by (auto simp: compute_risk_base)
qed

theorem compute_risk_mono_witness: "compute_risk 6 0 5 0 \<le> compute_risk 6 1 0 0"
  by (rule compute_risk_mono) simp_all

end
