(* ===== verification/Leiden.thy ===== *)
theory Leiden
  imports Mneme_Prelude
begin

text \<open>
  Leiden community detection (\<open>brain/src/leiden.rs\<close>). The \<open>f64\<close> arithmetic is an argument (\<open>flops\<close>), so
  that every statement holds for IEEE arithmetic with its rounding; the shuffles of the seeded
  generator are an argument too. A graph is its node weights and its edge list in index order, as the
  solver reads it from \<open>petgraph\<close>. Hash maps are only read by key or through sorted keys.
\<close>

section \<open>Data\<close>

type_synonym NodeId = "128 word"

record 'f flops =
  fl_zero :: 'f
  fl_one :: 'f
  fl_two :: 'f
  fl_eps :: 'f
  fl_add :: "'f \<Rightarrow> 'f \<Rightarrow> 'f"
  fl_sub :: "'f \<Rightarrow> 'f \<Rightarrow> 'f"
  fl_mul :: "'f \<Rightarrow> 'f \<Rightarrow> 'f"
  fl_div :: "'f \<Rightarrow> 'f \<Rightarrow> 'f"
  fl_abs :: "'f \<Rightarrow> 'f"
  fl_less :: "'f \<Rightarrow> 'f \<Rightarrow> bool"
  fl_finite :: "'f \<Rightarrow> bool"

record 'f LeidenConfig =
  resolution :: 'f
  max_iterations :: usize
  min_delta :: 'f
  seed :: u64

type_synonym 'f adjacency = "(nat \<times> 'f) list list"

text \<open>\<open>shuffle(rng)\<close> on a vector, with the next state of the generator.\<close>

type_synonym 'r shuffle = "'r \<Rightarrow> nat list \<Rightarrow> nat list \<times> 'r"

section \<open>Compression of labels\<close>

fun compress_go :: "(nat, nat) hmap \<Rightarrow> nat \<Rightarrow> nat list \<Rightarrow> nat list" where
  "compress_go m nxt [] = []"
| "compress_go m nxt (c # cs) =
     (case hm_get m c of
        Some v \<Rightarrow> v # compress_go m nxt cs
      | None \<Rightarrow> nxt # compress_go (hm_insert c nxt m) (nxt + 1) cs)"

definition compress :: "nat list \<Rightarrow> nat list" where
  "compress part = compress_go [] 0 part"

section \<open>Local moving\<close>

definition entry_or_zero :: "'f flops \<Rightarrow> (nat, 'f) hmap \<Rightarrow> nat \<Rightarrow> 'f" where
  "entry_or_zero F m c = (case hm_get m c of Some x \<Rightarrow> x | None \<Rightarrow> fl_zero F)"

definition entry_add :: "'f flops \<Rightarrow> nat \<Rightarrow> 'f \<Rightarrow> (nat, 'f) hmap \<Rightarrow> (nat, 'f) hmap" where
  "entry_add F c x m = hm_insert c (fl_add F (entry_or_zero F m c) x) m"

definition entry_sub :: "'f flops \<Rightarrow> nat \<Rightarrow> 'f \<Rightarrow> (nat, 'f) hmap \<Rightarrow> (nat, 'f) hmap" where
  "entry_sub F c x m = hm_insert c (fl_sub F (entry_or_zero F m c) x) m"

definition fl_sum :: "'f flops \<Rightarrow> 'f list \<Rightarrow> 'f" where
  "fl_sum F xs = foldl (fl_add F) (fl_zero F) xs"

definition strength_of :: "'f flops \<Rightarrow> 'f adjacency \<Rightarrow> 'f list" where
  "strength_of F adj = map (\<lambda>row. fl_sum F (map snd row)) adj"

definition sigma_of :: "'f flops \<Rightarrow> nat list \<Rightarrow> 'f list \<Rightarrow> (nat, 'f) hmap" where
  "sigma_of F part strength = fold (\<lambda>(c, s) m. entry_add F c s m) (zip part strength) []"

text \<open>Edge weights from a node to the labels of those neighbours that \<open>ok\<close> admits.\<close>

definition k_in_of :: "'f flops \<Rightarrow> (nat \<Rightarrow> bool) \<Rightarrow> nat list \<Rightarrow> (nat \<times> 'f) list \<Rightarrow> (nat, 'f) hmap" where
  "k_in_of F ok labels row = fold (\<lambda>(v, w) m. if ok v then entry_add F (labels ! v) w m else m) row []"

definition gain_of :: "'f flops \<Rightarrow> 'f \<Rightarrow> 'f \<Rightarrow> 'f \<Rightarrow> 'f \<Rightarrow> 'f \<Rightarrow> 'f" where
  "gain_of F two_m res kic st su =
     fl_sub F (fl_div F kic two_m)
       (fl_div F (fl_mul F (fl_mul F res st) su) (fl_mul F two_m two_m))"

definition best_label ::
  "'f flops \<Rightarrow> 'f \<Rightarrow> 'f \<Rightarrow> (nat, 'f) hmap \<Rightarrow> (nat, 'f) hmap \<Rightarrow> 'f \<Rightarrow> nat \<Rightarrow> nat \<times> 'f" where
  "best_label F two_m res k_in sigma su cu =
     foldl (\<lambda>(best, best_gain) c.
        let gain = gain_of F two_m res (entry_or_zero F k_in c) (entry_or_zero F sigma c) su
        in if fl_less F (fl_add F best_gain (fl_eps F)) gain then (c, gain) else (best, best_gain))
       (cu, fl_zero F) (sort (hm_keys k_in))"

text \<open>The body of the loop of \<open>local_move\<close> for one node.\<close>

definition move_node ::
  "'f flops \<Rightarrow> 'f \<Rightarrow> 'f \<Rightarrow> 'f adjacency \<Rightarrow> 'f list \<Rightarrow> nat \<Rightarrow>
   nat list \<times> (nat, 'f) hmap \<times> bool \<Rightarrow> nat list \<times> (nat, 'f) hmap \<times> bool" where
  "move_node F two_m res adj strength u st =
     (case st of (part, sigma, moved) \<Rightarrow>
        let cu = part ! u;
            k_in = k_in_of F (\<lambda>v. v \<noteq> u) part (adj ! u);
            su = strength ! u;
            kic_self = entry_or_zero F k_in cu;
            sigma1 = entry_sub F cu su sigma;
            (best, best_gain) = best_label F two_m res k_in sigma1 su cu;
            stay_gain = gain_of F two_m res kic_self (entry_or_zero F sigma1 cu) su
        in if best \<noteq> cu \<and> fl_less F (fl_add F stay_gain (fl_eps F)) best_gain
           then (part[u := best], entry_add F best su sigma1, True)
           else (part, entry_add F cu su sigma1, moved))"

fun move_passes ::
  "nat \<Rightarrow> 'f flops \<Rightarrow> 'f \<Rightarrow> 'f \<Rightarrow> 'f adjacency \<Rightarrow> 'f list \<Rightarrow> nat list \<Rightarrow>
   nat list \<times> (nat, 'f) hmap \<Rightarrow> nat list \<times> (nat, 'f) hmap" where
  "move_passes 0 F two_m res adj strength order st = st"
| "move_passes (Suc k) F two_m res adj strength order (part, sigma) =
     (case fold (move_node F two_m res adj strength) order (part, sigma, False) of
        (part', sigma', moved) \<Rightarrow>
          if moved then move_passes k F two_m res adj strength order (part', sigma')
          else (part', sigma'))"

definition local_move ::
  "'f flops \<Rightarrow> 'r shuffle \<Rightarrow> 'f LeidenConfig \<Rightarrow> 'f \<Rightarrow> 'f adjacency \<Rightarrow> 'f list \<Rightarrow> nat list \<Rightarrow> 'r \<Rightarrow>
   nat list \<times> 'r" where
  "local_move F shuf cfg two_m adj strength part rng =
     (case shuf rng [0..<length adj] of
        (order, rng') \<Rightarrow>
          (fst (move_passes 32 F two_m (resolution cfg) adj strength order
                  (part, sigma_of F part strength)), rng'))"

section \<open>Refinement\<close>

definition refine_node ::
  "'f flops \<Rightarrow> 'f \<Rightarrow> 'f \<Rightarrow> 'f adjacency \<Rightarrow> 'f list \<Rightarrow> nat list \<Rightarrow> nat \<Rightarrow>
   nat list \<times> (nat, 'f) hmap \<Rightarrow> nat list \<times> (nat, 'f) hmap" where
  "refine_node F two_m res adj strength part u st =
     (case st of (refined, sigma) \<Rightarrow>
        let cu_outer = part ! u;
            k_in = k_in_of F (\<lambda>v. \<not> (v = u \<or> part ! v \<noteq> cu_outer)) refined (adj ! u);
            su = strength ! u;
            cu = refined ! u;
            sigma1 = entry_sub F cu su sigma;
            (best, best_gain) = best_label F two_m res k_in sigma1 su cu
        in if best \<noteq> cu \<and> fl_less F (fl_eps F) best_gain
           then (refined[u := best], entry_add F best su sigma1)
           else (refined, entry_add F cu su sigma1))"

definition refine_partition ::
  "'f flops \<Rightarrow> 'r shuffle \<Rightarrow> 'f LeidenConfig \<Rightarrow> 'f \<Rightarrow> 'f adjacency \<Rightarrow> 'f list \<Rightarrow> nat list \<Rightarrow> 'r \<Rightarrow>
   nat list \<times> 'r" where
  "refine_partition F shuf cfg two_m adj strength part rng =
     (let n = length adj in
      case shuf rng [0..<n] of
        (order, rng') \<Rightarrow>
          (compress (fst (fold (refine_node F two_m (resolution cfg) adj strength part) order
             ([0..<n], map (\<lambda>u. (u, strength ! u)) [0..<n]))), rng'))"

section \<open>Aggregation\<close>

definition USIZE_MAX :: nat where
  "USIZE_MAX = 2 ^ 64 - 1"

record 'f Aggregated =
  agg_adj :: "'f adjacency"
  agg_parent :: "nat list"

definition label_count :: "nat list \<Rightarrow> nat" where
  "label_count refined = (case refined of [] \<Rightarrow> 0 | x # xs \<Rightarrow> fold max xs x + 1)"

definition aggregate_rows :: "'f flops \<Rightarrow> 'f adjacency \<Rightarrow> nat list \<Rightarrow> (nat, 'f) hmap list" where
  "aggregate_rows F adj refined =
     fold (\<lambda>(u, row) rows.
        fold (\<lambda>(v, w) rows. rows[refined ! u := entry_add F (refined ! v) w (rows ! (refined ! u))]) row rows)
       (zip [0..<length adj] adj) (replicate (label_count refined) [])"

definition halve_row :: "'f flops \<Rightarrow> nat \<Rightarrow> (nat, 'f) hmap \<Rightarrow> (nat \<times> 'f) list" where
  "halve_row F i m =
     sort_key fst (map (\<lambda>(j, w). (j, if j = i then w else fl_div F w (fl_two F))) m)"

definition set_parent :: "nat \<times> nat \<Rightarrow> nat list \<Rightarrow> nat list" where
  "set_parent uc parent =
     (case uc of (u, c) \<Rightarrow> if parent ! c = USIZE_MAX then parent[c := u] else parent)"

definition parents :: "nat list \<Rightarrow> nat list" where
  "parents refined =
     fold set_parent (zip [0..<length refined] refined) (replicate (label_count refined) USIZE_MAX)"

definition aggregate :: "'f flops \<Rightarrow> 'f adjacency \<Rightarrow> nat list \<Rightarrow> 'f Aggregated" where
  "aggregate F adj refined =
     (let rows = aggregate_rows F adj refined in
      \<lparr>agg_adj = map (\<lambda>i. halve_row F i (rows ! i)) [0..<length rows], agg_parent = parents refined\<rparr>)"

section \<open>The outer loop\<close>

definition modularity :: "'f flops \<Rightarrow> nat list \<Rightarrow> 'f adjacency \<Rightarrow> 'f list \<Rightarrow> 'f \<Rightarrow> 'f \<Rightarrow> 'f" where
  "modularity F part adj strength two_m gamma =
     fl_div F
       (foldl (\<lambda>q u.
          foldl (\<lambda>q (v, w).
             if part ! u = part ! v
             then fl_add F q (fl_sub F w (fl_div F (fl_mul F (fl_mul F gamma (strength ! u)) (strength ! v)) two_m))
             else q) q (adj ! u))
        (fl_zero F) [0..<length adj]) two_m"

text \<open>Phase 3 of an iteration: the partition of the next one, from the refined one.\<close>

fun write_parents :: "nat \<Rightarrow> nat list \<Rightarrow> nat list \<Rightarrow> nat list" where
  "write_parents i [] part = part"
| "write_parents i (p # ps) part = write_parents (i + 1) ps (part[i := p])"

definition next_partition :: "'f flops \<Rightarrow> 'f adjacency \<Rightarrow> nat list \<Rightarrow> nat list" where
  "next_partition F adj refined =
     (let agg = aggregate F adj refined;
          agg_partition = compress (write_parents 0 (agg_parent agg) [0..<length (agg_adj agg)])
      in compress (map (\<lambda>refined_id. agg_partition ! refined_id) refined))"

fun leiden_iterations ::
  "nat \<Rightarrow> 'f flops \<Rightarrow> 'r shuffle \<Rightarrow> 'f LeidenConfig \<Rightarrow> 'f \<Rightarrow> 'f adjacency \<Rightarrow> 'f list \<Rightarrow>
   nat list \<Rightarrow> 'f \<Rightarrow> 'r \<Rightarrow> nat list" where
  "leiden_iterations 0 F shuf cfg two_m adj strength part prev_q rng = part"
| "leiden_iterations (Suc k) F shuf cfg two_m adj strength part prev_q rng =
     (let (moved, rng1) = local_move F shuf cfg two_m adj strength part rng;
          (refined, rng2) = refine_partition F shuf cfg two_m adj strength moved rng1;
          part' = next_partition F adj refined;
          q = modularity F part' adj strength two_m (resolution cfg)
      in if fl_less F (fl_abs F (fl_sub F q prev_q)) (min_delta cfg) then part'
         else leiden_iterations k F shuf cfg two_m adj strength part' q rng2)"

definition leiden_inner ::
  "'f flops \<Rightarrow> 'r shuffle \<Rightarrow> 'f LeidenConfig \<Rightarrow> 'f \<Rightarrow> 'f adjacency \<Rightarrow> 'r \<Rightarrow> nat list" where
  "leiden_inner F shuf cfg two_m adj rng =
     (let part = [0..<length adj];
          strength = strength_of F adj;
          prev_q = modularity F part adj strength two_m (resolution cfg)
      in compress (leiden_iterations (max_iterations cfg) F shuf cfg two_m adj strength part prev_q rng))"

section \<open>The solver\<close>

record 'c Community =
  comm_id :: u32
  comm_members :: "NodeId list"
  comm_cohesion :: 'c

text \<open>The adjacency rows and the total weight, edge by edge.\<close>

definition add_edge ::
  "'f flops \<Rightarrow> nat \<times> nat \<times> 'f \<Rightarrow> 'f adjacency \<times> 'f \<Rightarrow> 'f adjacency \<times> 'f" where
  "add_edge F e st =
     (case (e, st) of ((a, b, w), (adj, tot)) \<Rightarrow>
        if \<not> fl_less F (fl_zero F) w \<or> \<not> fl_finite F w then (adj, tot)
        else let adj1 = adj[a := adj ! a @ [(b, w)]];
                 adj2 = (if a \<noteq> b then adj1[b := adj1 ! b @ [(a, w)]] else adj1)
             in (adj2, fl_add F tot w))"

definition build_adjacency :: "'f flops \<Rightarrow> nat \<Rightarrow> (nat \<times> nat \<times> 'f) list \<Rightarrow> 'f adjacency \<times> 'f" where
  "build_adjacency F n edges = fold (add_edge F) edges (replicate n [], fl_zero F)"

definition cohesion_of ::
  "'f flops \<Rightarrow> ('f \<Rightarrow> 'c) \<Rightarrow> 'f adjacency \<Rightarrow> nat list \<Rightarrow> nat \<Rightarrow> nat list \<Rightarrow> 'c" where
  "cohesion_of F as_f32 adj part k members =
     (case foldl (\<lambda>st u. foldl (\<lambda>(inside, incident) (v, w).
               (if part ! v = k then fl_add F inside w else inside, fl_add F incident w)) st (adj ! u))
             (fl_zero F, fl_zero F) members of
        (inside, incident) \<Rightarrow>
          if fl_less F (fl_zero F) incident then as_f32 (fl_div F inside incident) else as_f32 (fl_one F))"

definition buckets_of :: "nat list \<Rightarrow> (nat, nat list) hmap" where
  "buckets_of part =
     fold (\<lambda>(node, c) m. hm_insert c ((case hm_get m c of Some ns \<Rightarrow> ns | None \<Rightarrow> []) @ [node]) m)
       (zip [0..<length part] part) []"

definition communities_of ::
  "'f flops \<Rightarrow> ('f \<Rightarrow> 'c) \<Rightarrow> NodeId list \<Rightarrow> 'f adjacency \<Rightarrow> nat list \<Rightarrow> 'c Community list" where
  "communities_of F as_f32 node_ids adj part =
     (let buckets = buckets_of part;
          sorted_keys = sort (hm_keys buckets)
      in map (\<lambda>(new_id, k).
           let members = (case hm_get buckets k of Some ms \<Rightarrow> ms | None \<Rightarrow> []) in
           \<lparr>comm_id = of_nat new_id, comm_members = map (\<lambda>i. node_ids ! i) members,
            comm_cohesion = cohesion_of F as_f32 adj part k members\<rparr>)
         (zip [0..<length sorted_keys] sorted_keys))"

definition leiden_run ::
  "'f flops \<Rightarrow> 'r shuffle \<Rightarrow> (u64 \<Rightarrow> 'r) \<Rightarrow> ('f \<Rightarrow> 'c) \<Rightarrow> 'f LeidenConfig \<Rightarrow>
   NodeId list \<Rightarrow> (nat \<times> nat \<times> 'f) list \<Rightarrow> 'c Community list" where
  "leiden_run F shuf seed_from as_f32 cfg node_ids edges =
     (let n = length node_ids in
      if n = 0 then []
      else let (adj, tot) = build_adjacency F n edges;
               two_m = (if fl_less F (fl_zero F) tot then fl_mul F (fl_two F) tot else fl_one F);
               part = leiden_inner F shuf cfg two_m adj (seed_from (seed cfg))
           in communities_of F as_f32 node_ids adj part)"

end
