(* ===== verification/Leiden_Properties.thy ===== *)
theory Leiden_Properties
  imports Leiden "HOL-Library.Multiset"
begin

text \<open>
  What the Leiden solver guarantees whatever the arithmetic and the shuffles do: relabelling keeps the
  partition, refinement only splits, and the communities returned are a partition of the nodes. It
  also shows what an outer iteration passes on to the next one.
\<close>

section \<open>Compression\<close>

definition labelling :: "(nat, nat) hmap \<Rightarrow> nat \<Rightarrow> bool" where
  "labelling m nxt \<longleftrightarrow> (\<forall>a b x. hm_get m a = Some x \<and> hm_get m b = Some x \<longrightarrow> a = b) \<and>
     ran (hm_get m) = {0..<nxt}"

lemma labelling_insert:
  assumes "labelling m nxt" and "hm_get m c = None"
  shows "labelling (hm_insert c nxt m) (nxt + 1)"
proof -
  have new: "hm_get m a \<noteq> Some nxt" for a
  proof
    assume "hm_get m a = Some nxt"
    then have "nxt \<in> ran (hm_get m)" by (rule ranI)
    with assms(1) show False by (simp add: labelling_def)
  qed
  have "hm_get (hm_insert c nxt m) = (hm_get m)(c \<mapsto> nxt)" by (simp add: fun_eq_iff)
  moreover have "ran ((hm_get m)(c \<mapsto> nxt)) = insert nxt (ran (hm_get m))"
    using assms(2) by (rule ran_map_upd)
  ultimately show ?thesis
    using assms new by (auto simp: labelling_def split: if_splits)
qed

lemma compress_go_map:
  assumes "labelling m nxt"
  shows "\<exists>m' nxt'. labelling m' nxt' \<and> (\<forall>a x. hm_get m a = Some x \<longrightarrow> hm_get m' a = Some x) \<and>
    dom (hm_get m') = dom (hm_get m) \<union> set cs \<and>
    compress_go m nxt cs = map (\<lambda>c. the (hm_get m' c)) cs"
  using assms
proof (induction m nxt cs rule: compress_go.induct)
  case (1 m nxt)
  then show ?case by auto
next
  case (2 m nxt c cs)
  show ?case
  proof (cases "hm_get m c")
    case None
    from "2.IH"(1)[OF None labelling_insert[OF "2.prems" None]] obtain m' nxt' where m':
      "labelling m' nxt'" "\<forall>a x. hm_get (hm_insert c nxt m) a = Some x \<longrightarrow> hm_get m' a = Some x"
      "dom (hm_get m') = dom (hm_get (hm_insert c nxt m)) \<union> set cs"
      "compress_go (hm_insert c nxt m) (nxt + 1) cs = map (\<lambda>c. the (hm_get m' c)) cs" by blast
    have "hm_get m' c = Some nxt" using m'(2) by simp
    moreover have "hm_get m' a = Some x" if "hm_get m a = Some x" for a x
      using m'(2) that None by (cases "a = c") auto
    moreover have "dom (hm_get (hm_insert c nxt m)) = insert c (dom (hm_get m))"
      by (auto simp: dom_def)
    ultimately show ?thesis
      using m'(1,3,4) None by (intro exI[of _ m'] exI[of _ nxt']) simp
  next
    case (Some v)
    from "2.IH"(2)[OF Some "2.prems"] obtain m' nxt' where m':
      "labelling m' nxt'" "\<forall>a x. hm_get m a = Some x \<longrightarrow> hm_get m' a = Some x"
      "dom (hm_get m') = dom (hm_get m) \<union> set cs"
      "compress_go m nxt cs = map (\<lambda>c. the (hm_get m' c)) cs" by blast
    with Some show ?thesis by (intro exI[of _ m'] exI[of _ nxt']) auto
  qed
qed

lemma compress_map:
  "\<exists>f. compress part = map f part \<and> inj_on f (set part) \<and> f ` set part = {0..<card (set part)}"
proof -
  have "labelling [] 0" by (simp add: labelling_def)
  from compress_go_map[OF this, of part] obtain m' nxt' where m': "labelling m' nxt'"
      "dom (hm_get m') = set part" "compress part = map (\<lambda>c. the (hm_get m' c)) part"
    by (auto simp: compress_def)
  let ?f = "\<lambda>c. the (hm_get m' c)"
  have get: "hm_get m' c = Some (?f c)" if "c \<in> set part" for c
    using that m'(2) by force
  have inj: "inj_on ?f (set part)"
    using m'(1) get unfolding labelling_def inj_on_def by metis
  have "?f ` set part = ran (hm_get m')"
    using m'(2) get by (force simp: ran_def image_iff)
  then have img: "?f ` set part = {0..<nxt'}" using m'(1) by (simp add: labelling_def)
  then have "nxt' = card (set part)" using card_image[OF inj] by simp
  with m'(3) inj img show ?thesis by (intro exI[of _ ?f]) simp
qed

lemma length_compress [simp]: "length (compress part) = length part"
  using compress_map[of part] by force

lemma compress_eq_iff:
  "i < length part \<Longrightarrow> j < length part \<Longrightarrow> compress part ! i = compress part ! j \<longleftrightarrow> part ! i = part ! j"
proof -
  assume ij: "i < length part" "j < length part"
  obtain f where f: "compress part = map f part" "inj_on f (set part)" using compress_map by blast
  then show ?thesis using ij by (auto dest: inj_onD)
qed

lemma set_compress: "set (compress part) = {0..<card (set part)}"
proof -
  obtain f where "compress part = map f part" "f ` set part = {0..<card (set part)}"
    using compress_map by blast
  then show ?thesis by simp
qed

text \<open>
  \<open>compress\<close> renumbers without changing the partition: two nodes share a label afterwards exactly if
  they did before, the labels used are \<open>0 .. k-1\<close> for the number \<open>k\<close> of communities.
\<close>

theorem compress_correct:
  "length (compress part) = length part \<and>
   (\<forall>i < length part. \<forall>j < length part. compress part ! i = compress part ! j \<longleftrightarrow> part ! i = part ! j) \<and>
   set (compress part) = {0..<card (set part)}"
  by (simp add: compress_eq_iff set_compress)

theorem compress_correct_witness:
  "compress [7, 3, 7, 9] ! 0 = compress [7, 3, 7, 9] ! 2 \<and> set (compress [7, 3, 7, 9]) = {0..<3}"
proof -
  have "card (set [7, 3, 7, 9 :: nat]) = 3" by code_simp
  with compress_correct[of "[7, 3, 7, 9]"] show ?thesis by (auto simp: numeral_2_eq_2)
qed

section \<open>Labels chosen by a move\<close>

lemma best_label_in:
  "fst (best_label F two_m res k_in sigma su cu) \<in> insert cu (set (hm_keys k_in))"
proof -
  have "fst (foldl (\<lambda>(best, best_gain) c.
        let gain = gain_of F two_m res (entry_or_zero F k_in c) (entry_or_zero F sigma c) su
        in if fl_less F (fl_add F best_gain (fl_eps F)) gain then (c, gain) else (best, best_gain)) st cs)
      \<in> insert (fst st) (set cs)" for st cs
  proof (induction cs arbitrary: st)
    case (Cons c cs)
    obtain b g where st: "st = (b, g)" by force
    let ?gain = "gain_of F two_m res (entry_or_zero F k_in c) (entry_or_zero F sigma c) su"
    let ?st = "if fl_less F (fl_add F g (fl_eps F)) ?gain then (c, ?gain) else (b, g)"
    have "fst ?st \<in> {b, c}" by simp
    moreover note Cons.IH[of ?st]
    ultimately show ?case by (auto simp: st Let_def split: if_splits)
  qed simp
  from this[of "(cu, fl_zero F)" "sort (hm_keys k_in)"] show ?thesis by (simp add: best_label_def)
qed

lemma k_in_keys:
  "set (hm_keys (k_in_of F ok labels row)) \<subseteq> {labels ! v |v w. (v, w) \<in> set row \<and> ok v}"
proof -
  have "set (hm_keys (fold (\<lambda>(v, w) m. if ok v then entry_add F (labels ! v) w m else m) row m)) \<subseteq>
      set (hm_keys m) \<union> {labels ! v |v w. (v, w) \<in> set row \<and> ok v}" for m
  proof (induction row arbitrary: m)
    case (Cons e row)
    obtain v w where e: "e = (v, w)" by force
    have "set (hm_keys (if ok v then entry_add F (labels ! v) w m else m)) \<subseteq>
        set (hm_keys m) \<union> (if ok v then {labels ! v} else {})"
      by (simp add: entry_add_def)
    with Cons[of "if ok v then entry_add F (labels ! v) w m else m"] show ?case
      by (fastforce simp: e split: if_splits)
  qed simp
  from this[of "[]"] show ?thesis by (simp add: k_in_of_def hm_keys_def)
qed

section \<open>Refinement only splits\<close>

definition refines :: "nat list \<Rightarrow> nat list \<Rightarrow> bool" where
  "refines refined part \<longleftrightarrow> length refined = length part \<and>
     (\<forall>a < length part. \<forall>b < length part. refined ! a = refined ! b \<longrightarrow> part ! a = part ! b)"

definition adj_wf :: "'f adjacency \<Rightarrow> bool" where
  "adj_wf adj \<longleftrightarrow> (\<forall>row \<in> set adj. \<forall>(v, w) \<in> set row. v < length adj)"

lemma refine_node_refines:
  assumes "adj_wf adj" and "length adj = length part" and "u < length part" and "refines refined part"
  shows "refines (fst (refine_node F two_m res adj strength part u (refined, sigma))) part"
proof -
  let ?k = "k_in_of F (\<lambda>v. \<not> (v = u \<or> part ! v \<noteq> part ! u)) refined (adj ! u)"
  let ?s = "entry_sub F (refined ! u) (strength ! u) sigma"
  obtain best g where bg: "best_label F two_m res ?k ?s (strength ! u) (refined ! u) = (best, g)" by force
  have "best = refined ! u \<or> best \<in> set (hm_keys ?k)"
    using best_label_in[of F two_m res ?k ?s "strength ! u" "refined ! u"] unfolding bg by simp
  moreover have "\<exists>v < length part. best = refined ! v \<and> part ! v = part ! u" if "best \<in> set (hm_keys ?k)"
  proof -
    from that obtain v w where v: "(v, w) \<in> set (adj ! u)" "part ! v = part ! u" "best = refined ! v"
      using k_in_keys[of F "\<lambda>v. \<not> (v = u \<or> part ! v \<noteq> part ! u)" refined "adj ! u"] by auto
    moreover have "adj ! u \<in> set adj" using assms(2,3) by simp
    ultimately have "v < length part" using assms(1,2) by (fastforce simp: adj_wf_def)
    with v show ?thesis by blast
  qed
  ultimately obtain v where v: "v < length part" "best = refined ! v" "part ! v = part ! u"
    using assms(3) by blast
  have len: "length refined = length part" using assms(4) by (simp add: refines_def)
  have same: "part ! b = part ! u" if "b < length part" "refined ! b = best" for b
    using assms(4) that v unfolding refines_def by metis
  have "refines (refined[u := best]) part"
    unfolding refines_def
  proof (intro conjI allI impI)
    fix a b
    assume ab: "a < length part" "b < length part" "refined[u := best] ! a = refined[u := best] ! b"
    consider "a = u" "b = u" | "a = u" "b \<noteq> u" | "a \<noteq> u" "b = u" | "a \<noteq> u" "b \<noteq> u" by blast
    then show "part ! a = part ! b"
    proof cases
      case 2
      with ab len show ?thesis using same[of b] by simp
    next
      case 3
      with ab len show ?thesis using same[of a] by simp
    next
      case 4
      then have "refined ! a = refined ! b" using ab(3) by simp
      with ab assms(4) show ?thesis unfolding refines_def by blast
    qed simp
  qed (simp add: len)
  with assms(4) show ?thesis
    unfolding refine_node_def prod.case Let_def bg by (simp only: fst_conv split: if_split) simp
qed

text \<open>The seeded shuffle permutes its argument.\<close>

definition shuffle_ok :: "'r shuffle \<Rightarrow> bool" where
  "shuffle_ok shuf \<longleftrightarrow> (\<forall>r xs. mset (fst (shuf r xs)) = mset xs)"

text \<open>
  Refinement never merges across communities: nodes that share a refined label were in the same
  community before, whatever gains the arithmetic computes; and the refined labels are dense.
\<close>

theorem refine_only_splits:
  assumes "adj_wf adj" and "length part = length adj" and "shuffle_ok shuf"
    and "refine_partition F shuf cfg two_m adj strength part rng = (refined, rng')"
  shows "length refined = length part \<and>
    (\<forall>a < length part. \<forall>b < length part. refined ! a = refined ! b \<longrightarrow> part ! a = part ! b) \<and>
    set refined = {0..<card (set refined)}"
proof -
  obtain order r where o: "shuf rng [0..<length adj] = (order, r)" by force
  have "set order = {0..<length adj}"
  proof -
    have "mset (fst (shuf rng [0..<length adj])) = mset [0..<length adj]"
      using assms(3) by (simp only: shuffle_ok_def)
    then have "mset order = mset [0..<length adj]" by (simp only: o fst_conv)
    then have "set order = set [0..<length adj]" by (rule mset_eq_setD)
    then show ?thesis by simp
  qed
  then have order: "\<forall>u \<in> set order. u < length part" using assms(2) by simp
  let ?step = "refine_node F two_m (resolution cfg) adj strength part"
  have run: "refines (fst (fold ?step us (raw, sigma))) part"
    if "\<forall>u \<in> set us. u < length part" "refines raw part" for us raw sigma
    using that
  proof (induction us arbitrary: raw sigma)
    case (Cons u us)
    have "refines (fst (?step u (raw, sigma))) part"
      using assms(1,2) Cons.prems by (intro refine_node_refines) simp_all
    then show ?case using Cons.IH Cons.prems by (cases "?step u (raw, sigma)") simp
  qed simp
  let ?raw = "fst (fold ?step order ([0..<length adj], map (\<lambda>u. (u, strength ! u)) [0..<length adj]))"
  have "refines [0..<length adj] part" using assms(2) by (simp add: refines_def)
  from run[OF order this] have "refines ?raw part" .
  moreover have refined: "refined = compress ?raw"
    using assms(4) by (simp add: refine_partition_def Let_def o)
  moreover have "card (set (compress ?raw)) = card (set ?raw)" by (simp add: set_compress)
  ultimately show ?thesis
  proof (intro conjI)
    assume r: "refines ?raw part" and c: "refined = compress ?raw"
    show "length refined = length part" using r c by (simp add: refines_def)
    show "\<forall>a < length part. \<forall>b < length part. refined ! a = refined ! b \<longrightarrow> part ! a = part ! b"
    proof (intro allI impI)
      fix a b
      assume ab: "a < length part" "b < length part" "refined ! a = refined ! b"
      have "length ?raw = length part" using r by (simp only: refines_def)
      with ab have "?raw ! a = ?raw ! b" using compress_eq_iff[of a ?raw b] unfolding c by simp
      with ab r show "part ! a = part ! b" unfolding refines_def by blast
    qed
    show "set refined = {0..<card (set refined)}" unfolding c set_compress by simp
  qed
qed

definition demo_flops :: "int flops" where
  "demo_flops = \<lparr>fl_zero = 0, fl_one = 1, fl_two = 2, fl_eps = 0, fl_add = (+), fl_sub = (-), fl_mul = (*),
     fl_div = (div), fl_abs = abs, fl_less = (<), fl_finite = (\<lambda>_. True)\<rparr>"

definition demo_config :: "int LeidenConfig" where
  "demo_config = \<lparr>resolution = 1, max_iterations = 16, min_delta = 1, seed = 42\<rparr>"

theorem refine_only_splits_witness:
  "\<exists>refined rng'. refine_partition demo_flops (\<lambda>r xs. (xs, r)) demo_config 2
       [[(1, 5)], [(0, 5)], []] [5, 5, 0] [0, 0, 1] () = (refined, rng') \<and>
     (refined ! 0 = refined ! 2 \<longrightarrow> (0 :: nat) = 1)"
proof -
  have "adj_wf [[(1, 5 :: int)], [(0, 5)], []]" "shuffle_ok (\<lambda>r xs. (xs, r :: unit))"
    by (simp_all add: adj_wf_def shuffle_ok_def)
  moreover obtain refined rng' where r: "refine_partition demo_flops (\<lambda>r xs. (xs, r)) demo_config 2
       [[(1, 5)], [(0, 5)], []] [5, 5, 0] [0, 0, 1] () = (refined, rng')" by (metis surj_pair)
  ultimately have splits: "\<forall>a < length [0, 0, 1 :: nat]. \<forall>b < length [0, 0, 1 :: nat].
      refined ! a = refined ! b \<longrightarrow> [0, 0, 1 :: nat] ! a = [0, 0, 1] ! b"
    by (intro conjunct1[OF conjunct2[OF refine_only_splits[OF _ _ _ r]]]) (assumption, simp, assumption)
  have "refined ! 0 = refined ! 2 \<longrightarrow> (0 :: nat) = 1"
  proof
    assume "refined ! 0 = refined ! 2"
    from splits[rule_format, OF _ _ this] show "(0 :: nat) = 1" by simp
  qed
  with r show ?thesis by blast
qed

section \<open>What an iteration passes on\<close>

lemma fold_max_ge_nat: "x \<in> set (k # ks) \<Longrightarrow> x \<le> fold max ks (k :: nat)"
proof -
  have "fold max ks k = Max (set (k # ks))" by (simp only: Max.set_eq_fold)
  then show "x \<in> set (k # ks) \<Longrightarrow> x \<le> fold max ks k" by simp
qed

lemma fold_max_in_nat: "fold max ks (k :: nat) \<in> set (k # ks)"
  using Max_in[of "set (k # ks)"] by (simp only: Max.set_eq_fold[symmetric]) simp

lemma label_count_dense:
  assumes "set refined = {0..<k}"
  shows "label_count refined = k"
proof (cases refined)
  case (Cons x xs)
  have "fold max xs x \<in> {0..<k}" using fold_max_in_nat[of xs x] assms[symmetric] by (simp only: Cons)
  moreover have "k - 1 \<le> fold max xs x"
  proof -
    have "k - 1 \<in> set (x # xs)" using calculation assms by (simp add: Cons)
    then show ?thesis by (rule fold_max_ge_nat)
  qed
  ultimately show ?thesis by (simp add: label_count_def Cons)
qed (use assms in \<open>simp add: label_count_def\<close>)

text \<open>After the first \<open>j\<close> nodes, an entry is unset or names a node of its community.\<close>

definition parents_upto :: "nat list \<Rightarrow> nat \<Rightarrow> nat list \<Rightarrow> bool" where
  "parents_upto refined j parent \<longleftrightarrow>
     (\<forall>c < length parent. parent ! c = USIZE_MAX \<or> parent ! c < j \<and> refined ! (parent ! c) = c) \<and>
     (\<forall>u < j. parent ! (refined ! u) \<noteq> USIZE_MAX)"

lemma set_parent_upto:
  assumes "parents_upto refined j parent" and "refined ! j < length parent" and "j < USIZE_MAX"
  shows "parents_upto refined (Suc j) (set_parent (j, refined ! j) parent)"
proof (cases "parent ! (refined ! j) = USIZE_MAX")
  case True
  have "parents_upto refined (Suc j) (parent[refined ! j := j])"
    unfolding parents_upto_def
  proof (intro conjI allI impI)
    fix c
    assume "c < length (parent[refined ! j := j])"
    then show "parent[refined ! j := j] ! c = USIZE_MAX \<or>
        parent[refined ! j := j] ! c < Suc j \<and> refined ! (parent[refined ! j := j] ! c) = c"
      using assms(1) by (cases "c = refined ! j") (auto simp: parents_upto_def)
  next
    fix u
    assume "u < Suc j"
    then show "parent[refined ! j := j] ! (refined ! u) \<noteq> USIZE_MAX"
      using assms by (cases "refined ! u = refined ! j") (auto simp: parents_upto_def less_Suc_eq)
  qed
  with True show ?thesis by (simp add: set_parent_def)
next
  case False
  with assms(1) show ?thesis by (auto simp: set_parent_def parents_upto_def less_Suc_eq)
qed

lemma length_set_parent [simp]: "length (set_parent uc parent) = length parent"
  by (simp add: set_parent_def split: prod.split)

lemma parents_correct:
  assumes "set refined = {0..<k}" and "length refined \<le> USIZE_MAX"
  shows "length (parents refined) = k \<and>
    (\<forall>c < k. parents refined ! c < length refined \<and> refined ! (parents refined ! c) = c)"
proof -
  let ?init = "replicate k USIZE_MAX"
  have lab: "refined ! u < k" if "u < length refined" for u
    using that assms(1) nth_mem[of u refined] by simp
  have run: "length (fold set_parent (zip [0..<j] (take j refined)) ?init) = k \<and>
      parents_upto refined j (fold set_parent (zip [0..<j] (take j refined)) ?init)" if "j \<le> length refined" for j
    using that
  proof (induction j)
    case 0
    show ?case by (simp add: parents_upto_def)
  next
    case (Suc j)
    have "zip [0..<Suc j] (take (Suc j) refined) = zip [0..<j] (take j refined) @ [(j, refined ! j)]"
      using Suc.prems by (simp add: take_Suc_conv_app_nth)
    then show ?case
      using Suc lab[of j] assms(2) by (simp add: set_parent_upto)
  qed
  from run[of "length refined"] have all: "length (parents refined) = k"
      "parents_upto refined (length refined) (parents refined)"
    by (simp_all add: parents_def label_count_dense[OF assms(1)])
  have "parents refined ! c < length refined \<and> refined ! (parents refined ! c) = c" if c: "c < k" for c
  proof -
    have "c \<in> set refined" using c assms(1) by simp
    then obtain u where "u < length refined" "refined ! u = c" by (metis in_set_conv_nth)
    with all(2) have "parents refined ! c \<noteq> USIZE_MAX" by (auto simp: parents_upto_def)
    with all c show ?thesis by (auto simp: parents_upto_def)
  qed
  with all(1) show ?thesis by blast
qed

lemma write_parents_eq: "length part = i + length ps \<Longrightarrow> write_parents i ps part = take i part @ ps"
proof (induction i ps part rule: write_parents.induct)
  case (2 i p ps part)
  have "take (Suc i) (part[i := p]) = take i part @ [p]"
    using "2.prems" by (simp add: take_Suc_conv_app_nth)
  with 2 show ?case by simp
qed simp

lemma length_fold_update:
  "(\<And>x rows. length (f x rows) = length rows) \<Longrightarrow> length (fold f xs rows) = length rows"
  by (induction xs arbitrary: rows) simp_all

lemma length_aggregate_rows: "length (aggregate_rows F adj refined) = label_count refined"
  unfolding aggregate_rows_def
  by (subst length_fold_update; (simp split: prod.split)?) (auto intro!: length_fold_update split: prod.split)

text \<open>
  The aggregation step discards what local moving found. The next outer iteration starts from
  exactly the refined partition: two nodes share a community afterwards if and only if they share a
  refined one, because the community a refined one came from is never recorded.
\<close>

theorem next_partition_is_refined:
  assumes "set refined = {0..<k}" and "length refined \<le> USIZE_MAX"
    and "a < length refined" and "b < length refined"
  shows "next_partition F adj refined ! a = next_partition F adj refined ! b \<longleftrightarrow> refined ! a = refined ! b"
proof -
  note par = parents_correct[OF assms(1,2)]
  let ?ps = "parents refined"
  let ?agg = "compress ?ps"
  have w: "write_parents 0 ?ps [0..<k] = ?ps" using par by (subst write_parents_eq) simp_all
  have np: "next_partition F adj refined = compress (map (\<lambda>r. ?agg ! r) refined)"
    by (simp add: next_partition_def aggregate_def Let_def length_aggregate_rows label_count_dense[OF assms(1)] w)
  have ra: "refined ! a < k" "refined ! b < k"
    using assms nth_mem[of a refined] nth_mem[of b refined] by simp_all
  have "next_partition F adj refined ! a = next_partition F adj refined ! b \<longleftrightarrow> ?agg ! (refined ! a) = ?agg ! (refined ! b)"
    unfolding np using assms(3,4) by (subst compress_eq_iff) simp_all
  also have "\<dots> \<longleftrightarrow> ?ps ! (refined ! a) = ?ps ! (refined ! b)"
    using ra par by (intro compress_eq_iff) simp_all
  also have "\<dots> \<longleftrightarrow> refined ! a = refined ! b"
    using par ra by metis
  finally show ?thesis .
qed

theorem next_partition_is_refined_witness:
  "next_partition demo_flops [[], [], []] [0, 1, 0] ! 0 \<noteq> next_partition demo_flops [[], [], []] [0, 1, 0] ! 1"
proof -
  have "set [0, 1, 0 :: nat] = {0..<2}" by auto
  from next_partition_is_refined[OF this, of 0 1 demo_flops "[[], [], []]"] show ?thesis
    by (simp add: USIZE_MAX_def)
qed

section \<open>The communities partition the nodes\<close>

lemma length_move_node: "length (fst (move_node F two_m res adj strength u st)) = length (fst st)"
  by (simp add: move_node_def Let_def split: prod.split)

lemma length_move_fold: "length (fst (fold (move_node F two_m res adj strength) us st)) = length (fst st)"
  by (induction us arbitrary: st) (simp_all add: length_move_node)

lemma length_move_passes: "length (fst (move_passes k F two_m res adj strength order st)) = length (fst st)"
proof (induction k arbitrary: st)
  case (Suc k)
  obtain p s where st: "st = (p, s)" by force
  obtain p' s' m where r: "fold (move_node F two_m res adj strength) order (p, s, False) = (p', s', m)"
    by (metis prod_cases3)
  have "length p' = length p" using length_move_fold[of F two_m res adj strength order "(p, s, False)"] by (simp add: r)
  then show ?case using Suc[of "(p', s')"] by (simp add: st r)
qed simp

lemma length_refine_fold:
  "length (fst (fold (refine_node F two_m res adj strength part) us st)) = length (fst st)"
proof (induction us arbitrary: st)
  case (Cons u us)
  have "length (fst (refine_node F two_m res adj strength part u st)) = length (fst st)"
    by (simp add: refine_node_def Let_def split: prod.split)
  with Cons show ?case by simp
qed simp

lemma length_refine: "length (fst (refine_partition F shuf cfg two_m adj strength part rng)) = length adj"
  by (simp add: refine_partition_def Let_def length_refine_fold split: prod.split)

lemma length_iterations:
  "length part = length adj \<Longrightarrow>
   length (leiden_iterations k F shuf cfg two_m adj strength part prev_q rng) = length adj"
proof (induction k arbitrary: part prev_q rng)
  case (Suc k)
  obtain p1 r1 where lm: "local_move F shuf cfg two_m adj strength part rng = (p1, r1)" by force
  obtain p2 r2 where rf: "refine_partition F shuf cfg two_m adj strength p1 r1 = (p2, r2)" by force
  have "length (next_partition F adj p2) = length adj"
    using length_refine[of F shuf cfg two_m adj strength p1 r1] by (simp add: rf next_partition_def Let_def)
  with Suc.IH show ?case by (simp add: lm rf Let_def)
qed simp

lemma length_leiden_inner: "length (leiden_inner F shuf cfg two_m adj rng) = length adj"
  by (simp add: leiden_inner_def Let_def length_iterations)

lemma length_build_adjacency: "length (fst (build_adjacency F n edges)) = n"
proof -
  have "length (fst (fold (add_edge F) es st)) = length (fst st)" for es st
  proof (induction es arbitrary: st)
    case (Cons e es)
    have "length (fst (add_edge F e st)) = length (fst st)"
      by (simp add: add_edge_def Let_def split: prod.split)
    with Cons show ?case by simp
  qed simp
  then show ?thesis by (simp add: build_adjacency_def)
qed

definition members_of :: "nat list \<Rightarrow> nat \<Rightarrow> nat list" where
  "members_of part c = filter (\<lambda>i. part ! i = c) [0..<length part]"

lemma buckets_get:
  "hm_wf (buckets_of part) \<and>
   (\<forall>c. hm_get (buckets_of part) c = (if c \<in> set part then Some (members_of part c) else None))"
proof (induction part rule: rev_induct)
  case Nil
  then show ?case by (simp add: buckets_of_def)
next
  case (snoc x xs)
  let ?ns = "case hm_get (buckets_of xs) x of Some ns \<Rightarrow> ns | None \<Rightarrow> []"
  have step: "buckets_of (xs @ [x]) = hm_insert x (?ns @ [length xs]) (buckets_of xs)"
    by (simp add: buckets_of_def)
  have mem: "members_of (xs @ [x]) c = members_of xs c @ (if c = x then [length xs] else [])" for c
    by (auto simp: members_of_def nth_append intro!: filter_cong)
  have "members_of xs c = []" if "c \<notin> set xs" for c
    using that by (auto simp: members_of_def filter_empty_conv)
  with snoc show ?case by (auto simp: step mem)
qed

lemma mset_filter_disjoint:
  "(\<And>x. \<not> (P x \<and> Q x)) \<Longrightarrow> mset (filter P xs) + mset (filter Q xs) = mset (filter (\<lambda>x. P x \<or> Q x) xs)"
  by (induction xs) auto

lemma mset_concat_members:
  assumes "distinct ks"
  shows "mset (concat (map (members_of part) ks)) = mset (filter (\<lambda>i. part ! i \<in> set ks) [0..<length part])"
  using assms
proof (induction ks)
  case (Cons k ks)
  then have "mset (concat (map (members_of part) (k # ks))) =
      mset (filter (\<lambda>i. part ! i = k) [0..<length part]) + mset (filter (\<lambda>i. part ! i \<in> set ks) [0..<length part])"
    by (simp add: members_of_def[of part k] del: mset_filter)
  also have "\<dots> = mset (filter (\<lambda>i. part ! i = k \<or> part ! i \<in> set ks) [0..<length part])"
    using Cons.prems by (intro mset_filter_disjoint) auto
  finally show ?case by simp
qed simp

lemma communities_of_correct:
  assumes "length part = length node_ids"
  shows "mset (concat (map comm_members (communities_of F as_f32 node_ids adj part))) = mset node_ids \<and>
    (\<forall>c \<in> set (communities_of F as_f32 node_ids adj part). comm_members c \<noteq> []) \<and>
    map comm_id (communities_of F as_f32 node_ids adj part) =
      map of_nat [0..<length (communities_of F as_f32 node_ids adj part)]"
proof -
  let ?b = "buckets_of part" and ?cs = "communities_of F as_f32 node_ids adj part"
  let ?ks = "sort (hm_keys ?b)"
  have get: "hm_wf ?b" "\<And>c. hm_get ?b c = (if c \<in> set part then Some (members_of part c) else None)"
    using buckets_get[of part] by auto
  have keys: "c \<in> set (hm_keys ?b) \<longleftrightarrow> c \<in> set part" for c
    using hm_get_iff_keys[of ?b c] get(2)[of c] by (simp split: if_splits)
  have ks: "distinct ?ks" "set ?ks = set part"
    using get(1) keys by (auto simp: hm_wf_def)
  have "map comm_members ?cs = map (\<lambda>k. map ((!) node_ids) (members_of part k)) ?ks"
  proof (rule nth_equalityI)
    fix i
    assume "i < length (map comm_members ?cs)"
    then have i: "i < length ?ks" by (simp add: communities_of_def Let_def)
    then have "?ks ! i \<in> set part" using ks(2) nth_mem by blast
    with i show "map comm_members ?cs ! i = map (\<lambda>k. map ((!) node_ids) (members_of part k)) ?ks ! i"
      by (simp add: communities_of_def Let_def get(2))
  qed (simp add: communities_of_def Let_def)
  then have mem: "map comm_members ?cs = map (map ((!) node_ids)) (map (members_of part) ?ks)" by simp
  have "mset (concat (map comm_members ?cs)) = image_mset ((!) node_ids) (mset (concat (map (members_of part) ?ks)))"
    unfolding mem map_concat[symmetric] by simp
  also have "mset (concat (map (members_of part) ?ks)) = mset [0..<length part]"
    using ks by (subst mset_concat_members) (auto simp del: mset_upt intro!: arg_cong[of _ _ mset] filter_True)
  also have "image_mset ((!) node_ids) (mset [0..<length part]) = mset node_ids"
    unfolding assms by (metis map_nth mset_map)
  finally have "mset (concat (map comm_members ?cs)) = mset node_ids" .
  moreover have "members_of part c \<noteq> []" if "c \<in> set part" for c
    using that by (auto simp: members_of_def filter_empty_conv in_set_conv_nth)
  then have "\<forall>ms \<in> set (map comm_members ?cs). ms \<noteq> []" unfolding mem using ks(2) by auto
  moreover have "map comm_id ?cs = map of_nat [0..<length ?cs]"
    by (rule nth_equalityI) (simp_all add: communities_of_def Let_def)
  ultimately show ?thesis by simp
qed

lemma leiden_run_correct:
  "mset (concat (map comm_members (leiden_run F shuf seed_from as_f32 cfg node_ids edges))) = mset node_ids \<and>
   (\<forall>c \<in> set (leiden_run F shuf seed_from as_f32 cfg node_ids edges). comm_members c \<noteq> []) \<and>
   map comm_id (leiden_run F shuf seed_from as_f32 cfg node_ids edges) =
     map of_nat [0..<length (leiden_run F shuf seed_from as_f32 cfg node_ids edges)]"
proof (cases "node_ids = []")
  case False
  obtain adj tot where a: "build_adjacency F (length node_ids) edges = (adj, tot)" by force
  then have "length adj = length node_ids" using length_build_adjacency[of F "length node_ids" edges] by simp
  then have "length (leiden_inner F shuf cfg m adj (seed_from (seed cfg))) = length node_ids" for m
    by (simp add: length_leiden_inner)
  note cs = communities_of_correct[OF this, of F as_f32 adj]
  define m where "m = (if fl_less F (fl_zero F) tot then fl_mul F (fl_two F) tot else fl_one F)"
  have eq: "leiden_run F shuf seed_from as_f32 cfg node_ids edges =
      communities_of F as_f32 node_ids adj (leiden_inner F shuf cfg m adj (seed_from (seed cfg)))"
    using False by (simp add: leiden_run_def Let_def a m_def)
  show ?thesis unfolding eq by (rule cs)
qed (simp add: leiden_run_def)

lemma leiden_run_members:
  "mset (concat (map comm_members (leiden_run F shuf seed_from as_f32 cfg node_ids edges))) = mset node_ids"
  using leiden_run_correct[of F shuf seed_from as_f32 cfg node_ids edges] by blast

text \<open>
  C15: whatever the weights, the arithmetic and the shuffles, the solver returns a partition of the
  graph's nodes: every node is in exactly one community, as often as the graph has it, no community is
  empty, and the communities are numbered from zero.
\<close>

theorem leiden_run_partitions:
  "mset (concat (map comm_members (leiden_run F shuf seed_from as_f32 cfg node_ids edges))) = mset node_ids \<and>
   (\<forall>c \<in> set (leiden_run F shuf seed_from as_f32 cfg node_ids edges). comm_members c \<noteq> []) \<and>
   map comm_id (leiden_run F shuf seed_from as_f32 cfg node_ids edges) =
     map of_nat [0..<length (leiden_run F shuf seed_from as_f32 cfg node_ids edges)]"
  by (rule leiden_run_correct)

theorem leiden_run_partitions_witness:
  "mset (concat (map comm_members (leiden_run demo_flops (\<lambda>r xs. (xs, r)) (\<lambda>s. s) (\<lambda>x. x) demo_config
      [5, 6, 7] [(0, 1, 1)]))) = {#5, 6, 7#}"
  using leiden_run_partitions[of demo_flops "\<lambda>r xs. (xs, r)" "\<lambda>s. s" "\<lambda>x. x" demo_config "[5, 6, 7]" "[(0, 1, 1)]"]
  by simp

end
