(* ===== verification/Cluster_Runner.thy ===== *)
theory Cluster_Runner
  imports Leiden_Properties "HOL-Library.Product_Lexorder" "HOL-Library.Option_ord"
begin

text \<open>
  The periodic Leiden runner (\<open>brain/src/cluster_runner.rs\<close>): it builds the graph from an edge list, runs
  the solver and splits oversized communities recursively. What the runner needs of a solver is the
  interface \<open>community_solver\<close>, which the Leiden solver interprets.
\<close>

section \<open>Model\<close>

record ('f, 'w) ClusterRunnerConfig =
  crc_leiden :: "'f LeidenConfig"
  oversize_ratio :: 'w
  max_split_depth :: usize
  split_resolution_step :: 'f

type_synonym 'w edge = "NodeId \<times> NodeId \<times> 'w"

type_synonym 'w graph = "NodeId list \<times> (nat \<times> nat \<times> 'w) list"

text \<open>\<open>seen.entry(a).or_insert_with(|| g.add_node(a))\<close>: node indices are handed out from zero.\<close>

definition node_index :: "NodeId \<Rightarrow> NodeId list \<times> (NodeId, nat) hmap \<Rightarrow> nat \<times> NodeId list \<times> (NodeId, nat) hmap" where
  "node_index a st =
     (case st of (nodes, seen) \<Rightarrow>
        (case hm_get seen a of
           Some i \<Rightarrow> (i, nodes, seen)
         | None \<Rightarrow> (length nodes, nodes @ [a], hm_insert a (length nodes) seen)))"

text \<open>\<open>good\<close> says that a weight is finite and positive.\<close>

fun build_graph_go ::
  "('w \<Rightarrow> bool) \<Rightarrow> 'w edge list \<Rightarrow> NodeId list \<times> (NodeId, nat) hmap \<Rightarrow> (nat \<times> nat \<times> 'w) list \<Rightarrow> 'w graph" where
  "build_graph_go good [] (nodes, seen) es = (nodes, es)"
| "build_graph_go good ((a, b, w) # edges) (nodes, seen) es =
     (if \<not> good w then build_graph_go good edges (nodes, seen) es
      else case node_index a (nodes, seen) of
        (ai, st1) \<Rightarrow>
          (case node_index b st1 of
             (bi, st2) \<Rightarrow>
               if ai = bi then build_graph_go good edges st2 es
               else build_graph_go good edges st2 (es @ [(ai, bi, w)])))"

definition build_graph :: "('w \<Rightarrow> bool) \<Rightarrow> 'w edge list \<Rightarrow> 'w graph" where
  "build_graph good edges = build_graph_go good edges ([], []) []"

definition min_member :: "NodeId list \<Rightarrow> NodeId option" where
  "min_member ms = (case ms of [] \<Rightarrow> None | x # xs \<Rightarrow> Some (fold min xs x))"

definition reindex :: "'c Community list \<Rightarrow> 'c Community list" where
  "reindex cs =
     (let sorted = sort_key (\<lambda>c. (- int (length (comm_members c)), min_member (comm_members c))) cs
      in map (\<lambda>(i, c). c\<lparr>comm_id := of_nat i\<rparr>) (zip [0..<length sorted] sorted))"

text \<open>
  What the runner calls: the solver, the weight test, the threshold \<open>ceil(total * ratio)\<close> in \<open>f32\<close> and
  the product of resolutions in \<open>f64\<close>.
\<close>

record ('f, 'w, 'c) renv =
  re_solve :: "'f LeidenConfig \<Rightarrow> NodeId list \<Rightarrow> (nat \<times> nat \<times> 'w) list \<Rightarrow> 'c Community list"
  re_good :: "'w \<Rightarrow> bool"
  re_threshold :: "nat \<Rightarrow> 'w \<Rightarrow> nat"
  re_mul :: "'f \<Rightarrow> 'f \<Rightarrow> 'f"

definition sub_edges :: "'w edge list \<Rightarrow> NodeId list \<Rightarrow> 'w edge list" where
  "sub_edges edges members = filter (\<lambda>(a, b, w). a \<in> set members \<and> b \<in> set members) edges"

definition sub_config :: "('f \<Rightarrow> 'f \<Rightarrow> 'f) \<Rightarrow> nat \<Rightarrow> ('f, 'w) ClusterRunnerConfig \<Rightarrow> ('f, 'w) ClusterRunnerConfig" where
  "sub_config mul depth cfg =
     cfg\<lparr>crc_leiden := (crc_leiden cfg)
           \<lparr>resolution := mul (resolution (crc_leiden cfg)) (split_resolution_step cfg),
            seed := seed (crc_leiden cfg) + (of_nat depth + 1)\<rparr>\<rparr>"

text \<open>
  \<open>split_oversized\<close>. The first argument is \<open>max_split_depth - depth\<close>, the number of levels left: the
  recursion keeps \<open>max_split_depth\<close> and increases \<open>depth\<close> by one.
\<close>

fun split_oversized ::
  "nat \<Rightarrow> ('f, 'w, 'c) renv \<Rightarrow> ('f, 'w) ClusterRunnerConfig \<Rightarrow> 'w edge list \<Rightarrow> nat \<Rightarrow> 'c Community list \<Rightarrow> nat \<Rightarrow>
   'c Community list" where
  "split_oversized 0 env cfg edges total_nodes communities depth = reindex communities"
| "split_oversized (Suc left) env cfg edges total_nodes communities depth =
     (if total_nodes = 0 then reindex communities
      else let threshold = re_threshold env total_nodes (oversize_ratio cfg) in
      if threshold < 4 then reindex communities
      else reindex (concat (map (\<lambda>comm.
        if length (comm_members comm) \<le> threshold then [comm]
        else let se = sub_edges edges (comm_members comm) in
          if se = [] then [comm]
          else let sub_cfg = sub_config (re_mul env) depth cfg;
                   sub_initial = (case build_graph (re_good env) se of
                      (nodes, es) \<Rightarrow> re_solve env (crc_leiden sub_cfg) nodes es)
               in if length sub_initial \<le> 1 then [comm]
                  else split_oversized left env sub_cfg se (length (comm_members comm)) sub_initial (depth + 1))
        communities)))"

definition cluster_run :: "('f, 'w, 'c) renv \<Rightarrow> ('f, 'w) ClusterRunnerConfig \<Rightarrow> 'w edge list \<Rightarrow> 'c Community list" where
  "cluster_run env cfg edges =
     (if edges = [] then []
      else case build_graph (re_good env) edges of
        (nodes, es) \<Rightarrow>
          split_oversized (max_split_depth cfg) env cfg edges (length nodes)
            (re_solve env (crc_leiden cfg) nodes es) 0)"

section \<open>The graph\<close>

definition endpoints :: "('w \<Rightarrow> bool) \<Rightarrow> 'w edge list \<Rightarrow> NodeId set" where
  "endpoints good edges = {x. \<exists>a b w. (a, b, w) \<in> set edges \<and> good w \<and> (x = a \<or> x = b)}"

definition indexed :: "NodeId list \<Rightarrow> (NodeId, nat) hmap \<Rightarrow> bool" where
  "indexed nodes seen \<longleftrightarrow> distinct nodes \<and> (\<forall>x. hm_get seen x \<noteq> None \<longleftrightarrow> x \<in> set nodes)"

lemma node_index_indexed:
  assumes "indexed nodes seen" and "node_index a (nodes, seen) = (i, nodes', seen')"
  shows "indexed nodes' seen' \<and> set nodes' = insert a (set nodes)"
proof (cases "hm_get seen a")
  case None
  then have "a \<notin> set nodes" using assms(1) unfolding indexed_def by metis
  moreover have "nodes' = nodes @ [a]" "seen' = hm_insert a (length nodes) seen"
    using None assms(2) by (auto simp: node_index_def)
  moreover have "hm_get (hm_insert a (length nodes) seen) x \<noteq> None \<longleftrightarrow> x = a \<or> hm_get seen x \<noteq> None" for x
    by simp
  ultimately show ?thesis using assms(1) unfolding indexed_def by auto
next
  case (Some j)
  then have "a \<in> set nodes" using assms(1) unfolding indexed_def by (metis option.distinct(1))
  with Some assms show ?thesis by (auto simp: node_index_def)
qed

lemma build_graph_go_nodes:
  assumes "indexed nodes seen"
  shows "distinct (fst (build_graph_go good edges (nodes, seen) es)) \<and>
    set (fst (build_graph_go good edges (nodes, seen) es)) = set nodes \<union> endpoints good edges"
  using assms
proof (induction edges arbitrary: nodes seen es)
  case Nil
  then show ?case by (simp add: indexed_def endpoints_def)
next
  case (Cons e edges)
  obtain a b w where e: "e = (a, b, w)" by (cases e)
  show ?case
  proof (cases "good w")
    case False
    moreover have "endpoints good (e # edges) = endpoints good edges"
      using False by (auto simp: endpoints_def e)
    ultimately show ?thesis using Cons by (simp add: e)
  next
    case True
    obtain ai n1 s1 where 1: "node_index a (nodes, seen) = (ai, n1, s1)" by (metis prod_cases3)
    obtain bi n2 s2 where 2: "node_index b (n1, s1) = (bi, n2, s2)" by (metis prod_cases3)
    have i1: "indexed n1 s1" "set n1 = insert a (set nodes)" using node_index_indexed[OF Cons.prems 1] by auto
    have i2: "indexed n2 s2" "set n2 = insert b (set n1)" using node_index_indexed[OF i1(1) 2] by auto
    have "endpoints good (e # edges) = {a, b} \<union> endpoints good edges"
      using True by (auto simp: endpoints_def e)
    with Cons.IH[OF i2(1)] i1 i2 True show ?thesis by (auto simp: e 1 2)
  qed
qed

lemma build_graph_nodes:
  "distinct (fst (build_graph good edges)) \<and> set (fst (build_graph good edges)) = endpoints good edges"
  using build_graph_go_nodes[of "[]" "[]" good edges "[]"] by (simp add: build_graph_def indexed_def)

section \<open>Reindexing\<close>

lemma mset_concat_mset: "mset xss = mset yss \<Longrightarrow> mset (concat xss) = mset (concat yss)"
proof -
  have "mset (concat zss) = \<Sum>\<^sub># (image_mset mset (mset zss))" for zss :: "'a list list"
    by (induction zss) simp_all
  then show "mset xss = mset yss \<Longrightarrow> mset (concat xss) = mset (concat yss)" by simp
qed

lemma reindex_members: "mset (concat (map comm_members (reindex cs))) = mset (concat (map comm_members cs))"
proof -
  let ?s = "sort_key (\<lambda>c. (- int (length (comm_members c)), min_member (comm_members c))) cs"
  have "map comm_members (reindex cs) = map comm_members ?s"
    by (rule nth_equalityI) (simp_all add: reindex_def Let_def)
  moreover have "mset (map comm_members ?s) = mset (map comm_members cs)" by (simp only: mset_map mset_sort)
  ultimately show ?thesis using mset_concat_mset[of "map comm_members ?s" "map comm_members cs"] by simp
qed

lemma reindex_ids: "map comm_id (reindex cs) = map of_nat [0..<length (reindex cs)]"
  by (rule nth_equalityI) (simp_all add: reindex_def Let_def)

lemma length_reindex [simp]: "length (reindex cs) = length cs"
  by (simp add: reindex_def Let_def)

lemma reindex_sorted: "sorted (map (\<lambda>c. (- int (length (comm_members c)), min_member (comm_members c))) (reindex cs))"
proof -
  let ?key = "\<lambda>c. (- int (length (comm_members c)), min_member (comm_members c))"
  have "map ?key (reindex cs) = map ?key (sort_key ?key cs)"
    by (rule nth_equalityI) (simp_all add: reindex_def Let_def)
  then show ?thesis by simp
qed

section \<open>What the runner needs of a solver\<close>

locale community_solver =
  fixes solve :: "'cfg \<Rightarrow> NodeId list \<Rightarrow> (nat \<times> nat \<times> 'w) list \<Rightarrow> 'c Community list"
  assumes solve_partitions: "mset (concat (map comm_members (solve cfg nodes es))) = mset nodes"
begin

lemma solve_members: "set (concat (map comm_members (solve cfg nodes es))) = set nodes"
  using solve_partitions by (metis set_mset_mset)

lemma solve_distinct: "distinct nodes \<Longrightarrow> distinct (concat (map comm_members (solve cfg nodes es)))"
  using solve_partitions[of cfg nodes es] mset_eq_imp_distinct_iff by blast

end

interpretation leiden: community_solver
  "\<lambda>cfg nodes es. leiden_run F shuf seed_from as_f32 cfg nodes (map (\<lambda>(a, b, w). (a, b, conv w)) es)"
  for F :: "'f flops" and shuf :: "'r shuffle" and seed_from and as_f32 :: "'f \<Rightarrow> 'c" and conv :: "'w \<Rightarrow> 'f"
  by unfold_locales (simp only: leiden_run_members)

text \<open>A solver in the environment of the runner that has the interface.\<close>

definition solver_ok :: "('f, 'w, 'c) renv \<Rightarrow> bool" where
  "solver_ok env \<longleftrightarrow> (\<forall>cfg nodes es. mset (concat (map comm_members (re_solve env cfg nodes es))) = mset nodes)"

lemma solver_ok_interface: "solver_ok env \<longleftrightarrow> community_solver (re_solve env)"
  by (simp add: solver_ok_def community_solver_def)

section \<open>Splitting\<close>

lemma sub_endpoints: "endpoints good (sub_edges edges members) \<subseteq> set members"
  by (auto simp: endpoints_def sub_edges_def)

lemma mset_concat_sub:
  "(\<And>c. c \<in> set cs \<Longrightarrow> mset (concat (map m (f c))) \<subseteq># mset (m c)) \<Longrightarrow>
   mset (concat (map m (concat (map f cs)))) \<subseteq># mset (concat (map m cs))"
  by (induction cs) (auto intro!: subset_mset.add_mono)

lemma distinct_sub_mset:
  assumes "distinct xs" and "set xs \<subseteq> set ys"
  shows "mset xs \<subseteq># mset ys"
proof (rule mset_subset_eqI)
  fix a
  show "count (mset xs) a \<le> count (mset ys) a"
  proof (cases "a \<in> set xs")
    case True
    then have "count (mset xs) a = 1" using assms(1) by (simp add: distinct_count_atmost_1)
    moreover have "a \<in># mset ys" using True assms(2) by auto
    then have "1 \<le> count (mset ys) a" by (simp add: Suc_leI)
    ultimately show ?thesis by simp
  next
    case False
    then have "a \<notin># mset xs" by simp
    then have "count (mset xs) a = 0" by (simp only: not_in_iff)
    then show ?thesis by (simp only: le0)
  qed
qed

lemma split_members:
  assumes "solver_ok env"
  shows "mset (concat (map comm_members (split_oversized left env cfg edges tot communities depth)))
    \<subseteq># mset (concat (map comm_members communities))"
proof (induction left arbitrary: cfg edges tot communities depth)
  case (Suc left)
  let ?thr = "re_threshold env tot (oversize_ratio cfg)"
  let ?sub = "sub_config (re_mul env) depth cfg"
  let ?g = "\<lambda>c. build_graph (re_good env) (sub_edges edges (comm_members c))"
  let ?init = "\<lambda>c. re_solve env (crc_leiden ?sub) (fst (?g c)) (snd (?g c))"
  let ?f = "\<lambda>c. if length (comm_members c) \<le> ?thr then [c]
      else if sub_edges edges (comm_members c) = [] then [c]
      else if length (?init c) \<le> 1 then [c]
      else split_oversized left env ?sub (sub_edges edges (comm_members c)) (length (comm_members c)) (?init c) (depth + 1)"
  have one: "mset (concat (map comm_members (?f c))) \<subseteq># mset (comm_members c)" for c
  proof -
    have eq: "mset (concat (map comm_members (?init c))) = mset (fst (?g c))"
      using assms unfolding solver_ok_def by blast
    have sub: "mset (fst (?g c)) \<subseteq># mset (comm_members c)"
      using build_graph_nodes[of "re_good env" "sub_edges edges (comm_members c)"] sub_endpoints
      by (intro distinct_sub_mset) auto
    have "mset (concat (map comm_members (?init c))) \<subseteq># mset (comm_members c)"
      unfolding eq by (rule sub)
    with Suc[of ?sub "sub_edges edges (comm_members c)" "length (comm_members c)" "?init c" "depth + 1"]
    have "mset (concat (map comm_members (split_oversized left env ?sub (sub_edges edges (comm_members c))
        (length (comm_members c)) (?init c) (depth + 1)))) \<subseteq># mset (comm_members c)"
      by (rule subset_mset.order_trans)
    then show ?thesis by simp
  qed
  have eq: "split_oversized (Suc left) env cfg edges tot communities depth =
      (if tot = 0 \<or> ?thr < 4 then reindex communities else reindex (concat (map ?f communities)))"
    unfolding split_oversized.simps Let_def by (simp add: case_prod_unfold cong: if_cong)
  show ?case
    unfolding eq using mset_concat_sub[of communities comm_members ?f, OF one] by (simp add: reindex_members)
qed (simp add: reindex_members)

lemma split_shape:
  "\<exists>cs. split_oversized left env cfg edges tot communities depth = reindex cs"
  by (cases left) (auto simp: Let_def)

lemma cluster_run_members:
  assumes "solver_ok env"
  shows "mset (concat (map comm_members (cluster_run env cfg edges))) \<subseteq># mset (fst (build_graph (re_good env) edges))"
proof (cases "edges = []")
  case False
  obtain nodes es where g: "build_graph (re_good env) edges = (nodes, es)" by force
  have "mset (concat (map comm_members (re_solve env (crc_leiden cfg) nodes es))) = mset nodes"
    using assms unfolding solver_ok_def by blast
  with split_members[OF assms, of "max_split_depth cfg" cfg edges "length nodes" "re_solve env (crc_leiden cfg) nodes es" 0]
  show ?thesis using False by (simp add: cluster_run_def g)
qed (simp add: cluster_run_def)

lemma cluster_run_distinct:
  assumes "solver_ok env"
  shows "distinct (concat (map comm_members (cluster_run env cfg edges)))"
proof -
  have "distinct (fst (build_graph (re_good env) edges))" using build_graph_nodes by blast
  then have "count (mset (fst (build_graph (re_good env) edges))) x \<le> 1" for x
    by (simp add: distinct_count_atmost_1)
  moreover have "count (mset (concat (map comm_members (cluster_run env cfg edges)))) x
      \<le> count (mset (fst (build_graph (re_good env) edges))) x" for x
    using cluster_run_members[OF assms] by (rule mset_subset_eq_count)
  ultimately have "count (mset (concat (map comm_members (cluster_run env cfg edges)))) x \<le> 1" for x
    by (meson le_trans)
  then show ?thesis unfolding distinct_count_atmost_1 by (metis One_nat_def count_eq_zero_iff le_SucE le_zero_eq set_mset_mset)
qed

section \<open>The runner\<close>

text \<open>
  C16: whenever the solver it calls partitions the nodes of its graph, the runner returns disjoint
  communities without duplicate members, all of them endpoints of an edge with a finite positive weight,
  numbered from zero, and ordered by falling size with ties broken by the least member.
\<close>

theorem cluster_run_disjoint:
  assumes "solver_ok env"
  shows "distinct (concat (map comm_members (cluster_run env cfg edges))) \<and>
    set (concat (map comm_members (cluster_run env cfg edges))) \<subseteq> endpoints (re_good env) edges \<and>
    map comm_id (cluster_run env cfg edges) = map of_nat [0..<length (cluster_run env cfg edges)] \<and>
    sorted (map (\<lambda>c. (- int (length (comm_members c)), min_member (comm_members c))) (cluster_run env cfg edges))"
proof -
  have "set (concat (map comm_members (cluster_run env cfg edges))) \<subseteq> endpoints (re_good env) edges"
    using cluster_run_members[OF assms, of cfg edges] build_graph_nodes[of "re_good env" edges]
    by (metis set_mset_mono set_mset_mset)
  moreover have "\<exists>cs. cluster_run env cfg edges = reindex cs"
  proof (cases "edges = []")
    case True
    then have "cluster_run env cfg edges = reindex []" by (simp add: cluster_run_def reindex_def)
    then show ?thesis by blast
  next
    case False
    with split_shape show ?thesis by (auto simp: cluster_run_def split: prod.splits)
  qed
  ultimately show ?thesis
    using cluster_run_distinct[OF assms, of cfg edges] reindex_ids reindex_sorted by metis
qed

text \<open>The runner on the Leiden solver of the development, with integers for the floats.\<close>

definition demo_renv :: "(int, int, int) renv" where
  "demo_renv = \<lparr>re_solve = leiden_run demo_flops (\<lambda>r xs. (xs, r)) (\<lambda>s. s) (\<lambda>x. x),
     re_good = (\<lambda>w. 0 < w), re_threshold = (\<lambda>n r. n div 4), re_mul = (*)\<rparr>"

lemma demo_renv_ok: "solver_ok demo_renv"
  using leiden.solve_partitions[where F = demo_flops and shuf = "\<lambda>r xs. (xs, r)" and seed_from = "\<lambda>s. s"
      and ?as_f32.0 = "\<lambda>x. x" and conv = "\<lambda>x. x"]
  by (simp add: solver_ok_def demo_renv_def)

theorem cluster_run_disjoint_witness:
  "solver_ok demo_renv \<and> distinct (concat (map comm_members (cluster_run demo_renv
     \<lparr>crc_leiden = demo_config, oversize_ratio = 0, max_split_depth = 3, split_resolution_step = 2\<rparr>
     [(7, 5, 1), (5, 6, 2), (8, 9, 0)])))"
  using cluster_run_disjoint[OF demo_renv_ok] demo_renv_ok by blast

end
