(* ===== verification/Ipc_Frame.thy ===== *)
theory Ipc_Frame
  imports Supervisor_Error
begin

text \<open>
  The framing of the control socket: a big-endian \<open>u32\<close> length and a body. Both ends of the protocol
  read and write frames: the server (\<open>supervisor/src/ipc.rs\<close>), the command line (\<open>cli/src/ipc.rs\<close>) and
  the workers (\<open>common/src/worker_ipc.rs\<close>). A stream is the bytes that are still to arrive and the error a
  read past them gives.
\<close>

unbundle bit_operations_syntax

section \<open>Model\<close>

definition to_be_bytes :: "u32 \<Rightarrow> bytes" where
  "to_be_bytes w = [ucast (drop_bit 24 w), ucast (drop_bit 16 w), ucast (drop_bit 8 w), ucast w]"

fun from_be_bytes :: "bytes \<Rightarrow> u32" where
  "from_be_bytes [a, b, c, d] =
     push_bit 24 (ucast a) OR push_bit 16 (ucast b) OR push_bit 8 (ucast c) OR ucast d"
| "from_be_bytes _ = 0"

text \<open>\<open>framed\<close>: the length is cast to \<open>u32\<close>.\<close>

definition framed :: "bytes \<Rightarrow> bytes" where
  "framed body = to_be_bytes (of_nat (length body)) @ body"

record stream =
  st_bytes :: bytes
  st_end :: io_error

definition read_exact :: "nat \<Rightarrow> stream \<Rightarrow> (io_error + bytes) \<times> stream" where
  "read_exact n s =
     (if length (st_bytes s) < n then (Inl (st_end s), s\<lparr>st_bytes := []\<rparr>)
      else (Inr (take n (st_bytes s)), s\<lparr>st_bytes := drop n (st_bytes s)\<rparr>))"

section \<open>Frames can be read back\<close>

lemma from_to_be_bytes [simp]: "from_be_bytes (to_be_bytes w) = w"
proof (rule bit_word_eqI)
  fix n assume "n < LENGTH(32)"
  then consider "n < 8" | "8 \<le> n" "n < 16" | "16 \<le> n" "n < 24" | "24 \<le> n" "n < 32" by fastforce
  then show "bit (from_be_bytes (to_be_bytes w)) n \<longleftrightarrow> bit w n"
    by cases (auto simp: to_be_bytes_def bit_simps)
qed

lemma length_to_be_bytes [simp]: "length (to_be_bytes w) = 4"
  by (simp add: to_be_bytes_def)

lemma read_frame:
  assumes "st_bytes s = framed body @ rest" and "length body < 2 ^ 32"
  shows "read_exact 4 s = (Inr (to_be_bytes (of_nat (length body))), s\<lparr>st_bytes := body @ rest\<rparr>)"
    and "unat (from_be_bytes (to_be_bytes (of_nat (length body)))) = length body"
    and "read_exact (length body) (s\<lparr>st_bytes := body @ rest\<rparr>) = (Inr body, s\<lparr>st_bytes := rest\<rparr>)"
  using assms by (simp_all add: read_exact_def framed_def unat_of_nat take_bit_nat_eq_self)

end
