(* ===== verification/Blast_Query.thy ===== *)
theory Blast_Query
  imports Cli_Error "HOL-Library.Multiset"
begin

text \<open>
  The blast-radius query. \<open>run_blast\<close> of the supervisor (\<open>supervisor/src/ipc.rs\<close>) walks the reversed
  edges of the code graph breadth first and returns a flat list; \<open>run\<close> of \<open>cli/src/commands/blast.rs\<close>
  walks the same graph when the supervisor is down and keeps one list per depth; \<open>print_layers\<close> prints
  either. What SQLite answers to the two prepared statements is an argument: an error text, or rows, of
  which each is a decoding error or a nullable column.
\<close>

section \<open>Model\<close>

record BlastItem =
  bi_qualified_name :: string
  bi_depth :: usize

type_synonym row = "string + string option"

text \<open>
  The statements of a shard. The first finds the nodes whose qualified name, name or file path is the target, in that
  order of preference; \<open>bd_targets\<close> is every row it would find, before its \<open>LIMIT\<close>, and its error text carries its
  prefix already. The second gives the sources of the edges into a node and is prepared once.
\<close>

record blast_db =
  bd_targets :: "string \<Rightarrow> string + row list"
  bd_prepare :: "string option"
  bd_callers :: "string \<Rightarrow> string + row list"

text \<open>\<open>if let Ok(Some(q)) = r\<close>\<close>

fun row_names :: "row list \<Rightarrow> string list" where
  "row_names [] = []"
| "row_names (Inr (Some q) # rs) = q # row_names rs"
| "row_names (_ # rs) = row_names rs"

text \<open>
  The names a target stands for: those of the first ten rows, \<open>LIMIT 10\<close>. The supervisor has the same statement
  and loop in \<open>run_blast\<close>.
\<close>

definition resolve_target :: "blast_db \<Rightarrow> string \<Rightarrow> string + string list" where
  "resolve_target db tgt = map_sum id (\<lambda>rows. row_names (take 10 rows)) (bd_targets db tgt)"

subsection \<open>The supervisor\<close>

fun visit_rows ::
  "usize \<Rightarrow> row list \<Rightarrow> string list \<times> (string \<times> usize) list \<times> BlastItem list \<Rightarrow>
   string list \<times> (string \<times> usize) list \<times> BlastItem list" where
  "visit_rows d [] st = st"
| "visit_rows d (r # rs) (visited, frontier, impacted) =
     (case r of
        Inr (Some src) \<Rightarrow>
          if src \<in> set visited then visit_rows d rs (visited, frontier, impacted)
          else visit_rows d rs
            (src # visited, frontier @ [(src, d + 1)],
             impacted @ [\<lparr>bi_qualified_name = src, bi_depth = d + 1\<rparr>])
      | _ \<Rightarrow> visit_rows d rs (visited, frontier, impacted))"

text \<open>The names that are new, in the order of the rows.\<close>

fun fresh :: "string list \<Rightarrow> string list \<Rightarrow> string list" where
  "fresh visited [] = []"
| "fresh visited (s # ss) =
     (if s \<in> set visited then fresh visited ss else s # fresh (s # visited) ss)"

lemma visit_rows_fresh:
  "visit_rows d rs (visited, frontier, impacted) =
     (rev (fresh visited (row_names rs)) @ visited,
      frontier @ map (\<lambda>s. (s, d + 1)) (fresh visited (row_names rs)),
      impacted @ map (\<lambda>s. \<lparr>bi_qualified_name = s, bi_depth = d + 1\<rparr>) (fresh visited (row_names rs)))"
  by (induction rs arbitrary: visited frontier impacted rule: row_names.induct) auto

lemma mult_frontier:
  assumes "\<not> dep \<le> d"
  shows "(mset (map (\<lambda>(n, e). dep - e) (frontier @ map (\<lambda>s. (s, d + 1)) news)),
          mset (map (\<lambda>(n, e). dep - e) ((node, d) # frontier))) \<in> mult less_than"
proof -
  let ?K = "mset (map (\<lambda>s. dep - (d + 1)) news)"
  let ?I = "mset (map (\<lambda>(n, e). dep - e) frontier)"
  have "(?I + ?K, ?I + {#dep - d#}) \<in> mult less_than"
    using assms by (intro one_step_implies_mult) auto
  then show ?thesis by (simp add: comp_def case_prod_unfold)
qed

lemma mult_pop: "(M, add_mset a M) \<in> mult less_than" for M :: "nat multiset"
  using one_step_implies_mult[of "{#a#}" "{#}" less_than M] by simp

text \<open>
  The \<open>while let Some((node, d)) = frontier.pop_front()\<close> loop. Every round replaces an entry by entries
  that are deeper, up to the depth bound, so it ends on every database.
\<close>

function blast_loop ::
  "blast_db \<Rightarrow> usize \<Rightarrow> string list \<Rightarrow> (string \<times> usize) list \<Rightarrow> BlastItem list \<Rightarrow> string + BlastItem list" where
  "blast_loop db dep visited [] impacted = Inr impacted"
| "blast_loop db dep visited ((node, d) # frontier) impacted =
     (if d \<ge> dep then blast_loop db dep visited frontier impacted
      else case bd_callers db node of
        Inl e \<Rightarrow> Inl (''exec blast query: '' @ e)
      | Inr rows \<Rightarrow>
          (case visit_rows d rows (visited, frontier, impacted) of
             (visited', frontier', impacted') \<Rightarrow> blast_loop db dep visited' frontier' impacted'))"
  by pat_completeness auto

termination blast_loop
proof (relation "inv_image (mult less_than) (\<lambda>(db, dep, v, frontier, i). mset (map (\<lambda>(n, e). dep - e) frontier))",
    goal_cases)
  case 1
  then show ?case by (simp add: wf_mult)
next
  case (2 db dep visited node d frontier impacted)
  then show ?case by (simp add: mult_pop)
next
  case (3 db dep visited node d frontier impacted rows x xa y)
  then show ?case using mult_frontier[of dep d frontier "fresh visited (row_names rows)" node]
    by (auto simp: visit_rows_fresh multiset.map_comp comp_def)
qed

definition run_blast :: "blast_db \<Rightarrow> string \<Rightarrow> usize \<Rightarrow> string + BlastItem list" where
  "run_blast db tgt dep =
     (case resolve_target db tgt of
        Inl e \<Rightarrow> Inl e
      | Inr starts \<Rightarrow>
          (if starts = [] then Inr []
           else case bd_prepare db of
             Some e \<Rightarrow> Inl (''prep blast query: '' @ e)
           | None \<Rightarrow> blast_loop db dep (rev starts) (map (\<lambda>s. (s, 0)) starts) []))"

subsection \<open>The command line\<close>

text \<open>\<open>layers.get_mut(d + 1)\<close>: nothing is pushed where there is no such layer.\<close>

definition push_layer :: "nat \<Rightarrow> string \<Rightarrow> string list list \<Rightarrow> string list list" where
  "push_layer i s layers = (if i < length layers then layers[i := layers ! i @ [s]] else layers)"

fun visit_rows_cli ::
  "usize \<Rightarrow> row list \<Rightarrow> string list \<times> (string \<times> usize) list \<times> string list list \<Rightarrow>
   string list \<times> (string \<times> usize) list \<times> string list list" where
  "visit_rows_cli d [] st = st"
| "visit_rows_cli d (r # rs) (visited, frontier, layers) =
     (case r of
        Inr (Some src) \<Rightarrow>
          if src \<in> set visited then visit_rows_cli d rs (visited, frontier, layers)
          else visit_rows_cli d rs
            (src # visited, frontier @ [(src, d + 1)], push_layer (d + 1) src layers)
      | _ \<Rightarrow> visit_rows_cli d rs (visited, frontier, layers))"

lemma visit_rows_cli_fresh:
  "visit_rows_cli d rs (visited, frontier, layers) =
     (rev (fresh visited (row_names rs)) @ visited,
      frontier @ map (\<lambda>s. (s, d + 1)) (fresh visited (row_names rs)),
      fold (push_layer (d + 1)) (fresh visited (row_names rs)) layers)"
  by (induction rs arbitrary: visited frontier layers rule: row_names.induct) auto

function cli_blast_loop ::
  "blast_db \<Rightarrow> usize \<Rightarrow> string list \<Rightarrow> (string \<times> usize) list \<Rightarrow> string list list \<Rightarrow> string + string list list" where
  "cli_blast_loop db dep visited [] layers = Inr layers"
| "cli_blast_loop db dep visited ((node, d) # frontier) layers =
     (if d \<ge> dep then cli_blast_loop db dep visited frontier layers
      else case bd_callers db node of
        Inl e \<Rightarrow> Inl (''exec blast query: '' @ e)
      | Inr rows \<Rightarrow>
          (case visit_rows_cli d rows (visited, frontier, layers) of
             (visited', frontier', layers') \<Rightarrow> cli_blast_loop db dep visited' frontier' layers'))"
  by pat_completeness auto

termination cli_blast_loop
proof (relation "inv_image (mult less_than) (\<lambda>(db, dep, v, frontier, i). mset (map (\<lambda>(n, e). dep - e) frontier))",
    goal_cases)
  case 1
  then show ?case by (simp add: wf_mult)
next
  case (2 db dep visited node d frontier layers)
  then show ?case by (simp add: mult_pop)
next
  case (3 db dep visited node d frontier layers rows x xa y)
  then show ?case using mult_frontier[of dep d frontier "fresh visited (row_names rows)" node]
    by (auto simp: visit_rows_cli_fresh multiset.map_comp comp_def)
qed

text \<open>The lines \<open>print_layers\<close> prints.\<close>

definition layer_lines :: "nat \<times> string list \<Rightarrow> string list" where
  "layer_lines dl =
     (case dl of (d, layer) \<Rightarrow>
        if d = 0 \<or> layer = [] then []
        else (''depth '' @ show_nat d @ '': '' @ show_nat (length layer) @ '' dependent(s)'')
             # map (\<lambda>q. ''  '' @ q) layer @ [[]])"

definition print_layers :: "string \<Rightarrow> string list list \<Rightarrow> string list" where
  "print_layers tgt layers =
     (let total = sum_list (map length (drop 1 layers)) in
      [''blast radius for `'' @ tgt @ ''` '' @ utf8 [0xE2, 0x80, 0x94] @ '' '' @ show_nat total @ '' dependent(s)'', []] @
      concat (map layer_lines (zip [0..<length layers] layers)))"

definition print_layers_from_items :: "string \<Rightarrow> BlastItem list \<Rightarrow> usize \<Rightarrow> string list" where
  "print_layers_from_items tgt items max_depth =
     print_layers tgt
       (fold (\<lambda>it. push_layer (bi_depth it) (bi_qualified_name it)) items (replicate (max_depth + 1) []))"

text \<open>
  The two ways of \<open>run\<close>, from the open shard on: the lines printed or an error. The direct way makes every error a
  \<open>CliError::Other\<close>; the message of an error response of the supervisor is a \<open>CliError::Supervisor\<close>.
\<close>

definition blast_direct :: "blast_db \<Rightarrow> string \<Rightarrow> usize \<Rightarrow> string list cli_result" where
  "blast_direct db tgt dep =
     (case resolve_target db tgt of
        Inl e \<Rightarrow> Inl (CliOther e)
      | Inr starts \<Rightarrow>
          (if starts = [] then Inr [''no node matches target `'' @ tgt @ ''`'']
           else case bd_prepare db of
             Some e \<Rightarrow> Inl (CliOther (''prep blast query: '' @ e))
           | None \<Rightarrow>
               (case cli_blast_loop db dep (rev starts) (map (\<lambda>s. (s, 0)) starts)
                       (starts # replicate dep []) of
                  Inl e \<Rightarrow> Inl (CliOther e)
                | Inr layers \<Rightarrow> Inr (print_layers tgt layers))))"

definition blast_via_supervisor :: "blast_db \<Rightarrow> string \<Rightarrow> usize \<Rightarrow> string list cli_result" where
  "blast_via_supervisor db tgt dep =
     (case run_blast db tgt dep of
        Inl e \<Rightarrow> Inl (CliSupervisor e)
      | Inr items \<Rightarrow> Inr (print_layers_from_items tgt items dep))"

section \<open>What the walk finds\<close>

text \<open>The names from which at most \<open>k\<close> edges lead to a start.\<close>

definition callers :: "blast_db \<Rightarrow> string \<Rightarrow> string set" where
  "callers db n = (case bd_callers db n of Inl _ \<Rightarrow> {} | Inr rows \<Rightarrow> set (row_names rows))"

fun within :: "blast_db \<Rightarrow> string set \<Rightarrow> nat \<Rightarrow> string set" where
  "within db S 0 = S"
| "within db S (Suc k) = within db S k \<union> (\<Union>n \<in> within db S k. callers db n)"

lemma within_mono: "j \<le> k \<Longrightarrow> within db S j \<subseteq> within db S k"
  by (induction k) (auto simp: le_Suc_eq)

lemma set_fresh: "set (fresh V ss) = set ss - set V"
  by (induction V ss rule: fresh.induct) auto

lemma distinct_fresh: "distinct (fresh V ss)"
  by (induction V ss rule: fresh.induct) (auto simp: set_fresh)

definition item_pair :: "BlastItem \<Rightarrow> string \<times> nat" where
  "item_pair it = (bi_qualified_name it, bi_depth it)"

text \<open>
  The invariant of the loop. \<open>T\<close> is everything found so far with its depth, \<open>P\<close> the part that is already
  expanded; depths are exact distances, nondecreasing along \<open>T\<close>, and no more than one ahead of the
  front.
\<close>

definition exact :: "blast_db \<Rightarrow> string set \<Rightarrow> string \<times> nat \<Rightarrow> bool" where
  "exact db S nd \<longleftrightarrow> fst nd \<in> within db S (snd nd) \<and> (\<forall>e < snd nd. fst nd \<notin> within db S e)"

definition walk_inv ::
  "blast_db \<Rightarrow> string list \<Rightarrow> usize \<Rightarrow> string list \<Rightarrow> (string \<times> nat) list \<Rightarrow> BlastItem list \<Rightarrow> (string \<times> nat) list \<Rightarrow> bool" where
  "walk_inv db starts dep V F I P \<longleftrightarrow>
     map (\<lambda>s. (s, 0)) starts @ map item_pair I = P @ F \<and>
     set V = set (map fst (P @ F)) \<and>
     distinct (map bi_qualified_name I) \<and> set (map bi_qualified_name I) \<inter> set starts = {} \<and>
     sorted (map snd (P @ F)) \<and>
     (\<forall>nd \<in> set (P @ F). exact db (set starts) nd) \<and>
     (\<forall>nd \<in> set P. snd nd < dep \<longrightarrow> callers db (fst nd) \<subseteq> set V) \<and>
     (F \<noteq> [] \<longrightarrow> (\<forall>nd \<in> set (P @ F). snd nd \<le> snd (hd F) + 1)) \<and>
     (\<forall>it \<in> set I. bi_depth it \<le> dep)"

lemma expanded_within:
  assumes V: "set starts \<subseteq> V" "\<forall>v \<in> V. \<exists>e. (v, e) \<in> T \<and> exact db (set starts) (v, e)"
    and expd: "\<forall>(v, e) \<in> T. e < d \<longrightarrow> callers db v \<subseteq> V"
  shows "within db (set starts) d \<subseteq> V"
proof -
  have "j \<le> d \<Longrightarrow> within db (set starts) j \<subseteq> V" for j
  proof (induction j)
    case (Suc j)
    have "callers db n \<subseteq> V" if n: "n \<in> within db (set starts) j" for n
    proof -
      from n Suc V(2) obtain e where e: "(n, e) \<in> T" "exact db (set starts) (n, e)" by auto
      have "e \<le> j" using e(2) n by (auto simp: exact_def not_le[symmetric])
      with expd e(1) Suc.prems show ?thesis by auto
    qed
    with Suc show ?case by auto
  qed (use V in auto)
  then show ?thesis by simp
qed

lemma walk_invD:
  assumes "walk_inv db starts dep V F I P"
  shows "map (\<lambda>s. (s, 0)) starts @ map item_pair I = P @ F"
    and "set V = fst ` set (P @ F)"
    and "distinct (map bi_qualified_name I)" and "set (map bi_qualified_name I) \<inter> set starts = {}"
    and "sorted (map snd (P @ F))"
    and "nd \<in> set (P @ F) \<Longrightarrow> exact db (set starts) nd"
    and "(v, e) \<in> set P \<Longrightarrow> e < dep \<Longrightarrow> callers db v \<subseteq> set V"
    and "F \<noteq> [] \<Longrightarrow> nd \<in> set (P @ F) \<Longrightarrow> snd nd \<le> snd (hd F) + 1"
    and "it \<in> set I \<Longrightarrow> bi_depth it \<le> dep"
proof -
  note * = assms[unfolded walk_inv_def]
  show "map (\<lambda>s. (s, 0)) starts @ map item_pair I = P @ F" using * by blast
  show "set V = fst ` set (P @ F)" using * by (simp only: set_map)
  show "distinct (map bi_qualified_name I)" "set (map bi_qualified_name I) \<inter> set starts = {}"
    "sorted (map snd (P @ F))" using * by blast+
  show "nd \<in> set (P @ F) \<Longrightarrow> exact db (set starts) nd" using * by blast
  have "\<forall>nd \<in> set P. snd nd < dep \<longrightarrow> callers db (fst nd) \<subseteq> set V" using * by blast
  from bspec[OF this, of "(v, e)"]
  show "(v, e) \<in> set P \<Longrightarrow> e < dep \<Longrightarrow> callers db v \<subseteq> set V" by simp
  show "F \<noteq> [] \<Longrightarrow> nd \<in> set (P @ F) \<Longrightarrow> snd nd \<le> snd (hd F) + 1" using * by blast
  show "it \<in> set I \<Longrightarrow> bi_depth it \<le> dep" using * by blast
qed

lemma walk_names:
  assumes "walk_inv db starts dep V F I P"
  shows "set V = set starts \<union> set (map bi_qualified_name I)"
proof -
  have "set V = fst ` set (map (\<lambda>s. (s, 0 :: nat)) starts @ map item_pair I)"
    using walk_invD(1,2)[OF assms] by simp
  then show ?thesis by (simp add: image_Un image_image item_pair_def)
qed

lemma walk_front_within:
  assumes inv: "walk_inv db starts dep V F I P" and d: "d \<le> dep" and front: "F = [] \<or> d \<le> snd (hd F)"
  shows "within db (set starts) d \<subseteq> set V"
proof (rule expanded_within[where T = "set (P @ F)"])
  show "set starts \<subseteq> set V" using walk_names[OF inv] by simp
  have "\<exists>e. (v, e) \<in> set (P @ F)" if "v \<in> set V" for v
    using that unfolding walk_invD(2)[OF inv] by force
  then show "\<forall>v \<in> set V. \<exists>e. (v, e) \<in> set (P @ F) \<and> exact db (set starts) (v, e)"
    using walk_invD(6)[OF inv] by blast
  have "(v, e) \<in> set P" if ve: "(v, e) \<in> set (P @ F)" "e < d" for v e
  proof (rule ccontr)
    assume "(v, e) \<notin> set P"
    with ve have F: "(v, e) \<in> set F" by simp
    moreover have "sorted (map snd F)" using walk_invD(5)[OF inv] by (simp add: sorted_append)
    ultimately have "snd (hd F) \<le> e" by (cases F) auto
    with front ve F show False by auto
  qed
  then show "\<forall>(v, e) \<in> set (P @ F). e < d \<longrightarrow> callers db v \<subseteq> set V"
    using walk_invD(7)[OF inv] d by force
qed

lemma walk_inv_skip:
  assumes inv: "walk_inv db starts dep V ((n, d) # F) I P" and "dep \<le> d"
  shows "walk_inv db starts dep V F I (P @ [(n, d)])"
proof -
  have "d \<le> snd (hd F)" if "F \<noteq> []"
    using walk_invD(5)[OF inv] that by (cases F) (auto simp: sorted_append)
  moreover have "snd nd \<le> d + 1" if "nd \<in> set (P @ (n, d) # F)" for nd
    using walk_invD(8)[OF inv _ that] by simp
  ultimately have "F \<noteq> [] \<longrightarrow> (\<forall>nd \<in> set ((P @ [(n, d)]) @ F). snd nd \<le> snd (hd F) + 1)"
    by fastforce
  moreover have "\<forall>nd \<in> set (P @ [(n, d)]). snd nd < dep \<longrightarrow> callers db (fst nd) \<subseteq> set V"
    using walk_invD(7)[OF inv] assms(2) by fastforce
  ultimately show ?thesis
    using inv unfolding walk_inv_def append_assoc append_Cons append_Nil by blast
qed

lemma walk_inv_expand:
  assumes inv: "walk_inv db starts dep V ((n, d) # F) I P" and d: "d < dep"
    and rows: "bd_callers db n = Inr rows" and new: "new = fresh V (row_names rows)"
  shows "walk_inv db starts dep (rev new @ V) (F @ map (\<lambda>s. (s, d + 1)) new)
    (I @ map (\<lambda>s. \<lparr>bi_qualified_name = s, bi_depth = d + 1\<rparr>) new) (P @ [(n, d)])"
proof -
  let ?T = "P @ (n, d) # F" and ?N = "map (\<lambda>s. (s, d + 1)) new"
  have T': "(P @ [(n, d)]) @ F @ ?N = ?T @ ?N" by simp
  have within_d: "within db (set starts) d \<subseteq> set V"
    using walk_front_within[OF inv, of d] d by simp
  have call: "callers db n = set (row_names rows)" by (simp add: callers_def rows)
  have newset: "set new = callers db n - set V" by (simp add: new set_fresh call)
  have n_in: "n \<in> within db (set starts) d" using walk_invD(6)[OF inv, of "(n, d)"] by (simp add: exact_def)
  have "exact db (set starts) (s, d + 1)" if s: "s \<in> set new" for s
  proof -
    have "s \<in> within db (set starts) (d + 1)" using s newset n_in by auto
    moreover have "s \<notin> within db (set starts) e" if "e < d + 1" for e
      using that s newset within_d within_mono[of e d db "set starts"] by auto
    ultimately show ?thesis by (simp add: exact_def)
  qed
  then have ex: "\<forall>nd \<in> set (?T @ ?N). exact db (set starts) nd"
    using walk_invD(6)[OF inv] by auto
  have le: "snd nd \<le> d + 1" if "nd \<in> set ?T" for nd
    using walk_invD(8)[OF inv _ that] by simp
  then have le': "\<forall>nd \<in> set (?T @ ?N). snd nd \<le> d + 1" by auto
  have N: "map snd ?N = replicate (length new) (d + 1)" by (simp add: comp_def map_replicate_const)
  have srt: "sorted (map snd (?T @ ?N))"
    unfolding map_append N sorted_append using walk_invD(5)[OF inv] le by (auto simp: sorted_append)
  have front: "d \<le> snd (hd (F @ ?N))" if "F @ ?N \<noteq> []"
    using that walk_invD(5)[OF inv] by (cases F) (auto simp: sorted_append hd_map neq_Nil_conv)
  have V: "set (rev new @ V) = fst ` set (?T @ ?N)" using walk_invD(2)[OF inv] by (auto simp: image_Un image_image)
  have names: "map bi_qualified_name (I @ map (\<lambda>s. \<lparr>bi_qualified_name = s, bi_depth = d + 1\<rparr>) new) =
      map bi_qualified_name I @ new" by (simp add: comp_def)
  have dist: "distinct (map bi_qualified_name I @ new)" "set (map bi_qualified_name I @ new) \<inter> set starts = {}"
    using walk_invD(3,4)[OF inv] walk_names[OF inv] newset distinct_fresh[of V "row_names rows"]
    unfolding new[symmetric] by auto
  have tot: "map (\<lambda>s. (s, 0)) starts @ map item_pair (I @ map (\<lambda>s. \<lparr>bi_qualified_name = s, bi_depth = d + 1\<rparr>) new) = ?T @ ?N"
    using walk_invD(1)[OF inv] by (simp add: item_pair_def comp_def flip: append_assoc)
  have expd: "\<forall>nd \<in> set (P @ [(n, d)]). snd nd < dep \<longrightarrow> callers db (fst nd) \<subseteq> set (rev new @ V)"
    using walk_invD(7)[OF inv] newset by fastforce
  show ?thesis
    unfolding walk_inv_def T' names set_map
    using tot V dist srt ex expd front le' walk_invD(9)[OF inv] d by fastforce
qed

lemma blast_loop_walk:
  assumes "\<forall>n. \<exists>rows. bd_callers db n = Inr rows" and "walk_inv db starts dep V F I P"
  shows "\<exists>V' I' P'. blast_loop db dep V F I = Inr I' \<and> walk_inv db starts dep V' [] I' P'"
  using assms
proof (induction db dep V F I arbitrary: P rule: blast_loop.induct)
  case (1 db dep V I)
  then show ?case by auto
next
  case (2 db dep V n d F I)
  show ?case
  proof (cases "dep \<le> d")
    case True
    with 2(1)[OF True 2(3) walk_inv_skip[OF 2(4) True]] show ?thesis by simp
  next
    case False
    obtain rows where rows: "bd_callers db n = Inr rows" using 2(3) by blast
    note IH = 2(2)[OF False rows, of "fst (visit_rows d rows (V, F, I))" "snd (visit_rows d rows (V, F, I))",
        OF _ _ 2(3)]
    from IH walk_inv_expand[OF 2(4) _ rows refl] False rows show ?thesis
      by (simp add: visit_rows_fresh)
  qed
qed

lemma run_blast_walk:
  assumes "resolve_target db tgt = Inr starts" and "bd_prepare db = None" and "\<forall>n. \<exists>rows. bd_callers db n = Inr rows"
  shows "\<exists>items V P. run_blast db tgt dep = Inr items \<and> walk_inv db starts dep V [] items P"
proof (cases "starts = []")
  case True
  then have "walk_inv db starts dep [] [] [] []" by (simp add: walk_inv_def)
  with True assms(1) show ?thesis by (auto simp: run_blast_def)
next
  case False
  have "walk_inv db starts dep (rev starts) (map (\<lambda>s. (s, 0)) starts) [] []"
    by (auto simp: walk_inv_def exact_def comp_def map_replicate_const)
  from blast_loop_walk[OF assms(3) this] obtain items V' P' where
    "blast_loop db dep (rev starts) (map (\<lambda>s. (s, 0)) starts) [] = Inr items"
    "walk_inv db starts dep V' [] items P'" by blast
  with False assms(1,2) show ?thesis by (auto simp: run_blast_def intro!: exI)
qed

text \<open>
  C6: The blast radius of the first ten nodes that match the target is exact. When SQLite answers the statements,
  \<open>run_blast\<close> returns, for every target and depth bound, each name once, in order of depth, and lists a name at depth
  \<open>d\<close> if and only if \<open>d\<close> is between one and the bound and the shortest chain of dependencies from the name to one of
  these nodes has length \<open>d\<close>. Of a target that more than ten rows match the others are left out.
\<close>

theorem run_blast_exact:
  assumes "bd_targets db tgt = Inr rows" and "bd_prepare db = None" and "\<forall>n. \<exists>rows. bd_callers db n = Inr rows"
  shows "\<exists>items. run_blast db tgt dep = Inr items \<and> distinct (map bi_qualified_name items) \<and>
    sorted (map bi_depth items) \<and>
    (\<forall>q d. \<lparr>bi_qualified_name = q, bi_depth = d\<rparr> \<in> set items \<longleftrightarrow>
       0 < d \<and> d \<le> dep \<and> q \<in> within db (set (row_names (take 10 rows))) d \<and>
       q \<notin> within db (set (row_names (take 10 rows))) (d - 1))"
proof -
  let ?starts = "row_names (take 10 rows)" and ?S = "set (row_names (take 10 rows))"
  have "resolve_target db tgt = Inr ?starts" using assms(1) by (simp add: resolve_target_def)
  from run_blast_walk[OF this assms(2,3)]
  obtain items V P where run: "run_blast db tgt dep = Inr items" and inv: "walk_inv db ?starts dep V [] items P" by blast
  have ex: "exact db ?S (item_pair it)" if "it \<in> set items" for it
    using that walk_invD(1,6)[OF inv] by (metis append_Nil2 in_set_conv_decomp map_append list.simps(9) append_assoc append_Cons)
  have pos: "0 < bi_depth it" if it: "it \<in> set items" for it
    using ex[OF it] walk_invD(4)[OF inv] it by (cases "bi_depth it") (auto simp: exact_def item_pair_def)
  have "\<lparr>bi_qualified_name = q, bi_depth = d\<rparr> \<in> set items \<longleftrightarrow>
      0 < d \<and> d \<le> dep \<and> q \<in> within db ?S d \<and> q \<notin> within db ?S (d - 1)" (is "?it \<in> _ \<longleftrightarrow> ?R") for q d
  proof
    assume it: "?it \<in> set items"
    show ?R using pos[OF it] ex[OF it] walk_invD(9)[OF inv it] by (simp add: exact_def item_pair_def)
  next
    assume R: ?R
    have "within db ?S d \<subseteq> set V" using walk_front_within[OF inv] R by simp
    moreover have "q \<notin> ?S" using R within_mono[of 0 "d - 1" db ?S] by auto
    ultimately obtain it where it: "it \<in> set items" "bi_qualified_name it = q"
      using R walk_names[OF inv] by auto
    have "bi_depth it = d"
    proof (rule ccontr)
      assume "bi_depth it \<noteq> d"
      then consider "d < bi_depth it" | "bi_depth it \<le> d - 1" by linarith
      then show False
        using ex[OF it(1)] it(2) R within_mono[of "bi_depth it" "d - 1" db ?S]
        by cases (auto simp: exact_def item_pair_def)
    qed
    with it show "?it \<in> set items" by (metis (full_types) BlastItem.surjective old.unit.exhaust)
  qed
  moreover have "sorted (map bi_depth items)"
  proof -
    have "sorted (map snd (map (\<lambda>s. (s, 0 :: nat)) ?starts @ map item_pair items))"
      using walk_invD(1,5)[OF inv] by simp
    then show ?thesis by (simp add: sorted_append item_pair_def comp_def)
  qed
  ultimately show ?thesis using run walk_invD(3)[OF inv] by blast
qed

text \<open>A graph with a cycle: \<open>b\<close> and \<open>c\<close> use \<open>a\<close>, \<open>a\<close> and \<open>d\<close> use \<open>b\<close>.\<close>

definition demo_db :: blast_db where
  "demo_db = \<lparr>bd_targets = (\<lambda>t. Inr (if t = ''a'' then [Inr (Some ''a'')] else [])),
     bd_prepare = None, bd_callers = (\<lambda>n. Inr (if n = ''a'' then [Inr (Some ''b''), Inl ''bad row'', Inr (Some ''c'')]
       else if n = ''b'' then [Inr (Some ''a''), Inr None, Inr (Some ''d'')] else []))\<rparr>"

theorem run_blast_exact_witness:
  "\<exists>items. run_blast demo_db ''a'' 2 = Inr items \<and> map bi_qualified_name items = [''b'', ''c'', ''d''] \<and>
     ''d'' \<in> within demo_db {''a''} 2 \<and> ''d'' \<notin> within demo_db {''a''} 1"
proof -
  have t: "bd_targets demo_db ''a'' = Inr [Inr (Some ''a'')]" and p: "bd_prepare demo_db = None"
    and c: "\<forall>n. \<exists>rows. bd_callers demo_db n = Inr rows"
    by (simp_all add: demo_db_def)
  have run: "run_blast demo_db ''a'' 2 =
      Inr [\<lparr>bi_qualified_name = ''b'', bi_depth = 1\<rparr>, \<lparr>bi_qualified_name = ''c'', bi_depth = 1\<rparr>,
           \<lparr>bi_qualified_name = ''d'', bi_depth = 2\<rparr>]"
    by (simp add: run_blast_def resolve_target_def demo_db_def)
  from run_blast_exact[OF t p c, of 2] obtain items where items: "run_blast demo_db ''a'' 2 = Inr items"
    and exact: "\<And>q d. \<lparr>bi_qualified_name = q, bi_depth = d\<rparr> \<in> set items \<longleftrightarrow>
       0 < d \<and> d \<le> 2 \<and> q \<in> within demo_db (set (row_names (take 10 [Inr (Some ''a'')]))) d \<and>
       q \<notin> within demo_db (set (row_names (take 10 [Inr (Some ''a'')]))) (d - 1)" by blast
  from items run have "\<lparr>bi_qualified_name = ''d'', bi_depth = 2\<rparr> \<in> set items" by auto
  then have "''d'' \<in> within demo_db {''a''} 2 \<and> ''d'' \<notin> within demo_db {''a''} (2 - 1)" unfolding exact by simp
  with run show ?thesis by simp
qed

section \<open>Both ways of running the command print the same\<close>

definition layered :: "string list list \<Rightarrow> BlastItem list \<Rightarrow> string list list" where
  "layered base items = fold (\<lambda>it. push_layer (bi_depth it) (bi_qualified_name it)) items base"

lemma layered_append:
  "layered base (items @ map (\<lambda>s. \<lparr>bi_qualified_name = s, bi_depth = d\<rparr>) new) = fold (push_layer d) new (layered base items)"
  by (simp add: layered_def fold_map comp_def)

lemma cli_blast_loop_layered:
  "cli_blast_loop db dep V F (layered base I) = map_sum id (layered base) (blast_loop db dep V F I)"
proof (induction db dep V F I rule: blast_loop.induct)
  case (2 db dep V n d F I)
  show ?case
  proof (cases "dep \<le> d")
    case False
    show ?thesis
    proof (cases "bd_callers db n")
      case (Inr rows)
      note IH = 2(2)[OF False Inr, of "fst (visit_rows d rows (V, F, I))" "snd (visit_rows d rows (V, F, I))"]
      from IH False Inr show ?thesis by (simp add: visit_rows_fresh visit_rows_cli_fresh layered_append)
    qed (simp add: False)
  qed (simp add: 2)
qed simp

lemma blast_loop_positive:
  "blast_loop db dep V F I = Inr I' \<Longrightarrow> \<forall>it \<in> set I. 0 < bi_depth it \<Longrightarrow> \<forall>it \<in> set I'. 0 < bi_depth it"
proof (induction db dep V F I rule: blast_loop.induct)
  case (2 db dep V n d F I)
  show ?case
  proof (cases "dep \<le> d")
    case False
    show ?thesis
    proof (cases "bd_callers db n")
      case (Inr rows)
      note IH = 2(2)[OF False Inr, of "fst (visit_rows d rows (V, F, I))" "snd (visit_rows d rows (V, F, I))"]
      from IH False Inr 2(3,4) show ?thesis by (simp add: visit_rows_fresh ball_Un)
    qed (use 2 False in simp)
  qed (use 2 in simp)
qed simp

lemma layered_first:
  "\<forall>it \<in> set items. 0 < bi_depth it \<Longrightarrow> \<exists>ls. layered (a # base) items = a # ls \<and> layered (b # base) items = b # ls"
proof (induction items arbitrary: base)
  case (Cons it items)
  then obtain k where k: "bi_depth it = Suc k" by (auto simp: gr0_conv_Suc)
  from Cons.IH[of "push_layer k (bi_qualified_name it) base"] Cons.prems
  show ?case by (simp add: layered_def push_layer_def k split: if_splits)
qed (simp add: layered_def)

lemma print_layers_header: "print_layers tgt layers \<noteq> [l]"
  by (simp add: print_layers_def Let_def)

lemma print_layers_first: "print_layers tgt (a # ls) = print_layers tgt (b # ls)"
proof -
  have "zip [0..<length (x # ls)] (x # ls) = (0, x) # zip [1..<length ls + 1] ls" for x
    by (metis One_nat_def Suc_eq_plus1 length_Cons upt_conv_Cons zero_less_Suc zip_Cons_Cons)
  note z = this
  show ?thesis unfolding print_layers_def Let_def z by (simp add: layer_lines_def)
qed

text \<open>
  C17: The command answers the same whether the supervisor or the command line itself walks the graph, for every
  shard, target and depth bound, but for two things: an error has the same message, and is an error of the supervisor
  (exit code 5) on the one way and another error (exit code 1) on the other; and for a target none of whose first
  ten matching rows has a name the command line says that no node matches, where the way over the supervisor prints
  a blast radius of no dependents. In all other cases the printed lines are equal.
\<close>

theorem blast_paths_agree:
  "(\<exists>m. blast_direct db tgt dep = Inl (CliOther m) \<and> blast_via_supervisor db tgt dep = Inl (CliSupervisor m)) \<or>
   (\<exists>lines. blast_direct db tgt dep = Inr lines \<and> blast_via_supervisor db tgt dep =
      Inr (if resolve_target db tgt = Inr [] then print_layers tgt (replicate (Suc dep) []) else lines) \<and>
      (resolve_target db tgt = Inr [] \<longleftrightarrow> lines = [''no node matches target `'' @ tgt @ ''`'']))"
proof (cases "resolve_target db tgt")
  case (Inr starts)
  let ?run = "blast_loop db dep (rev starts) (map (\<lambda>s. (s, 0)) starts) []"
  have cli: "cli_blast_loop db dep (rev starts) (map (\<lambda>s. (s, 0)) starts) (starts # replicate dep []) =
      map_sum id (layered (starts # replicate dep [])) ?run"
    using cli_blast_loop_layered[of db dep "rev starts" _ "starts # replicate dep []" "[]"] by (simp add: layered_def)
  show ?thesis
  proof (cases ?run)
    case (Inl m)
    then show ?thesis using \<open>resolve_target db tgt = Inr starts\<close> cli
      by (simp add: blast_direct_def blast_via_supervisor_def run_blast_def print_layers_from_items_def Let_def
          split: option.splits)
  next
    case (Inr items)
    have "\<forall>it \<in> set items. 0 < bi_depth it" using blast_loop_positive[OF Inr] by simp
    from layered_first[OF this, of starts "replicate dep []" "[]"]
    have "print_layers tgt (layered (starts # replicate dep []) items) =
        print_layers tgt (layered (replicate (Suc dep) []) items)"
      using print_layers_first by (metis (no_types) replicate_Suc)
    then show ?thesis using Inr \<open>resolve_target db tgt = Inr starts\<close> cli print_layers_header
      by (simp add: blast_direct_def blast_via_supervisor_def run_blast_def print_layers_from_items_def layered_def
          Let_def split: option.splits)
  qed
qed (simp add: blast_direct_def blast_via_supervisor_def run_blast_def)

end
