(* ===== verification/Recall_Query.thy ===== *)
theory Recall_Query
  imports Mneme_Prelude "HOL-Library.Sublist"
begin

text \<open>
  The recall query: the sanitizer for the full-text search, the escaping of the \<open>LIKE\<close> fallback, the
  order in which the two searches are tried (\<open>query_runner\<close> in \<open>supervisor/src/ipc.rs\<close>), the degree
  query, and what \<open>recall\<close> and \<open>godnodes\<close> print (\<open>cli/src/commands\<close>). The rows SQLite answers are an
  argument, as is the Unicode class of the alphanumeric code points.
\<close>

section \<open>Model\<close>

subsection \<open>Payload types\<close>

record RecallHit =
  rh_kind :: string
  rh_name :: string
  rh_qualified_name :: string
  rh_file_path :: "string option"
  rh_line_start :: "i64 option"

record GodNode =
  gn_qualified_name :: string
  gn_kind :: string
  gn_name :: string
  gn_file_path :: "string option"
  gn_degree :: i64
  gn_fan_in :: i64
  gn_fan_out :: i64

subsection \<open>The sanitizer\<close>

text \<open>\<open>str::chars\<close>: the encoded code points of a valid UTF-8 string.\<close>

definition char_width :: "char \<Rightarrow> nat" where
  "char_width b = (let n = of_char b :: nat in
     if n < 0xC0 then 1 else if n < 0xE0 then 2 else if n < 0xF0 then 3 else 4)"

function utf8_chars :: "string \<Rightarrow> string list" where
  "utf8_chars [] = []"
| "utf8_chars (b # bs) = take (char_width b) (b # bs) # utf8_chars (drop (char_width b) (b # bs))"
  by pat_completeness auto

termination utf8_chars
  by (relation "measure length") (auto simp: char_width_def Let_def)

definition word_char :: "(string \<Rightarrow> bool) \<Rightarrow> string \<Rightarrow> bool" where
  "word_char alnum c \<longleftrightarrow> alnum c \<or> c = ''_''"

fun sanitize_loop :: "(string \<Rightarrow> bool) \<Rightarrow> bool \<Rightarrow> string list \<Rightarrow> string list" where
  "sanitize_loop alnum last_was_space [] = []"
| "sanitize_loop alnum last_was_space (c # cs) =
     (if word_char alnum c then c # sanitize_loop alnum False cs
      else if \<not> last_was_space then '' '' # sanitize_loop alnum True cs
      else sanitize_loop alnum last_was_space cs)"

definition trim_chars :: "string list \<Rightarrow> string list" where
  "trim_chars cs =
     rev (dropWhile (\<lambda>c. c \<in> set ws_tokens) (rev (dropWhile (\<lambda>c. c \<in> set ws_tokens) cs)))"

definition fts5_sanitize :: "(string \<Rightarrow> bool) \<Rightarrow> string \<Rightarrow> string" where
  "fts5_sanitize alnum q = concat (trim_chars (sanitize_loop alnum True (utf8_chars q)))"

subsection \<open>The searches\<close>

text \<open>\<open>query.replace('%', r"\%").replace('_', r"\_")\<close> between two percent signs.\<close>

definition like_escape :: "string \<Rightarrow> string" where
  "like_escape q =
     concat (map (\<lambda>c. if c = CHR ''_'' then [CHR 0x5C, CHR ''_''] else [c])
       (concat (map (\<lambda>c. if c = CHR ''%'' then [CHR 0x5C, CHR ''%''] else [c]) q)))"

definition like_pattern :: "string \<Rightarrow> string" where
  "like_pattern q = ''%'' @ like_escape q @ ''%''"

text \<open>
  The five columns of a result row; a column of the wrong type makes the row an error. \<open>unwrap_or_default\<close>
  turns a null text into the empty one.
\<close>

type_synonym hit_row = "string + (string option \<times> string option \<times> string option \<times> string option \<times> i64 option)"

definition hit_of ::
  "string option \<times> string option \<times> string option \<times> string option \<times> i64 option \<Rightarrow> RecallHit" where
  "hit_of r = (case r of (k, n, q, f, l) \<Rightarrow>
     \<lparr>rh_kind = (case k of Some x \<Rightarrow> x | None \<Rightarrow> []), rh_name = (case n of Some x \<Rightarrow> x | None \<Rightarrow> []),
      rh_qualified_name = (case q of Some x \<Rightarrow> x | None \<Rightarrow> []), rh_file_path = f, rh_line_start = l\<rparr>)"

text \<open>
  What the shard's statements answer, for the bound pattern or query and the bound limit. An error text
  already carries the prefix that says whether preparing or running the statement failed.
\<close>

record recall_db =
  rd_has_fts :: "string + bool"
  rd_like :: "string \<Rightarrow> i64 \<Rightarrow> string + hit_row list"
  rd_fts :: "string \<Rightarrow> i64 \<Rightarrow> string + hit_row list"
  rd_alnum :: "string \<Rightarrow> bool"

text \<open>\<open>limit as i64\<close>\<close>

definition usize_as_i64 :: "usize \<Rightarrow> i64" where
  "usize_as_i64 n = u64_as_i64 (of_nat n)"

fun good_hits :: "hit_row list \<Rightarrow> RecallHit list" where
  "good_hits [] = []"
| "good_hits (Inr r # rs) = hit_of r # good_hits rs"
| "good_hits (Inl _ # rs) = good_hits rs"

definition recall_like :: "recall_db \<Rightarrow> string \<Rightarrow> usize \<Rightarrow> string + RecallHit list" where
  "recall_like db query limit =
     (case rd_like db (like_pattern query) (usize_as_i64 limit) of
        Inl e \<Rightarrow> Inl e
      | Inr rows \<Rightarrow> Inr (good_hits rows))"

fun all_hits :: "hit_row list \<Rightarrow> string + RecallHit list" where
  "all_hits [] = Inr []"
| "all_hits (Inl e # rs) = Inl (''row map: '' @ e)"
| "all_hits (Inr r # rs) = (case all_hits rs of Inl e \<Rightarrow> Inl e | Inr hs \<Rightarrow> Inr (hit_of r # hs))"

definition recall_fts :: "recall_db \<Rightarrow> string \<Rightarrow> usize \<Rightarrow> string + RecallHit list" where
  "recall_fts db raw limit =
     (let sanitized = fts5_sanitize (rd_alnum db) raw in
      if sanitized = [] then recall_like db raw limit
      else case rd_fts db sanitized (usize_as_i64 limit) of
        Inl e \<Rightarrow> Inl e
      | Inr rows \<Rightarrow>
          (case all_hits rows of
             Inl e \<Rightarrow> Inl e
           | Inr hits \<Rightarrow> if hits = [] then recall_like db raw limit else Inr hits))"

definition run_recall :: "recall_db \<Rightarrow> string \<Rightarrow> usize \<Rightarrow> string + RecallHit list" where
  "run_recall db query limit =
     (case rd_has_fts db of
        Inl e \<Rightarrow> Inl e
      | Inr True \<Rightarrow> recall_fts db query limit
      | Inr False \<Rightarrow> recall_like db query limit)"

type_synonym god_row =
  "string + (string option \<times> string option \<times> string option \<times> string option \<times> i64 option \<times> i64 option \<times> i64 option)"

definition god_of ::
  "string option \<times> string option \<times> string option \<times> string option \<times> i64 option \<times> i64 option \<times> i64 option \<Rightarrow> GodNode" where
  "god_of r = (case r of (q, k, n, f, d, fi, fo) \<Rightarrow>
     \<lparr>gn_qualified_name = (case q of Some x \<Rightarrow> x | None \<Rightarrow> []), gn_kind = (case k of Some x \<Rightarrow> x | None \<Rightarrow> []),
      gn_name = (case n of Some x \<Rightarrow> x | None \<Rightarrow> []), gn_file_path = f,
      gn_degree = (case d of Some x \<Rightarrow> x | None \<Rightarrow> 0), gn_fan_in = (case fi of Some x \<Rightarrow> x | None \<Rightarrow> 0),
      gn_fan_out = (case fo of Some x \<Rightarrow> x | None \<Rightarrow> 0)\<rparr>)"

fun good_gods :: "god_row list \<Rightarrow> GodNode list" where
  "good_gods [] = []"
| "good_gods (Inr r # rs) = god_of r # good_gods rs"
| "good_gods (Inl _ # rs) = good_gods rs"

definition run_godnodes :: "(i64 \<Rightarrow> string + god_row list) \<Rightarrow> usize \<Rightarrow> string + GodNode list" where
  "run_godnodes stmt n =
     (case stmt (usize_as_i64 n) of
        Inl e \<Rightarrow> Inl e
      | Inr rows \<Rightarrow> Inr (good_gods rows))"

subsection \<open>Printing\<close>

definition show_int :: "int \<Rightarrow> string" where
  "show_int i = (if i < 0 then ''-'' @ show_nat (nat (- i)) else show_nat (nat i))"

definition hit_location :: "RecallHit \<Rightarrow> string" where
  "hit_location h =
     (case rh_file_path h of
        Some f \<Rightarrow>
          (case rh_line_start h of
             Some l \<Rightarrow> if l > 0 then f @ '':'' @ show_int l else f
           | None \<Rightarrow> f)
      | None \<Rightarrow> ''-'')"

definition hit_lines :: "RecallHit \<Rightarrow> string list" where
  "hit_lines h =
     [''  ['' @ rh_kind h @ ''] '' @ rh_qualified_name h] @
     (if rh_name h \<noteq> rh_qualified_name h then [''      name: '' @ rh_name h] else []) @
     [''      '' @ hit_location h, []]"

definition print_hits :: "RecallHit list \<Rightarrow> string \<Rightarrow> string list" where
  "print_hits hits query =
     (if hits = [] then [''no results for `'' @ query @ ''`'']
      else [show_nat (length hits) @ '' hit(s) for `'' @ query @ ''`:'', []] @ concat (map hit_lines hits))"

text \<open>\<open>{rank:>2}\<close> pads on the left to two columns.\<close>

definition pad2 :: "string \<Rightarrow> string" where
  "pad2 s = replicate (2 - length s) (CHR '' '') @ s"

definition god_lines :: "nat \<times> GodNode \<Rightarrow> string list" where
  "god_lines ig =
     (case ig of (i, g) \<Rightarrow>
        (let loc = (case gn_file_path g of Some f \<Rightarrow> f | None \<Rightarrow> ''-'');
             display_name = (if gn_name g = [] then gn_qualified_name g else gn_name g)
         in [''  '' @ pad2 (show_nat (i + 1)) @ ''. ['' @ gn_kind g @ ''] '' @ display_name] @
            (if display_name \<noteq> gn_qualified_name g then [''      qn:     '' @ gn_qualified_name g] else []) @
            [''      degree: '' @ show_int (gn_degree g) @ ''  (in='' @ show_int (gn_fan_in g) @ '' out='' @
               show_int (gn_fan_out g) @ '')'',
             ''      file:   '' @ loc, []]))"

definition print_gods :: "GodNode list \<Rightarrow> string list" where
  "print_gods gods =
     (if gods = [] then [''no edges in graph.db '' @ utf8 [0xE2, 0x80, 0x94] @ '' run `mneme build .` first'']
      else [''top '' @ show_nat (length gods) @ '' most-connected concept(s):'', []] @
           concat (map god_lines (zip [0..<length gods] gods)))"

section \<open>The sanitizer keeps the words\<close>

function runs :: "('a \<Rightarrow> bool) \<Rightarrow> 'a list \<Rightarrow> 'a list list" where
  "runs P [] = []"
| "runs P (c # cs) = (if P c then (c # takeWhile P cs) # runs P (dropWhile P cs) else runs P cs)"
  by pat_completeness auto

termination runs
  by (relation "measure (length \<circ> snd)") (auto simp: le_imp_less_Suc length_dropWhile_le)

fun spaced :: "string list list \<Rightarrow> string list" where
  "spaced [] = []"
| "spaced [w] = w"
| "spaced (w # ws) = w @ '' '' # spaced ws"

lemma sanitize_loop_word:
  "sanitize_loop alnum False cs =
     takeWhile (word_char alnum) cs @
     (case dropWhile (word_char alnum) cs of [] \<Rightarrow> [] | _ # ds \<Rightarrow> '' '' # sanitize_loop alnum True ds)"
  by (induction cs) auto

lemma sanitize_loop_runs:
  "\<exists>rest. sanitize_loop alnum True cs = spaced (runs (word_char alnum) cs) @ rest \<and>
     (rest = [] \<or> rest = ['' ''] \<and> runs (word_char alnum) cs \<noteq> [])"
proof (induction cs rule: length_induct)
  case (1 cs)
  show ?case
  proof (cases cs)
    case (Cons c ds)
    let ?P = "word_char alnum"
    show ?thesis
    proof (cases "?P c")
      case False
      with 1 Cons show ?thesis by simp
    next
      case True
      show ?thesis
      proof (cases "dropWhile ?P ds")
        case Nil
        then have "takeWhile ?P ds = ds" by (simp add: takeWhile_eq_all_conv)
        with Cons True Nil show ?thesis
          by (simp add: sanitize_loop_word del: dropWhile_eq_Nil_conv)
      next
        case (Cons e es)
        then have e: "\<not> ?P e" by (metis dropWhile_eq_Cons_conv)
        have "length es < length cs" using \<open>cs = c # ds\<close> Cons
          by (metis dropWhile_eq_drop impossible_Cons leI le_SucI length_Cons length_dropWhile_le less_imp_le_nat list.size(4) not_less_eq_eq order_trans)
        with 1 obtain rest where rest: "sanitize_loop alnum True es = spaced (runs ?P es) @ rest"
          "rest = [] \<or> rest = ['' ''] \<and> runs ?P es \<noteq> []" by blast
        have r: "runs ?P cs = (c # takeWhile ?P ds) # runs ?P es" using \<open>cs = c # ds\<close> True Cons e by simp
        have s: "sanitize_loop alnum True cs = (c # takeWhile ?P ds) @ '' '' # spaced (runs ?P es) @ rest"
          using \<open>cs = c # ds\<close> True Cons rest by (simp add: sanitize_loop_word)
        show ?thesis
        proof (cases "runs ?P es")
          case Nil
          with r s rest show ?thesis by simp
        next
          case (Cons w ws)
          with r s rest show ?thesis by auto
        qed
      qed
    qed
  qed simp
qed

lemma runs_word: "\<forall>w \<in> set (runs P cs). w \<noteq> [] \<and> (\<forall>c \<in> set w. P c)"
proof (induction P cs rule: runs.induct)
  case (2 P c cs)
  then show ?case by (cases "P c") (auto dest: set_takeWhileD)
qed simp

lemma spaced_ends:
  "ws \<noteq> [] \<Longrightarrow> \<forall>w \<in> set ws. w \<noteq> [] \<and> (\<forall>c \<in> set w. P c) \<Longrightarrow>
   spaced ws \<noteq> [] \<and> P (hd (spaced ws)) \<and> P (last (spaced ws))"
  by (induction ws rule: spaced.induct) auto

lemma space_ws: "'' '' \<in> set ws_tokens"
  by code_simp

lemma underscore_ws: "''_'' \<notin> set ws_tokens"
  by code_simp

lemma trim_spaced:
  assumes "\<forall>c. P c \<longrightarrow> c \<notin> set ws_tokens" and "xs = [] \<or> P (hd xs) \<and> P (last xs)"
    and "rest = [] \<or> rest = ['' ''] \<and> xs \<noteq> []"
  shows "trim_chars (xs @ rest) = xs"
proof (cases xs)
  case Nil
  with assms(3) show ?thesis by (simp add: trim_chars_def)
next
  case (Cons x ys)
  then have hd: "hd (xs @ rest) \<notin> set ws_tokens" and lst: "last xs \<notin> set ws_tokens"
    using assms(1,2) by auto
  have rv: "rev xs = last xs # rev (butlast xs)"
    using Cons by (metis append_butlast_last_id list.distinct(1) rev.simps(2) rev_rev_ident rev_append append_Cons append_Nil rev.simps(1))
  have "dropWhile (\<lambda>c. c \<in> set ws_tokens) (xs @ rest) = xs @ rest" using hd Cons by simp
  moreover have "dropWhile (\<lambda>c. c \<in> set ws_tokens) (rev (xs @ rest)) = rev xs"
    using assms(3) lst space_ws by (auto simp: rv)
  ultimately show ?thesis by (simp add: trim_chars_def)
qed

text \<open>
  The query handed to the full-text index is the words of the user's query, in order, separated by
  single spaces: maximal runs of alphanumeric code points and underscores, and nothing else. Nothing of
  the syntax of the index can leak through, and the query is empty exactly if it has no word.
\<close>

theorem fts5_sanitize_words:
  assumes "\<forall>c. alnum c \<longrightarrow> c \<notin> set ws_tokens"
  shows "fts5_sanitize alnum q = concat (spaced (runs (word_char alnum) (utf8_chars q))) \<and>
    (\<forall>w \<in> set (runs (word_char alnum) (utf8_chars q)). w \<noteq> [] \<and> (\<forall>c \<in> set w. word_char alnum c))"
proof -
  let ?ws = "runs (word_char alnum) (utf8_chars q)"
  obtain rest where rest: "sanitize_loop alnum True (utf8_chars q) = spaced ?ws @ rest"
    "rest = [] \<or> rest = ['' ''] \<and> ?ws \<noteq> []" using sanitize_loop_runs by blast
  have words: "\<forall>w \<in> set ?ws. w \<noteq> [] \<and> (\<forall>c \<in> set w. word_char alnum c)" by (rule runs_word)
  have ends: "?ws \<noteq> [] \<Longrightarrow> spaced ?ws \<noteq> [] \<and> word_char alnum (hd (spaced ?ws)) \<and> word_char alnum (last (spaced ?ws))"
    using spaced_ends[OF _ words] .
  have nows: "\<forall>c. word_char alnum c \<longrightarrow> c \<notin> set ws_tokens"
    using assms underscore_ws by (auto simp: word_char_def)
  have "spaced ?ws = [] \<or> word_char alnum (hd (spaced ?ws)) \<and> word_char alnum (last (spaced ?ws))"
    "rest = [] \<or> rest = ['' ''] \<and> spaced ?ws \<noteq> []"
    using ends rest(2) by (cases "?ws = []"; simp)+
  then have "trim_chars (spaced ?ws @ rest) = spaced ?ws" by (rule trim_spaced[OF nows])
  with rest words show ?thesis by (simp add: fts5_sanitize_def)
qed

definition alnum_chars :: string where
  "alnum_chars = ''abcdefghijklmnopqrstuvwxyzABCDEFGHIJKLMNOPQRSTUVWXYZ0123456789''"

definition ascii_alnum :: "string \<Rightarrow> bool" where
  "ascii_alnum c \<longleftrightarrow> (case c of [x] \<Rightarrow> x \<in> set alnum_chars | _ \<Rightarrow> False)"

lemma ascii_alnum_ws: "\<forall>c. ascii_alnum c \<longrightarrow> c \<notin> set ws_tokens"
proof -
  have "list_all (\<lambda>x. [x] \<notin> set ws_tokens) alnum_chars" by code_simp
  then show ?thesis by (auto simp: ascii_alnum_def list_all_iff split: list.splits)
qed

lemma demo_words:
  "concat (spaced (runs (word_char ascii_alnum) (utf8_chars ''foo::bar_baz(#x#) OR *''))) = ''foo bar_baz x OR''"
  by (simp add: char_width_def word_char_def ascii_alnum_def alnum_chars_def)

theorem fts5_sanitize_words_witness:
  "fts5_sanitize ascii_alnum ''foo::bar_baz(#x#) OR *'' = ''foo bar_baz x OR''"
  using conjunct1[OF fts5_sanitize_words[OF ascii_alnum_ws, of "''foo::bar_baz(#x#) OR *''"]]
  unfolding demo_words .

section \<open>The substring search\<close>

text \<open>
  What SQLite documents of \<open>X LIKE Y ESCAPE '\\'\<close>, on the encoded strings: a percent sign matches any
  sequence, an escaped character itself, any other character itself up to the case of ASCII letters.
  (An unescaped underscore, which matches one code point, never occurs below.)
\<close>

definition like_spec :: "(string \<Rightarrow> string \<Rightarrow> bool) \<Rightarrow> bool" where
  "like_spec lk \<longleftrightarrow>
     (\<forall>s. lk [] s \<longleftrightarrow> s = []) \<and>
     (\<forall>p s. lk (CHR ''%'' # p) s \<longleftrightarrow> (\<exists>a b. s = a @ b \<and> lk p b)) \<and>
     (\<forall>c p s. lk (CHR 0x5C # c # p) s \<longleftrightarrow> (\<exists>x t. s = x # t \<and> ascii_lower x = ascii_lower c \<and> lk p t)) \<and>
     (\<forall>c p s. c \<notin> {CHR ''%'', CHR ''_'', CHR 0x5C} \<longrightarrow>
        (lk (c # p) s \<longleftrightarrow> (\<exists>x t. s = x # t \<and> ascii_lower x = ascii_lower c \<and> lk p t)))"

lemma like_escape_Cons:
  "like_escape (c # q) =
     (if c = CHR ''%'' \<or> c = CHR ''_'' then [CHR 0x5C, c] else [c]) @ like_escape q"
  by (simp add: like_escape_def)

lemma like_escaped:
  assumes "like_spec lk" and "CHR 0x5C \<notin> set q"
  shows "lk (like_escape q @ p) s \<longleftrightarrow>
    (\<exists>b t. s = b @ t \<and> to_ascii_lowercase b = to_ascii_lowercase q \<and> lk p t)"
  using assms(2)
proof (induction q arbitrary: s)
  case Nil
  then show ?case by (simp add: like_escape_def to_ascii_lowercase_def)
next
  case (Cons c q)
  have step: "lk (like_escape (c # q) @ p) s \<longleftrightarrow>
      (\<exists>x t. s = x # t \<and> ascii_lower x = ascii_lower c \<and> lk (like_escape q @ p) t)"
    using assms(1) Cons.prems unfolding like_spec_def like_escape_Cons by auto
  have IH: "lk (like_escape q @ p) t \<longleftrightarrow>
      (\<exists>b u. t = b @ u \<and> to_ascii_lowercase b = to_ascii_lowercase q \<and> lk p u)" for t
    using Cons by simp
  show ?case
  proof
    assume "lk (like_escape (c # q) @ p) s"
    then obtain x b u where "s = (x # b) @ u" "to_ascii_lowercase (x # b) = to_ascii_lowercase (c # q)" "lk p u"
      unfolding step IH by (auto simp: to_ascii_lowercase_def)
    then show "\<exists>b t. s = b @ t \<and> to_ascii_lowercase b = to_ascii_lowercase (c # q) \<and> lk p t" by blast
  next
    assume "\<exists>b t. s = b @ t \<and> to_ascii_lowercase b = to_ascii_lowercase (c # q) \<and> lk p t"
    then obtain z zs t where "s = z # (zs @ t)" "ascii_lower z = ascii_lower c"
      "to_ascii_lowercase zs = to_ascii_lowercase q" "lk p t"
      by (auto simp: to_ascii_lowercase_def map_eq_Cons_conv)
    then show "lk (like_escape (c # q) @ p) s" unfolding step IH by blast
  qed
qed

lemma ascii_lower_percent: "ascii_lower x = CHR ''%'' \<longleftrightarrow> x = CHR ''%''"
proof
  assume *: "ascii_lower x = CHR ''%''"
  show "x = CHR ''%''"
  proof (cases "65 \<le> (of_char x :: nat) \<and> (of_char x :: nat) \<le> 90")
    case True
    then have "of_char (ascii_lower x) = (of_char x :: nat) + 32"
      by (simp add: ascii_lower_def Let_def)
    with * True show ?thesis by simp
  next
    case False
    with * show ?thesis by (simp add: ascii_lower_def Let_def split: if_splits)
  qed
qed (simp add: ascii_lower_def)

lemma like_percent: "like_spec lk \<Longrightarrow> lk (CHR ''%'' # p) s \<longleftrightarrow> (\<exists>a b. s = a @ b \<and> lk p b)"
  by (simp add: like_spec_def)

lemma like_nil: "like_spec lk \<Longrightarrow> lk [] s \<longleftrightarrow> s = []"
  by (simp add: like_spec_def)

text \<open>
  The \<open>LIKE\<close> fallback finds the query as a substring: a query without a backslash, percent signs and
  underscores included, matches exactly the names that contain it up to the case of ASCII letters. The
  backslash itself is not escaped: the query of one backslash matches exactly the names ending in a
  percent sign.
\<close>

theorem recall_like_substring:
  assumes "like_spec lk" and "CHR 0x5C \<notin> set q"
  shows "(lk (like_pattern q) s \<longleftrightarrow>
      (\<exists>a b c. s = a @ b @ c \<and> to_ascii_lowercase b = to_ascii_lowercase q)) \<and>
    (lk (like_pattern [CHR 0x5C]) s \<longleftrightarrow> (\<exists>a. s = a @ ''%''))"
proof
  show "lk (like_pattern q) s \<longleftrightarrow> (\<exists>a b c. s = a @ b @ c \<and> to_ascii_lowercase b = to_ascii_lowercase q)"
    unfolding like_pattern_def append_Cons append_Nil like_percent[OF assms(1)] like_escaped[OF assms] like_nil[OF assms(1)]
    by auto
  have "lk [CHR 0x5C, CHR ''%''] b \<longleftrightarrow> (\<exists>x. b = [x] \<and> ascii_lower x = CHR ''%'')" for b
    using assms(1) by (auto simp: like_spec_def ascii_lower_def)
  moreover have "ascii_lower x = CHR ''%'' \<longleftrightarrow> x = CHR ''%''" for x
    by (rule ascii_lower_percent)
  ultimately show "lk (like_pattern [CHR 0x5C]) s \<longleftrightarrow> (\<exists>a. s = a @ ''%'')"
    by (simp add: like_pattern_def like_escape_def like_percent[OF assms(1)])
qed

text \<open>A matcher with the documented behaviour.\<close>

fun demo_like :: "string \<Rightarrow> string \<Rightarrow> bool" where
  "demo_like [] s = (s = [])"
| "demo_like [c] s =
     (if c = CHR ''%'' then True
      else case s of x # t \<Rightarrow> (c \<noteq> CHR ''_'' \<longrightarrow> ascii_lower x = ascii_lower c) \<and> t = [] | [] \<Rightarrow> False)"
| "demo_like (c # d # p) s =
     (if c = CHR ''%'' then list_ex (demo_like (d # p)) (suffixes s)
      else if c = CHR 0x5C then (case s of x # t \<Rightarrow> ascii_lower x = ascii_lower d \<and> demo_like p t | [] \<Rightarrow> False)
      else case s of x # t \<Rightarrow> (c \<noteq> CHR ''_'' \<longrightarrow> ascii_lower x = ascii_lower c) \<and> demo_like (d # p) t | [] \<Rightarrow> False)"

lemma demo_like_percent: "demo_like (CHR ''%'' # p) s \<longleftrightarrow> (\<exists>a b. s = a @ b \<and> demo_like p b)"
proof (cases p)
  case (Cons a q)
  have "demo_like (CHR ''%'' # p) s \<longleftrightarrow> (\<exists>b. suffix b s \<and> demo_like p b)" by (simp add: Cons list_ex_iff Bex_def)
  then show ?thesis unfolding suffix_def by blast
qed simp

lemma demo_like_spec: "like_spec demo_like"
proof -
  have "demo_like (CHR 0x5C # c # p) s \<longleftrightarrow> (\<exists>x t. s = x # t \<and> ascii_lower x = ascii_lower c \<and> demo_like p t)" for c p s
    by (cases s) auto
  moreover have "demo_like (c # p) s \<longleftrightarrow> (\<exists>x t. s = x # t \<and> ascii_lower x = ascii_lower c \<and> demo_like p t)"
    if "c \<notin> {CHR ''%'', CHR ''_'', CHR 0x5C}" for c p s
    using that by (cases s; cases p) auto
  ultimately show ?thesis unfolding like_spec_def by (simp add: demo_like_percent)
qed

theorem recall_like_substring_witness:
  "demo_like (like_pattern ''a_%'') ''xxA_%b'' \<and> demo_like (like_pattern [CHR 0x5C]) ''100%''"
proof -
  have "\<exists>a b c. ''xxA_%b'' = a @ b @ c \<and> to_ascii_lowercase b = to_ascii_lowercase ''a_%''"
  proof (intro exI conjI)
    show "''xxA_%b'' = ''xx'' @ ''A_%'' @ ''b''" by simp
    show "to_ascii_lowercase ''A_%'' = to_ascii_lowercase ''a_%''" by code_simp
  qed
  moreover have "\<exists>a. ''100%'' = a @ ''%''" by (rule exI[of _ "''100''"]) simp
  ultimately show ?thesis
    using recall_like_substring[OF demo_like_spec, of "''a_%''" "''xxA_%b''"]
      recall_like_substring[OF demo_like_spec, of "''a_%''" "''100%''"] by simp
qed

end
