(* ===== verification/Common_Types.thy ===== *)
theory Common_Types
  imports Topics
begin

text \<open>
  The shared crate (\<open>common/src\<close>): identifiers, storage layers, the layout of the data directory, topics
  of the event bus and the response envelope of the store. The canonical form of a path and SHA-256 are
  arguments.
\<close>

section \<open>Identifiers\<close>

definition hex_char :: "nat \<Rightarrow> char" where
  "hex_char n = ''0123456789abcdef'' ! n"

definition hex :: "bytes \<Rightarrow> string" where
  "hex b = concat (map (\<lambda>w. [hex_char (unat w div 16), hex_char (unat w mod 16)]) b)"

type_synonym ProjectId = string
type_synonym SessionId = string
type_synonym StepId = string

definition ProjectId_from_path ::
  "(path \<Rightarrow> string + path) \<Rightarrow> (string \<Rightarrow> bytes) \<Rightarrow> path \<Rightarrow> string + ProjectId" where
  "ProjectId_from_path canonicalize sha p =
     (case canonicalize p of Inl e \<Rightarrow> Inl e | Inr canon \<Rightarrow> Inr (hex (sha canon)))"

definition StepId_root :: "u32 \<Rightarrow> StepId" where
  "StepId_root n = show_nat (unat n)"

definition StepId_child :: "StepId \<Rightarrow> u32 \<Rightarrow> StepId" where
  "StepId_child parent n = parent @ ''.'' @ show_nat (unat n)"

text \<open>\<open>rfind\<close>: the index of the last occurrence of a character.\<close>

fun rfind :: "string \<Rightarrow> char \<Rightarrow> nat option" where
  "rfind [] c = None"
| "rfind (x # xs) c =
     (case rfind xs c of Some i \<Rightarrow> Some (Suc i) | None \<Rightarrow> if x = c then Some 0 else None)"

definition StepId_parent :: "StepId \<Rightarrow> StepId option" where
  "StepId_parent s = (case rfind s (CHR ''.'') of None \<Rightarrow> None | Some pos \<Rightarrow> Some (take pos s))"

section \<open>Layers\<close>

datatype DbLayer =
    Graph | History | ToolCache | Tasks | Semantic | Git | Memory | Errors | Multimodal | Deps | Tests
  | Perf | Findings | Agents | Refactors | Contracts | Insights | LiveState | Telemetry | Corpus
  | Audit | Wiki | Architecture | Conventions | Federated | Meta

fun layer_file_name :: "DbLayer \<Rightarrow> string" where
  "layer_file_name Graph = ''graph.db''"
| "layer_file_name History = ''history.db''"
| "layer_file_name ToolCache = ''tool_cache.db''"
| "layer_file_name Tasks = ''tasks.db''"
| "layer_file_name Semantic = ''semantic.db''"
| "layer_file_name Git = ''git.db''"
| "layer_file_name Memory = ''memory.db''"
| "layer_file_name Errors = ''errors.db''"
| "layer_file_name Multimodal = ''multimodal.db''"
| "layer_file_name Deps = ''deps.db''"
| "layer_file_name Tests = ''tests.db''"
| "layer_file_name Perf = ''perf.db''"
| "layer_file_name Findings = ''findings.db''"
| "layer_file_name Agents = ''agents.db''"
| "layer_file_name Refactors = ''refactors.db''"
| "layer_file_name Contracts = ''contracts.db''"
| "layer_file_name Insights = ''insights.db''"
| "layer_file_name LiveState = ''livestate.db''"
| "layer_file_name Telemetry = ''telemetry.db''"
| "layer_file_name Corpus = ''corpus.db''"
| "layer_file_name Audit = ''audit.db''"
| "layer_file_name Wiki = ''wiki.db''"
| "layer_file_name Architecture = ''architecture.db''"
| "layer_file_name Conventions = ''conventions.db''"
| "layer_file_name Federated = ''federated.db''"
| "layer_file_name Meta = ''meta.db''"

definition all_per_project :: "DbLayer list" where
  "all_per_project =
     [Graph, History, ToolCache, Tasks, Semantic, Git, Memory, Errors, Multimodal, Deps, Tests, Perf,
      Findings, Agents, Refactors, Contracts, Insights, LiveState, Telemetry, Corpus, Audit, Wiki,
      Architecture, Conventions, Federated]"

section \<open>Paths\<close>

record PathManager =
  pm_root :: path

definition default_root :: "path \<Rightarrow> PathManager" where
  "default_root home = \<lparr>pm_root = path_join home ''.mneme''\<rparr>"

definition meta_db :: "PathManager \<Rightarrow> path" where
  "meta_db pm = path_join (pm_root pm) (layer_file_name Meta)"

definition project_root :: "PathManager \<Rightarrow> ProjectId \<Rightarrow> path" where
  "project_root pm p = path_join (path_join (pm_root pm) ''projects'') p"

definition shard_db :: "PathManager \<Rightarrow> ProjectId \<Rightarrow> DbLayer \<Rightarrow> path" where
  "shard_db pm p layer = path_join (project_root pm p) (layer_file_name layer)"

text \<open>\<open>set_file_name\<close> replaces the last component.\<close>

definition wal_path :: "PathManager \<Rightarrow> ProjectId \<Rightarrow> DbLayer \<Rightarrow> path" where
  "wal_path pm p layer = path_join (project_root pm p) (layer_file_name layer @ ''-wal'')"

definition snapshot_dir :: "PathManager \<Rightarrow> ProjectId \<Rightarrow> path" where
  "snapshot_dir pm p = path_join (project_root pm p) ''snapshots''"

definition snapshot_by_id :: "PathManager \<Rightarrow> ProjectId \<Rightarrow> string \<Rightarrow> path" where
  "snapshot_by_id pm p sid = path_join (snapshot_dir pm p) sid"

definition cache_root :: "PathManager \<Rightarrow> path" where
  "cache_root pm = path_join (pm_root pm) ''cache''"

definition docs_cache :: "PathManager \<Rightarrow> path" where
  "docs_cache pm = path_join (cache_root pm) ''docs''"

definition embed_cache :: "PathManager \<Rightarrow> path" where
  "embed_cache pm = path_join (cache_root pm) ''embed''"

definition multimodal_cache :: "PathManager \<Rightarrow> path" where
  "multimodal_cache pm = path_join (cache_root pm) ''multimodal''"

definition supervisor_socket :: "PathManager \<Rightarrow> path" where
  "supervisor_socket pm = path_join (pm_root pm) ''supervisor.sock''"

definition livebus_socket :: "PathManager \<Rightarrow> path" where
  "livebus_socket pm = path_join (pm_root pm) ''livebus.sock''"

section \<open>Topics\<close>

datatype EventTopic =
    TFileChanged ProjectId | TTestStatus ProjectId | TDriftFinding ProjectId | TSubagentEvent ProjectId
  | TCompactionDetected SessionId | TStepAdvanced SessionId | TSystemHealth | TSystemDegradedMode
  | TDecisionRecorded ProjectId | TConstraintAdded ProjectId | TResumptionEmitted SessionId

fun as_topic :: "EventTopic \<Rightarrow> string" where
  "as_topic (TFileChanged p) = ''project.'' @ p @ ''.file_changed''"
| "as_topic (TTestStatus p) = ''project.'' @ p @ ''.test_status''"
| "as_topic (TDriftFinding p) = ''project.'' @ p @ ''.drift_finding''"
| "as_topic (TSubagentEvent p) = ''project.'' @ p @ ''.subagent_event''"
| "as_topic (TCompactionDetected s) = ''session.'' @ s @ ''.compaction_detected''"
| "as_topic (TStepAdvanced s) = ''session.'' @ s @ ''.step_advanced''"
| "as_topic TSystemHealth = ''system.health''"
| "as_topic TSystemDegradedMode = ''system.degraded_mode''"
| "as_topic (TDecisionRecorded p) = ''project.'' @ p @ ''.decision_recorded''"
| "as_topic (TConstraintAdded p) = ''project.'' @ p @ ''.constraint_added''"
| "as_topic (TResumptionEmitted s) = ''session.'' @ s @ ''.resumption_emitted''"

text \<open>The session and project an event is filed under.\<close>

fun topic_scope :: "EventTopic \<Rightarrow> SessionId option \<times> string option" where
  "topic_scope (TCompactionDetected s) = (Some s, None)"
| "topic_scope (TStepAdvanced s) = (Some s, None)"
| "topic_scope (TResumptionEmitted s) = (Some s, None)"
| "topic_scope (TFileChanged p) = (None, Some p)"
| "topic_scope (TTestStatus p) = (None, Some p)"
| "topic_scope (TDriftFinding p) = (None, Some p)"
| "topic_scope (TSubagentEvent p) = (None, Some p)"
| "topic_scope (TDecisionRecorded p) = (None, Some p)"
| "topic_scope (TConstraintAdded p) = (None, Some p)"
| "topic_scope TSystemHealth = (None, None)"
| "topic_scope TSystemDegradedMode = (None, None)"

record 'j CommonEvent =
  ce_topic :: string
  ce_timestamp :: int
  ce_session_id :: "SessionId option"
  ce_project_hash :: "string option"
  ce_payload :: 'j

definition CommonEvent_new :: "int \<Rightarrow> EventTopic \<Rightarrow> 'j \<Rightarrow> 'j CommonEvent" where
  "CommonEvent_new now topic payload =
     \<lparr>ce_topic = as_topic topic, ce_timestamp = now, ce_session_id = fst (topic_scope topic),
      ce_project_hash = snd (topic_scope topic), ce_payload = payload\<rparr>"

section \<open>Responses of the store\<close>

datatype DbError =
    DbNotFound
  | Corrupted (detail: string)
  | Locked (holder: string) (since: string)
  | Timeout (elapsed: u64)
  | SchemaMismatch (expected: u32) (found: u32)
  | SerializationFailure
  | DiskFull (available_bytes: u64)
  | DbPermissionDenied
  | InternalPanic (backtrace: string)
  | Sqlite string

fun db_error_text :: "DbError \<Rightarrow> string" where
  "db_error_text DbNotFound = ''not found''"
| "db_error_text (Corrupted d) = ''corrupted: '' @ d"
| "db_error_text (Locked h s) = ''locked by '' @ h @ '' since '' @ s"
| "db_error_text (Timeout ms) = ''timeout after '' @ show_nat (unat ms) @ ''ms''"
| "db_error_text (SchemaMismatch e f) =
     ''schema mismatch: expected v'' @ show_nat (unat e) @ '', found v'' @ show_nat (unat f)"
| "db_error_text SerializationFailure = ''serialization failure''"
| "db_error_text (DiskFull b) = ''disk full: '' @ show_nat (unat b) @ '' bytes free''"
| "db_error_text DbPermissionDenied = ''permission denied''"
| "db_error_text (InternalPanic b) = ''internal panic: '' @ b"
| "db_error_text (Sqlite e) = ''rusqlite: '' @ e"

text \<open>\<open>From<rusqlite::Error>\<close>: the code of a SQLite failure, where the error is one, and its text.\<close>

datatype sqlite_code = DatabaseCorrupt | ReadOnly | SqlitePermissionDenied | SqliteDiskFull | OtherCode

definition db_error_from :: "sqlite_code option \<Rightarrow> string \<Rightarrow> DbError" where
  "db_error_from code e =
     (case code of
        Some DatabaseCorrupt \<Rightarrow> Corrupted e
      | Some ReadOnly \<Rightarrow> DbPermissionDenied
      | Some SqlitePermissionDenied \<Rightarrow> DbPermissionDenied
      | Some SqliteDiskFull \<Rightarrow> DiskFull 0
      | _ \<Rightarrow> Sqlite e)"

fun variant_name :: "DbError \<Rightarrow> string" where
  "variant_name DbNotFound = ''not_found''"
| "variant_name (Corrupted _) = ''corrupted''"
| "variant_name (Locked _ _) = ''locked''"
| "variant_name (Timeout _) = ''timeout''"
| "variant_name (SchemaMismatch _ _) = ''schema_mismatch''"
| "variant_name SerializationFailure = ''serialization_failure''"
| "variant_name (DiskFull _) = ''disk_full''"
| "variant_name DbPermissionDenied = ''permission_denied''"
| "variant_name (InternalPanic _) = ''internal_panic''"
| "variant_name (Sqlite _) = ''sqlite''"

record ResponseMeta =
  latency_ms :: u64
  cache_hit :: bool
  source_db :: DbLayer
  query_id :: string
  schema_version :: u32

record DbErrorWire =
  wire_kind :: string
  wire_message :: string
  wire_detail :: "string option"

record 'a Response =
  success :: bool
  resp_data :: "'a option"
  resp_error :: "DbErrorWire option"
  resp_meta :: ResponseMeta

definition Response_ok :: "'a \<Rightarrow> ResponseMeta \<Rightarrow> 'a Response" where
  "Response_ok d meta = \<lparr>success = True, resp_data = Some d, resp_error = None, resp_meta = meta\<rparr>"

definition Response_err :: "DbError \<Rightarrow> ResponseMeta \<Rightarrow> 'a Response" where
  "Response_err e meta =
     \<lparr>success = False, resp_data = None,
      resp_error = Some \<lparr>wire_kind = variant_name e, wire_message = db_error_text e, wire_detail = None\<rparr>,
      resp_meta = meta\<rparr>"

section \<open>Step identifiers form a tree\<close>

lemma rfind_append: "c \<notin> set b \<Longrightarrow> rfind (a @ c # b) c = Some (length a)"
proof (induction a)
  case Nil
  then have "rfind b c = None" by (induction b) auto
  then show ?case by simp
qed simp

lemma show_nat_no_dot: "CHR ''.'' \<notin> set (show_nat n)"
  using show_nat_digits[of "CHR ''.''" n] by auto

text \<open>
  The parent of a child step is the step it was made from, roots have no parent, and siblings with
  different numbers are different steps; so step identifiers form a tree.
\<close>

theorem StepId_tree:
  "StepId_parent (StepId_child s n) = Some s \<and> StepId_parent (StepId_root n) = None \<and>
   (StepId_child s n = StepId_child t m \<longleftrightarrow> s = t \<and> n = m)"
proof -
  have par: "StepId_parent (StepId_child u k) = Some u" for u k
    by (simp add: StepId_parent_def StepId_child_def rfind_append[OF show_nat_no_dot])
  have "rfind xs c = None" if "c \<notin> set xs" for xs c using that by (induction xs) auto
  then have "StepId_parent (StepId_root n) = None"
    by (simp add: StepId_parent_def StepId_root_def show_nat_no_dot)
  moreover have "s = t \<and> n = m" if eq: "StepId_child s n = StepId_child t m"
  proof -
    have "s = t" using par[of s n] par[of t m] eq by simp
    moreover from this have "show_nat (unat n) = show_nat (unat m)" using eq by (simp add: StepId_child_def)
    then have "unat n = unat m" by (metis show_nat_inj)
    ultimately show ?thesis by (simp add: word_unat_eq_iff)
  qed
  ultimately show ?thesis using par by auto
qed

section \<open>Topics and the bus\<close>

lemma split_on_fresh: "c \<notin> set a \<Longrightarrow> split_on c a = [a]"
  by (induction a) auto

lemma split_on_append: "split_on c (a @ c # b) = split_on c a @ split_on c b"
proof (induction a)
  case (Cons x a)
  obtain y ys where "split_on c a = y # ys" by (cases "split_on c a") auto
  with Cons show ?case by auto
qed simp

text \<open>An identifier that is one segment of a topic.\<close>

definition clean_id :: "string \<Rightarrow> bool" where
  "clean_id s \<longleftrightarrow> s \<noteq> [] \<and> CHR ''.'' \<notin> set s \<and> \<not> has_control_or_space s \<and> s \<noteq> ''*'' \<and> s \<noteq> ''#''"

definition id_of :: "EventTopic \<Rightarrow> string option" where
  "id_of t = (case topic_scope t of (Some s, _) \<Rightarrow> Some s | (None, p) \<Rightarrow> p)"

definition area :: "EventTopic \<Rightarrow> string" where
  "area t = (case topic_scope t of (Some _, _) \<Rightarrow> ''session'' | (None, Some _) \<Rightarrow> ''project'' | _ \<Rightarrow> ''system'')"

definition topic_kinds :: "string list" where
  "topic_kinds = [''file_changed'', ''test_status'', ''drift_finding'', ''subagent_event'', ''compaction_detected'',
     ''step_advanced'', ''decision_recorded'', ''constraint_added'', ''resumption_emitted'', ''health'', ''degraded_mode'']"

lemma topic_kinds_clean: "list_all clean_id (''project'' # ''session'' # ''system'' # topic_kinds)"
  by (simp add: topic_kinds_def clean_id_def)

lemma topic_shape:
  "\<exists>kind \<in> set topic_kinds. as_topic t = area t @ ''.'' @ (case id_of t of Some i \<Rightarrow> i @ ''.'' | None \<Rightarrow> []) @ kind"
  by (cases t) (simp_all add: area_def id_of_def topic_kinds_def)

lemma topic_segments:
  assumes "\<forall>i. id_of t = Some i \<longrightarrow> clean_id i"
  shows "\<exists>kind. clean_id kind \<and> split_on (CHR ''.'') (as_topic t) =
    area t # (case id_of t of Some i \<Rightarrow> [i] | None \<Rightarrow> []) @ [kind]"
proof -
  obtain kind where k: "kind \<in> set topic_kinds"
    "as_topic t = area t @ ''.'' @ (case id_of t of Some i \<Rightarrow> i @ ''.'' | None \<Rightarrow> []) @ kind"
    using topic_shape by blast
  have clean: "clean_id kind" "clean_id (area t)"
    using k(1) topic_kinds_clean by (auto simp: list_all_iff area_def split: prod.splits option.splits)
  have seg: "split_on (CHR ''.'') s = [s]" if "clean_id s" for s
    using that by (simp add: clean_id_def split_on_fresh)
  show ?thesis
  proof (cases "id_of t")
    case None
    with k(2) clean show ?thesis by (auto simp: split_on_append seg)
  next
    case (Some i)
    then have "as_topic t = area t @ CHR ''.'' # (i @ CHR ''.'' # kind)" using k(2) by simp
    moreover have "clean_id i" using assms Some by simp
    ultimately have "split_on (CHR ''.'') (as_topic t) = [area t, i, kind]"
      using clean by (simp only: split_on_append seg) simp
    with Some clean show ?thesis by auto
  qed
qed

text \<open>
  The typed topics are well formed on the bus and keep projects and sessions apart. A topic made from
  an identifier that is a single segment is a valid concrete topic, and the subscription
  \<open>project.<id>.#\<close> (or \<open>session.<id>.#\<close>) receives an event exactly if it is filed under that project
  (that session).
\<close>

theorem typed_topics_isolated:
  assumes "\<forall>i. id_of t = Some i \<longrightarrow> clean_id i" and "clean_id q"
  shows "validate_topic (as_topic t) = Inr () \<and> is_concrete_topic (as_topic t) \<and>
    (topic_matches (''project.'' @ q @ ''.#'') (as_topic t) \<longleftrightarrow> snd (topic_scope t) = Some q) \<and>
    (topic_matches (''session.'' @ q @ ''.#'') (as_topic t) \<longleftrightarrow> fst (topic_scope t) = Some q)"
proof -
  obtain kind where kind: "clean_id kind"
    and segs: "split_on (CHR ''.'') (as_topic t) = area t # (case id_of t of Some i \<Rightarrow> [i] | None \<Rightarrow> []) @ [kind]"
    using topic_segments[OF assms(1)] by blast
  have ne: "as_topic t \<noteq> []" by (cases t) simp_all
  have area: "clean_id (area t)" using topic_kinds_clean by (simp add: area_def split: prod.splits option.splits)
  have all_clean: "\<forall>s \<in> set (split_on (CHR ''.'') (as_topic t)). clean_id s"
    using kind area assms(1) by (auto simp: segs split: option.splits)
  then have "validate_topic (as_topic t) = Inr ()"
    using ne by (simp add: validate_topic_def check_segments_ok clean_id_def)
  moreover have "is_concrete_topic (as_topic t)"
    using all_clean by (auto simp: is_concrete_topic_def list_ex_iff clean_id_def)
  moreover have pat: "split_on (CHR ''.'') (a @ CHR ''.'' # (q @ CHR ''.'' # ''#'')) = [a, q] @ [''#'']"
    if "clean_id a" for a
    using that assms(2) by (simp add: split_on_append split_on_fresh clean_id_def)
  have "topic_matches (a @ CHR ''.'' # (q @ CHR ''.'' # ''#'')) (as_topic t) \<longleftrightarrow> area t = a \<and> id_of t = Some q"
    if a: "clean_id a" for a
    unfolding topic_matches_seg_match[OF ne] pat[OF a] segs seg_match_hash
    using a assms(2) by (auto simp: clean_id_def split: option.splits)
  from this[of "''project''"] this[of "''session''"] topic_kinds_clean
  have "topic_matches (''project.'' @ q @ ''.#'') (as_topic t) \<longleftrightarrow> area t = ''project'' \<and> id_of t = Some q"
    "topic_matches (''session.'' @ q @ ''.#'') (as_topic t) \<longleftrightarrow> area t = ''session'' \<and> id_of t = Some q" by simp_all
  moreover have "area t = ''project'' \<and> id_of t = Some q \<longleftrightarrow> snd (topic_scope t) = Some q"
    "area t = ''session'' \<and> id_of t = Some q \<longleftrightarrow> fst (topic_scope t) = Some q"
    by (cases t; simp add: area_def id_of_def)+
  ultimately show ?thesis by blast
qed

lemma demo_clean: "clean_id ''abc'' \<and> clean_id ''abd''"
  by (simp add: clean_id_def)

theorem typed_topics_isolated_witness:
  "validate_topic (as_topic (TFileChanged ''abc'')) = Inr () \<and>
   topic_matches ''project.abc.#'' (as_topic (TFileChanged ''abc'')) \<and>
   \<not> topic_matches ''project.abd.#'' (as_topic (TFileChanged ''abc''))"
  using typed_topics_isolated[of "TFileChanged ''abc''" "''abc''"] typed_topics_isolated[of "TFileChanged ''abc''" "''abd''"]
    demo_clean by (simp add: id_of_def)

section \<open>The data directory\<close>

lemma hex_id: "bs \<noteq> [] \<Longrightarrow> clean_id (hex bs) \<and> CHR ''/'' \<notin> set (hex bs)"
proof -
  assume bs: "bs \<noteq> []"
  have digits: "set (hex bs) \<subseteq> set ''0123456789abcdef''"
  proof
    fix c assume "c \<in> set (hex bs)"
    then obtain w where w: "c = hex_char (unat (w :: 8 word) div 16) \<or> c = hex_char (unat w mod 16)"
      by (auto simp: hex_def)
    have "unat w < 256" using unsigned_less[of w] by simp
    then obtain n where n: "n < 16" "c = hex_char n"
      using w by (metis less_mult_imp_div_less mod_less_divisor numeral_times_numeral semiring_norm(12,13) zero_less_numeral)
    have "length ''0123456789abcdef'' = 16" by simp
    with n nth_mem[of n "''0123456789abcdef''"] show "c \<in> set ''0123456789abcdef''"
      unfolding hex_char_def by argo
  qed
  have "has_control_or_space s \<Longrightarrow> \<not> set s \<subseteq> set ''0123456789abcdef''" for s
    by (induction s rule: has_control_or_space.induct) (auto simp: Let_def)
  with digits have "\<not> has_control_or_space (hex bs)" by blast
  moreover have "2 \<le> length (hex bs)" using bs by (cases bs) (simp_all add: hex_def)
  ultimately show ?thesis using digits by (auto simp: clean_id_def)
qed

definition dir_prefix :: "path \<Rightarrow> path" where
  "dir_prefix a = (if a = [] \<or> ends_with a ''/'' then a else a @ ''/'')"

lemma path_join_prefix: "\<not> starts_with b ''/'' \<Longrightarrow> path_join a b = dir_prefix a @ b"
  by (simp add: path_join_def dir_prefix_def)

lemma dir_prefix_name: "b \<noteq> [] \<Longrightarrow> CHR ''/'' \<notin> set b \<Longrightarrow> dir_prefix (a @ b) = a @ b @ ''/''"
  by (cases b rule: rev_cases) (auto simp: dir_prefix_def ends_with_iff)

lemma no_slash_start: "CHR ''/'' \<notin> set b \<Longrightarrow> \<not> starts_with b ''/''"
  by (cases b) auto

lemma slash_cut:
  assumes "p @ CHR ''/'' # f = q @ CHR ''/'' # g" and "CHR ''/'' \<notin> set p" and "CHR ''/'' \<notin> set q"
  shows "p = q \<and> f = g"
proof -
  have tw: "takeWhile (\<lambda>c. c \<noteq> CHR ''/'') (a @ CHR ''/'' # b) = a" if "CHR ''/'' \<notin> set a" for a b
    using that by (induction a) auto
  have "p = q" using tw[OF assms(2), of f] tw[OF assms(3), of g] assms(1) by simp
  with assms(1) show ?thesis by simp
qed

lemma layers_all: "set (Meta # all_per_project) = UNIV"
proof -
  have "l \<in> set (Meta # all_per_project)" for l by (cases l) (simp_all add: all_per_project_def)
  then show ?thesis by blast
qed

lemma layer_files:
  "distinct (map layer_file_name (Meta # all_per_project))"
  "list_all (\<lambda>l. CHR ''/'' \<notin> set (layer_file_name l) \<and> last (layer_file_name l) = CHR ''b'' \<and> layer_file_name l \<noteq> [])
     (Meta # all_per_project)"
  by code_simp+

lemma layer_file_name_inj: "layer_file_name l = layer_file_name m \<longleftrightarrow> l = m"
  using layer_files(1) layers_all by (metis distinct_map inj_onD UNIV_I)

lemma layer_file_name_props:
  "CHR ''/'' \<notin> set (layer_file_name l)" "last (layer_file_name l) = CHR ''b''" "layer_file_name l \<noteq> []"
  using layer_files(2) layers_all unfolding list_all_iff by (metis UNIV_I)+

definition shard_id :: "ProjectId \<Rightarrow> bool" where
  "shard_id p \<longleftrightarrow> p \<noteq> [] \<and> CHR ''/'' \<notin> set p"

lemma shard_path:
  assumes "shard_id p" and "CHR ''/'' \<notin> set f"
  shows "path_join (project_root pm p) f = dir_prefix (pm_root pm) @ ''projects/'' @ p @ CHR ''/'' # f"
proof -
  have "project_root pm p = dir_prefix (pm_root pm) @ ''projects/'' @ p"
    using assms(1) dir_prefix_name[of "''projects''" "dir_prefix (pm_root pm)"]
    by (simp add: project_root_def path_join_prefix shard_id_def no_slash_start)
  with assms show ?thesis
    using dir_prefix_name[of p "dir_prefix (pm_root pm) @ ''projects/''"]
    by (simp add: path_join_prefix shard_id_def no_slash_start)
qed

text \<open>
  No two databases share a file. For identifiers made from paths, the files of two shards coincide
  only for the same project and layer, no shard file is another's write-ahead log or the global
  database, and \<open>all_per_project\<close> lists every layer but the global one exactly once.
\<close>

theorem shard_files_disjoint:
  assumes "ProjectId_from_path canon sha a = Inr p" and "ProjectId_from_path canon sha b = Inr q"
    and "\<forall>x. sha x \<noteq> []"
  shows "(shard_db pm p l = shard_db pm q m \<longleftrightarrow> p = q \<and> l = m) \<and> wal_path pm p l \<noteq> shard_db pm q m \<and>
    shard_db pm p l \<noteq> meta_db pm \<and> set all_per_project = UNIV - {Meta} \<and> distinct all_per_project"
proof -
  have ids: "shard_id p" "shard_id q"
    using assms hex_id by (auto simp: ProjectId_from_path_def shard_id_def clean_id_def split: sum.splits)
  have wal: "CHR ''/'' \<notin> set (layer_file_name l @ ''-wal'')" by (simp add: layer_file_name_props)
  have "last (layer_file_name l @ ''-wal'') \<noteq> CHR ''b''" by simp
  then have ne: "layer_file_name l @ ''-wal'' \<noteq> layer_file_name m"
    using layer_file_name_props(2)[of m] by metis
  have eq: "shard_db pm p l = shard_db pm q m \<longleftrightarrow> p = q \<and> l = m"
    using slash_cut[of p "layer_file_name l" q "layer_file_name m"] ids
    by (auto simp: shard_db_def shard_path layer_file_name_props shard_id_def layer_file_name_inj)
  have "wal_path pm p l \<noteq> shard_db pm q m"
    using slash_cut[of p "layer_file_name l @ ''-wal''" q "layer_file_name m"] ids ne wal
    by (auto simp: wal_path_def shard_db_def shard_path layer_file_name_props shard_id_def)
  moreover have "shard_db pm p l \<noteq> meta_db pm"
    using ids by (simp add: shard_db_def shard_path layer_file_name_props meta_db_def path_join_prefix)
  moreover have "set all_per_project = UNIV - {Meta}" "distinct all_per_project"
    using layers_all layer_files(1) by (auto simp: all_per_project_def)
  ultimately show ?thesis using eq by blast
qed

theorem shard_files_disjoint_witness:
  "shard_db (default_root ''/home/u'') ''0a'' Graph = ''/home/u/.mneme/projects/0a/graph.db'' \<and>
   shard_db (default_root ''/home/u'') ''0a'' Graph \<noteq> shard_db (default_root ''/home/u'') ''0b'' Graph"
proof -
  have "ProjectId_from_path Inr (\<lambda>x. [if x = [] then 10 else 11]) [] = Inr ''0a''"
    "ProjectId_from_path Inr (\<lambda>x. [if x = [] then 10 else 11]) ''/'' = Inr ''0b''"
    by (simp_all add: ProjectId_from_path_def hex_def hex_char_def)
  from shard_files_disjoint[OF this, of "default_root ''/home/u''" Graph Graph]
  have "shard_db (default_root ''/home/u'') ''0a'' Graph \<noteq> shard_db (default_root ''/home/u'') ''0b'' Graph" by simp
  moreover have "shard_db (default_root ''/home/u'') ''0a'' Graph = ''/home/u/.mneme/projects/0a/graph.db''"
    by (simp add: shard_db_def project_root_def default_root_def path_join_def ends_with_def)
  ultimately show ?thesis by blast
qed

end
