(* ===== verification/Control_Plane.thy ===== *)
theory Control_Plane
  imports Manager_Lifecycle Boot Ipc_Frame Blast_Query Recall_Query Common_Types
begin

text \<open>
  The control plane of the supervisor (\<open>supervisor/src/ipc.rs\<close>): the commands and responses, \<open>dispatch\<close>
  on the manager, the queue and the shards, and the loop of \<open>handle_conn\<close> over the bytes of a
  connection. The JSON codec, the file system, SQLite, the clocks, the pipes of the workers and the
  kill call are arguments; what changes from one command to the next is given by its number.
\<close>

section \<open>Commands and responses\<close>

datatype ControlCommand =
    CmdPing
  | CmdStatus
  | CmdLogs "string option" usize
  | CmdRestart string
  | CmdRestartAll
  | CmdStop
  | CmdHeartbeat string
  | CmdDispatch string string
  | CmdDispatchJob Job
  | CmdWorkerCompleteJob JobId JobOutcome
  | CmdJobQueueStatus
  | CmdRecall path string usize "string option"
  | CmdBlast path string usize
  | CmdGodNodes path usize

datatype ControlResponse =
    RspPong
  | RspStatus "ChildSnapshot list"
  | RspLogs "LogEntry list"
  | RspDispatched string
  | RspJobQueued JobId
  | RspJobQueue JobQueueSnapshot
  | RspOk "string option"
  | RspRecallResults "RecallHit list"
  | RspBlastResults "BlastItem list"
  | RspGodNodesResults "GodNode list"
  | RspError string

section \<open>Queries on a shard\<close>

record shard =
  sh_recall :: recall_db
  sh_blast :: blast_db
  sh_gods :: "i64 \<Rightarrow> string + god_row list"

record files =
  fs_canonicalize :: "path \<Rightarrow> string + path"
  fs_sha :: "string \<Rightarrow> bytes"
  fs_home :: path
  fs_exists :: "path \<Rightarrow> bool"
  fs_open :: "path \<Rightarrow> string + shard"

definition resolve_graph_db :: "files \<Rightarrow> path \<Rightarrow> string + path" where
  "resolve_graph_db fs project =
     (let root = (case fs_canonicalize fs project of Inr r \<Rightarrow> r | Inl _ \<Rightarrow> project) in
      case ProjectId_from_path (fs_canonicalize fs) (fs_sha fs) root of
        Inl e \<Rightarrow> Inl (''cannot hash project path '' @ root @ '': '' @ e)
      | Inr prj \<Rightarrow>
          (let db = path_join (project_root (default_root (fs_home fs)) prj) ''graph.db'' in
           if \<not> fs_exists fs db
           then Inl (''graph.db not found at '' @ db @ ''. Run `mneme build .` first.'')
           else Inr db))"

definition open_ro :: "files \<Rightarrow> path \<Rightarrow> string + shard" where
  "open_ro fs db = (case fs_open fs db of Inl e \<Rightarrow> Inl (''open '' @ db @ '': '' @ e) | Inr s \<Rightarrow> Inr s)"

text \<open>Each query resolves the shard, opens it and runs; the first error is the answer.\<close>

definition on_shard :: "files \<Rightarrow> path \<Rightarrow> (shard \<Rightarrow> string + 'a) \<Rightarrow> string + 'a" where
  "on_shard fs project query =
     (case resolve_graph_db fs project of
        Inl e \<Rightarrow> Inl e
      | Inr db \<Rightarrow> (case open_ro fs db of Inl e \<Rightarrow> Inl e | Inr s \<Rightarrow> query s))"

section \<open>Dispatch\<close>

record plane =
  pl_manager :: ChildManager
  pl_counter :: u64
  pl_stop :: bool
  pl_kills :: "u32 list"

record ipc_env =
  ie_queue :: qenv
  ie_clock :: clock
  ie_kill :: "u32 \<Rightarrow> string option"
  ie_write :: "string \<Rightarrow> io_error option"
  ie_files :: files

text \<open>\<open>kill_child\<close> and the process ids it signals.\<close>

definition signalled :: "string \<Rightarrow> ChildManager \<Rightarrow> u32 list" where
  "signalled name m = (case kill_target name m of None \<Rightarrow> [] | Some p \<Rightarrow> [p])"

definition no_queue :: ControlResponse where
  "no_queue = RspError ''supervisor job queue is not attached''"

definition ipc_dispatch :: "ipc_env \<Rightarrow> ControlCommand \<Rightarrow> plane \<Rightarrow> ControlResponse \<times> plane" where
  "ipc_dispatch env cmd pl =
     (let m = pl_manager pl in
      case cmd of
        CmdPing \<Rightarrow> (RspPong, pl)
      | CmdStatus \<Rightarrow> (RspStatus (mgr_snapshot (ck_instant (ie_clock env)) m), pl)
      | CmdLogs child n \<Rightarrow> (RspLogs (lr_tail child n (log_ring m)), pl)
      | CmdRestart child \<Rightarrow>
          if child \<notin> set (child_names m) then (RspError (''unknown child: '' @ child), pl)
          else let pl' = pl\<lparr>pl_kills := pl_kills pl @ signalled child m\<rparr> in
            (case kill_child (ie_kill env) child m of
               Inl e \<Rightarrow> (RspError (''kill failed: '' @ sup_error_text e), pl')
             | Inr _ \<Rightarrow> (RspOk (Some (''child '' @ quoted child @ '' kill signalled; restart pending'')), pl'))
      | CmdRestartAll \<Rightarrow>
          (RspOk (Some ''all children kill signalled''),
           pl\<lparr>pl_kills := pl_kills pl @ concat (map (\<lambda>n. signalled n m) (child_names m))\<rparr>)
      | CmdStop \<Rightarrow> (RspOk (Some ''shutdown signalled''), pl\<lparr>pl_stop := True\<rparr>)
      | CmdHeartbeat child \<Rightarrow>
          if child \<notin> set (child_names m) then (RspError (''unknown child: '' @ child), pl)
          else (RspOk None, pl\<lparr>pl_manager := record_heartbeat (ck_instant (ie_clock env)) child m\<rparr>)
      | CmdDispatch pool payload \<Rightarrow>
          (case dispatch_to_pool (ie_write env) pool payload m of
             (Inr worker, m') \<Rightarrow> (RspDispatched worker, pl\<lparr>pl_manager := m'\<rparr>)
           | (Inl e, m') \<Rightarrow> (RspError (sup_error_text e), pl\<lparr>pl_manager := m'\<rparr>))
      | CmdDispatchJob job \<Rightarrow>
          (case job_queue m of
             None \<Rightarrow> (no_queue, pl)
           | Some q \<Rightarrow>
               (case jq_submit (ie_queue env) job None (pl_counter pl) q of
                  (res, c', q') \<Rightarrow>
                    (case res of Inr jid \<Rightarrow> RspJobQueued jid | Inl e \<Rightarrow> RspError (sup_error_text e),
                     pl\<lparr>pl_counter := c', pl_manager := m\<lparr>job_queue := Some q'\<rparr>\<rparr>)))
      | CmdWorkerCompleteJob jid outcome \<Rightarrow>
          (case job_queue m of
             None \<Rightarrow> (no_queue, pl)
           | Some q \<Rightarrow>
               (case jq_complete (ie_queue env) jid outcome q of
                  (worker, q') \<Rightarrow>
                    let m1 = m\<lparr>job_queue := Some q'\<rparr> in
                    (RspOk None,
                     pl\<lparr>pl_manager :=
                       (case worker of
                          None \<Rightarrow> m1
                        | Some name \<Rightarrow>
                            mgr_record_job_completion (ck_utc (ie_clock env)) name jid (status_str outcome)
                              (outcome_duration_ms outcome) m1)\<rparr>)))
      | CmdJobQueueStatus \<Rightarrow>
          (case job_queue m of None \<Rightarrow> (no_queue, pl) | Some q \<Rightarrow> (RspJobQueue (jq_snapshot q), pl))
      | CmdRecall project query limit _ \<Rightarrow>
          (case on_shard (ie_files env) project (\<lambda>s. run_recall (sh_recall s) query limit) of
             Inr hits \<Rightarrow> (RspRecallResults hits, pl)
           | Inl e \<Rightarrow> (RspError e, pl))
      | CmdBlast project tgt dep \<Rightarrow>
          (case on_shard (ie_files env) project (\<lambda>s. run_blast (sh_blast s) tgt dep) of
             Inr impacted \<Rightarrow> (RspBlastResults impacted, pl)
           | Inl e \<Rightarrow> (RspError e, pl))
      | CmdGodNodes project n \<Rightarrow>
          (case on_shard (ie_files env) project (\<lambda>s. run_godnodes (sh_gods s) n) of
             Inr nodes \<Rightarrow> (RspGodNodesResults nodes, pl)
           | Inl e \<Rightarrow> (RspError e, pl)))"

section \<open>The connection\<close>

record wire =
  wi_from_slice :: "bytes \<Rightarrow> string + ControlCommand"
  wi_to_vec :: "ControlResponse \<Rightarrow> string + bytes"
  wi_write :: "bytes \<Rightarrow> io_error option"

definition MAX_FRAME :: nat where
  "MAX_FRAME = 16 * 1024 * 1024"

text \<open>The frame written, or the error that ends the connection.\<close>

definition write_response :: "wire \<Rightarrow> ControlResponse \<Rightarrow> bytes sup_result" where
  "write_response w resp =
     (case wi_to_vec w resp of
        Inl e \<Rightarrow> Inl (Json e)
      | Inr body \<Rightarrow> (case wi_write w (framed body) of Some e \<Rightarrow> Inl (Io e) | None \<Rightarrow> Inr (framed body)))"

text \<open>The answer to the body of one frame.\<close>

definition answer :: "wire \<Rightarrow> ipc_env \<Rightarrow> bytes \<Rightarrow> plane \<Rightarrow> ControlResponse \<times> plane" where
  "answer w env body pl =
     (case wi_from_slice w body of
        Inl e \<Rightarrow> (RspError (''malformed command: '' @ e), pl)
      | Inr cmd \<Rightarrow> ipc_dispatch env cmd pl)"

function handle_conn ::
  "wire \<Rightarrow> (nat \<Rightarrow> ipc_env) \<Rightarrow> nat \<Rightarrow> stream \<Rightarrow> plane \<Rightarrow> bytes \<Rightarrow> unit sup_result \<times> plane \<times> bytes" where
  "handle_conn w envs k s pl out =
     (case read_exact 4 s of
        (Inl e, _) \<Rightarrow> ((if io_kind e = UnexpectedEof then Inr () else Inl (Io e)), pl, out)
      | (Inr len_buf, s1) \<Rightarrow>
          (let len = unat (from_be_bytes len_buf) in
           if len > MAX_FRAME then (Inl (Ipc (''frame too large: '' @ show_nat len)), pl, out)
           else case read_exact len s1 of
             (Inl e, _) \<Rightarrow> (Inl (Io e), pl, out)
           | (Inr body, s2) \<Rightarrow>
               (case answer w (envs k) body pl of
                  (resp, pl') \<Rightarrow>
                    (case write_response w resp of
                       Inl e \<Rightarrow> (Inl e, pl', out)
                     | Inr frame \<Rightarrow> handle_conn w envs (k + 1) s2 pl' (out @ frame)))))"
  by pat_completeness auto

termination handle_conn
  by (relation "measure (\<lambda>(w, envs, k, s, pl, out). length (st_bytes s))")
    (auto simp: read_exact_def split: if_splits)

declare handle_conn.simps [simp del]

end
