(* ===== verification/Control_Plane_Properties.thy ===== *)
theory Control_Plane_Properties
  imports Control_Plane Supervisor_Guarantees
begin

text \<open>
  What the control plane guarantees: commands are steps of the two state machines of the supervisor, so
  no input on the socket, well formed or not, leaves them; and a session answers its commands one by
  one in order.
\<close>

section \<open>Commands are steps\<close>

lemma dispatch_manager_steps:
  assumes "ipc_dispatch env cmd pl = (r, pl')"
  shows "mgr_step\<^sup>*\<^sup>* (pl_manager pl, x) (pl_manager pl', x)"
proof -
  have one: "mgr_step s t \<Longrightarrow> mgr_step\<^sup>*\<^sup>* s t" for s t by blast
  note steps = mgr_step.heartbeat mgr_step.dispatch mgr_step.queue_op mgr_step.telemetry
  show ?thesis
  proof (cases cmd)
    case (CmdHeartbeat c)
    with assms show ?thesis
      using one[OF mgr_step.heartbeat[of "pl_manager pl" x "ck_instant (ie_clock env)" c]]
      by (auto simp: ipc_dispatch_def Let_def split: if_splits)
  next
    case (CmdDispatch p l)
    with assms show ?thesis
      using one[OF mgr_step.dispatch[of "pl_manager pl" x "ie_write env" p l]]
      by (auto simp: ipc_dispatch_def Let_def split: prod.splits sum.splits)
  next
    case (CmdDispatchJob j)
    have "mgr_step\<^sup>*\<^sup>* (pl_manager pl, x) ((pl_manager pl)\<lparr>job_queue := q'\<rparr>, x)" for q'
      by (rule one[OF mgr_step.queue_op])
    with assms CmdDispatchJob show ?thesis
      by (auto simp: ipc_dispatch_def Let_def split: option.splits prod.splits)
  next
    case (CmdWorkerCompleteJob i o')
    show ?thesis
    proof (cases "job_queue (pl_manager pl)")
      case (Some q)
      obtain w q' where c: "jq_complete (ie_queue env) i o' q = (w, q')" by force
      have q: "mgr_step (pl_manager pl, x) ((pl_manager pl)\<lparr>job_queue := Some q'\<rparr>, x)" by (rule steps)
      show ?thesis
      proof (cases w)
        case None
        with assms CmdWorkerCompleteJob Some c q show ?thesis by (auto simp: ipc_dispatch_def Let_def)
      next
        case w: (Some name)
        have t: "mgr_step ((pl_manager pl)\<lparr>job_queue := Some q'\<rparr>, x)
            (mgr_record_job_completion (ck_utc (ie_clock env)) name i (status_str o') (outcome_duration_ms o')
               ((pl_manager pl)\<lparr>job_queue := Some q'\<rparr>), x)" by (rule steps)
        have "pl_manager pl' = mgr_record_job_completion (ck_utc (ie_clock env)) name i (status_str o')
            (outcome_duration_ms o') ((pl_manager pl)\<lparr>job_queue := Some q'\<rparr>)"
          using assms CmdWorkerCompleteJob Some c w by (auto simp: ipc_dispatch_def Let_def)
        with q t show ?thesis by (metis (no_types) converse_rtranclp_into_rtranclp rtranclp.rtrancl_refl)
      qed
    qed (use assms CmdWorkerCompleteJob in \<open>auto simp: ipc_dispatch_def no_queue_def\<close>)
  qed (use assms in \<open>auto simp: ipc_dispatch_def Let_def split: if_splits sum.splits option.splits\<close>)
qed

lemma manager_queue_frame [simp]:
  "job_queue (record_heartbeat now n m) = job_queue m"
  "job_queue (mgr_record_job_completion utc n i st d m) = job_queue m"
  by (simp_all add: record_heartbeat_def mgr_record_job_completion_def modify_handle_def)

lemma dispatch_to_pool_queue: "job_queue (snd (dispatch_to_pool wr p l m)) = job_queue m"
proof -
  have "job_queue (snd (dispatch_job wr n l m)) = job_queue m" for n m
    by (simp add: dispatch_job_def modify_handle_def split: option.splits)
  then have "job_queue (snd (dispatch_first wr ns l m)) = job_queue m" for ns
    by (induction ns arbitrary: m) (auto split: prod.splits sum.splits, metis snd_conv, metis snd_conv)
  then show ?thesis by (auto simp: dispatch_to_pool_def Let_def split: prod.splits option.splits) (metis snd_conv)+
qed

lemma sys_run_one: "sys_step E cd s l t \<Longrightarrow> sys_run E cd s [l] t"
  by (rule run_step[OF _ run_refl])

lemma dispatch_queue_steps:
  assumes "ipc_dispatch env cmd pl = (r, pl')" and "job_queue (pl_manager pl) = Some q"
    and "E (ie_queue env)" and "unat (pl_counter pl) < 2 ^ 63 - 1"
  shows "\<exists>q' ls. job_queue (pl_manager pl') = Some q' \<and>
    sys_run E cd (q, pl_counter pl, h) ls (q', pl_counter pl', h) \<and>
    unat (pl_counter pl') \<le> unat (pl_counter pl) + 1"
proof -
  have refl: ?thesis if "job_queue (pl_manager pl') = Some q" "pl_counter pl' = pl_counter pl"
    using that by (auto intro!: exI[of _ "[]"] run_refl)
  show ?thesis
  proof (cases cmd)
    case (CmdDispatchJob j)
    obtain res c' q' where s: "jq_submit (ie_queue env) j None (pl_counter pl) q = (res, c', q')" by (metis prod_cases3)
    have c: "c' = pl_counter pl + 1" using s by (auto simp: jq_submit_def JobId_next_def Let_def split: if_splits)
    have "unat c' \<le> unat (pl_counter pl) + 1" using assms(4) c by (simp add: unat_word_ariths)
    moreover have "\<exists>l. sys_step E cd (q, pl_counter pl, h) l (q', c', h)"
    proof (cases res)
      case (Inl e)
      have "sys_step E cd (q, pl_counter pl, h) LRefused (q', c', h)"
        by (rule sys_step.refused[where env = "ie_queue env" and job = j and w = None]) (use assms s Inl in auto)
      then show ?thesis by blast
    next
      case (Inr i)
      have "sys_step E cd (q, pl_counter pl, h) (LSubmit i) (q', c', h)"
        by (rule sys_step.submitted[where env = "ie_queue env" and job = j and w = None]) (use assms s Inr in auto)
      then show ?thesis by blast
    qed
    moreover have "job_queue (pl_manager pl') = Some q'" "pl_counter pl' = c'"
      using assms(1,2) CmdDispatchJob s by (auto simp: ipc_dispatch_def Let_def)
    ultimately show ?thesis using sys_run_one by fastforce
  next
    case (CmdWorkerCompleteJob i o')
    obtain w q' where c: "jq_complete (ie_queue env) i o' q = (w, q')" by force
    then have "sys_step E cd (q, pl_counter pl, h) (LComplete i) (q', pl_counter pl, h)"
      using assms(3) by (rule sys_step.completed[rotated])
    moreover have "job_queue (pl_manager pl') = Some q'" "pl_counter pl' = pl_counter pl"
      using assms(1,2) CmdWorkerCompleteJob c by (auto simp: ipc_dispatch_def Let_def split: option.splits)
    ultimately show ?thesis using sys_run_one by fastforce
  next
    case (CmdDispatch p l)
    with assms(1,2) dispatch_to_pool_queue[of "ie_write env" p l "pl_manager pl"] show ?thesis
      by (intro refl) (auto simp: ipc_dispatch_def Let_def split: prod.splits sum.splits)
  qed (intro refl; use assms(1,2) in \<open>auto simp: ipc_dispatch_def Let_def split: if_splits sum.splits option.splits\<close>)+
qed

section \<open>Connections\<close>

lemma answer_steps:
  assumes "answer w env body pl = (r, pl')"
  shows "mgr_step\<^sup>*\<^sup>* (pl_manager pl, x) (pl_manager pl', x)"
    and "job_queue (pl_manager pl) = Some q \<Longrightarrow> E (ie_queue env) \<Longrightarrow> unat (pl_counter pl) < 2 ^ 63 - 1 \<Longrightarrow>
      \<exists>q' ls. job_queue (pl_manager pl') = Some q' \<and>
        sys_run E cd (q, pl_counter pl, h) ls (q', pl_counter pl', h) \<and>
        unat (pl_counter pl') \<le> unat (pl_counter pl) + 1"
proof -
  have "pl' = pl \<or> (\<exists>cmd. ipc_dispatch env cmd pl = (r, pl'))"
    using assms by (auto simp: answer_def split: sum.splits)
  then consider "pl' = pl" | cmd where "ipc_dispatch env cmd pl = (r, pl')" by blast
  note cases = this
  from cases show "mgr_step\<^sup>*\<^sup>* (pl_manager pl, x) (pl_manager pl', x)"
    by cases (auto intro: dispatch_manager_steps)
  assume q: "job_queue (pl_manager pl) = Some q" "E (ie_queue env)" "unat (pl_counter pl) < 2 ^ 63 - 1"
  from cases show "\<exists>q' ls. job_queue (pl_manager pl') = Some q' \<and>
        sys_run E cd (q, pl_counter pl, h) ls (q', pl_counter pl', h) \<and>
        unat (pl_counter pl') \<le> unat (pl_counter pl) + 1"
    by cases (use q run_refl in \<open>fastforce intro: dispatch_queue_steps\<close>)+
qed

lemma sys_run_append:
  "sys_run E cd s ls t \<Longrightarrow> sys_run E cd t ls' u \<Longrightarrow> sys_run E cd s (ls @ ls') u"
  by (induction rule: sys_run.induct) (auto intro: run_step)

text \<open>One round of the loop: the connection ends with the state it has, or goes on after an answer.\<close>

lemma handle_conn_round:
  assumes "handle_conn w envs k s pl out = (res, pl', out')"
  obtains (stops) "pl' = pl"
  | (last) body resp where "answer w (envs k) body pl = (resp, pl')" "0 < length (st_bytes s)"
  | (goes_on) body resp pl1 s2 frame where "answer w (envs k) body pl = (resp, pl1)"
      "length (st_bytes s2) + 4 \<le> length (st_bytes s)"
      "handle_conn w envs (k + 1) s2 pl1 (out @ frame) = (res, pl', out')"
proof (cases "length (st_bytes s) < 4")
  case True
  with assms show ?thesis by (intro stops) (subst (asm) handle_conn.simps, simp add: read_exact_def)
next
  case False
  let ?len = "unat (from_be_bytes (take 4 (st_bytes s)))"
  show ?thesis
  proof (cases "MAX_FRAME < ?len \<or> length (st_bytes s) - 4 < ?len")
    case True
    with False assms show ?thesis
      by (intro stops) (subst (asm) handle_conn.simps, auto simp: read_exact_def Let_def split: if_splits)
  next
    case fits: False
    let ?s2 = "s\<lparr>st_bytes := drop (?len + 4) (st_bytes s)\<rparr>" and ?body = "take ?len (drop 4 (st_bytes s))"
    obtain resp pl1 where a: "answer w (envs k) ?body pl = (resp, pl1)" by force
    have eq: "handle_conn w envs k s pl out =
        (case write_response w resp of Inl e \<Rightarrow> (Inl e, pl1, out)
         | Inr frame \<Rightarrow> handle_conn w envs (k + 1) ?s2 pl1 (out @ frame))"
      using False fits a by (subst handle_conn.simps) (auto simp: read_exact_def Let_def)
    show ?thesis
    proof (cases "write_response w resp")
      case (Inl e)
      with eq assms a False show ?thesis by (intro last) auto
    next
      case (Inr frame)
      have "length (st_bytes ?s2) + 4 \<le> length (st_bytes s)" using False by simp
      with Inr eq assms a show ?thesis by (intro goes_on) auto
    qed
  qed
qed

lemma handle_conn_steps:
  assumes "handle_conn w envs k s pl out = (res, pl', out')"
  shows "mgr_step\<^sup>*\<^sup>* (pl_manager pl, x) (pl_manager pl', x) \<and>
    (job_queue (pl_manager pl) = Some q \<longrightarrow> (\<forall>i. E (ie_queue (envs i))) \<longrightarrow>
     unat (pl_counter pl) + length (st_bytes s) < 2 ^ 63 - 1 \<longrightarrow>
      (\<exists>q' ls. job_queue (pl_manager pl') = Some q' \<and> sys_run E cd (q, pl_counter pl, h) ls (q', pl_counter pl', h)))"
  using assms
proof (induction "length (st_bytes s)" arbitrary: k s pl out q rule: less_induct)
  case less
  from less.prems show ?case
  proof (cases rule: handle_conn_round)
    case stops
    then show ?thesis by (auto intro!: exI[of _ "[]"] run_refl)
  next
    case last
    show ?thesis
      using answer_steps(1)[OF last(1), of x] answer_steps(2)[OF last(1), of q E cd h]
      by (intro conjI impI) (assumption, fastforce)
  next
    case 3: (goes_on body resp pl1 s2 frame)
    have small: "length (st_bytes s2) < length (st_bytes s)" using 3(2) by simp
    note IH = less.hyps[OF small 3(3)]
    have m: "mgr_step\<^sup>*\<^sup>* (pl_manager pl, x) (pl_manager pl', x)"
      using answer_steps(1)[OF 3(1), of x] IH by (meson rtranclp_trans)
    have "\<exists>q' ls. job_queue (pl_manager pl') = Some q' \<and> sys_run E cd (q, pl_counter pl, h) ls (q', pl_counter pl', h)"
      if q: "job_queue (pl_manager pl) = Some q" "\<forall>i. E (ie_queue (envs i))"
        "unat (pl_counter pl) + length (st_bytes s) < 2 ^ 63 - 1"
    proof -
      from answer_steps(2)[OF 3(1) q(1), of E cd h] q obtain q1 ls1 where
        1: "job_queue (pl_manager pl1) = Some q1" "sys_run E cd (q, pl_counter pl, h) ls1 (q1, pl_counter pl1, h)"
        "unat (pl_counter pl1) \<le> unat (pl_counter pl) + 1" by auto
      then have "unat (pl_counter pl1) + length (st_bytes s2) < 2 ^ 63 - 1" using 3(2) q(3) by linarith
      with IH 1(1) q(2) obtain q' ls where
        "job_queue (pl_manager pl') = Some q'" "sys_run E cd (q1, pl_counter pl1, h) ls (q', pl_counter pl', h)" by blast
      with 1(2) show ?thesis by (blast intro: sys_run_append)
    qed
    with m show ?thesis by blast
  qed
qed

text \<open>
  C5: no input on the control socket can break the supervisor. Whatever bytes a client sends, in frames
  or not, and whatever the codec makes of them, the manager ends in a state its own steps reach and the
  queue in a state its own steps reach; so every guarantee about reachable states holds afterwards. In
  particular a child about to be respawned has no live process, and every outstanding job stands in
  exactly one place.
\<close>

theorem control_plane_safe:
  assumes "reach mgr_init mgr_step (pl_manager pl, x)" and "job_queue (pl_manager pl) = Some q"
    and "sys_init s0" and "sys_run (\<lambda>_. True) cd s0 ls (q, pl_counter pl, h)"
    and "unat (pl_counter pl) + length (st_bytes s) < 2 ^ 63 - 1"
    and "handle_conn w envs k s pl out = (res, pl', out')"
  shows "reach mgr_init mgr_step (pl_manager pl', x) \<and> mgr_inv (pl_manager pl', x) \<and>
    (\<exists>q' ls'. job_queue (pl_manager pl') = Some q' \<and>
       sys_run (\<lambda>_. True) cd s0 (ls @ ls') (q', pl_counter pl', h) \<and> sys_inv (q', pl_counter pl', h))"
proof -
  note steps = handle_conn_steps[OF assms(6), of x q "\<lambda>_. True" cd h]
  have reach_star: "mgr_step\<^sup>*\<^sup>* a b \<Longrightarrow> reach mgr_init mgr_step a \<Longrightarrow> reach mgr_init mgr_step b" for a b
    by (induction rule: rtranclp_induct) (auto intro: reach_step)
  have r: "reach mgr_init mgr_step (pl_manager pl', x)" using steps assms(1) reach_star by blast
  obtain q' ls' where q': "job_queue (pl_manager pl') = Some q'"
    "sys_run (\<lambda>_. True) cd (q, pl_counter pl, h) ls' (q', pl_counter pl', h)"
    using steps assms(2,5) by blast
  have run: "sys_run (\<lambda>_. True) cd s0 (ls @ ls') (q', pl_counter pl', h)"
    using assms(4) q'(2) by (rule sys_run_append)
  then have "sys_inv (q', pl_counter pl', h)" using sys_inv_init[OF assms(3)] by (rule sys_run_inv)
  with r q' run lifecycle.reach_inv[OF r] show ?thesis by blast
qed

section \<open>Sessions\<close>

fun answers :: "wire \<Rightarrow> (nat \<Rightarrow> ipc_env) \<Rightarrow> nat \<Rightarrow> bytes list \<Rightarrow> plane \<Rightarrow> ControlResponse list \<times> plane" where
  "answers w envs k [] pl = ([], pl)"
| "answers w envs k (b # bs) pl =
     (case answer w (envs k) b pl of (r, pl1) \<Rightarrow>
        (case answers w envs (k + 1) bs pl1 of (rs, pl2) \<Rightarrow> (r # rs, pl2)))"

definition encoded :: "wire \<Rightarrow> ControlResponse \<Rightarrow> bytes" where
  "encoded w r = (case wi_to_vec w r of Inr b \<Rightarrow> b | Inl _ \<Rightarrow> [])"

lemma handle_conn_frames:
  assumes "\<forall>b \<in> set bodies. length b \<le> MAX_FRAME" and "\<forall>r. \<exists>b. wi_to_vec w r = Inr b" and "\<forall>f. wi_write w f = None"
    and "st_bytes s = concat (map framed bodies) @ rest"
  shows "handle_conn w envs k s pl out =
    handle_conn w envs (k + length bodies) (s\<lparr>st_bytes := rest\<rparr>) (snd (answers w envs k bodies pl))
      (out @ concat (map (framed \<circ> encoded w) (fst (answers w envs k bodies pl))))"
  using assms(1,4)
proof (induction bodies arbitrary: k s pl out)
  case Nil
  then have "s\<lparr>st_bytes := rest\<rparr> = s" by simp
  then show ?case by simp
next
  case (Cons b bodies)
  have b: "length b \<le> MAX_FRAME" "length b < 2 ^ 32" using Cons.prems by (simp_all add: MAX_FRAME_def)
  have st: "st_bytes s = framed b @ (concat (map framed bodies) @ rest)" using Cons.prems by simp
  note f = read_frame[OF st b(2)]
  obtain r pl1 where a: "answer w (envs k) b pl = (r, pl1)" by force
  obtain v where v: "wi_to_vec w r = Inr v" using assms(2) by blast
  have "handle_conn w envs k s pl out =
      handle_conn w envs (k + 1) (s\<lparr>st_bytes := concat (map framed bodies) @ rest\<rparr>) pl1 (out @ framed v)"
    using b(1) assms(3) by (subst handle_conn.simps) (simp add: f[simplified] a v write_response_def Let_def)
  also have "\<dots> = handle_conn w envs (k + 1 + length bodies) (s\<lparr>st_bytes := rest\<rparr>) (snd (answers w envs (k + 1) bodies pl1))
      ((out @ framed v) @ concat (map (framed \<circ> encoded w) (fst (answers w envs (k + 1) bodies pl1))))"
    using Cons.IH[of "s\<lparr>st_bytes := concat (map framed bodies) @ rest\<rparr>" "k + 1" pl1 "out @ framed v"] Cons.prems(1)
    by (simp add: comp_def)
  finally show ?case by (simp add: a v encoded_def split_beta comp_def)
qed

text \<open>
  C7: a session is answered in order. For any sequence of framed bodies of at most 16 MiB, malformed ones
  included, the server writes exactly one response frame per body, in the order of the bodies, each from
  the state its predecessors left; a malformed body is answered with an error and changes nothing. At
  the end of the stream the connection closes cleanly; a header announcing more than 16 MiB ends it with
  an error, with the answers before it already written and nothing else done.
\<close>

theorem session_in_order:
  assumes "\<forall>b \<in> set bodies. length b \<le> MAX_FRAME" and "\<forall>r. \<exists>b. wi_to_vec w r = Inr b" and "\<forall>f. wi_write w f = None"
    and "io_kind (st_end s) = UnexpectedEof" and "MAX_FRAME < unat n"
  shows "handle_conn w envs k (s\<lparr>st_bytes := concat (map framed bodies)\<rparr>) pl [] =
      (Inr (), snd (answers w envs k bodies pl), concat (map (framed \<circ> encoded w) (fst (answers w envs k bodies pl)))) \<and>
    handle_conn w envs k (s\<lparr>st_bytes := concat (map framed bodies) @ to_be_bytes n @ rest\<rparr>) pl [] =
      (Inl (Ipc (''frame too large: '' @ show_nat (unat n))), snd (answers w envs k bodies pl),
       concat (map (framed \<circ> encoded w) (fst (answers w envs k bodies pl)))) \<and>
    length (fst (answers w envs k bodies pl)) = length bodies"
proof (intro conjI)
  note frames = handle_conn_frames[OF assms(1-3), of _ _ envs k pl "[]"]
  show "handle_conn w envs k (s\<lparr>st_bytes := concat (map framed bodies)\<rparr>) pl [] =
      (Inr (), snd (answers w envs k bodies pl), concat (map (framed \<circ> encoded w) (fst (answers w envs k bodies pl))))"
    using assms(4) frames[of "s\<lparr>st_bytes := concat (map framed bodies)\<rparr>" "[]"]
    by (simp add: handle_conn.simps[of _ _ _ "s\<lparr>st_bytes := []\<rparr>"] read_exact_def)
  have "handle_conn w envs k' (s\<lparr>st_bytes := to_be_bytes n @ rest\<rparr>) pl1 out1 =
      (Inl (Ipc (''frame too large: '' @ show_nat (unat n))), pl1, out1)" for k' pl1 out1
    using assms(5) by (subst handle_conn.simps) (simp add: read_exact_def Let_def)
  then show "handle_conn w envs k (s\<lparr>st_bytes := concat (map framed bodies) @ to_be_bytes n @ rest\<rparr>) pl [] =
      (Inl (Ipc (''frame too large: '' @ show_nat (unat n))), snd (answers w envs k bodies pl),
       concat (map (framed \<circ> encoded w) (fst (answers w envs k bodies pl))))"
    using frames[of "s\<lparr>st_bytes := concat (map framed bodies) @ to_be_bytes n @ rest\<rparr>" "to_be_bytes n @ rest"] by simp
  show "length (fst (answers w envs k bodies pl)) = length bodies"
    by (induction bodies arbitrary: k pl) (simp_all add: split_beta)
qed

section \<open>A small client\<close>

text \<open>A wire format with two commands, and a supervisor with one child and an empty queue.\<close>

definition demo_wire :: wire where
  "demo_wire = \<lparr>wi_from_slice = (\<lambda>b. if b = [7] then Inr CmdPing else if b = [8] then Inr (CmdDispatchJob demo_job)
       else Inl ''expected value''),
     wi_to_vec = (\<lambda>r. Inr (case r of RspPong \<Rightarrow> [1] | _ \<Rightarrow> [2])), wi_write = (\<lambda>_. None)\<rparr>"

definition demo_files :: files where
  "demo_files = \<lparr>fs_canonicalize = Inr, fs_sha = (\<lambda>_. [0]), fs_home = ''/home/u'', fs_exists = (\<lambda>_. False),
     fs_open = (\<lambda>_. Inl ''no shard'')\<rparr>"

definition demo_ipc_env :: ipc_env where
  "demo_ipc_env = \<lparr>ie_queue = Manager_Lifecycle.demo_env, ie_clock = demo_clock, ie_kill = (\<lambda>_. None),
     ie_write = (\<lambda>_. None), ie_files = demo_files\<rparr>"

definition demo_plane :: plane where
  "demo_plane = \<lparr>pl_manager = demo_start 1, pl_counter = JOB_ID_COUNTER, pl_stop = False, pl_kills = []\<rparr>"

lemma demo_start_queue: "job_queue (demo_start 1) = Some (jq_new 4)"
  by (simp add: demo_start_def spawn_all_def attach_job_queue_def ChildManager_new_def Manager_Lifecycle.demo_config_def
      spawn_child_def demo_spec_def modify_handle_def Let_def)

theorem control_plane_safe_witness:
  "mgr_inv (pl_manager (fst (snd (handle_conn demo_wire (\<lambda>_. demo_ipc_env) 0
      \<lparr>st_bytes = framed [8] @ framed [0, 255] @ [3, 1, 4], st_end = IoError UnexpectedEof []\<rparr> demo_plane []))), None)"
proof -
  let ?s = "\<lparr>st_bytes = framed [8] @ framed [0, 255] @ [3, 1, 4], st_end = IoError UnexpectedEof []\<rparr>"
  have init: "mgr_init (demo_start 1, None)" unfolding mgr_init_def demo_start_def by blast
  have r: "reach mgr_init mgr_step (pl_manager demo_plane, None)"
    using reach_init[of mgr_init, OF init] by (simp add: demo_plane_def)
  have q: "job_queue (pl_manager demo_plane) = Some (jq_new 4)" by (simp add: demo_plane_def demo_start_queue)
  have i: "sys_init (jq_new 4, JOB_ID_COUNTER, None)"
    unfolding sys_init_def by (intro exI[of _ 4] exI[of _ None]) (simp add: jq_new_def)
  have run: "sys_run (\<lambda>_. True) demo_codec (jq_new 4, JOB_ID_COUNTER, None) [] (jq_new 4, pl_counter demo_plane, None)"
    by (simp add: demo_plane_def run_refl)
  have "unat (pl_counter demo_plane) + length (st_bytes ?s) < 2 ^ 63 - 1"
    by (simp add: demo_plane_def JOB_ID_COUNTER_def framed_def)
  from control_plane_safe[OF r q i run this, of demo_wire "\<lambda>_. demo_ipc_env" 0 "[]"]
  show ?thesis by (metis prod.collapse)
qed

theorem session_in_order_witness:
  "handle_conn demo_wire (\<lambda>_. demo_ipc_env) 0 \<lparr>st_bytes = framed [7] @ framed [9], st_end = IoError UnexpectedEof []\<rparr> demo_plane [] =
     (Inr (), demo_plane, framed [1] @ framed [2])"
proof -
  have "\<forall>b \<in> set [[7], [9 :: 8 word]]. length b \<le> MAX_FRAME" by (simp add: MAX_FRAME_def)
  moreover have "\<forall>r. \<exists>b. wi_to_vec demo_wire r = Inr b" "\<forall>f. wi_write demo_wire f = None" by (simp_all add: demo_wire_def)
  moreover have "MAX_FRAME < unat (0x2000000 :: u32)" by (simp add: MAX_FRAME_def)
  moreover have "answers demo_wire (\<lambda>_. demo_ipc_env) 0 [[7], [9]] demo_plane =
      ([RspPong, RspError (''malformed command: '' @ ''expected value'')], demo_plane)"
    by (simp add: answer_def demo_wire_def ipc_dispatch_def)
  ultimately show ?thesis
    using session_in_order[of "[[7], [9]]" demo_wire "\<lparr>st_bytes = [], st_end = IoError UnexpectedEof []\<rparr>" "0x2000000"
        "\<lambda>_. demo_ipc_env" 0 demo_plane "[]"]
    by (simp add: encoded_def demo_wire_def)
qed

end
