(* ===== verification/Ipc_Client.thy ===== *)
theory Ipc_Client
  imports Control_Plane_Properties Cli_Error
begin

text \<open>
  The clients of the control socket: the command line (\<open>cli/src/ipc.rs\<close>) and the workers
  (\<open>common/src/worker_ipc.rs\<close>). What happens to one connection attempt is an argument: whether it times
  out, what connecting, writing and flushing answer, and the stream that comes back.
\<close>

section \<open>Messages\<close>

datatype IpcRequest =
    ReqPing
  | ReqStatus "path option"
  | ReqBuild path bool
  | ReqUpdate path
  | ReqGraphify path
  | ReqRecall path string usize "string option"
  | ReqBlast path string usize
  | ReqGodNodes path usize
  | ReqDrift "string option"
  | ReqHistory string "string option"
  | ReqSnapshot "path option"
  | ReqDoctor
  | ReqRebuild path
  | ReqAudit string
  | ReqStep string "string option"
  | ReqSessionPrime path string
  | ReqInject string string path
  | ReqPreTool string string string
  | ReqPostTool string path string
  | ReqTurnEnd string
  | ReqSessionEnd string
  | ReqDaemon string
  | ReqStop
  | ReqLogs "string option" usize
  | ReqRestart string
  | ReqRestartAll
  | ReqHeartbeat string
  | ReqRaw string json
  | ReqDispatchJob Job
  | ReqJobQueueStatus

datatype IpcResponse =
    IrPong
  | IrStatus "json list"
  | IrLogs "json list"
  | IrOk "string option"
  | IrJobQueued JobId
  | IrJobQueue json
  | IrRecallResults "RecallHit list"
  | IrBlastResults "BlastItem list"
  | IrGodNodesResults "GodNode list"
  | IrError string

section \<open>The command line\<close>

definition DEFAULT_IPC_TIMEOUT :: duration where
  "DEFAULT_IPC_TIMEOUT = from_secs 120"

record IpcClient =
  socket_path :: path
  ipc_timeout :: duration

definition IpcClient_new :: "path \<Rightarrow> IpcClient" where
  "IpcClient_new p = \<lparr>socket_path = p, ipc_timeout = DEFAULT_IPC_TIMEOUT\<rparr>"

text \<open>\<open>runtime_dir\<close> and \<open>IpcClient::default_path\<close>, with the contents of the discovery file if it can be read.\<close>

definition runtime_dir :: "string option \<Rightarrow> path option \<Rightarrow> path \<Rightarrow> path" where
  "runtime_dir custom home temp =
     (case custom of
        Some c \<Rightarrow> c
      | None \<Rightarrow> (case home of Some h \<Rightarrow> path_join (path_join h ''.mneme'') ''run'' | None \<Rightarrow> path_join temp ''mneme-run''))"

definition client_default_path ::
  "string option \<Rightarrow> path option \<Rightarrow> path \<Rightarrow> (path \<Rightarrow> string option) \<Rightarrow> IpcClient" where
  "client_default_path custom home temp read =
     (let fallback = IpcClient_new (path_join (runtime_dir custom home temp) ''mneme-supervisor.sock'') in
      case home of
        None \<Rightarrow> fallback
      | Some h \<Rightarrow>
          (case read (path_join (path_join h ''.mneme'') ''supervisor.pipe'') of
             Some content \<Rightarrow>
               (let p = trim content in if p \<noteq> [] then IpcClient_new p else fallback)
           | None \<Rightarrow> fallback))"

definition make_client :: "path option \<Rightarrow> IpcClient \<Rightarrow> IpcClient" where
  "make_client socket_override dflt = (case socket_override of Some p \<Rightarrow> IpcClient_new p | None \<Rightarrow> dflt)"

text \<open>
  One attempt: whether the timeout fires first, the errors of naming the socket, connecting, writing and
  flushing, and the stream that answers a payload.
\<close>

record attempt =
  at_timeout :: bool
  at_name :: "string option"
  at_connect :: "string option"
  at_write :: "string option"
  at_flush :: "string option"
  at_reply :: "bytes \<Rightarrow> stream"

definition connect_stream :: "path \<Rightarrow> attempt \<Rightarrow> unit cli_result" where
  "connect_stream path a =
     (case at_name a of
        Some e \<Rightarrow> Inl (CliIpc (''invalid socket path '' @ path @ '': '' @ e))
      | None \<Rightarrow>
     (case at_connect a of
        Some e \<Rightarrow> Inl (CliIpc (''could not connect to supervisor at '' @ path @ '': '' @ e))
      | None \<Rightarrow> Inr ()))"

definition MAX_RESPONSE :: nat where
  "MAX_RESPONSE = 64 * 1024 * 1024"

definition round_trip :: "(bytes \<Rightarrow> string + IpcResponse) \<Rightarrow> path \<Rightarrow> bytes \<Rightarrow> attempt \<Rightarrow> IpcResponse cli_result" where
  "round_trip dec path payload a =
     (case connect_stream path a of
        Inl e \<Rightarrow> Inl e
      | Inr _ \<Rightarrow>
     (case at_write a of
        Some e \<Rightarrow> Inl (CliIpc (''write failed: '' @ e))
      | None \<Rightarrow>
     (case at_flush a of
        Some e \<Rightarrow> Inl (CliIpc (''flush failed: '' @ e))
      | None \<Rightarrow>
     (case read_exact 4 (at_reply a payload) of
        (Inl e, _) \<Rightarrow> Inl (CliIpc (''short read of length prefix: '' @ io_text e))
      | (Inr len_buf, s1) \<Rightarrow>
          (let len = unat (from_be_bytes len_buf) in
           if len > MAX_RESPONSE
           then Inl (CliIpc (''response too large: '' @ show_nat len @ '' bytes (limit '' @ show_nat MAX_RESPONSE @ '')''))
           else case read_exact len s1 of
             (Inl e, _) \<Rightarrow> Inl (CliIpc (''short read of body: '' @ io_text e))
           | (Inr body, _) \<Rightarrow>
               (case dec body of Inl e \<Rightarrow> Inl (CliJson e) | Inr r \<Rightarrow> Inr r))))))"

text \<open>The texts that say that nobody listens.\<close>

definition looks_like_dead_daemon :: "CliError \<Rightarrow> bool" where
  "looks_like_dead_daemon e =
     (let msg = cli_error_text (\<lambda>_. []) e in
      str_contains msg ''could not connect'' \<or> str_contains msg ''No such file'' \<or> str_contains msg ''cannot find'')"

text \<open>
  \<open>wait_for_supervisor\<close>: the elapsed time each round reads and whether its probe connects; the result is
  the number of probes.
\<close>

fun wait_for_supervisor :: "duration \<Rightarrow> (duration \<times> bool) list \<Rightarrow> nat" where
  "wait_for_supervisor deadline [] = 0"
| "wait_for_supervisor deadline ((t, up) # rounds) =
     (if t < deadline then (if up then 1 else 1 + wait_for_supervisor deadline rounds) else 0)"

text \<open>
  \<open>request\<close>. The codec, the debug form of the timeout, what happens to the two attempts, to the spawn of
  a daemon and to the probes are arguments; the result carries the trace of what was done.
\<close>

datatype client_action = RoundTrip | SpawnDaemon | Probe

record client_env =
  ce_to_vec :: "IpcRequest \<Rightarrow> string + bytes"
  ce_from_slice :: "bytes \<Rightarrow> string + IpcResponse"
  ce_debug :: "duration \<Rightarrow> string"
  ce_first :: attempt
  ce_spawn :: "string option"
  ce_rounds :: "(duration \<times> bool) list"
  ce_second :: attempt

definition timeout_text :: "client_env \<Rightarrow> IpcClient \<Rightarrow> string" where
  "timeout_text env c = ''timeout after '' @ ce_debug env (ipc_timeout c) @ '' talking to supervisor at '' @ socket_path c"

definition request ::
  "client_env \<Rightarrow> IpcClient \<Rightarrow> IpcRequest \<Rightarrow> IpcResponse cli_result \<times> client_action list" where
  "request env c req =
     (case ce_to_vec env req of
        Inl e \<Rightarrow> (Inl (CliJson e), [])
      | Inr body \<Rightarrow>
          let payload = framed body in
          if at_timeout (ce_first env) then (Inl (CliIpc (timeout_text env c)), [RoundTrip])
          else case round_trip (ce_from_slice env) (socket_path c) payload (ce_first env) of
            Inr resp \<Rightarrow> (Inr resp, [RoundTrip])
          | Inl e \<Rightarrow>
              if \<not> looks_like_dead_daemon e then (Inl e, [RoundTrip])
              else if req = ReqStop \<or> req = ReqPing then (Inl e, [RoundTrip])
              else case ce_spawn env of
                Some _ \<Rightarrow> (Inl e, [RoundTrip, SpawnDaemon])
              | None \<Rightarrow>
                  (if at_timeout (ce_second env) then Inl (CliIpc (timeout_text env c @ '' (after auto-start)''))
                   else round_trip (ce_from_slice env) (socket_path c) payload (ce_second env),
                   [RoundTrip, SpawnDaemon] @
                     replicate (wait_for_supervisor (from_secs 3) (ce_rounds env)) Probe @ [RoundTrip]))"

definition is_running :: "client_env \<Rightarrow> IpcClient \<Rightarrow> bool" where
  "is_running env c = (fst (request env c ReqPing) = Inr IrPong)"

section \<open>Workers\<close>

datatype ReportError = ReportNotFound | ReportIo string | ReportTimeout | ReportEncode string

definition discover_socket_path ::
  "string option \<Rightarrow> path option \<Rightarrow> (path \<Rightarrow> string option) \<Rightarrow> path option" where
  "discover_socket_path override home read =
     (let via_home =
        (case home of
           None \<Rightarrow> None
         | Some h \<Rightarrow>
             (let fallback = Some (path_join (path_join (path_join h ''.mneme'') ''run'') ''mneme-supervisor.sock'') in
              case read (path_join (path_join h ''.mneme'') ''supervisor.pipe'') of
                Some content \<Rightarrow> (let t = trim content in if t \<noteq> [] then Some t else fallback)
              | None \<Rightarrow> fallback))
      in case override of Some p \<Rightarrow> if p \<noteq> [] then Some p else via_home | None \<Rightarrow> via_home)"

text \<open>The bytes a report puts on the socket, and its result.\<close>

definition report_bytes :: "(JobId \<times> JobOutcome \<Rightarrow> string + bytes) \<Rightarrow> JobId \<Rightarrow> JobOutcome \<Rightarrow> ReportError + bytes" where
  "report_bytes enc jid outcome =
     (case enc (jid, outcome) of Inl e \<Rightarrow> Inl (ReportEncode e) | Inr body \<Rightarrow> Inr (framed body))"

definition report_complete_to ::
  "(JobId \<times> JobOutcome \<Rightarrow> string + bytes) \<Rightarrow> JobId \<Rightarrow> JobOutcome \<Rightarrow> path \<Rightarrow> attempt \<Rightarrow> ReportError + unit" where
  "report_complete_to enc jid outcome path a =
     (case report_bytes enc jid outcome of
        Inl e \<Rightarrow> Inl e
      | Inr _ \<Rightarrow>
          if at_timeout a then Inl ReportTimeout
          else case at_name a of
            Some e \<Rightarrow> Inl (ReportIo (''invalid path '' @ path @ '': '' @ e))
          | None \<Rightarrow>
          (case at_connect a of
             Some e \<Rightarrow> Inl (ReportIo (''connect '' @ path @ '': '' @ e))
           | None \<Rightarrow>
          (case at_write a of
             Some e \<Rightarrow> Inl (ReportIo (''write: '' @ e))
           | None \<Rightarrow>
          (case at_flush a of
             Some e \<Rightarrow> Inl (ReportIo (''flush: '' @ e))
           | None \<Rightarrow> Inr ()))))"

definition report_complete ::
  "(JobId \<times> JobOutcome \<Rightarrow> string + bytes) \<Rightarrow> path option \<Rightarrow> JobId \<Rightarrow> JobOutcome \<Rightarrow> attempt \<Rightarrow> ReportError + unit" where
  "report_complete enc discovered jid outcome a =
     (case discovered of None \<Rightarrow> Inl ReportNotFound | Some p \<Rightarrow> report_complete_to enc jid outcome p a)"

section \<open>When a daemon is started\<close>

lemma refused_looks_dead:
  assumes "at_name a = None" and "at_connect a = Some e"
  shows "\<exists>e'. round_trip dec path payload a = Inl e' \<and> looks_like_dead_daemon e'"
proof -
  have "str_contains (''ipc error: could not connect to supervisor at '' @ path @ '': '' @ e) ''could not connect''"
    unfolding str_contains_iff
    by (intro exI[of _ "''ipc error: ''"] exI[of _ "'' to supervisor at '' @ path @ '': '' @ e"]) simp
  then show ?thesis using assms by (simp add: round_trip_def connect_stream_def looks_like_dead_daemon_def)
qed

text \<open>
  The client starts a daemon at most once per request and makes at most two round trips. It starts one
  exactly when its first attempt failed within the timeout with a text saying that nobody listens and
  the request is neither \<open>Stop\<close> nor \<open>Ping\<close>; a refused connection is such a failure. A timeout never starts
  a daemon, a first attempt that is answered is final, and \<open>is_running\<close> never starts one.
\<close>

theorem request_spawns_at_most_once:
  "count_list (snd (request env c req)) RoundTrip \<le> 2 \<and> count_list (snd (request env c req)) SpawnDaemon \<le> 1 \<and>
   (SpawnDaemon \<in> set (snd (request env c req)) \<longleftrightarrow>
      (\<exists>body e. ce_to_vec env req = Inr body \<and> \<not> at_timeout (ce_first env) \<and> req \<notin> {ReqStop, ReqPing} \<and>
         round_trip (ce_from_slice env) (socket_path c) (framed body) (ce_first env) = Inl e \<and> looks_like_dead_daemon e)) \<and>
   (ce_to_vec env req = Inr body \<longrightarrow> \<not> at_timeout (ce_first env) \<longrightarrow> at_name (ce_first env) = None \<longrightarrow>
      at_connect (ce_first env) = Some e \<longrightarrow> req \<notin> {ReqStop, ReqPing} \<longrightarrow> SpawnDaemon \<in> set (snd (request env c req))) \<and>
   SpawnDaemon \<notin> set (snd (request env c ReqPing))"
proof -
  have spawn: "SpawnDaemon \<in> set (snd (request env c req)) \<longleftrightarrow>
      (\<exists>body e. ce_to_vec env req = Inr body \<and> \<not> at_timeout (ce_first env) \<and> req \<notin> {ReqStop, ReqPing} \<and>
         round_trip (ce_from_slice env) (socket_path c) (framed body) (ce_first env) = Inl e \<and> looks_like_dead_daemon e)" for req
    by (auto simp: request_def Let_def split: sum.splits option.splits)
  have "count_list (replicate n Probe) RoundTrip = 0" "count_list (replicate n Probe) SpawnDaemon = 0" for n
    by (induction n) simp_all
  then have counts: "count_list (snd (request env c req)) RoundTrip \<le> 2" "count_list (snd (request env c req)) SpawnDaemon \<le> 1"
    by (simp_all add: request_def Let_def split: sum.split option.split)
  show ?thesis
    unfolding spawn using counts refused_looks_dead[of "ce_first env" e "ce_from_slice env" "socket_path c" "framed body"]
    by (intro conjI impI) auto
qed

section \<open>End to end\<close>

text \<open>The bytes the server writes on a connection that carries a payload and then ends.\<close>

definition serve :: "wire \<Rightarrow> (nat \<Rightarrow> ipc_env) \<Rightarrow> plane \<Rightarrow> bytes \<Rightarrow> unit sup_result \<times> plane \<times> bytes" where
  "serve w envs pl payload = handle_conn w envs 0 \<lparr>st_bytes = payload, st_end = IoError UnexpectedEof []\<rparr> pl []"

definition linked :: "wire \<Rightarrow> (nat \<Rightarrow> ipc_env) \<Rightarrow> plane \<Rightarrow> attempt \<Rightarrow> bool" where
  "linked w envs pl a \<longleftrightarrow> \<not> at_timeout a \<and> at_name a = None \<and> at_connect a = None \<and> at_write a = None \<and>
     at_flush a = None \<and> (\<forall>payload. st_bytes (at_reply a payload) = snd (snd (serve w envs pl payload)))"

lemma serve_frame:
  assumes "length body \<le> MAX_FRAME" and "\<forall>r. \<exists>b. wi_to_vec w r = Inr b" and "\<forall>f. wi_write w f = None"
    and "answer w (envs 0) body pl = (r, pl')"
  shows "serve w envs pl (framed body) = (Inr (), pl', framed (encoded w r))"
  using handle_conn_frames[of "[body]" w "\<lparr>st_bytes = framed body, st_end = IoError UnexpectedEof []\<rparr>" "[]" envs 0 pl "[]"] assms
  by (simp add: serve_def handle_conn.simps[of _ _ "Suc 0"] read_exact_def)

lemma round_trip_frame:
  assumes "at_name a = None" "at_connect a = None" "at_write a = None" "at_flush a = None"
    and "st_bytes (at_reply a payload) = framed b" and "length b \<le> MAX_RESPONSE"
  shows "round_trip dec path payload a = (case dec b of Inl e \<Rightarrow> Inl (CliJson e) | Inr r \<Rightarrow> Inr r)"
proof -
  have len: "length b < 2 ^ 32" using assms(6) by (simp add: MAX_RESPONSE_def)
  have "st_bytes (at_reply a payload) = framed b @ []" using assms(5) by simp
  note f = read_frame[OF this len]
  show ?thesis using assms f by (simp add: round_trip_def connect_stream_def Let_def)
qed

text \<open>
  C8: the protocol works end to end. When the client's connection is answered by the supervisor's
  connection loop, a request of at most 16 MiB whose response takes at most 64 MiB returns exactly what
  the supervisor's answer decodes to, after one round trip and without starting a daemon; and the
  supervisor has answered that one command and nothing else. A body the supervisor cannot decode comes
  back as the supervisor's error and leaves its state as it was.
\<close>

theorem request_end_to_end:
  assumes "linked w envs pl (ce_first env)" and "\<forall>r. \<exists>b. wi_to_vec w r = Inr b" and "\<forall>f. wi_write w f = None"
    and "ce_to_vec env req = Inr body" and "length body \<le> MAX_FRAME"
    and "answer w (envs 0) body pl = (r, pl')" and "length (encoded w r) \<le> MAX_RESPONSE"
    and "ce_from_slice env (encoded w r) = Inr resp"
  shows "request env c req = (Inr resp, [RoundTrip]) \<and> fst (serve w envs pl (framed body)) = Inr () \<and>
    fst (snd (serve w envs pl (framed body))) = pl' \<and>
    (wi_from_slice w body = Inr cmd \<longrightarrow> (r, pl') = ipc_dispatch (envs 0) cmd pl) \<and>
    (wi_from_slice w body = Inl e \<longrightarrow> r = RspError (''malformed command: '' @ e) \<and> pl' = pl)"
proof -
  note s = serve_frame[where envs = envs, OF assms(5,2,3,6)]
  have "round_trip (ce_from_slice env) (socket_path c) (framed body) (ce_first env) = Inr resp"
    using assms(1,7,8) s by (subst round_trip_frame[of _ _ "encoded w r"]) (simp_all add: linked_def)
  then show ?thesis using assms(1,4,6) s by (auto simp: request_def linked_def answer_def Let_def)
qed

text \<open>
  C9: A delivered completion report retires its job. When a worker's report of a job reaches the supervisor whole and
  is decoded as what was encoded, the job is no longer outstanding afterwards and every other job is as outstanding as
  before, whatever becomes of the reply: it may be encoded or not, written or not, and the connection may end in any
  way after the report.
\<close>

theorem report_retires_job:
  assumes "report_bytes enc jid outcome = Inr payload" and "enc (jid, outcome) = Inr body" and "length body \<le> MAX_FRAME"
    and "wi_from_slice w body = Inr (CmdWorkerCompleteJob jid outcome)"
    and "job_queue (pl_manager pl) = Some q"
  shows "\<exists>pl' q'. handle_conn w envs 0 \<lparr>st_bytes = payload, st_end = e\<rparr> pl [] =
      (case write_response w (RspOk None) of
         Inl x \<Rightarrow> (Inl x, pl', [])
       | Inr frame \<Rightarrow> (if io_kind e = UnexpectedEof then Inr () else Inl (Io e), pl', frame)) \<and>
    job_queue (pl_manager pl') = Some q' \<and> outstanding q' = (outstanding q)(jid := None)"
proof -
  obtain wk q' where q': "jq_complete (ie_queue (envs 0)) jid outcome q = (wk, q')" by force
  then have out: "outstanding q' = (outstanding q)(jid := None)"
    using outstanding_complete[of "ie_queue (envs 0)" jid outcome q] by simp
  obtain r pl' where a: "answer w (envs 0) body pl = (r, pl')" by force
  have r: "r = RspOk None" "job_queue (pl_manager pl') = Some q'"
    using a assms(4,5) q' by (auto simp: answer_def ipc_dispatch_def Let_def split: option.splits)
  have len: "length body < 2 ^ 32" using assms(3) by (simp add: MAX_FRAME_def)
  have "st_bytes \<lparr>st_bytes = payload, st_end = e\<rparr> = framed body @ []" using assms(1,2) by (simp add: report_bytes_def)
  note f = read_frame[OF this len]
  have "handle_conn w envs 0 \<lparr>st_bytes = payload, st_end = e\<rparr> pl [] =
      (case write_response w (RspOk None) of
         Inl x \<Rightarrow> (Inl x, pl', [])
       | Inr frame \<Rightarrow> (if io_kind e = UnexpectedEof then Inr () else Inl (Io e), pl', frame))"
    using assms(3) f a r(1)
    by (subst handle_conn.simps)
      (auto simp: Let_def handle_conn.simps[of _ _ "Suc 0"] read_exact_def split: sum.split)
  with r(2) out show ?thesis by blast
qed

section \<open>A client, a worker and a supervisor\<close>

text \<open>
  The first attempt reaches the supervisor of \<open>demo_plane\<close>, or is refused.
\<close>

definition demo_link :: attempt where
  "demo_link = \<lparr>at_timeout = False, at_name = None, at_connect = None, at_write = None, at_flush = None,
     at_reply = (\<lambda>payload. \<lparr>st_bytes = snd (snd (serve demo_wire (\<lambda>_. demo_ipc_env) demo_plane payload)),
       st_end = IoError UnexpectedEof []\<rparr>)\<rparr>"

definition demo_client :: "attempt \<Rightarrow> client_env" where
  "demo_client a = \<lparr>ce_to_vec = (\<lambda>req. Inr (if req = ReqPing then [7] else [9])),
     ce_from_slice = (\<lambda>b. Inr (if b = [1] then IrPong else IrError ''no'')), ce_debug = show_nat,
     ce_first = a, ce_spawn = None, ce_rounds = [(0, False), (1, True)], ce_second = demo_link\<rparr>"

theorem request_spawns_at_most_once_witness:
  "SpawnDaemon \<in> set (snd (request (demo_client (demo_link\<lparr>at_connect := Some ''refused''\<rparr>)) (IpcClient_new ''/run/s'') ReqDoctor)) \<and>
   SpawnDaemon \<notin> set (snd (request (demo_client (demo_link\<lparr>at_connect := Some ''refused''\<rparr>)) (IpcClient_new ''/run/s'') ReqPing))"
proof -
  let ?env = "demo_client (demo_link\<lparr>at_connect := Some ''refused''\<rparr>)"
  have "ce_to_vec ?env ReqDoctor = Inr [9]" "\<not> at_timeout (ce_first ?env)" "at_name (ce_first ?env) = None"
    "at_connect (ce_first ?env) = Some ''refused''" by (simp_all add: demo_client_def demo_link_def)
  then show ?thesis
    using request_spawns_at_most_once[of ?env "IpcClient_new ''/run/s''" ReqDoctor "[9]" "''refused''"] by auto
qed

lemma demo_linked: "linked demo_wire (\<lambda>_. demo_ipc_env) demo_plane demo_link"
  by (simp add: linked_def demo_link_def)

lemma demo_wire_total: "\<forall>r. \<exists>b. wi_to_vec demo_wire r = Inr b" "\<forall>f. wi_write demo_wire f = None"
  by (simp_all add: demo_wire_def)

theorem request_end_to_end_witness:
  "request (demo_client demo_link) (IpcClient_new ''/run/s'') ReqPing = (Inr IrPong, [RoundTrip]) \<and>
   fst (snd (serve demo_wire (\<lambda>_. demo_ipc_env) demo_plane (framed [7]))) = demo_plane"
proof -
  have "answer demo_wire demo_ipc_env [7] demo_plane = (RspPong, demo_plane)"
    by (simp add: answer_def demo_wire_def ipc_dispatch_def)
  then show ?thesis
    using request_end_to_end[of demo_wire "\<lambda>_. demo_ipc_env" demo_plane "demo_client demo_link" ReqPing "[7]" RspPong demo_plane
        IrPong "IpcClient_new ''/run/s''" CmdPing] demo_linked demo_wire_total
    by (simp add: demo_client_def encoded_def demo_wire_def MAX_FRAME_def MAX_RESPONSE_def)
qed

text \<open>A worker reports job 1 to a supervisor whose queue holds it, and is gone before the reply.\<close>

definition demo_report_wire :: wire where
  "demo_report_wire = demo_wire\<lparr>wi_from_slice := (\<lambda>b. if b = [5] then Inr (CmdWorkerCompleteJob 1 (OutcomeErr ''x'' 3 JNull)) else Inl ''bad''),
     wi_write := (\<lambda>_. Some (IoError OtherKind ''gone''))\<rparr>"

definition demo_held :: JobQueue where
  "demo_held = snd (snd (jq_submit Manager_Lifecycle.demo_env demo_job None 1 (jq_new 4)))"

theorem report_retires_job_witness:
  "outstanding demo_held = [1 \<mapsto> demo_job] \<and>
   (\<exists>pl' q'. handle_conn demo_report_wire (\<lambda>_. demo_ipc_env) 0 \<lparr>st_bytes = framed [5], st_end = IoError UnexpectedEof []\<rparr>
        (demo_plane\<lparr>pl_manager := (demo_start 1)\<lparr>job_queue := Some demo_held\<rparr>\<rparr>) [] =
      (Inl (Io (IoError OtherKind ''gone'')), pl', []) \<and>
    job_queue (pl_manager pl') = Some q' \<and> outstanding q' = Map.empty)"
proof -
  have held: "outstanding demo_held = [1 \<mapsto> demo_job]"
    unfolding demo_held_def by (subst outstanding_submit_ok) (simp_all add: jq_new_def outstanding_def fun_eq_iff)
  have "length [5 :: 8 word] \<le> MAX_FRAME" by (simp add: MAX_FRAME_def)
  then show ?thesis
    using report_retires_job[of "\<lambda>_. Inr [5]" 1 "OutcomeErr ''x'' 3 JNull" "framed [5]" "[5]" demo_report_wire
        "demo_plane\<lparr>pl_manager := (demo_start 1)\<lparr>job_queue := Some demo_held\<rparr>\<rparr>" demo_held "\<lambda>_. demo_ipc_env"
        "IoError UnexpectedEof []"] held
    by (simp add: report_bytes_def demo_report_wire_def demo_wire_def write_response_def)
qed

end
