(* ===== verification/Store_Write.thy ===== *)
theory Store_Write
  imports Common_Types Jobs "HOL-Library.Multiset"
begin

text \<open>
  The read and write paths of the store: the single-writer query layer (\<open>store/src/query.rs\<close>) and the
  injection layer with its audit trail and idempotency keys (\<open>store/src/inject.rs\<close>). SQLite is an
  argument: what executing or querying a statement does to the content of one shard, which is an abstract
  type; a statement that fails leaves its shard as it was. So are the clock, the identifiers of queries,
  and which of two errors a caller sees whose writer task has gone.
\<close>

section \<open>Model\<close>

record Query =
  q_project :: ProjectId
  q_layer :: DbLayer
  q_sql :: string
  q_params :: "json list"

record Write =
  w_project :: ProjectId
  w_layer :: DbLayer
  w_sql :: string
  w_params :: "json list"

record WriteSummary =
  rows_affected :: nat
  last_insert_rowid :: "i64 option"

record BatchSummary =
  total_rows_affected :: nat

type_synonym ShardKey = "ProjectId \<times> DbLayer"

type_synonym item = "string \<times> json list"

record 'db engine =
  en_open :: "path \<Rightarrow> bool"
  en_exec :: "string \<Rightarrow> json list \<Rightarrow> 'db \<Rightarrow> DbError + (nat \<times> i64 \<times> 'db)"
  en_rows :: "string \<Rightarrow> json list \<Rightarrow> 'db \<Rightarrow> DbError + json list"
  en_begin :: "'db \<Rightarrow> DbError option"
  en_commit :: "'db \<Rightarrow> DbError option"

text \<open>
  The writers map says whether the writer task of a shard is alive: the task ends at once when it cannot
  open its shard, and its channel stays in the map.
\<close>

record 'db store =
  st_paths :: PathManager
  st_writers :: "(ShardKey, bool) hmap"
  st_db :: "ShardKey \<Rightarrow> 'db"

text \<open>
  What one call meets: the metadata of its response, the error of a send to a closed channel (none when
  the send went through and the reply was dropped), the error of the read pool or of the blocking task,
  and the order in which the map of a batch iterates.
\<close>

record wenv =
  we_meta :: "DbLayer \<Rightarrow> ResponseMeta"
  we_closed :: "string option"
  we_pool :: "DbError option"
  we_join :: "string option"
  we_order :: "(DbLayer \<times> item list) list \<Rightarrow> (DbLayer \<times> item list) list"

subsection \<open>Queries and writes\<close>

definition writer :: "'db engine \<Rightarrow> ProjectId \<Rightarrow> DbLayer \<Rightarrow> 'db store \<Rightarrow> bool \<times> 'db store" where
  "writer E p l s =
     (case hm_get (st_writers s) (p, l) of
        Some alive \<Rightarrow> (alive, s)
      | None \<Rightarrow>
          (let alive = en_open E (shard_db (st_paths s) p l)
           in (alive, s\<lparr>st_writers := hm_insert (p, l) alive (st_writers s)\<rparr>)))"

definition gone_error :: "wenv \<Rightarrow> DbError" where
  "gone_error env =
     (case we_closed env of
        Some e \<Rightarrow> Sqlite (''writer channel closed: '' @ e)
      | None \<Rightarrow> Sqlite ''writer dropped reply'')"

definition query_rows :: "'db engine \<Rightarrow> wenv \<Rightarrow> Query \<Rightarrow> 'db store \<Rightarrow> json list Response" where
  "query_rows E env q s =
     (let meta = we_meta env (q_layer q) in
      case we_pool env of
        Some e \<Rightarrow> Response_err e meta
      | None \<Rightarrow>
     (case we_join env of
        Some e \<Rightarrow> Response_err (Sqlite (''join: '' @ e)) meta
      | None \<Rightarrow>
     (case en_rows E (q_sql q) (q_params q) (st_db s (q_project q, q_layer q)) of
        Inl e \<Rightarrow> Response_err e meta
      | Inr rows \<Rightarrow> Response_ok rows meta)))"

definition db_write :: "'db engine \<Rightarrow> wenv \<Rightarrow> Write \<Rightarrow> 'db store \<Rightarrow> WriteSummary Response \<times> 'db store" where
  "db_write E env w s =
     (let key = (w_project w, w_layer w); meta = we_meta env (w_layer w) in
      case writer E (w_project w) (w_layer w) s of
        (False, s1) \<Rightarrow> (Response_err (gone_error env) meta, s1)
      | (True, s1) \<Rightarrow>
          (case en_exec E (w_sql w) (w_params w) (st_db s1 key) of
             Inl e \<Rightarrow> (Response_err e meta, s1)
           | Inr (n, rowid, db') \<Rightarrow>
               (Response_ok \<lparr>rows_affected = n, last_insert_rowid = Some rowid\<rparr> meta,
                s1\<lparr>st_db := (st_db s1)(key := db')\<rparr>)))"

fun exec_items :: "'db engine \<Rightarrow> item list \<Rightarrow> nat \<Rightarrow> 'db \<Rightarrow> DbError + (nat \<times> 'db)" where
  "exec_items E [] n db = Inr (n, db)"
| "exec_items E ((sql, ps) # items) n db =
     (case en_exec E sql ps db of
        Inl e \<Rightarrow> Inl e
      | Inr (k, _, db') \<Rightarrow> exec_items E items (n + k) db')"

text \<open>One \<open>WriteCmd::Batch\<close>: a transaction, rolled back where it is dropped uncommitted.\<close>

definition run_batch :: "'db engine \<Rightarrow> item list \<Rightarrow> 'db \<Rightarrow> DbError + (nat \<times> 'db)" where
  "run_batch E items db =
     (case en_begin E db of
        Some e \<Rightarrow> Inl e
      | None \<Rightarrow>
          (case exec_items E items 0 db of
             Inl e \<Rightarrow> Inl e
           | Inr (n, db') \<Rightarrow> (case en_commit E db' of Some e \<Rightarrow> Inl e | None \<Rightarrow> Inr (n, db'))))"

definition push_item :: "Write \<Rightarrow> (DbLayer, item list) hmap \<Rightarrow> (DbLayer, item list) hmap" where
  "push_item w m =
     hm_insert (w_layer w)
       ((case hm_get m (w_layer w) of Some is \<Rightarrow> is | None \<Rightarrow> []) @ [(w_sql w, w_params w)]) m"

definition by_layer :: "Write list \<Rightarrow> (DbLayer, item list) hmap" where
  "by_layer ws = fold push_item ws []"

fun batch_layers ::
  "'db engine \<Rightarrow> wenv \<Rightarrow> ProjectId \<Rightarrow> (DbLayer \<times> item list) list \<Rightarrow> nat \<Rightarrow> 'db store \<Rightarrow>
   ((DbError \<times> DbLayer) + nat) \<times> 'db store" where
  "batch_layers E env p [] tot s = (Inr tot, s)"
| "batch_layers E env p ((l, items) # groups) tot s =
     (case writer E p l s of
        (False, s1) \<Rightarrow> (Inl (gone_error env, l), s1)
      | (True, s1) \<Rightarrow>
          (case run_batch E items (st_db s1 (p, l)) of
             Inl e \<Rightarrow> (Inl (e, l), s1)
           | Inr (n, db') \<Rightarrow> batch_layers E env p groups (tot + n) (s1\<lparr>st_db := (st_db s1)((p, l) := db')\<rparr>)))"

definition write_batch :: "'db engine \<Rightarrow> wenv \<Rightarrow> Write list \<Rightarrow> 'db store \<Rightarrow> BatchSummary Response \<times> 'db store" where
  "write_batch E env ws s =
     (case ws of
        [] \<Rightarrow> (Response_ok \<lparr>total_rows_affected = 0\<rparr> ((we_meta env Audit)\<lparr>latency_ms := 0\<rparr>), s)
      | w # _ \<Rightarrow>
          (case batch_layers E env (w_project w) (we_order env (by_layer ws)) 0 s of
             (Inl (e, l), s') \<Rightarrow> (Response_err e (we_meta env l), s')
           | (Inr n, s') \<Rightarrow> (Response_ok \<lparr>total_rows_affected = n\<rparr> (we_meta env (w_layer w)), s')))"

subsection \<open>Injection\<close>

record InjectOptions =
  idempotency_key :: "string option"
  emit_event :: bool
  audit :: bool
  timeout_ms :: "u64 option"

definition InjectOptions_default :: InjectOptions where
  "InjectOptions_default = \<lparr>idempotency_key = None, emit_event = True, audit = True, timeout_ms = Some 5000\<rparr>"

record UpsertResult =
  inserted :: bool
  row_id :: "i64 option"

definition SELECT_KEY :: string where
  "SELECT_KEY = ''SELECT new_value_hash FROM audit_log'' @ nl 22 @ ''WHERE actor = 'idempotency' AND target = ?1 LIMIT 1''"

definition INSERT_AUDIT :: string where
  "INSERT_AUDIT = ''INSERT INTO audit_log(actor, action, layer, target, prev_value_hash, new_value_hash)'' @ nl 22 @
     ''VALUES('inject', ?1, ?2, ?3, NULL, ?4)''"

definition INSERT_KEY :: string where
  "INSERT_KEY = ''INSERT INTO audit_log(actor, action, layer, target, new_value_hash)'' @ nl 22 @
     ''VALUES('idempotency', ?1, ?2, ?3, ?4)''"

text \<open>
  What one injection meets. \<open>iv_timeout\<close> is set when the deadline passes before the reply; it says whether
  the statement, already with the writer task, is executed all the same.
\<close>

record inject_env =
  iv_query :: wenv
  iv_write :: wenv
  iv_timeout :: "bool option"
  iv_audit :: wenv
  iv_record :: wenv
  iv_meta :: "DbLayer \<Rightarrow> u64 \<Rightarrow> bool \<Rightarrow> ResponseMeta"
  iv_elapsed :: u64
  iv_hash :: "json list \<Rightarrow> string"
  iv_debug :: "DbLayer \<Rightarrow> string"

definition already_applied :: "'db engine \<Rightarrow> inject_env \<Rightarrow> ProjectId \<Rightarrow> string \<Rightarrow> 'db store \<Rightarrow> bool" where
  "already_applied E iv p key s =
     (let q = query_rows E (iv_query iv)
                \<lparr>q_project = p, q_layer = Audit, q_sql = SELECT_KEY, q_params = [JStr key]\<rparr> s
      in success q \<and> (case resp_data q of Some v \<Rightarrow> v \<noteq> [] | None \<Rightarrow> False))"

definition write_audit ::
  "'db engine \<Rightarrow> inject_env \<Rightarrow> ProjectId \<Rightarrow> DbLayer \<Rightarrow> json list \<Rightarrow> string \<Rightarrow> InjectOptions \<Rightarrow> 'db store \<Rightarrow> 'db store" where
  "write_audit E iv p l ps action opts s =
     (if audit opts
      then snd (db_write E (iv_audit iv)
        \<lparr>w_project = p, w_layer = Audit, w_sql = INSERT_AUDIT,
         w_params = [JStr action, JStr (iv_debug iv l),
           JStr (case idempotency_key opts of Some k \<Rightarrow> k | None \<Rightarrow> []), JStr (iv_hash iv ps)]\<rparr> s)
      else s)"

definition record_key ::
  "'db engine \<Rightarrow> inject_env \<Rightarrow> ProjectId \<Rightarrow> DbLayer \<Rightarrow> string \<Rightarrow> InjectOptions \<Rightarrow> 'db store \<Rightarrow> 'db store" where
  "record_key E iv p l action opts s =
     (case idempotency_key opts of
        None \<Rightarrow> s
      | Some key \<Rightarrow> snd (db_write E (iv_record iv)
          \<lparr>w_project = p, w_layer = Audit, w_sql = INSERT_KEY,
           w_params = [JStr action, JStr (iv_debug iv l), JStr key, JStr ''done'']\<rparr> s))"

definition write_with_audit ::
  "'db engine \<Rightarrow> inject_env \<Rightarrow> ProjectId \<Rightarrow> DbLayer \<Rightarrow> string \<Rightarrow> json list \<Rightarrow> string \<Rightarrow> InjectOptions \<Rightarrow> 'db store \<Rightarrow>
   i64 Response \<times> 'db store" where
  "write_with_audit E iv p l sql ps action opts s =
     (if (case idempotency_key opts of Some key \<Rightarrow> already_applied E iv p key s | None \<Rightarrow> False)
      then (Response_ok 0 (iv_meta iv l (iv_elapsed iv) True), s)
      else let w = \<lparr>w_project = p, w_layer = l, w_sql = sql, w_params = ps\<rparr> in
        case (timeout_ms opts, iv_timeout iv) of
          (Some t, Some applied) \<Rightarrow>
            (Response_err (Timeout t) (iv_meta iv l t False), if applied then snd (db_write E (iv_write iv) w s) else s)
        | _ \<Rightarrow>
          (case db_write E (iv_write iv) w s of
             (resp, s1) \<Rightarrow>
               if \<not> success resp
               then (\<lparr>success = False, resp_data = None, resp_error = resp_error resp, resp_meta = resp_meta resp\<rparr>, s1)
               else let rid = (case resp_data resp of
                                 Some sm \<Rightarrow> (case last_insert_rowid sm of Some r \<Rightarrow> r | None \<Rightarrow> 0)
                               | None \<Rightarrow> 0);
                        s2 = write_audit E iv p l ps action opts s1;
                        s3 = record_key E iv p l action opts s2
                    in (Response_ok rid (iv_meta iv l (iv_elapsed iv) False), s3)))"

definition db_insert where
  "db_insert E iv p l sql ps opts s = write_with_audit E iv p l sql ps ''insert'' opts s"

definition db_upsert ::
  "'db engine \<Rightarrow> inject_env \<Rightarrow> ProjectId \<Rightarrow> DbLayer \<Rightarrow> string \<Rightarrow> json list \<Rightarrow> InjectOptions \<Rightarrow> 'db store \<Rightarrow>
   UpsertResult Response \<times> 'db store" where
  "db_upsert E iv p l sql ps opts s =
     (case write_with_audit E iv p l sql ps ''upsert'' opts s of
        (r, s') \<Rightarrow>
          (if success r then Response_ok \<lparr>inserted = True, row_id = resp_data r\<rparr> (resp_meta r)
           else \<lparr>success = False, resp_data = None, resp_error = resp_error r, resp_meta = resp_meta r\<rparr>, s'))"

definition unit_response :: "i64 Response \<Rightarrow> unit Response" where
  "unit_response r = \<lparr>success = success r, resp_data = (if success r then Some () else None),
     resp_error = resp_error r, resp_meta = resp_meta r\<rparr>"

definition db_update where
  "db_update E iv p l sql ps opts s = (case write_with_audit E iv p l sql ps ''update'' opts s of (r, s') \<Rightarrow> (unit_response r, s'))"

definition db_delete where
  "db_delete E iv p l sql ps opts s = (case write_with_audit E iv p l sql ps ''delete'' opts s of (r, s') \<Rightarrow> (unit_response r, s'))"

datatype InjectOp =
    InjInsert (op_write: Write)
  | InjUpdate (op_write: Write)
  | InjDelete (op_write: Write)

definition batch_inject :: "'db engine \<Rightarrow> wenv \<Rightarrow> InjectOp list \<Rightarrow> 'db store \<Rightarrow> nat Response \<times> 'db store" where
  "batch_inject E env ops s =
     (case write_batch E env (map op_write ops) s of
        (resp, s') \<Rightarrow>
          (if success resp
           then Response_ok (case resp_data resp of Some b \<Rightarrow> total_rows_affected b | None \<Rightarrow> 0) (resp_meta resp)
           else \<lparr>success = False, resp_data = None, resp_error = resp_error resp, resp_meta = resp_meta resp\<rparr>, s'))"

section \<open>Writes stay in their shard\<close>

lemma response_simps [simp]:
  "success (Response_ok d m)" "resp_data (Response_ok d m) = Some d" "resp_meta (Response_ok d m) = m"
  "\<not> success (Response_err e m)" "resp_data (Response_err e m) = None" "resp_meta (Response_err e m) = m"
  by (simp_all add: Response_ok_def Response_err_def)

lemma writer_frame:
  "st_db (snd (writer E p l s)) = st_db s" "st_paths (snd (writer E p l s)) = st_paths s"
  "hm_get (st_writers (snd (writer E p l s))) (p, l) = Some (fst (writer E p l s))"
  by (simp_all add: writer_def Let_def split: option.split)

lemma db_write_effect:
  assumes "db_write E env w s = (r, s')"
  shows "(success r \<and> (\<exists>n rid db'. en_exec E (w_sql w) (w_params w) (st_db s (w_project w, w_layer w)) = Inr (n, rid, db') \<and>
        st_db s' = (st_db s)((w_project w, w_layer w) := db') \<and>
        resp_data r = Some \<lparr>rows_affected = n, last_insert_rowid = Some rid\<rparr>)) \<or>
     (\<not> success r \<and> st_db s' = st_db s)"
proof -
  obtain a s1 where w: "writer E (w_project w) (w_layer w) s = (a, s1)" by force
  then have "st_db s1 = st_db s" using writer_frame(1)[of E "w_project w" "w_layer w" s] by simp
  then show ?thesis using assms w by (auto simp: db_write_def Let_def split: bool.splits sum.splits prod.splits)
qed

lemma writer_alive: "hm_get (st_writers s) k = Some b \<Longrightarrow> hm_get (st_writers (snd (writer E p l s))) k = Some b"
  by (auto simp: writer_def Let_def split: option.splits)

lemma db_write_alive: "hm_get (st_writers s) k = Some b \<Longrightarrow> hm_get (st_writers (snd (db_write E env w s))) k = Some b"
  using writer_alive[of s k b E "w_project w" "w_layer w"]
  by (auto simp: db_write_def Let_def split: bool.splits sum.splits prod.splits)

lemma alive_write_succeeds:
  assumes "hm_get (st_writers s) (w_project w, w_layer w) = Some True"
    and "\<exists>n rid db'. en_exec E (w_sql w) (w_params w) (st_db s (w_project w, w_layer w)) = Inr (n, rid, db')"
  shows "success (fst (db_write E env w s))"
  using assms by (auto simp: db_write_def writer_def)

section \<open>Idempotency keys\<close>

text \<open>
  What the key statements rely on: after the record of a key has been inserted, selecting the key finds
  a row.
\<close>

definition key_found_after_record :: "'db engine \<Rightarrow> bool" where
  "key_found_after_record E \<longleftrightarrow>
     (\<forall>action lay key db n rid db'.
        en_exec E INSERT_KEY [JStr action, JStr lay, JStr key, JStr ''done''] db = Inr (n, rid, db') \<longrightarrow>
        (\<exists>row rows. en_rows E SELECT_KEY [JStr key] db' = Inr (row # rows)))"

definition recorded :: "'db engine \<Rightarrow> ProjectId \<Rightarrow> string \<Rightarrow> 'db store \<Rightarrow> bool" where
  "recorded E p key s \<longleftrightarrow> (\<exists>row rows. en_rows E SELECT_KEY [JStr key] (st_db s (p, Audit)) = Inr (row # rows))"

lemma already_applied_recorded:
  "we_pool (iv_query iv) = None \<Longrightarrow> we_join (iv_query iv) = None \<Longrightarrow> recorded E p key s \<Longrightarrow> already_applied E iv p key s"
  by (auto simp: already_applied_def query_rows_def recorded_def Let_def)

lemma not_applied_unrecorded: "already_applied E iv p key s \<Longrightarrow> recorded E p key s"
  by (auto simp: already_applied_def query_rows_def recorded_def Let_def neq_Nil_conv split: option.splits sum.splits)

lemma record_key_records:
  assumes "key_found_after_record E" and "idempotency_key opts = Some key"
    and "success (fst (db_write E (iv_record iv)
          \<lparr>w_project = p, w_layer = Audit, w_sql = INSERT_KEY,
           w_params = [JStr action, JStr (iv_debug iv l), JStr key, JStr ''done'']\<rparr> s))"
  shows "recorded E p key (record_key E iv p l action opts s)"
proof -
  let ?w = "\<lparr>w_project = p, w_layer = Audit, w_sql = INSERT_KEY,
           w_params = [JStr action, JStr (iv_debug iv l), JStr key, JStr ''done'']\<rparr>"
  obtain r s' where "db_write E (iv_record iv) ?w s = (r, s')" by force
  with db_write_effect[OF this] assms show ?thesis
    by (auto simp: record_key_def recorded_def key_found_after_record_def)
qed

lemma fresh_write:
  assumes "\<not> recorded E p key s" and "idempotency_key opts = Some key" and "iv_timeout iv = None"
    and "write_with_audit E iv p l sql ps action opts s = (r, s')" and "success r"
  shows "\<exists>resp s1. db_write E (iv_write iv) \<lparr>w_project = p, w_layer = l, w_sql = sql, w_params = ps\<rparr> s = (resp, s1) \<and>
    success resp \<and> s' = record_key E iv p l action opts (write_audit E iv p l ps action opts s1)"
  using assms not_applied_unrecorded[of E iv p key s]
  by (auto simp: write_with_audit_def Let_def split: if_splits prod.splits option.splits)

text \<open>
  A key does not protect a write that timed out. If the deadline passes while the statement is with the
  writer task, the caller is told that it timed out, no key is recorded, and the statement may be executed
  all the same; a retry with the same key then executes it a second time.
\<close>

theorem timed_out_write_repeats:
  assumes "idempotency_key opts = Some key" and "\<not> recorded E p key s" and "l \<noteq> Audit" and "timeout_ms opts = Some t"
    and "iv_timeout iv = Some True" and "iv_timeout iv' = None"
    and "hm_get (st_writers s) (p, l) = Some True"
    and "en_exec E sql ps (st_db s (p, l)) = Inr (n, rid, db1)" and "en_exec E sql ps db1 = Inr (n', rid', db2)"
    and "write_with_audit E iv p l sql ps action opts s = (r, s')"
    and "write_with_audit E iv' p l sql ps action opts s' = (r', s'')"
  shows "r = Response_err (Timeout t) (iv_meta iv l t False) \<and> success r' \<and> st_db s' (p, l) = db1 \<and> st_db s'' (p, l) = db2"
proof -
  let ?w = "\<lparr>w_project = p, w_layer = l, w_sql = sql, w_params = ps\<rparr>"
  have fresh: "\<not> already_applied E iv p key s" for iv using assms(2) not_applied_unrecorded by blast
  have w1: "db_write E env ?w s = (Response_ok \<lparr>rows_affected = n, last_insert_rowid = Some rid\<rparr> (we_meta env l),
      s\<lparr>st_db := (st_db s)((p, l) := db1)\<rparr>)" for env
    using assms(7,8) by (simp add: db_write_def writer_def)
  have r: "r = Response_err (Timeout t) (iv_meta iv l t False)" and s': "s' = s\<lparr>st_db := (st_db s)((p, l) := db1)\<rparr>"
    using assms(1,4,5,10) fresh w1 by (auto simp: write_with_audit_def)
  have "\<not> already_applied E iv' p key s'"
    using assms(2,3) not_applied_unrecorded[of E iv' p key s'] by (auto simp: s' recorded_def)
  moreover have "db_write E env ?w s' = (Response_ok \<lparr>rows_affected = n', last_insert_rowid = Some rid'\<rparr> (we_meta env l),
      s'\<lparr>st_db := (st_db s')((p, l) := db2)\<rparr>)" for env
    using assms(7,9) by (simp add: db_write_def writer_def s')
  ultimately have r': "success r'" and
    s'': "s'' = record_key E iv' p l action opts (write_audit E iv' p l ps action opts (s'\<lparr>st_db := (st_db s')((p, l) := db2)\<rparr>))"
    using assms(1,6,11) by (auto simp: write_with_audit_def Let_def split: option.splits)
  have "st_db (snd (db_write E env w u)) (p, l) = st_db u (p, l)" if "w_layer w = Audit" for env w u
    using db_write_effect[of E env w u "fst (db_write E env w u)" "snd (db_write E env w u)"] that assms(3) by auto
  then have "st_db s'' (p, l) = db2"
    unfolding s'' by (simp add: record_key_def write_audit_def split: option.split)
  with r r' show ?thesis by (simp add: s')
qed

section \<open>Batches\<close>

lemma by_layer_items:
  "hm_wf (by_layer ws)"
  "hm_get (by_layer ws) l =
     (if \<exists>w \<in> set ws. w_layer w = l
      then Some (map (\<lambda>w. (w_sql w, w_params w)) (filter (\<lambda>w. w_layer w = l) ws)) else None)"
proof -
  have "hm_wf (by_layer ws) \<and> (\<forall>l. hm_get (by_layer ws) l =
     (if \<exists>w \<in> set ws. w_layer w = l
      then Some (map (\<lambda>w. (w_sql w, w_params w)) (filter (\<lambda>w. w_layer w = l) ws)) else None))"
    unfolding by_layer_def
  proof (induction ws rule: rev_induct)
    case (snoc w ws)
    let ?m = "fold push_item ws []"
    have "hm_get (push_item w ?m) l = (if l = w_layer w
        then Some ((case hm_get ?m l of Some is \<Rightarrow> is | None \<Rightarrow> []) @ [(w_sql w, w_params w)]) else hm_get ?m l)" for l
      by (simp add: push_item_def)
    with snoc show ?case by (simp add: push_item_def)
  qed simp
  then show "hm_wf (by_layer ws)" and "hm_get (by_layer ws) l =
     (if \<exists>w \<in> set ws. w_layer w = l
      then Some (map (\<lambda>w. (w_sql w, w_params w)) (filter (\<lambda>w. w_layer w = l) ws)) else None)" by simp_all
qed

section \<open>A keyed write among other calls\<close>

text \<open>
  What may happen between two injections: other injections, writes and batches, of any project, whatever they meet.
\<close>

datatype store_call =
    CallInject inject_env ProjectId DbLayer string "json list" string InjectOptions
  | CallWrite wenv Write
  | CallBatch wenv "Write list"

primrec store_call_run :: "'db engine \<Rightarrow> store_call \<Rightarrow> 'db store \<Rightarrow> 'db store" where
  "store_call_run E (CallInject iv p l sql ps action opts) s = snd (write_with_audit E iv p l sql ps action opts s)"
| "store_call_run E (CallWrite env w) s = snd (db_write E env w s)"
| "store_call_run E (CallBatch env ws) s = snd (write_batch E env ws s)"

definition store_run :: "'db engine \<Rightarrow> store_call list \<Rightarrow> 'db store \<Rightarrow> 'db store" where
  "store_run E calls s = fold (store_call_run E) calls s"

text \<open>
  The caller's own statements stay out of the audit layer, and the map of a batch gives all its groups; the inserts
  of the audit trail and of other keys take no row away.
\<close>

primrec off_audit :: "store_call \<Rightarrow> bool" where
  "off_audit (CallInject iv p l sql ps action opts) \<longleftrightarrow> l \<noteq> Audit"
| "off_audit (CallWrite env w) \<longleftrightarrow> w_layer w \<noteq> Audit"
| "off_audit (CallBatch env ws) \<longleftrightarrow> (\<forall>w \<in> set ws. w_layer w \<noteq> Audit) \<and> mset (we_order env (by_layer ws)) = mset (by_layer ws)"

definition key_found :: "'db engine \<Rightarrow> string \<Rightarrow> 'db \<Rightarrow> bool" where
  "key_found E key db \<longleftrightarrow> (\<exists>row rows. en_rows E SELECT_KEY [JStr key] db = Inr (row # rows))"

definition keys_stay :: "'db engine \<Rightarrow> bool" where
  "keys_stay E \<longleftrightarrow>
     (\<forall>sql ps key db n rid db'. sql \<in> {INSERT_AUDIT, INSERT_KEY} \<longrightarrow> en_exec E sql ps db = Inr (n, rid, db') \<longrightarrow>
        key_found E key db \<longrightarrow> key_found E key db')"

lemma recorded_found: "recorded E p key s = key_found E key (st_db s (p, Audit))"
  by (simp add: recorded_def key_found_def)

lemma db_write_recorded:
  assumes "keys_stay E" "recorded E p key s" "w_layer w \<noteq> Audit \<or> w_sql w \<in> {INSERT_AUDIT, INSERT_KEY}"
  shows "recorded E p key (snd (db_write E env w s))"
proof -
  obtain r s' where w: "db_write E env w s = (r, s')" by force
  show ?thesis
  proof (cases "(w_project w, w_layer w) = (p, Audit)")
    case True
    with assms(3) have sql: "w_sql w \<in> {INSERT_AUDIT, INSERT_KEY}" by simp
    from db_write_effect[OF w] True consider "st_db s' = st_db s" |
      n rid db' where "en_exec E (w_sql w) (w_params w) (st_db s (p, Audit)) = Inr (n, rid, db')"
        "st_db s' (p, Audit) = db'" by fastforce
    then show ?thesis
    proof cases
      case 2
      then show ?thesis using assms(1,2) sql unfolding recorded_found keys_stay_def w snd_conv by metis
    qed (use assms(2) in \<open>simp add: w recorded_found\<close>)
  next
    case False
    with db_write_effect[OF w] have "st_db s' (p, Audit) = st_db s (p, Audit)" by auto
    with assms(2) show ?thesis by (simp add: w recorded_found)
  qed
qed

lemma inject_recorded:
  assumes "keys_stay E" "recorded E p key s" "l \<noteq> Audit"
  shows "recorded E p key (snd (write_with_audit E iv p' l sql ps action opts s))"
proof -
  let ?w = "\<lparr>w_project = p', w_layer = l, w_sql = sql, w_params = ps\<rparr>"
  have own: "recorded E p key (snd (db_write E env ?w s))" for env
    using assms by (intro db_write_recorded) simp_all
  have "recorded E p key (write_audit E iv p' l ps action opts u)" if "recorded E p key u" for u
    using that assms(1) by (auto simp: write_audit_def intro: db_write_recorded)
  moreover have "recorded E p key (record_key E iv p' l action opts u)" if "recorded E p key u" for u
    using that assms(1) by (auto simp: record_key_def intro!: db_write_recorded split: option.split)
  ultimately show ?thesis
    using own[of "iv_write iv"] assms(2)
    by (cases "db_write E (iv_write iv) ?w s") (simp add: write_with_audit_def Let_def split: option.split)
qed

lemma batch_layers_recorded:
  "recorded E p key s \<Longrightarrow> Audit \<notin> fst ` set gs \<Longrightarrow> recorded E p key (snd (batch_layers E env p' gs tot s))"
proof (induction gs arbitrary: tot s)
  case (Cons g gs)
  obtain l items where g: "g = (l, items)" by force
  obtain a s1 where w: "writer E p' l s = (a, s1)" by force
  then have "st_db s1 = st_db s" using writer_frame(1)[of E p' l s] by simp
  with Cons.prems have s1: "recorded E p key s1" by (simp add: recorded_found)
  then have "recorded E p key (s1\<lparr>st_db := (st_db s1)((p', l) := db)\<rparr>)" for db
    using Cons.prems(2) g by (auto simp: recorded_found)
  with Cons.IH Cons.prems(2) s1 show ?case by (auto simp: g w split: bool.split sum.split)
qed simp

lemma batch_recorded:
  assumes "recorded E p key s" "off_audit (CallBatch env ws)"
  shows "recorded E p key (snd (write_batch E env ws s))"
proof -
  have "hm_get (by_layer ws) Audit = None" using assms(2) by (simp add: by_layer_items(2))
  then have "Audit \<notin> fst ` set (by_layer ws)" using hm_get_iff_keys[of "by_layer ws" Audit] by (simp add: hm_keys_def)
  moreover have "mset (we_order env (by_layer ws)) = mset (by_layer ws)" using assms(2) by simp
  then have "set (we_order env (by_layer ws)) = set (by_layer ws)" by (rule mset_eq_setD)
  ultimately have "recorded E p key (snd (batch_layers E env p' (we_order env (by_layer ws)) 0 s))" for p'
    using assms(1) by (intro batch_layers_recorded) simp_all
  moreover have "snd (write_batch E env ws s) =
      (case ws of [] \<Rightarrow> s | w # _ \<Rightarrow> snd (batch_layers E env (w_project w) (we_order env (by_layer ws)) 0 s))"
    by (simp add: write_batch_def split: list.split prod.split sum.split)
  ultimately show ?thesis using assms(1) by (cases ws) (simp_all only: list.case)
qed

lemma store_run_recorded:
  assumes "keys_stay E" "\<forall>call \<in> set calls. off_audit call" "recorded E p key s"
  shows "recorded E p key (store_run E calls s)"
  using assms(2,3) unfolding store_run_def
proof (induction calls arbitrary: s)
  case (Cons call calls)
  have "recorded E p key (store_call_run E call s)"
    using Cons.prems assms(1)
    by (cases call) (simp_all add: inject_recorded db_write_recorded batch_recorded)
  with Cons show ?case by simp
qed simp

text \<open>
  C18: A keyed write is applied once. When an injection with a fresh key succeeds, the writer of the project's audit
  shard is alive and the record of the key can be written, its statement has been executed on its shard; and any later
  injection with that key into that project, whatever its statement, layer and action and whatever other calls came in
  between, executes nothing: it reports success with row 0 as a cache hit and leaves every shard as it was, as long as
  the audit shard can be read and no caller writes to the audit layer directly.
\<close>

theorem keyed_write_applied_once:
  assumes "key_found_after_record E" and "keys_stay E"
    and "idempotency_key opts = Some key" and "\<not> recorded E p key s" and "iv_timeout iv = None"
    and "write_with_audit E iv p l sql ps action opts s = (r, s')" and "success r"
    and "hm_get (st_writers s) (p, Audit) = Some True"
    and "\<forall>db. \<exists>n rid db'. en_exec E INSERT_KEY [JStr action, JStr (iv_debug iv l), JStr key, JStr ''done''] db = Inr (n, rid, db')"
    and "\<forall>call \<in> set calls. off_audit call"
    and "we_pool (iv_query iv') = None" and "we_join (iv_query iv') = None" and "idempotency_key opts' = Some key"
  shows "(\<exists>n rid db'. en_exec E sql ps (st_db s (p, l)) = Inr (n, rid, db') \<and> (l \<noteq> Audit \<longrightarrow> st_db s' (p, l) = db')) \<and>
    write_with_audit E iv' p l' sql' ps' action' opts' (store_run E calls s') =
      (Response_ok 0 (iv_meta iv' l' (iv_elapsed iv') True), store_run E calls s')"
proof
  obtain resp s1 where w: "db_write E (iv_write iv) \<lparr>w_project = p, w_layer = l, w_sql = sql, w_params = ps\<rparr> s = (resp, s1)"
    "success resp" and s': "s' = record_key E iv p l action opts (write_audit E iv p l ps action opts s1)"
    using fresh_write[OF assms(4,3,5,6,7)] by blast
  have audit: "k \<noteq> (p, Audit) \<Longrightarrow> st_db (snd (db_write E env w s)) k = st_db s k" if "w_project w = p" "w_layer w = Audit" for k env w s
    using db_write_effect[of E env w s "fst (db_write E env w s)" "snd (db_write E env w s)"] that by auto
  have "l \<noteq> Audit \<Longrightarrow> st_db s' (p, l) = st_db s1 (p, l)"
    unfolding s' by (simp add: record_key_def write_audit_def audit split: option.split)
  then show "\<exists>n rid db'. en_exec E sql ps (st_db s (p, l)) = Inr (n, rid, db') \<and> (l \<noteq> Audit \<longrightarrow> st_db s' (p, l) = db')"
    using db_write_effect[OF w(1)] w(2) by auto
  have "hm_get (st_writers s1) (p, Audit) = Some True" using assms(8) w(1) db_write_alive by (metis snd_conv)
  then have "hm_get (st_writers (write_audit E iv p l ps action opts s1)) (p, Audit) = Some True"
    by (simp add: write_audit_def db_write_alive)
  then have "recorded E p key s'"
    unfolding s' using assms(9) by (intro record_key_records[OF assms(1,3)]) (auto simp: alive_write_succeeds)
  from store_run_recorded[OF assms(2,10) this]
  have "already_applied E iv' p key (store_run E calls s')" using assms(11,12) by (blast intro: already_applied_recorded)
  then show "write_with_audit E iv' p l' sql' ps' action' opts' (store_run E calls s') =
      (Response_ok 0 (iv_meta iv' l' (iv_elapsed iv') True), store_run E calls s')"
    using assms(13) by (simp add: write_with_audit_def)
qed

section \<open>What a batch changes\<close>

text \<open>A run over the groups: the shards of the groups that committed, and nothing else, have changed.\<close>

lemma batch_layers_effect:
  assumes "batch_layers E env p gs tot s = (r, s')" and "distinct (map fst gs)"
  shows "\<exists>k \<le> length gs.
    (\<forall>l items. (l, items) \<in> set (take k gs) \<longrightarrow> (\<exists>n. run_batch E items (st_db s (p, l)) = Inr (n, st_db s' (p, l)))) \<and>
    (\<forall>key. key \<notin> Pair p ` fst ` set (take k gs) \<longrightarrow> st_db s' key = st_db s key) \<and>
    ((\<exists>n. r = Inr n) \<longleftrightarrow> k = length gs)"
  using assms
proof (induction gs arbitrary: tot s)
  case Nil
  then show ?case by auto
next
  case (Cons g gs)
  obtain l items where g: "g = (l, items)" by force
  obtain a s1 where w: "writer E p l s = (a, s1)" by force
  then have s1: "st_db s1 = st_db s" using writer_frame(1)[of E p l s] by simp
  show ?case
  proof (cases "a \<and> (\<exists>n db'. run_batch E items (st_db s (p, l)) = Inr (n, db'))")
    case False
    then have "(\<nexists>n. r = Inr n) \<and> st_db s' = st_db s"
      using Cons.prems(1) w s1 by (auto simp: g split: sum.splits bool.splits)
    then show ?thesis by (intro exI[of _ 0]) auto
  next
    case True
    then obtain n db' where rb: "run_batch E items (st_db s (p, l)) = Inr (n, db')" by blast
    let ?s2 = "s1\<lparr>st_db := (st_db s)((p, l) := db')\<rparr>"
    have "batch_layers E env p gs (tot + n) ?s2 = (r, s')"
      using Cons.prems(1) True w s1 rb by (simp add: g)
    from Cons.IH[OF this] Cons.prems(2) obtain k where k: "k \<le> length gs"
      and run: "\<And>l' its. (l', its) \<in> set (take k gs) \<Longrightarrow> \<exists>n. run_batch E its (st_db ?s2 (p, l')) = Inr (n, st_db s' (p, l'))"
      and frame: "\<And>key. key \<notin> Pair p ` fst ` set (take k gs) \<Longrightarrow> st_db s' key = st_db ?s2 key"
      and done_iff: "(\<exists>n. r = Inr n) \<longleftrightarrow> k = length gs" by auto
    have fresh: "l \<notin> fst ` set (take k gs)" using Cons.prems(2) g by (auto dest: in_set_takeD)
    have "st_db s' (p, l) = db'" using frame[of "(p, l)"] fresh by auto
    moreover have "l' \<noteq> l" if "(l', its) \<in> set (take k gs)" for l' its using that fresh by force
    ultimately have "\<forall>l' its. (l', its) \<in> set (take (Suc k) (g # gs)) \<longrightarrow>
        (\<exists>n. run_batch E its (st_db s (p, l')) = Inr (n, st_db s' (p, l')))"
      using run rb by (auto simp: g)
    moreover have "\<forall>key. key \<notin> Pair p ` fst ` set (take (Suc k) (g # gs)) \<longrightarrow> st_db s' key = st_db s key"
      using frame by (auto simp: g)
    ultimately show ?thesis using k done_iff by (intro exI[of _ "Suc k"]) simp
  qed
qed

text \<open>
  A batch is one transaction per layer and lands in the project of its first write. Whatever the
  order in which the layers are taken, every shard of every other project is left alone, also where a
  write of the batch names that project; a successful batch has executed, on each of its layers, exactly
  the writes of that layer in their order; a failed batch has done so on some layers and nothing on the
  others, so that a failed batch of a single layer has changed nothing.
\<close>

theorem batch_lands_in_first_project:
  assumes "write_batch E env (w # ws) s = (r, s')" and "mset (we_order env (by_layer (w # ws))) = mset (by_layer (w # ws))"
  shows "(\<forall>p l. p \<noteq> w_project w \<longrightarrow> st_db s' (p, l) = st_db s (p, l)) \<and>
    (\<forall>l. st_db s' (w_project w, l) = st_db s (w_project w, l) \<or>
       (\<exists>n. run_batch E (map (\<lambda>w. (w_sql w, w_params w)) (filter (\<lambda>w. w_layer w = l) (w # ws))) (st_db s (w_project w, l)) =
          Inr (n, st_db s' (w_project w, l)))) \<and>
    (success r \<longrightarrow> (\<forall>l \<in> w_layer ` set (w # ws).
       \<exists>n. run_batch E (map (\<lambda>w. (w_sql w, w_params w)) (filter (\<lambda>w. w_layer w = l) (w # ws))) (st_db s (w_project w, l)) =
          Inr (n, st_db s' (w_project w, l)))) \<and>
    (\<not> success r \<and> w_layer ` set (w # ws) = {w_layer w} \<longrightarrow> st_db s' = st_db s)"
proof -
  let ?p = "w_project w" and ?m = "by_layer (w # ws)"
  let ?gs = "we_order env ?m"
  let ?items = "\<lambda>l. map (\<lambda>w. (w_sql w, w_params w)) (filter (\<lambda>w. w_layer w = l) (w # ws))"
  obtain b where b: "batch_layers E env ?p ?gs 0 s = (b, s')" and ok: "success r \<longleftrightarrow> (\<exists>n. b = Inr n)"
    using assms(1) by (auto simp: write_batch_def split: prod.splits sum.splits)
  have mem: "(l, items) \<in> set ?gs \<longleftrightarrow> (\<exists>v \<in> set (w # ws). w_layer v = l) \<and> items = ?items l" for l items
  proof -
    have "(l, items) \<in> set ?gs \<longleftrightarrow> hm_get ?m l = Some items"
      using assms(2) by (metis by_layer_items(1) hm_get_mem set_mset_mset)
    then show ?thesis by (auto simp: by_layer_items(2) split: if_splits)
  qed
  have "mset (map fst ?gs) = mset (map fst ?m)" using assms(2) by (metis mset_map)
  then have "distinct (map fst ?gs)"
    using by_layer_items(1)[of "w # ws"] by (metis hm_wf_def hm_keys_def distinct_count_atmost_1 count_mset set_mset_mset mset_eq_imp_distinct_iff)
  from batch_layers_effect[OF b this] obtain k where k: "k \<le> length ?gs"
    and run: "\<And>l items. (l, items) \<in> set (take k ?gs) \<Longrightarrow> \<exists>n. run_batch E items (st_db s (?p, l)) = Inr (n, st_db s' (?p, l))"
    and frame: "\<And>key. key \<notin> Pair ?p ` fst ` set (take k ?gs) \<Longrightarrow> st_db s' key = st_db s key"
    and all: "(\<exists>n. b = Inr n) \<longleftrightarrow> k = length ?gs" by auto
  have run': "\<exists>n. run_batch E (?items l) (st_db s (?p, l)) = Inr (n, st_db s' (?p, l))" if l: "l \<in> fst ` set (take k ?gs)" for l
  proof -
    obtain items where i: "(l, items) \<in> set (take k ?gs)" using l by force
    then have "(l, items) \<in> set ?gs" by (rule in_set_takeD)
    then have "items = ?items l" by (simp only: mem)
    then show ?thesis using run[OF i] by simp
  qed
  have 1: "\<forall>p l. p \<noteq> ?p \<longrightarrow> st_db s' (p, l) = st_db s (p, l)" using frame by auto
  have 2: "st_db s' (?p, l) = st_db s (?p, l) \<or> (\<exists>n. run_batch E (?items l) (st_db s (?p, l)) = Inr (n, st_db s' (?p, l)))" for l
    using run'[of l] frame[of "(?p, l)"] by blast
  have 3: "\<exists>n. run_batch E (?items l) (st_db s (?p, l)) = Inr (n, st_db s' (?p, l))" if "success r" "l \<in> w_layer ` set (w # ws)" for l
  proof (rule run')
    have "k = length ?gs" using that(1) ok all by blast
    then have t: "take k ?gs = ?gs" by simp
    have "(l, ?items l) \<in> set ?gs"
    proof -
      have "\<exists>v \<in> set (w # ws). w_layer v = l" using that(2) by (metis imageE)
      then show ?thesis by (simp only: mem simp_thms)
    qed
    then show "l \<in> fst ` set (take k ?gs)" unfolding t by (rule image_eqI[rotated]) (simp only: fst_conv)
  qed
  have 4: "st_db s' = st_db s" if "\<not> success r" "w_layer ` set (w # ws) = {w_layer w}"
  proof -
    have "fst ` set ?gs \<subseteq> {w_layer w}"
    proof clarify
      fix l items assume "(l, items) \<in> set ?gs"
      then show "fst (l, items) = w_layer w" unfolding mem using that(2) by auto
    qed
    moreover have "length (map fst ?gs) = card (fst ` set ?gs)" using \<open>distinct (map fst ?gs)\<close> by (metis distinct_card set_map)
    ultimately have "length ?gs \<le> 1" using card_mono[of "{w_layer w}" "fst ` set ?gs"] by simp
    moreover have "k \<noteq> length ?gs" using that(1) ok all by blast
    ultimately have "k = 0" using k by linarith
    then show ?thesis using frame by fastforce
  qed
  from 1 2 3 4 show ?thesis by blast
qed

section \<open>A store that logs its statements\<close>

definition demo_engine :: "item list engine" where
  "demo_engine = \<lparr>en_open = (\<lambda>_. True), en_exec = (\<lambda>sql ps db. Inr (1, int (length db), db @ [(sql, ps)])),
     en_rows = (\<lambda>sql ps db. Inr (map (\<lambda>_. JNull) (filter (\<lambda>(q, qs). q = INSERT_KEY \<and> 2 < length qs \<and> [qs ! 2] = ps) db))),
     en_begin = (\<lambda>_. None), en_commit = (\<lambda>_. None)\<rparr>"

definition demo_meta :: ResponseMeta where
  "demo_meta = \<lparr>latency_ms = 1, cache_hit = False, source_db = Graph, query_id = ''q'', schema_version = 1\<rparr>"

definition demo_wenv :: wenv where
  "demo_wenv = \<lparr>we_meta = (\<lambda>_. demo_meta), we_closed = None, we_pool = None, we_join = None, we_order = (\<lambda>m. m)\<rparr>"

definition demo_iv :: "bool option \<Rightarrow> inject_env" where
  "demo_iv t = \<lparr>iv_query = demo_wenv, iv_write = demo_wenv, iv_timeout = t, iv_audit = demo_wenv, iv_record = demo_wenv,
     iv_meta = (\<lambda>_ _ _. demo_meta), iv_elapsed = 1, iv_hash = (\<lambda>_. ''h''), iv_debug = (\<lambda>_. ''Graph'')\<rparr>"

definition demo_store :: "item list store" where
  "demo_store = \<lparr>st_paths = \<lparr>pm_root = ''/m''\<rparr>, st_writers = [((''p'', Audit), True), ((''p'', Graph), True)], st_db = (\<lambda>_. [])\<rparr>"

definition demo_opts :: InjectOptions where
  "demo_opts = InjectOptions_default\<lparr>idempotency_key := Some ''k''\<rparr>"

lemmas demo_store_defs = demo_engine_def demo_meta_def demo_wenv_def demo_iv_def demo_store_def demo_opts_def InjectOptions_default_def

lemma demo_engine_keys: "key_found_after_record demo_engine"
  by (simp add: key_found_after_record_def demo_engine_def flip: neq_Nil_conv)

lemma demo_unrecorded: "\<not> recorded demo_engine ''p'' ''k'' demo_store"
  by (simp add: recorded_def demo_engine_def demo_store_def)

text \<open>In between: the same statement without a key, and a batch of another project.\<close>

definition demo_calls :: "store_call list" where
  "demo_calls = [CallInject (demo_iv None) ''p'' Graph ''x'' [] ''insert'' InjectOptions_default,
     CallBatch demo_wenv [\<lparr>w_project = ''q'', w_layer = Graph, w_sql = ''y'', w_params = []\<rparr>]]"

lemma demo_calls_off_audit: "\<forall>call \<in> set demo_calls. off_audit call"
  by (simp add: demo_calls_def demo_wenv_def)

lemma demo_keys_stay: "keys_stay demo_engine"
proof -
  have found: "key_found demo_engine key db \<longleftrightarrow> (\<exists>(q, qs) \<in> set db. q = INSERT_KEY \<and> 2 < length qs \<and> [qs ! 2] = [JStr key])" for key db
    by (fastforce simp: key_found_def demo_engine_def neq_Nil_conv[symmetric] filter_empty_conv)
  have "db' = db @ [(sql, ps)]" if "en_exec demo_engine sql ps db = Inr (n, rid, db')" for sql ps db n rid db'
    using that by (simp add: demo_engine_def)
  then show ?thesis unfolding keys_stay_def found by fastforce
qed

theorem keyed_write_applied_once_witness:
  "let s' = store_run demo_engine demo_calls
       (snd (write_with_audit demo_engine (demo_iv None) ''p'' Graph ''x'' [] ''insert'' demo_opts demo_store))
   in write_with_audit demo_engine (demo_iv None) ''p'' Graph ''x'' [] ''insert'' demo_opts s' =
     (Response_ok 0 demo_meta, s')"
proof -
  obtain r s' where w: "write_with_audit demo_engine (demo_iv None) ''p'' Graph ''x'' [] ''insert'' demo_opts demo_store = (r, s')" by force
  have "\<not> already_applied demo_engine (demo_iv None) ''p'' ''k'' demo_store" using demo_unrecorded not_applied_unrecorded by blast
  then have "success r"
    using w by (auto simp: write_with_audit_def db_write_def writer_def demo_store_defs Let_def)
  moreover have "hm_get (st_writers demo_store) (''p'', Audit) = Some True" by (simp add: demo_store_def)
  ultimately show ?thesis
    using keyed_write_applied_once[OF demo_engine_keys demo_keys_stay _ demo_unrecorded _ w _ _ _ demo_calls_off_audit,
        of "demo_iv None" demo_opts Graph "''x''" "[]" "''insert''"] w
    by (simp add: demo_opts_def demo_iv_def demo_wenv_def demo_engine_def)
qed

theorem timed_out_write_repeats_witness:
  "st_db (snd (write_with_audit demo_engine (demo_iv None) ''p'' Graph ''x'' [] ''insert'' demo_opts
     (snd (write_with_audit demo_engine (demo_iv (Some True)) ''p'' Graph ''x'' [] ''insert'' demo_opts demo_store)))) (''p'', Graph) =
   [(''x'', []), (''x'', [])]"
proof -
  obtain r s' where w: "write_with_audit demo_engine (demo_iv (Some True)) ''p'' Graph ''x'' [] ''insert'' demo_opts demo_store = (r, s')" by force
  obtain r' s'' where w': "write_with_audit demo_engine (demo_iv None) ''p'' Graph ''x'' [] ''insert'' demo_opts s' = (r', s'')" by force
  show ?thesis
    using timed_out_write_repeats[OF _ demo_unrecorded _ _ _ _ _ _ _ w w'] w w'
    by (simp add: demo_store_defs)
qed

theorem batch_lands_in_first_project_witness:
  "st_db (snd (write_batch demo_engine demo_wenv
     [\<lparr>w_project = ''p'', w_layer = Graph, w_sql = ''x'', w_params = []\<rparr>,
      \<lparr>w_project = ''other'', w_layer = Graph, w_sql = ''y'', w_params = []\<rparr>] demo_store)) (''other'', Graph) = [] \<and>
   (\<exists>n. run_batch demo_engine [(''x'', []), (''y'', [])] [] = Inr (n, st_db (snd (write_batch demo_engine demo_wenv
     [\<lparr>w_project = ''p'', w_layer = Graph, w_sql = ''x'', w_params = []\<rparr>,
      \<lparr>w_project = ''other'', w_layer = Graph, w_sql = ''y'', w_params = []\<rparr>] demo_store)) (''p'', Graph)))"
proof -
  let ?w = "\<lparr>w_project = ''p'', w_layer = Graph, w_sql = ''x'', w_params = []\<rparr>"
  let ?ws = "[\<lparr>w_project = ''other'', w_layer = Graph, w_sql = ''y'', w_params = []\<rparr>]"
  obtain r s' where b: "write_batch demo_engine demo_wenv (?w # ?ws) demo_store = (r, s')" by force
  have "success r"
    using b by (auto simp: write_batch_def by_layer_def push_item_def writer_def run_batch_def demo_store_defs)
  moreover have "mset (we_order demo_wenv (by_layer (?w # ?ws))) = mset (by_layer (?w # ?ws))" by (simp add: demo_wenv_def)
  ultimately show ?thesis
    using batch_lands_in_first_project[OF b] b by (simp add: demo_store_def)
qed

end
