(* ===== verification/Parser_Languages.thy ===== *)
theory Parser_Languages
  imports Router
begin

text \<open>
  The languages of the parser (\<open>parsers/src/language.rs\<close>): their names, the mapping from file names to
  languages, and the names under which \<open>serde\<close> reads and writes the variants. A build enables a set of cargo
  features; a grammar is linked when its feature is on.
\<close>

section \<open>Model\<close>

datatype Language =
    LangTypeScript | LangTsx | LangJavaScript | LangJsx | LangPython | LangRust | LangGo
  | LangJava | LangC | LangCpp | LangCSharp | LangRuby | LangPhp | LangBash
  | LangJson | LangLua | LangToml | LangYaml | LangMarkdown | LangSwift | LangKotlin
  | LangScala | LangVue | LangSvelte | LangSolidity | LangJulia | LangZig | LangHaskell

definition Language_ALL :: "Language list" where
  "Language_ALL =
     [LangTypeScript, LangTsx, LangJavaScript, LangJsx, LangPython, LangRust, LangGo,
      LangJava, LangC, LangCpp, LangCSharp, LangRuby, LangPhp, LangBash,
      LangJson, LangLua, LangToml, LangYaml, LangMarkdown, LangSwift, LangKotlin,
      LangScala, LangVue, LangSvelte, LangSolidity, LangJulia, LangZig, LangHaskell]"

fun lang_as_str :: "Language \<Rightarrow> string" where
  "lang_as_str LangTypeScript = ''typescript''"
| "lang_as_str LangTsx = ''tsx''"
| "lang_as_str LangJavaScript = ''javascript''"
| "lang_as_str LangJsx = ''jsx''"
| "lang_as_str LangPython = ''python''"
| "lang_as_str LangRust = ''rust''"
| "lang_as_str LangGo = ''go''"
| "lang_as_str LangJava = ''java''"
| "lang_as_str LangC = ''c''"
| "lang_as_str LangCpp = ''cpp''"
| "lang_as_str LangCSharp = ''csharp''"
| "lang_as_str LangRuby = ''ruby''"
| "lang_as_str LangPhp = ''php''"
| "lang_as_str LangBash = ''bash''"
| "lang_as_str LangJson = ''json''"
| "lang_as_str LangLua = ''lua''"
| "lang_as_str LangToml = ''toml''"
| "lang_as_str LangYaml = ''yaml''"
| "lang_as_str LangMarkdown = ''markdown''"
| "lang_as_str LangSwift = ''swift''"
| "lang_as_str LangKotlin = ''kotlin''"
| "lang_as_str LangScala = ''scala''"
| "lang_as_str LangVue = ''vue''"
| "lang_as_str LangSvelte = ''svelte''"
| "lang_as_str LangSolidity = ''solidity''"
| "lang_as_str LangJulia = ''julia''"
| "lang_as_str LangZig = ''zig''"
| "lang_as_str LangHaskell = ''haskell''"

text \<open>The arms of the \<open>match\<close> on the lower-case extension.\<close>

definition EXTENSIONS :: "(string \<times> Language) list" where
  "EXTENSIONS =
     [(''ts'', LangTypeScript), (''mts'', LangTypeScript), (''cts'', LangTypeScript),
      (''tsx'', LangTsx),
      (''js'', LangJavaScript), (''mjs'', LangJavaScript), (''cjs'', LangJavaScript),
      (''jsx'', LangJsx),
      (''py'', LangPython), (''pyi'', LangPython), (''pyw'', LangPython),
      (''rs'', LangRust),
      (''go'', LangGo),
      (''java'', LangJava),
      (''c'', LangC), (''h'', LangC),
      (''cpp'', LangCpp), (''cc'', LangCpp), (''cxx'', LangCpp), (''hpp'', LangCpp), (''hh'', LangCpp), (''hxx'', LangCpp),
      (''cs'', LangCSharp),
      (''rb'', LangRuby), (''rake'', LangRuby),
      (''php'', LangPhp), (''phtml'', LangPhp),
      (''sh'', LangBash), (''bash'', LangBash), (''zsh'', LangBash),
      (''json'', LangJson), (''jsonc'', LangJson),
      (''lua'', LangLua), (''luau'', LangLua),
      (''toml'', LangToml),
      (''yml'', LangYaml), (''yaml'', LangYaml),
      (''md'', LangMarkdown), (''mdx'', LangMarkdown), (''markdown'', LangMarkdown),
      (''swift'', LangSwift),
      (''kt'', LangKotlin), (''kts'', LangKotlin),
      (''scala'', LangScala), (''sc'', LangScala), (''sbt'', LangScala),
      (''vue'', LangVue),
      (''svelte'', LangSvelte),
      (''sol'', LangSolidity),
      (''jl'', LangJulia),
      (''zig'', LangZig),
      (''hs'', LangHaskell), (''lhs'', LangHaskell)]"

definition strip_dot :: "string \<Rightarrow> string" where
  "strip_dot e = (case e of CHR ''.'' # r \<Rightarrow> r | _ \<Rightarrow> e)"

definition from_extension :: "string \<Rightarrow> Language option" where
  "from_extension ext = map_of EXTENSIONS (to_ascii_lowercase (strip_dot ext))"

definition special_name :: "string \<Rightarrow> Language option" where
  "special_name name =
     (let n = to_ascii_lowercase name in
      if n \<in> set [''dockerfile'', ''.bashrc'', ''.bash_profile'', ''.zshrc'', ''makefile''] then Some LangBash
      else if n \<in> set [''cargo.toml'', ''pyproject.toml''] then Some LangToml
      else if n \<in> set [''package.json'', ''tsconfig.json''] then Some LangJson
      else None)"

definition from_filename :: "path \<Rightarrow> Language option" where
  "from_filename p =
     (case (case file_name p of Some name \<Rightarrow> special_name name | None \<Rightarrow> None) of
        Some l \<Rightarrow> Some l
      | None \<Rightarrow> (case extension p of Some e \<Rightarrow> from_extension e | None \<Rightarrow> None))"

definition is_tier_one :: "Language \<Rightarrow> bool" where
  "is_tier_one l \<longleftrightarrow> l \<in> set
     [LangTypeScript, LangTsx, LangJavaScript, LangJsx, LangPython, LangRust, LangGo, LangJava, LangC, LangCpp,
      LangCSharp, LangRuby, LangPhp, LangBash, LangJson]"

text \<open>
  \<open>tree_sitter_language\<close>, without the grammar: an error names the language. The features are cargo's.
\<close>

definition tree_sitter_language :: "string set \<Rightarrow> Language \<Rightarrow> string + unit" where
  "tree_sitter_language features l =
     (if is_tier_one l then Inr ()
      else if l = LangVue then Inl (lang_as_str l)
      else if lang_as_str l \<in> features then Inr () else Inl (lang_as_str l))"

definition is_enabled :: "string set \<Rightarrow> Language \<Rightarrow> bool" where
  "is_enabled features l \<longleftrightarrow> isl (tree_sitter_language features l) = False"

subsection \<open>Names on the wire\<close>

text \<open>
  The identifiers of the variants and \<open>rename_all = "kebab-case"\<close>: a dash before every capital but the
  first, and lower case.
\<close>

fun variant_ident :: "Language \<Rightarrow> string" where
  "variant_ident LangTypeScript = ''TypeScript''"
| "variant_ident LangTsx = ''Tsx''"
| "variant_ident LangJavaScript = ''JavaScript''"
| "variant_ident LangJsx = ''Jsx''"
| "variant_ident LangPython = ''Python''"
| "variant_ident LangRust = ''Rust''"
| "variant_ident LangGo = ''Go''"
| "variant_ident LangJava = ''Java''"
| "variant_ident LangC = ''C''"
| "variant_ident LangCpp = ''Cpp''"
| "variant_ident LangCSharp = ''CSharp''"
| "variant_ident LangRuby = ''Ruby''"
| "variant_ident LangPhp = ''Php''"
| "variant_ident LangBash = ''Bash''"
| "variant_ident LangJson = ''Json''"
| "variant_ident LangLua = ''Lua''"
| "variant_ident LangToml = ''Toml''"
| "variant_ident LangYaml = ''Yaml''"
| "variant_ident LangMarkdown = ''Markdown''"
| "variant_ident LangSwift = ''Swift''"
| "variant_ident LangKotlin = ''Kotlin''"
| "variant_ident LangScala = ''Scala''"
| "variant_ident LangVue = ''Vue''"
| "variant_ident LangSvelte = ''Svelte''"
| "variant_ident LangSolidity = ''Solidity''"
| "variant_ident LangJulia = ''Julia''"
| "variant_ident LangZig = ''Zig''"
| "variant_ident LangHaskell = ''Haskell''"

definition is_upper :: "char \<Rightarrow> bool" where
  "is_upper c \<longleftrightarrow> 65 \<le> (of_char c :: nat) \<and> (of_char c :: nat) \<le> 90"

definition kebab_case :: "string \<Rightarrow> string" where
  "kebab_case s = concat (map (\<lambda>(i, c). (if 0 < i \<and> is_upper c then ''-'' else []) @ [ascii_lower c]) (zip [0..<length s] s))"

definition lang_wire_name :: "Language \<Rightarrow> string" where
  "lang_wire_name l = kebab_case (variant_ident l)"

definition lang_from_wire :: "string \<Rightarrow> Language option" where
  "lang_from_wire s = List.find (\<lambda>l. lang_wire_name l = s) Language_ALL"

section \<open>The tables agree\<close>

lemma Language_ALL_complete [simp]: "l \<in> set Language_ALL"
  by (cases l) (simp_all add: Language_ALL_def)

lemma wire_names:
  "map lang_wire_name Language_ALL = [''type-script'', ''tsx'', ''java-script'', ''jsx'', ''python'', ''rust'', ''go'', ''java'', ''c'', ''cpp'', ''c-sharp'', ''ruby'', ''php'', ''bash'', ''json'', ''lua'', ''toml'', ''yaml'', ''markdown'', ''swift'', ''kotlin'', ''scala'', ''vue'', ''svelte'', ''solidity'', ''julia'', ''zig'', ''haskell'']"
  by code_simp

text \<open>\<open>lang_from_wire\<close> as a table.\<close>

lemma find_map_of: "List.find (\<lambda>x. f x = y) xs = map_of (map (\<lambda>x. (f x, x)) xs) y"
  by (induction xs) auto

lemma lang_from_wire_code [code]:
  "lang_from_wire s = map_of [(''type-script'', LangTypeScript), (''tsx'', LangTsx), (''java-script'', LangJavaScript), (''jsx'', LangJsx), (''python'', LangPython), (''rust'', LangRust), (''go'', LangGo), (''java'', LangJava), (''c'', LangC), (''cpp'', LangCpp), (''c-sharp'', LangCSharp), (''ruby'', LangRuby), (''php'', LangPhp), (''bash'', LangBash), (''json'', LangJson), (''lua'', LangLua), (''toml'', LangToml), (''yaml'', LangYaml), (''markdown'', LangMarkdown), (''swift'', LangSwift), (''kotlin'', LangKotlin), (''scala'', LangScala), (''vue'', LangVue), (''svelte'', LangSvelte), (''solidity'', LangSolidity), (''julia'', LangJulia), (''zig'', LangZig), (''haskell'', LangHaskell)] s"
proof -
  have "map (\<lambda>l. (lang_wire_name l, l)) Language_ALL = zip (map lang_wire_name Language_ALL) Language_ALL"
    by (simp add: zip_map1 zip_same_conv_map)
  then show ?thesis unfolding lang_from_wire_def find_map_of wire_names by (simp add: Language_ALL_def)
qed

end
