(* ===== verification/Incremental_Parser.thy ===== *)
theory Incremental_Parser
  imports Parser_Languages
begin

text \<open>
  The parser pool (\<open>parsers/src/parser_pool.rs\<close>) and the incremental parser with its cache of trees
  (\<open>parsers/src/incremental.rs\<close>), and the errors of the crate (\<open>parsers/src/error.rs\<close>). The tree-sitter
  runtime, the hash and the LRU cache are arguments.
\<close>

section \<open>Errors\<close>

datatype ParserError =
    LanguageNotEnabled string
  | UnknownLanguage path
  | SetLanguage string string
  | ParseFailed path
  | QueryCompile string string string
  | PeUtf8 nat nat string
  | PeIo path string
  | ChannelClosed
  | NoParserForLanguage string
  | PeInternal string

fun is_retryable :: "ParserError \<Rightarrow> bool" where
  "is_retryable (ParseFailed _) = True"
| "is_retryable ChannelClosed = True"
| "is_retryable (PeIo _ _) = True"
| "is_retryable _ = False"

section \<open>The pool\<close>

text \<open>The number of slots of every language that has a parser.\<close>

record ParserPool =
  pool_inner :: "(Language, nat) hmap"
  workers_per_language :: nat

text \<open>\<open>abi\<close> says whether the runtime accepts the grammar of a language.\<close>

fun pool_slots :: "string set \<Rightarrow> (Language \<Rightarrow> bool) \<Rightarrow> nat \<Rightarrow> Language list \<Rightarrow> (Language, nat) hmap \<Rightarrow> (Language, nat) hmap" where
  "pool_slots features abi n [] inner = inner"
| "pool_slots features abi n (l # ls) inner =
     (case tree_sitter_language features l of
        Inl _ \<Rightarrow> pool_slots features abi n ls inner
      | Inr _ \<Rightarrow> pool_slots features abi n ls (if abi l then hm_insert l n inner else inner))"

text \<open>\<open>assert!(workers_per_language > 0)\<close> panics: no pool.\<close>

definition ParserPool_new :: "string set \<Rightarrow> (Language \<Rightarrow> bool) \<Rightarrow> nat \<Rightarrow> ParserPool option" where
  "ParserPool_new features abi n =
     (if n = 0 then None
      else Some \<lparr>pool_inner = pool_slots features abi n Language_ALL [], workers_per_language = n\<rparr>)"

definition with_default_size :: "string set \<Rightarrow> (Language \<Rightarrow> bool) \<Rightarrow> ParserPool option" where
  "with_default_size features abi = ParserPool_new features abi 4"

text \<open>The slot a caller gets, from which slots are free when it tries them: the first free one, or slot 0.\<close>

definition acquire :: "ParserPool \<Rightarrow> Language \<Rightarrow> (nat \<Rightarrow> bool) \<Rightarrow> ParserError + nat" where
  "acquire pool l free =
     (case hm_get (pool_inner pool) l of
        None \<Rightarrow> Inl (NoParserForLanguage (lang_as_str l))
      | Some n \<Rightarrow> Inr (case List.find free [0..<n] of Some i \<Rightarrow> i | None \<Rightarrow> 0))"

section \<open>Edits\<close>

record Point =
  pt_row :: nat
  pt_column :: nat

record InputEdit =
  start_byte :: nat
  old_end_byte :: nat
  new_end_byte :: nat
  start_position :: Point
  old_end_position :: Point
  new_end_position :: Point

definition common_prefix_len :: "bytes \<Rightarrow> bytes \<Rightarrow> nat" where
  "common_prefix_len a b = length (takeWhile (\<lambda>(x, y). x = y) (zip a b))"

definition common_suffix_len :: "bytes \<Rightarrow> bytes \<Rightarrow> nat" where
  "common_suffix_len a b = length (takeWhile (\<lambda>(x, y). x = y) (zip (rev a) (rev b)))"

fun point_go :: "bytes \<Rightarrow> nat \<Rightarrow> nat \<Rightarrow> Point" where
  "point_go [] row col = \<lparr>pt_row = row, pt_column = col\<rparr>"
| "point_go (b # bs) row col = (if b = 10 then point_go bs (row + 1) 0 else point_go bs row (col + 1))"

definition byte_to_point :: "bytes \<Rightarrow> nat \<Rightarrow> Point" where
  "byte_to_point bs offset = point_go (take offset bs) 0 0"

definition compute_input_edit :: "bytes \<Rightarrow> bytes \<Rightarrow> InputEdit" where
  "compute_input_edit old new =
     (let prefix = common_prefix_len old new;
          suffix = common_suffix_len (drop prefix old) (drop prefix new);
          old_end = length old - suffix;
          new_end = length new - suffix
      in \<lparr>start_byte = prefix, old_end_byte = old_end, new_end_byte = new_end,
          start_position = byte_to_point old prefix, old_end_position = byte_to_point old old_end,
          new_end_position = byte_to_point new new_end\<rparr>)"

section \<open>The cache of trees\<close>

record 'tree CachedTree =
  ct_tree :: 'tree
  ct_bytes :: bytes
  ct_hash :: bytes

record 'tree IncrementalParse =
  ip_tree :: 'tree
  ip_incremental :: bool
  ip_unchanged :: bool

text \<open>What is used of tree-sitter, of the cache and of the hash.\<close>

record 'tree tree_sitter =
  ts_parse :: "Language \<Rightarrow> bytes \<Rightarrow> 'tree option \<Rightarrow> 'tree option"
  ts_edit :: "InputEdit \<Rightarrow> 'tree \<Rightarrow> 'tree"

record ('c, 'tree) lru =
  lru_get :: "path \<Rightarrow> 'c \<Rightarrow> 'tree CachedTree option \<times> 'c"
  lru_put :: "path \<Rightarrow> 'tree CachedTree \<Rightarrow> 'c \<Rightarrow> 'c"
  lru_pop :: "path \<Rightarrow> 'c \<Rightarrow> 'c"

text \<open>
  The part of \<open>parse_file\<close> between its two critical sections: from the entry it read to the result and
  the entry it stores.
\<close>

definition parse_from ::
  "'tree tree_sitter \<Rightarrow> (bytes \<Rightarrow> bytes) \<Rightarrow> ParserPool \<Rightarrow> path \<Rightarrow> Language \<Rightarrow> bytes \<Rightarrow> 'tree CachedTree option \<Rightarrow>
   (ParserError + 'tree IncrementalParse) \<times> 'tree CachedTree option" where
  "parse_from ts blake pool path lang bs cached =
     (let new_hash = blake bs in
      case (case cached of Some c \<Rightarrow> if ct_hash c = new_hash then Some c else None | None \<Rightarrow> None) of
        Some c \<Rightarrow> (Inr \<lparr>ip_tree = ct_tree c, ip_incremental = True, ip_unchanged = True\<rparr>, None)
      | None \<Rightarrow>
          (case acquire pool lang (\<lambda>_. True) of
             Inl e \<Rightarrow> (Inl e, None)
           | Inr _ \<Rightarrow>
               (let prepared = map_option (\<lambda>c. ts_edit ts (compute_input_edit (ct_bytes c) bs) (ct_tree c)) cached in
                case ts_parse ts lang bs prepared of
                  None \<Rightarrow> (Inl (ParseFailed path), None)
                | Some t \<Rightarrow>
                    (Inr \<lparr>ip_tree = t, ip_incremental = (prepared \<noteq> None), ip_unchanged = False\<rparr>,
                     Some \<lparr>ct_tree = t, ct_bytes = bs, ct_hash = new_hash\<rparr>))))"

definition parse_file ::
  "('c, 'tree) lru \<Rightarrow> 'tree tree_sitter \<Rightarrow> (bytes \<Rightarrow> bytes) \<Rightarrow> ParserPool \<Rightarrow> path \<Rightarrow> Language \<Rightarrow> bytes \<Rightarrow> 'c \<Rightarrow>
   (ParserError + 'tree IncrementalParse) \<times> 'c" where
  "parse_file L ts blake pool path lang bs c =
     (case lru_get L path c of
        (cached, c1) \<Rightarrow>
          (case parse_from ts blake pool path lang bs cached of
             (res, entry) \<Rightarrow> (res, case entry of Some e \<Rightarrow> lru_put L path e c1 | None \<Rightarrow> c1)))"

definition forget :: "('c, 'tree) lru \<Rightarrow> path \<Rightarrow> 'c \<Rightarrow> 'c" where
  "forget L path c = lru_pop L path c"

section \<open>The edit describes the change\<close>

lemma common_prefix:
  "take (common_prefix_len a b) a = take (common_prefix_len a b) b"
  "common_prefix_len a b \<le> length a" "common_prefix_len a b \<le> length b"
  "common_prefix_len a b < length a \<Longrightarrow> common_prefix_len a b < length b \<Longrightarrow>
     a ! common_prefix_len a b \<noteq> b ! common_prefix_len a b"
  by (induction a b rule: list_induct2', auto simp: common_prefix_len_def)

lemma common_suffix_prefix: "common_suffix_len a b = common_prefix_len (rev a) (rev b)"
  by (simp add: common_suffix_len_def common_prefix_len_def)

lemma common_suffix:
  "drop (length a - common_suffix_len a b) a = drop (length b - common_suffix_len a b) b"
  "common_suffix_len a b \<le> length a" "common_suffix_len a b \<le> length b"
  using common_prefix(1)[of "rev a" "rev b"] common_prefix(2,3)[of "rev a" "rev b"]
  by (simp_all add: common_suffix_prefix take_rev)

text \<open>The row is the number of newlines before the offset, the column the distance to the last one.\<close>

lemma point_go_spec:
  "point_go bs row col =
     \<lparr>pt_row = row + length (filter (\<lambda>b. b = 10) bs),
      pt_column = (if 10 \<in> set bs then length (takeWhile (\<lambda>b. b \<noteq> 10) (rev bs)) else col + length bs)\<rparr>"
proof (induction bs arbitrary: row col)
  case (Cons b bs)
  have "length (takeWhile (\<lambda>b. b \<noteq> 10) (rev bs @ [10])) = length bs" if "10 \<notin> set bs" for bs :: bytes
    using that by (subst takeWhile_append2) auto
  with Cons show ?case by (auto simp: takeWhile_append1)
qed simp

definition describes_edit :: "InputEdit \<Rightarrow> bytes \<Rightarrow> bytes \<Rightarrow> bool" where
  "describes_edit e old new \<longleftrightarrow>
     start_byte e \<le> old_end_byte e \<and> old_end_byte e \<le> length old \<and>
     start_byte e \<le> new_end_byte e \<and> new_end_byte e \<le> length new \<and>
     take (start_byte e) new = take (start_byte e) old \<and> drop (new_end_byte e) new = drop (old_end_byte e) old \<and>
     start_position e = byte_to_point old (start_byte e) \<and> old_end_position e = byte_to_point old (old_end_byte e) \<and>
     new_end_position e = byte_to_point new (new_end_byte e)"

lemma compute_input_edit_describes: "describes_edit (compute_input_edit old new) old new"
proof -
  let ?p = "common_prefix_len old new"
  let ?s = "common_suffix_len (drop ?p old) (drop ?p new)"
  have len: "?s \<le> length old - ?p" "?s \<le> length new - ?p" "?p \<le> length old" "?p \<le> length new"
    using common_suffix(2,3)[of "drop ?p old" "drop ?p new"] common_prefix(2,3)[of old new] by simp_all
  have "drop (length new - ?s) new = drop (length old - ?s) old"
    using common_suffix(1)[of "drop ?p old" "drop ?p new"] len by (simp add: add.commute)
  with len common_prefix(1)[of old new] show ?thesis
    by (auto simp: describes_edit_def compute_input_edit_def Let_def)
qed

text \<open>
  The edit handed to tree-sitter is exact. Replacing the bytes from \<open>start_byte\<close> to \<open>old_end_byte\<close> of
  the old text by those from \<open>start_byte\<close> to \<open>new_end_byte\<close> of the new one gives the new text; all offsets
  are in range; the replaced parts cannot be shortened at the front; and the positions are the row and
  column of the offsets, counted in newlines and in bytes since the last newline.
\<close>

theorem input_edit_exact:
  "let e = compute_input_edit old new in
     new = take (start_byte e) old @ drop (start_byte e) (take (new_end_byte e) new) @ drop (old_end_byte e) old \<and>
     start_byte e \<le> old_end_byte e \<and> old_end_byte e \<le> length old \<and> start_byte e \<le> new_end_byte e \<and> new_end_byte e \<le> length new \<and>
     (start_byte e < old_end_byte e \<and> start_byte e < new_end_byte e \<longrightarrow> old ! start_byte e \<noteq> new ! start_byte e) \<and>
     (old = new \<longleftrightarrow> start_byte e = old_end_byte e \<and> start_byte e = new_end_byte e) \<and>
     pt_row (new_end_position e) = length (filter (\<lambda>b. b = 10) (take (new_end_byte e) new)) \<and>
     pt_column (new_end_position e) = length (takeWhile (\<lambda>b. b \<noteq> 10) (rev (take (new_end_byte e) new)))"
proof -
  define e where "e = compute_input_edit old new"
  have d: "describes_edit e old new" unfolding e_def by (rule compute_input_edit_describes)
  have start: "start_byte e = common_prefix_len old new" by (simp add: e_def compute_input_edit_def Let_def)
  have pos: "new_end_position e = byte_to_point new (new_end_byte e)" using d by (simp add: describes_edit_def)
  have split: "new = take (start_byte e) old @ drop (start_byte e) (take (new_end_byte e) new) @ drop (old_end_byte e) old"
    using d unfolding describes_edit_def
    by (metis append.assoc append_take_drop_id min.absorb1 take_take)
  have "old ! start_byte e \<noteq> new ! start_byte e" if "start_byte e < old_end_byte e" "start_byte e < new_end_byte e"
    using common_prefix(4)[of old new] that d start by (simp add: describes_edit_def)
  moreover have "old = new \<longleftrightarrow> start_byte e = old_end_byte e \<and> start_byte e = new_end_byte e"
  proof
    assume "old = new"
    then have "common_prefix_len old new = length old"
      using common_prefix(2,4)[of old old] by (metis nat_less_le)
    with \<open>old = new\<close> start d show "start_byte e = old_end_byte e \<and> start_byte e = new_end_byte e"
      by (simp add: describes_edit_def)
  next
    assume a: "start_byte e = old_end_byte e \<and> start_byte e = new_end_byte e"
    then have "drop (start_byte e) (take (new_end_byte e) new) = []" by (simp add: drop_take)
    then show "old = new" using split a by (metis append_Nil append_take_drop_id)
  qed
  moreover have "length (takeWhile (\<lambda>b. b \<noteq> 10) (rev xs)) = length xs" if "10 \<notin> set xs" for xs :: bytes
    using that by (subst takeWhile_eq_all_conv[THEN iffD2]) auto
  then have "pt_column (byte_to_point new n) = length (takeWhile (\<lambda>b. b \<noteq> 10) (rev (take n new)))" for n
    by (simp add: byte_to_point_def point_go_spec)
  ultimately show ?thesis
    using split d unfolding Let_def e_def[symmetric] describes_edit_def
    by (simp add: pos byte_to_point_def point_go_spec)
qed

theorem input_edit_exact_witness:
  "start_byte (compute_input_edit [97, 98, 10, 99] [97, 120, 121, 10, 99]) = 1 \<and>
   [97, 98, 10, 99 :: 8 word] ! 1 \<noteq> [97, 120, 121, 10, 99] ! 1"
proof -
  have e: "compute_input_edit [97, 98, 10, 99] [97, 120, 121, 10, 99] =
      \<lparr>start_byte = 1, old_end_byte = 2, new_end_byte = 3, start_position = \<lparr>pt_row = 0, pt_column = 1\<rparr>,
       old_end_position = \<lparr>pt_row = 0, pt_column = 2\<rparr>, new_end_position = \<lparr>pt_row = 0, pt_column = 3\<rparr>\<rparr>"
    by code_simp
  show ?thesis using input_edit_exact[of "[97, 98, 10, 99]" "[97, 120, 121, 10, 99]"] unfolding Let_def e by simp
qed

section \<open>The cache never serves a stale tree\<close>

text \<open>
  What is relied on. The content of the cache is what was put, less what was evicted or popped; reparsing
  with an edited old tree gives the tree of a fresh parse whenever the edit describes the change.
\<close>

definition lru_spec :: "('c, 'tree) lru \<Rightarrow> ('c \<Rightarrow> path \<Rightarrow> 'tree CachedTree option) \<Rightarrow> bool" where
  "lru_spec L content \<longleftrightarrow>
     (\<forall>c p. fst (lru_get L p c) = content c p \<and> content (snd (lru_get L p c)) = content c) \<and>
     (\<forall>c p e. content (lru_put L p e c) \<subseteq>\<^sub>m (content c)(p \<mapsto> e) \<and> content (lru_put L p e c) p = Some e) \<and>
     (\<forall>c p. content (lru_pop L p c) = (content c)(p := None))"

definition reparse_sound :: "'tree tree_sitter \<Rightarrow> bool" where
  "reparse_sound ts \<longleftrightarrow>
     (\<forall>l old new t e. ts_parse ts l old None = Some t \<longrightarrow> describes_edit e old new \<longrightarrow>
        ts_parse ts l new (Some (ts_edit ts e t)) = ts_parse ts l new None)"

definition entry_ok :: "'tree tree_sitter \<Rightarrow> (bytes \<Rightarrow> bytes) \<Rightarrow> Language \<Rightarrow> 'tree CachedTree \<Rightarrow> bool" where
  "entry_ok ts blake l e \<longleftrightarrow> ct_hash e = blake (ct_bytes e) \<and> ts_parse ts l (ct_bytes e) None = Some (ct_tree e)"

definition cache_inv ::
  "('c \<Rightarrow> path \<Rightarrow> 'tree CachedTree option) \<Rightarrow> 'tree tree_sitter \<Rightarrow> (bytes \<Rightarrow> bytes) \<Rightarrow> (path \<Rightarrow> Language) \<Rightarrow> 'c \<Rightarrow> bool" where
  "cache_inv content ts blake lang_of c \<longleftrightarrow> (\<forall>p e. content c p = Some e \<longrightarrow> entry_ok ts blake (lang_of p) e)"

text \<open>The hash tells the given bytes from the cached ones, if there are any.\<close>

definition no_collision :: "(bytes \<Rightarrow> bytes) \<Rightarrow> 'tree CachedTree option \<Rightarrow> bytes \<Rightarrow> bool" where
  "no_collision blake cached bs \<longleftrightarrow>
     (case cached of None \<Rightarrow> True | Some e \<Rightarrow> blake (ct_bytes e) = blake bs \<longrightarrow> ct_bytes e = bs)"

lemma parse_from_fresh:
  assumes "reparse_sound ts"
    and "\<And>c. cached = Some c \<Longrightarrow> entry_ok ts blake lang c"
    and "parse_from ts blake pool path lang bs cached = (res, entry)"
  shows "(\<forall>e. entry = Some e \<longrightarrow> entry_ok ts blake lang e) \<and>
    (\<forall>r. no_collision blake cached bs \<longrightarrow> res = Inr r \<longrightarrow> ts_parse ts lang bs None = Some (ip_tree r) \<and> (ip_unchanged r \<longleftrightarrow> entry = None) \<and>
      (ip_unchanged r \<longleftrightarrow> (\<exists>c. cached = Some c \<and> ct_bytes c = bs)))"
proof -
  have fresh: "ts_parse ts lang bs (map_option (\<lambda>c. ts_edit ts (compute_input_edit (ct_bytes c) bs) (ct_tree c)) cached) =
      ts_parse ts lang bs None"
    using assms(1,2) compute_input_edit_describes unfolding reparse_sound_def entry_ok_def by (cases cached) (simp, fastforce)
  have same: "ct_hash c = blake bs \<longleftrightarrow> ct_bytes c = bs" if "cached = Some c" "no_collision blake cached bs" for c
    using assms(2)[OF that(1)] that by (auto simp: entry_ok_def no_collision_def)
  show ?thesis
    using assms(2,3) same fresh
    by (auto simp: parse_from_def entry_ok_def Let_def split: option.splits sum.splits if_splits)
qed

lemma parse_file_step:
  assumes "lru_spec L content" and "reparse_sound ts"
    and "cache_inv content ts blake lang_of c" and "parse_file L ts blake pool p (lang_of p) bs c = (res, c')"
  shows "cache_inv content ts blake lang_of c' \<and>
    (\<forall>r. no_collision blake (content c p) bs \<longrightarrow> res = Inr r \<longrightarrow> ts_parse ts (lang_of p) bs None = Some (ip_tree r) \<and>
      (\<exists>e. content c' p = Some e \<and> ct_bytes e = bs) \<and>
      (ip_unchanged r \<longleftrightarrow> (\<exists>e. content c p = Some e \<and> ct_bytes e = bs)))"
proof -
  obtain c1 where g: "lru_get L p c = (content c p, c1)" and c1: "content c1 = content c"
    using assms(1) unfolding lru_spec_def by (metis prod.collapse)
  obtain entry where pf: "parse_from ts blake pool p (lang_of p) bs (content c p) = (res, entry)"
    and c': "c' = (case entry of Some e \<Rightarrow> lru_put L p e c1 | None \<Rightarrow> c1)"
    using assms(4) g by (auto simp: parse_file_def split: prod.splits)
  have ok: "entry_ok ts blake (lang_of p) e" if "content c p = Some e" for e
    using assms(3) that by (simp add: cache_inv_def)
  note f = parse_from_fresh[OF assms(2) ok pf]
  have stored: "ct_bytes e = bs" if "entry = Some e" for e
    using pf that by (auto simp: parse_from_def Let_def split: option.splits sum.splits if_splits)
  have put: "content c' \<subseteq>\<^sub>m (content c)(p \<mapsto> e)" "content c' p = Some e" if "entry = Some e" for e
    using assms(1) that unfolding lru_spec_def c' c1[symmetric] by simp_all
  have "entry_ok ts blake (lang_of q) e'" if "content c' q = Some e'" for q e'
  proof (cases entry)
    case None
    then show ?thesis using that c' c1 assms(3) by (simp add: cache_inv_def)
  next
    case (Some e)
    then have "((content c)(p \<mapsto> e)) q = Some e'" using put(1) that by (metis domI map_le_def)
    then show ?thesis using f Some assms(3) by (auto simp: cache_inv_def split: if_splits)
  qed
  moreover have "\<exists>e. content c' p = Some e \<and> ct_bytes e = bs" if "res = Inr r" "no_collision blake (content c p) bs" for r
  proof (cases entry)
    case None
    with f that obtain e where "content c p = Some e" "ct_bytes e = bs" by blast
    with None c' c1 show ?thesis by simp
  next
    case (Some e)
    with put(2) stored show ?thesis by blast
  qed
  ultimately show ?thesis using f by (auto simp: cache_inv_def)
qed

text \<open>A history of calls on one parser, and files forgotten in between.\<close>

datatype parser_call = Reparse path bytes | Forget path

fun parser_run ::
  "('c, 'tree) lru \<Rightarrow> 'tree tree_sitter \<Rightarrow> (bytes \<Rightarrow> bytes) \<Rightarrow> ParserPool \<Rightarrow> (path \<Rightarrow> Language) \<Rightarrow> parser_call list \<Rightarrow> 'c \<Rightarrow> 'c" where
  "parser_run L ts blake pool lang_of [] c = c"
| "parser_run L ts blake pool lang_of (Reparse p bs # calls) c =
     parser_run L ts blake pool lang_of calls (snd (parse_file L ts blake pool p (lang_of p) bs c))"
| "parser_run L ts blake pool lang_of (Forget p # calls) c = parser_run L ts blake pool lang_of calls (forget L p c)"

lemma parser_run_inv:
  assumes "lru_spec L content" and "reparse_sound ts" and "cache_inv content ts blake lang_of c"
  shows "cache_inv content ts blake lang_of (parser_run L ts blake pool lang_of calls c)"
  using assms(3)
proof (induction calls arbitrary: c)
  case (Cons call calls)
  show ?case
  proof (cases call)
    case (Reparse p bs)
    have "cache_inv content ts blake lang_of (snd (parse_file L ts blake pool p (lang_of p) bs c))"
      using parse_file_step[OF assms(1,2) Cons.prems, of pool p bs] by (metis prod.collapse)
    then show ?thesis using Cons.IH Reparse by simp
  next
    case (Forget p)
    have "content (lru_pop L p c) = (content c)(p := None)" using assms(1) by (simp add: lru_spec_def)
    then have "cache_inv content ts blake lang_of (forget L p c)" using Cons.prems by (simp add: cache_inv_def forget_def)
    then show ?thesis using Cons.IH Forget by simp
  qed
qed simp

text \<open>
  C19: incremental parsing is invisible. After any history of parses, evictions and forgotten files on an
  initially empty cache, as long as a path is always parsed as the same language, a parse that returns
  returns the tree a fresh parse of the same bytes would give; it says \<open>unchanged\<close> exactly when the
  cached bytes of that path are the given ones, and leaves those bytes cached. The hash is not assumed to be free of
  collisions: what is needed is that it tells the given bytes from the ones cached for that path at this call,
  whatever it did to the contents before.
\<close>

theorem parse_file_fresh:
  assumes "lru_spec L content" and "reparse_sound ts" and "no_collision blake (content c p) bs"
    and "content c0 = Map.empty" and "c = parser_run L ts blake pool lang_of calls c0"
    and "parse_file L ts blake pool p (lang_of p) bs c = (Inr r, c')"
  shows "ts_parse ts (lang_of p) bs None = Some (ip_tree r) \<and>
    (ip_unchanged r \<longleftrightarrow> (\<exists>e. content c p = Some e \<and> ct_bytes e = bs)) \<and> (\<exists>e. content c' p = Some e \<and> ct_bytes e = bs)"
proof -
  have "cache_inv content ts blake lang_of c0" using assms(4) by (simp add: cache_inv_def)
  then have "cache_inv content ts blake lang_of c" unfolding assms(5) by (rule parser_run_inv[OF assms(1,2)])
  from parse_file_step[OF assms(1,2) this assms(6)] assms(3) show ?thesis by blast
qed

text \<open>
  The language of a cached tree is not checked. A file parsed as one language and then, with the same
  bytes, as another gets the tree of the first language back, reported as unchanged.
\<close>

theorem reclassified_file_keeps_tree:
  assumes "lru_spec L content" and "parse_file L ts blake pool p l1 bs c = (Inr r, c')" and "\<not> ip_unchanged r"
  shows "\<exists>c''. parse_file L ts blake pool p l2 bs c' =
    (Inr \<lparr>ip_tree = ip_tree r, ip_incremental = True, ip_unchanged = True\<rparr>, c'')"
proof -
  obtain cached c1 where g: "lru_get L p c = (cached, c1)" by force
  have "parse_from ts blake pool p l1 bs cached = (Inr r, Some \<lparr>ct_tree = ip_tree r, ct_bytes = bs, ct_hash = blake bs\<rparr>)"
    using assms(2,3) g
    by (auto simp: parse_file_def parse_from_def Let_def split: prod.splits option.splits sum.splits if_splits)
  then have "content c' p = Some \<lparr>ct_tree = ip_tree r, ct_bytes = bs, ct_hash = blake bs\<rparr>"
    using assms(1,2) g by (auto simp: parse_file_def lru_spec_def)
  moreover obtain c2 where "lru_get L p c' = (content c' p, c2)"
    using assms(1) unfolding lru_spec_def by (metis prod.collapse)
  ultimately show ?thesis by (simp add: parse_file_def parse_from_def)
qed

section \<open>A cache of two files\<close>

text \<open>Most recent first, the oldest entry dropped; trees are the language and the bytes.\<close>

definition demo_lru :: "((path \<times> (Language \<times> bytes) CachedTree) list, Language \<times> bytes) lru" where
  "demo_lru = \<lparr>lru_get = (\<lambda>p c. (map_of c p, c)),
     lru_put = (\<lambda>p e c. take 2 ((p, e) # filter (\<lambda>(q, _). q \<noteq> p) c)),
     lru_pop = (\<lambda>p c. filter (\<lambda>(q, _). q \<noteq> p) c)\<rparr>"

definition demo_ts :: "(Language \<times> bytes) tree_sitter" where
  "demo_ts = \<lparr>ts_parse = (\<lambda>l bs old. Some (l, bs)), ts_edit = (\<lambda>e t. t)\<rparr>"

definition demo_parsers :: ParserPool where
  "demo_parsers = \<lparr>pool_inner = [(LangRust, 4), (LangPython, 4)], workers_per_language = 4\<rparr>"

lemma map_of_take_le: "map_of (take n xs) p = Some e \<Longrightarrow> map_of xs p = Some e"
  by (induction xs arbitrary: n) (auto simp: take_Cons' split: if_splits)

lemma demo_lru_spec: "lru_spec demo_lru map_of"
proof -
  have f: "map_of (filter (\<lambda>(q, _). q \<noteq> p) c) = (map_of c)(p := None)" for c :: "(path \<times> (Language \<times> bytes) CachedTree) list" and p
    by (induction c) (auto simp: fun_eq_iff)
  have "map_of (take 2 ((p, e) # filter (\<lambda>(q, _). q \<noteq> p) c)) \<subseteq>\<^sub>m (map_of c)(p \<mapsto> e)" for c :: "(path \<times> (Language \<times> bytes) CachedTree) list" and p e
  proof -
    have "map_of c q = Some y" if "map_of (take 1 (filter (\<lambda>(q, _). q \<noteq> p) c)) q = Some y" for q y
      using map_of_take_le[OF that] by (simp add: f split: if_splits)
    then show ?thesis by (auto simp: map_le_def numeral_2_eq_2)
  qed
  with f show ?thesis by (simp add: lru_spec_def demo_lru_def numeral_2_eq_2)
qed

lemma demo_ts_sound: "reparse_sound demo_ts"
  by (simp add: reparse_sound_def demo_ts_def)

text \<open>A digest of 32 bytes, with collisions.\<close>

definition demo_blake :: "bytes \<Rightarrow> bytes" where
  "demo_blake bs = take 32 (bs @ replicate 32 0)"

theorem parse_file_fresh_witness:
  "ts_parse demo_ts LangRust [1, 2] None = Some (LangRust, [1, 2]) \<and> demo_blake [1, 0] = demo_blake [1] \<and>
   fst (parse_file demo_lru demo_ts demo_blake demo_parsers ''a.rs'' LangRust [1, 2]
     (parser_run demo_lru demo_ts demo_blake demo_parsers (\<lambda>_. LangRust)
       [Reparse ''a.rs'' [1], Reparse ''a.rs'' [1, 0], Forget ''b.rs''] [])) =
   Inr \<lparr>ip_tree = (LangRust, [1, 2]), ip_incremental = True, ip_unchanged = False\<rparr>"
proof -
  let ?c = "parser_run demo_lru demo_ts demo_blake demo_parsers (\<lambda>_. LangRust)
    [Reparse ''a.rs'' [1], Reparse ''a.rs'' [1, 0], Forget ''b.rs''] []"
  let ?r = "\<lparr>ip_tree = (LangRust, [1, 2]), ip_incremental = True, ip_unchanged = False\<rparr>"
  have p: "fst (parse_file demo_lru demo_ts demo_blake demo_parsers ''a.rs'' LangRust [1, 2] ?c) = Inr ?r"
    by code_simp
  then obtain c' where c': "parse_file demo_lru demo_ts demo_blake demo_parsers ''a.rs'' LangRust [1, 2] ?c = (Inr ?r, c')"
    by (metis prod.collapse)
  have n: "no_collision demo_blake (map_of ?c ''a.rs'') [1, 2]" by code_simp
  have "demo_blake [1, 0] = demo_blake [1]" by code_simp
  with parse_file_fresh[OF demo_lru_spec demo_ts_sound n _ refl c'] p show ?thesis by simp
qed

theorem reclassified_file_keeps_tree_witness:
  "\<exists>c''. parse_file demo_lru demo_ts id demo_parsers ''a'' LangPython [1]
     (snd (parse_file demo_lru demo_ts id demo_parsers ''a'' LangRust [1] [])) =
   (Inr \<lparr>ip_tree = (LangRust, [1]), ip_incremental = True, ip_unchanged = True\<rparr>, c'')"
proof -
  let ?r = "\<lparr>ip_tree = (LangRust, [1 :: 8 word]), ip_incremental = False, ip_unchanged = False\<rparr>"
  have "fst (parse_file demo_lru demo_ts id demo_parsers ''a'' LangRust [1] []) = Inr ?r"
    by code_simp
  then have "parse_file demo_lru demo_ts id demo_parsers ''a'' LangRust [1] [] =
      (Inr ?r, snd (parse_file demo_lru demo_ts id demo_parsers ''a'' LangRust [1] []))" by (metis prod.collapse)
  from reclassified_file_keeps_tree[OF demo_lru_spec this, of LangPython] show ?thesis by simp
qed

end
