(* ===== verification/Parser_Worker.thy ===== *)
theory Parser_Worker
  imports Incremental_Parser
begin

text \<open>
  The parse worker process (\<open>parsers/src/main.rs\<close>, \<open>parsers/src/worker.rs\<close>, \<open>parsers/src/job.rs\<close>): decoding the
  job lines the supervisor writes to its stdin, handing them to its tasks, parsing, and reporting back.
  The extractor, the JSON text format and the clock are arguments.
\<close>

section \<open>Jobs and results\<close>

datatype Confidence = Extracted | Inferred | Ambiguous

datatype NodeKind =
    NkFunction | NkMethod | NkClass | NkStruct | NkTrait | NkInterface | NkEnum | NkModule | NkVariable | NkConstant
  | NkDecorator | NkComment | NkImport | NkFile

record Node =
  n_id :: string
  n_kind :: NodeKind
  n_name :: string
  n_file :: path
  n_byte_range :: "nat \<times> nat"
  n_line_range :: "nat \<times> nat"
  n_language :: Language
  n_confidence :: Confidence

datatype EdgeKind = EkCalls | EkInherits | EkImplements | EkDecoratedBy | EkImports | EkContains | EkGeneric

record Edge =
  e_from :: string
  e_to :: string
  e_kind :: EdgeKind
  e_confidence :: Confidence
  e_unresolved_target :: "string option"

datatype SyntaxIssueKind = IssueError | IssueMissing

record SyntaxIssue =
  si_kind :: SyntaxIssueKind
  si_byte_range :: "nat \<times> nat"
  si_line_range :: "nat \<times> nat"
  si_hint :: string

record ParseJob =
  pj_file_path :: path
  pj_language :: Language
  pj_content :: bytes
  pj_prev_tree_id :: "u64 option"
  pj_content_hash :: "bytes option"
  pj_job_id :: u64

record ParseResult =
  pr_job_id :: u64
  pr_file_path :: path
  pr_language :: Language
  pr_nodes :: "Node list"
  pr_edges :: "Edge list"
  pr_syntax_errors :: "SyntaxIssue list"
  pr_parse_duration_ms :: u64
  pr_incremental :: bool

definition ParseResult_unchanged :: "ParseJob \<Rightarrow> ParseResult" where
  "ParseResult_unchanged job =
     \<lparr>pr_job_id = pj_job_id job, pr_file_path = pj_file_path job, pr_language = pj_language job, pr_nodes = [],
      pr_edges = [], pr_syntax_errors = [], pr_parse_duration_ms = 0, pr_incremental = True\<rparr>"

section \<open>Stdin\<close>

record JobWire =
  jw_file_path :: path
  jw_language :: Language
  jw_content :: string
  jw_prev_tree_id :: "u64 option"
  jw_job_id :: u64

text \<open>The derived \<open>Deserialize\<close> of \<open>u64\<close>, of \<open>Option<u64>\<close> and of the struct; unknown fields are ignored.\<close>

fun u64_of_json :: "json \<Rightarrow> u64 option" where
  "u64_of_json (JNum i) = (if 0 \<le> i \<and> i < 2 ^ 64 then Some (of_int i) else None)"
| "u64_of_json _ = None"

definition opt_u64_of_json :: "json option \<Rightarrow> u64 option option" where
  "opt_u64_of_json j =
     (case j of
        None \<Rightarrow> Some None
      | Some JNull \<Rightarrow> Some None
      | Some v \<Rightarrow> (case u64_of_json v of Some n \<Rightarrow> Some (Some n) | None \<Rightarrow> None))"

definition JobWire_of_json :: "json \<Rightarrow> JobWire option" where
  "JobWire_of_json j =
     (case (case json_get j ''file_path'' of Some v \<Rightarrow> as_str v | None \<Rightarrow> None) of
        None \<Rightarrow> None
      | Some f \<Rightarrow>
     (case (case json_get j ''language'' of Some v \<Rightarrow> as_str v | None \<Rightarrow> None) of
        None \<Rightarrow> None
      | Some ls \<Rightarrow>
     (case lang_from_wire ls of
        None \<Rightarrow> None
      | Some l \<Rightarrow>
     (case (case json_get j ''content'' of Some v \<Rightarrow> as_str v | None \<Rightarrow> None) of
        None \<Rightarrow> None
      | Some c \<Rightarrow>
     (case opt_u64_of_json (json_get j ''prev_tree_id'') of
        None \<Rightarrow> None
      | Some prev \<Rightarrow>
     (case (case json_get j ''job_id'' of Some v \<Rightarrow> u64_of_json v | None \<Rightarrow> Some 0) of
        None \<Rightarrow> None
      | Some jid \<Rightarrow>
          Some \<lparr>jw_file_path = f, jw_language = l, jw_content = c, jw_prev_tree_id = prev, jw_job_id = jid\<rparr>))))))"

definition string_bytes :: "string \<Rightarrow> bytes" where
  "string_bytes s = map of_char s"

definition into_job :: "JobWire \<Rightarrow> ParseJob" where
  "into_job w =
     \<lparr>pj_file_path = jw_file_path w, pj_language = jw_language w, pj_content = string_bytes (jw_content w),
      pj_prev_tree_id = jw_prev_tree_id w, pj_content_hash = None, pj_job_id = jw_job_id w\<rparr>"

text \<open>One line: blank and undecodable lines are dropped. \<open>parse\<close> reads JSON text.\<close>

definition job_of_line :: "(string \<Rightarrow> json option) \<Rightarrow> string \<Rightarrow> ParseJob option" where
  "job_of_line parse line =
     (if trim line = [] then None
      else case parse line of
        None \<Rightarrow> None
      | Some j \<Rightarrow> map_option into_job (JobWire_of_json j))"

text \<open>The loop: decoded jobs go round the tasks. A task whose queue is closed loses its job.\<close>

fun read_lines ::
  "(string \<Rightarrow> json option) \<Rightarrow> (nat \<Rightarrow> bool) \<Rightarrow> string list \<Rightarrow> nat \<Rightarrow> ParseJob list list \<Rightarrow> nat \<times> ParseJob list list" where
  "read_lines parse closed [] next qs = (next, qs)"
| "read_lines parse closed (line # lines) next qs =
     (case job_of_line parse line of
        None \<Rightarrow> read_lines parse closed lines next qs
      | Some job \<Rightarrow>
          (let target = next mod length qs;
               qs' = (if closed target then qs else qs[target := qs ! target @ [job]])
           in read_lines parse closed lines ((next + 1) mod 2 ^ 64) qs'))"

section \<open>Parsing and reporting\<close>

record extracted =
  ex_nodes :: "Node list"
  ex_edges :: "Edge list"
  ex_issues :: "SyntaxIssue list"

definition worker_handle ::
  "('c, 'tree) lru \<Rightarrow> 'tree tree_sitter \<Rightarrow> (bytes \<Rightarrow> bytes) \<Rightarrow> ParserPool \<Rightarrow>
   (Language \<Rightarrow> 'tree \<Rightarrow> bytes \<Rightarrow> path \<Rightarrow> ParserError + extracted) \<Rightarrow> u64 \<Rightarrow> ParseJob \<Rightarrow> 'c \<Rightarrow>
   (ParserError + ParseResult) \<times> 'c" where
  "worker_handle L ts blake pool extract dur job c =
     (case parse_file L ts blake pool (pj_file_path job) (pj_language job) (pj_content job) c of
        (Inl e, c') \<Rightarrow> (Inl e, c')
      | (Inr parse, c') \<Rightarrow>
          if ip_unchanged parse then (Inr (ParseResult_unchanged job), c')
          else (case extract (pj_language job) (ip_tree parse) (pj_content job) (pj_file_path job) of
                  Inl e \<Rightarrow> (Inl e, c')
                | Inr ex \<Rightarrow>
                    (Inr \<lparr>pr_job_id = pj_job_id job, pr_file_path = pj_file_path job, pr_language = pj_language job,
                          pr_nodes = ex_nodes ex, pr_edges = ex_edges ex, pr_syntax_errors = ex_issues ex,
                          pr_parse_duration_ms = dur, pr_incremental = ip_incremental parse\<rparr>, c')))"

text \<open>The telemetry of a result. \<open>show_error\<close> is the \<open>Display\<close> of the error.\<close>

definition result_outcome :: "(ParserError \<Rightarrow> string) \<Rightarrow> ParserError + ParseResult \<Rightarrow> u64 \<times> JobOutcome" where
  "result_outcome show_error res =
     (case res of
        Inr r \<Rightarrow>
          (pr_job_id r,
           OutcomeOk
             (Some (JObj [(''file_path'', JStr (pr_file_path r)), (''language'', JStr (lang_wire_name (pr_language r))),
                (''nodes_len'', JNum (int (length (pr_nodes r)))), (''edges_len'', JNum (int (length (pr_edges r)))),
                (''syntax_errors_len'', JNum (int (length (pr_syntax_errors r)))), (''incremental'', JBool (pr_incremental r))]))
             (pr_parse_duration_ms r)
             (JObj [(''nodes'', JNum (int (length (pr_nodes r)))), (''edges'', JNum (int (length (pr_edges r)))),
                (''syntax_errors'', JNum (int (length (pr_syntax_errors r)))), (''incremental'', JBool (pr_incremental r))]))
      | Inl e \<Rightarrow> (0, OutcomeErr (show_error e) 0 JNull))"

text \<open>The report sent to the supervisor, if any.\<close>

definition completion_report :: "(ParserError \<Rightarrow> string) \<Rightarrow> ParserError + ParseResult \<Rightarrow> (JobId \<times> JobOutcome) option" where
  "completion_report show_error res =
     (case result_outcome show_error res of (jid, outcome) \<Rightarrow> if jid \<noteq> 0 then Some (jid, outcome) else None)"

section \<open>From the router's line to the job\<close>

lemma split_on_map:
  assumes "\<And>x. f x = c \<longleftrightarrow> x = c"
  shows "split_on c (map f s) = map (map f) (split_on c s)"
proof (induction s)
  case (Cons x s)
  then show ?case using assms[of x] by (cases "split_on c s") auto
qed simp

lemma split_on_no_sep: "seg \<in> set (split_on c s) \<Longrightarrow> c \<notin> set seg"
proof (induction s arbitrary: seg)
  case (Cons x s)
  then show ?case by (cases "split_on c s") (auto split: if_splits)
qed simp

lemma ascii_lower_dot [simp]: "ascii_lower x = CHR ''.'' \<longleftrightarrow> x = CHR ''.''"
proof (cases "65 \<le> (of_char x :: nat) \<and> (of_char x :: nat) \<le> 90")
  case True
  have "char_of (of_char x + 32 :: nat) \<noteq> CHR ''.''"
  proof
    assume "char_of (of_char x + 32 :: nat) = CHR ''.''"
    then have "of_char (char_of (of_char x + 32 :: nat)) = (of_char (CHR ''.'') :: nat)" by (rule arg_cong)
    with True show False by (simp add: of_char_of)
  qed
  moreover have "x \<noteq> CHR ''.''" using True by auto
  ultimately show ?thesis using True by (simp add: ascii_lower_def Let_def)
qed (auto simp: ascii_lower_def Let_def)

text \<open>The extension of a name, lower case, is the extension of the lower-case name.\<close>

definition name_ext :: "string \<Rightarrow> string option" where
  "name_ext n = (case split_on (CHR ''.'') n of
     [_] \<Rightarrow> None | segs \<Rightarrow> if butlast segs = [[]] then None else Some (last segs))"

lemma name_ext_lower: "name_ext (to_ascii_lowercase n) = map_option to_ascii_lowercase (name_ext n)"
proof -
  have s: "split_on (CHR ''.'') (to_ascii_lowercase n) = map to_ascii_lowercase (split_on (CHR ''.'') n)"
    unfolding to_ascii_lowercase_def by (rule split_on_map) simp
  have "butlast (map to_ascii_lowercase segs) = [[]] \<longleftrightarrow> butlast segs = [[]]" for segs
    by (simp add: map_butlast[symmetric] to_ascii_lowercase_def map_eq_Cons_conv)
  then show ?thesis
    unfolding name_ext_def s
    by (cases "split_on (CHR ''.'') n") (auto simp: last_map to_ascii_lowercase_def split: list.split)
qed

lemma extension_name: "extension p = (case file_name p of None \<Rightarrow> None | Some n \<Rightarrow> name_ext n)"
  by (cases "file_name p") (simp_all add: extension_def name_ext_def)

lemma extension_no_dot: "extension p = Some e \<Longrightarrow> strip_dot e = e"
proof -
  assume e: "extension p = Some e"
  obtain n where "name_ext n = Some e" using e by (auto simp: extension_name split: option.splits)
  then have "e = last (split_on (CHR ''.'') n)" by (auto simp: name_ext_def split: list.splits if_splits)
  then have "CHR ''.'' \<notin> set e" using split_on_no_sep[of e "CHR ''.''" n] by simp
  then show ?thesis by (auto simp: strip_dot_def split: list.splits char.splits bool.splits)
qed

definition TAGS :: "(string \<times> string) list" where
  "TAGS =
     [(''rs'', ''rust''), (''py'', ''python''), (''ts'', ''typescript''), (''tsx'', ''typescript''), (''js'', ''javascript''),
      (''jsx'', ''javascript''), (''mjs'', ''javascript''), (''cjs'', ''javascript''), (''go'', ''go''), (''java'', ''java''),
      (''c'', ''c''), (''h'', ''c''), (''cpp'', ''cpp''), (''cc'', ''cpp''), (''hpp'', ''cpp''), (''hh'', ''cpp''), (''cxx'', ''cpp''),
      (''md'', ''markdown''), (''markdown'', ''markdown''), (''json'', ''json''), (''toml'', ''toml''), (''yaml'', ''yaml''),
      (''yml'', ''yaml'')]"

lemma infer_language_tag_TAGS:
  assumes "infer_language_tag p = Some t"
  shows "\<exists>e. extension p = Some e \<and> (to_ascii_lowercase e, t) \<in> set TAGS"
  using assms by (auto simp: infer_language_tag_def TAGS_def Let_def split: option.splits if_splits)

lemma TAGS_decoded:
  "list_all (\<lambda>(x, t). if t = ''typescript'' \<or> t = ''javascript'' then lang_from_wire t = None
     else lang_from_wire t \<noteq> None \<and> lang_from_wire t = map_of EXTENSIONS x) TAGS"
  by code_simp

lemma special_names_decoded:
  "list_all (\<lambda>n. case name_ext n of None \<Rightarrow> True | Some x \<Rightarrow> special_name n = map_of EXTENSIONS x)
     [''dockerfile'', ''.bashrc'', ''.bash_profile'', ''.zshrc'', ''makefile'', ''cargo.toml'', ''pyproject.toml'',
      ''package.json'', ''tsconfig.json'']"
  by code_simp

lemma special_name_ext:
  assumes "special_name n = Some l" and "name_ext n = Some e"
  shows "map_of EXTENSIONS (to_ascii_lowercase e) = Some l"
proof -
  let ?m = "to_ascii_lowercase n"
  have idem: "ascii_lower (ascii_lower c) = ascii_lower c" for c
    by (auto simp: ascii_lower_def Let_def of_char_of)
  then have same: "special_name ?m = special_name n"
    by (simp add: special_name_def to_ascii_lowercase_def comp_def)
  have m: "?m \<in> set [''dockerfile'', ''.bashrc'', ''.bash_profile'', ''.zshrc'', ''makefile'', ''cargo.toml'', ''pyproject.toml'',
      ''package.json'', ''tsconfig.json'']"
    using assms(1) by (auto simp: special_name_def Let_def split: if_splits)
  have "name_ext ?m = Some (to_ascii_lowercase e)" using assms(2) by (simp add: name_ext_lower)
  moreover have "case name_ext ?m of None \<Rightarrow> True | Some x \<Rightarrow> special_name ?m = map_of EXTENSIONS x"
    using special_names_decoded m by (simp only: list_all_iff)
  ultimately show ?thesis using assms(1) same by simp
qed

lemma tag_agrees:
  assumes "infer_language_tag p = Some t"
  shows "if t = ''typescript'' \<or> t = ''javascript'' then lang_from_wire t = None
    else \<exists>l. lang_from_wire t = Some l \<and> from_filename p = Some l"
proof -
  obtain e where e: "extension p = Some e" and t: "(to_ascii_lowercase e, t) \<in> set TAGS"
    using infer_language_tag_TAGS[OF assms] by blast
  have ext: "from_extension e = map_of EXTENSIONS (to_ascii_lowercase e)"
    using extension_no_dot[OF e] by (simp add: from_extension_def)
  obtain n where n: "file_name p = Some n" "name_ext n = Some e" using e by (auto simp: extension_name split: option.splits)
  have "from_filename p = map_of EXTENSIONS (to_ascii_lowercase e)"
    using e ext n special_name_ext[of n _ e] by (cases "special_name n") (simp_all add: from_filename_def)
  moreover have "if t = ''typescript'' \<or> t = ''javascript'' then lang_from_wire t = None
     else lang_from_wire t \<noteq> None \<and> lang_from_wire t = map_of EXTENSIONS (to_ascii_lowercase e)"
    using TAGS_decoded t unfolding list_all_iff by blast
  ultimately show ?thesis by (auto split: if_splits dest: sym)
qed

text \<open>
  C20: a parse job survives the way from the router to the worker, except for TypeScript and JavaScript.
  When the file can be read, the line the supervisor writes for a parse job is decoded by the worker into
  the job with the same file, content and identifier, in the language the worker's own tables give the file.
  But for every file the supervisor tags \<open>typescript\<close> or \<open>javascript\<close> the worker rejects the line and drops the
  job: it reads language names in kebab case and knows these as \<open>type-script\<close> and \<open>java-script\<close>.
\<close>

theorem parse_line_decoded:
  assumes "\<forall>j. job_message read jid (Parse f root) = Inr j \<longrightarrow> parse (render j) = Some j \<and> trim (render j) \<noteq> []"
    and "read f = Inr content" and "infer_language_tag f = Some t"
  shows "\<exists>line. encode_for_worker render read jid (Parse f root) = Inr line \<and>
    (t \<notin> {''typescript'', ''javascript''} \<longrightarrow>
      (\<exists>l. from_filename f = Some l \<and> job_of_line parse line =
        Some \<lparr>pj_file_path = f, pj_language = l, pj_content = string_bytes content, pj_prev_tree_id = None,
              pj_content_hash = None, pj_job_id = jid\<rparr>)) \<and>
    (t \<in> {''typescript'', ''javascript''} \<longrightarrow> job_of_line parse line = None)"
proof -
  let ?j = "JObj [(''job_id'', JNum (uint jid)), (''file_path'', JStr f), (''language'', JStr t), (''content'', JStr content)]"
  have msg: "job_message read jid (Parse f root) = Inr ?j" using assms(2,3) by (simp add: job_message_def)
  then have line: "encode_for_worker render read jid (Parse f root) = Inr (render ?j)"
    by (simp add: encode_for_worker_def)
  have "uint jid < 2 ^ 64" using uint_lt2p[of jid] by simp
  then have wire: "JobWire_of_json ?j = (case lang_from_wire t of None \<Rightarrow> None
      | Some l \<Rightarrow> Some \<lparr>jw_file_path = f, jw_language = l, jw_content = content, jw_prev_tree_id = None, jw_job_id = jid\<rparr>)"
    by (cases "lang_from_wire t") (simp_all add: JobWire_of_json_def opt_u64_of_json_def)
  have "job_of_line parse (render ?j) = map_option into_job (JobWire_of_json ?j)"
    using assms(1) msg by (simp add: job_of_line_def)
  with wire tag_agrees[OF assms(3)] line show ?thesis by (auto simp: into_job_def split: if_splits)
qed

text \<open>
  Only successful parses are reported. The worker reports a job to the supervisor exactly when parsing
  and extraction succeeded and the job has an identifier other than 0, and then under the job's own
  identifier as a success; a failed parse is never reported, whatever the job.
\<close>

theorem only_successes_reported:
  "(completion_report show_error (fst (worker_handle L ts blake pool extract dur job c)) \<noteq> None \<longleftrightarrow>
     pj_job_id job \<noteq> 0 \<and> \<not> isl (fst (worker_handle L ts blake pool extract dur job c))) \<and>
   (completion_report show_error (fst (worker_handle L ts blake pool extract dur job c)) = Some (jid, outcome) \<longrightarrow>
     jid = pj_job_id job \<and> is_ok outcome)"
proof -
  have id: "pr_job_id r = pj_job_id job" if "fst (worker_handle L ts blake pool extract dur job c) = Inr r" for r
    using that by (auto simp: worker_handle_def ParseResult_unchanged_def split: prod.splits sum.splits if_splits)
  then show ?thesis
    by (auto simp: completion_report_def result_outcome_def split: sum.splits if_splits)
qed

section \<open>Round robin\<close>

definition decoded :: "(string \<Rightarrow> json option) \<Rightarrow> string list \<Rightarrow> ParseJob list" where
  "decoded parse lines = List.map_filter (job_of_line parse) lines"

lemma read_lines_split:
  assumes "0 < length qs" and "start + length lines < 2 ^ 64"
  shows "read_lines parse (\<lambda>_. False) lines start qs =
    (start + length (decoded parse lines),
     map (\<lambda>i. qs ! i @ map (\<lambda>k. decoded parse lines ! k) (filter (\<lambda>k. (start + k) mod length qs = i) [0..<length (decoded parse lines)]))
       [0..<length qs])"
  using assms
proof (induction lines arbitrary: start qs)
  case Nil
  then show ?case by (simp add: decoded_def map_nth)
next
  case (Cons line lines)
  show ?case
  proof (cases "job_of_line parse line")
    case None
    then have "decoded parse (line # lines) = decoded parse lines" by (simp add: decoded_def map_filter_simps)
    with Cons None show ?thesis by simp
  next
    case (Some job)
    let ?t = "start mod length qs" and ?js = "decoded parse lines"
    let ?qs = "qs[?t := qs ! ?t @ [job]]"
    have d: "decoded parse (line # lines) = job # ?js" using Some by (simp add: decoded_def map_filter_simps)
    have next_eq: "(start + 1) mod 2 ^ 64 = start + 1" using Cons.prems by simp
    have IH: "read_lines parse (\<lambda>_. False) lines (start + 1) ?qs =
      (start + 1 + length ?js,
       map (\<lambda>i. ?qs ! i @ map (\<lambda>k. ?js ! k) (filter (\<lambda>k. (start + 1 + k) mod length qs = i) [0..<length ?js])) [0..<length qs])"
      using Cons.IH[of ?qs "start + 1"] Cons.prems by simp
    have idx: "[0..<Suc n] = 0 # map Suc [0..<n]" for n by (simp add: upt_conv_Cons map_Suc_upt)
    have "?qs ! i @ map (\<lambda>k. ?js ! k) (filter (\<lambda>k. (start + 1 + k) mod length qs = i) [0..<length ?js]) =
        qs ! i @ map (\<lambda>k. (job # ?js) ! k) (filter (\<lambda>k. (start + k) mod length qs = i) [0..<Suc (length ?js)])"
      if "i < length qs" for i
      using that unfolding idx by (auto simp: nth_list_update filter_map comp_def)
    then show ?thesis using Some IH next_eq unfolding d by (simp add: Let_def del: upt_Suc)
  qed
qed

text \<open>
  Decoded jobs are dealt out in turn: with \<open>n\<close> open tasks, task \<open>i\<close> gets the jobs whose number is \<open>i\<close> modulo \<open>n\<close>,
  in order, whatever blank or undecodable lines stand between them.
\<close>

theorem round_robin_deals:
  assumes "0 < n" and "length lines < 2 ^ 64" and "i < n"
  shows "snd (read_lines parse (\<lambda>_. False) lines 0 (replicate n [])) ! i =
    map (\<lambda>k. decoded parse lines ! k) (filter (\<lambda>k. k mod n = i) [0..<length (decoded parse lines)])"
  using assms read_lines_split[of "replicate n []" 0 lines parse] by simp

section \<open>Examples\<close>

text \<open>A TypeScript file is dropped; a parse that fails is not reported and one that succeeds is.\<close>

theorem parse_line_decoded_witness:
  "\<exists>line. encode_for_worker (\<lambda>_. ''{}'') (\<lambda>_. Inr ''let x'') 7 (Parse ''a.ts'' ''/p'') = Inr line \<and>
    job_of_line (\<lambda>_. Some (JObj [(''job_id'', JNum 7), (''file_path'', JStr ''a.ts''), (''language'', JStr ''typescript''),
      (''content'', JStr ''let x'')])) line = None"
proof -
  let ?j = "JObj [(''job_id'', JNum 7), (''file_path'', JStr ''a.ts''), (''language'', JStr ''typescript''), (''content'', JStr ''let x'')]"
  have tag: "infer_language_tag ''a.ts'' = Some ''typescript''" by code_simp
  then have "job_message (\<lambda>_. Inr ''let x'') 7 (Parse ''a.ts'' ''/p'') = Inr ?j" by (simp add: job_message_def)
  moreover have "trim ''{}'' \<noteq> []" by code_simp
  ultimately show ?thesis
    using parse_line_decoded[of "\<lambda>_. Inr ''let x''" 7 "''a.ts''" "''/p''" "\<lambda>_. Some ?j" "\<lambda>_. ''{}''" "''let x''" "''typescript''"] tag
    by simp
qed

definition demo_parse_job :: "Language \<Rightarrow> ParseJob" where
  "demo_parse_job l = \<lparr>pj_file_path = ''a'', pj_language = l, pj_content = [1], pj_prev_tree_id = None, pj_content_hash = None, pj_job_id = 7\<rparr>"

theorem only_successes_reported_witness:
  "completion_report (\<lambda>_. ''e'') (fst (worker_handle demo_lru demo_ts id demo_parsers
     (\<lambda>_ _ _ _. Inr \<lparr>ex_nodes = [], ex_edges = [], ex_issues = []\<rparr>) 3 (demo_parse_job LangRust) [])) \<noteq> None \<and>
   completion_report (\<lambda>_. ''e'') (fst (worker_handle demo_lru demo_ts id demo_parsers
     (\<lambda>_ _ _ _. Inr \<lparr>ex_nodes = [], ex_edges = [], ex_issues = []\<rparr>) 3 (demo_parse_job LangZig) [])) = None"
proof -
  have "pj_job_id (demo_parse_job LangRust) \<noteq> 0" by (simp add: demo_parse_job_def)
  moreover have "\<not> isl (fst (worker_handle demo_lru demo_ts id demo_parsers
     (\<lambda>_ _ _ _. Inr \<lparr>ex_nodes = [], ex_edges = [], ex_issues = []\<rparr>) 3 (demo_parse_job LangRust) []))"
    "isl (fst (worker_handle demo_lru demo_ts id demo_parsers
     (\<lambda>_ _ _ _. Inr \<lparr>ex_nodes = [], ex_edges = [], ex_issues = []\<rparr>) 3 (demo_parse_job LangZig) []))"
    by (code_simp, code_simp)
  moreover note only_successes_reported[of "\<lambda>_. ''e''" demo_lru demo_ts id demo_parsers
      "\<lambda>_ _ _ _. Inr \<lparr>ex_nodes = [], ex_edges = [], ex_issues = []\<rparr>" 3 _ "[]" 0 "OutcomeErr [] 0 JNull"]
  ultimately show ?thesis by blast
qed

end
