(* ===== verification/File_Watcher.thy ===== *)
theory File_Watcher
  imports Parser_Worker Child
begin

text \<open>
  The file watcher of the supervisor (\<open>supervisor/src/watcher.rs\<close>): its counters behind a mutex, the
  debouncer, the filter of ignored paths, and the re-indexing of one file into the tables \<open>nodes\<close> and
  \<open>edges\<close> of \<open>graph.db\<close>. Events of the file system, clocks, file contents and the extractor are arguments.
\<close>

section \<open>Counters\<close>

datatype ChangeKind = Upsert | Delete

record WatcherStats =
  total_reindexed :: u64
  total_ignored :: u64
  total_deletes :: u64
  p50_ms :: u64
  p95_ms :: u64
  p99_ms :: u64
  samples_ms :: "u64 list"

definition WatcherStats_default :: WatcherStats where
  "WatcherStats_default = \<lparr>total_reindexed = 0, total_ignored = 0, total_deletes = 0, p50_ms = 0, p95_ms = 0, p99_ms = 0, samples_ms = []\<rparr>"

definition SAMPLE_CAP :: nat where
  "SAMPLE_CAP = 256"

text \<open>
  The index is \<open>floor(q * n)\<close> in \<open>f64\<close>; for the three constants and at most 256 samples it is the quotient of
  \<open>pick\<close>, as for the latencies of workers.
\<close>

definition recompute :: "WatcherStats \<Rightarrow> WatcherStats" where
  "recompute s =
     (if samples_ms s = [] then s\<lparr>p50_ms := 0, p95_ms := 0, p99_ms := 0\<rparr>
      else let v = sort (samples_ms s) in s\<lparr>p50_ms := pick v 50, p95_ms := pick v 95, p99_ms := pick v 99\<rparr>)"

definition stats_record :: "u64 \<Rightarrow> ChangeKind \<Rightarrow> WatcherStats \<Rightarrow> WatcherStats" where
  "stats_record latency kind s =
     (let s1 = (case kind of
                  Upsert \<Rightarrow> s\<lparr>total_reindexed := saturating_add_u64 (total_reindexed s) 1\<rparr>
                | Delete \<Rightarrow> s\<lparr>total_deletes := saturating_add_u64 (total_deletes s) 1,
                              total_reindexed := saturating_add_u64 (total_reindexed s) 1\<rparr>);
          kept = (if length (samples_ms s1) \<ge> SAMPLE_CAP then drop 1 (samples_ms s1) else samples_ms s1)
      in recompute (s1\<lparr>samples_ms := kept @ [latency]\<rparr>))"

text \<open>
  A \<open>parking_lot::Mutex\<close> is not reentrant: a thread that locks it while holding it waits for itself.
  \<open>None\<close> is a call that never returns.
\<close>

record 'a mutex =
  mx_held :: bool
  mx_value :: 'a

definition mutex_lock :: "'a mutex \<Rightarrow> 'a mutex option" where
  "mutex_lock m = (if mx_held m then None else Some (m\<lparr>mx_held := True\<rparr>))"

definition mutex_unlock :: "'a mutex \<Rightarrow> 'a mutex" where
  "mutex_unlock m = m\<lparr>mx_held := False\<rparr>"

definition stats_snapshot :: "WatcherStats mutex \<Rightarrow> (WatcherStats \<times> WatcherStats mutex) option" where
  "stats_snapshot m = map_option (\<lambda>g. (mx_value g, mutex_unlock g)) (mutex_lock m)"

definition handle_record :: "u64 \<Rightarrow> ChangeKind \<Rightarrow> WatcherStats mutex \<Rightarrow> WatcherStats mutex option" where
  "handle_record latency kind m =
     map_option (\<lambda>g. mutex_unlock (g\<lparr>mx_value := stats_record latency kind (mx_value g)\<rparr>)) (mutex_lock m)"

text \<open>
  \<open>self.0.lock().total_ignored = self.0.lock().total_ignored.saturating_add(1);\<close> The right-hand side is
  evaluated first, and its guard, a temporary, is dropped at the end of the statement: it is still held
  when the left-hand side locks.
\<close>

definition bump_ignored :: "WatcherStats mutex \<Rightarrow> WatcherStats mutex option" where
  "bump_ignored m =
     (case mutex_lock m of
        None \<Rightarrow> None
      | Some g \<Rightarrow>
          (let v = saturating_add_u64 (total_ignored (mx_value g)) 1 in
           case mutex_lock g of
             None \<Rightarrow> None
           | Some g' \<Rightarrow> Some (mutex_unlock (g'\<lparr>mx_value := (mx_value g')\<lparr>total_ignored := v\<rparr>\<rparr>))))"

section \<open>Events\<close>

text \<open>The kinds of \<open>notify\<close> events the code distinguishes.\<close>

datatype EventKind = RemoveFile | RemoveAny | RenameFrom | OtherEvent

record notify_event =
  ne_kind :: EventKind
  ne_paths :: "path list"

definition event_kind :: "notify_event \<Rightarrow> ChangeKind" where
  "event_kind ev =
     (case ne_kind ev of RemoveFile \<Rightarrow> Delete | RemoveAny \<Rightarrow> Delete | RenameFrom \<Rightarrow> Delete | OtherEvent \<Rightarrow> Upsert)"

definition IGNORED_NAMES :: "string list" where
  "IGNORED_NAMES =
     [''target'', ''node_modules'', ''.git'', ''.mneme'', ''dist'', ''build'', ''.next'', ''.nuxt'', ''.svelte-kit'', ''.venv'',
      ''venv'', ''__pycache__'', ''.pytest_cache'', ''.mypy_cache'', ''.ruff_cache'', ''.idea'', ''.vscode'']"

text \<open>The components of a path that can be names; \<open>strip_prefix\<close> works on components.\<close>

definition components :: "path \<Rightarrow> string list" where
  "components p = filter (\<lambda>s. s \<noteq> [] \<and> s \<noteq> ''.'') (split_on (CHR ''/'') p)"

definition is_absolute :: "path \<Rightarrow> bool" where
  "is_absolute p \<longleftrightarrow> starts_with p ''/''"

definition relative_components :: "path \<Rightarrow> path \<Rightarrow> string list" where
  "relative_components p root =
     (if is_absolute p = is_absolute root \<and> take (length (components root)) (components p) = components root
      then drop (length (components root)) (components p) else components p)"

definition is_ignored :: "path \<Rightarrow> path \<Rightarrow> bool" where
  "is_ignored p root \<longleftrightarrow>
     (case file_name p of Some name \<Rightarrow> name \<in> set IGNORED_NAMES | None \<Rightarrow> False) \<or>
     (\<exists>c \<in> set (relative_components p root). c \<in> set IGNORED_NAMES) \<or>
     (case file_name p of
        Some name \<Rightarrow> ends_with name ''~'' \<or> ends_with name ''.swp'' \<or> ends_with name ''.tmp'' \<or> starts_with name ''.#''
      | None \<Rightarrow> False)"

definition looks_binary :: "bytes \<Rightarrow> bool" where
  "looks_binary buf \<longleftrightarrow> (\<exists>b \<in> set (take 512 buf). b = 0)"

fun classify_paths ::
  "path \<Rightarrow> path list \<Rightarrow> WatcherStats mutex \<Rightarrow> path list \<Rightarrow> (path list \<times> WatcherStats mutex) option" where
  "classify_paths root [] m out = Some (out, m)"
| "classify_paths root (p # ps) m out =
     (if is_ignored p root
      then (case bump_ignored m of None \<Rightarrow> None | Some m' \<Rightarrow> classify_paths root ps m' out)
      else classify_paths root ps m (out @ [p]))"

definition classify_event :: "notify_event \<Rightarrow> path \<Rightarrow> WatcherStats mutex \<Rightarrow> (path list \<times> WatcherStats mutex) option" where
  "classify_event ev root m = classify_paths root (ne_paths ev) m []"

section \<open>The debouncer\<close>

definition DEFAULT_DEBOUNCE :: duration where
  "DEFAULT_DEBOUNCE = from_millis 250"

definition MAX_PENDING :: nat where
  "MAX_PENDING = 10000"

record PendingBatch =
  seen_at :: instant
  pb_kind :: ChangeKind

text \<open>One path of an event; \<open>now\<close> is the clock when it is entered.\<close>

definition enter_path :: "ChangeKind \<Rightarrow> instant \<Rightarrow> path \<Rightarrow> (path, PendingBatch) hmap \<Rightarrow> (path, PendingBatch) hmap" where
  "enter_path kind now p pend =
     (if length pend \<ge> MAX_PENDING then pend
      else hm_insert p
        (case hm_get pend p of
           Some b \<Rightarrow> \<lparr>seen_at = now, pb_kind = (if kind = Delete then Delete else pb_kind b)\<rparr>
         | None \<Rightarrow> \<lparr>seen_at = now, pb_kind = kind\<rparr>) pend)"

record debouncer =
  db_pending :: "(path, PendingBatch) hmap"
  db_stats :: "WatcherStats mutex"

text \<open>What the loop selects: an event with the clock at each of its paths, an error, or a tick.\<close>

datatype watch_input = Raw notify_event "path \<Rightarrow> instant" | NotifyError | Tick instant

definition ready_batches :: "duration \<Rightarrow> instant \<Rightarrow> (path, PendingBatch) hmap \<Rightarrow> (path \<times> ChangeKind) list" where
  "ready_batches debounce now pend =
     map (\<lambda>(p, b). (p, pb_kind b)) (filter (\<lambda>(p, b). duration_since now (seen_at b) \<ge> debounce) pend)"

definition debounce_step ::
  "duration \<Rightarrow> path \<Rightarrow> watch_input \<Rightarrow> debouncer \<Rightarrow> ((path \<times> ChangeKind) list \<times> debouncer) option" where
  "debounce_step debounce root i d =
     (case i of
        Raw ev now \<Rightarrow>
          (case classify_event ev root (db_stats d) of
             None \<Rightarrow> None
           | Some (ps, m) \<Rightarrow>
               Some ([], d\<lparr>db_pending := fold (\<lambda>p. enter_path (event_kind ev) (now p) p) ps (db_pending d), db_stats := m\<rparr>))
      | NotifyError \<Rightarrow> Some ([], d)
      | Tick now \<Rightarrow>
          (let ready = ready_batches debounce now (db_pending d) in
           Some (ready, d\<lparr>db_pending := fold (\<lambda>(p, _). hm_remove p) ready (db_pending d)\<rparr>)))"

fun debounce_run ::
  "duration \<Rightarrow> path \<Rightarrow> watch_input list \<Rightarrow> debouncer \<Rightarrow> ((path \<times> ChangeKind) list \<times> debouncer) option" where
  "debounce_run debounce root [] d = Some ([], d)"
| "debounce_run debounce root (i # is) d =
     (case debounce_step debounce root i d of
        None \<Rightarrow> None
      | Some (out, d1) \<Rightarrow>
          (case debounce_run debounce root is d1 of
             None \<Rightarrow> None
           | Some (out', d2) \<Rightarrow> Some (out @ out', d2)))"

section \<open>An ignored file stops the watcher\<close>

lemma bump_ignored_never_returns: "bump_ignored m = None"
  by (simp add: bump_ignored_def mutex_lock_def Let_def)

lemma classify_blocks_iff: "classify_paths root ps m out = None \<longleftrightarrow> (\<exists>p \<in> set ps. is_ignored p root)"
  by (induction ps arbitrary: m out) (auto simp: bump_ignored_never_returns)

lemma classify_paths_all: "\<forall>p \<in> set ps. \<not> is_ignored p root \<Longrightarrow> classify_paths root ps m out = Some (out @ ps, m)"
  by (induction ps arbitrary: out) auto

definition mentions_ignored :: "path \<Rightarrow> watch_input \<Rightarrow> bool" where
  "mentions_ignored root i = (case i of Raw ev _ \<Rightarrow> list_ex (\<lambda>p. is_ignored p root) (ne_paths ev) | _ \<Rightarrow> False)"

lemma debounce_step_blocks_iff: "debounce_step debounce root i d = None \<longleftrightarrow> mentions_ignored root i"
proof (cases i)
  case (Raw ev now)
  then show ?thesis
    using classify_blocks_iff[of root "ne_paths ev" "db_stats d" "[]"]
    by (cases "classify_paths root (ne_paths ev) (db_stats d) []")
      (simp_all add: debounce_step_def mentions_ignored_def classify_event_def list_ex_iff split_beta)
qed (simp_all add: debounce_step_def mentions_ignored_def Let_def)

text \<open>
  C22: the watcher stops for good at the first file it should ignore. Counting an ignored file locks the
  counters while they are locked and never returns; so the debouncer gets past a sequence of inputs exactly
  when no event in it names an ignored path, and afterwards no tick hands on any change, of any file.
\<close>

theorem ignored_event_blocks_watcher:
  "(debounce_run debounce root is d = None \<longleftrightarrow> list_ex (mentions_ignored root) is) \<and>
   (list_ex (mentions_ignored root) is \<longrightarrow> debounce_run debounce root (is @ later) d = None)"
proof -
  have "debounce_run debounce root is d = None \<longleftrightarrow> list_ex (mentions_ignored root) is" for "is"
  proof (induction "is" arbitrary: d)
    case (Cons i "is")
    show ?case
    proof (cases "debounce_step debounce root i d")
      case None
      then show ?thesis using debounce_step_blocks_iff[of debounce root i d] by simp
    next
      case (Some od)
      then show ?thesis using debounce_step_blocks_iff[of debounce root i d] Cons.IH
        by (cases od) (auto split: option.splits)
    qed
  qed simp
  then show ?thesis by auto
qed

theorem ignored_event_blocks_watcher_witness:
  "debounce_run 250 ''/p'' [Raw \<lparr>ne_kind = OtherEvent, ne_paths = [''/p/a.rs'']\<rparr> (\<lambda>_. 0),
     Raw \<lparr>ne_kind = OtherEvent, ne_paths = [''/p/target/x.o'']\<rparr> (\<lambda>_. 1), Tick 1000]
     \<lparr>db_pending = [], db_stats = \<lparr>mx_held = False, mx_value = WatcherStats_default\<rparr>\<rparr> = None"
proof -
  have "is_ignored ''/p/target/x.o'' ''/p''" by code_simp
  then show ?thesis
    using ignored_event_blocks_watcher[of 250 "''/p''" "[Raw \<lparr>ne_kind = OtherEvent, ne_paths = [''/p/a.rs'']\<rparr> (\<lambda>_. 0),
     Raw \<lparr>ne_kind = OtherEvent, ne_paths = [''/p/target/x.o'']\<rparr> (\<lambda>_. 1)]"
     "\<lparr>db_pending = [], db_stats = \<lparr>mx_held = False, mx_value = WatcherStats_default\<rparr>\<rparr>" "[Tick 1000]"]
    by (simp add: mentions_ignored_def)
qed

section \<open>Bursts are coalesced\<close>

lemma length_hm_keys: "hm_wf m \<Longrightarrow> length m = card (set (hm_keys m))"
  using distinct_card[of "hm_keys m"] by (simp add: hm_wf_def hm_keys_def)

lemma fold_enter:
  assumes "hm_wf pend" and "card (set (hm_keys pend) \<union> set ps) < MAX_PENDING"
  shows "let pend' = fold (\<lambda>p. enter_path kind (now p) p) ps pend in
    hm_wf pend' \<and> set (hm_keys pend') = set (hm_keys pend) \<union> set ps \<and>
    (\<forall>p. hm_get pend' p =
       (if p \<in> set ps
        then Some \<lparr>seen_at = now p, pb_kind = (if kind = Delete then Delete
               else case hm_get pend p of Some b \<Rightarrow> pb_kind b | None \<Rightarrow> Upsert)\<rparr>
        else hm_get pend p))"
  using assms
proof (induction ps arbitrary: pend)
  case (Cons p ps)
  have "card (set (hm_keys pend)) \<le> card (set (hm_keys pend) \<union> set (p # ps))" by (rule card_mono) auto
  then have room: "length pend < MAX_PENDING" using Cons.prems by (simp add: length_hm_keys)
  let ?e = "\<lparr>seen_at = now p, pb_kind = (if kind = Delete then Delete
      else case hm_get pend p of Some b \<Rightarrow> pb_kind b | None \<Rightarrow> Upsert)\<rparr>"
  have e: "enter_path kind (now p) p pend = hm_insert p ?e pend"
    using room by (cases kind) (auto simp: enter_path_def split: option.split)
  have "card (set (hm_keys (hm_insert p ?e pend)) \<union> set ps) < MAX_PENDING" using Cons.prems(2) by (simp add: insert_commute Un_commute)
  note IH = Cons.IH[OF hm_wf_insert[OF Cons.prems(1), of p ?e] this]
  show ?case using IH unfolding Let_def by (auto simp: e)
qed (simp add: Let_def)

text \<open>The events of a burst that name a path, and what they amount to.\<close>

definition touches :: "path \<Rightarrow> (notify_event \<times> (path \<Rightarrow> instant)) list \<Rightarrow> (notify_event \<times> (path \<Rightarrow> instant)) list" where
  "touches p evs = filter (\<lambda>(ev, _). p \<in> set (ne_paths ev)) evs"

definition coalesced :: "path \<Rightarrow> (notify_event \<times> (path \<Rightarrow> instant)) list \<Rightarrow> PendingBatch option" where
  "coalesced p evs =
     (if touches p evs = [] then None
      else Some \<lparr>seen_at = snd (last (touches p evs)) p,
                 pb_kind = (if \<exists>(ev, _) \<in> set (touches p evs). event_kind ev = Delete then Delete else Upsert)\<rparr>)"

lemma coalesced_snoc:
  "coalesced p (evs @ [(ev, now)]) =
     (if p \<in> set (ne_paths ev)
      then Some \<lparr>seen_at = now p, pb_kind = (if event_kind ev = Delete then Delete
             else case coalesced p evs of Some b \<Rightarrow> pb_kind b | None \<Rightarrow> Upsert)\<rparr>
      else coalesced p evs)"
  by (cases "touches p evs = []") (auto simp: coalesced_def touches_def)

definition all_paths :: "(notify_event \<times> (path \<Rightarrow> instant)) list \<Rightarrow> path set" where
  "all_paths evs = (\<Union>(ev, _) \<in> set evs. set (ne_paths ev))"

lemma finite_all_paths [simp]: "finite (all_paths evs)"
  by (auto simp: all_paths_def)

lemma burst_pending:
  assumes "\<forall>(ev, _) \<in> set evs. \<forall>p \<in> set (ne_paths ev). \<not> is_ignored p root" and "card (all_paths evs) < MAX_PENDING"
  shows "\<exists>pend. debounce_run debounce root (map (\<lambda>(ev, now). Raw ev now) evs) \<lparr>db_pending = [], db_stats = m\<rparr> =
      Some ([], \<lparr>db_pending = pend, db_stats = m\<rparr>) \<and>
    hm_wf pend \<and> set (hm_keys pend) = all_paths evs \<and> (\<forall>p. hm_get pend p = coalesced p evs)"
  using assms
proof (induction evs rule: rev_induct)
  case Nil
  then show ?case by (simp add: all_paths_def hm_keys_def coalesced_def touches_def)
next
  case (snoc e evs)
  obtain ev now where e: "e = (ev, now)" by force
  have paths: "all_paths (evs @ [e]) = all_paths evs \<union> set (ne_paths ev)" by (auto simp: all_paths_def e)
  have "card (all_paths evs) \<le> card (all_paths (evs @ [e]))" unfolding paths by (rule card_mono) auto
  then obtain pend where run: "debounce_run debounce root (map (\<lambda>(ev, now). Raw ev now) evs) \<lparr>db_pending = [], db_stats = m\<rparr> =
      Some ([], \<lparr>db_pending = pend, db_stats = m\<rparr>)"
    and pend: "hm_wf pend" "set (hm_keys pend) = all_paths evs" "\<And>p. hm_get pend p = coalesced p evs"
    using snoc by force
  let ?p = "fold (\<lambda>p. enter_path (event_kind ev) (now p) p) (ne_paths ev) pend"
  have "card (set (hm_keys pend) \<union> set (ne_paths ev)) < MAX_PENDING" using snoc.prems(2) by (simp add: paths pend(2))
  note f = fold_enter[OF pend(1) this, of "event_kind ev" now, unfolded Let_def]
  have "debounce_step debounce root (Raw ev now) \<lparr>db_pending = pend, db_stats = m\<rparr> = Some ([], \<lparr>db_pending = ?p, db_stats = m\<rparr>)"
    using snoc.prems(1) by (simp add: debounce_step_def classify_event_def classify_paths_all e)
  moreover have app: "debounce_run debounce root (is @ [i]) d =
      (case debounce_run debounce root is d of None \<Rightarrow> None
       | Some (out, d1) \<Rightarrow> (case debounce_step debounce root i d1 of None \<Rightarrow> None | Some (out', d2) \<Rightarrow> Some (out @ out', d2)))"
    for "is" i d
    by (induction "is" arbitrary: d) (auto split: option.splits prod.splits)
  ultimately have "debounce_run debounce root (map (\<lambda>(ev, now). Raw ev now) (evs @ [e])) \<lparr>db_pending = [], db_stats = m\<rparr> =
      Some ([], \<lparr>db_pending = ?p, db_stats = m\<rparr>)"
    by (simp add: run e)
  moreover have "hm_get ?p p = coalesced p (evs @ [e])" for p
    using f pend(3)[of p] by (simp add: coalesced_snoc e)
  ultimately show ?case using f pend(2) by (auto simp: paths)
qed

lemma fold_remove_ready:
  "hm_get (fold (\<lambda>(p, _). hm_remove p) xs pend) q = (if q \<in> fst ` set xs then None else hm_get pend q)"
proof (induction xs arbitrary: pend)
  case (Cons x xs)
  then show ?case by (cases x) auto
qed simp

text \<open>
  A burst of events becomes one change per file. For any burst that names fewer than 10000 paths, none
  ignored, the next tick hands on exactly the paths that have been quiet for the debounce time, each once,
  as a deletion if any of its events was one and as an upsert otherwise; the other paths stay pending and
  those handed on do not.
\<close>

theorem burst_coalesced:
  assumes "\<forall>(ev, _) \<in> set evs. \<forall>p \<in> set (ne_paths ev). \<not> is_ignored p root" and "card (all_paths evs) < MAX_PENDING"
  shows "\<exists>out d. debounce_run debounce root (map (\<lambda>(ev, now). Raw ev now) evs @ [Tick t]) \<lparr>db_pending = [], db_stats = m\<rparr> = Some (out, d) \<and>
    distinct (map fst out) \<and>
    (\<forall>p k. (p, k) \<in> set out \<longleftrightarrow> (\<exists>b. coalesced p evs = Some b \<and> duration_since t (seen_at b) \<ge> debounce \<and> k = pb_kind b)) \<and>
    (\<forall>p. hm_get (db_pending d) p =
       (case coalesced p evs of Some b \<Rightarrow> if duration_since t (seen_at b) \<ge> debounce then None else Some b | None \<Rightarrow> None)) \<and>
    db_stats d = m"
proof -
  obtain pend where run: "debounce_run debounce root (map (\<lambda>(ev, now). Raw ev now) evs) \<lparr>db_pending = [], db_stats = m\<rparr> =
      Some ([], \<lparr>db_pending = pend, db_stats = m\<rparr>)"
    and pend: "hm_wf pend" "\<And>p. hm_get pend p = coalesced p evs"
    using burst_pending[OF assms] by blast
  let ?out = "ready_batches debounce t pend"
  let ?d = "\<lparr>db_pending = fold (\<lambda>(p, _). hm_remove p) ?out pend, db_stats = m\<rparr>"
  have app: "debounce_run debounce root is d = Some (out, d1) \<Longrightarrow>
      debounce_run debounce root (is @ [Tick t]) d =
        Some (out @ ready_batches debounce t (db_pending d1),
          d1\<lparr>db_pending := fold (\<lambda>(p, _). hm_remove p) (ready_batches debounce t (db_pending d1)) (db_pending d1)\<rparr>)" for "is" d out d1
    by (induction "is" arbitrary: d out) (auto simp: debounce_step_def Let_def split: option.splits prod.splits)
  have mem: "(p, k) \<in> set ?out \<longleftrightarrow> (\<exists>b. coalesced p evs = Some b \<and> duration_since t (seen_at b) \<ge> debounce \<and> k = pb_kind b)" for p k
    using hm_get_mem[OF pend(1), of p] pend(2)[of p] by (force simp: ready_batches_def)
  have "map fst ?out = map fst (filter (\<lambda>(p, b). duration_since t (seen_at b) \<ge> debounce) pend)"
    by (simp add: ready_batches_def split_beta comp_def)
  then have "distinct (map fst ?out)" using pend(1) by (simp add: hm_wf_def hm_keys_def distinct_map_filter)
  moreover have "hm_get (db_pending ?d) p =
       (case coalesced p evs of Some b \<Rightarrow> if duration_since t (seen_at b) \<ge> debounce then None else Some b | None \<Rightarrow> None)" for p
  proof -
    have "p \<in> fst ` set ?out \<longleftrightarrow> (\<exists>k. (p, k) \<in> set ?out)" by force
    then show ?thesis using pend(2)[of p] unfolding mem by (auto simp: fold_remove_ready split: option.split)
  qed
  ultimately show ?thesis using app[OF run] mem by auto
qed

theorem burst_coalesced_witness:
  "\<exists>out d. debounce_run 250 ''/p'' (map (\<lambda>(ev, now). Raw ev now)
       [(\<lparr>ne_kind = OtherEvent, ne_paths = [''/p/a.rs'', ''/p/b.rs'']\<rparr>, \<lambda>_. 0), (\<lparr>ne_kind = RemoveFile, ne_paths = [''/p/a.rs'']\<rparr>, \<lambda>_. 100)] @ [Tick 300])
       \<lparr>db_pending = [], db_stats = \<lparr>mx_held = False, mx_value = WatcherStats_default\<rparr>\<rparr> = Some (out, d) \<and>
     (''/p/b.rs'', Upsert) \<in> set out \<and> hm_get (db_pending d) ''/p/a.rs'' = Some \<lparr>seen_at = 100, pb_kind = Delete\<rparr>"
proof -
  let ?evs = "[(\<lparr>ne_kind = OtherEvent, ne_paths = [''/p/a.rs'', ''/p/b.rs'']\<rparr>, \<lambda>_. 0),
    (\<lparr>ne_kind = RemoveFile, ne_paths = [''/p/a.rs'']\<rparr>, \<lambda>_. 100)]"
  have ign: "\<not> is_ignored ''/p/a.rs'' ''/p''" "\<not> is_ignored ''/p/b.rs'' ''/p''" by code_simp+
  have "all_paths ?evs = {''/p/a.rs'', ''/p/b.rs''}" by (auto simp: all_paths_def)
  then have card: "card (all_paths ?evs) < MAX_PENDING" by (simp add: MAX_PENDING_def)
  have co: "coalesced ''/p/a.rs'' ?evs = Some \<lparr>seen_at = 100, pb_kind = Delete\<rparr>" "coalesced ''/p/b.rs'' ?evs = Some \<lparr>seen_at = 0, pb_kind = Upsert\<rparr>"
    by (simp_all add: coalesced_def touches_def event_kind_def)
  obtain out d where "debounce_run 250 ''/p'' (map (\<lambda>(ev, now). Raw ev now) ?evs @ [Tick 300])
      \<lparr>db_pending = [], db_stats = \<lparr>mx_held = False, mx_value = WatcherStats_default\<rparr>\<rparr> = Some (out, d)"
    "\<forall>p k. (p, k) \<in> set out \<longleftrightarrow> (\<exists>b. coalesced p ?evs = Some b \<and> duration_since 300 (seen_at b) \<ge> 250 \<and> k = pb_kind b)"
    "\<forall>p. hm_get (db_pending d) p =
       (case coalesced p ?evs of Some b \<Rightarrow> if duration_since 300 (seen_at b) \<ge> 250 then None else Some b | None \<Rightarrow> None)"
    using burst_coalesced[where evs = ?evs and root = "''/p''" and debounce = 250 and t = 300
        and m = "\<lparr>mx_held = False, mx_value = WatcherStats_default\<rparr>", OF _ card] ign by auto
  then show ?thesis using co by (simp add: duration_since_def)
qed

end
