(* ===== verification/Query_Cache.thy ===== *)
theory Query_Cache
  imports Incremental_Parser
begin

text \<open>
  The cache of compiled tree-sitter queries (\<open>parsers/src/query_cache.rs\<close>). Compiling a pattern for a grammar
  is an argument. The patterns are those of the source; an arm behind a cargo feature exists when the
  feature is on.
\<close>

section \<open>Model\<close>

datatype QueryKind = QFunctions | QClasses | QCalls | QImports | QDecorators | QComments | QErrors

fun qk_as_str :: "QueryKind \<Rightarrow> string" where
  "qk_as_str QFunctions = ''functions''"
| "qk_as_str QClasses = ''classes''"
| "qk_as_str QCalls = ''calls''"
| "qk_as_str QImports = ''imports''"
| "qk_as_str QDecorators = ''decorators''"
| "qk_as_str QComments = ''comments''"
| "qk_as_str QErrors = ''errors''"

definition QueryKind_ALL :: "QueryKind list" where
  "QueryKind_ALL = [QFunctions, QClasses, QCalls, QImports, QDecorators, QComments, QErrors]"

type_synonym pattern_arm = "string option \<times> Language list \<times> QueryKind \<times> string"

definition PATTERNS :: "pattern_arm list" where
  "PATTERNS =
     [(None, [LangTypeScript, LangTsx], QFunctions, nl 12 @ ''(function_declaration name: (identifier) @name) @function'' @ nl 12 @
         ''(method_definition name: (property_identifier) @name) @function'' @ nl 12 @
         ''(function_expression name: (identifier)? @name) @function'' @ nl 12 @ ''(arrow_function) @function'' @ nl 12),
      (None, [LangTypeScript, LangTsx], QClasses, nl 12 @ ''(class_declaration name: (type_identifier) @name) @class'' @ nl 12 @
         ''(interface_declaration name: (type_identifier) @name) @class'' @ nl 12),
      (None, [LangTypeScript, LangTsx], QCalls, ''(call_expression function: (_) @callee) @call''),
      (None, [LangTypeScript, LangTsx], QImports, ''(import_statement source: (string) @source) @import''),
      (None, [LangTypeScript, LangTsx], QDecorators, ''(decorator (_) @decorator_value) @decorator''),
      (None, [LangTypeScript, LangTsx], QComments, ''(comment) @comment''),
      (None, [LangJavaScript, LangJsx], QFunctions, nl 12 @ ''(function_declaration name: (identifier) @name) @function'' @ nl 12 @
         ''(method_definition name: (property_identifier) @name) @function'' @ nl 12 @
         ''(function_expression name: (identifier)? @name) @function'' @ nl 12 @ ''(arrow_function) @function'' @ nl 12),
      (None, [LangJavaScript, LangJsx], QClasses, ''(class_declaration name: (identifier) @name) @class''),
      (None, [LangJavaScript, LangJsx], QCalls, ''(call_expression function: (_) @callee) @call''),
      (None, [LangJavaScript, LangJsx], QImports, ''(import_statement source: (string) @source) @import''),
      (None, [LangJavaScript, LangJsx], QComments, ''(comment) @comment''),
      (None, [LangPython], QFunctions, nl 12 @ ''(function_definition name: (identifier) @name) @function'' @ nl 12),
      (None, [LangPython], QClasses, ''(class_definition name: (identifier) @name) @class''),
      (None, [LangPython], QCalls, ''(call function: (_) @callee) @call''),
      (None, [LangPython], QImports, nl 12 @ ''(import_statement) @import'' @ nl 12 @ ''(import_from_statement) @import'' @ nl 12),
      (None, [LangPython], QDecorators, ''(decorator (_) @decorator_value) @decorator''),
      (None, [LangPython], QComments, ''(comment) @comment''),
      (None, [LangRust], QFunctions, nl 12 @ ''(function_item name: (identifier) @name) @function'' @ nl 12 @
         ''(function_signature_item name: (identifier) @name) @function'' @ nl 12),
      (None, [LangRust], QClasses, nl 12 @ ''(struct_item name: (type_identifier) @name) @class'' @ nl 12 @
         ''(enum_item name: (type_identifier) @name) @class'' @ nl 12 @ ''(trait_item name: (type_identifier) @name) @class'' @ nl 12 @
         ''(impl_item) @class'' @ nl 12),
      (None, [LangRust], QCalls, nl 12 @ ''(call_expression function: (_) @callee) @call'' @ nl 12 @
         ''(macro_invocation macro: (_) @callee) @call'' @ nl 12),
      (None, [LangRust], QImports, ''(use_declaration) @import''),
      (None, [LangRust], QDecorators, ''(attribute_item) @decorator''),
      (None, [LangRust], QComments, nl 12 @ ''(line_comment) @comment'' @ nl 12 @ ''(block_comment) @comment'' @ nl 12),
      (None, [LangGo], QFunctions, nl 12 @ ''(function_declaration name: (identifier) @name) @function'' @ nl 12 @
         ''(method_declaration name: (field_identifier) @name) @function'' @ nl 12),
      (None, [LangGo], QClasses, ''(type_declaration (type_spec name: (type_identifier) @name)) @class''),
      (None, [LangGo], QCalls, ''(call_expression function: (_) @callee) @call''),
      (None, [LangGo], QImports, ''(import_declaration) @import''),
      (None, [LangGo], QComments, ''(comment) @comment''),
      (None, [LangJava], QFunctions, ''(method_declaration name: (identifier) @name) @function''),
      (None, [LangJava], QClasses, nl 12 @ ''(class_declaration name: (identifier) @name) @class'' @ nl 12 @
         ''(interface_declaration name: (identifier) @name) @class'' @ nl 12),
      (None, [LangJava], QCalls, ''(method_invocation name: (identifier) @callee) @call''),
      (None, [LangJava], QImports, ''(import_declaration) @import''),
      (None, [LangJava], QDecorators, ''(annotation name: (identifier) @decorator_value) @decorator''),
      (None, [LangJava], QComments, nl 12 @ ''(line_comment) @comment'' @ nl 12 @ ''(block_comment) @comment'' @ nl 12),
      (None, [LangC, LangCpp], QFunctions, ''(function_definition declarator: (_) @name) @function''),
      (None, [LangCpp], QClasses, nl 12 @ ''(class_specifier name: (type_identifier) @name) @class'' @ nl 12 @
         ''(struct_specifier name: (type_identifier) @name) @class'' @ nl 12),
      (None, [LangC], QClasses, ''(struct_specifier name: (type_identifier) @name) @class''),
      (None, [LangC, LangCpp], QCalls, ''(call_expression function: (_) @callee) @call''),
      (None, [LangC, LangCpp], QImports, ''(preproc_include) @import''),
      (None, [LangC, LangCpp], QComments, ''(comment) @comment''),
      (None, [LangCSharp], QFunctions, ''(method_declaration name: (identifier) @name) @function''),
      (None, [LangCSharp], QClasses, nl 12 @ ''(class_declaration name: (identifier) @name) @class'' @ nl 12 @
         ''(interface_declaration name: (identifier) @name) @class'' @ nl 12),
      (None, [LangCSharp], QCalls, ''(invocation_expression function: (_) @callee) @call''),
      (None, [LangCSharp], QImports, ''(using_directive) @import''),
      (None, [LangCSharp], QComments, ''(comment) @comment''),
      (None, [LangRuby], QFunctions, ''(method name: (identifier) @name) @function''),
      (None, [LangRuby], QClasses, nl 12 @ ''(class name: (constant) @name) @class'' @ nl 12 @
         ''(module name: (constant) @name) @class'' @ nl 12),
      (None, [LangRuby], QCalls, ''(call) @call''),
      (None, [LangRuby], QImports, ''(call) @import''),
      (None, [LangRuby], QComments, ''(comment) @comment''),
      (None, [LangPhp], QFunctions, nl 12 @ ''(function_definition name: (name) @name) @function'' @ nl 12 @
         ''(method_declaration name: (name) @name) @function'' @ nl 12),
      (None, [LangPhp], QClasses, nl 12 @ ''(class_declaration name: (name) @name) @class'' @ nl 12 @
         ''(interface_declaration name: (name) @name) @class'' @ nl 12),
      (None, [LangPhp], QCalls, ''(function_call_expression function: (_) @callee) @call''),
      (None, [LangPhp], QImports, ''(namespace_use_declaration) @import''),
      (None, [LangPhp], QComments, ''(comment) @comment''),
      (None, [LangBash], QFunctions, ''(function_definition name: (word) @name) @function''),
      (None, [LangBash], QCalls, ''(command name: (command_name) @callee) @call''),
      (None, [LangBash], QComments, ''(comment) @comment''),
      (None, [LangJson], QComments, ''''),
      (Some ''toml'', [LangToml], QComments, ''(comment) @comment''),
      (Some ''yaml'', [LangYaml], QComments, ''(comment) @comment''),
      (Some ''markdown'', [LangMarkdown], QFunctions, ''''),
      (Some ''lua'', [LangLua], QFunctions, ''(function_declaration name: (_) @name) @function''),
      (Some ''lua'', [LangLua], QCalls, ''(function_call) @call''),
      (Some ''lua'', [LangLua], QComments, ''(comment) @comment'')]"

definition PATTERNS_TIER2 :: "pattern_arm list" where
  "PATTERNS_TIER2 =
     [(Some ''swift'', [LangSwift], QFunctions, ''(function_declaration name: (simple_identifier) @name) @function''),
      (Some ''swift'', [LangSwift], QClasses, nl 12 @ ''(class_declaration name: (type_identifier) @name) @class'' @ nl 12 @
         ''(protocol_declaration name: (type_identifier) @name) @class'' @ nl 12),
      (Some ''swift'', [LangSwift], QComments, ''(comment) @comment''),
      (Some ''kotlin'', [LangKotlin], QFunctions, ''(function_declaration (simple_identifier) @name) @function''),
      (Some ''kotlin'', [LangKotlin], QClasses, ''(class_declaration (type_identifier) @name) @class''),
      (Some ''kotlin'', [LangKotlin], QComments, nl 12 @ ''(line_comment) @comment'' @ nl 12 @ ''(multiline_comment) @comment'' @ nl 12),
      (Some ''scala'', [LangScala], QFunctions, nl 12 @ ''(function_definition name: (_) @name) @function'' @ nl 12 @
         ''(function_declaration name: (_) @name) @function'' @ nl 12),
      (Some ''scala'', [LangScala], QClasses, nl 12 @ ''(class_definition name: (identifier) @name) @class'' @ nl 12 @
         ''(object_definition name: (identifier) @name) @class'' @ nl 12 @ ''(trait_definition name: (identifier) @name) @class'' @ nl 12),
      (Some ''scala'', [LangScala], QComments, nl 12 @ ''(comment) @comment'' @ nl 12 @ ''(block_comment) @comment'' @ nl 12),
      (Some ''svelte'', [LangSvelte], QComments, ''(comment) @comment''),
      (Some ''solidity'', [LangSolidity], QFunctions, nl 12 @ ''(function_definition name: (_) @name) @function'' @ nl 12 @
         ''(modifier_definition name: (_) @name) @function'' @ nl 12),
      (Some ''solidity'', [LangSolidity], QClasses, nl 12 @ ''(contract_declaration name: (_) @name) @class'' @ nl 12 @
         ''(interface_declaration name: (_) @name) @class'' @ nl 12 @ ''(library_declaration name: (_) @name) @class'' @ nl 12),
      (Some ''solidity'', [LangSolidity], QComments, ''(comment) @comment''),
      (Some ''julia'', [LangJulia], QFunctions, nl 12 @
         ''(function_definition (signature (call_expression (identifier) @name))) @function'' @ nl 12 @
         ''(function_definition (signature (identifier) @name)) @function'' @ nl 12 @
         ''(macro_definition (signature (call_expression (identifier) @name))) @function'' @ nl 12 @
         ''(assignment (call_expression (identifier) @name)) @function'' @ nl 12),
      (Some ''julia'', [LangJulia], QClasses, nl 12 @ ''(struct_definition (type_head (identifier) @name)) @class'' @ nl 12 @
         ''(abstract_definition (type_head (identifier) @name)) @class'' @ nl 12 @
         ''(primitive_definition (type_head (identifier) @name)) @class'' @ nl 12),
      (Some ''julia'', [LangJulia], QComments, nl 12 @ ''(line_comment) @comment'' @ nl 12 @ ''(block_comment) @comment'' @ nl 12),
      (Some ''zig'', [LangZig], QFunctions, nl 12 @ ''(function_declaration name: (identifier) @name) @function'' @ nl 12),
      (Some ''zig'', [LangZig], QClasses, nl 12 @ ''(variable_declaration (identifier) @name) @class'' @ nl 12),
      (Some ''zig'', [LangZig], QComments, nl 12 @ ''(comment) @comment'' @ nl 12),
      (Some ''haskell'', [LangHaskell], QFunctions, nl 12 @ ''(function name: (variable) @name) @function'' @ nl 12 @
         ''(signature name: (variable) @name) @function'' @ nl 12),
      (Some ''haskell'', [LangHaskell], QClasses, nl 12 @ ''(class name: (name) @name) @class'' @ nl 12 @
         ''(data_type name: (name) @name) @class'' @ nl 12 @ ''(newtype name: (name) @name) @class'' @ nl 12),
      (Some ''haskell'', [LangHaskell], QComments, nl 12 @ ''(comment) @comment'' @ nl 12)]"

definition arm_applies :: "string set \<Rightarrow> Language \<Rightarrow> QueryKind \<Rightarrow> pattern_arm \<Rightarrow> bool" where
  "arm_applies features l k arm =
     (case arm of (f, ls, k', _) \<Rightarrow> (case f of None \<Rightarrow> True | Some x \<Rightarrow> x \<in> features) \<and> l \<in> set ls \<and> k' = k)"

definition pattern_for :: "string set \<Rightarrow> Language \<Rightarrow> QueryKind \<Rightarrow> string" where
  "pattern_for features l k =
     (case List.find (arm_applies features l k) (PATTERNS @ PATTERNS_TIER2) of
        Some (_, _, _, text) \<Rightarrow> text
      | None \<Rightarrow> if l = LangVue then [] else if k = QErrors then ''(ERROR) @error'' else [])"

type_synonym 'q query_cache = "(Language \<times> QueryKind, 'q) hmap"

text \<open>The branch of the empty pattern compiles the empty text, as the other does its pattern.\<close>

definition get_query ::
  "string set \<Rightarrow> (Language \<Rightarrow> string \<Rightarrow> string + 'q) \<Rightarrow> Language \<Rightarrow> QueryKind \<Rightarrow> 'q query_cache \<Rightarrow>
   (ParserError + 'q) \<times> 'q query_cache" where
  "get_query features compile l k cache =
     (case hm_get cache (l, k) of
        Some q \<Rightarrow> (Inr q, cache)
      | None \<Rightarrow>
          (let pattern = pattern_for features l k in
           case tree_sitter_language features l of
             Inl e \<Rightarrow> (Inl (LanguageNotEnabled e), cache)
           | Inr _ \<Rightarrow>
               (case compile l pattern of
                  Inl e \<Rightarrow> (Inl (QueryCompile (lang_as_str l) (qk_as_str k) e), cache)
                | Inr q \<Rightarrow> (Inr q, hm_insert (l, k) q cache))))"

definition warm_up ::
  "string set \<Rightarrow> (Language \<Rightarrow> string \<Rightarrow> string + 'q) \<Rightarrow> 'q query_cache \<Rightarrow> 'q query_cache" where
  "warm_up features compile cache =
     fold (\<lambda>l c. if is_enabled features l then fold (\<lambda>k c. snd (get_query features compile l k c)) QueryKind_ALL c else c)
       Language_ALL cache"

text \<open>A sequence of lookups, with what each returns.\<close>

fun lookups ::
  "string set \<Rightarrow> (Language \<Rightarrow> string \<Rightarrow> string + 'q) \<Rightarrow> (Language \<times> QueryKind) list \<Rightarrow> 'q query_cache \<Rightarrow>
   (ParserError + 'q) list" where
  "lookups features compile [] cache = []"
| "lookups features compile ((l, k) # xs) cache =
     (case get_query features compile l k cache of (r, cache') \<Rightarrow> r # lookups features compile xs cache')"

section \<open>The cache is invisible\<close>

definition compiled :: "string set \<Rightarrow> (Language \<Rightarrow> string \<Rightarrow> string + 'q) \<Rightarrow> Language \<Rightarrow> QueryKind \<Rightarrow> ParserError + 'q" where
  "compiled features compile l k = fst (get_query features compile l k [])"

definition coherent :: "string set \<Rightarrow> (Language \<Rightarrow> string \<Rightarrow> string + 'q) \<Rightarrow> 'q query_cache \<Rightarrow> bool" where
  "coherent features compile cache \<longleftrightarrow> (\<forall>l k q. hm_get cache (l, k) = Some q \<longrightarrow> compiled features compile l k = Inr q)"

lemma coherent_Nil [simp]: "coherent features compile []"
  by (simp add: coherent_def)

lemma get_query_coherent:
  assumes "coherent features compile cache"
  shows "fst (get_query features compile l k cache) = compiled features compile l k"
    and "coherent features compile (snd (get_query features compile l k cache))"
    and "hm_get (snd (get_query features compile l k cache)) (l', k') =
      (if (l', k') = (l, k) then (case compiled features compile l k of Inr q \<Rightarrow> Some q | Inl _ \<Rightarrow> None)
       else hm_get cache (l', k'))"
  using assms
  by (auto simp: coherent_def get_query_def compiled_def Let_def split: option.splits sum.splits if_splits)

lemma lookups_coherent:
  "coherent features compile cache \<Longrightarrow>
   lookups features compile xs cache = map (\<lambda>(l, k). compiled features compile l k) xs"
proof (induction xs arbitrary: cache)
  case (Cons x xs)
  then show ?case by (cases x) (simp add: get_query_coherent split_beta)
qed simp

lemma warm_kinds:
  assumes "coherent features compile c"
  shows "coherent features compile (fold (\<lambda>k c. snd (get_query features compile l k c)) ks c) \<and>
    (\<forall>l' k'. hm_get (fold (\<lambda>k c. snd (get_query features compile l k c)) ks c) (l', k') =
      (if l' = l \<and> k' \<in> set ks then (case compiled features compile l k' of Inr q \<Rightarrow> Some q | Inl _ \<Rightarrow> None)
       else hm_get c (l', k')))"
  using assms by (induction ks arbitrary: c) (auto simp: get_query_coherent)

lemma warm_languages:
  assumes "coherent features compile c"
  shows "let c' = fold (\<lambda>l c. if is_enabled features l then fold (\<lambda>k c. snd (get_query features compile l k c)) QueryKind_ALL c else c) ls c in
    coherent features compile c' \<and>
    (\<forall>l' k'. hm_get c' (l', k') =
      (if l' \<in> set ls \<and> is_enabled features l' then (case compiled features compile l' k' of Inr q \<Rightarrow> Some q | Inl _ \<Rightarrow> None)
       else hm_get c (l', k')))"
  using assms
proof (induction ls arbitrary: c)
  case (Cons l ls)
  let ?c = "if is_enabled features l then fold (\<lambda>k c. snd (get_query features compile l k c)) QueryKind_ALL c else c"
  have all: "k \<in> set QueryKind_ALL" for k by (cases k) (simp_all add: QueryKind_ALL_def)
  have "coherent features compile ?c" using warm_kinds[OF Cons.prems] Cons.prems by simp
  from Cons.IH[OF this] show ?case
    using warm_kinds[OF Cons.prems, of l QueryKind_ALL] by (auto simp: Let_def all)
qed simp

text \<open>
  The query cache is invisible. Before and after warming up, any sequence of lookups answers each query
  as compiling it afresh would, error or not; and warming up stores exactly the queries of the enabled
  languages that compile.
\<close>

theorem query_cache_transparent:
  "lookups features compile xs [] = map (\<lambda>(l, k). compiled features compile l k) xs \<and>
   lookups features compile xs (warm_up features compile []) = map (\<lambda>(l, k). compiled features compile l k) xs \<and>
   (\<forall>l k. hm_get (warm_up features compile []) (l, k) =
      (if is_enabled features l then (case compiled features compile l k of Inr q \<Rightarrow> Some q | Inl _ \<Rightarrow> None) else None))"
proof -
  have all: "l \<in> set Language_ALL" for l by (cases l) (simp_all add: Language_ALL_def)
  show ?thesis
    using warm_languages[OF coherent_Nil, of features compile Language_ALL]
    by (simp add: lookups_coherent warm_up_def Let_def all)
qed

end
