(* ===== verification/Extractor.thy ===== *)
theory Extractor
  imports Parser_Worker Query_Cache Common_Types
begin

text \<open>
  From a syntax tree to the nodes and edges of the code graph (\<open>parsers/src/extractor.rs\<close>). A tree is what
  tree-sitter documents of one: nodes with a kind, a range, two error flags and children under optional field
  names. Running a query, the text of a node, the error flag of a tree and the hash are arguments; a capture
  carries the ancestors of its node, nearest first.
\<close>

section \<open>Model\<close>

record ts_range =
  r_start_byte :: nat
  r_end_byte :: nat
  r_start_row :: nat
  r_end_row :: nat

datatype ts_node =
  TsNode (ts_kind: string) (ts_range: ts_range) (ts_is_error: bool) (ts_is_missing: bool)
    (ts_children: "(string option \<times> ts_node) list")

definition child_nodes :: "ts_node \<Rightarrow> ts_node list" where
  "child_nodes n = map snd (ts_children n)"

definition child_by_field_name :: "string \<Rightarrow> ts_node \<Rightarrow> ts_node option" where
  "child_by_field_name f n = map_option snd (List.find (\<lambda>(g, _). g = Some f) (ts_children n))"

record capture =
  cap_name :: string
  cap_node :: ts_node
  cap_ancestors :: "ts_node list"

record 'q tree_api =
  ta_query :: "Language \<Rightarrow> QueryKind \<Rightarrow> ParserError + 'q"
  ta_matches :: "'q \<Rightarrow> ts_node \<Rightarrow> bytes \<Rightarrow> capture list list"
  ta_text :: "ts_node \<Rightarrow> bytes \<Rightarrow> string option"
  ta_has_error :: "ts_node \<Rightarrow> bool"
  ta_blake3 :: "bytes \<Rightarrow> bytes"

subsection \<open>Utilities\<close>

text \<open>The derived \<open>Debug\<close> of the kind.\<close>

fun node_kind_debug :: "NodeKind \<Rightarrow> string" where
  "node_kind_debug NkFunction = ''Function''"
| "node_kind_debug NkMethod = ''Method''"
| "node_kind_debug NkClass = ''Class''"
| "node_kind_debug NkStruct = ''Struct''"
| "node_kind_debug NkTrait = ''Trait''"
| "node_kind_debug NkInterface = ''Interface''"
| "node_kind_debug NkEnum = ''Enum''"
| "node_kind_debug NkModule = ''Module''"
| "node_kind_debug NkVariable = ''Variable''"
| "node_kind_debug NkConstant = ''Constant''"
| "node_kind_debug NkDecorator = ''Decorator''"
| "node_kind_debug NkComment = ''Comment''"
| "node_kind_debug NkImport = ''Import''"
| "node_kind_debug NkFile = ''File''"

text \<open>\<open>usize::to_le_bytes\<close>: eight bytes, the least significant first.\<close>

definition to_le_bytes :: "nat \<Rightarrow> bytes" where
  "to_le_bytes n = map (\<lambda>i. word_of_nat (n div 256 ^ i)) [0..<8]"

definition id_preimage :: "path \<Rightarrow> nat \<Rightarrow> NodeKind \<Rightarrow> bytes" where
  "id_preimage p start k =
     string_bytes p @ string_bytes '':'' @ to_le_bytes start @ string_bytes '':'' @ string_bytes (node_kind_debug k)"

definition stable_id :: "(bytes \<Rightarrow> bytes) \<Rightarrow> path \<Rightarrow> nat \<Rightarrow> NodeKind \<Rightarrow> string" where
  "stable_id blake3 p start k = ''n_'' @ take 16 (hex (blake3 (id_preimage p start k)))"

definition count_lines :: "bytes \<Rightarrow> nat" where
  "count_lines bs = 1 + length (filter (\<lambda>b. b = 10) bs)"

definition issue_of :: "ts_node \<Rightarrow> SyntaxIssue" where
  "issue_of n =
     (let r = ts_range n in
      \<lparr>si_kind = (if ts_is_missing n then IssueMissing else IssueError), si_byte_range = (r_start_byte r, r_end_byte r),
       si_line_range = (r_start_row r + 1, r_end_row r + 1),
       si_hint = ts_kind n @ '' at line '' @ show_nat (r_start_row r + 1)\<rparr>)"

subsection \<open>Walks\<close>

fun tree_size :: "ts_node \<Rightarrow> nat" where
  "tree_size (TsNode k r e m cs) = Suc (sum_list (map (\<lambda>c. tree_size (snd c)) cs))"

text \<open>The stack is a list with its top first: pushing the children leaves the last child on top.\<close>

function iter_stack :: "ts_node list \<Rightarrow> ts_node list" where
  "iter_stack [] = []"
| "iter_stack (n # st) = n # iter_stack (rev (child_nodes n) @ st)"
  by pat_completeness auto
termination
proof (relation "measure (\<lambda>st. sum_list (map tree_size st))", goal_cases)
  case (2 n st)
  then show ?case by (cases n) (simp add: child_nodes_def rev_map[symmetric] sum_list_rev comp_def)
qed simp

definition iter_all :: "ts_node \<Rightarrow> ts_node list" where
  "iter_all root = iter_stack [root]"

function walk_stack :: "ts_node list \<Rightarrow> SyntaxIssue list \<Rightarrow> SyntaxIssue list" where
  "walk_stack [] out = out"
| "walk_stack (n # st) out =
     walk_stack (rev (child_nodes n) @ st) (if ts_is_error n \<or> ts_is_missing n then out @ [issue_of n] else out)"
  by pat_completeness auto
termination
proof (relation "measure (\<lambda>(st, _). sum_list (map tree_size st))", goal_cases)
  case (2 n st out)
  then show ?case by (cases n) (simp add: child_nodes_def rev_map[symmetric] sum_list_rev comp_def)
qed simp

definition walk_for_errors :: "ts_node \<Rightarrow> SyntaxIssue list \<Rightarrow> SyntaxIssue list" where
  "walk_for_errors root out = walk_stack [root] out"

definition is_callable_kind :: "string \<Rightarrow> Language \<Rightarrow> bool" where
  "is_callable_kind k l =
     (case l of
        LangPython \<Rightarrow> k = ''function_definition''
      | LangRust \<Rightarrow> k \<in> {''function_item'', ''function_signature_item''}
      | LangGo \<Rightarrow> k \<in> {''function_declaration'', ''method_declaration''}
      | LangJava \<Rightarrow> k = ''method_declaration''
      | LangCSharp \<Rightarrow> k = ''method_declaration''
      | LangC \<Rightarrow> k = ''function_definition''
      | LangCpp \<Rightarrow> k = ''function_definition''
      | LangRuby \<Rightarrow> k = ''method''
      | LangPhp \<Rightarrow> k \<in> {''function_definition'', ''method_declaration''}
      | LangBash \<Rightarrow> k = ''function_definition''
      | LangTypeScript \<Rightarrow> k \<in> {''function_declaration'', ''method_definition'', ''function_expression'', ''arrow_function''}
      | LangTsx \<Rightarrow> k \<in> {''function_declaration'', ''method_definition'', ''function_expression'', ''arrow_function''}
      | LangJavaScript \<Rightarrow> k \<in> {''function_declaration'', ''method_definition'', ''function_expression'', ''arrow_function''}
      | LangJsx \<Rightarrow> k \<in> {''function_declaration'', ''method_definition'', ''function_expression'', ''arrow_function''}
      | LangSwift \<Rightarrow> k = ''function_declaration''
      | LangKotlin \<Rightarrow> k = ''function_declaration''
      | LangScala \<Rightarrow> k \<in> {''function_definition'', ''function_declaration''}
      | LangSolidity \<Rightarrow> k \<in> {''function_definition'', ''modifier_definition''}
      | LangJulia \<Rightarrow> k \<in> {''function_definition'', ''short_function_definition''}
      | LangZig \<Rightarrow> k = ''FnProto''
      | LangHaskell \<Rightarrow> k = ''function''
      | _ \<Rightarrow> k \<in> {''function_declaration'', ''function_definition''})"

definition enclosing_callable :: "capture \<Rightarrow> Language \<Rightarrow> ts_node option" where
  "enclosing_callable c l = List.find (\<lambda>n. is_callable_kind (ts_kind n) l) (cap_node c # cap_ancestors c)"

subsection \<open>Collectors\<close>

definition collect_errors :: "'q tree_api \<Rightarrow> Language \<Rightarrow> ts_node \<Rightarrow> bytes \<Rightarrow> SyntaxIssue list" where
  "collect_errors A l tree bs =
     (let out = (case ta_query A l QErrors of
                   Inr q \<Rightarrow> concat (map (\<lambda>m. map (\<lambda>c. issue_of (cap_node c)) m) (ta_matches A q tree bs))
                 | Inl _ \<Rightarrow> [])
      in if ta_has_error A tree \<and> out = [] then walk_for_errors tree out else out)"

text \<open>The text of the first capture of that name.\<close>

definition capture_text :: "'q tree_api \<Rightarrow> string \<Rightarrow> capture list \<Rightarrow> bytes \<Rightarrow> string option" where
  "capture_text A name m bs =
     (case List.find (\<lambda>c. cap_name c = name) m of Some c \<Rightarrow> ta_text A (cap_node c) bs | None \<Rightarrow> None)"

definition graph_node :: "'q tree_api \<Rightarrow> Language \<Rightarrow> path \<Rightarrow> NodeKind \<Rightarrow> string \<Rightarrow> ts_node \<Rightarrow> Confidence \<Rightarrow> Node" where
  "graph_node A l p kind name outer conf =
     (let r = ts_range outer in
      \<lparr>n_id = stable_id (ta_blake3 A) p (r_start_byte r) kind, n_kind = kind, n_name = name, n_file = p,
       n_byte_range = (r_start_byte r, r_end_byte r), n_line_range = (r_start_row r + 1, r_end_row r + 1),
       n_language = l, n_confidence = conf\<rparr>)"

definition collect_named ::
  "'q tree_api \<Rightarrow> Language \<Rightarrow> ts_node \<Rightarrow> bytes \<Rightarrow> path \<Rightarrow> QueryKind \<Rightarrow> NodeKind \<Rightarrow> Confidence \<Rightarrow> string \<Rightarrow> extracted \<Rightarrow>
   ParserError + extracted" where
  "collect_named A l tree bs p qk kind conf file_id out =
     (case ta_query A l qk of
        Inl e \<Rightarrow> Inl e
      | Inr q \<Rightarrow> Inr (fold (\<lambda>m out.
          if m = [] then out
          else let outer = cap_node (last m);
                   name = (case capture_text A ''name'' m bs of Some s \<Rightarrow> s | None \<Rightarrow> []);
                   node = graph_node A l p kind name outer conf
               in out\<lparr>ex_nodes := ex_nodes out @ [node],
                      ex_edges := ex_edges out @
                        [\<lparr>e_from = file_id, e_to = n_id node, e_kind = EkContains, e_confidence = conf, e_unresolved_target = None\<rparr>]\<rparr>)
          (ta_matches A q tree bs) out))"

definition trim_set :: "string \<Rightarrow> string \<Rightarrow> string" where
  "trim_set cs s = rev (dropWhile (\<lambda>c. c \<in> set cs) (rev (dropWhile (\<lambda>c. c \<in> set cs) s)))"

text \<open>\<open>s.lines().next()\<close>.\<close>

definition first_line :: "string \<Rightarrow> string option" where
  "first_line s =
     (if s = [] then None
      else let t = takeWhile (\<lambda>c. c \<noteq> CHR 0x0A) s in
        Some (if length t < length s \<and> ends_with t [CHR 0x0D] then butlast t else t))"

definition import_target :: "'q tree_api \<Rightarrow> capture list \<Rightarrow> bytes \<Rightarrow> string" where
  "import_target A m bs =
     (case capture_text A ''source'' m bs of
        Some s \<Rightarrow> trim_set [CHR 0x22, CHR 0x27] s
      | None \<Rightarrow>
          (let t = (case ta_text A (cap_node (last m)) bs of Some s \<Rightarrow> s | None \<Rightarrow> ''<unknown>'') in
           trim (case first_line t of Some s \<Rightarrow> s | None \<Rightarrow> ''<unknown>'')))"

definition collect_imports ::
  "'q tree_api \<Rightarrow> Language \<Rightarrow> ts_node \<Rightarrow> bytes \<Rightarrow> path \<Rightarrow> Confidence \<Rightarrow> string \<Rightarrow> extracted \<Rightarrow> ParserError + extracted" where
  "collect_imports A l tree bs p conf file_id out =
     (case ta_query A l QImports of
        Inl e \<Rightarrow> Inl e
      | Inr q \<Rightarrow> Inr (fold (\<lambda>m out.
          if m = [] then out
          else let target = import_target A m bs;
                   node = graph_node A l p NkImport target (cap_node (last m)) conf
               in out\<lparr>ex_nodes := ex_nodes out @ [node],
                      ex_edges := ex_edges out @
                        [\<lparr>e_from = file_id, e_to = n_id node, e_kind = EkImports, e_confidence = conf,
                          e_unresolved_target = Some target\<rparr>]\<rparr>)
          (ta_matches A q tree bs) out))"

definition call_edge :: "'q tree_api \<Rightarrow> Language \<Rightarrow> bytes \<Rightarrow> path \<Rightarrow> Confidence \<Rightarrow> capture list \<Rightarrow> Edge" where
  "call_edge A l bs p conf m =
     (let callee = (case capture_text A ''callee'' m bs of Some s \<Rightarrow> s | None \<Rightarrow> ''<unresolved>'') in
      \<lparr>e_from = (case enclosing_callable (last m) l of
                  Some n \<Rightarrow> stable_id (ta_blake3 A) p (r_start_byte (ts_range n)) NkFunction
                | None \<Rightarrow> stable_id (ta_blake3 A) p 0 NkFile),
       e_to = ''call::'' @ p @ ''::'' @ callee, e_kind = EkCalls, e_confidence = conf, e_unresolved_target = Some callee\<rparr>)"

definition collect_calls ::
  "'q tree_api \<Rightarrow> Language \<Rightarrow> ts_node \<Rightarrow> bytes \<Rightarrow> path \<Rightarrow> Confidence \<Rightarrow> extracted \<Rightarrow> ParserError + extracted" where
  "collect_calls A l tree bs p conf out =
     (case ta_query A l QCalls of
        Inl e \<Rightarrow> Inl e
      | Inr q \<Rightarrow> Inr (fold (\<lambda>m out.
          if m = [] then out else out\<lparr>ex_edges := ex_edges out @ [call_edge A l bs p conf m]\<rparr>)
          (ta_matches A q tree bs) out))"

definition parent_target :: "'q tree_api \<Rightarrow> Language \<Rightarrow> bytes \<Rightarrow> ts_node \<Rightarrow> string option" where
  "parent_target A l bs n =
     (if l = LangPython \<and> ts_kind n = ''class_definition''
      then (case child_by_field_name ''superclasses'' n of
              Some s \<Rightarrow> map_option (trim_set ''()'') (ta_text A s bs) | None \<Rightarrow> None)
      else if l \<in> {LangTypeScript, LangTsx, LangJavaScript, LangJsx} \<and> ts_kind n = ''class_declaration''
      then (case (case child_by_field_name ''heritage'' n of
                    Some s \<Rightarrow> Some s | None \<Rightarrow> child_by_field_name ''superclass'' n) of
              Some s \<Rightarrow> ta_text A s bs | None \<Rightarrow> None)
      else if l = LangJava \<and> ts_kind n = ''class_declaration''
      then (case child_by_field_name ''superclass'' n of Some s \<Rightarrow> ta_text A s bs | None \<Rightarrow> None)
      else None)"

definition collect_inheritance ::
  "'q tree_api \<Rightarrow> Language \<Rightarrow> ts_node \<Rightarrow> bytes \<Rightarrow> path \<Rightarrow> Confidence \<Rightarrow> extracted \<Rightarrow> extracted" where
  "collect_inheritance A l tree bs p conf out =
     fold (\<lambda>n out.
        case parent_target A l bs n of
          None \<Rightarrow> out
        | Some target \<Rightarrow>
            out\<lparr>ex_edges := ex_edges out @
              [\<lparr>e_from = stable_id (ta_blake3 A) p (r_start_byte (ts_range n)) NkClass,
                e_to = ''ext::'' @ p @ ''::'' @ trim target, e_kind = EkInherits, e_confidence = conf,
                e_unresolved_target = Some (trim target)\<rparr>]\<rparr>) (iter_all tree) out"

text \<open>The file node; the steps of \<open>extract\<close> stop at the first query that does not compile.\<close>

definition file_node :: "'q tree_api \<Rightarrow> Language \<Rightarrow> bytes \<Rightarrow> path \<Rightarrow> Node" where
  "file_node A l bs p =
     \<lparr>n_id = stable_id (ta_blake3 A) p 0 NkFile, n_kind = NkFile,
      n_name = (case file_name p of Some s \<Rightarrow> s | None \<Rightarrow> []), n_file = p, n_byte_range = (0, length bs),
      n_line_range = (1, count_lines bs), n_language = l, n_confidence = Extracted\<rparr>"

fun run_steps :: "(extracted \<Rightarrow> ParserError + extracted) list \<Rightarrow> extracted \<Rightarrow> ParserError + extracted" where
  "run_steps [] out = Inr out"
| "run_steps (f # fs) out = (case f out of Inl e \<Rightarrow> Inl e | Inr out' \<Rightarrow> run_steps fs out')"

definition extract_graph :: "'q tree_api \<Rightarrow> Language \<Rightarrow> ts_node \<Rightarrow> bytes \<Rightarrow> path \<Rightarrow> ParserError + extracted" where
  "extract_graph A l tree bs p =
     (let issues = collect_errors A l tree bs;
          conf = (if issues \<noteq> [] then Ambiguous else Extracted);
          fnode = file_node A l bs p;
          fid = n_id fnode
      in run_steps
           [collect_named A l tree bs p QFunctions NkFunction conf fid,
            collect_named A l tree bs p QClasses NkClass conf fid,
            collect_named A l tree bs p QDecorators NkDecorator conf fid,
            collect_named A l tree bs p QComments NkComment conf fid,
            collect_imports A l tree bs p conf fid,
            collect_calls A l tree bs p conf,
            (\<lambda>out. Inr (collect_inheritance A l tree bs p conf out))]
           \<lparr>ex_nodes = [fnode], ex_edges = [], ex_issues = issues\<rparr>)"

section \<open>The walks visit every node once\<close>

text \<open>The tree in pre-order, children from the last.\<close>

fun preorder :: "ts_node \<Rightarrow> ts_node list" where
  "preorder (TsNode k r e m cs) = TsNode k r e m cs # concat (map (\<lambda>c. preorder (snd c)) (rev cs))"

lemma iter_stack_preorder: "iter_stack st = concat (map preorder st)"
proof (induction st rule: iter_stack.induct)
  case (2 n st)
  then show ?case by (cases n) (simp add: child_nodes_def rev_map comp_def)
qed simp

lemma iter_all_preorder: "iter_all t = preorder t"
  by (simp add: iter_all_def iter_stack_preorder)

lemma walk_stack_iter: "walk_stack st out = out @ map issue_of (filter (\<lambda>n. ts_is_error n \<or> ts_is_missing n) (iter_stack st))"
  by (induction st out rule: walk_stack.induct) auto

lemma walk_for_errors_preorder:
  "walk_for_errors t out = out @ map issue_of (filter (\<lambda>n. ts_is_error n \<or> ts_is_missing n) (preorder t))"
  by (simp add: walk_for_errors_def walk_stack_iter iter_stack_preorder)

section \<open>What is extracted\<close>

definition matched :: "'q tree_api \<Rightarrow> Language \<Rightarrow> QueryKind \<Rightarrow> ts_node \<Rightarrow> bytes \<Rightarrow> capture list list" where
  "matched A l qk tree bs =
     (case ta_query A l qk of Inr q \<Rightarrow> filter (\<lambda>m. m \<noteq> []) (ta_matches A q tree bs) | Inl _ \<Rightarrow> [])"

definition named_node :: "'q tree_api \<Rightarrow> Language \<Rightarrow> bytes \<Rightarrow> path \<Rightarrow> NodeKind \<Rightarrow> Confidence \<Rightarrow> capture list \<Rightarrow> Node" where
  "named_node A l bs p kind conf m =
     graph_node A l p kind (case capture_text A ''name'' m bs of Some s \<Rightarrow> s | None \<Rightarrow> []) (cap_node (last m)) conf"

definition import_node :: "'q tree_api \<Rightarrow> Language \<Rightarrow> bytes \<Rightarrow> path \<Rightarrow> Confidence \<Rightarrow> capture list \<Rightarrow> Node" where
  "import_node A l bs p conf m = graph_node A l p NkImport (import_target A m bs) (cap_node (last m)) conf"

definition contains_edge :: "string \<Rightarrow> Node \<Rightarrow> Edge" where
  "contains_edge fid n =
     \<lparr>e_from = fid, e_to = n_id n, e_kind = EkContains, e_confidence = n_confidence n, e_unresolved_target = None\<rparr>"

definition import_edge :: "string \<Rightarrow> Node \<Rightarrow> Edge" where
  "import_edge fid n =
     \<lparr>e_from = fid, e_to = n_id n, e_kind = EkImports, e_confidence = n_confidence n, e_unresolved_target = Some (n_name n)\<rparr>"

definition inherits_edges :: "'q tree_api \<Rightarrow> Language \<Rightarrow> bytes \<Rightarrow> path \<Rightarrow> Confidence \<Rightarrow> ts_node \<Rightarrow> Edge list" where
  "inherits_edges A l bs p conf n =
     (case parent_target A l bs n of
        None \<Rightarrow> []
      | Some target \<Rightarrow>
          [\<lparr>e_from = stable_id (ta_blake3 A) p (r_start_byte (ts_range n)) NkClass,
            e_to = ''ext::'' @ p @ ''::'' @ trim target, e_kind = EkInherits, e_confidence = conf,
            e_unresolved_target = Some (trim target)\<rparr>])"

lemma fold_extracted:
  "fold (\<lambda>m out. if m = [] then out
      else out\<lparr>ex_nodes := ex_nodes out @ [f m], ex_edges := ex_edges out @ [g m]\<rparr>) ms out =
   out\<lparr>ex_nodes := ex_nodes out @ map f (filter (\<lambda>m. m \<noteq> []) ms), ex_edges := ex_edges out @ map g (filter (\<lambda>m. m \<noteq> []) ms)\<rparr>"
  by (induction ms arbitrary: out) auto

lemma fold_edges:
  "fold (\<lambda>m out. if m = [] then out else out\<lparr>ex_edges := ex_edges out @ [g m]\<rparr>) ms out =
   out\<lparr>ex_edges := ex_edges out @ map g (filter (\<lambda>m. m \<noteq> []) ms)\<rparr>"
  by (induction ms arbitrary: out) auto

lemma graph_node_fields [simp]:
  "n_id (graph_node A l p kind name outer conf) = stable_id (ta_blake3 A) p (r_start_byte (ts_range outer)) kind"
  "n_kind (graph_node A l p kind name outer conf) = kind" "n_name (graph_node A l p kind name outer conf) = name"
  "n_file (graph_node A l p kind name outer conf) = p" "n_language (graph_node A l p kind name outer conf) = l"
  "n_confidence (graph_node A l p kind name outer conf) = conf"
  by (simp_all add: graph_node_def Let_def)

lemma collect_named_Inr:
  "collect_named A l tree bs p qk kind conf fid out = Inr out' \<longleftrightarrow>
   \<not> isl (ta_query A l qk) \<and>
   out' = out\<lparr>ex_nodes := ex_nodes out @ map (named_node A l bs p kind conf) (matched A l qk tree bs),
              ex_edges := ex_edges out @ map (contains_edge fid \<circ> named_node A l bs p kind conf) (matched A l qk tree bs)\<rparr>"
  unfolding collect_named_def Let_def fold_extracted
  by (auto simp: matched_def named_node_def contains_edge_def comp_def split: sum.splits)

lemma collect_imports_Inr:
  "collect_imports A l tree bs p conf fid out = Inr out' \<longleftrightarrow>
   \<not> isl (ta_query A l QImports) \<and>
   out' = out\<lparr>ex_nodes := ex_nodes out @ map (import_node A l bs p conf) (matched A l QImports tree bs),
              ex_edges := ex_edges out @ map (import_edge fid \<circ> import_node A l bs p conf) (matched A l QImports tree bs)\<rparr>"
  unfolding collect_imports_def Let_def fold_extracted
  by (auto simp: matched_def import_node_def import_edge_def comp_def split: sum.splits)

lemma collect_calls_Inr:
  "collect_calls A l tree bs p conf out = Inr out' \<longleftrightarrow>
   \<not> isl (ta_query A l QCalls) \<and>
   out' = out\<lparr>ex_edges := ex_edges out @ map (call_edge A l bs p conf) (matched A l QCalls tree bs)\<rparr>"
  by (auto simp: collect_calls_def Let_def fold_edges matched_def split: sum.splits)

lemma collect_inheritance_eq:
  "collect_inheritance A l tree bs p conf out =
   out\<lparr>ex_edges := ex_edges out @ concat (map (inherits_edges A l bs p conf) (preorder tree))\<rparr>"
proof -
  have "fold (\<lambda>n out. case parent_target A l bs n of None \<Rightarrow> out
        | Some target \<Rightarrow> out\<lparr>ex_edges := ex_edges out @
              [\<lparr>e_from = stable_id (ta_blake3 A) p (r_start_byte (ts_range n)) NkClass,
                e_to = ''ext::'' @ p @ ''::'' @ trim target, e_kind = EkInherits, e_confidence = conf,
                e_unresolved_target = Some (trim target)\<rparr>]\<rparr>) ns out =
      out\<lparr>ex_edges := ex_edges out @ concat (map (inherits_edges A l bs p conf) ns)\<rparr>" for ns
    by (induction ns arbitrary: out) (auto simp: inherits_edges_def split: option.split)
  then show ?thesis by (simp add: collect_inheritance_def iter_all_preorder)
qed

definition NAMED :: "(QueryKind \<times> NodeKind) list" where
  "NAMED = [(QFunctions, NkFunction), (QClasses, NkClass), (QDecorators, NkDecorator), (QComments, NkComment)]"

definition conf_of :: "SyntaxIssue list \<Rightarrow> Confidence" where
  "conf_of issues = (if issues \<noteq> [] then Ambiguous else Extracted)"

definition named_nodes :: "'q tree_api \<Rightarrow> Language \<Rightarrow> ts_node \<Rightarrow> bytes \<Rightarrow> path \<Rightarrow> Confidence \<Rightarrow> Node list" where
  "named_nodes A l tree bs p conf =
     concat (map (\<lambda>(qk, kind). map (named_node A l bs p kind conf) (matched A l qk tree bs)) NAMED)"

definition import_nodes :: "'q tree_api \<Rightarrow> Language \<Rightarrow> ts_node \<Rightarrow> bytes \<Rightarrow> path \<Rightarrow> Confidence \<Rightarrow> Node list" where
  "import_nodes A l tree bs p conf = map (import_node A l bs p conf) (matched A l QImports tree bs)"

lemma extract_result:
  assumes "extract_graph A l tree bs p = Inr g"
  defines "conf \<equiv> conf_of (collect_errors A l tree bs)"
  shows "ex_issues g = collect_errors A l tree bs"
    and "ex_nodes g = file_node A l bs p # named_nodes A l tree bs p conf @ import_nodes A l tree bs p conf"
    and "ex_edges g =
      map (contains_edge (n_id (file_node A l bs p))) (named_nodes A l tree bs p conf) @
      map (import_edge (n_id (file_node A l bs p))) (import_nodes A l tree bs p conf) @
      map (call_edge A l bs p conf) (matched A l QCalls tree bs) @
      concat (map (inherits_edges A l bs p conf) (preorder tree))"
proof -
  have g: "g = \<lparr>ex_nodes = file_node A l bs p # named_nodes A l tree bs p conf @ import_nodes A l tree bs p conf,
      ex_edges = map (contains_edge (n_id (file_node A l bs p))) (named_nodes A l tree bs p conf) @
        map (import_edge (n_id (file_node A l bs p))) (import_nodes A l tree bs p conf) @
        map (call_edge A l bs p conf) (matched A l QCalls tree bs) @
        concat (map (inherits_edges A l bs p conf) (preorder tree)),
      ex_issues = collect_errors A l tree bs\<rparr>"
    using assms(1)
    by (simp add: extract_graph_def Let_def conf_def conf_of_def[symmetric] split: sum.splits)
      (simp add: collect_named_Inr collect_imports_Inr collect_calls_Inr collect_inheritance_eq named_nodes_def
        import_nodes_def NAMED_def comp_def)
  then show "ex_issues g = collect_errors A l tree bs"
    "ex_nodes g = file_node A l bs p # named_nodes A l tree bs p conf @ import_nodes A l tree bs p conf"
    "ex_edges g =
      map (contains_edge (n_id (file_node A l bs p))) (named_nodes A l tree bs p conf) @
      map (import_edge (n_id (file_node A l bs p))) (import_nodes A l tree bs p conf) @
      map (call_edge A l bs p conf) (matched A l QCalls tree bs) @
      concat (map (inherits_edges A l bs p conf) (preorder tree))"
    by simp_all
qed

text \<open>A file with one function and a call in it; the captures of a match from the outside in.\<close>

definition demo_name :: ts_node where
  "demo_name = TsNode ''identifier'' \<lparr>r_start_byte = 4, r_end_byte = 5, r_start_row = 0, r_end_row = 0\<rparr> False False []"

definition demo_call :: ts_node where
  "demo_call = TsNode ''call'' \<lparr>r_start_byte = 9, r_end_byte = 12, r_start_row = 0, r_end_row = 0\<rparr> False False []"

definition demo_function :: ts_node where
  "demo_function = TsNode ''function_definition'' \<lparr>r_start_byte = 0, r_end_byte = 12, r_start_row = 0, r_end_row = 0\<rparr> False False
     [(Some ''name'', demo_name), (Some ''body'', demo_call)]"

definition demo_matches :: "QueryKind \<Rightarrow> ts_node \<Rightarrow> bytes \<Rightarrow> capture list list" where
  "demo_matches k _ _ =
     (case k of
        QFunctions \<Rightarrow> [[\<lparr>cap_name = ''function'', cap_node = demo_function, cap_ancestors = []\<rparr>,
                        \<lparr>cap_name = ''name'', cap_node = demo_name, cap_ancestors = [demo_function]\<rparr>]]
      | QCalls \<Rightarrow> [[\<lparr>cap_name = ''call'', cap_node = demo_call, cap_ancestors = [demo_function]\<rparr>]]
      | _ \<Rightarrow> [])"

definition demo_api :: "QueryKind tree_api" where
  "demo_api = \<lparr>ta_query = (\<lambda>_ k. Inr k), ta_matches = demo_matches, ta_text = (\<lambda>_ _. Some ''f''), ta_has_error = (\<lambda>_. False),
     ta_blake3 = (\<lambda>x. x ! 2 # take 7 (drop 11 x))\<rparr>"

definition demo_graph :: extracted where
  "demo_graph = (case extract_graph demo_api LangPython demo_function [] ''a'' of Inr g \<Rightarrow> g)"

lemma demo_extracted: "extract_graph demo_api LangPython demo_function [] ''a'' = Inr demo_graph"
  by (simp add: demo_graph_def extract_graph_def collect_named_def collect_imports_def collect_calls_def demo_api_def Let_def)

lemma length_hex: "length (hex bs) = 2 * length bs"
  by (induction bs) (simp_all add: hex_def)

lemma hex_inj: "hex a = hex b \<Longrightarrow> a = b"
proof (induction a b rule: list_induct2')
  case (4 x xs y ys)
  have d: "distinct ''0123456789abcdef''" by simp
  have inj: "m = n" if "hex_char m = hex_char n" "m < 16" "n < 16" for m n
    using that nth_eq_iff_index_eq[OF d, of m n] by (simp add: hex_char_def)
  have lt: "unat w div 16 < 16" "unat w mod 16 < 16" for w :: "8 word"
  proof -
    have "unat w < 256" using unsigned_less[of w] by simp
    then show "unat w div 16 < 16" "unat w mod 16 < 16" by simp_all
  qed
  have "unat x div 16 = unat y div 16" "unat x mod 16 = unat y mod 16"
    using 4(2) lt[of x] lt[of y] by (auto simp: hex_def intro!: inj)
  then have "unat x = unat y" by (metis div_mult_mod_eq)
  then have "x = y" by (simp add: unsigned_word_eqI)
  with 4 show ?case by (simp add: hex_def)
qed (simp_all add: hex_def)

lemma demo_id: "stable_id (ta_blake3 demo_api) ''a'' s k = ''n_'' @ hex (word_of_nat s # take 7 (string_bytes (node_kind_debug k)))"
proof -
  have "to_le_bytes s = word_of_nat s # map (\<lambda>i. word_of_nat (s div 256 ^ i)) [1..<8]"
    by (simp add: to_le_bytes_def upt_conv_Cons)
  then show ?thesis
    by (simp add: stable_id_def demo_api_def id_preimage_def string_bytes_def length_hex)
qed

lemma call_edge_kind [simp]: "e_kind (call_edge A l bs p c m) = EkCalls"
  by (simp add: call_edge_def Let_def)

lemma inherits_kind: "e \<in> set (inherits_edges A l bs p c n) \<Longrightarrow> e_kind e = EkInherits"
  by (auto simp: inherits_edges_def split: option.splits)

lemma demo_extracts: "\<exists>g. extract_graph demo_api l t bs p = Inr g"
  by (simp add: extract_graph_def collect_named_def collect_imports_def collect_calls_def demo_api_def Let_def)

text \<open>
  C23: the extracted graph is anchored at its file. When extraction succeeds, the first node is the file's;
  every node belongs to the file and has the identifier its kind and first byte determine; and the
  containment and import edges lead from the file's node to each of the other nodes once, in order.
\<close>

theorem extract_anchored:
  assumes "extract_graph A l tree bs p = Inr g"
  shows "ex_nodes g \<noteq> [] \<and> hd (ex_nodes g) = file_node A l bs p \<and>
    (\<forall>n \<in> set (ex_nodes g). n_file n = p \<and> n_language n = l \<and>
       n_id n = stable_id (ta_blake3 A) p (fst (n_byte_range n)) (n_kind n) \<and> 1 \<le> fst (n_line_range n)) \<and>
    map e_to (filter (\<lambda>e. e_kind e \<in> {EkContains, EkImports}) (ex_edges g)) = map n_id (tl (ex_nodes g)) \<and>
    (\<forall>e \<in> set (ex_edges g). e_kind e \<in> {EkContains, EkImports} \<longrightarrow> e_from e = stable_id (ta_blake3 A) p 0 NkFile)"
proof -
  note r = extract_result[OF assms]
  have "n_file n = p \<and> n_language n = l \<and>
       n_id n = stable_id (ta_blake3 A) p (fst (n_byte_range n)) (n_kind n) \<and> 1 \<le> fst (n_line_range n)"
    if "n \<in> set (ex_nodes g)" for n
    using that
    by (auto simp: r(2) file_node_def named_nodes_def import_nodes_def named_node_def import_node_def graph_node_def Let_def)
  moreover have "filter (\<lambda>e. e_kind e \<in> {EkContains, EkImports}) (concat (map (inherits_edges A l bs p c) ns)) = []" for c ns
    by (auto simp: filter_empty_conv inherits_kind)
  then have "map e_to (filter (\<lambda>e. e_kind e \<in> {EkContains, EkImports}) (ex_edges g)) = map n_id (tl (ex_nodes g))"
    unfolding r(2,3) by (simp add: contains_edge_def import_edge_def comp_def)
  moreover have "e_from e = stable_id (ta_blake3 A) p 0 NkFile"
    if "e \<in> set (ex_edges g)" "e_kind e \<in> {EkContains, EkImports}" for e
  proof -
    have "e \<notin> set (concat (map (inherits_edges A l bs p c) ns))" for c ns using that(2) by (auto dest: inherits_kind)
    with that show ?thesis by (auto simp: r(3) contains_edge_def import_edge_def file_node_def)
  qed
  ultimately show ?thesis by (simp add: r(2))
qed

theorem extract_anchored_witness:
  "map e_to (filter (\<lambda>e. e_kind e \<in> {EkContains, EkImports}) (ex_edges demo_graph)) = map n_id (tl (ex_nodes demo_graph))"
  using extract_anchored[OF demo_extracted] by (elim conjE)

definition broken :: "ts_node \<Rightarrow> bool" where
  "broken t = list_ex (\<lambda>n. ts_is_error n \<or> ts_is_missing n) (preorder t)"

text \<open>
  Syntax errors always show. Assume that tree-sitter flags a tree exactly when an error or missing node is
  in it and that the error query captures only error nodes of the tree. Then issues are reported exactly for
  broken trees, each for an offending node, and everything extracted but the file's own node is marked
  ambiguous if the tree is broken and as extracted if it is not.
\<close>

theorem syntax_errors_degrade:
  assumes flag: "ta_has_error A tree \<longleftrightarrow> broken tree"
    and query: "\<forall>q. ta_query A l QErrors = Inr q \<longrightarrow>
      (\<forall>m \<in> set (ta_matches A q tree bs). \<forall>c \<in> set m. cap_node c \<in> set (preorder tree) \<and> ts_is_error (cap_node c))"
    and g: "extract_graph A l tree bs p = Inr g"
  shows "(ex_issues g \<noteq> [] \<longleftrightarrow> broken tree) \<and>
    set (ex_issues g) \<subseteq> issue_of ` {n \<in> set (preorder tree). ts_is_error n \<or> ts_is_missing n} \<and>
    (\<forall>n \<in> set (tl (ex_nodes g)). n_confidence n = (if broken tree then Ambiguous else Extracted)) \<and>
    (\<forall>e \<in> set (ex_edges g). e_confidence e = (if broken tree then Ambiguous else Extracted))"
proof -
  note r = extract_result[OF g]
  have sub: "set (collect_errors A l tree bs) \<subseteq> issue_of ` {n \<in> set (preorder tree). ts_is_error n \<or> ts_is_missing n}"
    using query by (auto simp: collect_errors_def Let_def walk_for_errors_preorder split: sum.splits)
  have iff: "collect_errors A l tree bs \<noteq> [] \<longleftrightarrow> broken tree"
  proof
    assume "collect_errors A l tree bs \<noteq> []"
    then obtain i where "i \<in> set (collect_errors A l tree bs)" by (meson list.set_sel(1))
    with sub show "broken tree" by (auto simp: broken_def list_ex_iff)
  next
    assume "broken tree"
    then show "collect_errors A l tree bs \<noteq> []"
      using flag by (auto simp: collect_errors_def Let_def walk_for_errors_preorder broken_def list_ex_iff filter_empty_conv)
  qed
  then have conf: "conf_of (collect_errors A l tree bs) = (if broken tree then Ambiguous else Extracted)"
    by (simp add: conf_of_def)
  show ?thesis
    using sub iff
    by (simp add: r conf)
      (auto simp: named_nodes_def import_nodes_def named_node_def import_node_def contains_edge_def import_edge_def call_edge_def
        inherits_edges_def Let_def split: option.splits)
qed

theorem syntax_errors_degrade_witness: "ex_issues demo_graph = [] \<and> list_all (\<lambda>e. e_confidence e = Extracted) (ex_edges demo_graph)"
proof -
  have b: "\<not> broken demo_function" by (simp add: broken_def demo_function_def demo_name_def demo_call_def)
  have "ta_has_error demo_api demo_function \<longleftrightarrow> broken demo_function" by (simp add: b) (simp add: demo_api_def)
  moreover have "\<forall>q. ta_query demo_api LangPython QErrors = Inr q \<longrightarrow>
      (\<forall>m \<in> set (ta_matches demo_api q demo_function []). \<forall>c \<in> set m. cap_node c \<in> set (preorder demo_function) \<and> ts_is_error (cap_node c))"
    by (simp add: demo_api_def demo_matches_def)
  ultimately show ?thesis using syntax_errors_degrade[OF _ _ demo_extracted] b by (simp add: list_all_iff)
qed

text \<open>
  A call is attributed to a function of the graph exactly when the last capture of some function match
  starts where the enclosing callable starts. Assume that no two of the positions involved collide in the
  truncated hash. A match lists its captures from the outside in, so for a function with a named capture the
  last one is the name, and the call's edge leaves from an identifier that no node has.
\<close>

theorem call_source_known_iff:
  assumes g: "extract_graph A l tree bs p = Inr g"
    and m: "m \<in> set (matched A l QCalls tree bs)" and n: "enclosing_callable (last m) l = Some n"
    and inj: "inj_on (\<lambda>(s, k). stable_id (ta_blake3 A) p s k) (S \<times> UNIV)"
    and S: "0 \<in> S" "r_start_byte (ts_range n) \<in> S" "\<forall>(k, _) \<in> set (NAMED @ [(QImports, NkImport)]). \<forall>m' \<in> set (matched A l k tree bs). r_start_byte (ts_range (cap_node (last m'))) \<in> S"
  shows "\<exists>e \<in> set (ex_edges g). e = call_edge A l bs p (conf_of (ex_issues g)) m \<and>
    (e_from e \<in> n_id ` set (ex_nodes g) \<longleftrightarrow>
     (\<exists>m' \<in> set (matched A l QFunctions tree bs). r_start_byte (ts_range (cap_node (last m'))) = r_start_byte (ts_range n)))"
proof -
  note r = extract_result[OF g]
  let ?id = "\<lambda>s k. stable_id (ta_blake3 A) p s k"
  have eq: "?id s k = ?id s' k' \<longleftrightarrow> s = s' \<and> k = k'" if "s \<in> S" "s' \<in> S" for s k s' k'
    using inj_onD[OF inj, of "(s, k)" "(s', k')"] that by auto
  let ?pos = "\<lambda>m. r_start_byte (ts_range (cap_node (last m)))"
  have ids: "n_id ` set (ex_nodes g) =
      {?id 0 NkFile} \<union> (\<Union>(qk, k) \<in> set (NAMED @ [(QImports, NkImport)]). (\<lambda>m. ?id (?pos m) k) ` set (matched A l qk tree bs))"
    by (simp add: r(2) file_node_def named_nodes_def import_nodes_def named_node_def import_node_def NAMED_def image_Un image_image Un_assoc)
  have "?id (r_start_byte (ts_range n)) NkFunction \<in> n_id ` set (ex_nodes g) \<longleftrightarrow>
      (\<exists>m' \<in> set (matched A l QFunctions tree bs). ?pos m' = r_start_byte (ts_range n))"
    unfolding ids using S(3) eq[OF S(2)] S(1) by (auto simp: NAMED_def image_iff) metis
  moreover have "e_from (call_edge A l bs p c m) = ?id (r_start_byte (ts_range n)) NkFunction" for c
    by (simp add: call_edge_def Let_def n)
  moreover have "call_edge A l bs p (conf_of (ex_issues g)) m \<in> set (ex_edges g)" using m by (simp add: r)
  ultimately show ?thesis by auto
qed

theorem call_source_known_iff_witness:
  "\<exists>e \<in> set (ex_edges demo_graph). e_kind e = EkCalls \<and> e_from e \<notin> n_id ` set (ex_nodes demo_graph)"
proof -
  let ?m = "[\<lparr>cap_name = ''call'', cap_node = demo_call, cap_ancestors = [demo_function]\<rparr>]"
  have "inj_on (\<lambda>(s, k). stable_id (ta_blake3 demo_api) ''a'' s k) ({0, 4} \<times> UNIV)"
  proof -
    have key: "s = s' \<and> k = k'"
      if "s \<in> {0, 4}" "s' \<in> {0, 4}" "stable_id (ta_blake3 demo_api) ''a'' s k = stable_id (ta_blake3 demo_api) ''a'' s' k'" for s s' k k'
    proof -
      have *: "word_of_nat s = (word_of_nat s' :: 8 word)" "take 7 (string_bytes (node_kind_debug k)) = take 7 (string_bytes (node_kind_debug k'))"
        using that(3) hex_inj by (force simp: demo_id)+
      have "s = s'" using *(1) that(1,2) by auto
      moreover have "k = k'" using *(2) by (cases k; cases k'; simp add: string_bytes_def)
      ultimately show ?thesis by simp
    qed
    show ?thesis
    proof (rule inj_onI)
      fix x y :: "nat \<times> NodeKind"
      assume "x \<in> {0, 4} \<times> UNIV" "y \<in> {0, 4} \<times> UNIV"
        "(\<lambda>(s, k). stable_id (ta_blake3 demo_api) ''a'' s k) x = (\<lambda>(s, k). stable_id (ta_blake3 demo_api) ''a'' s k) y"
      then show "x = y" using key[of "fst x" "fst y" "snd x" "snd y"] by (simp only: split_beta mem_Times_iff prod_eq_iff)
    qed
  qed
  moreover have "?m \<in> set (matched demo_api LangPython QCalls demo_function [])"
    by (simp add: matched_def demo_api_def demo_matches_def)
  moreover have "enclosing_callable (last ?m) LangPython = Some demo_function"
    by (simp add: enclosing_callable_def demo_call_def demo_function_def is_callable_kind_def)
  moreover have "\<forall>(k, _) \<in> set (NAMED @ [(QImports, NkImport)]).
      \<forall>m' \<in> set (matched demo_api LangPython k demo_function []). r_start_byte (ts_range (cap_node (last m'))) \<in> {0, 4}"
    by (simp add: NAMED_def matched_def demo_api_def demo_matches_def demo_name_def)
  ultimately have "\<exists>e \<in> set (ex_edges demo_graph). e = call_edge demo_api LangPython [] ''a'' (conf_of (ex_issues demo_graph)) ?m \<and>
    (e_from e \<in> n_id ` set (ex_nodes demo_graph) \<longleftrightarrow>
     (\<exists>m' \<in> set (matched demo_api LangPython QFunctions demo_function []). r_start_byte (ts_range (cap_node (last m'))) = r_start_byte (ts_range demo_function)))"
    by (intro call_source_known_iff[OF demo_extracted, where S = "{0, 4}"]) (simp_all add: demo_function_def[THEN arg_cong, of ts_range])
  moreover have "\<not> (\<exists>m' \<in> set (matched demo_api LangPython QFunctions demo_function []).
      r_start_byte (ts_range (cap_node (last m'))) = r_start_byte (ts_range demo_function))"
    by (simp add: matched_def demo_api_def demo_matches_def demo_function_def demo_name_def)
  ultimately show ?thesis by (metis call_edge_kind)
qed

end
