(* ===== verification/Reindex.thy ===== *)
theory Reindex
  imports File_Watcher Extractor Store_Write
begin

text \<open>
  Re-indexing one file (\<open>reindex_one\<close> of \<open>supervisor/src/watcher.rs\<close>): from a debounced change to the tables
  \<open>nodes\<close> and \<open>edges\<close> of the graph shard (\<open>store/src/schema.rs\<close>), through the store's query and injection layers,
  the incremental parser and the extractor. What the six statements of the function mean to SQLite is written
  out; other statements, failures and the clock are arguments.
\<close>

section \<open>Tables\<close>

record node_row =
  nr_id :: i64
  nr_kind :: string
  nr_name :: string
  nr_qualified_name :: string
  nr_file_path :: "string option"
  nr_line_start :: "i64 option"
  nr_line_end :: "i64 option"
  nr_language :: "string option"
  nr_parent_qualified :: "string option"
  nr_signature :: "string option"
  nr_modifiers :: "string option"
  nr_is_test :: i64
  nr_file_hash :: "string option"
  nr_summary :: "string option"
  nr_embedding_id :: "i64 option"
  nr_extra :: string
  nr_updated_at :: string

record edge_row =
  er_id :: i64
  er_kind :: string
  er_source :: string
  er_target :: string
  er_confidence :: string
  er_confidence_score :: json
  er_file_path :: "string option"
  er_line :: "i64 option"
  er_source_extractor :: string
  er_extra :: string
  er_updated_at :: string

text \<open>The identifiers are \<open>AUTOINCREMENT\<close>: one above the largest ever used.\<close>

record graph_db =
  g_nodes :: "node_row list"
  g_node_seq :: i64
  g_edges :: "edge_row list"
  g_edge_seq :: i64
  g_last_rowid :: i64

section \<open>Statements\<close>

definition SELECT_FILE_NODES :: string where
  "SELECT_FILE_NODES = ''SELECT qualified_name FROM nodes WHERE file_path = ?1''"

definition DELETE_EDGES_BOTH :: string where
  "DELETE_EDGES_BOTH = ''DELETE FROM edges WHERE source_qualified = ?1 OR target_qualified = ?1''"

definition DELETE_NODES :: string where
  "DELETE_NODES = ''DELETE FROM nodes WHERE file_path = ?1''"

definition DELETE_EDGES_SOURCE :: string where
  "DELETE_EDGES_SOURCE = ''DELETE FROM edges WHERE source_qualified = ?1''"

definition INSERT_NODE :: string where
  "INSERT_NODE = ''INSERT OR REPLACE INTO nodes(kind,name,qualified_name,file_path,line_start,line_end,language,extra,updated_at) '' @
     ''VALUES(?1,?2,?3,?4,?5,?6,?7,?8,datetime('now'))''"

definition INSERT_EDGE :: string where
  "INSERT_EDGE = ''INSERT INTO edges(kind,source_qualified,target_qualified,confidence,confidence_score,source_extractor,extra,updated_at) '' @
     ''VALUES(?1,?2,?3,?4,?5,?6,?7,datetime('now'))''"

definition delete_edges :: "(edge_row \<Rightarrow> bool) \<Rightarrow> graph_db \<Rightarrow> graph_db" where
  "delete_edges P db = db\<lparr>g_edges := filter (\<lambda>e. \<not> P e) (g_edges db)\<rparr>"

definition delete_nodes :: "string \<Rightarrow> graph_db \<Rightarrow> graph_db" where
  "delete_nodes path db = db\<lparr>g_nodes := filter (\<lambda>r. nr_file_path r \<noteq> Some path) (g_nodes db)\<rparr>"

text \<open>
  \<open>INSERT OR REPLACE\<close> deletes the row that has the unique qualified name and inserts a new one: the columns the
  statement does not name get their defaults.
\<close>

definition insert_node ::
  "string \<Rightarrow> string \<Rightarrow> string \<Rightarrow> string \<Rightarrow> string \<Rightarrow> i64 \<Rightarrow> i64 \<Rightarrow> string \<Rightarrow> string \<Rightarrow> graph_db \<Rightarrow> graph_db" where
  "insert_node now kind name qn file ls le lang extra db =
     (let rid = g_node_seq db + 1 in
      db\<lparr>g_nodes := filter (\<lambda>r. nr_qualified_name r \<noteq> qn) (g_nodes db) @
           [\<lparr>nr_id = rid, nr_kind = kind, nr_name = name, nr_qualified_name = qn, nr_file_path = Some file,
             nr_line_start = Some ls, nr_line_end = Some le, nr_language = Some lang, nr_parent_qualified = None,
             nr_signature = None, nr_modifiers = None, nr_is_test = 0, nr_file_hash = None, nr_summary = None,
             nr_embedding_id = None, nr_extra = extra, nr_updated_at = now\<rparr>],
         g_node_seq := rid, g_last_rowid := rid\<rparr>)"

definition insert_edge ::
  "string \<Rightarrow> string \<Rightarrow> string \<Rightarrow> string \<Rightarrow> string \<Rightarrow> json \<Rightarrow> string \<Rightarrow> string \<Rightarrow> graph_db \<Rightarrow> graph_db" where
  "insert_edge now kind src tgt conf score extractor extra db =
     (let rid = g_edge_seq db + 1 in
      db\<lparr>g_edges := g_edges db @
           [\<lparr>er_id = rid, er_kind = kind, er_source = src, er_target = tgt, er_confidence = conf, er_confidence_score = score,
             er_file_path = None, er_line = None, er_source_extractor = extractor, er_extra = extra, er_updated_at = now\<rparr>],
         g_edge_seq := rid, g_last_rowid := rid\<rparr>)"

text \<open>An engine whose graph shards understand the statements; \<open>fault\<close> is the error of a statement that fails.\<close>

definition graph_exec ::
  "(string \<Rightarrow> json list \<Rightarrow> graph_db \<Rightarrow> DbError option) \<Rightarrow> string \<Rightarrow> graph_db engine \<Rightarrow> string \<Rightarrow> json list \<Rightarrow> graph_db \<Rightarrow>
   DbError + (nat \<times> i64 \<times> graph_db)" where
  "graph_exec fault now E sql ps db =
     (let report = (\<lambda>n db'. Inr (n, g_last_rowid db', db')) in
      case fault sql ps db of
        Some e \<Rightarrow> Inl e
      | None \<Rightarrow>
          if sql = DELETE_EDGES_BOTH
          then (case ps of
                  [JStr q] \<Rightarrow>
                    let db' = delete_edges (\<lambda>e. er_source e = q \<or> er_target e = q) db in
                    report (length (g_edges db) - length (g_edges db')) db'
                | _ \<Rightarrow> en_exec E sql ps db)
          else if sql = DELETE_EDGES_SOURCE
          then (case ps of
                  [JStr q] \<Rightarrow>
                    let db' = delete_edges (\<lambda>e. er_source e = q) db in
                    report (length (g_edges db) - length (g_edges db')) db'
                | _ \<Rightarrow> en_exec E sql ps db)
          else if sql = DELETE_NODES
          then (case ps of
                  [JStr q] \<Rightarrow> let db' = delete_nodes q db in report (length (g_nodes db) - length (g_nodes db')) db'
                | _ \<Rightarrow> en_exec E sql ps db)
          else if sql = INSERT_NODE
          then (case ps of
                  [JStr kind, JStr name, JStr qn, JStr file, JNum ls, JNum le, JStr lang, JStr extra] \<Rightarrow>
                    report 1 (insert_node now kind name qn file ls le lang extra db)
                | _ \<Rightarrow> en_exec E sql ps db)
          else if sql = INSERT_EDGE
          then (case ps of
                  [JStr kind, JStr src, JStr tgt, JStr conf, score, JStr extractor, JStr extra] \<Rightarrow>
                    report 1 (insert_edge now kind src tgt conf score extractor extra db)
                | _ \<Rightarrow> en_exec E sql ps db)
          else en_exec E sql ps db)"

definition graph_rows :: "graph_db engine \<Rightarrow> string \<Rightarrow> json list \<Rightarrow> graph_db \<Rightarrow> DbError + json list" where
  "graph_rows E sql ps db =
     (case ps of
        [JStr q] \<Rightarrow>
          if sql = SELECT_FILE_NODES
          then Inr (map (\<lambda>r. JObj [(''qualified_name'', JStr (nr_qualified_name r))])
                 (filter (\<lambda>r. nr_file_path r = Some q) (g_nodes db)))
          else en_rows E sql ps db
      | _ \<Rightarrow> en_rows E sql ps db)"

definition graph_engine ::
  "(string \<Rightarrow> json list \<Rightarrow> graph_db \<Rightarrow> DbError option) \<Rightarrow> string \<Rightarrow> graph_db engine \<Rightarrow> graph_db engine" where
  "graph_engine fault now E = E\<lparr>en_exec := graph_exec fault now E, en_rows := graph_rows E\<rparr>"

section \<open>Re-indexing\<close>

datatype WatcherError = WatchIo string | WatchParse string

fun edge_kind_debug :: "EdgeKind \<Rightarrow> string" where
  "edge_kind_debug EkCalls = ''Calls''"
| "edge_kind_debug EkInherits = ''Inherits''"
| "edge_kind_debug EkImplements = ''Implements''"
| "edge_kind_debug EkDecoratedBy = ''DecoratedBy''"
| "edge_kind_debug EkImports = ''Imports''"
| "edge_kind_debug EkContains = ''Contains''"
| "edge_kind_debug EkGeneric = ''Generic''"

fun confidence_debug :: "Confidence \<Rightarrow> string" where
  "confidence_debug Extracted = ''Extracted''"
| "confidence_debug Inferred = ''Inferred''"
| "confidence_debug Ambiguous = ''Ambiguous''"

text \<open>The weights are the nearest \<open>f32\<close> to 1.0, 0.6 and 0.2, as fractions.\<close>

fun confidence_weight :: "Confidence \<Rightarrow> int \<times> int" where
  "confidence_weight Extracted = (1, 1)"
| "confidence_weight Inferred = (10066330, 16777216)"
| "confidence_weight Ambiguous = (13421773, 67108864)"

record reindex_env =
  rx_query :: wenv
  rx_unlink :: "nat \<Rightarrow> inject_env"
  rx_purge :: inject_env
  rx_node :: "nat \<Rightarrow> inject_env"
  rx_edge :: "nat \<Rightarrow> inject_env"
  rx_elapsed :: u64
  rx_read :: "string + bytes"
  rx_features :: "string set"
  rx_socket :: "path option"
  rx_show :: "ParserError \<Rightarrow> string"
  rx_json :: "json \<Rightarrow> string"
  rx_number :: "int \<times> int \<Rightarrow> json"

record 'c reindex_state =
  rs_store :: "graph_db store"
  rs_cache :: 'c
  rs_stats :: "WatcherStats mutex"
  rs_sent :: "json list"

definition quiet :: InjectOptions where
  "quiet = InjectOptions_default\<lparr>emit_event := False, audit := False\<rparr>"

definition file_qnames :: "graph_db engine \<Rightarrow> wenv \<Rightarrow> ProjectId \<Rightarrow> path \<Rightarrow> graph_db store \<Rightarrow> string list" where
  "file_qnames E env project path s =
     (let q = query_rows E env \<lparr>q_project = project, q_layer = Graph, q_sql = SELECT_FILE_NODES, q_params = [JStr path]\<rparr> s
      in List.map_filter (\<lambda>row. case json_get row ''qualified_name'' of Some v \<Rightarrow> as_str v | None \<Rightarrow> None)
           (case resp_data q of Some rows \<Rightarrow> rows | None \<Rightarrow> []))"

definition unlink_all ::
  "graph_db engine \<Rightarrow> (nat \<Rightarrow> inject_env) \<Rightarrow> ProjectId \<Rightarrow> string \<Rightarrow> string list \<Rightarrow> graph_db store \<Rightarrow> graph_db store" where
  "unlink_all E iv project sql qns s =
     fold (\<lambda>(i, qn) s. snd (db_delete E (iv i) project Graph sql [JStr qn] quiet s)) (List.enumerate 0 qns) s"

definition node_params :: "reindex_env \<Rightarrow> Node \<Rightarrow> json list" where
  "node_params env n =
     [JStr (to_ascii_lowercase (node_kind_debug (n_kind n))), JStr (n_name n), JStr (n_id n), JStr (n_file n),
      JNum (int (fst (n_line_range n))), JNum (int (snd (n_line_range n))),
      JStr (to_ascii_lowercase (variant_ident (n_language n))),
      JStr (rx_json env (JObj [(''confidence'', JStr (to_ascii_lowercase (confidence_debug (n_confidence n)))),
        (''byte_range'', JArr [JNum (int (fst (n_byte_range n))), JNum (int (snd (n_byte_range n)))])]))]"

definition edge_params :: "reindex_env \<Rightarrow> Edge \<Rightarrow> json list" where
  "edge_params env e =
     [JStr (to_ascii_lowercase (edge_kind_debug (e_kind e))), JStr (e_from e), JStr (e_to e),
      JStr (to_ascii_lowercase (confidence_debug (e_confidence e))), rx_number env (confidence_weight (e_confidence e)),
      JStr ''watcher'',
      JStr (rx_json env (JObj [(''unresolved'', case e_unresolved_target e of Some t \<Rightarrow> JStr t | None \<Rightarrow> JNull)]))]"

definition insert_all ::
  "graph_db engine \<Rightarrow> (nat \<Rightarrow> inject_env) \<Rightarrow> ProjectId \<Rightarrow> string \<Rightarrow> json list list \<Rightarrow> graph_db store \<Rightarrow> graph_db store" where
  "insert_all E iv project sql pss s =
     fold (\<lambda>(i, ps) s. snd (db_insert E (iv i) project Graph sql ps quiet s)) (List.enumerate 0 pss) s"

definition emit_file_reindexed :: "path option \<Rightarrow> path \<Rightarrow> u64 \<Rightarrow> int \<Rightarrow> int \<Rightarrow> json list" where
  "emit_file_reindexed socket path ms nodes_delta edges_delta =
     (case socket of
        None \<Rightarrow> []
      | Some _ \<Rightarrow>
          [JObj [(''topic'', JStr ''project.local.file_reindexed''),
             (''payload'', JObj [(''kind'', JStr ''file_reindexed''), (''path'', JStr path), (''ms'', JNum (uint ms)),
                (''nodes_delta'', JNum nodes_delta), (''edges_delta'', JNum edges_delta)])]])"

text \<open>The end of both branches: count the latency, then send the event. \<open>None\<close> is a call that never returns.\<close>

definition reindex_finish ::
  "reindex_env \<Rightarrow> path \<Rightarrow> ChangeKind \<Rightarrow> int \<Rightarrow> int \<Rightarrow> 'c reindex_state \<Rightarrow> ((WatcherError + unit) \<times> 'c reindex_state) option" where
  "reindex_finish env path kind nd ed st =
     map_option (\<lambda>m. (Inr (), st\<lparr>rs_stats := m,
         rs_sent := rs_sent st @ emit_file_reindexed (rx_socket env) path (rx_elapsed env) nd ed\<rparr>))
       (handle_record (rx_elapsed env) kind (rs_stats st))"

definition reindex_ignore :: "'c reindex_state \<Rightarrow> ((WatcherError + unit) \<times> 'c reindex_state) option" where
  "reindex_ignore st = map_option (\<lambda>m. (Inr (), st\<lparr>rs_stats := m\<rparr>)) (bump_ignored (rs_stats st))"

definition reindex_delete ::
  "graph_db engine \<Rightarrow> reindex_env \<Rightarrow> ProjectId \<Rightarrow> path \<Rightarrow> 'c reindex_state \<Rightarrow> ((WatcherError + unit) \<times> 'c reindex_state) option" where
  "reindex_delete E env project path st =
     (let qnames = file_qnames E (rx_query env) project path (rs_store st);
          s1 = unlink_all E (rx_unlink env) project DELETE_EDGES_BOTH qnames (rs_store st);
          s2 = snd (db_delete E (rx_purge env) project Graph DELETE_NODES [JStr path] quiet s1)
      in reindex_finish env path Delete (- int (length qnames)) 0 (st\<lparr>rs_store := s2\<rparr>))"

definition reindex_write ::
  "graph_db engine \<Rightarrow> reindex_env \<Rightarrow> ProjectId \<Rightarrow> path \<Rightarrow> extracted \<Rightarrow> graph_db store \<Rightarrow> graph_db store" where
  "reindex_write E env project path g s =
     (let old_qnames = file_qnames E (rx_query env) project path s;
          s1 = unlink_all E (rx_unlink env) project DELETE_EDGES_SOURCE old_qnames s;
          s2 = insert_all E (rx_node env) project INSERT_NODE (map (node_params env) (ex_nodes g)) s1
      in insert_all E (rx_edge env) project INSERT_EDGE (map (edge_params env) (ex_edges g)) s2)"

definition reindex_upsert ::
  "graph_db engine \<Rightarrow> ('c, ts_node) lru \<Rightarrow> ts_node tree_sitter \<Rightarrow> (bytes \<Rightarrow> bytes) \<Rightarrow> ParserPool \<Rightarrow> 'q tree_api \<Rightarrow> reindex_env \<Rightarrow>
   ProjectId \<Rightarrow> path \<Rightarrow> 'c reindex_state \<Rightarrow> ((WatcherError + unit) \<times> 'c reindex_state) option" where
  "reindex_upsert E L ts blake pool A env project path st =
     (case from_filename path of
        None \<Rightarrow> reindex_ignore st
      | Some lang \<Rightarrow>
          if \<not> is_enabled (rx_features env) lang then reindex_ignore st
          else (case rx_read env of
            Inl _ \<Rightarrow> Some (Inr (), st)
          | Inr bs \<Rightarrow>
              if looks_binary bs then reindex_ignore st
              else (case parse_file L ts blake pool path lang bs (rs_cache st) of
                (Inl e, c) \<Rightarrow> Some (Inl (WatchParse (''parse '' @ path @ '': '' @ rx_show env e)), st\<lparr>rs_cache := c\<rparr>)
              | (Inr parse, c) \<Rightarrow>
                  (case extract_graph A lang (ip_tree parse) bs path of
                     Inl e \<Rightarrow> Some (Inl (WatchParse (''extract '' @ path @ '': '' @ rx_show env e)), st\<lparr>rs_cache := c\<rparr>)
                   | Inr g \<Rightarrow>
                       reindex_finish env path Upsert (int (length (ex_nodes g))) (int (length (ex_edges g)))
                         (st\<lparr>rs_cache := c, rs_store := reindex_write E env project path g (rs_store st)\<rparr>)))))"

definition reindex_one ::
  "graph_db engine \<Rightarrow> ('c, ts_node) lru \<Rightarrow> ts_node tree_sitter \<Rightarrow> (bytes \<Rightarrow> bytes) \<Rightarrow> ParserPool \<Rightarrow> 'q tree_api \<Rightarrow> reindex_env \<Rightarrow>
   ProjectId \<Rightarrow> path \<Rightarrow> ChangeKind \<Rightarrow> 'c reindex_state \<Rightarrow> ((WatcherError + unit) \<times> 'c reindex_state) option" where
  "reindex_one E L ts blake pool A env project path kind st =
     (case kind of
        Delete \<Rightarrow> reindex_delete E env project path st
      | Upsert \<Rightarrow> reindex_upsert E L ts blake pool A env project path st)"

section \<open>What the statements do to the tables\<close>

text \<open>
  The specification of a save: edges that leave the file's known nodes are dropped, nodes are upserted by
  qualified name, edges are appended.
\<close>

definition qnames_of :: "path \<Rightarrow> graph_db \<Rightarrow> string list" where
  "qnames_of path db = map nr_qualified_name (filter (\<lambda>r. nr_file_path r = Some path) (g_nodes db))"

definition node_extra :: "reindex_env \<Rightarrow> Node \<Rightarrow> string" where
  "node_extra env n =
     rx_json env (JObj [(''confidence'', JStr (to_ascii_lowercase (confidence_debug (n_confidence n)))),
       (''byte_range'', JArr [JNum (int (fst (n_byte_range n))), JNum (int (snd (n_byte_range n)))])])"

definition put_node :: "string \<Rightarrow> reindex_env \<Rightarrow> Node \<Rightarrow> graph_db \<Rightarrow> graph_db" where
  "put_node now env n =
     insert_node now (to_ascii_lowercase (node_kind_debug (n_kind n))) (n_name n) (n_id n) (n_file n)
       (int (fst (n_line_range n))) (int (snd (n_line_range n))) (to_ascii_lowercase (variant_ident (n_language n))) (node_extra env n)"

definition put_edge :: "string \<Rightarrow> reindex_env \<Rightarrow> Edge \<Rightarrow> graph_db \<Rightarrow> graph_db" where
  "put_edge now env e =
     insert_edge now (to_ascii_lowercase (edge_kind_debug (e_kind e))) (e_from e) (e_to e)
       (to_ascii_lowercase (confidence_debug (e_confidence e))) (rx_number env (confidence_weight (e_confidence e))) ''watcher''
       (rx_json env (JObj [(''unresolved'', case e_unresolved_target e of Some t \<Rightarrow> JStr t | None \<Rightarrow> JNull)]))"

definition save_tables :: "string \<Rightarrow> reindex_env \<Rightarrow> path \<Rightarrow> extracted \<Rightarrow> graph_db \<Rightarrow> graph_db" where
  "save_tables now env path g db =
     fold (put_edge now env) (ex_edges g)
       (fold (put_node now env) (ex_nodes g)
         (delete_edges (\<lambda>e. er_source e \<in> set (qnames_of path db)) db))"

definition purge_tables :: "path \<Rightarrow> graph_db \<Rightarrow> graph_db" where
  "purge_tables path db =
     delete_nodes path (delete_edges (\<lambda>e. er_source e \<in> set (qnames_of path db) \<or> er_target e \<in> set (qnames_of path db)) db)"

text \<open>The writer of the graph shard is up, no statement fails, and no call times out.\<close>

definition alive :: "'db engine \<Rightarrow> ProjectId \<Rightarrow> 'db store \<Rightarrow> bool" where
  "alive E project s = fst (writer E project Graph s)"

definition settled :: "reindex_env \<Rightarrow> bool" where
  "settled env \<longleftrightarrow> we_pool (rx_query env) = None \<and> we_join (rx_query env) = None \<and> iv_timeout (rx_purge env) = None \<and>
     (\<forall>i. iv_timeout (rx_unlink env i) = None \<and> iv_timeout (rx_node env i) = None \<and> iv_timeout (rx_edge env i) = None)"

abbreviation no_fault :: "string \<Rightarrow> json list \<Rightarrow> graph_db \<Rightarrow> DbError option" where
  "no_fault \<equiv> \<lambda>_ _ _. None"

lemma quiet_write:
  assumes "alive E project s" and "iv_timeout iv = None" and "en_exec E sql ps (st_db s (project, Graph)) = Inr (n, r, db')"
    and s': "s' = snd (write_with_audit E iv project Graph sql ps action quiet s)"
  shows "st_db s' = (st_db s)((project, Graph) := db')" and "alive E project s'"
proof -
  have w: "writer E project Graph s = (True, snd (writer E project Graph s))"
    using assms(1) by (cases "writer E project Graph s") (simp add: alive_def)
  have db: "st_db (snd (writer E project Graph s)) = st_db s"
    by (simp add: writer_def Let_def split: option.split)
  have "db_write E (iv_write iv) \<lparr>w_project = project, w_layer = Graph, w_sql = sql, w_params = ps\<rparr> s =
      (Response_ok \<lparr>rows_affected = n, last_insert_rowid = Some r\<rparr> (we_meta (iv_write iv) Graph),
       (snd (writer E project Graph s))\<lparr>st_db := (st_db s)((project, Graph) := db')\<rparr>)"
    using assms(3) by (subst db_write_def) (subst Let_def, simp add: w[THEN arg_cong, of fst] db split_beta)
  then have s'_eq: "s' = (snd (writer E project Graph s))\<lparr>st_db := (st_db s)((project, Graph) := db')\<rparr>"
    using assms(2) by (simp add: s' write_with_audit_def quiet_def InjectOptions_default_def write_audit_def record_key_def
        Response_ok_def Let_def)
  show "st_db s' = (st_db s)((project, Graph) := db')" by (simp add: s'_eq)
  have "alive E project (snd (writer E project Graph s))"
    using assms(1) by (auto simp: alive_def writer_def Let_def split: option.splits)
  then show "alive E project s'" by (auto simp: s'_eq alive_def writer_def Let_def split: option.splits)
qed

lemma snd_db_delete: "snd (db_delete E iv p l sql ps opts s) = snd (write_with_audit E iv p l sql ps ''delete'' opts s)"
  by (simp add: db_delete_def split_beta)

text \<open>A run of statements, each with its effect on the shard.\<close>

lemma fold_writes:
  assumes "alive E project s" and "\<And>i. iv_timeout (iv i) = None"
    and "\<And>x db. x \<in> set xs \<Longrightarrow> \<exists>n r. en_exec E sql (ps x) db = Inr (n, r, f x db)"
  shows "let s' = fold (\<lambda>(i, x) s. snd (write_with_audit E (iv i) project Graph sql (ps x) action quiet s)) (List.enumerate k xs) s in
    st_db s' = (st_db s)((project, Graph) := fold f xs (st_db s (project, Graph))) \<and> alive E project s'"
  using assms(1,3)
proof (induction xs arbitrary: k s)
  case (Cons x xs)
  obtain n r where "en_exec E sql (ps x) (st_db s (project, Graph)) = Inr (n, r, f x (st_db s (project, Graph)))"
    using Cons.prems(2) by fastforce
  note w = quiet_write[where action = action, OF Cons.prems(1) assms(2)[of k] this refl]
  show ?case using Cons.IH[OF w(2), of "Suc k"] Cons.prems(2) by (simp add: Let_def w(1)) (rule ext, simp)
qed simp

lemmas statement_defs = DELETE_EDGES_BOTH_def DELETE_EDGES_SOURCE_def DELETE_NODES_def INSERT_NODE_def INSERT_EDGE_def SELECT_FILE_NODES_def

lemma statements_distinct [simp]:
  "DELETE_EDGES_SOURCE \<noteq> DELETE_EDGES_BOTH" "DELETE_NODES \<noteq> DELETE_EDGES_BOTH" "DELETE_NODES \<noteq> DELETE_EDGES_SOURCE"
  "INSERT_NODE \<noteq> DELETE_EDGES_BOTH" "INSERT_NODE \<noteq> DELETE_EDGES_SOURCE" "INSERT_NODE \<noteq> DELETE_NODES"
  "INSERT_EDGE \<noteq> DELETE_EDGES_BOTH" "INSERT_EDGE \<noteq> DELETE_EDGES_SOURCE" "INSERT_EDGE \<noteq> DELETE_NODES" "INSERT_EDGE \<noteq> INSERT_NODE"
  by (simp_all add: statement_defs)

lemma graph_engine_exec [simp]:
  "en_exec (graph_engine fault now E) = graph_exec fault now E" "en_rows (graph_engine fault now E) = graph_rows E"
  "en_open (graph_engine fault now E) = en_open E"
  by (simp_all add: graph_engine_def)

lemma exec_statements:
  "\<exists>n r. graph_exec no_fault now E DELETE_EDGES_BOTH [JStr q] db = Inr (n, r, delete_edges (\<lambda>e. er_source e = q \<or> er_target e = q) db)"
  "\<exists>n r. graph_exec no_fault now E DELETE_EDGES_SOURCE [JStr q] db = Inr (n, r, delete_edges (\<lambda>e. er_source e = q) db)"
  "\<exists>n r. graph_exec no_fault now E DELETE_NODES [JStr q] db = Inr (n, r, delete_nodes q db)"
  "\<exists>n r. graph_exec no_fault now E INSERT_NODE (node_params env nd) db = Inr (n, r, put_node now env nd db)"
  "\<exists>n r. graph_exec no_fault now E INSERT_EDGE (edge_params env ed) db = Inr (n, r, put_edge now env ed db)"
  by (simp_all add: graph_exec_def Let_def node_params_def edge_params_def put_node_def put_edge_def node_extra_def)

lemma fold_delete_edges: "fold (\<lambda>q. delete_edges (P q)) qs db = delete_edges (\<lambda>e. \<exists>q \<in> set qs. P q e) db"
  by (induction qs arbitrary: db) (auto simp: delete_edges_def intro!: filter_cong)

lemma file_qnames_settled:
  assumes "we_pool env = None" and "we_join env = None"
  shows "file_qnames (graph_engine fault now E) env project path s = qnames_of path (st_db s (project, Graph))"
  using assms
  by (simp add: file_qnames_def query_rows_def graph_rows_def Response_ok_def qnames_of_def map_filter_def comp_def Let_def)

lemma enumerate_map: "List.enumerate k (map f xs) = map (\<lambda>(i, x). (i, f x)) (List.enumerate k xs)"
  by (induction xs arbitrary: k) auto

lemma unlink_all_refines:
  assumes "alive (graph_engine no_fault now E) project s" and "\<And>i. iv_timeout (iv i) = None"
    and sql: "\<And>q db. \<exists>n r. graph_exec no_fault now E sql [JStr q] db = Inr (n, r, delete_edges (P q) db)"
    and s': "s' = unlink_all (graph_engine no_fault now E) iv project sql qs s"
  shows "st_db s' = (st_db s)((project, Graph) := delete_edges (\<lambda>e. \<exists>q \<in> set qs. P q e) (st_db s (project, Graph)))"
    and "alive (graph_engine no_fault now E) project s'"
  using fold_writes[where iv = iv, OF assms(1,2), where xs = qs and sql = sql and ps = "\<lambda>q. [JStr q]" and f = "\<lambda>q. delete_edges (P q)"
      and action = "''delete''" and k = 0] sql
  by (simp_all add: Let_def s' unlink_all_def snd_db_delete fold_delete_edges)

lemma insert_all_refines:
  assumes "alive (graph_engine no_fault now E) project s" and "\<And>i. iv_timeout (iv i) = None"
    and sql: "\<And>x db. \<exists>n r. graph_exec no_fault now E sql (ps x) db = Inr (n, r, f x db)"
    and s': "s' = insert_all (graph_engine no_fault now E) iv project sql (map ps xs) s"
  shows "st_db s' = (st_db s)((project, Graph) := fold f xs (st_db s (project, Graph)))"
    and "alive (graph_engine no_fault now E) project s'"
  using fold_writes[where iv = iv, OF assms(1,2), where xs = xs and sql = sql and ps = ps and f = f and action = "''insert''" and k = 0] sql
  by (simp_all add: Let_def s' insert_all_def db_insert_def enumerate_map fold_map comp_def case_prod_unfold)

lemma reindex_write_refines:
  assumes up: "alive (graph_engine no_fault now E) project s" and env: "settled env"
  shows "st_db (reindex_write (graph_engine no_fault now E) env project path g s) =
      (st_db s)((project, Graph) := save_tables now env path g (st_db s (project, Graph)))"
    and "alive (graph_engine no_fault now E) project (reindex_write (graph_engine no_fault now E) env project path g s)"
proof -
  have to: "iv_timeout (rx_unlink env i) = None" "iv_timeout (rx_node env i) = None" "iv_timeout (rx_edge env i) = None" for i
    using env by (simp_all add: settled_def)
  have qs: "file_qnames (graph_engine no_fault now E) (rx_query env) project path s = qnames_of path (st_db s (project, Graph))"
    using env by (simp add: settled_def file_qnames_settled)
  note s1 = unlink_all_refines[where iv = "rx_unlink env", OF up to(1) exec_statements(2) refl, where qs = "qnames_of path (st_db s (project, Graph))"]
  note s2 = insert_all_refines[where iv = "rx_node env", OF s1(2) to(2) exec_statements(4) refl, where xs = "ex_nodes g"]
  note s3 = insert_all_refines[where iv = "rx_edge env", OF s2(2) to(3) exec_statements(5) refl, where xs = "ex_edges g"]
  show "st_db (reindex_write (graph_engine no_fault now E) env project path g s) =
      (st_db s)((project, Graph) := save_tables now env path g (st_db s (project, Graph)))"
    by (simp add: reindex_write_def Let_def qs s3(1) s2(1) s1(1) save_tables_def)
  show "alive (graph_engine no_fault now E) project (reindex_write (graph_engine no_fault now E) env project path g s)"
    using s3(2) by (simp add: reindex_write_def Let_def qs)
qed

section \<open>Deleting a file\<close>

lemma unit_finish:
  assumes "\<not> mx_held (rs_stats st)"
  shows "reindex_finish env path kind nd ed st =
    Some (Inr (), st\<lparr>rs_stats := (rs_stats st)\<lparr>mx_value := stats_record (rx_elapsed env) kind (mx_value (rs_stats st))\<rparr>,
      rs_sent := rs_sent st @ emit_file_reindexed (rx_socket env) path (rx_elapsed env) nd ed\<rparr>)"
  using assms by (cases "rs_stats st") (simp add: reindex_finish_def handle_record_def mutex_lock_def mutex_unlock_def)

lemma reindex_delete_refines:
  assumes up: "alive (graph_engine no_fault now E) project (rs_store st)" and env: "settled env" and free: "\<not> mx_held (rs_stats st)"
  shows "\<exists>s. reindex_one (graph_engine no_fault now E) L ts blake pool A env project path Delete st =
      Some (Inr (), st\<lparr>rs_store := s,
        rs_stats := (rs_stats st)\<lparr>mx_value := stats_record (rx_elapsed env) Delete (mx_value (rs_stats st))\<rparr>,
        rs_sent := rs_sent st @ emit_file_reindexed (rx_socket env) path (rx_elapsed env)
          (- int (length (qnames_of path (st_db (rs_store st) (project, Graph))))) 0\<rparr>) \<and>
    st_db s = (st_db (rs_store st))((project, Graph) := purge_tables path (st_db (rs_store st) (project, Graph)))"
proof -
  let ?G = "graph_engine no_fault now E" and ?qs = "qnames_of path (st_db (rs_store st) (project, Graph))"
  have to: "iv_timeout (rx_unlink env i) = None" "iv_timeout (rx_purge env) = None" for i
    using env by (simp_all add: settled_def)
  have qs: "file_qnames ?G (rx_query env) project path (rs_store st) = ?qs"
    using env by (simp add: settled_def file_qnames_settled)
  note s1 = unlink_all_refines[where iv = "rx_unlink env", OF up to(1) exec_statements(1) refl, where qs = ?qs]
  let ?s1 = "unlink_all ?G (rx_unlink env) project DELETE_EDGES_BOTH ?qs (rs_store st)"
  obtain n r where "graph_exec no_fault now E DELETE_NODES [JStr path] (st_db ?s1 (project, Graph)) =
      Inr (n, r, delete_nodes path (st_db ?s1 (project, Graph)))"
    using exec_statements(3) by blast
  then have "en_exec ?G DELETE_NODES [JStr path] (st_db ?s1 (project, Graph)) =
      Inr (n, r, delete_nodes path (st_db ?s1 (project, Graph)))" by simp
  note s2 = quiet_write[where action = "''delete''", OF s1(2) to(2) this refl]
  have bex_disj: "(\<lambda>e. \<exists>q \<in> set ?qs. er_source e = q \<or> er_target e = q) = (\<lambda>e. er_source e \<in> set ?qs \<or> er_target e \<in> set ?qs)"
    by auto
  show ?thesis
  proof (intro exI conjI)
    show "reindex_one ?G L ts blake pool A env project path Delete st =
      Some (Inr (), st\<lparr>rs_store := snd (write_with_audit ?G (rx_purge env) project Graph DELETE_NODES [JStr path] ''delete'' quiet ?s1),
        rs_stats := (rs_stats st)\<lparr>mx_value := stats_record (rx_elapsed env) Delete (mx_value (rs_stats st))\<rparr>,
        rs_sent := rs_sent st @ emit_file_reindexed (rx_socket env) path (rx_elapsed env) (- int (length ?qs)) 0\<rparr>)"
      using free by (simp add: reindex_one_def reindex_delete_def qs unit_finish Let_def snd_db_delete)
    show "st_db (snd (write_with_audit ?G (rx_purge env) project Graph DELETE_NODES [JStr path] ''delete'' quiet ?s1)) =
      (st_db (rs_store st))((project, Graph) := purge_tables path (st_db (rs_store st) (project, Graph)))"
      by (simp add: s2(1) s1(1) bex_disj purge_tables_def)
  qed
qed

text \<open>
  Deleting a file removes it from the graph. With the shard writable and no statement failing, afterwards no
  node has the file's path and no edge touches a node that had it, from either side; every other node and
  edge is as before, and so is every other shard; one deletion is counted, and the event carries the number
  of nodes removed.
\<close>

theorem delete_purges_file:
  assumes "alive (graph_engine no_fault now E) project (rs_store st)" and "settled env" and "\<not> mx_held (rs_stats st)"
  shows "\<exists>st'. reindex_one (graph_engine no_fault now E) L ts blake pool A env project path Delete st = Some (Inr (), st') \<and>
    (let db = st_db (rs_store st) (project, Graph); db' = st_db (rs_store st') (project, Graph);
         gone = nr_qualified_name ` {r \<in> set (g_nodes db). nr_file_path r = Some path}
     in g_nodes db' = filter (\<lambda>r. nr_file_path r \<noteq> Some path) (g_nodes db) \<and>
        g_edges db' = filter (\<lambda>e. er_source e \<notin> gone \<and> er_target e \<notin> gone) (g_edges db) \<and>
        (\<forall>key. key \<noteq> (project, Graph) \<longrightarrow> st_db (rs_store st') key = st_db (rs_store st) key) \<and>
        mx_value (rs_stats st') = stats_record (rx_elapsed env) Delete (mx_value (rs_stats st)) \<and>
        rs_sent st' = rs_sent st @ emit_file_reindexed (rx_socket env) path (rx_elapsed env)
          (int (length (g_nodes db')) - int (length (g_nodes db))) 0)"
proof -
  obtain s where s: "reindex_one (graph_engine no_fault now E) L ts blake pool A env project path Delete st =
      Some (Inr (), st\<lparr>rs_store := s,
        rs_stats := (rs_stats st)\<lparr>mx_value := stats_record (rx_elapsed env) Delete (mx_value (rs_stats st))\<rparr>,
        rs_sent := rs_sent st @ emit_file_reindexed (rx_socket env) path (rx_elapsed env)
          (- int (length (qnames_of path (st_db (rs_store st) (project, Graph))))) 0\<rparr>)"
    "st_db s = (st_db (rs_store st))((project, Graph) := purge_tables path (st_db (rs_store st) (project, Graph)))"
    using reindex_delete_refines[OF assms, of L ts blake pool A path] by blast
  have count: "int (length (filter (\<lambda>r. nr_file_path r \<noteq> Some path) rs)) - int (length rs) =
      - int (length (filter (\<lambda>r. nr_file_path r = Some path) rs))" for rs
    using sum_length_filter_compl[of "\<lambda>r. nr_file_path r = Some path" rs] by simp
  have set: "set (qnames_of path db) = nr_qualified_name ` {r \<in> set (g_nodes db). nr_file_path r = Some path}" for db
    by (simp add: qnames_of_def)
  show ?thesis
    by (rule exI, rule conjI, rule s(1))
      (simp add: s(2) Let_def purge_tables_def delete_nodes_def delete_edges_def set count, simp add: qnames_of_def)
qed

section \<open>Saving a file\<close>

lemma reindex_upsert_refines:
  assumes up: "alive (graph_engine no_fault now E) project (rs_store st)" and env: "settled env" and free: "\<not> mx_held (rs_stats st)"
    and src: "from_filename path = Some lang" "is_enabled (rx_features env) lang" "rx_read env = Inr bs" "\<not> looks_binary bs"
    and parse: "parse_file L ts blake pool path lang bs (rs_cache st) = (Inr parse, c)" "extract_graph A lang (ip_tree parse) bs path = Inr g"
  shows "\<exists>st'. reindex_one (graph_engine no_fault now E) L ts blake pool A env project path Upsert st = Some (Inr (), st') \<and>
    st_db (rs_store st') = (st_db (rs_store st))((project, Graph) := save_tables now env path g (st_db (rs_store st) (project, Graph))) \<and>
    rs_cache st' = c \<and> mx_value (rs_stats st') = stats_record (rx_elapsed env) Upsert (mx_value (rs_stats st)) \<and>
    rs_sent st' = rs_sent st @ emit_file_reindexed (rx_socket env) path (rx_elapsed env) (int (length (ex_nodes g))) (int (length (ex_edges g)))"
  using reindex_write_refines(1)[OF up env, of path g] free
  by (simp add: reindex_one_def reindex_upsert_def src parse unit_finish)

definition node_row_of :: "string \<Rightarrow> reindex_env \<Rightarrow> i64 \<Rightarrow> Node \<Rightarrow> node_row" where
  "node_row_of now env rid n =
     \<lparr>nr_id = rid, nr_kind = to_ascii_lowercase (node_kind_debug (n_kind n)), nr_name = n_name n, nr_qualified_name = n_id n,
      nr_file_path = Some (n_file n), nr_line_start = Some (int (fst (n_line_range n))), nr_line_end = Some (int (snd (n_line_range n))),
      nr_language = Some (to_ascii_lowercase (variant_ident (n_language n))), nr_parent_qualified = None, nr_signature = None,
      nr_modifiers = None, nr_is_test = 0, nr_file_hash = None, nr_summary = None, nr_embedding_id = None,
      nr_extra = node_extra env n, nr_updated_at = now\<rparr>"

definition edge_key :: "edge_row \<Rightarrow> string \<times> string \<times> string" where
  "edge_key r = (er_kind r, er_source r, er_target r)"

definition edge_key_of :: "Edge \<Rightarrow> string \<times> string \<times> string" where
  "edge_key_of e = (to_ascii_lowercase (edge_kind_debug (e_kind e)), e_from e, e_to e)"

lemma delete_edges_tables [simp]:
  "g_nodes (delete_edges P db) = g_nodes db" "g_edges (delete_edges P db) = filter (\<lambda>e. \<not> P e) (g_edges db)"
  by (simp_all add: delete_edges_def)

lemma put_node_tables [simp]:
  "g_edges (put_node now env n db) = g_edges db"
  "g_nodes (put_node now env n db) =
     filter (\<lambda>r. nr_qualified_name r \<noteq> n_id n) (g_nodes db) @ [node_row_of now env (g_node_seq db + 1) n]"
  by (simp_all add: put_node_def insert_node_def node_row_of_def Let_def)

lemma node_row_of_simps [simp]:
  "nr_qualified_name (node_row_of now env rid n) = n_id n" "nr_file_path (node_row_of now env rid n) = Some (n_file n)"
  by (simp_all add: node_row_of_def)

lemma put_nodes_edges [simp]: "g_edges (fold (put_node now env) ns db) = g_edges db"
  by (induction ns arbitrary: db) simp_all

lemma put_nodes_rows:
  "\<exists>rid. filter (\<lambda>r. nr_qualified_name r = q) (g_nodes (fold (put_node now env) ns db)) =
     (if q \<in> n_id ` set ns then [node_row_of now env rid (last (filter (\<lambda>n. n_id n = q) ns))]
      else filter (\<lambda>r. nr_qualified_name r = q) (g_nodes db))"
proof (induction ns rule: rev_induct)
  case (snoc n ns)
  have "filter (\<lambda>r. nr_qualified_name r = q) (filter (\<lambda>r. nr_qualified_name r \<noteq> n_id n) rs) =
      (if q = n_id n then [] else filter (\<lambda>r. nr_qualified_name r = q) rs)" for rs :: "node_row list"
    by (auto simp: filter_empty_conv intro: filter_cong)
  then show ?case using snoc by auto
qed simp

lemma put_nodes_qnames:
  "\<forall>n \<in> set ns. n_file n = path \<Longrightarrow>
   set (qnames_of path (fold (put_node now env) ns db)) = set (qnames_of path db) \<union> n_id ` set ns"
proof (induction ns arbitrary: db)
  case (Cons n ns)
  have "set (qnames_of path (put_node now env n db)) = insert (n_id n) (set (qnames_of path db))"
    using Cons.prems by (auto simp: qnames_of_def)
  with Cons show ?case by simp
qed simp

lemma put_edges_tables:
  "g_nodes (fold (put_edge now env) es db) = g_nodes db \<and>
   (\<exists>rows. g_edges (fold (put_edge now env) es db) = g_edges db @ rows \<and> map edge_key rows = map edge_key_of es)"
proof (induction es arbitrary: db)
  case (Cons e es)
  obtain row where "g_nodes (put_edge now env e db) = g_nodes db" "g_edges (put_edge now env e db) = g_edges db @ [row]"
    "edge_key row = edge_key_of e"
    by (simp add: put_edge_def insert_edge_def edge_key_def edge_key_of_def Let_def)
  moreover obtain rows where "g_edges (fold (put_edge now env) es (put_edge now env e db)) = g_edges (put_edge now env e db) @ rows"
    "map edge_key rows = map edge_key_of es"
    using Cons.IH by blast
  ultimately have "g_edges (fold (put_edge now env) (e # es) db) = g_edges db @ row # rows" "map edge_key (row # rows) = map edge_key_of (e # es)"
    by simp_all
  with Cons.IH[of "put_edge now env e db"] \<open>g_nodes (put_edge now env e db) = g_nodes db\<close> show ?case by auto
qed simp

lemma save_tables_spec:
  "(\<exists>rid. filter (\<lambda>r. nr_qualified_name r = q) (g_nodes (save_tables now env path g db)) =
      (if q \<in> n_id ` set (ex_nodes g) then [node_row_of now env rid (last (filter (\<lambda>n. n_id n = q) (ex_nodes g)))]
       else filter (\<lambda>r. nr_qualified_name r = q) (g_nodes db)))"
  "\<exists>rows. g_edges (save_tables now env path g db) =
      filter (\<lambda>e. er_source e \<notin> set (qnames_of path db)) (g_edges db) @ rows \<and> map edge_key rows = map edge_key_of (ex_edges g)"
  using put_nodes_rows[of q now env "ex_nodes g" "delete_edges (\<lambda>e. er_source e \<in> set (qnames_of path db)) db"]
    put_edges_tables[of now env "ex_edges g"
      "fold (put_node now env) (ex_nodes g) (delete_edges (\<lambda>e. er_source e \<in> set (qnames_of path db)) db)"]
  by (cases "q \<in> n_id ` set (ex_nodes g)"; simp add: save_tables_def)+

text \<open>
  C21: saving a file writes its graph, and no more. With the shard writable and no statement failing, re-indexing
  a readable source file of an enabled language that parses leaves, for every qualified name of the new graph,
  one row, written from the last node of that name with every column the statement does not name reset; the
  rows of every other name, nodes the file no longer has included, stay as they were. The edges that left nodes
  of the file are replaced by those of the new graph, in order; no other shard changes.
\<close>

theorem reindex_exact:
  assumes "alive (graph_engine no_fault now E) project (rs_store st)" and "settled env" and "\<not> mx_held (rs_stats st)"
    and "from_filename path = Some lang" and "is_enabled (rx_features env) lang" and "rx_read env = Inr bs" and "\<not> looks_binary bs"
    and "parse_file L ts blake pool path lang bs (rs_cache st) = (Inr parse, c)" and "extract_graph A lang (ip_tree parse) bs path = Inr g"
  shows "\<exists>st'. reindex_one (graph_engine no_fault now E) L ts blake pool A env project path Upsert st = Some (Inr (), st') \<and>
    (let db = st_db (rs_store st) (project, Graph); db' = st_db (rs_store st') (project, Graph);
         old = nr_qualified_name ` {r \<in> set (g_nodes db). nr_file_path r = Some path}
     in (\<forall>q. \<exists>rid. filter (\<lambda>r. nr_qualified_name r = q) (g_nodes db') =
           (if q \<in> n_id ` set (ex_nodes g) then [node_row_of now env rid (last (filter (\<lambda>n. n_id n = q) (ex_nodes g)))]
            else filter (\<lambda>r. nr_qualified_name r = q) (g_nodes db))) \<and>
        (\<exists>rows. g_edges db' = filter (\<lambda>e. er_source e \<notin> old) (g_edges db) @ rows \<and> map edge_key rows = map edge_key_of (ex_edges g)) \<and>
        (\<forall>key. key \<noteq> (project, Graph) \<longrightarrow> st_db (rs_store st') key = st_db (rs_store st) key))"
proof -
  obtain st' where st': "reindex_one (graph_engine no_fault now E) L ts blake pool A env project path Upsert st = Some (Inr (), st')"
    "st_db (rs_store st') = (st_db (rs_store st))((project, Graph) := save_tables now env path g (st_db (rs_store st) (project, Graph)))"
    using reindex_upsert_refines[OF assms] by blast
  have set: "set (qnames_of path db) = nr_qualified_name ` {r \<in> set (g_nodes db). nr_file_path r = Some path}" for db
    by (simp add: qnames_of_def)
  show ?thesis
    using save_tables_spec(1)[of _ now env path g "st_db (rs_store st) (project, Graph)"]
      save_tables_spec(2)[of now env path g "st_db (rs_store st) (project, Graph)"]
    by (intro exI[of _ st'] conjI st'(1)) (simp add: Let_def st'(2) set)
qed

section \<open>Saving again and again\<close>

definition edges_from :: "string \<Rightarrow> graph_db \<Rightarrow> nat" where
  "edges_from q db = length (filter (\<lambda>e. er_source e = q) (g_edges db))"

definition new_edges_from :: "string \<Rightarrow> extracted \<Rightarrow> nat" where
  "new_edges_from q g = length (filter (\<lambda>e. e_from e = q) (ex_edges g))"

lemma save_tables_edges_from:
  "edges_from q (save_tables now env path g db) =
   (if q \<in> set (qnames_of path db) then 0 else edges_from q db) + new_edges_from q g"
proof -
  obtain rows where r: "g_edges (save_tables now env path g db) =
      filter (\<lambda>e. er_source e \<notin> set (qnames_of path db)) (g_edges db) @ rows" "map edge_key rows = map edge_key_of (ex_edges g)"
    using save_tables_spec(2) by blast
  have "map er_source rows = map (\<lambda>k. fst (snd k)) (map edge_key rows)" by (simp add: edge_key_def)
  also have "\<dots> = map e_from (ex_edges g)" by (simp add: r(2) edge_key_of_def)
  finally have src: "map er_source rows = map e_from (ex_edges g)" .
  have "length (filter (\<lambda>e. er_source e = q) rows) = length (filter (\<lambda>x. x = q) (map er_source rows))"
    by (simp add: filter_map comp_def)
  also have "\<dots> = new_edges_from q g" by (simp add: src filter_map comp_def new_edges_from_def)
  finally have "length (filter (\<lambda>e. er_source e = q) rows) = new_edges_from q g" .
  moreover have "filter (\<lambda>e. er_source e = q) (filter (\<lambda>e. er_source e \<notin> set (qnames_of path db)) es) =
      (if q \<in> set (qnames_of path db) then [] else filter (\<lambda>e. er_source e = q) es)" for es :: "edge_row list"
    by (auto simp: filter_empty_conv intro: filter_cong)
  ultimately show ?thesis by (simp add: edges_from_def r(1))
qed

lemma save_tables_qnames:
  assumes "\<forall>n \<in> set (ex_nodes g). n_file n = path"
  shows "set (qnames_of path (save_tables now env path g db)) = set (qnames_of path db) \<union> n_id ` set (ex_nodes g)"
proof -
  have "qnames_of path (save_tables now env path g db) =
      qnames_of path (fold (put_node now env) (ex_nodes g) (delete_edges (\<lambda>e. er_source e \<in> set (qnames_of path db)) db))"
    using put_edges_tables by (simp add: save_tables_def qnames_of_def)
  then show ?thesis using put_nodes_qnames[OF assms] by (simp add: qnames_of_def)
qed

text \<open>
  Only the edges of known nodes are replaced. However often a file is saved unchanged, a node of its graph
  has, from the second save on, exactly the outgoing edges of the graph; but edges whose source is no node, such
  as a call's edge with a dangling source, are written once more at every save.
\<close>

theorem dangling_edges_accumulate:
  assumes up: "alive (graph_engine no_fault now E) project s" and env: "settled env" and nodes: "\<forall>n \<in> set (ex_nodes g). n_file n = path"
  shows "let db = st_db s (project, Graph);
             db' = st_db ((reindex_write (graph_engine no_fault now E) env project path g ^^ k) s) (project, Graph)
    in (q \<notin> nr_qualified_name ` {r \<in> set (g_nodes db). nr_file_path r = Some path} \<and> q \<notin> n_id ` set (ex_nodes g) \<longrightarrow>
          edges_from q db' = edges_from q db + k * new_edges_from q g) \<and>
       (q \<in> n_id ` set (ex_nodes g) \<and> 2 \<le> k \<longrightarrow> edges_from q db' = new_edges_from q g)"
proof -
  let ?G = "graph_engine no_fault now E"
  let ?s = "\<lambda>k. (reindex_write ?G env project path g ^^ k) s"
  let ?db = "\<lambda>k. st_db (?s k) (project, Graph)"
  have alive: "alive ?G project (?s k)" for k by (induction k) (simp_all add: up reindex_write_refines(2)[OF _ env])
  have step: "?db (Suc k) = save_tables now env path g (?db k)" for k
    by (simp add: reindex_write_refines(1)[OF alive env])
  have names: "set (qnames_of path (?db (Suc k))) = set (qnames_of path (?db k)) \<union> n_id ` set (ex_nodes g)" for k
    by (simp only: step save_tables_qnames[OF nodes])
  have fresh: "q \<notin> set (qnames_of path (?db k)) \<and> edges_from q (?db k) = edges_from q (?db 0) + k * new_edges_from q g"
    if "q \<notin> set (qnames_of path (?db 0))" "q \<notin> n_id ` set (ex_nodes g)"
  proof (induction k)
    case (Suc k)
    then show ?case unfolding step save_tables_edges_from save_tables_qnames[OF nodes] using that by simp
  qed (use that in simp)
  have known: "edges_from q (?db (Suc (Suc k))) = new_edges_from q g" if "q \<in> n_id ` set (ex_nodes g)" for k
    unfolding step[of "Suc k"] save_tables_edges_from using that names[of k] by simp
  have set: "set (qnames_of path (?db 0)) = nr_qualified_name ` {r \<in> set (g_nodes (?db 0)). nr_file_path r = Some path}"
    by (simp add: qnames_of_def)
  have "edges_from q (?db k) = new_edges_from q g" if "q \<in> n_id ` set (ex_nodes g)" "2 \<le> k"
    using known[OF that(1), of "k - 2"] that(2) by (simp add: numeral_2_eq_2 Suc_diff_Suc)
  with fresh show ?thesis unfolding Let_def set by simp
qed

section \<open>Failures\<close>

lemma dead_write:
  assumes "\<not> alive E project s"
  shows "st_db (snd (write_with_audit E iv project Graph sql ps action quiet s)) = st_db s \<and>
    \<not> alive E project (snd (write_with_audit E iv project Graph sql ps action quiet s))"
proof -
  let ?s = "snd (writer E project Graph s)"
  have w: "writer E project Graph s = (False, ?s)" using assms by (cases "writer E project Graph s") (simp add: alive_def)
  have same: "st_db ?s = st_db s" by (simp add: writer_def Let_def split: option.split)
  have dead: "\<not> alive E project ?s" using assms by (auto simp: alive_def writer_def Let_def split: option.splits)
  have "snd (db_write E env' \<lparr>w_project = project, w_layer = Graph, w_sql = sql, w_params = ps\<rparr> s) = ?s" for env'
    by (subst db_write_def, subst Let_def) (simp add: w[THEN arg_cong, of fst] split_beta)
  moreover have "\<not> success (fst (db_write E env' \<lparr>w_project = project, w_layer = Graph, w_sql = sql, w_params = ps\<rparr> s))" for env'
    by (subst db_write_def, subst Let_def) (simp add: w[THEN arg_cong, of fst] split_beta Response_err_def)
  ultimately have "snd (write_with_audit E iv project Graph sql ps action quiet s) \<in> {s, ?s}"
    by (simp add: write_with_audit_def quiet_def InjectOptions_default_def Let_def split_beta split: option.split)
  then show ?thesis using same dead assms by auto
qed

lemma dead_fold:
  "\<not> alive E project s \<Longrightarrow> st_db (fold (\<lambda>(i, x) s. snd (write_with_audit E (iv i) project Graph sql (ps x) action quiet s)) xs s) = st_db s \<and>
    \<not> alive E project (fold (\<lambda>(i, x) s. snd (write_with_audit E (iv i) project Graph sql (ps x) action quiet s)) xs s)"
proof (induction xs arbitrary: s)
  case (Cons x xs)
  then show ?case using dead_write[OF Cons.prems] by (cases x) simp
qed simp

lemma dead_unlink:
  "\<not> alive E project s \<Longrightarrow> st_db (unlink_all E iv project sql qs s) = st_db s \<and> \<not> alive E project (unlink_all E iv project sql qs s)"
  using dead_fold[where ps = "\<lambda>q. [JStr q]"] by (simp add: unlink_all_def snd_db_delete)

lemma dead_insert:
  "\<not> alive E project s \<Longrightarrow> st_db (insert_all E iv project sql pss s) = st_db s \<and> \<not> alive E project (insert_all E iv project sql pss s)"
  using dead_fold[where ps = "\<lambda>ps. ps"] by (simp add: insert_all_def db_insert_def)

text \<open>
  Failed writes are reported as done. When the writer of the graph shard has gone, every statement of a
  re-indexing fails and no table changes; both branches still return success, count the change and send the
  event, an upsert with the numbers of nodes and edges it did not write.
\<close>

theorem failed_writes_reported_done:
  assumes "\<not> alive E project (rs_store st)" and "\<not> mx_held (rs_stats st)"
    and "from_filename path = Some lang" and "is_enabled (rx_features env) lang" and "rx_read env = Inr bs" and "\<not> looks_binary bs"
    and "parse_file L ts blake pool path lang bs (rs_cache st) = (Inr parse, c)" and "extract_graph A lang (ip_tree parse) bs path = Inr g"
  shows "(\<exists>st'. reindex_one E L ts blake pool A env project path Delete st = Some (Inr (), st') \<and>
      st_db (rs_store st') = st_db (rs_store st) \<and>
      mx_value (rs_stats st') = stats_record (rx_elapsed env) Delete (mx_value (rs_stats st))) \<and>
    (\<exists>st'. reindex_one E L ts blake pool A env project path Upsert st = Some (Inr (), st') \<and>
      st_db (rs_store st') = st_db (rs_store st) \<and>
      mx_value (rs_stats st') = stats_record (rx_elapsed env) Upsert (mx_value (rs_stats st)) \<and>
      rs_sent st' = rs_sent st @ emit_file_reindexed (rx_socket env) path (rx_elapsed env) (int (length (ex_nodes g))) (int (length (ex_edges g))))"
proof
  show "\<exists>st'. reindex_one E L ts blake pool A env project path Delete st = Some (Inr (), st') \<and>
      st_db (rs_store st') = st_db (rs_store st) \<and>
      mx_value (rs_stats st') = stats_record (rx_elapsed env) Delete (mx_value (rs_stats st))"
    using dead_write[OF conjunct2[OF dead_unlink[OF assms(1)]]] dead_unlink[OF assms(1)] assms(2)
    by (simp add: reindex_one_def reindex_delete_def Let_def unit_finish snd_db_delete)
  have "st_db (reindex_write E env project path g (rs_store st)) = st_db (rs_store st)"
    using dead_unlink[OF assms(1)] dead_insert by (simp add: reindex_write_def Let_def)
  then show "\<exists>st'. reindex_one E L ts blake pool A env project path Upsert st = Some (Inr (), st') \<and>
      st_db (rs_store st') = st_db (rs_store st) \<and>
      mx_value (rs_stats st') = stats_record (rx_elapsed env) Upsert (mx_value (rs_stats st)) \<and>
      rs_sent st' = rs_sent st @ emit_file_reindexed (rx_socket env) path (rx_elapsed env) (int (length (ex_nodes g))) (int (length (ex_edges g)))"
    using assms by (simp add: reindex_one_def reindex_upsert_def unit_finish)
qed

text \<open>
  A file replaced within the debounce time is purged. A removal and a creation of the same path that fall
  into one window, as when an editor saves by replacing the file, are handed on as one deletion; and the
  re-indexing removes every node of the file, whatever the file now contains.
\<close>

theorem replaced_file_purged:
  assumes "\<not> is_ignored p root" and "t - t1 \<ge> debounce"
    and "alive (graph_engine no_fault now E) project (rs_store st)" and "settled env" and "\<not> mx_held (rs_stats st)"
  shows "\<exists>d. debounce_run debounce root
      [Raw \<lparr>ne_kind = RemoveFile, ne_paths = [p]\<rparr> (\<lambda>_. t0), Raw \<lparr>ne_kind = OtherEvent, ne_paths = [p]\<rparr> (\<lambda>_. t1), Tick t]
      \<lparr>db_pending = [], db_stats = m\<rparr> = Some ([(p, Delete)], d) \<and>
    (\<exists>st'. reindex_one (graph_engine no_fault now E) L ts blake pool A env project p Delete st = Some (Inr (), st') \<and>
      (\<forall>r \<in> set (g_nodes (st_db (rs_store st') (project, Graph))). nr_file_path r \<noteq> Some p))"
proof -
  have "\<exists>d. debounce_run debounce root
      [Raw \<lparr>ne_kind = RemoveFile, ne_paths = [p]\<rparr> (\<lambda>_. t0), Raw \<lparr>ne_kind = OtherEvent, ne_paths = [p]\<rparr> (\<lambda>_. t1), Tick t]
      \<lparr>db_pending = [], db_stats = m\<rparr> = Some ([(p, Delete)], d)"
    using assms(1,2)
    by (simp add: debounce_step_def classify_event_def enter_path_def event_kind_def MAX_PENDING_def ready_batches_def duration_since_def)
  moreover obtain s where "reindex_one (graph_engine no_fault now E) L ts blake pool A env project p Delete st =
      Some (Inr (), st\<lparr>rs_store := s,
        rs_stats := (rs_stats st)\<lparr>mx_value := stats_record (rx_elapsed env) Delete (mx_value (rs_stats st))\<rparr>,
        rs_sent := rs_sent st @ emit_file_reindexed (rx_socket env) p (rx_elapsed env)
          (- int (length (qnames_of p (st_db (rs_store st) (project, Graph))))) 0\<rparr>)"
    "st_db s = (st_db (rs_store st))((project, Graph) := purge_tables p (st_db (rs_store st) (project, Graph)))"
    using reindex_delete_refines[OF assms(3-5), of L ts blake pool A p] by blast
  ultimately show ?thesis by (simp add: purge_tables_def delete_nodes_def)
qed

section \<open>Witnesses\<close>

definition demo_shards :: "bool \<Rightarrow> graph_db engine" where
  "demo_shards up = \<lparr>en_open = (\<lambda>_. up), en_exec = (\<lambda>_ _ _. Inl (Sqlite ''no such table'')), en_rows = (\<lambda>_ _ _. Inl (Sqlite ''no such table'')),
     en_begin = (\<lambda>_. None), en_commit = (\<lambda>_. None)\<rparr>"

definition demo_db :: graph_db where
  "demo_db =
     \<lparr>g_nodes = [\<lparr>nr_id = 1, nr_kind = ''function'', nr_name = ''f'', nr_qualified_name = ''q'', nr_file_path = Some ''a.py'',
        nr_line_start = None, nr_line_end = None, nr_language = None, nr_parent_qualified = None, nr_signature = None,
        nr_modifiers = None, nr_is_test = 0, nr_file_hash = None, nr_summary = None, nr_embedding_id = Some 7, nr_extra = [],
        nr_updated_at = []\<rparr>],
      g_node_seq = 1,
      g_edges = [\<lparr>er_id = 1, er_kind = ''calls'', er_source = ''z'', er_target = ''q'', er_confidence = ''extracted'',
        er_confidence_score = JNum 1, er_file_path = None, er_line = None, er_source_extractor = [], er_extra = [], er_updated_at = []\<rparr>],
      g_edge_seq = 1, g_last_rowid = 1\<rparr>"

definition demo_rx :: reindex_env where
  "demo_rx = \<lparr>rx_query = demo_wenv, rx_unlink = (\<lambda>_. demo_iv None), rx_purge = demo_iv None, rx_node = (\<lambda>_. demo_iv None),
     rx_edge = (\<lambda>_. demo_iv None), rx_elapsed = 5, rx_read = Inr [1], rx_features = {}, rx_socket = None, rx_show = (\<lambda>_. []),
     rx_json = (\<lambda>_. []), rx_number = (\<lambda>_. JNum 1)\<rparr>"

definition demo_state :: "unit reindex_state" where
  "demo_state = \<lparr>rs_store = \<lparr>st_paths = \<lparr>pm_root = ''/m''\<rparr>, st_writers = [], st_db = (\<lambda>_. demo_db)\<rparr>, rs_cache = (),
     rs_stats = \<lparr>mx_held = False, mx_value = WatcherStats_default\<rparr>, rs_sent = []\<rparr>"

definition demo_trees :: "(unit, ts_node) lru" where
  "demo_trees = \<lparr>lru_get = (\<lambda>_ c. (None, c)), lru_put = (\<lambda>_ _ c. c), lru_pop = (\<lambda>_ c. c)\<rparr>"

definition demo_runtime :: "ts_node tree_sitter" where
  "demo_runtime = \<lparr>ts_parse = (\<lambda>_ _ _. Some demo_function), ts_edit = (\<lambda>_ t. t)\<rparr>"

lemma demo_ready:
  "alive (graph_engine no_fault [] (demo_shards True)) ''p'' (rs_store demo_state)" "settled demo_rx" "\<not> mx_held (rs_stats demo_state)"
  "\<not> alive (demo_shards False) ''p'' (rs_store demo_state)"
  by (simp_all add: alive_def writer_def demo_shards_def demo_state_def settled_def demo_rx_def demo_wenv_def demo_iv_def)

lemma demo_source:
  "from_filename ''a.py'' = Some LangPython" "is_enabled (rx_features demo_rx) LangPython" "rx_read demo_rx = Inr [1]" "\<not> looks_binary [1]"
  "parse_file demo_trees demo_runtime id demo_parsers ''a.py'' LangPython [1] (rs_cache demo_state) =
     (Inr \<lparr>ip_tree = demo_function, ip_incremental = False, ip_unchanged = False\<rparr>, ())"
proof -
  show "from_filename ''a.py'' = Some LangPython" by code_simp
  show "is_enabled (rx_features demo_rx) LangPython" by (simp add: is_enabled_def tree_sitter_language_def is_tier_one_def)
  show "rx_read demo_rx = Inr [1]" "\<not> looks_binary [1]" by (simp_all add: demo_rx_def looks_binary_def)
  show "parse_file demo_trees demo_runtime id demo_parsers ''a.py'' LangPython [1] (rs_cache demo_state) =
     (Inr \<lparr>ip_tree = demo_function, ip_incremental = False, ip_unchanged = False\<rparr>, ())"
    by (simp add: parse_file_def parse_from_def demo_trees_def demo_runtime_def demo_parsers_def acquire_def Let_def)
qed

theorem delete_purges_file_witness:
  "\<exists>st'. reindex_one (graph_engine no_fault [] (demo_shards True)) demo_trees demo_runtime id demo_parsers demo_api demo_rx ''p'' ''a.py'' Delete demo_state =
     Some (Inr (), st') \<and> g_nodes (st_db (rs_store st') (''p'', Graph)) = [] \<and> g_edges (st_db (rs_store st') (''p'', Graph)) = []"
  using delete_purges_file[OF demo_ready(1-3), of demo_trees demo_runtime id demo_parsers demo_api "''a.py''"]
  by (elim exE conjE) (auto simp: Let_def demo_state_def demo_db_def)

theorem reindex_exact_witness:
  "\<exists>st'. reindex_one (graph_engine no_fault [] (demo_shards True)) demo_trees demo_runtime id demo_parsers demo_api demo_rx ''p'' ''a.py'' Upsert demo_state =
     Some (Inr (), st') \<and> st_db (rs_store st') (''p'', Audit) = demo_db"
proof -
  obtain g where "extract_graph demo_api LangPython demo_function [1] ''a.py'' = Inr g" using demo_extracts by blast
  with reindex_exact[OF demo_ready(1-3) demo_source, of demo_api g] show ?thesis
    by (auto simp: Let_def demo_state_def)
qed

definition demo_dangling :: extracted where
  "demo_dangling = \<lparr>ex_nodes = [],
     ex_edges = [\<lparr>e_from = ''x'', e_to = ''y'', e_kind = EkCalls, e_confidence = Extracted, e_unresolved_target = None\<rparr>], ex_issues = []\<rparr>"

theorem dangling_edges_accumulate_witness:
  "edges_from ''x'' (st_db ((reindex_write (graph_engine no_fault [] (demo_shards True)) demo_rx ''p'' ''a.py'' demo_dangling ^^ 3)
     (rs_store demo_state)) (''p'', Graph)) = 3"
proof -
  have "st_db (rs_store demo_state) (''p'', Graph) = demo_db" by (simp add: demo_state_def)
  moreover have "edges_from ''x'' demo_db = 0" "new_edges_from ''x'' demo_dangling = 1" "ex_nodes demo_dangling = []"
    "\<forall>r \<in> set (g_nodes demo_db). nr_qualified_name r \<noteq> ''x''"
    by (simp_all add: edges_from_def new_edges_from_def demo_db_def demo_dangling_def)
  ultimately show ?thesis
    using dangling_edges_accumulate[OF demo_ready(1,2), where k = 3 and q = "''x''" and path = "''a.py''" and g = demo_dangling]
    by (auto simp: Let_def)
qed

theorem failed_writes_reported_done_witness:
  "\<exists>st'. reindex_one (demo_shards False) demo_trees demo_runtime id demo_parsers demo_api demo_rx ''p'' ''a.py'' Delete demo_state =
     Some (Inr (), st') \<and> st_db (rs_store st') = (\<lambda>_. demo_db)"
proof -
  obtain g where "extract_graph demo_api LangPython demo_function [1] ''a.py'' = Inr g" using demo_extracts by blast
  with failed_writes_reported_done[OF demo_ready(4,3) demo_source, of demo_api g] show ?thesis
    by (auto simp: demo_state_def)
qed

theorem replaced_file_purged_witness:
  "\<exists>st'. reindex_one (graph_engine no_fault [] (demo_shards True)) demo_trees demo_runtime id demo_parsers demo_api demo_rx ''p'' ''a.py'' Delete demo_state =
     Some (Inr (), st') \<and> list_all (\<lambda>r. nr_file_path r \<noteq> Some ''a.py'') (g_nodes (st_db (rs_store st') (''p'', Graph)))"
proof -
  have "\<not> is_ignored ''a.py'' ''/r''" by code_simp
  from replaced_file_purged[OF this _ demo_ready(1-3), where debounce = 250 and t = 300 and ?t1.0 = 20 and ?t0.0 = 10 and m = "rs_stats demo_state" and L = demo_trees
      and ts = demo_runtime and blake = id and pool = demo_parsers and A = demo_api]
  show ?thesis by (auto simp: list_all_iff)
qed

end
