(* ===== verification/Build_Lock.thy ===== *)
theory Build_Lock
  imports Cli_Error
begin

text \<open>
  The lock that keeps two builds of a project apart (\<open>cli/src/build_lock.rs\<close>): the polling loop of
  \<open>BuildLock::acquire\<close>, the release in \<open>Drop\<close>, and any number of processes that run them at once. A system
  call is one event; the events of different processes interleave in any order. The lock of the operating
  system belongs to the open file, not to its path, so the file system keeps both: the path names at most
  one file, and every file has its own contents and its own lock.
\<close>

section \<open>Processes and files\<close>

type_synonym pid = nat
type_synonym inode = nat

definition POLL :: duration where
  "POLL = from_millis 250"

text \<open>
  Where a process stands in \<open>acquire\<close> and \<open>drop\<close>: before \<open>open\<close>, before \<open>try_lock_exclusive\<close> on the file it
  opened, asleep, before the error is put together, with the lock, and between \<open>unlock\<close> and \<open>remove_file\<close>.
\<close>

datatype pc =
    Idle
  | Opening duration "instant option"
  | Trying duration "instant option" inode
  | Sleeping duration "instant option" instant
  | Reporting "duration option"
  | Holding inode
  | Removing
  | Failed CliError

record world =
  now :: instant
  lock_path :: "inode option"
  contents :: "inode \<Rightarrow> string"
  locked_by :: "inode \<Rightarrow> pid option"
  next_inode :: inode
  proc :: "pid \<Rightarrow> pc"

definition empty_world :: world where
  "empty_world = \<lparr>now = 0, lock_path = None, contents = (\<lambda>_. []), locked_by = (\<lambda>_. None), next_inode = 0, proc = (\<lambda>_. Idle)\<rparr>"

text \<open>
  The events. What the operating system decides is part of the event: whether a call fails, and what
  the wall clock shows. \<open>NoDir\<close> is a start whose project directory is missing and cannot be created, and \<open>TryError\<close>
  an attempt that fails although nobody holds the lock, which the code takes for contention.
\<close>

datatype event =
    Start pid duration
  | NoDir pid path io_error
  | Open pid "io_error option"
  | Try pid nat "string option"
  | TryError pid
  | Wake pid
  | Report pid bool
  | Unlock pid
  | Remove pid bool
  | Die pid
  | Tick duration

definition stamp :: "pid \<Rightarrow> nat \<Rightarrow> string \<Rightarrow> string" where
  "stamp p ts project = ''pid='' @ show_nat p @ '' ts='' @ show_nat ts @ '' project='' @ project @ [CHR 0x0A]"

text \<open>\<open>str::lines().next()\<close>.\<close>

definition first_line_of :: "string \<Rightarrow> string option" where
  "first_line_of s =
     (if s = [] then None
      else case split_on (CHR 0x0A) s of
          l # _ # _ \<Rightarrow> Some (if ends_with l [CHR 0x0D] then butlast l else l)
        | ls \<Rightarrow> Some (hd ls))"

text \<open>The text of the lock file is \<open>None\<close> when it cannot be read.\<close>

definition contention_error :: "string \<Rightarrow> string option \<Rightarrow> duration option \<Rightarrow> CliError" where
  "contention_error project txt timeout =
     (let stmp = (case first_line_of (case txt of None \<Rightarrow> [] | Some s \<Rightarrow> s) of None \<Rightarrow> ''(no stamp)'' | Some l \<Rightarrow> l);
          suffix = (case timeout of
              Some t \<Rightarrow> if t \<noteq> 0 then '' (timed out after '' @ show_nat (as_secs t) @ ''s)'' else []
            | None \<Rightarrow> [])
      in CliOther (''another build in progress for project '' @ project @ '' (locked at '' @ stmp @ '')'' @ suffix))"

section \<open>The steps\<close>

abbreviation goto :: "pid \<Rightarrow> pc \<Rightarrow> world \<Rightarrow> world" where
  "goto p c w \<equiv> w\<lparr>proc := (proc w)(p := c)\<rparr>"

text \<open>\<open>deadline\<close> is none for a timeout of zero.\<close>

definition start_acquire :: "pid \<Rightarrow> duration \<Rightarrow> world \<Rightarrow> world" where
  "start_acquire p timeout w = goto p (Opening timeout (if timeout = 0 then None else Some (now w + timeout))) w"

text \<open>\<open>OpenOptions::create(true)\<close>: the file at the path, or a new one.\<close>

definition open_lock :: "pid \<Rightarrow> duration \<Rightarrow> instant option \<Rightarrow> world \<Rightarrow> world" where
  "open_lock p timeout deadline w =
     (case lock_path w of
        Some i \<Rightarrow> goto p (Trying timeout deadline i) w
      | None \<Rightarrow>
          let i = next_inode w in
          goto p (Trying timeout deadline i)
            (w\<lparr>lock_path := Some i, contents := (contents w)(i := []), next_inode := i + 1\<rparr>))"

text \<open>The arm \<open>Err(_e)\<close> of an attempt: the deadline is looked at, and there is another round or an error.\<close>

definition lost_attempt :: "pid \<Rightarrow> duration \<Rightarrow> instant option \<Rightarrow> world \<Rightarrow> world" where
  "lost_attempt p timeout deadline w =
     (case deadline of
        Some d \<Rightarrow>
          if now w \<ge> d then goto p (Reporting (Some timeout)) w
          else goto p (Sleeping timeout deadline (now w + POLL)) w
      | None \<Rightarrow> goto p (Reporting None) w)"

text \<open>
  One attempt. The stamp is written with the results of the three writes discarded; \<open>junk\<close> is what the
  file holds when one of them fails.
\<close>

definition try_lock :: "string \<Rightarrow> pid \<Rightarrow> nat \<Rightarrow> string option \<Rightarrow> duration \<Rightarrow> instant option \<Rightarrow> inode \<Rightarrow> world \<Rightarrow> world" where
  "try_lock project p ts junk timeout deadline i w =
     (case locked_by w i of
        None \<Rightarrow>
          goto p (Holding i)
            (w\<lparr>locked_by := (locked_by w)(i := Some p),
               contents := (contents w)(i := (case junk of None \<Rightarrow> stamp p ts project | Some s \<Rightarrow> s))\<rparr>)
      | Some _ \<Rightarrow> lost_attempt p timeout deadline w)"

text \<open>What the operating system does for a process that dies: its locks are released.\<close>

definition die :: "pid \<Rightarrow> world \<Rightarrow> world" where
  "die p w = goto p Idle (w\<lparr>locked_by := (\<lambda>i. if locked_by w i = Some p then None else locked_by w i)\<rparr>)"

fun exec :: "path \<Rightarrow> string \<Rightarrow> event \<Rightarrow> world \<Rightarrow> world option" where
  "exec path project (Start p timeout) w =
     (case proc w p of Idle \<Rightarrow> Some (start_acquire p timeout w) | Failed _ \<Rightarrow> Some (start_acquire p timeout w) | _ \<Rightarrow> None)"
| "exec path project (NoDir p dir e) w =
     (case proc w p of
        Idle \<Rightarrow> Some (goto p (Failed (CliIo (Some dir) e)) w)
      | Failed _ \<Rightarrow> Some (goto p (Failed (CliIo (Some dir) e)) w)
      | _ \<Rightarrow> None)"
| "exec path project (Open p failure) w =
     (case proc w p of
        Opening timeout deadline \<Rightarrow>
          (case failure of
             None \<Rightarrow> Some (open_lock p timeout deadline w)
           | Some e \<Rightarrow> Some (goto p (Failed (CliIo (Some path) e)) w))
      | _ \<Rightarrow> None)"
| "exec path project (Try p ts junk) w =
     (case proc w p of Trying timeout deadline i \<Rightarrow> Some (try_lock project p ts junk timeout deadline i w) | _ \<Rightarrow> None)"
| "exec path project (TryError p) w =
     (case proc w p of Trying timeout deadline i \<Rightarrow> Some (lost_attempt p timeout deadline w) | _ \<Rightarrow> None)"
| "exec path project (Wake p) w =
     (case proc w p of
        Sleeping timeout deadline until \<Rightarrow> if now w \<ge> until then Some (goto p (Opening timeout deadline) w) else None
      | _ \<Rightarrow> None)"
| "exec path project (Report p ok) w =
     (case proc w p of
        Reporting timeout \<Rightarrow>
          Some (goto p (Failed (contention_error project (if ok then map_option (contents w) (lock_path w) else None) timeout)) w)
      | _ \<Rightarrow> None)"
| "exec path project (Unlock p) w =
     (case proc w p of Holding i \<Rightarrow> Some (goto p Removing (w\<lparr>locked_by := (locked_by w)(i := None)\<rparr>)) | _ \<Rightarrow> None)"
| "exec path project (Remove p ok) w =
     (case proc w p of Removing \<Rightarrow> Some (goto p Idle (if ok then w\<lparr>lock_path := None\<rparr> else w)) | _ \<Rightarrow> None)"
| "exec path project (Die p) w = Some (die p w)"
| "exec path project (Tick d) w = Some (w\<lparr>now := now w + d\<rparr>)"

fun run :: "path \<Rightarrow> string \<Rightarrow> event list \<Rightarrow> world \<Rightarrow> world option" where
  "run path project [] w = Some w"
| "run path project (e # es) w = Option.bind (exec path project e w) (run path project es)"

definition lock_step :: "path \<Rightarrow> string \<Rightarrow> world \<Rightarrow> world \<Rightarrow> bool" where
  "lock_step path project w w' \<longleftrightarrow> (\<exists>e. exec path project e w = Some w')"

text \<open>The file a process has open.\<close>

fun opened :: "pc \<Rightarrow> inode option" where
  "opened (Trying _ _ i) = Some i"
| "opened (Holding i) = Some i"
| "opened _ = None"

text \<open>A step that does not remove the file while some process has a file open.\<close>

definition clean_step :: "path \<Rightarrow> string \<Rightarrow> world \<Rightarrow> world \<Rightarrow> bool" where
  "clean_step path project w w' \<longleftrightarrow>
     (\<exists>e. exec path project e w = Some w' \<and> ((\<exists>p. e = Remove p True) \<longrightarrow> (\<forall>q. opened (proc w q) = None)))"

section \<open>Mutual exclusion\<close>

text \<open>
  Every open file is the one at the path, and a process holds the lock of a file exactly when it stands
  where it holds it.
\<close>

definition lock_inv :: "world \<Rightarrow> bool" where
  "lock_inv w \<longleftrightarrow>
     (\<forall>p i. opened (proc w p) = Some i \<longrightarrow> lock_path w = Some i) \<and>
     (\<forall>p i. locked_by w i = Some p \<longleftrightarrow> proc w p = Holding i)"

lemma lock_invI:
  assumes "\<And>p i. opened (proc w p) = Some i \<Longrightarrow> lock_path w = Some i"
    and "\<And>p i. locked_by w i = Some p \<longleftrightarrow> proc w p = Holding i"
  shows "lock_inv w"
  using assms by (simp add: lock_inv_def)

lemma lock_inv_opened: "lock_inv w \<Longrightarrow> opened (proc w p) = Some i \<Longrightarrow> lock_path w = Some i"
  by (simp add: lock_inv_def)

lemma lock_inv_locked: "lock_inv w \<Longrightarrow> locked_by w i = Some p \<longleftrightarrow> proc w p = Holding i"
  by (simp add: lock_inv_def)

text \<open>A process that has no file open may go wherever it has none open either.\<close>

lemma lock_inv_goto:
  assumes "lock_inv w" and "\<forall>i. proc w p \<noteq> Holding i" and "opened c = None"
  shows "lock_inv (goto p c w)"
proof (rule lock_invI)
  show "locked_by (goto p c w) i = Some q \<longleftrightarrow> proc (goto p c w) q = Holding i" for q i
    using assms by (cases c) (auto simp: lock_inv_locked)
qed (use assms in \<open>auto dest: lock_inv_opened split: if_splits\<close>)

lemma lock_inv_open:
  assumes inv: "lock_inv w" and pc: "proc w p = Opening timeout deadline"
  shows "lock_inv (open_lock p timeout deadline w)"
proof (cases "lock_path w")
  case None
  then have "opened (proc w q) = None" for q
    using lock_inv_opened[OF inv, of q] by (cases "opened (proc w q)") auto
  then show ?thesis
    using inv pc None by (auto simp: open_lock_def Let_def lock_inv_def split: if_splits)
next
  case (Some i)
  then show ?thesis
    using inv pc by (auto simp: open_lock_def lock_inv_def split: if_splits)
qed

lemma lock_inv_try:
  assumes inv: "lock_inv w" and pc: "proc w p = Trying timeout deadline i"
  shows "lock_inv (try_lock project p ts junk timeout deadline i w)"
proof (cases "locked_by w i")
  case None
  have "lock_path w = Some i" using lock_inv_opened[OF inv, of p] pc by simp
  moreover from this None have "proc w q \<noteq> Holding j" for q j
    using lock_inv_opened[OF inv, of q j] lock_inv_locked[OF inv, of j q] by auto
  ultimately show ?thesis
    using inv None by (auto simp: try_lock_def lock_inv_def split: if_splits)
next
  case (Some q)
  have "lock_inv (goto p c w)" if "opened c = None" for c
    using that by (intro lock_inv_goto[OF inv]) (use pc in auto)
  with Some show ?thesis by (simp add: try_lock_def lost_attempt_def split: option.split)
qed

lemma lock_inv_lost:
  assumes inv: "lock_inv w" and pc: "proc w p = Trying timeout deadline i"
  shows "lock_inv (lost_attempt p timeout deadline w)"
  using pc by (auto simp: lost_attempt_def intro!: lock_inv_goto[OF inv] split: option.split)

lemma one_holder: "lock_inv w \<Longrightarrow> proc w p = Holding i \<Longrightarrow> proc w q = Holding i \<Longrightarrow> q = p"
  using lock_inv_locked[of w i p] lock_inv_locked[of w i q] by simp

lemma lock_inv_unlock:
  assumes inv: "lock_inv w" and pc: "proc w p = Holding i"
  shows "lock_inv (w\<lparr>locked_by := (locked_by w)(i := None), proc := (proc w)(p := Removing)\<rparr>)"
proof (rule lock_invI, goal_cases)
  case (1 q j)
  then show ?case using lock_inv_opened[OF inv, of q j] by (simp split: if_splits)
next
  case (2 q j)
  show ?case
  proof (cases "q = p")
    case True
    then show ?thesis using lock_inv_locked[OF inv, of j p] pc by simp
  next
    case False
    then have "proc w q \<noteq> Holding i" using one_holder[OF inv pc, of q] by blast
    with False show ?thesis using lock_inv_locked[OF inv, of j q] by simp
  qed
qed

lemma lock_inv_die:
  assumes inv: "lock_inv w"
  shows "lock_inv (die p w)"
proof (rule lock_invI, goal_cases)
  case (1 q i)
  then show ?case using lock_inv_opened[OF inv, of q i] by (simp add: die_def split: if_splits)
next
  case (2 q i)
  then show ?case using lock_inv_locked[OF inv, of i q] by (auto simp: die_def)
qed

lemma lock_inv_step:
  assumes inv: "lock_inv w" and "clean_step path project w w'"
  shows "lock_inv w'"
proof -
  from assms(2) obtain e where e: "exec path project e w = Some w'"
    and clean: "(\<exists>p. e = Remove p True) \<longrightarrow> (\<forall>q. opened (proc w q) = None)"
    by (auto simp: clean_step_def)
  show ?thesis
  proof (cases e)
    case (Start p timeout)
    with e show ?thesis by (auto simp: start_acquire_def split: pc.splits intro!: lock_inv_goto[OF inv])
  next
    case (NoDir p dir err)
    with e show ?thesis by (auto split: pc.splits intro!: lock_inv_goto[OF inv])
  next
    case (TryError p)
    with e show ?thesis by (auto split: pc.splits intro!: lock_inv_lost[OF inv])
  next
    case (Open p failure)
    with e show ?thesis by (auto split: pc.splits option.splits intro!: lock_inv_goto[OF inv] lock_inv_open[OF inv])
  next
    case (Try p ts junk)
    with e show ?thesis by (auto split: pc.splits intro!: lock_inv_try[OF inv])
  next
    case (Wake p)
    with e show ?thesis by (auto split: pc.splits if_splits intro!: lock_inv_goto[OF inv])
  next
    case (Report p ok)
    with e show ?thesis by (auto split: pc.splits intro!: lock_inv_goto[OF inv])
  next
    case (Unlock p)
    with e show ?thesis by (auto split: pc.splits intro!: lock_inv_unlock[OF inv])
  next
    case (Remove p ok)
    with e have pc: "proc w p = Removing" and w': "w' = goto p Idle (if ok then w\<lparr>lock_path := None\<rparr> else w)"
      by (auto split: pc.splits)
    have "lock_inv (if ok then w\<lparr>lock_path := None\<rparr> else w)"
      using inv clean Remove by (auto simp: lock_inv_def)
    then show ?thesis unfolding w' by (rule lock_inv_goto) (use pc in auto)
  next
    case (Die p)
    with e show ?thesis by (auto intro: lock_inv_die[OF inv])
  next
    case (Tick d)
    with e inv show ?thesis by (auto simp: lock_inv_def)
  qed
qed

lemma lock_inv_empty: "lock_inv empty_world"
  by (simp add: lock_inv_def empty_world_def)

interpretation build_lock: transition_invariant "\<lambda>w. w = empty_world" "clean_step path project" lock_inv
  for path project
  by unfold_locales (auto intro: lock_inv_empty lock_inv_step)

text \<open>
  C24: the build lock excludes, as long as no lock file is removed while a process has it open. Whatever
  processes start, poll, acquire, release and die, in whatever order, at most one of them holds the lock,
  and the file it holds is the one at the path, with its own lock.
\<close>

theorem build_lock_excludes:
  assumes "reach (\<lambda>w. w = empty_world) (clean_step path project) w"
    and "proc w p = Holding i"
  shows "lock_path w = Some i \<and> locked_by w i = Some p \<and> (proc w q = Holding j \<longrightarrow> q = p)"
proof -
  have inv: "lock_inv w" by (rule build_lock.reach_inv[OF assms(1)])
  have path: "lock_path w = Some i" using lock_inv_opened[OF inv, of p] assms(2) by simp
  have locked: "locked_by w i = Some p" using lock_inv_locked[OF inv] assms(2) by simp
  have "q = p" if "proc w q = Holding j"
    using that path one_holder[OF inv assms(2)] lock_inv_opened[OF inv, of q j] by simp
  with path locked show ?thesis by blast
qed

lemma clean_runs:
  assumes "run path project es w = Some w'" and "reach init (clean_step path project) w"
    and "list_all (\<lambda>e. \<forall>p. e \<noteq> Remove p True) es"
  shows "reach init (clean_step path project) w'"
  using assms
proof (induction es arbitrary: w)
  case (Cons e es)
  then obtain v where v: "exec path project e w = Some v" "run path project es v = Some w'"
    by (cases "exec path project e w") auto
  moreover have "clean_step path project w v" using v(1) Cons.prems(3) by (auto simp: clean_step_def)
  ultimately show ?case using Cons by (auto intro: reach_step)
qed auto

definition held_by_one :: world where
  "held_by_one =
     the (run ''/p/.lock'' ''a'' [Start 1 0, Open 1 None, Try 1 100 None, Start 2 (from_secs 1), Open 2 None, Try 2 100 None] empty_world)"

lemmas lock_exec = start_acquire_def open_lock_def try_lock_def lost_attempt_def die_def empty_world_def from_secs_def POLL_def from_millis_def

lemma held_by_one:
  "reach (\<lambda>w. w = empty_world) (clean_step ''/p/.lock'' ''a'') held_by_one"
  "proc held_by_one 1 = Holding 0" "proc held_by_one 2 = Sleeping 1000000000 (Some 1000000000) 250000000"
proof -
  let ?es = "[Start 1 0, Open 1 None, Try 1 100 None, Start 2 (from_secs 1), Open 2 None, Try 2 100 None]"
  obtain w where w: "run ''/p/.lock'' ''a'' ?es empty_world = Some w"
    "proc w 1 = Holding 0" "proc w 2 = Sleeping 1000000000 (Some 1000000000) 250000000"
    by (simp add: lock_exec Let_def)
  then have "held_by_one = w" by (simp add: held_by_one_def)
  moreover have "reach (\<lambda>w. w = empty_world) (clean_step ''/p/.lock'' ''a'') w"
    by (rule clean_runs[OF w(1)]) (auto intro: reach_init)
  ultimately show "reach (\<lambda>w. w = empty_world) (clean_step ''/p/.lock'' ''a'') held_by_one"
    "proc held_by_one 1 = Holding 0" "proc held_by_one 2 = Sleeping 1000000000 (Some 1000000000) 250000000"
    using w(2,3) by simp_all
qed

theorem build_lock_excludes_witness: "lock_path held_by_one = Some 0 \<and> locked_by held_by_one 0 = Some 1"
  using build_lock_excludes[OF held_by_one(1,2)] by simp

text \<open>The path never names a file that is yet to be made.\<close>

definition inode_inv :: "world \<Rightarrow> bool" where
  "inode_inv w \<longleftrightarrow> (\<forall>i. lock_path w = Some i \<longrightarrow> i < next_inode w)"

lemma inode_inv_exec: "exec path project e w = Some w' \<Longrightarrow> inode_inv w \<Longrightarrow> inode_inv w'"
  by (cases e)
    (auto simp: inode_inv_def start_acquire_def open_lock_def try_lock_def lost_attempt_def die_def Let_def
      split: pc.splits option.splits if_splits)

interpretation lock_files: transition_invariant "\<lambda>w. w = empty_world" "clean_step path project" inode_inv
  for path project
  by unfold_locales (auto simp: inode_inv_def empty_world_def clean_step_def intro: inode_inv_exec[unfolded inode_inv_def, rule_format])

text \<open>
  C25: The release is not safe. Take any state reached without removing a file that is open, in which one process holds
  the lock and a second one has opened the file, and let the holder release while the second one makes its attempt
  between the unlock and the removal. The second process then holds the lock of a file that no path names any more,
  and a third one that starts next creates a new file and gets the lock too: two builds of one project run at once.
  It is the removal that does it: if the file stays, the third process is refused.
\<close>

theorem two_builds_at_once:
  assumes "reach (\<lambda>w. w = empty_world) (clean_step path project) w"
    and "proc w p = Holding i" "proc w q = Trying timeout deadline i" "proc w r = Idle"
  shows "(\<exists>w'. run path project
      [Unlock p, Try q ts junk, Remove p True, Start r timeout', Open r None, Try r ts' junk'] w = Some w' \<and>
      proc w' q = Holding i \<and> (\<exists>j. j \<noteq> i \<and> lock_path w' = Some j \<and> proc w' r = Holding j)) \<and>
    (\<exists>w'. run path project
      [Unlock p, Try q ts junk, Remove p False, Start r 0, Open r None, Try r ts' junk'] w = Some w' \<and>
      proc w' q = Holding i \<and> lock_path w' = Some i \<and> proc w' r = Reporting None)"
proof
  have inv: "lock_inv w" and files: "inode_inv w"
    by (rule build_lock.reach_inv[OF assms(1)], rule lock_files.reach_inv[OF assms(1)])
  have dist: "q \<noteq> p" "r \<noteq> p" "r \<noteq> q" using assms(2-4) by auto
  have path: "lock_path w = Some i" using lock_inv_opened[OF inv, of p] assms(2) by simp
  then have i: "i < next_inode w" using files by (simp add: inode_inv_def)
  have "proc w q' \<noteq> Holding (next_inode w)" for q'
    using lock_inv_opened[OF inv, of q' "next_inode w"] path i by auto
  then have new: "locked_by w (next_inode w) = None"
    using lock_inv_locked[OF inv, of "next_inode w"] by (cases "locked_by w (next_inode w)") auto
  show "\<exists>w'. run path project
      [Unlock p, Try q ts junk, Remove p True, Start r timeout', Open r None, Try r ts' junk'] w = Some w' \<and>
    proc w' q = Holding i \<and> (\<exists>j. j \<noteq> i \<and> lock_path w' = Some j \<and> proc w' r = Holding j)"
    using assms(2-4) dist i new by (simp add: start_acquire_def open_lock_def try_lock_def Let_def)
  show "\<exists>w'. run path project
      [Unlock p, Try q ts junk, Remove p False, Start r 0, Open r None, Try r ts' junk'] w = Some w' \<and>
    proc w' q = Holding i \<and> lock_path w' = Some i \<and> proc w' r = Reporting None"
    using assms(2-4) dist path by (simp add: start_acquire_def open_lock_def try_lock_def lost_attempt_def)
qed

theorem two_builds_at_once_witness:
  "\<exists>w w'. reach (\<lambda>w. w = empty_world) (clean_step ''/p/.lock'' ''a'') w \<and>
    run ''/p/.lock'' ''a'' [Unlock 1, Try 2 101 None, Remove 1 True, Start 3 0, Open 3 None, Try 3 102 None] w = Some w' \<and>
    proc w' 2 = Holding 0 \<and> (\<exists>j. j \<noteq> 0 \<and> proc w' 3 = Holding j)"
proof -
  let ?es = "[Start 1 0, Open 1 None, Try 1 100 None, Start 2 0, Open 2 None]"
  obtain w where w: "run ''/p/.lock'' ''a'' ?es empty_world = Some w"
    "proc w 1 = Holding 0" "proc w 2 = Trying 0 None 0" "proc w 3 = Idle"
    by (simp add: lock_exec Let_def)
  have "reach (\<lambda>w. w = empty_world) (clean_step ''/p/.lock'' ''a'') w"
    by (rule clean_runs[OF w(1)]) (auto intro: reach_init)
  with two_builds_at_once[OF this w(2-4), of 101 None 0 102 None] show ?thesis by blast
qed

section \<open>Polling ends\<close>

text \<open>
  The number of attempts a process can still make: one at the deadline or after it, and before that one
  for every started polling interval.
\<close>

definition attempts :: "instant option \<Rightarrow> instant \<Rightarrow> nat" where
  "attempts deadline t = (case deadline of None \<Rightarrow> 1 | Some d \<Rightarrow> Suc ((d - t + (POLL - 1)) div POLL))"

fun attempts_left :: "instant \<Rightarrow> pc \<Rightarrow> nat" where
  "attempts_left t (Opening _ deadline) = attempts deadline t"
| "attempts_left t (Trying _ deadline _) = attempts deadline t"
| "attempts_left t (Sleeping _ deadline until) = attempts deadline (max t until)"
| "attempts_left t _ = 0"

fun is_start :: "pid \<Rightarrow> event \<Rightarrow> bool" where
  "is_start p (Start q _) = (q = p)"
| "is_start p _ = False"

fun is_try :: "pid \<Rightarrow> event \<Rightarrow> bool" where
  "is_try p (Try q _ _) = (q = p)"
| "is_try p (TryError q) = (q = p)"
| "is_try p _ = False"

lemma attempts_mono: "t \<le> t' \<Longrightarrow> attempts deadline t' \<le> attempts deadline t"
  by (auto simp: attempts_def intro!: div_le_mono split: option.split)

lemma attempts_pos: "0 < attempts deadline t"
  by (simp add: attempts_def split: option.split)

lemma attempts_poll:
  assumes "\<not> d \<le> t"
  shows "attempts (Some d) (t + POLL) < attempts (Some d) t"
proof -
  have t: "t < d" using assms by simp
  have P: "0 < POLL" by (simp add: POLL_def from_millis_def)
  show ?thesis
  proof (cases "d - t \<ge> POLL")
    case True
    then have "d - t + (POLL - 1) = (d - (t + POLL) + (POLL - 1)) + POLL" by linarith
    then have "(d - t + (POLL - 1)) div POLL = (d - (t + POLL) + (POLL - 1)) div POLL + 1"
      using P by (simp only: div_add_self2)
    then show ?thesis by (simp only: attempts_def option.simps)
  next
    case False
    then have "(d - (t + POLL) + (POLL - 1)) div POLL = 0" using P by simp
    moreover have "POLL div POLL \<le> (d - t + (POLL - 1)) div POLL" using t P by (intro div_le_mono) linarith
    ultimately show ?thesis using P by (simp add: attempts_def)
  qed
qed

lemma attempts_left_mono: "t \<le> t' \<Longrightarrow> attempts_left t' c \<le> attempts_left t c"
  by (cases c) (auto intro: attempts_mono)

lemma exec_other:
  assumes "exec path project e w = Some w'" and "\<not> is_start p e"
  shows "attempts_left (now w') (proc w' p) + (if is_try p e then 1 else 0) \<le> attempts_left (now w) (proc w p)"
proof (cases e)
  case (Start q timeout)
  with assms show ?thesis by (auto simp: start_acquire_def split: pc.splits)
next
  case (Open q failure)
  with assms show ?thesis by (auto simp: open_lock_def Let_def split: pc.splits option.splits)
next
  case (Try q ts junk)
  with assms show ?thesis
    by (auto simp: try_lock_def lost_attempt_def attempts_poll Suc_le_eq attempts_pos split: pc.splits option.splits if_splits)
next
  case (NoDir q dir err)
  with assms show ?thesis by (auto split: pc.splits)
next
  case (TryError q)
  with assms show ?thesis
    by (auto simp: lost_attempt_def attempts_poll Suc_le_eq attempts_pos split: pc.splits option.splits if_splits)
next
  case (Wake q)
  with assms show ?thesis by (auto simp: attempts_mono split: pc.splits if_splits)
next
  case (Report q ok)
  with assms show ?thesis by (auto split: pc.splits)
next
  case (Unlock q)
  with assms show ?thesis by (auto split: pc.splits)
next
  case (Remove q ok)
  with assms show ?thesis by (auto split: pc.splits)
next
  case (Die q)
  with assms show ?thesis by (auto simp: die_def)
next
  case (Tick d)
  with assms show ?thesis by (auto simp: attempts_left_mono)
qed

lemma run_attempts:
  "run path project es w = Some w' \<Longrightarrow> \<not> list_ex (is_start p) es \<Longrightarrow>
   length (filter (is_try p) es) \<le> attempts_left (now w) (proc w p)"
proof (induction es arbitrary: w)
  case (Cons e es)
  then obtain v where v: "exec path project e w = Some v" "run path project es v = Some w'"
    by (cases "exec path project e w") auto
  have "length (filter (is_try p) es) \<le> attempts_left (now v) (proc v p)"
    by (rule Cons.IH[OF v(2)]) (use Cons.prems in auto)
  with exec_other[OF v(1), of p] Cons.prems(2) show ?case by auto
qed simp

text \<open>Nothing is left to do for a process that has the lock, an error, or nothing to wait for.\<close>

fun settled :: "pc \<Rightarrow> bool" where
  "settled (Opening _ _) = False"
| "settled (Trying _ _ _) = False"
| "settled (Sleeping _ _ _) = False"
| "settled (Reporting _) = False"
| "settled _ = True"

fun own :: "pid \<Rightarrow> event \<Rightarrow> bool" where
  "own p (Open q _) = (q = p)"
| "own p (Try q _ _) = (q = p)"
| "own p (Wake q) = (q = p)"
| "own p (Report q _) = (q = p)"
| "own p (Tick _) = True"
| "own p _ = False"

definition can_settle :: "path \<Rightarrow> string \<Rightarrow> pid \<Rightarrow> world \<Rightarrow> bool" where
  "can_settle path project p w \<longleftrightarrow>
     (\<exists>es w'. list_all (own p) es \<and> run path project es w = Some w' \<and> settled (proc w' p))"

lemma can_settle_step: "exec path project e w = Some v \<Longrightarrow> own p e \<Longrightarrow> can_settle path project p v \<Longrightarrow> can_settle path project p w"
proof -
  assume e: "exec path project e w = Some v" "own p e" and "can_settle path project p v"
  then obtain es w' where "list_all (own p) es" "run path project es v = Some w'" "settled (proc w' p)"
    by (auto simp: can_settle_def)
  with e have "list_all (own p) (e # es) \<and> run path project (e # es) w = Some w' \<and> settled (proc w' p)" by simp
  then show ?thesis unfolding can_settle_def by blast
qed

lemma can_settle_settled: "settled (proc w p) \<Longrightarrow> can_settle path project p w"
  unfolding can_settle_def by (rule exI[of _ "[]"]) simp

lemma can_settle_reporting: "proc w p = Reporting t \<Longrightarrow> can_settle path project p w"
  by (rule can_settle_step[where e = "Report p True"]) (auto intro: can_settle_settled)

text \<open>At the deadline an attempt is the last one; before it, sleeping past the deadline leads there.\<close>

lemma can_settle_trying:
  assumes "proc w p = Trying timeout deadline i" and "case deadline of None \<Rightarrow> True | Some d \<Rightarrow> d \<le> now w"
  shows "can_settle path project p w"
proof (rule can_settle_step[where e = "Try p 0 None"])
  let ?v = "try_lock project p 0 None timeout deadline i w"
  show "exec path project (Try p 0 None) w = Some ?v" using assms(1) by simp
  have "settled (proc ?v p) \<or> (\<exists>t. proc ?v p = Reporting t)"
    using assms(2) by (auto simp: try_lock_def lost_attempt_def split: option.splits)
  then show "can_settle path project p ?v" by (auto intro: can_settle_settled can_settle_reporting)
qed simp

lemma can_settle_opening:
  assumes "proc w p = Opening timeout deadline" and "case deadline of None \<Rightarrow> True | Some d \<Rightarrow> d \<le> now w"
  shows "can_settle path project p w"
proof (rule can_settle_step[where e = "Open p None"])
  let ?v = "open_lock p timeout deadline w"
  show "exec path project (Open p None) w = Some ?v" using assms(1) by simp
  obtain i where "proc ?v p = Trying timeout deadline i" by (cases "lock_path w") (auto simp: open_lock_def Let_def)
  moreover have "now ?v = now w" by (simp add: open_lock_def Let_def split: option.split)
  ultimately show "can_settle path project p ?v" using assms(2) by (cases deadline) (auto intro: can_settle_trying)
qed simp

lemma can_settle_sleeping:
  assumes "proc w p = Sleeping timeout deadline until"
  shows "can_settle path project p w"
proof (rule can_settle_step[where e = "Tick (until + (case deadline of None \<Rightarrow> 0 | Some d \<Rightarrow> d))"])
  let ?v = "w\<lparr>now := now w + (until + (case deadline of None \<Rightarrow> 0 | Some d \<Rightarrow> d))\<rparr>"
  show "can_settle path project p ?v"
    by (rule can_settle_step[where e = "Wake p"])
      (use assms in \<open>auto intro!: can_settle_opening split: option.splits\<close>)
qed simp_all

lemma all_settle: "can_settle path project p w"
proof (cases "proc w p")
  case (Opening timeout deadline)
  show ?thesis
    by (rule can_settle_step[where e = "Tick (case deadline of None \<Rightarrow> 0 | Some d \<Rightarrow> d)"])
      (use Opening in \<open>auto intro!: can_settle_opening split: option.splits\<close>)
next
  case (Trying timeout deadline i)
  show ?thesis
    by (rule can_settle_step[where e = "Tick (case deadline of None \<Rightarrow> 0 | Some d \<Rightarrow> d)"])
      (use Trying in \<open>auto intro!: can_settle_trying split: option.splits\<close>)
qed (auto intro: can_settle_settled can_settle_sleeping can_settle_reporting)

text \<open>
  C26: \<open>acquire\<close> ends. In any interleaving with other processes it makes at most one attempt per started
  polling interval of its timeout and a last one, a single one for a timeout of zero; and at every point its
  own next calls and the passing of time bring it to the lock or to an error.
\<close>

theorem acquire_ends:
  assumes "run path project (Start p timeout # es) w = Some w'" and "\<not> list_ex (is_start p) es"
  shows "length (filter (is_try p) es) \<le> 1 + (timeout + (POLL - 1)) div POLL \<and>
    (\<exists>fs v. list_all (own p) fs \<and> run path project fs w' = Some v \<and> settled (proc v p))"
proof -
  obtain v where v: "exec path project (Start p timeout) w = Some v" "run path project es v = Some w'"
    using assms(1) by (cases "exec path project (Start p timeout) w") auto
  then have "attempts_left (now v) (proc v p) = 1 + (timeout + (POLL - 1)) div POLL"
    by (auto simp: start_acquire_def attempts_def POLL_def from_millis_def split: pc.splits)
  with run_attempts[OF v(2) assms(2)] all_settle[of path project p w'] show ?thesis
    by (simp add: can_settle_def)
qed

theorem acquire_ends_witness:
  "\<exists>fs v. list_all (own 1) fs \<and> run ''/p/.lock'' ''a'' fs (start_acquire 1 0 empty_world) = Some v \<and> settled (proc v 1)"
  using acquire_ends[of "''/p/.lock''" "''a''" 1 0 "[]" empty_world "start_acquire 1 0 empty_world"]
  by (simp add: empty_world_def)

section \<open>The error\<close>

lemma first_line_ended:
  assumes "CHR 0x0A \<notin> set l" and "CHR 0x0D \<notin> set l"
  shows "first_line_of (l @ [CHR 0x0A]) = Some l"
proof -
  have "split_on (CHR 0x0A) (l @ [CHR 0x0A]) = [l, []]" using assms(1) by (induction l) auto
  moreover have "\<not> ends_with l [CHR 0x0D]" using assms(2) by (auto simp: ends_with_iff)
  ultimately show ?thesis by (simp add: first_line_of_def)
qed

text \<open>
  The error of a lost attempt. It names the project and the stamp the holder wrote, with the time waited
  when there was a timeout; its exit code is 1, where the header of the file says 4.
\<close>

theorem contention_reported:
  assumes "list_all (\<lambda>c. c \<noteq> CHR 0x0A \<and> c \<noteq> CHR 0x0D) holder"
  shows "contention_error project (Some (stamp q ts holder)) timeout =
      CliOther (''another build in progress for project '' @ project @ '' (locked at pid='' @ show_nat q @ '' ts='' @ show_nat ts @
        '' project='' @ holder @ '')'' @
        (case timeout of None \<Rightarrow> [] | Some t \<Rightarrow> if t = 0 then [] else '' (timed out after '' @ show_nat (as_secs t) @ ''s)''))
    \<and> exit_code (contention_error project txt timeout) = 1"
proof -
  let ?l = "''pid='' @ show_nat q @ '' ts='' @ show_nat ts @ '' project='' @ holder"
  have nums: "CHR 0x0A \<notin> set (show_nat n) \<and> CHR 0x0D \<notin> set (show_nat n)" for n
    using show_nat_digits[of "CHR 0x0A" n] show_nat_digits[of "CHR 0x0D" n] by auto
  have l: "CHR 0x0A \<notin> set ?l" "CHR 0x0D \<notin> set ?l"
    using nums[of q] nums[of ts] assms by (auto simp: list_all_iff)
  have "stamp q ts holder = ?l @ [CHR 0x0A]" by (simp add: stamp_def)
  then have "first_line_of (stamp q ts holder) = Some ?l" using first_line_ended[OF l] by (simp only:)
  then show ?thesis by (simp add: contention_error_def Let_def split: option.split)
qed

theorem contention_reported_witness:
  "contention_error ''a'' (Some (stamp 7 100 ''a'')) None = CliOther ''another build in progress for project a (locked at pid=7 ts=100 project=a)''"
proof -
  have "show_nat 7 = ''7''" "show_nat 100 = ''100''" by code_simp+
  with contention_reported[of "''a''" "''a''" 7 100 None None] show ?thesis by simp
qed

end
