(* ===== verification/Calendar.thy ===== *)
theory Calendar
  imports Mneme_Prelude "HOL-Library.Signed_Division"
begin

text \<open>
  The time stamps of backups and receipts (\<open>cli/src/platforms/mod.rs\<close> and \<open>cli/src/receipts.rs\<close>, which has the
  same functions again): from seconds since the epoch to a date and time. Integers are unbounded but for
  the final cast of the year; the theorem bounds the days so that no intermediate value leaves 64 bits.
\<close>

section \<open>Model\<close>

text \<open>\<open>y as i32\<close>.\<close>

definition as_i32 :: "int \<Rightarrow> int" where
  "as_i32 y = sint (word_of_int y :: i32)"

text \<open>The era of the March-based 400-year cycle; Rust's division truncates.\<close>

definition era_of :: "int \<Rightarrow> int" where
  "era_of z = (if z \<ge> 0 then z sdiv 146097 else (z - 146096) sdiv 146097)"

definition year_of_era :: "int \<Rightarrow> int" where
  "year_of_era doe = (doe - doe div 1460 + doe div 36524 - doe div 146096) div 365"

definition ymd_from_epoch_days :: "int \<Rightarrow> int \<times> int \<times> int" where
  "ymd_from_epoch_days days =
     (let z = days + 719468;
          era = era_of z;
          doe = z - era * 146097;
          yoe = year_of_era doe;
          y = yoe + era * 400;
          doy = doe - (365 * yoe + yoe div 4 - yoe div 100);
          mp = (5 * doy + 2) div 153;
          d = doy - (153 * mp + 2) div 5 + 1;
          m = (if mp < 10 then mp + 3 else mp - 9);
          y = (if m \<le> 2 then y + 1 else y)
      in (as_i32 y, m, d))"

text \<open>\<open>{n:0w}\<close> for numbers that are not negative.\<close>

definition pad :: "nat \<Rightarrow> nat \<Rightarrow> string" where
  "pad w n = replicate (w - length (show_nat n)) (CHR ''0'') @ show_nat n"

record civil =
  cv_year :: nat
  cv_month :: nat
  cv_day :: nat
  cv_hour :: nat
  cv_minute :: nat
  cv_second :: nat

definition civil_of_secs :: "u64 \<Rightarrow> civil" where
  "civil_of_secs secs =
     (let n = unat secs; sod = n mod 86400 in
      case ymd_from_epoch_days (int (n div 86400)) of
        (y, m, d) \<Rightarrow> \<lparr>cv_year = nat y, cv_month = nat m, cv_day = nat d, cv_hour = sod div 3600,
          cv_minute = sod mod 3600 div 60, cv_second = sod mod 60\<rparr>)"

definition chrono_like_utc_stamp :: "u64 \<Rightarrow> string" where
  "chrono_like_utc_stamp secs =
     (let c = civil_of_secs secs in
      pad 4 (cv_year c) @ pad 2 (cv_month c) @ pad 2 (cv_day c) @ ''-'' @ pad 2 (cv_hour c) @ pad 2 (cv_minute c) @ pad 2 (cv_second c))"

definition iso8601_utc :: "u64 \<Rightarrow> string" where
  "iso8601_utc secs =
     (let c = civil_of_secs secs in
      pad 4 (cv_year c) @ ''-'' @ pad 2 (cv_month c) @ ''-'' @ pad 2 (cv_day c) @ ''T'' @
      pad 2 (cv_hour c) @ '':'' @ pad 2 (cv_minute c) @ '':'' @ pad 2 (cv_second c) @ ''Z'')"

section \<open>The Gregorian calendar\<close>

definition leap :: "int \<Rightarrow> bool" where
  "leap y \<longleftrightarrow> y mod 4 = 0 \<and> (y mod 100 \<noteq> 0 \<or> y mod 400 = 0)"

definition month_length :: "int \<Rightarrow> int \<Rightarrow> int" where
  "month_length y m = (if m = 2 then if leap y then 29 else 28 else if m \<in> {4, 6, 9, 11} then 30 else 31)"

definition valid_date :: "int \<Rightarrow> int \<Rightarrow> int \<Rightarrow> bool" where
  "valid_date y m d \<longleftrightarrow> 1 \<le> m \<and> m \<le> 12 \<and> 1 \<le> d \<and> d \<le> month_length y m"

text \<open>Days since the epoch, counted from the first of January of the year 1.\<close>

definition leaps_to :: "int \<Rightarrow> int" where
  "leaps_to y = y div 4 - y div 100 + y div 400"

definition epoch_days :: "int \<Rightarrow> int \<Rightarrow> int \<Rightarrow> int" where
  "epoch_days y m d =
     365 * (y - 1) + leaps_to (y - 1) + sum_list (map (month_length y) [1..m - 1]) + (d - 1) - 719162"

section \<open>The algorithm is the calendar\<close>

lemma era_of_floor: "era_of z = z div 146097"
proof (cases "z \<ge> 0")
  case True
  then show ?thesis by (cases "z = 0") (simp_all add: era_of_def signed_divide_int_def)
next
  case False
  have "(z - 146096) sdiv 146097 = - ((146096 - z) div 146097)"
    using False by (simp add: signed_divide_int_def)
  also have "(146096 - z) div 146097 = - (z div 146097)"
  proof (rule int_div_pos_eq)
    show "146096 - z = 146097 * - (z div 146097) + (146096 - z mod 146097)"
      using div_mult_mod_eq[of z 146097] by (simp add: algebra_simps)
  qed (use pos_mod_sign[of 146097 z] pos_mod_bound[of 146097 z] in auto)
  finally show ?thesis using False by (simp add: era_of_def)
qed

lemma year_of_era_exact:
  assumes "0 \<le> c" "c \<le> 3" "0 \<le> q" "q \<le> 24" "0 \<le> j" "j \<le> 3" "0 \<le> doy" "doy \<le> 365"
    and last_day: "doy = 365 \<longrightarrow> j = 3 \<and> (q \<noteq> 24 \<or> c = 3)"
  shows "year_of_era (36524 * c + 1461 * q + 365 * j + doy) = 100 * c + 4 * q + j"
proof -
  let ?doe = "36524 * c + 1461 * q + 365 * j + doy"
  let ?t = "24 * c + q + 365 * j + doy"
  let ?e = "if ?t \<ge> 1460 then 1 else 0" and ?f = "if 1461 * q + 365 * j + doy \<ge> 36524 then 1 else 0"
  have full: "1461 * q + 365 * j + doy \<ge> 36524 \<longleftrightarrow> c = 3 \<and> q = 24 \<and> j = 3 \<and> doy = 365"
    using assms by linarith
  have "?doe div 1460 = 25 * c + q + ?e"
    by (rule int_div_pos_eq[where r = "?t - 1460 * ?e"]) (use assms in auto)
  moreover have "?doe div 36524 = c + ?f"
    by (rule int_div_pos_eq[where r = "1461 * q + 365 * j + doy - 36524 * ?f"]) (use assms full in auto)
  moreover have "?doe div 146096 = ?f"
    by (rule int_div_pos_eq[where r = "?doe - 146096 * ?f"]) (use assms full in auto)
  ultimately have "year_of_era ?doe = (365 * (100 * c + 4 * q + j) + (doy - ?e)) div 365"
    by (simp add: year_of_era_def algebra_simps)
  also have "\<dots> = 100 * c + 4 * q + j"
    by (rule int_div_pos_eq[where r = "doy - ?e"]) (use assms in auto)
  finally show ?thesis .
qed

text \<open>A day of the era is a day of one of its 400 years, which begin in March.\<close>

lemma era_day:
  assumes "0 \<le> doe" "doe < 146097"
  obtains y doy where "year_of_era doe = y" "doe = 365 * y + y div 4 - y div 100 + doy" "0 \<le> y" "y < 400" "0 \<le> doy" "doy \<le> 365"
    "doy = 365 \<longrightarrow> leap (y + 1)"
proof -
  define c where "c = min (doe div 36524) 3"
  define r where "r = doe - 36524 * c"
  define q where "q = r div 1461"
  define s where "s = r - 1461 * q"
  define j where "j = min (s div 365) 3"
  define doy where "doy = s - 365 * j"
  have c: "0 \<le> c" "c \<le> 3" using assms by (simp_all add: c_def pos_imp_zdiv_nonneg_iff)
  have r: "0 \<le> r" "r \<le> 36524" "r = 36524 \<longrightarrow> c = 3" using assms by (auto simp: r_def c_def min_def)
  have q: "0 \<le> q" "q \<le> 24" using r by (simp_all add: q_def pos_imp_zdiv_nonneg_iff)
  have s: "0 \<le> s" "s \<le> 1460" "s = 1460 \<and> q = 24 \<longrightarrow> c = 3" using r by (auto simp: s_def q_def)
  have j: "0 \<le> j" "j \<le> 3" using s by (simp_all add: j_def pos_imp_zdiv_nonneg_iff)
  have d: "0 \<le> doy" "doy \<le> 365" "doy = 365 \<longrightarrow> j = 3 \<and> s = 1460" using s by (auto simp: doy_def j_def min_def)
  have doe: "doe = 36524 * c + 1461 * q + 365 * j + doy" by (simp add: doy_def s_def r_def)
  let ?y = "100 * c + 4 * q + j"
  have "?y div 4 = 25 * c + q" by (rule int_div_pos_eq[where r = j]) (use j in auto)
  moreover have "?y div 100 = c" by (rule int_div_pos_eq[where r = "4 * q + j"]) (use q j in auto)
  ultimately have "doe = 365 * ?y + ?y div 4 - ?y div 100 + doy" using doe by simp
  moreover have "year_of_era doe = ?y" unfolding doe by (rule year_of_era_exact) (use c q j d s in auto)
  moreover have "leap (?y + 1)" if "doy = 365"
  proof -
    have "j = 3" "q = 24 \<longrightarrow> c = 3" using d s that by auto
    then have y: "?y + 1 = 4 * (25 * c + q + 1)" by simp
    show ?thesis
    proof (cases "q = 24")
      case True
      then show ?thesis using \<open>j = 3\<close> \<open>q = 24 \<longrightarrow> c = 3\<close> by (simp add: leap_def)
    next
      case False
      have "(?y + 1) mod 100 = (4 * q + 4 + c * 100) mod 100" using \<open>j = 3\<close> by (simp add: algebra_simps)
      also have "\<dots> = (4 * q + 4) mod 100" by (rule mod_mult_self1)
      also have "\<dots> = 4 * q + 4" using q False by simp
      finally have "(?y + 1) mod 100 \<noteq> 0" using q by simp
      moreover have "(?y + 1) mod 4 = 0" unfolding y by (rule mod_mult_self1_is_0)
      ultimately show ?thesis by (simp add: leap_def)
    qed
  qed
  moreover have "0 \<le> ?y" "?y < 400" using c q j by auto
  ultimately show thesis using that d by blast
qed

lemma month_of_day:
  assumes "0 \<le> doy" "doy \<le> 365"
  defines "mp \<equiv> (5 * doy + 2) div 153"
  defines "d \<equiv> doy - (153 * mp + 2) div 5 + 1" and "m \<equiv> (if mp < 10 then mp + 3 else mp - 9)"
  shows "1 \<le> m" "m \<le> 12" "1 \<le> d" "d \<le> (if m = 2 \<and> doy = 365 then 29 else if m = 2 then 28 else month_length y m)"
    "sum_list (map (month_length y) [1..m - 1]) + (d - 1) =
      (if m \<le> 2 then doy - 306 else doy + 59 + (if leap y then 1 else 0))"
proof -
  have "153 * mp \<le> 5 * doy + 2" "5 * doy + 2 < 153 * mp + 153"
    using pos_mod_sign[of 153 "5 * doy + 2"] pos_mod_bound[of 153 "5 * doy + 2"] div_mult_mod_eq[of "5 * doy + 2" 153]
    unfolding mp_def by linarith+
  moreover from this assms(1,2) have "mp \<in> {0..11}" by auto
  then have "mp \<in> {0, 1, 2, 3, 4, 5, 6, 7, 8, 9, 10, 11}" by simp presburger
  ultimately have "1 \<le> m \<and> m \<le> 12 \<and> 1 \<le> d \<and> d \<le> (if m = 2 \<and> doy = 365 then 29 else if m = 2 then 28 else month_length y m) \<and>
    sum_list (map (month_length y) [1..m - 1]) + (d - 1) = (if m \<le> 2 then doy - 306 else doy + 59 + (if leap y then 1 else 0))"
    using assms(1,2) unfolding d_def m_def by (elim insertE emptyE) (simp_all add: month_length_def upto_rec1)
  then show "1 \<le> m" "m \<le> 12" "1 \<le> d" "d \<le> (if m = 2 \<and> doy = 365 then 29 else if m = 2 then 28 else month_length y m)"
    "sum_list (map (month_length y) [1..m - 1]) + (d - 1) =
      (if m \<le> 2 then doy - 306 else doy + 59 + (if leap y then 1 else 0))"
    by blast+
qed

lemma count_by_three:
  fixes a a' :: int
  assumes "a = a' + (if p then 1 else 0)" "b = b' + (if q then 1 else 0)" "c = c' + (if r then 1 else 0)"
    and "r \<longrightarrow> q" "q \<longrightarrow> p"
  shows "a - b + c = a' - b' + c' + (if p \<and> (\<not> q \<or> r) then 1 else 0)"
  using assms by (cases p; cases q; cases r) simp_all

lemma leaps_step: "leaps_to y = leaps_to (y - 1) + (if leap y then 1 else 0)"
proof -
  have step: "y div n = (y - 1) div n + (if y mod n = 0 then 1 else 0)" if "0 < n" for n :: int
  proof (cases "y mod n = 0")
    case True
    have "(y - 1) div n = y div n - 1"
      by (rule int_div_pos_eq[where r = "n - 1"]) (use that True div_mult_mod_eq[of y n] in \<open>auto simp: algebra_simps\<close>)
    with True show ?thesis by simp
  next
    case False
    have "1 \<le> y mod n" "y mod n < n" using False pos_mod_sign[OF that, of y] pos_mod_bound[OF that, of y] by linarith+
    then have "(y - 1) div n = y div n"
      by (intro int_div_pos_eq[where r = "y mod n - 1"]) (use div_mult_mod_eq[of y n] in \<open>auto simp: algebra_simps\<close>)
    with False show ?thesis by simp
  qed
  have "y mod 400 = 0 \<longrightarrow> y mod 100 = 0" "y mod 100 = 0 \<longrightarrow> y mod 4 = 0"
    by (auto simp: mod_eq_0_iff_dvd intro: dvd_trans[of 100 400 y] dvd_trans[of 4 100 y])
  then show ?thesis
    unfolding leaps_to_def leap_def by (intro count_by_three step) simp_all
qed

lemma leaps_cycle: "leaps_to (400 * era + y) = 97 * era + leaps_to y"
proof -
  have "(400 * era + y) div 4 = 100 * era + y div 4" "(400 * era + y) div 100 = 4 * era + y div 100" "(400 * era + y) div 400 = era + y div 400"
    using div_mult_self2[of 4 y "100 * era"] div_mult_self2[of 100 y "4 * era"] div_mult_self2[of 400 y era] by (simp_all add: algebra_simps)
  then show ?thesis by (simp add: leaps_to_def)
qed

lemma leap_cycle: "leap (400 * era + y) = leap y"
proof -
  have "(400 * era + y) mod n = y mod n" if "n dvd 400" for n
    using that by (metis dvd_mult2 mod_add_left_eq mod_eq_0_iff_dvd add_0)
  then show ?thesis by (simp add: leap_def)
qed

lemma as_i32_id: "- 2147483648 \<le> y \<Longrightarrow> y < 2147483648 \<Longrightarrow> as_i32 y = y"
  by (simp add: as_i32_def sint_sbintrunc' signed_take_bit_int_eq_self_iff)

lemma ymd_from_epoch_days_eq:
  assumes "days + 719468 = z" "era_of z = era" "z - era * 146097 = doe" "year_of_era doe = yoe"
    and "doe - (365 * yoe + yoe div 4 - yoe div 100) = doy" "(5 * doy + 2) div 153 = mp" "(if mp < 10 then mp + 3 else mp - 9) = m"
  shows "ymd_from_epoch_days days = (as_i32 (if m \<le> 2 then yoe + era * 400 + 1 else yoe + era * 400), m, doy - (153 * mp + 2) div 5 + 1)"
  unfolding ymd_from_epoch_days_def Let_def assms ..

text \<open>
  C31: the date of a stamp is right. For every day within 700 billion days of the epoch, the date computed is a
  date of the Gregorian calendar, and counting the days to it, by leap years and month lengths, gives the
  day back.
\<close>

theorem ymd_from_epoch_days_correct:
  assumes "\<bar>days\<bar> \<le> 700000000000"
  shows "case ymd_from_epoch_days days of (y, m, d) \<Rightarrow> valid_date y m d \<and> epoch_days y m d = days"
proof -
  define z where "z = days + 719468"
  define era where "era = z div 146097"
  define doe where "doe = z mod 146097"
  have z: "z = era * 146097 + doe" "0 \<le> doe" "doe < 146097" by (simp_all add: era_def doe_def)
  obtain yoe doy where yoe: "year_of_era doe = yoe" "doe = 365 * yoe + yoe div 4 - yoe div 100 + doy" "0 \<le> yoe" "yoe < 400"
    and doy: "0 \<le> doy" "doy \<le> 365" "doy = 365 \<longrightarrow> leap (yoe + 1)"
    using era_day[OF z(2,3)] .
  define mp where "mp = (5 * doy + 2) div 153"
  define d where "d = doy - (153 * mp + 2) div 5 + 1"
  define m where "m = (if mp < 10 then mp + 3 else mp - 9)"
  define y where "y = (if m \<le> 2 then yoe + era * 400 + 1 else yoe + era * 400)"
  have doe': "doe - (365 * yoe + yoe div 4 - yoe div 100) = doy" using yoe(2) by simp
  have doe_z: "z - era * 146097 = doe" using z(1) by simp
  have "ymd_from_epoch_days days = (as_i32 y, m, d)"
    unfolding y_def d_def by (rule ymd_from_epoch_days_eq[OF z_def[symmetric] _ doe_z yoe(1) doe' mp_def[symmetric] m_def[symmetric]])
      (simp add: era_of_floor era_def)
  moreover have "- 5000000 \<le> era" "era \<le> 5000000" using assms z by (auto simp: z_def abs_le_iff)
  then have "as_i32 y = y" by (intro as_i32_id) (use yoe in \<open>auto simp: y_def\<close>)
  moreover note mo = month_of_day[OF doy(1,2), folded mp_def, folded d_def m_def]
  have "valid_date y m d"
  proof -
    have "leap y" if "m = 2" "doy = 365" using that doy(3) leap_cycle[of era "yoe + 1"] by (simp add: y_def algebra_simps)
    then show ?thesis using mo(1,2,3) mo(4)[of y] by (auto simp: valid_date_def month_length_def split: if_splits)
  qed
  moreover have "epoch_days y m d = days"
  proof -
    have l: "leaps_to yoe = yoe div 4 - yoe div 100" using yoe(3,4) by (simp add: leaps_to_def)
    have yl: "leaps_to (400 * era + yoe) = 97 * era + leaps_to yoe" by (rule leaps_cycle)
    have "365 * (y - 1) + leaps_to (y - 1) + sum_list (map (month_length y) [1..m - 1]) + (d - 1) =
      365 * (400 * era + yoe) + leaps_to (400 * era + yoe) + doy - 306"
    proof (cases "m \<le> 2")
      case True
      then have y: "y - 1 = 400 * era + yoe" by (simp add: y_def)
      show ?thesis using mo(5)[of y] True unfolding y by simp
    next
      case False
      then have y: "y = 400 * era + yoe" by (simp add: y_def)
      show ?thesis using mo(5)[of y] False leaps_step[of y] by (simp add: y algebra_simps)
    qed
    then show ?thesis using z(1) yoe(2) l yl by (simp add: epoch_days_def z_def algebra_simps)
  qed
  ultimately show ?thesis by simp
qed

theorem ymd_from_epoch_days_correct_witness: "ymd_from_epoch_days 19782 = (2024, 2, 29) \<and> epoch_days 2024 2 29 = 19782"
proof -
  have "ymd_from_epoch_days 19782 = (as_i32 2024, 2, 29)"
    using ymd_from_epoch_days_eq[of 19782 739250 5 8765 23 365 11 2] by (simp add: era_of_floor year_of_era_def)
  then have "ymd_from_epoch_days 19782 = (2024, 2, 29)" by (simp add: as_i32_id)
  with ymd_from_epoch_days_correct[of 19782] show ?thesis by simp
qed

end
