(* ===== verification/File_System.thy ===== *)
theory File_System
  imports Cli_Error Calendar
begin

text \<open>
  The files the command line writes for other tools: \<open>std::fs\<close> as far as \<open>cli/src/platforms\<close>, \<open>cli/src/receipts.rs\<close>
  and the commands around them use it, and \<open>backup_then_write\<close>, through which they write. Whether a call of
  the operating system fails, and what a failed write leaves behind, is an argument, as is the clock.
\<close>

section \<open>Paths\<close>

text \<open>
  \<open>Path::parent\<close>, \<open>file_stem\<close> and \<open>with_extension\<close> on Unix, for paths whose last component is a name, as all
  paths of these files are.
\<close>

definition strip_slashes :: "path \<Rightarrow> path" where
  "strip_slashes p = rev (dropWhile (\<lambda>c. c = CHR ''/'') (rev p))"

definition path_parent :: "path \<Rightarrow> path option" where
  "path_parent p =
     (let q = strip_slashes p in
      if q = [] then None
      else let pre = rev (dropWhile (\<lambda>c. c \<noteq> CHR ''/'') (rev q)) in
        Some (if pre = [] then [] else if strip_slashes pre = [] then ''/'' else strip_slashes pre))"

definition stem_of_name :: "string \<Rightarrow> string" where
  "stem_of_name n =
     (case split_on (CHR ''.'') n of
        [_] \<Rightarrow> n
      | segs \<Rightarrow> if butlast segs = [[]] then n else join_on (CHR ''.'') (butlast segs))"

definition file_stem :: "path \<Rightarrow> string option" where
  "file_stem p = map_option stem_of_name (file_name p)"

definition with_extension :: "path \<Rightarrow> string \<Rightarrow> path" where
  "with_extension p ext =
     (case file_name p of
        None \<Rightarrow> p
      | Some n \<Rightarrow>
          let q = strip_slashes p in
          take (length q - length n) q @ stem_of_name n @ (if ext = [] then [] else ''.'' @ ext))"

section \<open>The file system\<close>

record fs =
  fs_files :: "(path, string) hmap"
  fs_dirs :: "path list"
  clock_reads :: nat

datatype fs_op = OpRead | OpWrite | OpCopy | OpMkdir | OpRemove | OpList

text \<open>
  A failing call gives its error and, for a write, the text it left in the file, if it touched it. The
  clock shows \<open>os_clock n\<close> seconds when it is read for the \<open>n\<close>th time.
\<close>

record os_env =
  os_fault :: "fs \<Rightarrow> fs_op \<Rightarrow> path \<Rightarrow> (io_error \<times> string option) option"
  os_clock :: "nat \<Rightarrow> u64"

definition not_found :: io_error where
  "not_found = IoError NotFound ''No such file or directory (os error 2)''"

definition path_exists :: "fs \<Rightarrow> path \<Rightarrow> bool" where
  "path_exists s p \<longleftrightarrow> hm_get (fs_files s) p \<noteq> None \<or> p \<in> set (fs_dirs s)"

definition set_file :: "path \<Rightarrow> string \<Rightarrow> fs \<Rightarrow> fs" where
  "set_file p t s = s\<lparr>fs_files := hm_insert p t (fs_files s)\<rparr>"

definition left_behind :: "path \<Rightarrow> string option \<Rightarrow> fs \<Rightarrow> fs" where
  "left_behind p left s = (case left of None \<Rightarrow> s | Some t \<Rightarrow> set_file p t s)"

definition os_read :: "os_env \<Rightarrow> path \<Rightarrow> fs \<Rightarrow> io_error + string" where
  "os_read env p s =
     (case os_fault env s OpRead p of
        Some (e, _) \<Rightarrow> Inl e
      | None \<Rightarrow> (case hm_get (fs_files s) p of None \<Rightarrow> Inl not_found | Some t \<Rightarrow> Inr t))"

definition os_write :: "os_env \<Rightarrow> path \<Rightarrow> string \<Rightarrow> fs \<Rightarrow> (io_error + unit) \<times> fs" where
  "os_write env p t s =
     (case os_fault env s OpWrite p of
        Some (e, left) \<Rightarrow> (Inl e, left_behind p left s)
      | None \<Rightarrow> (Inr (), set_file p t s))"

definition os_copy :: "os_env \<Rightarrow> path \<Rightarrow> path \<Rightarrow> fs \<Rightarrow> (io_error + unit) \<times> fs" where
  "os_copy env src dst s =
     (case hm_get (fs_files s) src of
        None \<Rightarrow> (Inl not_found, s)
      | Some t \<Rightarrow>
          (case os_fault env s OpCopy dst of
             Some (e, left) \<Rightarrow> (Inl e, left_behind dst left s)
           | None \<Rightarrow> (Inr (), set_file dst t s)))"

definition os_remove :: "os_env \<Rightarrow> path \<Rightarrow> fs \<Rightarrow> (io_error + unit) \<times> fs" where
  "os_remove env p s =
     (case os_fault env s OpRemove p of
        Some (e, _) \<Rightarrow> (Inl e, s)
      | None \<Rightarrow> if hm_get (fs_files s) p = None then (Inl not_found, s)
          else (Inr (), s\<lparr>fs_files := hm_remove p (fs_files s)\<rparr>))"

text \<open>\<open>create_dir_all\<close> makes the directory and those above it.\<close>

function ancestors :: "path \<Rightarrow> path list" where
  "ancestors p =
     p # (case path_parent p of None \<Rightarrow> [] | Some q \<Rightarrow> if length q < length p \<and> q \<noteq> [] then ancestors q else [])"
  by pat_completeness auto
termination by (relation "measure length") auto

declare ancestors.simps [simp del]

definition os_mkdir_all :: "os_env \<Rightarrow> path \<Rightarrow> fs \<Rightarrow> (io_error + unit) \<times> fs" where
  "os_mkdir_all env p s =
     (case os_fault env s OpMkdir p of
        Some (e, _) \<Rightarrow> (Inl e, s)
      | None \<Rightarrow> (Inr (), s\<lparr>fs_dirs := List.union (ancestors p) (fs_dirs s)\<rparr>))"

definition os_now :: "os_env \<Rightarrow> fs \<Rightarrow> u64 \<times> fs" where
  "os_now env s = (os_clock env (clock_reads s), s\<lparr>clock_reads := clock_reads s + 1\<rparr>)"

section \<open>Operations that may fail\<close>

type_synonym 'a act = "fs \<Rightarrow> 'a cli_result \<times> fs"

definition act_ok :: "'a \<Rightarrow> 'a act" where
  "act_ok x s = (Inr x, s)"

definition act_of :: "'a cli_result \<Rightarrow> 'a act" where
  "act_of r s = (r, s)"

text \<open>\<open>?\<close>\<close>

definition act_bind :: "'a act \<Rightarrow> ('a \<Rightarrow> 'b act) \<Rightarrow> 'b act" where
  "act_bind m f s = (case m s of (Inl e, s') \<Rightarrow> (Inl e, s') | (Inr x, s') \<Rightarrow> f x s')"

definition act_if :: "bool \<Rightarrow> unit act \<Rightarrow> unit act" where
  "act_if b m = (if b then m else act_ok ())"

text \<open>\<open>map_err(|e| CliError::io(path, e))\<close>.\<close>

definition io_act :: "path \<Rightarrow> (fs \<Rightarrow> (io_error + 'a) \<times> fs) \<Rightarrow> 'a act" where
  "io_act p f s = (case f s of (Inl e, s') \<Rightarrow> (Inl (CliIo (Some p) e), s') | (Inr x, s') \<Rightarrow> (Inr x, s'))"

definition create_dir_all :: "os_env \<Rightarrow> path \<Rightarrow> unit act" where
  "create_dir_all env p = io_act p (os_mkdir_all env p)"

definition read_to_string :: "os_env \<Rightarrow> path \<Rightarrow> string act" where
  "read_to_string env p = io_act p (\<lambda>s. (os_read env p s, s))"

definition write_file :: "os_env \<Rightarrow> path \<Rightarrow> string \<Rightarrow> unit act" where
  "write_file env p t = io_act p (os_write env p t)"

section \<open>Backups\<close>

definition extension_with_bak :: "path \<Rightarrow> string" where
  "extension_with_bak p =
     (case extension p of Some ext \<Rightarrow> if ext \<noteq> [] then ext @ ''.bak'' else ''bak'' | None \<Rightarrow> ''bak'')"

definition extension_with_mneme_bak :: "path \<Rightarrow> u64 \<Rightarrow> string" where
  "extension_with_mneme_bak p secs =
     (let stamp = chrono_like_utc_stamp secs in
      case extension p of
        Some ext \<Rightarrow> if ext \<noteq> [] then ext @ ''.mneme-'' @ stamp @ ''.bak'' else ''mneme-'' @ stamp @ ''.bak''
      | None \<Rightarrow> ''mneme-'' @ stamp @ ''.bak'')"

definition backup_path :: "path \<Rightarrow> u64 \<Rightarrow> path" where
  "backup_path p secs = with_extension p (extension_with_mneme_bak p secs)"

definition legacy_path :: "path \<Rightarrow> path" where
  "legacy_path p = with_extension p (extension_with_bak p)"

definition backup_then_write :: "os_env \<Rightarrow> path \<Rightarrow> string \<Rightarrow> unit act" where
  "backup_then_write env p new_contents s =
     (if path_exists s p then
        let (secs, s1) = os_now env s;
            timestamped = backup_path p secs
        in (case os_copy env p timestamped s1 of
              (Inl e, s2) \<Rightarrow> (Inl (BackupFailed p (''timestamped backup: '' @ io_text e)), s2)
            | (Inr _, s2) \<Rightarrow>
                let s3 = snd (os_copy env timestamped (legacy_path p) s2)
                in write_file env p new_contents s3)
      else write_file env p new_contents s)"

end
