(* ===== verification/Platforms.thy ===== *)
theory Platforms
  imports File_System Jobs Markers
begin

text \<open>
  The tools mneme installs itself into (\<open>cli/src/platforms/mod.rs\<close> and the adapter of each tool beside it): where
  each keeps its manifest, its registry of MCP servers and its hooks, and the edits of these files. The
  parsers and printers of JSON and TOML belong to crates and are arguments, as is the home directory.
\<close>

section \<open>Platforms and scopes\<close>

datatype InstallScope = Project | User | Global

definition InstallScope_from_str :: "string \<Rightarrow> InstallScope cli_result" where
  "InstallScope_from_str s =
     (let l = to_ascii_lowercase s in
      if l = ''project'' then Inr Project
      else if l = ''user'' then Inr User
      else if l = ''global'' then Inr Global
      else Inl (InvalidScope l))"

datatype Platform =
    ClaudeCode | Codex | Cursor | Windsurf | Zed | ContinueDev | OpenCode | Antigravity | GeminiCli | Aider
  | Copilot | FactoryDroid | Trae | Kiro | Qoder | OpenClaw | Hermes | Qwen | VsCode

fun platform_id :: "Platform \<Rightarrow> string" where
  "platform_id ClaudeCode = ''claude-code''"
| "platform_id Codex = ''codex''"
| "platform_id Cursor = ''cursor''"
| "platform_id Windsurf = ''windsurf''"
| "platform_id Zed = ''zed''"
| "platform_id ContinueDev = ''continue''"
| "platform_id OpenCode = ''opencode''"
| "platform_id Antigravity = ''antigravity''"
| "platform_id GeminiCli = ''gemini-cli''"
| "platform_id Aider = ''aider''"
| "platform_id Copilot = ''copilot''"
| "platform_id FactoryDroid = ''factory-droid''"
| "platform_id Trae = ''trae''"
| "platform_id Kiro = ''kiro''"
| "platform_id Qoder = ''qoder''"
| "platform_id OpenClaw = ''openclaw''"
| "platform_id Hermes = ''hermes''"
| "platform_id Qwen = ''qwen''"
| "platform_id VsCode = ''vscode''"

fun display_name :: "Platform \<Rightarrow> string" where
  "display_name ClaudeCode = ''Claude Code''"
| "display_name Codex = ''Codex''"
| "display_name Cursor = ''Cursor''"
| "display_name Windsurf = ''Windsurf''"
| "display_name Zed = ''Zed''"
| "display_name ContinueDev = ''Continue.dev''"
| "display_name OpenCode = ''OpenCode''"
| "display_name Antigravity = ''Antigravity''"
| "display_name GeminiCli = ''Gemini CLI''"
| "display_name Aider = ''Aider''"
| "display_name Copilot = ''GitHub Copilot''"
| "display_name FactoryDroid = ''Factory Droid''"
| "display_name Trae = ''Trae''"
| "display_name Kiro = ''Kiro''"
| "display_name Qoder = ''Qoder''"
| "display_name OpenClaw = ''OpenClaw''"
| "display_name Hermes = ''Hermes''"
| "display_name Qwen = ''Qwen Code''"
| "display_name VsCode = ''VS Code''"

definition all_known :: "Platform list" where
  "all_known =
     [ClaudeCode, Codex, Cursor, Windsurf, Zed, ContinueDev, OpenCode, Antigravity, GeminiCli, Aider,
      Copilot, FactoryDroid, Trae, Kiro, Qoder, OpenClaw, Hermes, Qwen, VsCode]"

definition eq_ignore_ascii_case :: "string \<Rightarrow> string \<Rightarrow> bool" where
  "eq_ignore_ascii_case a b \<longleftrightarrow> to_ascii_lowercase a = to_ascii_lowercase b"

definition platform_from_id :: "string \<Rightarrow> Platform cli_result" where
  "platform_from_id i =
     (case find (\<lambda>p. eq_ignore_ascii_case (platform_id p) i) all_known of
        Some p \<Rightarrow> Inr p
      | None \<Rightarrow> Inl (UnknownPlatform i))"

datatype McpFormat = JsonObject | JsonArray | Toml

record AdapterContext =
  cx_scope :: InstallScope
  cx_home :: path
  cx_project_root :: path
  cx_dry_run :: bool
  cx_force :: bool

text \<open>The home directory is absent where the system knows none.\<close>

definition AdapterContext_new :: "path option \<Rightarrow> InstallScope \<Rightarrow> path \<Rightarrow> AdapterContext" where
  "AdapterContext_new home_dir sc root =
     \<lparr>cx_scope = sc, cx_home = (case home_dir of Some h \<Rightarrow> h | None \<Rightarrow> root), cx_project_root = root,
      cx_dry_run = False, cx_force = False\<rparr>"

section \<open>Paths in a context\<close>

definition joins :: "path \<Rightarrow> path list \<Rightarrow> path" where
  "joins p segs = foldl path_join p segs"

text \<open>The project root in project scope, the home directory otherwise.\<close>

definition scoped :: "AdapterContext \<Rightarrow> path list \<Rightarrow> path list \<Rightarrow> path" where
  "scoped ctx in_project in_home =
     (case cx_scope ctx of Project \<Rightarrow> joins (cx_project_root ctx) in_project | _ \<Rightarrow> joins (cx_home ctx) in_home)"

definition vscode_user_config_dir :: "AdapterContext \<Rightarrow> path" where
  "vscode_user_config_dir ctx = joins (cx_home ctx) [''.config'', ''Code'', ''User'']"

definition zed_settings_path :: "path \<Rightarrow> path" where
  "zed_settings_path home = joins home [''.config'', ''zed'', ''settings.json'']"

definition agents_md :: "AdapterContext \<Rightarrow> path" where
  "agents_md ctx = scoped ctx [''AGENTS.md''] [''AGENTS.md'']"

section \<open>Editing a registry of MCP servers\<close>

text \<open>\<open>toml::Value\<close>; the scalars other than strings are their texts.\<close>

datatype toml = TString string | TScalar string | TArray "toml list" | TTable "(string \<times> toml) list"

text \<open>
  The codecs. JSON and TOML objects are maps with distinct keys, like \<open>HashMap\<close> the order of which is left
  to the codec.
\<close>

record codecs =
  json_parse :: "string \<Rightarrow> string + json"
  json_pretty :: "json \<Rightarrow> string"
  toml_parse :: "string \<Rightarrow> string + toml"
  toml_pretty :: "toml \<Rightarrow> string + string"
  cargo_version :: string
  sha256_fn :: sha256

definition mneme_mcp_entry :: json where
  "mneme_mcp_entry =
     JObj [(''command'', JStr ''mneme''), (''args'', JArr [JStr ''mcp'', JStr ''stdio'']),
       (''env'', JObj [(''MNEME_LOG'', JStr ''info'')]), (''transport'', JStr ''stdio'')]"

text \<open>\<open>entry(k).or_insert_with(...)\<close>: the value at the key, which is created when it is missing.\<close>

definition entry_or :: "string \<Rightarrow> 'v \<Rightarrow> (string, 'v) hmap \<Rightarrow> 'v" where
  "entry_or k d m = (case hm_get m k of Some v \<Rightarrow> v | None \<Rightarrow> d)"

definition strip_bom :: "string \<Rightarrow> string" where
  "strip_bom s = (case strip_prefix s (utf8 [0xEF, 0xBB, 0xBF]) of Some r \<Rightarrow> r | None \<Rightarrow> s)"

definition parse_json :: "codecs \<Rightarrow> string \<Rightarrow> json cli_result" where
  "parse_json c s = (case json_parse c s of Inl e \<Rightarrow> Inl (CliJson e) | Inr v \<Rightarrow> Inr v)"

definition parse_toml :: "codecs \<Rightarrow> string \<Rightarrow> toml cli_result" where
  "parse_toml c s = (case toml_parse c s of Inl e \<Rightarrow> Inl (CliTomlDe e) | Inr v \<Rightarrow> Inr v)"

definition print_toml :: "codecs \<Rightarrow> toml \<Rightarrow> string cli_result" where
  "print_toml c v = (case toml_pretty c v of Inl e \<Rightarrow> Inl (CliTomlSer e) | Inr s \<Rightarrow> Inr s)"

text \<open>The edits of the values, without the text around them.\<close>

fun put_object :: "string \<Rightarrow> string \<Rightarrow> json \<Rightarrow> string \<Rightarrow> json \<Rightarrow> json cli_result" where
  "put_object root_err key entry servers_err (JObj obj) =
     (case entry_or key (JObj []) obj of
        JObj servers \<Rightarrow> Inr (JObj (hm_insert key (JObj (hm_insert ''mneme'' entry servers)) obj))
      | _ \<Rightarrow> Inl (CliOther servers_err))"
| "put_object root_err key entry servers_err _ = Inl (CliOther root_err)"

fun strip_object :: "json \<Rightarrow> json" where
  "strip_object (JObj obj) =
     (case hm_get obj ''mcpServers'' of
        Some (JObj servers) \<Rightarrow> JObj (hm_insert ''mcpServers'' (JObj (hm_remove ''mneme'' servers)) obj)
      | _ \<Rightarrow> JObj obj)"
| "strip_object v = v"

definition named_mneme :: "json \<Rightarrow> bool" where
  "named_mneme s \<longleftrightarrow> Option.bind (json_get s ''name'') as_str = Some ''mneme''"

definition array_entry :: json where
  "array_entry = (case mneme_mcp_entry of JObj kvs \<Rightarrow> JObj (hm_insert ''name'' (JStr ''mneme'') kvs) | v \<Rightarrow> v)"

fun put_array :: "json \<Rightarrow> json cli_result" where
  "put_array (JObj obj) =
     (case entry_or ''mcpServers'' (JArr []) obj of
        JArr arr \<Rightarrow> Inr (JObj (hm_insert ''mcpServers'' (JArr (filter (Not \<circ> named_mneme) arr @ [array_entry])) obj))
      | _ \<Rightarrow> Inl (CliOther ''`mcpServers` is not a JSON array''))"
| "put_array _ = Inl (CliOther ''MCP config root is not a JSON object'')"

fun strip_array :: "json \<Rightarrow> json" where
  "strip_array (JObj obj) =
     (case hm_get obj ''mcpServers'' of
        Some (JArr arr) \<Rightarrow> JObj (hm_insert ''mcpServers'' (JArr (filter (Not \<circ> named_mneme) arr)) obj)
      | _ \<Rightarrow> JObj obj)"
| "strip_array v = v"

definition toml_entry :: toml where
  "toml_entry =
     TTable [(''command'', TString ''mneme''), (''args'', TArray [TString ''mcp'', TString ''stdio'']),
       (''env'', TTable [(''MNEME_LOG'', TString ''info'')])]"

fun put_toml :: "toml \<Rightarrow> toml cli_result" where
  "put_toml (TTable root) =
     (case entry_or ''mcp_servers'' (TTable []) root of
        TTable servers \<Rightarrow> Inr (TTable (hm_insert ''mcp_servers'' (TTable (hm_insert ''mneme'' toml_entry servers)) root))
      | _ \<Rightarrow> Inl (CliOther ''`mcp_servers` is not a TOML table''))"
| "put_toml _ = Inl (CliOther ''TOML root is not a table'')"

fun strip_toml :: "toml \<Rightarrow> toml" where
  "strip_toml (TTable root) =
     (case hm_get root ''mcp_servers'' of
        Some (TTable servers) \<Rightarrow> TTable (hm_insert ''mcp_servers'' (TTable (hm_remove ''mneme'' servers)) root)
      | _ \<Rightarrow> TTable root)"
| "strip_toml v = v"

text \<open>The functions on texts. \<open>with_json\<close> is the parse, edit and print they share.\<close>

definition with_json :: "codecs \<Rightarrow> (json \<Rightarrow> json cli_result) \<Rightarrow> json cli_result \<Rightarrow> string cli_result" where
  "with_json c edit parsed =
     (case parsed of
        Inl e \<Rightarrow> Inl e
      | Inr v \<Rightarrow> (case edit v of Inl e \<Rightarrow> Inl e | Inr w \<Rightarrow> Inr (json_pretty c w @ newline)))"

definition merge_mcp_json_object :: "codecs \<Rightarrow> string \<Rightarrow> string cli_result" where
  "merge_mcp_json_object c existing =
     (let existing = strip_bom existing in
      with_json c (put_object ''MCP config root is not a JSON object'' ''mcpServers'' mneme_mcp_entry
          ''`mcpServers` is not a JSON object'')
        (if trim existing = [] then Inr (JObj []) else parse_json c existing))"

definition strip_mcp_json_object :: "codecs \<Rightarrow> string \<Rightarrow> string cli_result" where
  "strip_mcp_json_object c existing = with_json c (\<lambda>v. Inr (strip_object v)) (parse_json c (strip_bom existing))"

definition merge_mcp_json_array :: "codecs \<Rightarrow> string \<Rightarrow> string cli_result" where
  "merge_mcp_json_array c existing =
     (let existing = strip_bom existing in
      with_json c put_array
        (if trim existing = [] then Inr (JObj [(''mcpServers'', JArr [])]) else parse_json c existing))"

definition strip_mcp_json_array :: "codecs \<Rightarrow> string \<Rightarrow> string cli_result" where
  "strip_mcp_json_array c existing = with_json c (\<lambda>v. Inr (strip_array v)) (parse_json c (strip_bom existing))"

definition merge_mcp_toml :: "codecs \<Rightarrow> string \<Rightarrow> string cli_result" where
  "merge_mcp_toml c existing =
     (case (if trim existing = [] then Inr (TTable []) else parse_toml c existing) of
        Inl e \<Rightarrow> Inl e
      | Inr doc \<Rightarrow> (case put_toml doc of Inl e \<Rightarrow> Inl e | Inr d \<Rightarrow> print_toml c d))"

definition strip_mcp_toml :: "codecs \<Rightarrow> string \<Rightarrow> string cli_result" where
  "strip_mcp_toml c existing = (case parse_toml c existing of Inl e \<Rightarrow> Inl e | Inr doc \<Rightarrow> print_toml c (strip_toml doc))"

section \<open>Writing and removing\<close>

definition agents_md_body :: "codecs \<Rightarrow> string" where
  "agents_md_body c =
     (let dash = utf8 [0xE2, 0x80, 0x94] in
      ''## Mneme (the AI superbrain)'' @ nl 0 @ nl 0 @
      ''- Persistent per-project memory across sessions and compactions.'' @ nl 0 @
      ''- 30+ MCP tools: see `mneme --help` or run `/mn-recall`, `/mn-blast`, `/mn-graphify`, `/mn-step`.'' @ nl 0 @
      ''- Step Ledger guarantees Claude resumes the *correct* step after compaction.'' @ nl 0 @
      ''- Drift detector enforces this project'' @ [CHR 0x27] @ ''s rules from CLAUDE.md / .claude/rules.'' @ nl 0 @
      ''- Local-only: zero network egress in the hot path.'' @ nl 0 @
      ''- Vision app: `mneme view`'' @ nl 0 @
      ''- Daemon: `mneme daemon status`'' @ nl 0 @ nl 0 @
      ''v'' @ cargo_version c @ '' '' @ dash @ '' see https://github.com/anishtrivedi/mneme'' @ nl 0)"

text \<open>The directory of a path is made unless the run is dry.\<close>

definition ensure_parent :: "os_env \<Rightarrow> AdapterContext \<Rightarrow> path \<Rightarrow> unit act" where
  "ensure_parent env ctx p =
     (case path_parent p of Some parent \<Rightarrow> act_if (\<not> cx_dry_run ctx) (create_dir_all env parent) | None \<Rightarrow> act_ok ())"

definition read_or :: "os_env \<Rightarrow> path \<Rightarrow> string \<Rightarrow> string act" where
  "read_or env p dflt s = (if path_exists s p then read_to_string env p s else act_ok dflt s)"

definition write_marker_manifest :: "os_env \<Rightarrow> codecs \<Rightarrow> path \<Rightarrow> string \<Rightarrow> AdapterContext \<Rightarrow> unit act" where
  "write_marker_manifest env c p body ctx =
     act_bind (ensure_parent env ctx p) (\<lambda>_.
     act_bind (read_or env p []) (\<lambda>existing.
     act_bind (act_of (inject (sha256_fn c) existing body p (cx_force ctx))) (\<lambda>new_text.
     act_if (\<not> cx_dry_run ctx) (backup_then_write env p new_text))))"

fun empty_config :: "McpFormat \<Rightarrow> string" where
  "empty_config JsonObject = ''{}''"
| "empty_config JsonArray = [CHR 0x7B, CHR 0x22] @ ''mcpServers'' @ [CHR 0x22] @ '': []}''"
| "empty_config Toml = []"

fun merge_mcp :: "codecs \<Rightarrow> McpFormat \<Rightarrow> string \<Rightarrow> string cli_result" where
  "merge_mcp c JsonObject = merge_mcp_json_object c"
| "merge_mcp c JsonArray = merge_mcp_json_array c"
| "merge_mcp c Toml = merge_mcp_toml c"

fun strip_mcp :: "codecs \<Rightarrow> McpFormat \<Rightarrow> string \<Rightarrow> string cli_result" where
  "strip_mcp c JsonObject = strip_mcp_json_object c"
| "strip_mcp c JsonArray = strip_mcp_json_array c"
| "strip_mcp c Toml = strip_mcp_toml c"

definition write_mcp_config_default :: "os_env \<Rightarrow> codecs \<Rightarrow> path \<Rightarrow> McpFormat \<Rightarrow> AdapterContext \<Rightarrow> unit act" where
  "write_mcp_config_default env c p format ctx =
     act_bind (ensure_parent env ctx p) (\<lambda>_.
     act_bind (read_or env p (empty_config format)) (\<lambda>existing.
     act_bind (act_of (merge_mcp c format existing)) (\<lambda>merged.
     act_if (\<not> cx_dry_run ctx) (backup_then_write env p merged))))"

definition remove_mcp_entry :: "os_env \<Rightarrow> codecs \<Rightarrow> path \<Rightarrow> McpFormat \<Rightarrow> AdapterContext \<Rightarrow> unit act" where
  "remove_mcp_entry env c p format ctx =
     act_bind (read_to_string env p) (\<lambda>existing.
     act_bind (act_of (strip_mcp c format existing)) (\<lambda>stripped.
     act_if (\<not> cx_dry_run ctx) (backup_then_write env p stripped)))"

text \<open>Zed, Cursor and Qoder parse their files without \<open>strip_bom\<close>.\<close>

definition parse_existing :: "codecs \<Rightarrow> string \<Rightarrow> json cli_result" where
  "parse_existing c existing = parse_json c (if trim existing = [] then ''{}'' else existing)"

definition edit_json_file :: "os_env \<Rightarrow> codecs \<Rightarrow> path \<Rightarrow> (json \<Rightarrow> json cli_result) \<Rightarrow> AdapterContext \<Rightarrow> unit act" where
  "edit_json_file env c p edit ctx =
     act_bind (ensure_parent env ctx p) (\<lambda>_.
     act_bind (read_or env p ''{}'') (\<lambda>existing.
     act_bind (act_of (with_json c edit (parse_existing c existing))) (\<lambda>serialized.
     act_if (\<not> cx_dry_run ctx) (backup_then_write env p serialized))))"

section \<open>Hooks and entries of single platforms\<close>

definition hook_entry :: "string \<Rightarrow> json" where
  "hook_entry cmd = JObj [(''command'', JStr cmd), (''owner'', JStr ''mneme'')]"

definition owned :: "json \<Rightarrow> bool" where
  "owned e \<longleftrightarrow> Option.bind (json_get e ''owner'') as_str = Some ''mneme''"

fun put_hooks :: "(string \<times> json) list \<Rightarrow> (string, json) hmap \<Rightarrow> (string, json) hmap cli_result" where
  "put_hooks [] root = Inr root"
| "put_hooks ((ev, e) # es) root =
     (case entry_or ev (JArr []) root of
        JArr arr \<Rightarrow> put_hooks es (hm_insert ev (JArr (filter (Not \<circ> owned) arr @ [e])) root)
      | _ \<Rightarrow> Inl (CliOther (ev @ '' is not an array'')))"

definition cursor_hooks :: "(string \<times> json) list" where
  "cursor_hooks =
     [(''sessionStart'', hook_entry ''mneme session-prime''), (''afterFileEdit'', hook_entry ''mneme post-tool''),
      (''beforeShellExecution'', hook_entry ''mneme pre-tool'')]"

fun cursor_edit :: "json \<Rightarrow> json cli_result" where
  "cursor_edit (JObj root) = (case put_hooks cursor_hooks root of Inl e \<Rightarrow> Inl e | Inr r \<Rightarrow> Inr (JObj r))"
| "cursor_edit _ = Inl (CliOther ''hooks.json root is not object'')"

fun qoder_edit :: "json \<Rightarrow> json cli_result" where
  "qoder_edit (JObj root) =
     (case entry_or ''hooks'' (JObj []) root of
        JObj hooks \<Rightarrow>
          Inr (JObj (hm_insert ''hooks''
            (JObj (hm_insert ''onSessionStart'' (hook_entry ''mneme session-prime'')
              (hm_insert ''onTurnEnd'' (hook_entry ''mneme turn-end'') hooks))) root))
      | _ \<Rightarrow> Inl (CliOther ''`hooks` is not an object''))"
| "qoder_edit _ = Inl (CliOther ''settings.json not object'')"

text \<open>Files whose whole text is mneme's: written without a backup.\<close>

definition write_plain_hook :: "os_env \<Rightarrow> path \<Rightarrow> path \<Rightarrow> string \<Rightarrow> AdapterContext \<Rightarrow> path option act" where
  "write_plain_hook env dir name body ctx =
     (let path = path_join dir name in
      act_bind (act_if (\<not> cx_dry_run ctx) (create_dir_all env dir)) (\<lambda>_.
      act_bind (act_if (\<not> cx_dry_run ctx) (write_file env path body)) (\<lambda>_.
      act_ok (Some path))))"

definition dq :: "string \<Rightarrow> string" where
  "dq s = [CHR 0x22] @ s @ [CHR 0x22]"

definition windsurf_body :: string where
  "windsurf_body =
     ''# Mneme Quick Status'' @ nl 0 @ nl 0 @
     ''Run `mneme status` from this workflow to refresh the cached project graph and surface drift findings without leaving Windsurf.'' @ nl 0"

definition gemini_body :: string where
  "gemini_body =
     ''name = mneme'' @ [CHR 0x22] @ nl 0 @
     ''description = '' @ dq ''Run a mneme command (status / recall / blast / step ...)'' @ nl 0 @
     ''command = mneme'' @ [CHR 0x22] @ nl 0 @
     ''args = ['' @ dq ''$@'' @ '']'' @ nl 0"

definition kiro_body :: json where
  "kiro_body =
     JObj [(''name'', JStr ''mneme''), (''events'', JArr [JStr ''onSessionStart'', JStr ''onFileEdited'', JStr ''onTurnEnd'']),
       (''command'', JStr ''mneme''), (''argTemplate'', JArr [JStr ''session-prime''])]"

definition opencode_body :: string where
  "opencode_body =
     ''// Auto-generated by `mneme install`. Re-run install to refresh.'' @ nl 0 @
     ''import { execFileSync } from '' @ dq ''node:child_process'' @ '';'' @ nl 0 @ nl 0 @
     ''// Safe: execFileSync passes args as a vector, never to a shell.'' @ nl 0 @
     ''function dt(args: string[]) {'' @ nl 0 @
     ''execFileSync(mneme'' @ [CHR 0x22] @ '', args, { stdio: '' @ dq ''inherit'' @ '' });'' @ nl 0 @
     ''}'' @ nl 0 @ nl 0 @
     ''export default {'' @ nl 0 @
     ''name: mneme'' @ [CHR 0x22] @ '','' @ nl 0 @
     ''events: {'' @ nl 0 @
     dq ''session.created'' @ '': (c: any) => dt(['' @ dq ''session-prime'' @ '', '' @ dq ''--project'' @ '', String(c.cwd), '' @
       dq ''--session-id'' @ '', String(c.id)]),'' @ nl 0 @
     dq ''tool.execute.before'' @ '': (c: any) => dt(['' @ dq ''pre-tool'' @ '', '' @ dq ''--tool'' @ '', String(c.tool), '' @
       dq ''--params'' @ '', JSON.stringify(c.params), '' @ dq ''--session-id'' @ '', String(c.session)]),'' @ nl 0 @
     dq ''tool.execute.after'' @ '':  (c: any) => dt(['' @ dq ''post-tool'' @ '', '' @ dq ''--tool'' @ '', String(c.tool), '' @
       dq ''--result-file'' @ '', String(c.resultPath), '' @ dq ''--session-id'' @ '', String(c.session)]),'' @ nl 0 @
     dq ''file.edited'' @ '':         (c: any) => dt(['' @ dq ''post-tool'' @ '', '' @ dq ''--tool'' @ '', '' @ dq ''Edit'' @ '', '' @
       dq ''--result-file'' @ '', String(c.path), '' @ dq ''--session-id'' @ '', String(c.session)]),'' @ nl 0 @
     ''},'' @ nl 0 @
     ''};'' @ nl 0"

definition zed_entry :: json where
  "zed_entry =
     JObj [(''command'', JObj [(''path'', JStr ''mneme''), (''args'', JArr [JStr ''mcp'', JStr ''stdio''])]), (''settings'', JObj [])]"

definition aider_mark :: string where
  "aider_mark = ''# mneme MCP server''"

definition aider_snippet :: string where
  "aider_snippet =
     nl 0 @ aider_mark @ '' (added by `mneme install`)'' @ nl 0 @ ''mcp_servers:'' @ nl 2 @ ''mneme:'' @ nl 4 @ ''command: mneme'' @ nl 4 @
     ''args: [mcp, stdio]'' @ nl 4 @ ''env:'' @ nl 6 @ ''MNEME_LOG: info'' @ nl 0"

definition aider_write_mcp_config :: "os_env \<Rightarrow> path \<Rightarrow> AdapterContext \<Rightarrow> unit act" where
  "aider_write_mcp_config env p ctx =
     act_bind (ensure_parent env ctx p) (\<lambda>_.
     act_bind (read_or env p []) (\<lambda>existing.
     if str_contains existing aider_mark then act_ok ()
     else act_if (\<not> cx_dry_run ctx) (backup_then_write env p (existing @ aider_snippet))))"

section \<open>The adapters\<close>

text \<open>
  The trait with its default methods, and the implementation of each platform. Writing the manifest and
  removing are the same for all and follow below.
\<close>

record PlatformAdapter =
  ad_detect :: "fs \<Rightarrow> AdapterContext \<Rightarrow> bool"
  ad_manifest_path :: "AdapterContext \<Rightarrow> path"
  ad_mcp_config_path :: "AdapterContext \<Rightarrow> path"
  ad_mcp_format :: McpFormat
  ad_write_mcp_config :: "os_env \<Rightarrow> codecs \<Rightarrow> AdapterContext \<Rightarrow> unit act"
  ad_write_hooks :: "os_env \<Rightarrow> codecs \<Rightarrow> AdapterContext \<Rightarrow> path option act"

definition trait_adapter ::
    "(fs \<Rightarrow> AdapterContext \<Rightarrow> bool) \<Rightarrow> (AdapterContext \<Rightarrow> path) \<Rightarrow> (AdapterContext \<Rightarrow> path) \<Rightarrow> McpFormat \<Rightarrow> PlatformAdapter" where
  "trait_adapter det man mcp fmt =
     \<lparr>ad_detect = det, ad_manifest_path = man, ad_mcp_config_path = mcp, ad_mcp_format = fmt,
      ad_write_mcp_config = (\<lambda>env c ctx. write_mcp_config_default env c (mcp ctx) fmt ctx),
      ad_write_hooks = (\<lambda>env c ctx. act_ok None)\<rparr>"

definition claude_code_adapter :: PlatformAdapter where
  "claude_code_adapter =
     trait_adapter (\<lambda>s ctx. True)
       (\<lambda>ctx. scoped ctx [''CLAUDE.md''] [''.claude'', ''CLAUDE.md''])
       (\<lambda>ctx. scoped ctx [''.mcp.json''] [''.claude.json'']) JsonObject"

definition codex_adapter :: PlatformAdapter where
  "codex_adapter =
     trait_adapter (\<lambda>s ctx. path_exists s (joins (cx_home ctx) [''.codex'']))
       (\<lambda>ctx. agents_md ctx)
       (\<lambda>ctx. joins (cx_home ctx) [''.codex'', ''config.toml'']) Toml"

definition cursor_adapter :: PlatformAdapter where
  "cursor_adapter =
     (trait_adapter (\<lambda>s ctx. path_exists s (joins (cx_home ctx) [''.cursor'']))
       (\<lambda>ctx. agents_md ctx)
       (\<lambda>ctx. scoped ctx [''.cursor'', ''mcp.json''] [''.cursor'', ''mcp.json'']) JsonObject)
       \<lparr>ad_write_hooks := (\<lambda>env c ctx. (let path = joins (cx_home ctx) [''.cursor'', ''hooks.json''] in act_bind (edit_json_file env c path cursor_edit ctx) (\<lambda>_. act_ok (Some path))))\<rparr>"

definition windsurf_adapter :: PlatformAdapter where
  "windsurf_adapter =
     (trait_adapter (\<lambda>s ctx. path_exists s (joins (cx_home ctx) [''.codeium'', ''windsurf'']))
       (\<lambda>ctx. scoped ctx [''.windsurfrules''] [''.windsurfrules''])
       (\<lambda>ctx. joins (cx_home ctx) [''.codeium'', ''windsurf'', ''mcp_config.json'']) JsonObject)
       \<lparr>ad_write_hooks := (\<lambda>env c ctx. write_plain_hook env (scoped ctx [''.windsurf'', ''workflows''] [''.windsurf'', ''workflows'']) ''mneme.md'' windsurf_body ctx)\<rparr>"

definition zed_adapter :: PlatformAdapter where
  "zed_adapter =
     (trait_adapter (\<lambda>s ctx. (path_exists s (zed_settings_path (cx_home ctx)) \<or> path_exists s (joins (cx_home ctx) [''.config'', ''zed''])))
       (\<lambda>ctx. agents_md ctx)
       (\<lambda>ctx. zed_settings_path (cx_home ctx)) JsonObject)
       \<lparr>ad_write_mcp_config := (\<lambda>env c ctx. edit_json_file env c (zed_settings_path (cx_home ctx))
         (put_object ''settings.json not object'' ''context_servers'' zed_entry ''`context_servers` is not an object'') ctx)\<rparr>"

definition continue_dev_adapter :: PlatformAdapter where
  "continue_dev_adapter =
     trait_adapter (\<lambda>s ctx. path_exists s (joins (cx_home ctx) [''.continue'']))
       (\<lambda>ctx. agents_md ctx)
       (\<lambda>ctx. joins (cx_home ctx) [''.continue'', ''config.json'']) JsonArray"

definition opencode_adapter :: PlatformAdapter where
  "opencode_adapter =
     (trait_adapter (\<lambda>s ctx. (path_exists s (joins (cx_project_root ctx) [''.opencode.json'']) \<or> path_exists s (joins (cx_project_root ctx) [''.opencode'']) \<or> path_exists s (joins (cx_home ctx) [''.opencode''])))
       (\<lambda>ctx. agents_md ctx)
       (\<lambda>ctx. scoped ctx [''.opencode.json''] [''.opencode.json'']) JsonObject)
       \<lparr>ad_write_hooks := (\<lambda>env c ctx. write_plain_hook env (scoped ctx [''.opencode'', ''plugins''] [''.opencode'', ''plugins'']) ''mneme.ts'' opencode_body ctx)\<rparr>"

definition antigravity_adapter :: PlatformAdapter where
  "antigravity_adapter =
     trait_adapter (\<lambda>s ctx. path_exists s (joins (cx_home ctx) [''.gemini'', ''antigravity'']))
       (\<lambda>ctx. agents_md ctx)
       (\<lambda>ctx. joins (cx_home ctx) [''.gemini'', ''antigravity'', ''mcp_config.json'']) JsonObject"

definition gemini_cli_adapter :: PlatformAdapter where
  "gemini_cli_adapter =
     (trait_adapter (\<lambda>s ctx. path_exists s (joins (cx_home ctx) [''.gemini'']))
       (\<lambda>ctx. scoped ctx [''GEMINI.md''] [''GEMINI.md''])
       (\<lambda>ctx. joins (cx_home ctx) [''.gemini'', ''settings.json'']) JsonObject)
       \<lparr>ad_write_hooks := (\<lambda>env c ctx. write_plain_hook env (joins (cx_home ctx) [''.gemini'', ''commands'']) ''mneme.toml'' gemini_body ctx)\<rparr>"

definition aider_adapter :: PlatformAdapter where
  "aider_adapter =
     (trait_adapter (\<lambda>s ctx. (path_exists s (joins (cx_home ctx) [''.aider.conf.yml'']) \<or> path_exists s (joins (cx_project_root ctx) [''.aider.conf.yml''])))
       (\<lambda>ctx. scoped ctx [''CONVENTIONS.md''] [''CONVENTIONS.md''])
       (\<lambda>ctx. scoped ctx [''.aider.conf.yml''] [''.aider.conf.yml'']) JsonObject)
       \<lparr>ad_write_mcp_config := (\<lambda>env c ctx. aider_write_mcp_config env (scoped ctx [''.aider.conf.yml''] [''.aider.conf.yml'']) ctx)\<rparr>"

definition copilot_adapter :: PlatformAdapter where
  "copilot_adapter =
     trait_adapter (\<lambda>s ctx. (path_exists s (joins (cx_home ctx) [''.config'', ''github-copilot'']) \<or> path_exists s (joins (cx_home ctx) [''.vscode'']) \<or> path_exists s (joins (cx_project_root ctx) [''.vscode'']) \<or> path_exists s (joins (cx_project_root ctx) [''.github'', ''copilot-instructions.md''])))
       (\<lambda>ctx. scoped ctx [''.github'', ''copilot-instructions.md''] [''.config'', ''github-copilot'', ''copilot-instructions.md''])
       (\<lambda>ctx. scoped ctx [''.vscode'', ''mcp.json''] [''.config'', ''github-copilot'', ''mcp.json'']) JsonObject"

definition factory_droid_adapter :: PlatformAdapter where
  "factory_droid_adapter =
     trait_adapter (\<lambda>s ctx. path_exists s (joins (cx_home ctx) [''.factory'']))
       (\<lambda>ctx. agents_md ctx)
       (\<lambda>ctx. joins (cx_home ctx) [''.factory'', ''mcp.json'']) JsonObject"

definition trae_adapter :: PlatformAdapter where
  "trae_adapter =
     trait_adapter (\<lambda>s ctx. path_exists s (joins (cx_home ctx) [''.trae'']))
       (\<lambda>ctx. agents_md ctx)
       (\<lambda>ctx. joins (cx_home ctx) [''.trae'', ''mcp.json'']) JsonObject"

definition kiro_adapter :: PlatformAdapter where
  "kiro_adapter =
     (trait_adapter (\<lambda>s ctx. (path_exists s (joins (cx_project_root ctx) [''.kiro'']) \<or> path_exists s (joins (cx_home ctx) [''.kiro''])))
       (\<lambda>ctx. scoped ctx [''.kiro'', ''steering'', ''mneme.md''] [''.kiro'', ''steering'', ''mneme.md''])
       (\<lambda>ctx. scoped ctx [''.kiro'', ''settings'', ''mcp.json''] [''.kiro'', ''settings'', ''mcp.json'']) JsonObject)
       \<lparr>ad_write_hooks := (\<lambda>env c ctx. write_plain_hook env (scoped ctx [''.kiro'', ''hooks''] [''.kiro'', ''hooks'']) ''mneme.kiro.hook'' (json_pretty c kiro_body @ newline) ctx)\<rparr>"

definition qoder_adapter :: PlatformAdapter where
  "qoder_adapter =
     (trait_adapter (\<lambda>s ctx. True)
       (\<lambda>ctx. scoped ctx [''QODER.md''] [''QODER.md''])
       (\<lambda>ctx. scoped ctx [''.qoder'', ''mcp.json''] [''.qoder'', ''mcp.json'']) JsonObject)
       \<lparr>ad_write_hooks := (\<lambda>env c ctx. (let path = scoped ctx [''.qoder'', ''settings.json''] [''.qoder'', ''settings.json''] in act_bind (edit_json_file env c path qoder_edit ctx) (\<lambda>_. act_ok (Some path))))\<rparr>"

definition openclaw_adapter :: PlatformAdapter where
  "openclaw_adapter =
     trait_adapter (\<lambda>s ctx. (path_exists s (joins (cx_home ctx) [''.openclaw'']) \<or> path_exists s (joins (cx_project_root ctx) [''.openclaw''])))
       (\<lambda>ctx. agents_md ctx)
       (\<lambda>ctx. scoped ctx [''.mcp.json''] [''.mcp.json'']) JsonObject"

definition hermes_adapter :: PlatformAdapter where
  "hermes_adapter =
     trait_adapter (\<lambda>s ctx. path_exists s (joins (cx_home ctx) [''.hermes'']))
       (\<lambda>ctx. agents_md ctx)
       (\<lambda>ctx. scoped ctx [''.mcp.json''] [''.hermes'', ''mcp.json'']) JsonObject"

definition qwen_adapter :: PlatformAdapter where
  "qwen_adapter =
     trait_adapter (\<lambda>s ctx. path_exists s (joins (cx_home ctx) [''.qwen'']))
       (\<lambda>ctx. scoped ctx [''QWEN.md''] [''QWEN.md''])
       (\<lambda>ctx. joins (cx_home ctx) [''.qwen'', ''settings.json'']) JsonObject"

definition vscode_adapter :: PlatformAdapter where
  "vscode_adapter =
     trait_adapter (\<lambda>s ctx. (path_exists s (vscode_user_config_dir ctx) \<or> path_exists s (joins (cx_project_root ctx) [''.vscode''])))
       (\<lambda>ctx. agents_md ctx)
       (\<lambda>ctx. (case cx_scope ctx of Project \<Rightarrow> joins (cx_project_root ctx) [''.vscode'', ''mcp.json''] | _ \<Rightarrow> path_join (vscode_user_config_dir ctx) ''mcp.json'')) JsonObject"

fun adapter :: "Platform \<Rightarrow> PlatformAdapter" where
  "adapter ClaudeCode = claude_code_adapter"
| "adapter Codex = codex_adapter"
| "adapter Cursor = cursor_adapter"
| "adapter Windsurf = windsurf_adapter"
| "adapter Zed = zed_adapter"
| "adapter ContinueDev = continue_dev_adapter"
| "adapter OpenCode = opencode_adapter"
| "adapter Antigravity = antigravity_adapter"
| "adapter GeminiCli = gemini_cli_adapter"
| "adapter Aider = aider_adapter"
| "adapter Copilot = copilot_adapter"
| "adapter FactoryDroid = factory_droid_adapter"
| "adapter Trae = trae_adapter"
| "adapter Kiro = kiro_adapter"
| "adapter Qoder = qoder_adapter"
| "adapter OpenClaw = openclaw_adapter"
| "adapter Hermes = hermes_adapter"
| "adapter Qwen = qwen_adapter"
| "adapter VsCode = vscode_adapter"

section \<open>The methods\<close>

definition detect :: "fs \<Rightarrow> AdapterContext \<Rightarrow> Platform \<Rightarrow> bool" where
  "detect s ctx p = ad_detect (adapter p) s ctx"

definition manifest_path :: "Platform \<Rightarrow> AdapterContext \<Rightarrow> path" where
  "manifest_path p ctx = ad_manifest_path (adapter p) ctx"

definition mcp_config_path :: "Platform \<Rightarrow> AdapterContext \<Rightarrow> path" where
  "mcp_config_path p ctx = ad_mcp_config_path (adapter p) ctx"

definition mcp_format :: "Platform \<Rightarrow> McpFormat" where
  "mcp_format p = ad_mcp_format (adapter p)"

definition write_manifest :: "os_env \<Rightarrow> codecs \<Rightarrow> Platform \<Rightarrow> AdapterContext \<Rightarrow> path act" where
  "write_manifest env c p ctx =
     (let path = manifest_path p ctx in
      act_bind (write_marker_manifest env c path (agents_md_body c) ctx) (\<lambda>_. act_ok path))"

definition write_mcp_config :: "os_env \<Rightarrow> codecs \<Rightarrow> Platform \<Rightarrow> AdapterContext \<Rightarrow> path act" where
  "write_mcp_config env c p ctx =
     act_bind (ad_write_mcp_config (adapter p) env c ctx) (\<lambda>_. act_ok (mcp_config_path p ctx))"

definition write_hooks :: "os_env \<Rightarrow> codecs \<Rightarrow> Platform \<Rightarrow> AdapterContext \<Rightarrow> path option act" where
  "write_hooks env c p ctx = ad_write_hooks (adapter p) env c ctx"

definition remove_manifest :: "os_env \<Rightarrow> Platform \<Rightarrow> AdapterContext \<Rightarrow> unit act" where
  "remove_manifest env p ctx s =
     (let path = manifest_path p ctx in
      if \<not> path_exists s path then (Inr (), s)
      else act_bind (read_to_string env path) (\<lambda>existing.
        act_if (\<not> cx_dry_run ctx) (backup_then_write env path (remove_block existing))) s)"

definition remove_mcp_config :: "os_env \<Rightarrow> codecs \<Rightarrow> Platform \<Rightarrow> AdapterContext \<Rightarrow> unit act" where
  "remove_mcp_config env c p ctx s =
     (let path = mcp_config_path p ctx in
      if \<not> path_exists s path then (Inr (), s)
      else remove_mcp_entry env c path (mcp_format p) ctx s)"

section \<open>Detection\<close>

fun detect_from :: "fs \<Rightarrow> AdapterContext \<Rightarrow> Platform list \<Rightarrow> Platform list" where
  "detect_from s ctx [] = []"
| "detect_from s ctx (p # ps) =
     (let always_on = p \<in> set [ClaudeCode, Qoder] in
      if always_on \<or> detect s ctx p then p # detect_from s ctx ps else detect_from s ctx ps)"

definition detect_installed :: "path option \<Rightarrow> fs \<Rightarrow> InstallScope \<Rightarrow> path \<Rightarrow> Platform list" where
  "detect_installed home_dir s sc root = detect_from s (AdapterContext_new home_dir sc root) all_known"

lemmas adapter_defs = claude_code_adapter_def codex_adapter_def cursor_adapter_def windsurf_adapter_def zed_adapter_def continue_dev_adapter_def opencode_adapter_def antigravity_adapter_def gemini_cli_adapter_def aider_adapter_def copilot_adapter_def factory_droid_adapter_def trae_adapter_def kiro_adapter_def qoder_adapter_def openclaw_adapter_def hermes_adapter_def qwen_adapter_def vscode_adapter_def
  trait_adapter_def

lemma manifest_path_simps [simp]:
  "manifest_path ClaudeCode ctx = scoped ctx [''CLAUDE.md''] [''.claude'', ''CLAUDE.md'']"
  "manifest_path Codex ctx = agents_md ctx"
  "manifest_path Cursor ctx = agents_md ctx"
  "manifest_path Windsurf ctx = scoped ctx [''.windsurfrules''] [''.windsurfrules'']"
  "manifest_path Zed ctx = agents_md ctx"
  "manifest_path ContinueDev ctx = agents_md ctx"
  "manifest_path OpenCode ctx = agents_md ctx"
  "manifest_path Antigravity ctx = agents_md ctx"
  "manifest_path GeminiCli ctx = scoped ctx [''GEMINI.md''] [''GEMINI.md'']"
  "manifest_path Aider ctx = scoped ctx [''CONVENTIONS.md''] [''CONVENTIONS.md'']"
  "manifest_path Copilot ctx = scoped ctx [''.github'', ''copilot-instructions.md''] [''.config'', ''github-copilot'', ''copilot-instructions.md'']"
  "manifest_path FactoryDroid ctx = agents_md ctx"
  "manifest_path Trae ctx = agents_md ctx"
  "manifest_path Kiro ctx = scoped ctx [''.kiro'', ''steering'', ''mneme.md''] [''.kiro'', ''steering'', ''mneme.md'']"
  "manifest_path Qoder ctx = scoped ctx [''QODER.md''] [''QODER.md'']"
  "manifest_path OpenClaw ctx = agents_md ctx"
  "manifest_path Hermes ctx = agents_md ctx"
  "manifest_path Qwen ctx = scoped ctx [''QWEN.md''] [''QWEN.md'']"
  "manifest_path VsCode ctx = agents_md ctx"
  by (simp_all add: manifest_path_def adapter_defs)

lemma mcp_config_path_simps [simp]:
  "mcp_config_path ClaudeCode ctx = scoped ctx [''.mcp.json''] [''.claude.json'']"
  "mcp_config_path Codex ctx = joins (cx_home ctx) [''.codex'', ''config.toml'']"
  "mcp_config_path Cursor ctx = scoped ctx [''.cursor'', ''mcp.json''] [''.cursor'', ''mcp.json'']"
  "mcp_config_path Windsurf ctx = joins (cx_home ctx) [''.codeium'', ''windsurf'', ''mcp_config.json'']"
  "mcp_config_path Zed ctx = zed_settings_path (cx_home ctx)"
  "mcp_config_path ContinueDev ctx = joins (cx_home ctx) [''.continue'', ''config.json'']"
  "mcp_config_path OpenCode ctx = scoped ctx [''.opencode.json''] [''.opencode.json'']"
  "mcp_config_path Antigravity ctx = joins (cx_home ctx) [''.gemini'', ''antigravity'', ''mcp_config.json'']"
  "mcp_config_path GeminiCli ctx = joins (cx_home ctx) [''.gemini'', ''settings.json'']"
  "mcp_config_path Aider ctx = scoped ctx [''.aider.conf.yml''] [''.aider.conf.yml'']"
  "mcp_config_path Copilot ctx = scoped ctx [''.vscode'', ''mcp.json''] [''.config'', ''github-copilot'', ''mcp.json'']"
  "mcp_config_path FactoryDroid ctx = joins (cx_home ctx) [''.factory'', ''mcp.json'']"
  "mcp_config_path Trae ctx = joins (cx_home ctx) [''.trae'', ''mcp.json'']"
  "mcp_config_path Kiro ctx = scoped ctx [''.kiro'', ''settings'', ''mcp.json''] [''.kiro'', ''settings'', ''mcp.json'']"
  "mcp_config_path Qoder ctx = scoped ctx [''.qoder'', ''mcp.json''] [''.qoder'', ''mcp.json'']"
  "mcp_config_path OpenClaw ctx = scoped ctx [''.mcp.json''] [''.mcp.json'']"
  "mcp_config_path Hermes ctx = scoped ctx [''.mcp.json''] [''.hermes'', ''mcp.json'']"
  "mcp_config_path Qwen ctx = joins (cx_home ctx) [''.qwen'', ''settings.json'']"
  "mcp_config_path VsCode ctx = (case cx_scope ctx of Project \<Rightarrow> joins (cx_project_root ctx) [''.vscode'', ''mcp.json''] | _ \<Rightarrow> path_join (vscode_user_config_dir ctx) ''mcp.json'')"
  by (simp_all add: mcp_config_path_def adapter_defs)

lemma mcp_format_simps [simp]:
  "mcp_format ClaudeCode = JsonObject"
  "mcp_format Codex = Toml"
  "mcp_format Cursor = JsonObject"
  "mcp_format Windsurf = JsonObject"
  "mcp_format Zed = JsonObject"
  "mcp_format ContinueDev = JsonArray"
  "mcp_format OpenCode = JsonObject"
  "mcp_format Antigravity = JsonObject"
  "mcp_format GeminiCli = JsonObject"
  "mcp_format Aider = JsonObject"
  "mcp_format Copilot = JsonObject"
  "mcp_format FactoryDroid = JsonObject"
  "mcp_format Trae = JsonObject"
  "mcp_format Kiro = JsonObject"
  "mcp_format Qoder = JsonObject"
  "mcp_format OpenClaw = JsonObject"
  "mcp_format Hermes = JsonObject"
  "mcp_format Qwen = JsonObject"
  "mcp_format VsCode = JsonObject"
  by (simp_all add: mcp_format_def adapter_defs)

lemma write_hooks_simps [simp]:
  "write_hooks env c ClaudeCode ctx = act_ok None"
  "write_hooks env c Codex ctx = act_ok None"
  "write_hooks env c Cursor ctx = (let path = joins (cx_home ctx) [''.cursor'', ''hooks.json''] in act_bind (edit_json_file env c path cursor_edit ctx) (\<lambda>_. act_ok (Some path)))"
  "write_hooks env c Windsurf ctx = write_plain_hook env (scoped ctx [''.windsurf'', ''workflows''] [''.windsurf'', ''workflows'']) ''mneme.md'' windsurf_body ctx"
  "write_hooks env c Zed ctx = act_ok None"
  "write_hooks env c ContinueDev ctx = act_ok None"
  "write_hooks env c OpenCode ctx = write_plain_hook env (scoped ctx [''.opencode'', ''plugins''] [''.opencode'', ''plugins'']) ''mneme.ts'' opencode_body ctx"
  "write_hooks env c Antigravity ctx = act_ok None"
  "write_hooks env c GeminiCli ctx = write_plain_hook env (joins (cx_home ctx) [''.gemini'', ''commands'']) ''mneme.toml'' gemini_body ctx"
  "write_hooks env c Aider ctx = act_ok None"
  "write_hooks env c Copilot ctx = act_ok None"
  "write_hooks env c FactoryDroid ctx = act_ok None"
  "write_hooks env c Trae ctx = act_ok None"
  "write_hooks env c Kiro ctx = write_plain_hook env (scoped ctx [''.kiro'', ''hooks''] [''.kiro'', ''hooks'']) ''mneme.kiro.hook'' (json_pretty c kiro_body @ newline) ctx"
  "write_hooks env c Qoder ctx = (let path = scoped ctx [''.qoder'', ''settings.json''] [''.qoder'', ''settings.json''] in act_bind (edit_json_file env c path qoder_edit ctx) (\<lambda>_. act_ok (Some path)))"
  "write_hooks env c OpenClaw ctx = act_ok None"
  "write_hooks env c Hermes ctx = act_ok None"
  "write_hooks env c Qwen ctx = act_ok None"
  "write_hooks env c VsCode ctx = act_ok None"
  by (simp_all add: write_hooks_def adapter_defs)

lemma write_mcp_config_cases:
  "write_mcp_config env c Zed ctx =
     act_bind (edit_json_file env c (zed_settings_path (cx_home ctx))
       (put_object ''settings.json not object'' ''context_servers'' zed_entry ''`context_servers` is not an object'') ctx)
       (\<lambda>_. act_ok (mcp_config_path Zed ctx))"
  "write_mcp_config env c Aider ctx =
     act_bind (aider_write_mcp_config env (mcp_config_path Aider ctx) ctx) (\<lambda>_. act_ok (mcp_config_path Aider ctx))"
  "p \<noteq> Zed \<Longrightarrow> p \<noteq> Aider \<Longrightarrow> write_mcp_config env c p ctx =
     act_bind (write_mcp_config_default env c (mcp_config_path p ctx) (mcp_format p) ctx) (\<lambda>_. act_ok (mcp_config_path p ctx))"
  by (simp_all add: write_mcp_config_def adapter_defs) (cases p; simp add: adapter_defs)

end
