(* ===== verification/Receipts.thy ===== *)
theory Receipts
  imports Platforms
begin

text \<open>
  Installing, uninstalling and rolling back (\<open>cli/src/commands/install.rs\<close>, \<open>uninstall.rs\<close>, \<open>rollback.rs\<close> and
  \<open>cli/src/receipts.rs\<close>): every write of an installation is an action of its receipt, and a rollback reverses
  the actions of a receipt, newest first. The printed reports are left out.
\<close>

section \<open>Receipts\<close>

datatype ReceiptAction =
    FileModified path path string string
  | FileCreated path string
  | PathAdded string
  | DefenderExcluded path
  | McpRegistered string path

record Receipt =
  rc_id :: string
  rc_mneme_version :: string
  rc_installed_at :: string
  rc_rolled_back_from :: "string option"
  rc_actions :: "ReceiptAction list"

record RollbackSummary =
  rs_reversed :: "string list"
  rs_skipped :: "string list"
  rs_manual :: "string list"

text \<open>
  What a command is given: the operating system, the codecs, the codec of receipts, the identifier drawn
  for a new receipt, the home directory and the working directory.
\<close>

record cli_env =
  ce_os :: os_env
  ce_codecs :: codecs
  ce_receipt_pretty :: "Receipt \<Rightarrow> string"
  ce_receipt_parse :: "string \<Rightarrow> string + Receipt"
  ce_short_id :: "fs \<Rightarrow> string"
  ce_home_dir :: "path option"
  ce_current_dir :: path
  ce_debug_path :: "path option \<Rightarrow> string"

definition Receipt_new :: "cli_env \<Rightarrow> fs \<Rightarrow> Receipt \<times> fs" where
  "Receipt_new env s =
     (let (secs, s') = os_now (ce_os env) s in
      (\<lparr>rc_id = ce_short_id env s, rc_mneme_version = cargo_version (ce_codecs env), rc_installed_at = iso8601_utc secs,
        rc_rolled_back_from = None, rc_actions = []\<rparr>, s'))"

definition rc_push :: "ReceiptAction \<Rightarrow> Receipt \<Rightarrow> Receipt" where
  "rc_push a r = r\<lparr>rc_actions := rc_actions r @ [a]\<rparr>"

text \<open>The stamp of a receipt's file name, made from the time in the receipt.\<close>

definition replace_char :: "char \<Rightarrow> string \<Rightarrow> string \<Rightarrow> string" where
  "replace_char c t s = concat (map (\<lambda>x. if x = c then t else [x]) s)"

definition receipt_stamp :: "string \<Rightarrow> string" where
  "receipt_stamp installed_at =
     (let stamp = replace_char (CHR ''T'') ''-'' (replace_char (CHR ''-'') [] (replace_char (CHR '':'') [] installed_at))
      in trim_end_matches (hd (split_on (CHR ''.'') stamp)) ''Z'')"

definition receipts_dir :: "cli_env \<Rightarrow> path cli_result" where
  "receipts_dir env =
     (case ce_home_dir env of
        None \<Rightarrow> Inl (CliOther ''cannot locate home dir'')
      | Some h \<Rightarrow> Inr (joins h [''.mneme'', ''install-receipts'']))"

definition receipt_file_name :: "Receipt \<Rightarrow> string" where
  "receipt_file_name r = receipt_stamp (rc_installed_at r) @ ''-'' @ rc_id r @ ''.json''"

definition receipt_save :: "cli_env \<Rightarrow> Receipt \<Rightarrow> path act" where
  "receipt_save env r =
     act_bind (act_of (receipts_dir env)) (\<lambda>dir.
     act_bind (create_dir_all (ce_os env) dir) (\<lambda>_.
       let p = path_join dir (receipt_file_name r) in
       act_bind (write_file (ce_os env) p (ce_receipt_pretty env r)) (\<lambda>_. act_ok p)))"

definition receipt_load :: "cli_env \<Rightarrow> path \<Rightarrow> Receipt act" where
  "receipt_load env p =
     act_bind (read_to_string (ce_os env) p) (\<lambda>t.
       act_of (case ce_receipt_parse env t of Inl e \<Rightarrow> Inl (CliJson e) | Inr r \<Rightarrow> Inr r))"

definition sha256_of_file :: "cli_env \<Rightarrow> fs \<Rightarrow> path \<Rightarrow> string" where
  "sha256_of_file env s p =
     (case os_read (ce_os env) p s of Inl _ \<Rightarrow> [] | Inr t \<Rightarrow> hex_lower (sha256_fn (ce_codecs env) t))"

section \<open>Directory listings\<close>

text \<open>The order of \<open>OsStr\<close>: by bytes.\<close>

fun bytes_less :: "string \<Rightarrow> string \<Rightarrow> bool" where
  "bytes_less _ [] = False"
| "bytes_less [] (_ # _) = True"
| "bytes_less (a # as) (b # bs) =
     (let x = (of_char a :: nat); y = of_char b in x < y \<or> (x = y \<and> bytes_less as bs))"

text \<open>The names in a directory. \<open>read_dir\<close> lists files and directories.\<close>

definition dir_entries :: "fs \<Rightarrow> path \<Rightarrow> string list" where
  "dir_entries s dir =
     List.map_filter (\<lambda>p. if path_parent p = Some dir then file_name p else None) (map fst (fs_files s) @ fs_dirs s)"

fun insert_desc :: "string \<Rightarrow> string list \<Rightarrow> string list" where
  "insert_desc x [] = [x]"
| "insert_desc x (y # ys) = (if bytes_less y x then x # y # ys else y # insert_desc x ys)"

definition sort_desc :: "string list \<Rightarrow> string list" where
  "sort_desc xs = foldr insert_desc xs []"

definition list_receipts :: "cli_env \<Rightarrow> path list act" where
  "list_receipts env =
     act_bind (act_of (receipts_dir env)) (\<lambda>dir s.
       if \<not> path_exists s dir then (Inr [], s)
       else (case os_fault (ce_os env) s OpList dir of
           Some (e, _) \<Rightarrow> (Inl (CliIo (Some dir) e), s)
         | None \<Rightarrow> (Inr (map (path_join dir) (sort_desc (filter (\<lambda>n. extension n = Some ''json'') (dir_entries s dir)))), s)))"

definition find_latest_mneme_bak :: "cli_env \<Rightarrow> path \<Rightarrow> fs \<Rightarrow> path option" where
  "find_latest_mneme_bak env target s =
     (case path_parent target of
        None \<Rightarrow> None
      | Some parent \<Rightarrow>
          (if os_fault (ce_os env) s OpList parent \<noteq> None then None
           else
             let stem = (case file_name target of Some n \<Rightarrow> n | None \<Rightarrow> []);
                 short = (case file_stem target of Some n \<Rightarrow> n | None \<Rightarrow> []);
                 candidates = filter (\<lambda>n. starts_with n (stem @ ''.mneme-'') \<or> starts_with n (short @ ''.mneme-'')) (dir_entries s parent)
             in (case sort_desc candidates of [] \<Rightarrow> None | n # _ \<Rightarrow> Some (path_join parent n))))"

section \<open>Installing\<close>

text \<open>The actions a write of \<open>target\<close> leaves in the receipt.\<close>

definition record_write :: "cli_env \<Rightarrow> bool \<Rightarrow> string \<Rightarrow> path \<Rightarrow> fs \<Rightarrow> Receipt \<Rightarrow> Receipt" where
  "record_write env existed_before sha_before written s r =
     (let sha_after = sha256_of_file env s written in
      if existed_before
      then (case find_latest_mneme_bak env written s of
          Some backup \<Rightarrow> rc_push (FileModified written backup sha_before sha_after) r
        | None \<Rightarrow> r)
      else rc_push (FileCreated written sha_after) r)"

type_synonym step_result = "(unit cli_result \<times> fs) \<times> Receipt"

definition install_manifest :: "cli_env \<Rightarrow> Platform \<Rightarrow> AdapterContext \<Rightarrow> fs \<Rightarrow> Receipt \<Rightarrow> step_result" where
  "install_manifest env p ctx s r =
     (let target = manifest_path p ctx;
          existed_before = path_exists s target;
          sha_before = (if existed_before then sha256_of_file env s target else [])
      in (case write_manifest (ce_os env) (ce_codecs env) p ctx s of
            (Inl e, s') \<Rightarrow> ((Inl e, s'), r)
          | (Inr written, s') \<Rightarrow>
              ((Inr (), s'), if cx_dry_run ctx then r else record_write env existed_before sha_before written s' r)))"

definition install_mcp :: "cli_env \<Rightarrow> Platform \<Rightarrow> AdapterContext \<Rightarrow> fs \<Rightarrow> Receipt \<Rightarrow> step_result" where
  "install_mcp env p ctx s r =
     (let target = mcp_config_path p ctx;
          existed_before = path_exists s target;
          sha_before = (if existed_before then sha256_of_file env s target else [])
      in (case write_mcp_config (ce_os env) (ce_codecs env) p ctx s of
            (Inl e, s') \<Rightarrow> ((Inl e, s'), r)
          | (Inr written, s') \<Rightarrow>
              ((Inr (), s'),
               if cx_dry_run ctx then r
               else rc_push (McpRegistered (platform_id p) written) (record_write env existed_before sha_before written s' r))))"

definition install_hooks :: "cli_env \<Rightarrow> Platform \<Rightarrow> AdapterContext \<Rightarrow> fs \<Rightarrow> Receipt \<Rightarrow> step_result" where
  "install_hooks env p ctx s r =
     (case write_hooks (ce_os env) (ce_codecs env) p ctx s of
        (Inl e, s') \<Rightarrow> ((Inl e, s'), r)
      | (Inr None, s') \<Rightarrow> ((Inr (), s'), r)
      | (Inr (Some hooks), s') \<Rightarrow>
          ((Inr (), s'),
           if cx_dry_run ctx then r
           else let sha_after = sha256_of_file env s' hooks in
             (case find_latest_mneme_bak env hooks s' of
                Some backup \<Rightarrow> rc_push (FileModified hooks backup [] sha_after) r
              | None \<Rightarrow> r)))"

definition then_step :: "step_result \<Rightarrow> (fs \<Rightarrow> Receipt \<Rightarrow> step_result) \<Rightarrow> step_result" where
  "then_step m f = (case m of ((Inl e, s), r) \<Rightarrow> ((Inl e, s), r) | ((Inr _, s), r) \<Rightarrow> f s r)"

record skips =
  skip_mcp :: bool
  skip_hooks :: bool
  skip_manifest :: bool

definition install_one :: "cli_env \<Rightarrow> Platform \<Rightarrow> AdapterContext \<Rightarrow> skips \<Rightarrow> fs \<Rightarrow> Receipt \<Rightarrow> step_result" where
  "install_one env p ctx k s r =
     then_step (if skip_manifest k then ((Inr (), s), r) else install_manifest env p ctx s r) (\<lambda>s r.
     then_step (if skip_mcp k then ((Inr (), s), r) else install_mcp env p ctx s r) (\<lambda>s r.
     if skip_hooks k then ((Inr (), s), r) else install_hooks env p ctx s r))"

fun install_each :: "cli_env \<Rightarrow> AdapterContext \<Rightarrow> skips \<Rightarrow> Platform list \<Rightarrow> fs \<Rightarrow> Receipt \<Rightarrow> (Platform \<times> unit cli_result) list \<times> fs \<times> Receipt" where
  "install_each env ctx k [] s r = ([], s, r)"
| "install_each env ctx k (p # ps) s r =
     (case install_one env p ctx k s r of
        ((res, s'), r') \<Rightarrow> (case install_each env ctx k ps s' r' of (report, s'', r'') \<Rightarrow> ((p, res) # report, s'', r'')))"

record install_args =
  ia_platform :: "string option"
  ia_dry_run :: bool
  ia_scope :: string
  ia_project :: "path option"
  ia_force :: bool
  ia_skips :: skips

definition install_targets :: "cli_env \<Rightarrow> string option \<Rightarrow> fs \<Rightarrow> InstallScope \<Rightarrow> path \<Rightarrow> Platform list cli_result" where
  "install_targets env platform s sc root =
     (case platform of
        Some i \<Rightarrow> (case platform_from_id i of Inl e \<Rightarrow> Inl e | Inr p \<Rightarrow> Inr [p])
      | None \<Rightarrow> Inr (detect_installed (ce_home_dir env) s sc root))"

text \<open>The report of the platforms, and what became of the files. A receipt that cannot be saved is only a warning.\<close>

definition install_run :: "cli_env \<Rightarrow> install_args \<Rightarrow> fs \<Rightarrow> (Platform \<times> unit cli_result) list cli_result \<times> fs" where
  "install_run env a s =
     (case InstallScope_from_str (ia_scope a) of
        Inl e \<Rightarrow> (Inl e, s)
      | Inr sc \<Rightarrow>
          let root = (case ia_project a of Some p \<Rightarrow> p | None \<Rightarrow> ce_current_dir env);
              ctx = (AdapterContext_new (ce_home_dir env) sc root)\<lparr>cx_dry_run := ia_dry_run a, cx_force := ia_force a\<rparr>
          in (case install_targets env (ia_platform a) s sc root of
                Inl e \<Rightarrow> (Inl e, s)
              | Inr [] \<Rightarrow> (Inr [], s)
              | Inr targets \<Rightarrow>
                  (case Receipt_new env s of
                     (r0, s0) \<Rightarrow>
                       (case install_each env ctx (ia_skips a) targets s0 r0 of
                          (report, s1, r) \<Rightarrow>
                            (Inr report,
                             if \<not> ia_dry_run a \<and> rc_actions r \<noteq> [] then snd (receipt_save env r s1) else s1)))))"

section \<open>Uninstalling\<close>

text \<open>A failure for one platform is a warning; the other writes go on.\<close>

fun uninstall_each :: "cli_env \<Rightarrow> AdapterContext \<Rightarrow> Platform list \<Rightarrow> fs \<Rightarrow> fs" where
  "uninstall_each env ctx [] s = s"
| "uninstall_each env ctx (p # ps) s =
     (let s1 = snd (remove_manifest (ce_os env) p ctx s);
          s2 = snd (remove_mcp_config (ce_os env) (ce_codecs env) p ctx s1)
      in uninstall_each env ctx ps s2)"

definition uninstall_run :: "cli_env \<Rightarrow> string option \<Rightarrow> bool \<Rightarrow> string \<Rightarrow> path option \<Rightarrow> fs \<Rightarrow> unit cli_result \<times> fs" where
  "uninstall_run env platform dry scope_arg project s =
     (case InstallScope_from_str scope_arg of
        Inl e \<Rightarrow> (Inl e, s)
      | Inr sc \<Rightarrow>
          let root = (case project of Some p \<Rightarrow> p | None \<Rightarrow> ce_current_dir env);
              ctx = (AdapterContext_new (ce_home_dir env) sc root)\<lparr>cx_dry_run := dry\<rparr>
          in (case install_targets env platform s sc root of
                Inl e \<Rightarrow> (Inl e, s)
              | Inr targets \<Rightarrow> (Inr (), uninstall_each env ctx targets s)))"

section \<open>Rolling back\<close>

text \<open>
  The drift check. The hash of a file that cannot be read is empty, and passes.
\<close>

definition drifted :: "cli_env \<Rightarrow> fs \<Rightarrow> path \<Rightarrow> string \<Rightarrow> bool" where
  "drifted env s target sha_after =
     (let current = sha256_of_file env s target in sha_after \<noteq> [] \<and> current \<noteq> sha_after \<and> current \<noteq> [])"

definition rollback_file_modified :: "cli_env \<Rightarrow> path \<Rightarrow> path \<Rightarrow> string \<Rightarrow> fs \<Rightarrow> (string + unit) \<times> fs" where
  "rollback_file_modified env target backup sha_after s =
     (if drifted env s target sha_after
      then (Inl (''file content has changed since install (edited externally) '' @ utf8 [0xE2, 0x80, 0x94] @
        '' refusing to clobber. Compare: '' @ target @ '' vs '' @ backup), s)
      else if \<not> path_exists s backup then (Inl (''backup '' @ backup @ '' missing''), s)
      else (case os_copy (ce_os env) backup target s of
          (Inl e, s') \<Rightarrow> (Inl (''copy '' @ backup @ '' -> '' @ target @ '': '' @ io_text e), s')
        | (Inr _, s') \<Rightarrow> (Inr (), s')))"

definition rollback_file_created :: "cli_env \<Rightarrow> path \<Rightarrow> string \<Rightarrow> fs \<Rightarrow> (string + unit) \<times> fs" where
  "rollback_file_created env target sha_after s =
     (if \<not> path_exists s target then (Inr (), s)
      else if drifted env s target sha_after
      then (Inl (target @ '' was modified after mneme created it '' @ utf8 [0xE2, 0x80, 0x94] @ '' refusing to delete''), s)
      else (case os_remove (ce_os env) target s of
          (Inl e, s') \<Rightarrow> (Inl (''remove '' @ target @ '': '' @ io_text e), s')
        | (Inr _, s') \<Rightarrow> (Inr (), s')))"

definition rollback_path_added :: "string \<Rightarrow> string + unit" where
  "rollback_path_added entry = Inl ''PATH cleanup not implemented on this platform''"

text \<open>The recorded host file is not used: the path is the platform's own, in user scope.\<close>

definition rollback_context :: "cli_env \<Rightarrow> AdapterContext" where
  "rollback_context env = AdapterContext_new (ce_home_dir env) User (ce_current_dir env)"

definition rollback_mcp_entry :: "cli_env \<Rightarrow> string \<Rightarrow> path \<Rightarrow> fs \<Rightarrow> (string + unit) \<times> fs" where
  "rollback_mcp_entry env platform host_file s =
     (case platform_from_id platform of
        Inl e \<Rightarrow> (Inl (cli_error_text (ce_debug_path env) e), s)
      | Inr p \<Rightarrow>
          let ctx = rollback_context env in
          (case remove_mcp_entry (ce_os env) (ce_codecs env) (mcp_config_path p ctx) (mcp_format p) ctx s of
             (Inl e, s') \<Rightarrow> (Inl (cli_error_text (ce_debug_path env) e), s')
           | (Inr _, s') \<Rightarrow> (Inr (), s')))"

definition note_outcome :: "string + unit \<Rightarrow> string \<Rightarrow> string \<Rightarrow> RollbackSummary \<Rightarrow> RollbackSummary" where
  "note_outcome res ok_line what m =
     (case res of
        Inr _ \<Rightarrow> m\<lparr>rs_reversed := rs_reversed m @ [ok_line]\<rparr>
      | Inl e \<Rightarrow> m\<lparr>rs_skipped := rs_skipped m @ [what @ '': '' @ e]\<rparr>)"

fun rollback_action :: "cli_env \<Rightarrow> ReceiptAction \<Rightarrow> fs \<times> RollbackSummary \<Rightarrow> fs \<times> RollbackSummary" where
  "rollback_action env (FileModified p backup sha_before sha_after) (s, m) =
     (case rollback_file_modified env p backup sha_after s of (res, s') \<Rightarrow> (s', note_outcome res (''restored '' @ p) p m))"
| "rollback_action env (FileCreated p sha_after) (s, m) =
     (case rollback_file_created env p sha_after s of (res, s') \<Rightarrow> (s', note_outcome res (''deleted '' @ p) p m))"
| "rollback_action env (PathAdded entry) (s, m) =
     (s, note_outcome (rollback_path_added entry) (''removed PATH entry '' @ entry) (''PATH '' @ entry) m)"
| "rollback_action env (DefenderExcluded p) (s, m) =
     (s, m\<lparr>rs_manual := rs_manual m @ [''Defender exclusion for '' @ p @ '' is still in place '' @ utf8 [0xE2, 0x80, 0x94] @
       '' remove via: Remove-MpPreference -ExclusionPath '' @ quoted p]\<rparr>)"
| "rollback_action env (McpRegistered platform host_file) (s, m) =
     (case rollback_mcp_entry env platform host_file s of
        (res, s') \<Rightarrow> (s', note_outcome res (''removed mneme MCP entry from '' @ host_file) (''MCP '' @ platform) m))"

definition receipt_rollback :: "cli_env \<Rightarrow> Receipt \<Rightarrow> fs \<Rightarrow> RollbackSummary \<times> fs" where
  "receipt_rollback env r s =
     (case fold (rollback_action env) (rev (rc_actions r)) (s, \<lparr>rs_reversed = [], rs_skipped = [], rs_manual = []\<rparr>) of
        (s', m) \<Rightarrow> (m, s'))"

text \<open>
  \<open>mneme rollback\<close>: the newest receipt, or the newest whose file name contains the identifier. Nothing to roll
  back is \<open>None\<close>.
\<close>

definition pick_receipt :: "path list \<Rightarrow> string option \<Rightarrow> path cli_result" where
  "pick_receipt receipts i =
     (case i of
        None \<Rightarrow> Inr (hd receipts)
      | Some i \<Rightarrow>
          (case find (\<lambda>p. case file_name p of Some n \<Rightarrow> str_contains n i | None \<Rightarrow> False) receipts of
             Some p \<Rightarrow> Inr p
           | None \<Rightarrow> Inl (CliOther (''no receipt matching id '' @ quoted i))))"

definition rollback_run :: "cli_env \<Rightarrow> bool \<Rightarrow> string option \<Rightarrow> bool \<Rightarrow> RollbackSummary option act" where
  "rollback_run env listing i dry =
     act_bind (list_receipts env) (\<lambda>receipts.
       if receipts = [] \<or> listing then act_ok None
       else
         act_bind (act_of (pick_receipt receipts i)) (\<lambda>target.
         act_bind (receipt_load env target) (\<lambda>r.
           if dry then act_ok None
           else (\<lambda>s. case receipt_rollback env r s of (m, s') \<Rightarrow> (Inr (Some m), s')))))"

fun describe_action :: "ReceiptAction \<Rightarrow> string" where
  "describe_action (FileModified p backup _ _) = ''restore '' @ p @ '' from '' @ backup"
| "describe_action (FileCreated p _) = ''delete created file '' @ p"
| "describe_action (PathAdded entry) = ''remove PATH entry '' @ entry"
| "describe_action (DefenderExcluded p) = ''print manual Defender-exclusion-removal command for '' @ p"
| "describe_action (McpRegistered platform host_file) = ''remove mneme MCP entry for '' @ platform @ '' from '' @ host_file"

end
