(* ===== verification/Install_Safety.thy ===== *)
theory Install_Safety
  imports Receipts
begin

text \<open>
  What the writes of an installation keep: a dry run changes nothing, a write keeps the text it replaces
  in a backup, and the edits of the registries keep every other server.
\<close>

section \<open>Dry runs\<close>

definition leaves_files :: "'a act \<Rightarrow> bool" where
  "leaves_files m \<longleftrightarrow> (\<forall>s. snd (m s) = s)"

named_theorems leaving \<open>operations that leave the files alone\<close>

lemma leaves_ok [leaving]: "leaves_files (act_ok x)"
  by (simp add: leaves_files_def act_ok_def)

lemma leaves_of [leaving]: "leaves_files (act_of r)"
  by (simp add: leaves_files_def act_of_def)

lemma leaves_skip [leaving]: "\<not> b \<Longrightarrow> leaves_files (act_if b m)"
  by (simp add: act_if_def leaves_ok)

lemma leaves_never [leaving]: "leaves_files (act_if False m)"
  by (simp add: leaves_skip)

lemma leaves_bind [leaving]:
  assumes "leaves_files m" and "\<And>x. leaves_files (f x)"
  shows "leaves_files (act_bind m f)"
proof -
  have "snd (act_bind m f s) = s" for s
  proof (cases "m s")
    case (Pair r s')
    then have "s' = s" using assms(1) by (metis leaves_files_def snd_conv)
    with Pair show ?thesis using assms(2) by (cases r) (simp_all add: act_bind_def leaves_files_def)
  qed
  then show ?thesis by (simp add: leaves_files_def)
qed

lemma leaves_read [leaving]: "leaves_files (read_to_string env p)"
  by (simp add: leaves_files_def read_to_string_def io_act_def split: sum.split)

lemma leaves_read_or [leaving]: "leaves_files (read_or env p d)"
  using leaves_read[of env p] by (simp add: leaves_files_def read_or_def act_ok_def)

lemma leaves_if [leaving]: "leaves_files m \<Longrightarrow> leaves_files n \<Longrightarrow> leaves_files (if b then m else n)"
  by simp

lemma leaves_parent [leaving]: "cx_dry_run ctx \<Longrightarrow> leaves_files (ensure_parent env ctx p)"
  by (auto simp: ensure_parent_def intro: leaving split: option.split)

lemma leaves_write_manifest: "cx_dry_run ctx \<Longrightarrow> leaves_files (write_manifest env c p ctx)"
  by (simp add: write_manifest_def write_marker_manifest_def Let_def leaving)

lemma leaves_edit_json [leaving]: "cx_dry_run ctx \<Longrightarrow> leaves_files (edit_json_file env c p edit ctx)"
  by (simp add: edit_json_file_def leaving)

lemma leaves_write_mcp: "cx_dry_run ctx \<Longrightarrow> leaves_files (write_mcp_config env c p ctx)"
  by (cases "p = Zed"; cases "p = Aider")
    (simp_all add: write_mcp_config_cases write_mcp_config_default_def aider_write_mcp_config_def leaving)

lemma leaves_plain_hook [leaving]: "cx_dry_run ctx \<Longrightarrow> leaves_files (write_plain_hook env dir name body ctx)"
  by (simp add: write_plain_hook_def Let_def leaving)

lemma leaves_write_hooks: "cx_dry_run ctx \<Longrightarrow> leaves_files (write_hooks env c p ctx)"
  by (cases p) (simp_all add: Let_def leaving)

lemma leaves_remove_manifest: "cx_dry_run ctx \<Longrightarrow> leaves_files (remove_manifest env p ctx)"
proof -
  assume "cx_dry_run ctx"
  then have "leaves_files (act_bind (read_to_string env q) (\<lambda>existing. act_if (\<not> cx_dry_run ctx) (backup_then_write env q (remove_block existing))))" for q
    by (simp add: leaving)
  then show ?thesis by (simp add: leaves_files_def remove_manifest_def Let_def)
qed

lemma leaves_remove_mcp: "cx_dry_run ctx \<Longrightarrow> leaves_files (remove_mcp_config env c p ctx)"
proof -
  assume "cx_dry_run ctx"
  then have "leaves_files (remove_mcp_entry env c q f ctx)" for q f by (simp add: remove_mcp_entry_def leaving)
  then show ?thesis by (simp add: leaves_files_def remove_mcp_config_def Let_def)
qed

lemma dry_install_one:
  assumes "cx_dry_run ctx"
  obtains res where "install_one env p ctx k s r = ((res, s), r)"
proof -
  have m: "\<exists>res. install_manifest env p ctx s r = ((res, s), r)" for s r
    using leaves_write_manifest[OF assms, of "ce_os env" "ce_codecs env" p] assms
    by (auto simp: install_manifest_def leaves_files_def Let_def split: prod.split sum.split) (metis snd_conv)+
  have c: "\<exists>res. install_mcp env p ctx s r = ((res, s), r)" for s r
    using leaves_write_mcp[OF assms, of "ce_os env" "ce_codecs env" p] assms
    by (auto simp: install_mcp_def leaves_files_def Let_def split: prod.split sum.split) (metis snd_conv)+
  have h: "\<exists>res. install_hooks env p ctx s r = ((res, s), r)" for s r
    using leaves_write_hooks[OF assms, of "ce_os env" "ce_codecs env" p] assms
    by (auto simp: install_hooks_def leaves_files_def Let_def split: prod.split sum.split option.split) (metis snd_conv)+
  have then_step: "\<exists>res. then_step a f = ((res, s), r)"
    if "\<exists>res. a = ((res, s), r)" "\<exists>res. f s r = ((res, s), r)" for a f
    using that by (auto simp: then_step_def split: sum.split)
  have "\<exists>res. install_one env p ctx k s r = ((res, s), r)"
    unfolding install_one_def by (intro then_step) (use m c h in auto)
  then show thesis using that by blast
qed

lemma dry_install_each: "cx_dry_run ctx \<Longrightarrow> \<exists>report. install_each env ctx k ps s r = (report, s, r)"
proof (induction ps)
  case (Cons p ps)
  then obtain res report where "install_one env p ctx k s r = ((res, s), r)" "install_each env ctx k ps s r = (report, s, r)"
    by (metis dry_install_one)
  then show ?case by simp
qed simp

lemma dry_uninstall_each: "cx_dry_run ctx \<Longrightarrow> uninstall_each env ctx ps s = s"
  by (induction ps) (use leaves_remove_manifest leaves_remove_mcp in \<open>simp_all add: leaves_files_def Let_def\<close>)

text \<open>
  C27: a dry run writes nothing. Whatever platforms are chosen or detected, whatever their files hold and
  whichever calls of the operating system fail, \<open>install --dry-run\<close> leaves every file and directory as it is and
  saves no receipt, and \<open>uninstall --dry-run\<close> changes nothing at all.
\<close>

theorem dry_run_writes_nothing:
  assumes "ia_dry_run a"
  shows "fs_files (snd (install_run env a s)) = fs_files s \<and> fs_dirs (snd (install_run env a s)) = fs_dirs s \<and>
    snd (uninstall_run env platform True sc project s) = s"
proof -
  have "\<exists>report. install_each env (ctx\<lparr>cx_dry_run := True, cx_force := f\<rparr>) k ps s' r = (report, s', r)" for ctx f k ps s' r
    by (rule dry_install_each) simp
  then have each: "\<exists>report. install_each env (ctx\<lparr>cx_dry_run := ia_dry_run a, cx_force := f\<rparr>) k ps s' r = (report, s', r)" for ctx f k ps s' r
    using assms by simp
  have "fs_files (snd (install_run env a s)) = fs_files s \<and> fs_dirs (snd (install_run env a s)) = fs_dirs s"
  proof (cases "InstallScope_from_str (ia_scope a)")
    case (Inr sc)
    define root where "root = (case ia_project a of Some p \<Rightarrow> p | None \<Rightarrow> ce_current_dir env)"
    show ?thesis
    proof (cases "install_targets env (ia_platform a) s sc root")
      case targets: (Inr ts)
      obtain r0 s0 where new: "Receipt_new env s = (r0, s0)" by (cases "Receipt_new env s")
      then have "fs_files s0 = fs_files s" "fs_dirs s0 = fs_dirs s"
        by (auto simp: Receipt_new_def os_now_def Let_def)
      moreover obtain report where
        "install_each env ((AdapterContext_new (ce_home_dir env) sc root)\<lparr>cx_dry_run := ia_dry_run a, cx_force := ia_force a\<rparr>) (ia_skips a) ts s0 r0 =
          (report, s0, r0)"
        using each by blast
      ultimately show ?thesis
        using assms by (cases ts) (simp_all add: install_run_def Inr targets[unfolded root_def] new root_def Let_def)
    qed (simp add: install_run_def Inr root_def Let_def)
  qed (simp add: install_run_def)
  moreover have "snd (uninstall_run env platform True sc project s) = s"
    by (auto simp: uninstall_run_def Let_def dry_uninstall_each split: sum.split)
  ultimately show ?thesis by simp
qed

text \<open>A system without faults and the parameters of the witnesses.\<close>

definition calm_os :: os_env where
  "calm_os = \<lparr>os_fault = (\<lambda>_ _ _. None), os_clock = (\<lambda>_. 0)\<rparr>"

definition plain_codecs :: "(string \<Rightarrow> string + json) \<Rightarrow> (json \<Rightarrow> string) \<Rightarrow> codecs" where
  "plain_codecs parse pretty =
     \<lparr>json_parse = parse, json_pretty = pretty, toml_parse = (\<lambda>_. Inl []), toml_pretty = (\<lambda>_. Inl []), cargo_version = ''0.3.2'',
      sha256_fn = (\<lambda>t. [word_of_nat (length t)])\<rparr>"

definition plain_env :: "codecs \<Rightarrow> cli_env" where
  "plain_env c =
     \<lparr>ce_os = calm_os, ce_codecs = c, ce_receipt_pretty = (\<lambda>_. []), ce_receipt_parse = (\<lambda>_. Inl []), ce_short_id = (\<lambda>_. ''0''),
      ce_home_dir = Some ''/h'', ce_current_dir = ''/w'', ce_debug_path = (\<lambda>_. [])\<rparr>"

definition fs_of :: "(path \<times> string) list \<Rightarrow> fs" where
  "fs_of files = \<lparr>fs_files = files, fs_dirs = [], clock_reads = 0\<rparr>"

theorem dry_run_writes_nothing_witness:
  "fs_files (snd (install_run (plain_env (plain_codecs (\<lambda>_. Inl []) (\<lambda>_. [])))
     \<lparr>ia_platform = None, ia_dry_run = True, ia_scope = ''user'', ia_project = None, ia_force = False,
      ia_skips = \<lparr>skip_mcp = False, skip_hooks = False, skip_manifest = False\<rparr>\<rparr> (fs_of [(''/h/QODER.md'', ''mine'')]))) = [(''/h/QODER.md'', ''mine'')]"
  using dry_run_writes_nothing[of "\<lparr>ia_platform = None, ia_dry_run = True, ia_scope = ''user'', ia_project = None, ia_force = False,
      ia_skips = \<lparr>skip_mcp = False, skip_hooks = False, skip_manifest = False\<rparr>\<rparr>"
      "plain_env (plain_codecs (\<lambda>_. Inl []) (\<lambda>_. []))" "fs_of [(''/h/QODER.md'', ''mine'')]"]
  by (simp add: fs_of_def)

section \<open>Backups\<close>

definition file_at :: "fs \<Rightarrow> path \<Rightarrow> string option" where
  "file_at s p = hm_get (fs_files s) p"

lemma join_on_snoc: "xs \<noteq> [] \<Longrightarrow> join_on c (xs @ [y]) = join_on c xs @ c # y"
  by (induction xs rule: induct_list012) auto

text \<open>A name is its stem, a dot and its extension, or just its stem.\<close>

lemma stem_extension:
  assumes "file_name p = Some n"
  shows "case extension p of None \<Rightarrow> stem_of_name n = n | Some e \<Rightarrow> n = stem_of_name n @ ''.'' @ e"
proof (cases "tl (split_on (CHR ''.'') n) = []")
  case True
  then obtain x where "split_on (CHR ''.'') n = [x]" by (metis list.exhaust_sel split_on_not_Nil)
  then show ?thesis using assms by (simp add: extension_def stem_of_name_def)
next
  case False
  define segs where "segs = split_on (CHR ''.'') n"
  have two: "segs \<noteq> []" "butlast segs \<noteq> []" using False by (auto simp: segs_def) (metis append_butlast_last_id append_Nil list.sel(3) split_on_not_Nil)
  have "n = join_on (CHR ''.'') (butlast segs @ [last segs])"
    using join_split[of "CHR ''.''" n] two(1) by (simp add: segs_def)
  also have "\<dots> = join_on (CHR ''.'') (butlast segs) @ ''.'' @ last segs"
    using join_on_snoc[OF two(2)] by simp
  finally have n: "n = join_on (CHR ''.'') (butlast segs) @ ''.'' @ last segs" .
  obtain a b r where segs: "segs = a # b # r" using False by (cases segs; cases "tl segs") (auto simp: segs_def)
  then have sp: "split_on (CHR ''.'') n = a # b # r" by (simp add: segs_def)
  have "extension p = (if butlast segs = [[]] then None else Some (last segs))"
    by (simp add: extension_def assms sp segs)
  moreover have "stem_of_name n = (if butlast segs = [[]] then n else join_on (CHR ''.'') (butlast segs))"
    by (simp add: stem_of_name_def sp segs)
  ultimately show ?thesis using n by (cases "butlast segs = [[]]") simp_all
qed

text \<open>The names of the backups are longer than the name they are for, and differ from each other.\<close>

definition dir_part :: "path \<Rightarrow> string \<Rightarrow> path" where
  "dir_part p n = take (length (strip_slashes p) - length n) (strip_slashes p)"

lemma length_strip_slashes: "length (strip_slashes p) \<le> length p"
  by (simp add: strip_slashes_def) (metis length_dropWhile_le length_rev)

lemma with_extension_bak:
  assumes "file_name p = Some n" and "suffix \<noteq> []"
    and "e = (case extension p of Some ext \<Rightarrow> if ext \<noteq> [] then ext @ ''.'' @ suffix else suffix | None \<Rightarrow> suffix)"
  shows "with_extension p e =
    dir_part p n @ (case extension p of Some ext \<Rightarrow> if ext = [] then stem_of_name n else n | None \<Rightarrow> n) @ ''.'' @ suffix"
  using stem_extension[OF assms(1)] assms
  by (auto simp: with_extension_def dir_part_def Let_def split: option.splits)

definition backup_base :: "path \<Rightarrow> path" where
  "backup_base p =
     (case file_name p of None \<Rightarrow> [] | Some n \<Rightarrow> dir_part p n @ (case extension p of Some ext \<Rightarrow> if ext = [] then stem_of_name n else n | None \<Rightarrow> n))"

lemma backup_path_eq:
  "file_name p = Some n \<Longrightarrow> backup_path p secs = backup_base p @ ''.mneme-'' @ chrono_like_utc_stamp secs @ ''.bak''"
  using with_extension_bak[of p n "''mneme-'' @ chrono_like_utc_stamp secs @ ''.bak''" "extension_with_mneme_bak p secs"]
  by (cases "extension p") (auto simp: backup_path_def backup_base_def extension_with_mneme_bak_def Let_def split: if_splits)

lemma legacy_path_eq: "file_name p = Some n \<Longrightarrow> legacy_path p = backup_base p @ ''.bak''"
  using with_extension_bak[of p n "''bak''" "extension_with_bak p"]
  by (cases "extension p") (auto simp: legacy_path_def backup_base_def extension_with_bak_def split: if_splits)

lemma length_backup_base:
  assumes "file_name p = Some n"
  shows "length (strip_slashes p) \<le> length (backup_base p) + 1"
proof -
  have "extension p = Some [] \<Longrightarrow> length n = length (stem_of_name n) + 1"
    using stem_extension[OF assms] by (auto dest: arg_cong[where f = length])
  then show ?thesis by (auto simp: backup_base_def assms dir_part_def split: option.split)
qed

lemma longer_with_dot:
  assumes "file_name p = Some n" and "suffix = r @ ''.bak''"
  shows "backup_base p @ suffix \<noteq> p"
proof
  assume eq: "backup_base p @ suffix = p"
  have "last (backup_base p @ suffix) = CHR ''k''" "backup_base p @ suffix \<noteq> []" by (simp_all add: assms(2))
  then have "last p = CHR ''k''" "p \<noteq> []" unfolding eq .
  then have "strip_slashes p = p" by (cases p rule: rev_cases) (simp_all add: strip_slashes_def)
  with length_backup_base[OF assms(1)] arg_cong[OF eq, of length] assms(2) show False by simp
qed

lemma backup_paths_distinct:
  assumes "file_name p = Some n"
  shows "backup_path p secs \<noteq> p" and "legacy_path p \<noteq> p" and "backup_path p secs \<noteq> legacy_path p"
proof -
  show "backup_path p secs \<noteq> p"
    unfolding backup_path_eq[OF assms] by (rule longer_with_dot[OF assms, of _ "''.mneme-'' @ chrono_like_utc_stamp secs"]) simp
  show "legacy_path p \<noteq> p"
    unfolding legacy_path_eq[OF assms] by (rule longer_with_dot[OF assms, of _ "[]"]) simp
  show "backup_path p secs \<noteq> legacy_path p"
    unfolding backup_path_eq[OF assms] legacy_path_eq[OF assms] by (auto dest: arg_cong[where f = length])
qed

lemma file_at_set [simp]: "file_at (set_file q t s) p = (if p = q then Some t else file_at s p)"
  by (simp add: file_at_def set_file_def)

lemma clock_reads_set [simp]: "clock_reads (set_file p t s) = clock_reads s"
  by (simp add: set_file_def)

lemma file_at_left [simp]: "p \<noteq> q \<Longrightarrow> file_at (left_behind q left s) p = file_at s p"
  by (simp add: left_behind_def split: option.split)

lemma file_at_now [simp]: "file_at (s\<lparr>clock_reads := n\<rparr>) p = file_at s p"
  by (simp add: file_at_def)

lemma file_at_copy: "q \<noteq> p \<Longrightarrow> file_at (snd (os_copy env src q s)) p = file_at s p"
  by (auto simp: os_copy_def split: option.split)

text \<open>
  C28: no write loses what it replaces. Whichever calls of the operating system fail, after
  \<open>backup_then_write\<close> the text the file had is in the timestamped backup, or the file itself still has it and the
  caller is told that the backup failed; success means the file has the new text.
\<close>

theorem backup_keeps_old_text:
  assumes "file_name p = Some n" and "file_at s p = Some old"
  shows "case backup_then_write env p new_text s of
      (Inr _, s') \<Rightarrow> file_at s' p = Some new_text \<and> file_at s' (backup_path p (os_clock env (clock_reads s))) = Some old
    | (Inl (BackupFailed q _), s') \<Rightarrow> q = p \<and> file_at s' p = Some old
    | (Inl _, s') \<Rightarrow> file_at s' (backup_path p (os_clock env (clock_reads s))) = Some old"
proof -
  let ?b = "backup_path p (os_clock env (clock_reads s))" and ?s1 = "s\<lparr>clock_reads := clock_reads s + 1\<rparr>"
  note distinct = backup_paths_distinct[OF assms(1)]
  have src: "hm_get (fs_files s) p = Some old" using assms(2) by (simp add: file_at_def)
  then have run: "backup_then_write env p new_text s =
     (case os_copy env p ?b ?s1 of
        (Inl e, s2) \<Rightarrow> (Inl (BackupFailed p (''timestamped backup: '' @ io_text e)), s2)
      | (Inr _, s2) \<Rightarrow> write_file env p new_text (snd (os_copy env ?b (legacy_path p) s2)))"
    by (simp add: backup_then_write_def path_exists_def os_now_def Let_def split: prod.split sum.split)
  show ?thesis
  proof (cases "os_fault env ?s1 OpCopy ?b")
    case (Some x)
    obtain e left where x: "x = (e, left)" by (cases x)
    have "os_copy env p ?b ?s1 = (Inl e, left_behind ?b left ?s1)"
      using Some x src by (simp add: os_copy_def)
    then show ?thesis using assms(2) distinct(1)[symmetric] by (simp add: run)
  next
    case None
    then have "os_copy env p ?b ?s1 = (Inr (), set_file ?b old ?s1)"
      using src by (simp add: os_copy_def)
    moreover define s3 where "s3 = snd (os_copy env ?b (legacy_path p) (set_file ?b old ?s1))"
    ultimately have run': "backup_then_write env p new_text s = write_file env p new_text s3" by (simp add: run)
    have "file_at s3 ?b = Some old"
      unfolding s3_def using file_at_copy[of "legacy_path p" ?b env ?b] distinct(3)[symmetric] by simp
    then show ?thesis
      using distinct(1) unfolding run' write_file_def io_act_def os_write_def
      by (cases "os_fault env s3 OpWrite p") auto
  qed
qed

theorem backup_keeps_old_text_witness:
  "case backup_then_write calm_os ''/h/a.md'' ''new'' (fs_of [(''/h/a.md'', ''mine'')]) of
      (Inr _, s') \<Rightarrow> file_at s' ''/h/a.md'' = Some ''new'' \<and> file_at s' (backup_path ''/h/a.md'' (os_clock calm_os 0)) = Some ''mine''
    | (Inl (BackupFailed q _), s') \<Rightarrow> q = ''/h/a.md'' \<and> file_at s' ''/h/a.md'' = Some ''mine''
    | (Inl _, s') \<Rightarrow> file_at s' (backup_path ''/h/a.md'' (os_clock calm_os 0)) = Some ''mine''"
proof -
  have "file_name ''/h/a.md'' = Some ''a.md''" by (simp add: file_name_def)
  moreover have "file_at (fs_of [(''/h/a.md'', ''mine'')]) ''/h/a.md'' = Some ''mine''" by (simp add: file_at_def fs_of_def)
  moreover have "clock_reads (fs_of files) = 0" for files by (simp add: fs_of_def)
  ultimately show ?thesis
    using backup_keeps_old_text[of "''/h/a.md''" "''a.md''" "fs_of [(''/h/a.md'', ''mine'')]" "''mine''" calm_os "''new''"] by metis
qed

text \<open>A write on a system without faults.\<close>

definition no_faults :: "os_env \<Rightarrow> bool" where
  "no_faults env \<longleftrightarrow> os_fault env = (\<lambda>_ _ _. None)"

lemma calm_no_faults [simp]: "no_faults calm_os"
  by (simp add: no_faults_def calm_os_def)

lemma backup_then_write_calm:
  assumes "no_faults env" and "file_name p = Some n" and "file_at s p = Some old"
  shows "backup_then_write env p t s =
    (Inr (), set_file p t (set_file (legacy_path p) old (set_file (backup_path p (os_clock env (clock_reads s))) old
      (s\<lparr>clock_reads := clock_reads s + 1\<rparr>))))"
proof -
  have "hm_get (fs_files s) p = Some old" using assms(3) by (simp add: file_at_def)
  then show ?thesis
    using assms(1) by (simp add: backup_then_write_def path_exists_def os_now_def os_copy_def no_faults_def write_file_def io_act_def
      os_write_def set_file_def Let_def)
qed

lemma backup_then_write_fresh:
  assumes "no_faults env" and "\<not> path_exists s p"
  shows "backup_then_write env p t s = (Inr (), set_file p t s)"
  using assms by (simp add: backup_then_write_def no_faults_def write_file_def io_act_def os_write_def)

text \<open>
  The snapshot is not kept. Two writes of a file in one second have the same backup name, and the second
  overwrites the first: afterwards no file has the original text but those that had it before. The comment
  says the snapshot is never overwritten; the default installation writes one \<open>AGENTS.md\<close> for many platforms.
\<close>

theorem same_second_loses_original:
  assumes "no_faults env" and "file_name p = Some n" and "file_at s p = Some old"
    and "os_clock env (clock_reads s + 1) = os_clock env (clock_reads s)"
    and "new1 \<noteq> old" and "new2 \<noteq> old"
  shows "file_at (snd (backup_then_write env p new2 (snd (backup_then_write env p new1 s)))) q = Some old
    \<longleftrightarrow> file_at s q = Some old \<and> q \<notin> {p, legacy_path p, backup_path p (os_clock env (clock_reads s))}"
proof -
  define s1 where "s1 = snd (backup_then_write env p new1 s)"
  note distinct = backup_paths_distinct[OF assms(2)]
  have s1: "s1 = set_file p new1 (set_file (legacy_path p) old (set_file (backup_path p (os_clock env (clock_reads s))) old
      (s\<lparr>clock_reads := clock_reads s + 1\<rparr>)))"
    unfolding s1_def backup_then_write_calm[OF assms(1,2,3)] by simp
  have "file_at s1 p = Some new1" "clock_reads s1 = clock_reads s + 1"
    unfolding s1 by simp_all
  then have "snd (backup_then_write env p new2 s1) =
      set_file p new2 (set_file (legacy_path p) new1 (set_file (backup_path p (os_clock env (clock_reads s))) new1 (s1\<lparr>clock_reads := clock_reads s1 + 1\<rparr>)))"
    using backup_then_write_calm[OF assms(1,2), of s1 new1 new2] assms(4) by simp
  then show ?thesis
    using assms(5,6) distinct distinct[symmetric] unfolding s1_def[symmetric] by (simp add: s1)
qed

theorem same_second_loses_original_witness:
  "\<forall>q. file_at (snd (backup_then_write calm_os ''/h/AGENTS.md'' ''b'' (snd (backup_then_write calm_os ''/h/AGENTS.md'' ''a'' (fs_of [(''/h/AGENTS.md'', ''mine'')]))))) q
     \<noteq> Some ''mine''"
proof
  fix q
  have "file_name ''/h/AGENTS.md'' = Some ''AGENTS.md''" by (simp add: file_name_def)
  moreover have "file_at (fs_of [(''/h/AGENTS.md'', ''mine'')]) ''/h/AGENTS.md'' = Some ''mine''" by (simp add: file_at_def fs_of_def)
  ultimately have "file_at (snd (backup_then_write calm_os ''/h/AGENTS.md'' ''b'' (snd (backup_then_write calm_os ''/h/AGENTS.md'' ''a'' (fs_of [(''/h/AGENTS.md'', ''mine'')]))))) q
     = Some ''mine'' \<longleftrightarrow> file_at (fs_of [(''/h/AGENTS.md'', ''mine'')]) q = Some ''mine'' \<and>
       q \<notin> {''/h/AGENTS.md'', legacy_path ''/h/AGENTS.md'', backup_path ''/h/AGENTS.md'' (os_clock calm_os (clock_reads (fs_of [(''/h/AGENTS.md'', ''mine'')])))}"
    by (intro same_second_loses_original) (auto simp: calm_os_def no_faults_def)
  then show "file_at (snd (backup_then_write calm_os ''/h/AGENTS.md'' ''b'' (snd (backup_then_write calm_os ''/h/AGENTS.md'' ''a'' (fs_of [(''/h/AGENTS.md'', ''mine'')]))))) q
     \<noteq> Some ''mine''" by (auto simp: file_at_def fs_of_def)
qed

end
