(* ===== verification/Mcp_Registry.thy ===== *)
theory Mcp_Registry
  imports Platforms
begin

text \<open>
  The three kinds of registries as one interface: putting mneme's server in and taking it out, seen through
  the servers by name and through what else the file holds.
\<close>

section \<open>The interface\<close>

text \<open>
  \<open>lookup\<close> gives the servers of a name, \<open>rest\<close> the other parts of a document; \<open>holds\<close> says that the place for the
  servers is there.
\<close>

locale mcp_registry =
  fixes put :: "'v \<Rightarrow> CliError + 'v"
    and strip :: "'v \<Rightarrow> 'v"
    and lookup :: "'v \<Rightarrow> 'n \<Rightarrow> 'e"
    and rest :: "'v \<Rightarrow> string \<Rightarrow> 'r"
    and holds :: "'v \<Rightarrow> bool"
    and mneme :: 'n
    and entry :: 'e
    and absent :: 'e
  assumes put_lookup: "put v = Inr w \<Longrightarrow> lookup w n = (if n = mneme then entry else lookup v n)"
    and put_rest: "put v = Inr w \<Longrightarrow> rest w = rest v"
    and put_again: "put v = Inr w \<Longrightarrow> put w = Inr w"
    and strip_lookup: "lookup (strip v) n = (if n = mneme then absent else lookup v n)"
    and strip_rest: "rest (strip v) = rest v"
    and strip_put: "put v = Inr w \<Longrightarrow> holds v \<Longrightarrow> lookup v mneme = absent \<Longrightarrow> strip w = v"
begin

text \<open>Taking mneme out after putting it in leaves the other servers and the rest.\<close>

lemma strip_after_put:
  "put v = Inr w \<Longrightarrow> lookup (strip w) n = (if n = mneme then absent else lookup v n) \<and> rest (strip w) = rest v"
  by (simp add: put_lookup put_rest strip_lookup strip_rest)

lemma puts_keep: "put v = Inr w \<Longrightarrow> ((\<lambda>r. case r of Inl e \<Rightarrow> Inl e | Inr x \<Rightarrow> put x) ^^ k) (Inr w) = Inr w"
  by (induction k) (simp_all add: put_again)

lemma strip_puts: "put v = Inr w \<Longrightarrow> holds v \<Longrightarrow> lookup v mneme = absent \<Longrightarrow> put w = Inr x \<Longrightarrow> strip x = v"
  using put_again strip_put by fastforce

end

section \<open>JSON objects\<close>

definition server :: "string \<Rightarrow> json \<Rightarrow> string \<Rightarrow> json option" where
  "server key v name = Option.bind (json_get v key) (\<lambda>s. json_get s name)"

definition json_rest :: "string \<Rightarrow> json \<Rightarrow> string \<Rightarrow> json option" where
  "json_rest key v k = (if k = key then None else json_get v k)"

lemma put_objectE:
  assumes "put_object re key e se v = Inr w"
  obtains obj servers where "v = JObj obj" "entry_or key (JObj []) obj = JObj servers"
    "w = JObj (hm_insert key (JObj (hm_insert ''mneme'' e servers)) obj)"
  using assms by (cases v) (auto split: json.splits)

lemma entry_or_server: "entry_or key (JObj []) obj = JObj servers \<Longrightarrow> server key (JObj obj) n = hm_get servers n"
  by (auto simp: entry_or_def server_def split: option.splits)

lemma server_put: "put_object re key e se v = Inr w \<Longrightarrow> server key w n = (if n = ''mneme'' then Some e else server key v n)"
  by (elim put_objectE) (simp add: entry_or_server, simp add: server_def)

lemma json_rest_put: "put_object re key e se v = Inr w \<Longrightarrow> json_rest key w = json_rest key v"
  by (elim put_objectE) (auto simp: json_rest_def fun_eq_iff)

lemma hm_insert_same: "hm_insert k v (hm_insert k w m) = hm_insert k v m"
  by (induction m) auto

lemma put_object_again: "put_object re key e se v = Inr w \<Longrightarrow> put_object re key e se w = Inr w"
  by (elim put_objectE) (simp add: entry_or_def hm_insert_same)

lemma server_strip: "server ''mcpServers'' (strip_object v) n = (if n = ''mneme'' then None else server ''mcpServers'' v n)"
  by (cases v) (auto simp: server_def split: option.splits json.splits)

lemma json_rest_strip: "json_rest ''mcpServers'' (strip_object v) = json_rest ''mcpServers'' v"
  by (cases v) (auto simp: json_rest_def fun_eq_iff split: option.splits json.splits)

text \<open>Taking out what was put in gives the document back, value for value.\<close>

lemma update_same: "hm_get m k = Some v \<Longrightarrow> hm_insert k v m = m"
  by (induction m) (auto split: if_splits)

lemma delete_new: "hm_get m k = None \<Longrightarrow> hm_remove k (hm_insert k v m) = m"
  by (induction m) (auto simp: AList.delete_eq split: if_splits)

definition json_holds :: "string \<Rightarrow> json \<Rightarrow> bool" where
  "json_holds key v \<longleftrightarrow> json_get v key \<noteq> None"

lemma strip_put_object:
  assumes "put_object re ''mcpServers'' e se v = Inr w" "json_holds ''mcpServers'' v" "server ''mcpServers'' v ''mneme'' = None"
  shows "strip_object w = v"
  using assms
  by (elim put_objectE)
    (auto simp: json_holds_def server_def entry_or_def delete_new hm_insert_same update_same split: option.splits)

section \<open>JSON arrays\<close>

definition entry_name :: "json \<Rightarrow> string option" where
  "entry_name s = Option.bind (json_get s ''name'') as_str"

definition entries_named :: "json \<Rightarrow> string option \<Rightarrow> json list" where
  "entries_named v n = (case json_get v ''mcpServers'' of Some (JArr arr) \<Rightarrow> filter (\<lambda>s. entry_name s = n) arr | _ \<Rightarrow> [])"

lemma named_mneme_iff: "named_mneme s \<longleftrightarrow> entry_name s = Some ''mneme''"
  by (simp add: named_mneme_def entry_name_def)

lemma entry_name_array_entry [simp]: "entry_name array_entry = Some ''mneme''"
  by (simp add: array_entry_def mneme_mcp_entry_def entry_name_def)

lemma put_arrayE:
  assumes "put_array v = Inr w"
  obtains obj arr where "v = JObj obj" "entry_or ''mcpServers'' (JArr []) obj = JArr arr"
    "w = JObj (hm_insert ''mcpServers'' (JArr (filter (Not \<circ> named_mneme) arr @ [array_entry])) obj)"
  using assms by (cases v) (auto split: json.splits)

lemma entry_or_entries: "entry_or ''mcpServers'' (JArr []) obj = JArr arr \<Longrightarrow> entries_named (JObj obj) n = filter (\<lambda>s. entry_name s = n) arr"
  by (auto simp: entry_or_def entries_named_def split: option.splits)

lemma filter_others: "filter (\<lambda>s. entry_name s = n) (filter (Not \<circ> named_mneme) arr) = (if n = Some ''mneme'' then [] else filter (\<lambda>s. entry_name s = n) arr)"
  by (induction arr) (auto simp: named_mneme_iff)

lemma entries_put: "put_array v = Inr w \<Longrightarrow> entries_named w n = (if n = Some ''mneme'' then [array_entry] else entries_named v n)"
  by (elim put_arrayE) (simp add: entry_or_entries, auto simp: entries_named_def filter_others simp del: filter_filter)

lemma rest_put_array: "put_array v = Inr w \<Longrightarrow> json_rest ''mcpServers'' w = json_rest ''mcpServers'' v"
  by (elim put_arrayE) (auto simp: json_rest_def fun_eq_iff)

lemma put_array_again: "put_array v = Inr w \<Longrightarrow> put_array w = Inr w"
  by (elim put_arrayE) (simp add: entry_or_def hm_insert_same named_mneme_iff comp_def)

lemma entries_strip: "entries_named (strip_array v) n = (if n = Some ''mneme'' then [] else entries_named v n)"
  by (cases v) (auto simp: entries_named_def filter_others simp del: filter_filter split: option.splits json.splits)

lemma rest_strip_array: "json_rest ''mcpServers'' (strip_array v) = json_rest ''mcpServers'' v"
  by (cases v) (auto simp: json_rest_def fun_eq_iff split: option.splits json.splits)

lemma strip_put_array:
  assumes "put_array v = Inr w" "json_holds ''mcpServers'' v" "entries_named v (Some ''mneme'') = []"
  shows "strip_array w = v"
proof -
  from assms(1) obtain obj arr where v: "v = JObj obj" and arr: "entry_or ''mcpServers'' (JArr []) obj = JArr arr"
    and w: "w = JObj (hm_insert ''mcpServers'' (JArr (filter (Not \<circ> named_mneme) arr @ [array_entry])) obj)"
    by (rule put_arrayE)
  have get: "hm_get obj ''mcpServers'' = Some (JArr arr)"
    using assms(2) arr by (auto simp: v json_holds_def entry_or_def split: option.splits)
  have none: "\<forall>s \<in> set arr. \<not> named_mneme s"
    using assms(3) by (auto simp: entry_or_entries[OF arr] v filter_empty_conv named_mneme_iff)
  then have "filter (Not \<circ> named_mneme) arr = arr" by (simp add: filter_id_conv)
  then show ?thesis by (simp add: v w named_mneme_iff hm_insert_same update_same[OF get])
qed

section \<open>TOML\<close>

fun toml_get :: "toml \<Rightarrow> string \<Rightarrow> toml option" where
  "toml_get (TTable t) k = hm_get t k"
| "toml_get _ k = None"

definition toml_server :: "toml \<Rightarrow> string \<Rightarrow> toml option" where
  "toml_server v name = Option.bind (toml_get v ''mcp_servers'') (\<lambda>s. toml_get s name)"

definition toml_rest :: "toml \<Rightarrow> string \<Rightarrow> toml option" where
  "toml_rest v k = (if k = ''mcp_servers'' then None else toml_get v k)"

lemma put_tomlE:
  assumes "put_toml v = Inr w"
  obtains root servers where "v = TTable root" "entry_or ''mcp_servers'' (TTable []) root = TTable servers"
    "w = TTable (hm_insert ''mcp_servers'' (TTable (hm_insert ''mneme'' toml_entry servers)) root)"
  using assms by (cases v) (auto split: toml.splits)

lemma entry_or_toml: "entry_or ''mcp_servers'' (TTable []) root = TTable servers \<Longrightarrow> toml_server (TTable root) n = hm_get servers n"
  by (auto simp: entry_or_def toml_server_def split: option.splits)

lemma toml_put: "put_toml v = Inr w \<Longrightarrow> toml_server w n = (if n = ''mneme'' then Some toml_entry else toml_server v n)"
  by (elim put_tomlE) (simp add: entry_or_toml, simp add: toml_server_def)

lemma toml_rest_put: "put_toml v = Inr w \<Longrightarrow> toml_rest w = toml_rest v"
  by (elim put_tomlE) (auto simp: toml_rest_def fun_eq_iff)

lemma put_toml_again: "put_toml v = Inr w \<Longrightarrow> put_toml w = Inr w"
  by (elim put_tomlE) (simp add: entry_or_def hm_insert_same)

lemma toml_strip: "toml_server (strip_toml v) n = (if n = ''mneme'' then None else toml_server v n)"
  by (cases v) (auto simp: toml_server_def split: option.splits toml.splits)

lemma toml_rest_strip: "toml_rest (strip_toml v) = toml_rest v"
  by (cases v) (auto simp: toml_rest_def fun_eq_iff split: option.splits toml.splits)

lemma strip_put_toml:
  assumes "put_toml v = Inr w" "toml_get v ''mcp_servers'' \<noteq> None" "toml_server v ''mneme'' = None"
  shows "strip_toml w = v"
  using assms
  by (elim put_tomlE)
    (auto simp: toml_server_def entry_or_def delete_new hm_insert_same update_same split: option.splits)

section \<open>The registries as files\<close>

datatype registry = RegJson json | RegToml toml

fun put_registry :: "McpFormat \<Rightarrow> registry \<Rightarrow> CliError + registry" where
  "put_registry JsonObject (RegJson v) = map_sum id RegJson
     (put_object ''MCP config root is not a JSON object'' ''mcpServers'' mneme_mcp_entry ''`mcpServers` is not a JSON object'' v)"
| "put_registry JsonArray (RegJson v) = map_sum id RegJson (put_array v)"
| "put_registry Toml (RegToml v) = map_sum id RegToml (put_toml v)"
| "put_registry _ _ = Inl (CliOther [])"

fun strip_registry :: "McpFormat \<Rightarrow> registry \<Rightarrow> registry" where
  "strip_registry JsonObject (RegJson v) = RegJson (strip_object v)"
| "strip_registry JsonArray (RegJson v) = RegJson (strip_array v)"
| "strip_registry Toml (RegToml v) = RegToml (strip_toml v)"
| "strip_registry _ v = v"

fun servers_named :: "McpFormat \<Rightarrow> registry \<Rightarrow> string option \<Rightarrow> registry list" where
  "servers_named JsonObject (RegJson v) (Some n) = (case server ''mcpServers'' v n of Some s \<Rightarrow> [RegJson s] | None \<Rightarrow> [])"
| "servers_named JsonArray (RegJson v) n = map RegJson (entries_named v n)"
| "servers_named Toml (RegToml v) (Some n) = (case toml_server v n of Some s \<Rightarrow> [RegToml s] | None \<Rightarrow> [])"
| "servers_named _ _ _ = []"

fun other_part :: "registry \<Rightarrow> string \<Rightarrow> registry option" where
  "other_part (RegJson v) k = map_option RegJson (json_rest ''mcpServers'' v k)"
| "other_part (RegToml v) k = map_option RegToml (toml_rest v k)"

fun has_servers :: "registry \<Rightarrow> bool" where
  "has_servers (RegJson v) \<longleftrightarrow> json_holds ''mcpServers'' v"
| "has_servers (RegToml v) \<longleftrightarrow> toml_get v ''mcp_servers'' \<noteq> None"

fun mneme_server :: "McpFormat \<Rightarrow> registry" where
  "mneme_server JsonObject = RegJson mneme_mcp_entry"
| "mneme_server JsonArray = RegJson array_entry"
| "mneme_server Toml = RegToml toml_entry"

lemma put_registryE:
  assumes "put_registry fmt v = Inr w"
  obtains x y re se where "fmt = JsonObject" "v = RegJson x" "w = RegJson y"
      "put_object re ''mcpServers'' mneme_mcp_entry se x = Inr y"
      "re = ''MCP config root is not a JSON object''" "se = ''`mcpServers` is not a JSON object''"
    | x y where "fmt = JsonArray" "v = RegJson x" "w = RegJson y" "put_array x = Inr y"
    | x y where "fmt = Toml" "v = RegToml x" "w = RegToml y" "put_toml x = Inr y"
  using assms by (cases "(fmt, v)" rule: put_registry.cases) (auto simp: map_sum_def split: sum.splits)

lemma put_registry_servers:
  "put_registry fmt v = Inr w \<Longrightarrow>
    servers_named fmt w n = (if n = Some ''mneme'' then [mneme_server fmt] else servers_named fmt v n)"
  by (elim put_registryE; cases n) (simp_all add: server_put entries_put toml_put)

lemma put_registry_rest: "put_registry fmt v = Inr w \<Longrightarrow> other_part w = other_part v"
  by (elim put_registryE) (simp_all add: fun_eq_iff json_rest_put rest_put_array toml_rest_put)

lemma put_registry_again: "put_registry fmt v = Inr w \<Longrightarrow> put_registry fmt w = Inr w"
  by (elim put_registryE) (simp_all add: put_object_again put_array_again put_toml_again)

lemma strip_registry_servers:
  "servers_named fmt (strip_registry fmt v) n = (if n = Some ''mneme'' then [] else servers_named fmt v n)"
  by (cases n; cases "(fmt, v)" rule: strip_registry.cases) (simp_all add: server_strip entries_strip toml_strip)

lemma strip_registry_rest: "other_part (strip_registry fmt v) = other_part v"
  by (cases "(fmt, v)" rule: strip_registry.cases)
    (simp_all add: fun_eq_iff json_rest_strip rest_strip_array toml_rest_strip)

lemma strip_put_registry:
  assumes "put_registry fmt v = Inr w" "has_servers v" "servers_named fmt v (Some ''mneme'') = []"
  shows "strip_registry fmt w = v"
  using assms(1)
proof (cases rule: put_registryE)
  case (1 x y re se)
  with assms(2,3) strip_put_object[of re mneme_mcp_entry se x y] show ?thesis by (simp split: option.splits)
next
  case (2 x y)
  with assms(2,3) strip_put_array[of x y] show ?thesis by simp
next
  case (3 x y)
  with assms(2,3) strip_put_toml[of x y] show ?thesis by (simp split: option.splits)
qed

interpretation registries: mcp_registry
  "put_registry fmt" "strip_registry fmt" "servers_named fmt" other_part has_servers "Some ''mneme''" "[mneme_server fmt]" "[]"
  for fmt
  by unfold_locales
    (simp_all add: put_registry_servers put_registry_rest put_registry_again strip_registry_servers strip_registry_rest
      strip_put_registry)

text \<open>Reading and printing a file.\<close>

fun read_registry :: "codecs \<Rightarrow> McpFormat \<Rightarrow> string \<Rightarrow> CliError + registry" where
  "read_registry c JsonObject txt =
     (if trim (strip_bom txt) = [] then Inr (RegJson (JObj [])) else map_sum id RegJson (parse_json c (strip_bom txt)))"
| "read_registry c JsonArray txt =
     (if trim (strip_bom txt) = [] then Inr (RegJson (JObj [(''mcpServers'', JArr [])]))
      else map_sum id RegJson (parse_json c (strip_bom txt)))"
| "read_registry c Toml txt =
     (if trim txt = [] then Inr (RegToml (TTable [])) else map_sum id RegToml (parse_toml c txt))"

fun print_registry :: "codecs \<Rightarrow> registry \<Rightarrow> CliError + string" where
  "print_registry c (RegJson v) = Inr (json_pretty c v @ newline)"
| "print_registry c (RegToml v) = print_toml c v"

text \<open>The codec reads a value it printed: the text is not blank, begins with no byte order mark, and means the value.\<close>

definition reads_back :: "codecs \<Rightarrow> McpFormat \<Rightarrow> registry \<Rightarrow> bool" where
  "reads_back c fmt v \<longleftrightarrow>
     (\<forall>txt. print_registry c v = Inr txt \<longrightarrow>
        trim txt \<noteq> [] \<and> (fmt \<noteq> Toml \<longrightarrow> strip_bom txt = txt) \<and> read_registry c fmt txt = Inr v)"

lemma merge_mcp_registry:
  "merge_mcp c fmt txt =
     (case read_registry c fmt txt of Inl e \<Rightarrow> Inl e | Inr v \<Rightarrow>
     (case put_registry fmt v of Inl e \<Rightarrow> Inl e | Inr w \<Rightarrow> print_registry c w))"
  by (cases fmt)
    (auto simp: merge_mcp_json_object_def merge_mcp_json_array_def merge_mcp_toml_def with_json_def Let_def map_sum_def
      split: sum.split)

lemma strip_mcp_registry:
  assumes "read_registry c fmt txt = Inr v" "trim txt \<noteq> []" "fmt \<noteq> Toml \<longrightarrow> strip_bom txt = txt"
  shows "strip_mcp c fmt txt = print_registry c (strip_registry fmt v)"
  using assms
  by (cases fmt)
    (auto simp: strip_mcp_json_object_def strip_mcp_json_array_def strip_mcp_toml_def with_json_def map_sum_def
      split: sum.splits if_splits)

section \<open>The claim\<close>

text \<open>
  C29: What installing and uninstalling do to a registry file, in each of the three formats. The file is parsed, edited
  and printed anew, so its layout, comments and byte order mark are not kept; its value is edited in place. After the
  installation mneme has its one entry, every other server and every other part has the value it had, and installing
  again writes the same text. Uninstalling then removes that entry and leaves every other server and part; and if the
  file had a place for servers and no entry of mneme before the installation, the text it leaves is the one the
  codec prints for the file as it was. The codec has to read what it printed.
\<close>

theorem registries_edited_in_place:
  assumes "read_registry c fmt txt = Inr v" and "merge_mcp c fmt txt = Inr out"
    and "\<forall>w. put_registry fmt v = Inr w \<longrightarrow> reads_back c fmt w"
  shows "\<exists>w. read_registry c fmt out = Inr w \<and>
    (\<forall>n. servers_named fmt w n = (if n = Some ''mneme'' then [mneme_server fmt] else servers_named fmt v n)) \<and>
    other_part w = other_part v \<and> merge_mcp c fmt out = Inr out \<and>
    (\<exists>u. strip_mcp c fmt out = print_registry c u \<and>
      (\<forall>n. servers_named fmt u n = (if n = Some ''mneme'' then [] else servers_named fmt v n)) \<and> other_part u = other_part v \<and>
      (has_servers v \<and> servers_named fmt v (Some ''mneme'') = [] \<longrightarrow> u = v))"
proof -
  obtain w where w: "put_registry fmt v = Inr w" "print_registry c w = Inr out"
    using assms(1,2) by (auto simp: merge_mcp_registry split: sum.splits)
  then have printed: "read_registry c fmt out = Inr w" "trim out \<noteq> []" "fmt \<noteq> Toml \<longrightarrow> strip_bom out = out"
    using assms(3) unfolding reads_back_def by blast+
  have again: "merge_mcp c fmt out = Inr out"
    using w registries.put_again[OF w(1)] by (simp add: merge_mcp_registry printed(1))
  have strip: "strip_mcp c fmt out = print_registry c (strip_registry fmt w)" by (rule strip_mcp_registry[OF printed])
  show ?thesis
    using printed(1) again strip registries.put_lookup[OF w(1)] registries.put_rest[OF w(1)]
      registries.strip_after_put[OF w(1)] registries.strip_put[OF w(1)]
    by (intro exI[of _ w] conjI exI[of _ "strip_registry fmt w"]) blast+
qed

text \<open>A codec for two values.\<close>

definition demo_registry :: json where
  "demo_registry = JObj [(''mcpServers'', JObj [(''other'', JNull)]), (''theme'', JNull)]"

definition demo_codecs :: codecs where
  "demo_codecs = \<lparr>
     json_parse = (\<lambda>s. if s = ''without'' @ newline then Inr demo_registry
       else if s = ''with'' @ newline then
         Inr (JObj [(''mcpServers'', JObj [(''other'', JNull), (''mneme'', mneme_mcp_entry)]), (''theme'', JNull)])
       else Inl ''expected value''),
     json_pretty = (\<lambda>v. if v = demo_registry then ''without'' else ''with''), toml_parse = (\<lambda>_. Inl []), toml_pretty = (\<lambda>_. Inl []),
     cargo_version = [], sha256_fn = (\<lambda>_. [])\<rparr>"

theorem registries_edited_in_place_witness:
  "merge_mcp demo_codecs JsonObject (''without'' @ newline) = Inr (''with'' @ newline) \<and>
   strip_mcp demo_codecs JsonObject (''with'' @ newline) = Inr (''without'' @ newline)"
proof -
  let ?w = "RegJson (JObj [(''mcpServers'', JObj [(''other'', JNull), (''mneme'', mneme_mcp_entry)]), (''theme'', JNull)])"
  have r: "read_registry demo_codecs JsonObject (''without'' @ newline) = Inr (RegJson demo_registry)"
    by code_simp
  have p: "put_registry JsonObject (RegJson demo_registry) = Inr ?w" by (simp add: demo_registry_def entry_or_def)
  have pr: "print_registry demo_codecs ?w = Inr (''with'' @ newline)"
    by (simp add: demo_codecs_def demo_registry_def)
  have plain: "trim (''with'' @ newline) = ''with''" "strip_bom (''with'' @ newline) = ''with'' @ newline" by code_simp+
  then have "read_registry demo_codecs JsonObject (''with'' @ newline) = Inr ?w"
    by (simp add: parse_json_def) (simp add: demo_codecs_def)
  with pr plain have b: "reads_back demo_codecs JsonObject ?w" by (auto simp: reads_back_def)
  have m: "merge_mcp demo_codecs JsonObject (''without'' @ newline) = Inr (''with'' @ newline)"
    by (simp only: merge_mcp_registry r p pr sum.case)
  have "has_servers (RegJson demo_registry) \<and> servers_named JsonObject (RegJson demo_registry) (Some ''mneme'') = []"
    by (simp add: demo_registry_def json_holds_def server_def)
  moreover have "print_registry demo_codecs (RegJson demo_registry) = Inr (''without'' @ newline)"
    by (simp add: demo_codecs_def)
  ultimately show ?thesis using registries_edited_in_place[OF r m] p b m by auto
qed

end
