(* ===== verification/Rollback.thy ===== *)
theory Rollback
  imports Install_Safety Mcp_Registry
begin

text \<open>
  An installation followed by the rollback of its receipt (\<open>cli/src/receipts.rs\<close>): what is restored and what is
  not.
\<close>

section \<open>Paths in one directory\<close>

definition plain_name :: "string \<Rightarrow> bool" where
  "plain_name n \<longleftrightarrow> n \<noteq> [] \<and> CHR ''/'' \<notin> set n \<and> n \<notin> {''.'', ''..''}"

lemma split_on_snoc: "c \<notin> set n \<Longrightarrow> split_on c (d @ c # n) = split_on c d @ [n]"
proof (induction d)
  case Nil
  have "split_on c n = [n]" using Nil by (induction n) auto
  then show ?case by simp
next
  case (Cons x d)
  then show ?case by (cases "split_on c d") auto
qed

lemma file_name_in:
  assumes "plain_name n"
  shows "file_name (d @ ''/'' @ n) = Some n"
proof -
  let ?segs = "filter (\<lambda>s. s \<noteq> [] \<and> s \<noteq> ''.'') (split_on (CHR ''/'') (d @ ''/'' @ n))"
  have eq: "?segs = filter (\<lambda>s. s \<noteq> [] \<and> s \<noteq> ''.'') (split_on (CHR ''/'') d) @ [n]"
    using assms by (simp add: plain_name_def split_on_snoc)
  then have "?segs \<noteq> []" "last ?segs = n" by simp_all
  then show ?thesis using assms unfolding file_name_def by (cases ?segs) (auto simp: plain_name_def)
qed

lemma strip_slashes_in: "plain_name n \<Longrightarrow> strip_slashes (d @ ''/'' @ n) = d @ ''/'' @ n"
  by (cases n rule: rev_cases) (auto simp: strip_slashes_def plain_name_def)

definition parent_in :: "path \<Rightarrow> path" where
  "parent_in d = (if strip_slashes (d @ ''/'') = [] then ''/'' else strip_slashes (d @ ''/''))"

lemma path_parent_in:
  assumes "plain_name n"
  shows "path_parent (d @ ''/'' @ n) = Some (parent_in d)"
proof -
  have "dropWhile (\<lambda>c. c \<noteq> CHR ''/'') (rev n @ CHR ''/'' # rev d) = CHR ''/'' # rev d"
    using assms by (subst dropWhile_append2) (auto simp: plain_name_def)
  then show ?thesis
    by (simp add: path_parent_def strip_slashes_in[OF assms, simplified] parent_in_def Let_def)
qed

lemma backup_base_in:
  assumes "plain_name n" and "extension (d @ ''/'' @ n) \<noteq> Some []"
  shows "backup_base (d @ ''/'' @ n) = d @ ''/'' @ n"
  using file_name_in[OF assms(1), of d] strip_slashes_in[OF assms(1), of d] assms(2)
  by (auto simp: backup_base_def dir_part_def split: option.split)

lemma show_nat_no_slash: "c \<in> set (show_nat n) \<Longrightarrow> c \<noteq> CHR ''/''"
  using show_nat_digits[of c n] by auto

lemma stamp_no_slash: "CHR ''/'' \<notin> set (chrono_like_utc_stamp secs)"
  by (auto simp: chrono_like_utc_stamp_def pad_def Let_def dest: show_nat_no_slash)

definition backup_name :: "string \<Rightarrow> u64 \<Rightarrow> string" where
  "backup_name n secs = n @ ''.mneme-'' @ chrono_like_utc_stamp secs @ ''.bak''"

lemma plain_backup_name: "plain_name n \<Longrightarrow> plain_name (backup_name n secs)"
  using stamp_no_slash[of secs] by (cases n) (auto simp: backup_name_def plain_name_def)

lemma backup_path_in:
  "plain_name n \<Longrightarrow> extension (d @ ''/'' @ n) \<noteq> Some [] \<Longrightarrow> backup_path (d @ ''/'' @ n) secs = d @ ''/'' @ backup_name n secs"
  by (subst backup_path_eq[OF file_name_in]) (simp_all add: backup_base_in[simplified] backup_name_def)

lemma legacy_path_in:
  "plain_name n \<Longrightarrow> extension (d @ ''/'' @ n) \<noteq> Some [] \<Longrightarrow> legacy_path (d @ ''/'' @ n) = d @ ''/'' @ n @ ''.bak''"
  by (subst legacy_path_eq[OF file_name_in]) (simp_all add: backup_base_in[simplified])

section \<open>Listings\<close>

lemma set_sort_desc [simp]: "set (sort_desc xs) = set xs"
proof -
  have "set (insert_desc x ys) = insert x (set ys)" for x ys by (induction ys) auto
  then show ?thesis by (induction xs) (auto simp: sort_desc_def)
qed

lemma sort_desc_Nil [simp]: "sort_desc xs = [] \<longleftrightarrow> xs = []"
  using set_sort_desc[of xs] by (metis set_empty)

lemma set_map_filter: "y \<in> set (List.map_filter f xs) \<longleftrightarrow> (\<exists>x \<in> set xs. f x = Some y)"
  by (force simp: map_filter_def)

lemma set_dir_entries:
  "m \<in> set (dir_entries s dir) \<longleftrightarrow>
   (\<exists>q. (file_at s q \<noteq> None \<or> q \<in> set (fs_dirs s)) \<and> path_parent q = Some dir \<and> file_name q = Some m)"
proof -
  have "file_at s q \<noteq> None \<longleftrightarrow> q \<in> set (map fst (fs_files s))" for q
    unfolding file_at_def hm_get_iff_keys hm_keys_def ..
  then show ?thesis unfolding dir_entries_def set_map_filter by (auto split: if_splits)
qed

definition bak_prefix :: "string \<Rightarrow> string \<Rightarrow> bool" where
  "bak_prefix n m \<longleftrightarrow> starts_with m (n @ ''.mneme-'') \<or> starts_with m (stem_of_name n @ ''.mneme-'')"

lemma find_latest_in:
  assumes "no_faults (ce_os env)" and "plain_name n"
  shows "find_latest_mneme_bak env (d @ ''/'' @ n) s =
    (case sort_desc (filter (bak_prefix n) (dir_entries s (parent_in d))) of [] \<Rightarrow> None | m # _ \<Rightarrow> Some (path_join (parent_in d) m))"
  using assms file_name_in[OF assms(2), of d]
  by (simp add: find_latest_mneme_bak_def path_parent_in[OF assms(2), simplified] no_faults_def file_stem_def bak_prefix_def[abs_def] Let_def)

lemma find_latest_some:
  assumes "no_faults (ce_os env)" and "plain_name n" and "extension (d @ ''/'' @ n) \<noteq> Some []"
    and "file_at s (backup_path (d @ ''/'' @ n) secs) \<noteq> None"
  obtains b where "find_latest_mneme_bak env (d @ ''/'' @ n) s = Some b"
proof -
  note plain = plain_backup_name[OF assms(2), of secs]
  have "backup_name n secs \<in> set (dir_entries s (parent_in d))"
    using assms(4) path_parent_in[OF plain, of d] file_name_in[OF plain, of d] unfolding set_dir_entries backup_path_in[OF assms(2,3)] by blast
  moreover have "bak_prefix n (backup_name n secs)" by (auto simp: bak_prefix_def backup_name_def starts_with_iff)
  ultimately have "filter (bak_prefix n) (dir_entries s (parent_in d)) \<noteq> []" by (auto simp: filter_empty_conv)
  then show thesis using that by (cases "sort_desc (filter (bak_prefix n) (dir_entries s (parent_in d)))") (auto simp: find_latest_in[OF assms(1,2), simplified])
qed

section \<open>Writes on a system without faults\<close>

lemma ancestors_le: "q \<in> set (ancestors p) \<Longrightarrow> length q \<le> length p"
proof (induction p rule: ancestors.induct)
  case (1 p)
  have mem: "q \<in> set (p # (case path_parent p of None \<Rightarrow> [] | Some u \<Rightarrow> if length u < length p \<and> u \<noteq> [] then ancestors u else []))"
    using 1(2) unfolding ancestors.simps[of p] .
  show ?case
  proof (cases "path_parent p")
    case None
    with mem show ?thesis by simp
  next
    case (Some u)
    with mem 1(1)[OF Some] show ?thesis by (fastforce split: if_splits)
  qed
qed

lemma parent_in_le: "length (parent_in d) \<le> length d + 1"
  using length_strip_slashes[of "d @ ''/''"] by (simp add: parent_in_def)

lemma not_above: "q \<in> set (ancestors (parent_in d)) \<Longrightarrow> n \<noteq> [] \<Longrightarrow> q \<noteq> d @ ''/'' @ n"
  using ancestors_le[of q "parent_in d"] parent_in_le[of d] by (cases n) auto

definition made :: "fs \<Rightarrow> path \<Rightarrow> fs" where
  "made s d = s\<lparr>fs_dirs := List.union (ancestors (parent_in d)) (fs_dirs s)\<rparr>"

lemma file_at_made [simp]: "file_at (made s d) p = file_at s p"
  by (simp add: made_def file_at_def)

lemma fs_dirs_made [simp]: "q \<in> set (fs_dirs (made s d)) \<longleftrightarrow> q \<in> set (ancestors (parent_in d)) \<or> q \<in> set (fs_dirs s)"
  by (simp add: made_def)

lemma clock_reads_made [simp]: "clock_reads (made s d) = clock_reads s"
  by (simp add: made_def)

lemma fs_dirs_set_file [simp]: "fs_dirs (set_file p t s) = fs_dirs s"
  by (simp add: set_file_def)

lemma path_exists_alt: "path_exists s p \<longleftrightarrow> file_at s p \<noteq> None \<or> p \<in> set (fs_dirs s)"
  by (simp add: path_exists_def file_at_def)

lemma path_exists_made: "plain_name n \<Longrightarrow> path_exists (made s d) (d @ ''/'' @ n) = path_exists s (d @ ''/'' @ n)"
  using not_above[of "d @ ''/'' @ n" d n] by (auto simp: path_exists_alt plain_name_def)

text \<open>The state after a write: the file has its new text, and if it was there its old text is in both backups.\<close>

definition written :: "os_env \<Rightarrow> fs \<Rightarrow> path \<Rightarrow> string \<Rightarrow> fs" where
  "written env s p t =
     (case file_at s p of
        None \<Rightarrow> set_file p t s
      | Some old \<Rightarrow> set_file p t (set_file (legacy_path p) old (set_file (backup_path p (os_clock env (clock_reads s))) old
          (s\<lparr>clock_reads := clock_reads s + 1\<rparr>))))"

lemma backup_then_write_written:
  assumes "no_faults env" and "file_name p = Some n" and "p \<notin> set (fs_dirs s)"
  shows "backup_then_write env p t s = (Inr (), written env s p t)"
proof (cases "file_at s p")
  case None
  then show ?thesis using backup_then_write_fresh[OF assms(1), of s p t] assms(3) by (simp add: path_exists_alt written_def)
next
  case (Some old)
  then show ?thesis using backup_then_write_calm[OF assms(1,2) Some] by (simp add: written_def)
qed

lemma file_at_written [simp]: "file_at (written env s p t) p = Some t"
  by (simp add: written_def split: option.split)

lemma fs_dirs_written [simp]: "fs_dirs (written env s p t) = fs_dirs s"
  by (simp add: written_def split: option.split)

lemma file_at_written_other:
  "q \<noteq> p \<Longrightarrow> q \<noteq> legacy_path p \<Longrightarrow> q \<noteq> backup_path p (os_clock env (clock_reads s)) \<Longrightarrow> file_at (written env s p t) q = file_at s q"
  by (simp add: written_def split: option.split)

lemma read_calm: "no_faults env \<Longrightarrow> file_at s p = Some t \<Longrightarrow> read_to_string env p s = (Inr t, s)"
  by (simp add: read_to_string_def io_act_def os_read_def no_faults_def file_at_def)

lemma sha_calm: "no_faults (ce_os env) \<Longrightarrow> file_at s p = Some t \<Longrightarrow> sha256_of_file env s p = hex_lower (sha256_fn (ce_codecs env) t)"
  by (simp add: sha256_of_file_def os_read_def no_faults_def file_at_def)

lemma ensure_parent_calm:
  assumes "no_faults env" and "\<not> cx_dry_run ctx" and "plain_name n"
  shows "ensure_parent env ctx (d @ ''/'' @ n) s = (Inr (), made s d)"
  using assms path_parent_in[OF assms(3), of d]
  by (simp add: ensure_parent_def act_if_def create_dir_all_def io_act_def os_mkdir_all_def no_faults_def made_def)

text \<open>The shape the writes of manifests and registries share.\<close>

lemma edit_file_calm:
  assumes "no_faults env" and "\<not> cx_dry_run ctx" and "plain_name n" and "p = d @ ''/'' @ n" and "p \<notin> set (fs_dirs s)"
    and "edit (case file_at s p of Some t \<Rightarrow> t | None \<Rightarrow> dflt) = Inr new_text"
  shows "act_bind (ensure_parent env ctx p) (\<lambda>_. act_bind (read_or env p dflt) (\<lambda>existing. act_bind (act_of (edit existing)) (\<lambda>t.
      act_if (\<not> cx_dry_run ctx) (backup_then_write env p t)))) s = (Inr (), written env (made s d) p new_text)"
proof -
  have ex: "path_exists (made s d) p \<longleftrightarrow> file_at s p \<noteq> None"
    using path_exists_made[OF assms(3), of s d] assms(4,5) by (simp add: path_exists_alt)
  have "read_or env p dflt (made s d) = (Inr (case file_at s p of Some t \<Rightarrow> t | None \<Rightarrow> dflt), made s d)"
    using ex by (cases "file_at s p") (simp_all add: read_or_def read_calm[OF assms(1)] act_ok_def)
  moreover have "p \<notin> set (fs_dirs (made s d))"
    using assms(5) not_above[of p d n] assms(3,4) by (auto simp: plain_name_def)
  then have "backup_then_write env p new_text (made s d) = (Inr (), written env (made s d) p new_text)"
    using backup_then_write_written[OF assms(1) file_name_in[OF assms(3), of d]] assms(4) by blast
  moreover have "ensure_parent env ctx p s = (Inr (), made s d)"
    unfolding assms(4) by (rule ensure_parent_calm[OF assms(1,2,3)])
  ultimately show ?thesis using assms(2,6) by (simp add: act_bind_def act_of_def act_if_def)
qed

section \<open>The paths of the platforms\<close>

definition clean_dir :: "path \<Rightarrow> bool" where
  "clean_dir d \<longleftrightarrow> d \<noteq> [] \<and> strip_slashes d = d"

lemma clean_dir_end:
  assumes "clean_dir d"
  shows "\<not> ends_with d ''/''"
proof
  assume "ends_with d ''/''"
  then obtain r where "d = r @ ''/''" by (auto simp: ends_with_iff)
  then have "length (strip_slashes d) \<le> length r"
    using length_dropWhile_le[of "\<lambda>c. c = CHR ''/''" "rev r"] by (simp add: strip_slashes_def)
  with assms \<open>d = r @ ''/''\<close> show False by (simp add: clean_dir_def)
qed

lemma path_join_clean: "clean_dir d \<Longrightarrow> plain_name n \<Longrightarrow> path_join d n = d @ ''/'' @ n"
  using clean_dir_end[of d] by (cases n) (auto simp: path_join_def plain_name_def clean_dir_def)

lemma parent_in_clean: "clean_dir d \<Longrightarrow> parent_in d = d"
  using clean_dir_end[of d] by (auto simp: parent_in_def clean_dir_def strip_slashes_def)

lemma clean_dir_in: "plain_name n \<Longrightarrow> clean_dir (d @ ''/'' @ n)"
  using strip_slashes_in[of n d] by (simp add: clean_dir_def)

lemma joins_clean: "clean_dir a \<Longrightarrow> list_all plain_name segs \<Longrightarrow> clean_dir (joins a segs)"
proof (induction segs rule: rev_induct)
  case (snoc x xs)
  then show ?case by (simp add: joins_def path_join_clean clean_dir_in[simplified])
qed (simp add: joins_def)

lemma joins_snoc: "clean_dir a \<Longrightarrow> list_all plain_name (xs @ [x]) \<Longrightarrow> joins a (xs @ [x]) = joins a xs @ ''/'' @ x"
  using joins_clean[of a xs] by (simp add: joins_def path_join_clean)

text \<open>
  The names of the files. A name is fit for backups when its extension is not empty and its other backup is
  not taken for a snapshot.
\<close>

definition fit_name :: "string \<Rightarrow> bool" where
  "fit_name n \<longleftrightarrow> plain_name n \<and> extension (''x/'' @ n) \<noteq> Some [] \<and> \<not> bak_prefix n (n @ ''.bak'')"

definition file_names :: "string list" where
  "file_names = [''AGENTS.md'', ''CLAUDE.md'', ''.windsurfrules'', ''GEMINI.md'', ''CONVENTIONS.md'', ''copilot-instructions.md'',
     ''mneme.md'', ''QODER.md'', ''QWEN.md'', ''.mcp.json'', ''.claude.json'', ''config.toml'', ''mcp.json'', ''mcp_config.json'',
     ''settings.json'', ''config.json'', ''.opencode.json'', ''.aider.conf.yml'']"

lemma fit_file_names: "list_all fit_name file_names"
  by (simp add: file_names_def fit_name_def plain_name_def extension_def file_name_def bak_prefix_def stem_of_name_def)

lemma extension_in: "plain_name n \<Longrightarrow> extension (d @ ''/'' @ n) = extension (''x/'' @ n)"
  using file_name_in[of n d] file_name_in[of n "''x''"] by (simp add: extension_def)

lemma fit_nameD:
  assumes "n \<in> set file_names"
  shows "plain_name n" and "extension (d @ ''/'' @ n) \<noteq> Some []" and "\<not> bak_prefix n (n @ ''.bak'')"
  using fit_file_names assms extension_in[of n d] by (auto simp: list_all_iff fit_name_def)

definition in_clean_dir :: "path \<Rightarrow> bool" where
  "in_clean_dir p \<longleftrightarrow> (\<exists>d n. p = d @ ''/'' @ n \<and> clean_dir d \<and> n \<in> set file_names)"

lemma in_clean_dir_joins:
  "clean_dir a \<Longrightarrow> list_all plain_name (xs @ [x]) \<Longrightarrow> x \<in> set file_names \<Longrightarrow> in_clean_dir (joins a (xs @ [x]))"
  unfolding in_clean_dir_def using joins_snoc[of a xs x] joins_clean[of a xs] by auto

lemma in_clean_dir1: "clean_dir a \<Longrightarrow> x \<in> set file_names \<Longrightarrow> plain_name x \<Longrightarrow> in_clean_dir (joins a [x])"
  using in_clean_dir_joins[of a "[]" x] by simp

lemma in_clean_dir2: "clean_dir a \<Longrightarrow> x \<in> set file_names \<Longrightarrow> plain_name x \<Longrightarrow> plain_name y \<Longrightarrow> in_clean_dir (joins a [y, x])"
  using in_clean_dir_joins[of a "[y]" x] by simp

lemma in_clean_dir3:
  "clean_dir a \<Longrightarrow> x \<in> set file_names \<Longrightarrow> plain_name x \<Longrightarrow> plain_name y \<Longrightarrow> plain_name z \<Longrightarrow> in_clean_dir (joins a [z, y, x])"
  using in_clean_dir_joins[of a "[z, y]" x] by simp

lemmas in_clean_dir_segs = in_clean_dir1 in_clean_dir2 in_clean_dir3

lemma manifest_path_clean:
  assumes "clean_dir (cx_home ctx)" and "clean_dir (cx_project_root ctx)"
  shows "in_clean_dir (manifest_path p ctx)"
proof (cases p)
qed (cases "cx_scope ctx"; use assms in \<open>simp add: agents_md_def scoped_def in_clean_dir_segs file_names_def plain_name_def\<close>)+

lemma path_parent_shorter:
  assumes "path_parent q = Some d"
  shows "length d < length q"
proof -
  define r where "r = strip_slashes q"
  define pre where "pre = rev (dropWhile (\<lambda>c. c \<noteq> CHR ''/'') (rev r))"
  have r: "r \<noteq> []" and d: "d = (if pre = [] then [] else if strip_slashes pre = [] then ''/'' else strip_slashes pre)"
    using assms by (auto simp: path_parent_def r_def pre_def Let_def split: if_splits)
  have "hd (rev r) \<noteq> CHR ''/''" using r hd_dropWhile[of "\<lambda>c. c = CHR ''/''" "rev q"] by (simp add: r_def strip_slashes_def)
  then obtain x xs where "rev r = x # xs" "x \<noteq> CHR ''/''" using r by (cases "rev r") auto
  then have "length pre < length r"
    using length_dropWhile_le[of "\<lambda>c. c \<noteq> CHR ''/''" xs] arg_cong[OF \<open>rev r = x # xs\<close>, of length] by (simp add: pre_def)
  moreover have "length d \<le> length pre" using length_strip_slashes[of pre] by (cases pre) (auto simp: d)
  moreover have "length r \<le> length q" unfolding r_def by (rule length_strip_slashes)
  ultimately show ?thesis by linarith
qed

text \<open>With no snapshot before, the one found afterwards is the one just made.\<close>

lemma find_latest_new:
  assumes calm: "no_faults (ce_os env)" and n: "n \<in> set file_names" and d: "clean_dir d" and p: "p = d @ ''/'' @ n"
    and none: "find_latest_mneme_bak env p s = None" and old: "file_at s p = Some old"
  shows "find_latest_mneme_bak env p (written (ce_os env) (made s d) p t) = Some (backup_path p (os_clock (ce_os env) (clock_reads s)))"
proof -
  let ?s = "written (ce_os env) (made s d) p t" and ?b = "backup_name n (os_clock (ce_os env) (clock_reads s))"
  note plain = fit_nameD(1)[OF n] and ext = fit_nameD(2)[OF n, of d]
  note parents = path_parent_in[of _ d, unfolded parent_in_clean[OF d]]
  have b: "backup_path p (os_clock (ce_os env) (clock_reads s)) = d @ ''/'' @ ?b"
    unfolding p by (rule backup_path_in[OF plain ext])
  have l: "legacy_path p = d @ ''/'' @ n @ ''.bak''" unfolding p by (rule legacy_path_in[OF plain ext])
  have plain_l: "plain_name (n @ ''.bak'')" using plain by (cases n) (auto simp: plain_name_def)
  have before: "\<not> bak_prefix n m" if "m \<in> set (dir_entries s d)" for m
    using none that find_latest_in[OF calm plain, of d s] unfolding p parent_in_clean[OF d]
    by (auto simp: filter_empty_conv split: list.splits)
  have "m = ?b" if m: "m \<in> set (dir_entries ?s d)" "bak_prefix n m" for m
  proof -
    obtain q where q: "file_at ?s q \<noteq> None \<or> q \<in> set (fs_dirs (made s d))" "path_parent q = Some d" "file_name q = Some m"
      using m(1) unfolding set_dir_entries by auto
    have "q \<notin> set (ancestors d)" using ancestors_le[of q d] path_parent_shorter[OF q(2)] by auto
    moreover have "\<not> (file_at s q \<noteq> None \<or> q \<in> set (fs_dirs s))"
      using before[of m] m(2) q(2,3) unfolding set_dir_entries by blast
    ultimately have "file_at ?s q \<noteq> None" "file_at s q = None" using q(1) by (auto simp: parent_in_clean[OF d])
    then have "q = p \<or> q = legacy_path p \<or> q = d @ ''/'' @ ?b"
      using file_at_written_other[of q p "ce_os env" "made s d" t] b by (metis clock_reads_made file_at_made)
    then consider "q = p" | "m = n @ ''.bak''" | "m = ?b"
      using q(3) file_name_in[OF plain_l, of d] file_name_in[OF plain_backup_name[OF plain], of d] unfolding l by auto
    then show ?thesis
      using \<open>file_at s q = None\<close> old m(2) fit_nameD(3)[OF n] by cases auto
  qed
  moreover have "?b \<in> set (dir_entries ?s d)"
  proof -
    have "file_at ?s (backup_path p (os_clock (ce_os env) (clock_reads s))) \<noteq> None" using old by (simp add: written_def)
    then have "file_at ?s (d @ ''/'' @ ?b) \<noteq> None" unfolding b .
    then show ?thesis
      using parents[OF plain_backup_name[OF plain]] file_name_in[OF plain_backup_name[OF plain], of d] unfolding set_dir_entries by blast
  qed
  moreover have "bak_prefix n ?b" by (auto simp: bak_prefix_def backup_name_def starts_with_iff)
  ultimately have "set (sort_desc (filter (bak_prefix n) (dir_entries ?s d))) = {?b}" unfolding set_sort_desc set_filter by blast
  then obtain ms where ms: "sort_desc (filter (bak_prefix n) (dir_entries ?s d)) = ?b # ms"
    by (cases "sort_desc (filter (bak_prefix n) (dir_entries ?s d))") auto
  have "find_latest_mneme_bak env p ?s = Some (path_join d ?b)"
    using find_latest_in[OF calm plain, of d ?s] unfolding p parent_in_clean[OF d] by (simp add: ms[unfolded p, simplified])
  then show ?thesis by (simp add: b path_join_clean[OF d plain_backup_name[OF plain]])
qed

section \<open>Manifests are restored\<close>

lemma in_clean_dirE:
  assumes "in_clean_dir p"
  obtains d n where "p = d @ ''/'' @ n" "clean_dir d" "n \<in> set file_names" "plain_name n" "file_name p = Some n"
  using assms fit_nameD(1) file_name_in unfolding in_clean_dir_def by blast

lemma rollback_one:
  "rc_actions r = [a] \<Longrightarrow> receipt_rollback env r s =
    (case rollback_action env a (s, \<lparr>rs_reversed = [], rs_skipped = [], rs_manual = []\<rparr>) of (s', m) \<Rightarrow> (m, s'))"
  by (simp add: receipt_rollback_def)

lemma not_drifted:
  "no_faults (ce_os env) \<Longrightarrow> file_at s p = Some t \<Longrightarrow> \<not> drifted env s p (hex_lower (sha256_fn (ce_codecs env) t))"
  by (simp add: drifted_def sha_calm)

lemma rollback_modified_calm:
  assumes "no_faults (ce_os env)" and "file_at s p = Some t" and "file_at s b = Some old"
  shows "rollback_file_modified env p b (hex_lower (sha256_fn (ce_codecs env) t)) s = (Inr (), set_file p old s)"
  using not_drifted[OF assms(1,2)] assms(1,3)
  by (simp add: rollback_file_modified_def path_exists_alt os_copy_def no_faults_def file_at_def)

lemma rollback_created_calm:
  assumes "no_faults (ce_os env)" and "file_at s p = Some t"
  shows "rollback_file_created env p (hex_lower (sha256_fn (ce_codecs env) t)) s = (Inr (), s\<lparr>fs_files := hm_remove p (fs_files s)\<rparr>)"
  using not_drifted[OF assms] assms
  by (simp add: rollback_file_created_def path_exists_alt os_remove_def no_faults_def file_at_def)

lemma file_at_remove [simp]: "file_at (s\<lparr>fs_files := hm_remove p (fs_files s)\<rparr>) q = (if q = p then None else file_at s q)"
  by (simp add: file_at_def)

text \<open>What the manifest step of an installation does on a system without faults.\<close>

lemma install_manifest_calm:
  assumes calm: "no_faults (ce_os env)" and dry: "\<not> cx_dry_run ctx" and path: "path = manifest_path p ctx"
    and at: "path = d @ ''/'' @ n" "clean_dir d" "n \<in> set file_names" and dir: "path \<notin> set (fs_dirs s)"
    and new_text: "inject (sha256_fn (ce_codecs env)) (case file_at s path of Some t \<Rightarrow> t | None \<Rightarrow> []) (agents_md_body (ce_codecs env)) path
      (cx_force ctx) = Inr new_text"
  shows "install_manifest env p ctx s r = ((Inr (), written (ce_os env) (made s d) path new_text),
    record_write env (file_at s path \<noteq> None) (case file_at s path of None \<Rightarrow> [] | Some old \<Rightarrow> hex_lower (sha256_fn (ce_codecs env) old)) path
      (written (ce_os env) (made s d) path new_text) r)"
proof -
  have plain: "plain_name n" by (rule fit_nameD(1)[OF at(3)])
  have "write_manifest (ce_os env) (ce_codecs env) p ctx s = (Inr path, written (ce_os env) (made s d) path new_text)"
    using edit_file_calm[OF calm dry plain at(1) dir, of "\<lambda>t. inject (sha256_fn (ce_codecs env)) t (agents_md_body (ce_codecs env)) path (cx_force ctx)",
        OF new_text]
    by (simp add: write_manifest_def write_marker_manifest_def path[symmetric] act_bind_def[of _ "\<lambda>_. act_ok path"] act_ok_def Let_def)
  moreover have "path_exists s path \<longleftrightarrow> file_at s path \<noteq> None" using dir by (simp add: path_exists_alt)
  ultimately show ?thesis
    using dry by (cases "file_at s path") (simp_all add: install_manifest_def path[symmetric] Let_def sha_calm[OF calm])
qed

text \<open>
  C30: a manifest is restored. Installing into a platform's manifest and rolling the receipt back gives the
  manifest its old text, or removes it when there was none, with nothing skipped; of the other files only the
  two backups differ. There are no earlier snapshots and no faults; the installer may find any text it can edit.
\<close>

theorem manifest_restored:
  assumes calm: "no_faults (ce_os env)" and dry: "\<not> cx_dry_run ctx"
    and dirs: "clean_dir (cx_home ctx)" "clean_dir (cx_project_root ctx)"
    and path: "path = manifest_path p ctx" and dir: "path \<notin> set (fs_dirs s)"
    and new_text: "inject (sha256_fn (ce_codecs env)) (case file_at s path of Some t \<Rightarrow> t | None \<Rightarrow> []) (agents_md_body (ce_codecs env)) path
      (cx_force ctx) = Inr new_text"
    and none: "find_latest_mneme_bak env path s = None" and empty: "rc_actions r0 = []"
    and inst: "install_one env p ctx \<lparr>skip_mcp = True, skip_hooks = True, skip_manifest = False\<rparr> s r0 = ((res, s1), r)"
    and roll: "receipt_rollback env r s1 = (summary, s2)"
  shows "res = Inr () \<and> file_at s1 path = Some new_text \<and> file_at s2 path = file_at s path \<and> rs_skipped summary = [] \<and>
    (q \<in> {legacy_path path, backup_path path (os_clock (ce_os env) (clock_reads s))} \<or> q = path \<or> file_at s2 q = file_at s q)"
proof -
  obtain d n where at: "path = d @ ''/'' @ n" "clean_dir d" "n \<in> set file_names" and name: "file_name path = Some n"
    by (rule in_clean_dirE[OF manifest_path_clean[OF dirs, of p, folded path]])
  let ?s = "written (ce_os env) (made s d) path new_text" and ?b = "backup_path path (os_clock (ce_os env) (clock_reads s))"
  note distinct = backup_paths_distinct[OF name]
  have others: "q \<in> {legacy_path path, ?b} \<or> q = path \<or> file_at ?s q = file_at s q"
    using file_at_written_other[of q path "ce_os env" "made s d" new_text] by auto
  note manifest = install_manifest_calm[OF calm dry path at dir new_text]
  show ?thesis
  proof (cases "file_at s path")
    case None
    then have "res = Inr ()" "s1 = ?s" and r: "r = rc_push (FileCreated path (hex_lower (sha256_fn (ce_codecs env) new_text))) r0"
      using inst manifest by (auto simp: install_one_def then_step_def record_write_def Let_def sha_calm[OF calm])
    moreover have "rc_actions r = [FileCreated path (hex_lower (sha256_fn (ce_codecs env) new_text))]" using empty r by (simp add: rc_push_def)
    ultimately show ?thesis
      using roll None others by (cases "q = path") (auto simp: rollback_one rollback_created_calm[OF calm] note_outcome_def)
  next
    case (Some old)
    have "find_latest_mneme_bak env path ?s = Some ?b" by (rule find_latest_new[OF calm at(3,2,1) none Some])
    then obtain sb where "res = Inr ()" "s1 = ?s" and r: "r = rc_push (FileModified path ?b sb (hex_lower (sha256_fn (ce_codecs env) new_text))) r0"
      using inst manifest Some by (auto simp: install_one_def then_step_def record_write_def Let_def sha_calm[OF calm])
    moreover have "rc_actions r = [FileModified path ?b sb (hex_lower (sha256_fn (ce_codecs env) new_text))]" using empty r by (simp add: rc_push_def)
    moreover have "file_at ?s ?b = Some old" using Some distinct by (simp add: written_def)
    ultimately show ?thesis
      using roll Some others by (cases "q = path") (auto simp: rollback_one rollback_modified_calm[OF calm] note_outcome_def)
  qed
qed

definition home_ctx :: AdapterContext where
  "home_ctx = \<lparr>cx_scope = User, cx_home = ''/h'', cx_project_root = ''/w'', cx_dry_run = False, cx_force = False\<rparr>"

definition no_receipt :: Receipt where
  "no_receipt = \<lparr>rc_id = ''0'', rc_mneme_version = ''0.3.2'', rc_installed_at = [], rc_rolled_back_from = None, rc_actions = []\<rparr>"

definition qoder_run :: "cli_env \<Rightarrow> step_result" where
  "qoder_run env = install_one env Qoder home_ctx \<lparr>skip_mcp = True, skip_hooks = True, skip_manifest = False\<rparr>
     (fs_of [(''/h/QODER.md'', ''mine'')]) no_receipt"

theorem manifest_restored_witness:
  "let env = plain_env (plain_codecs (\<lambda>_. Inl []) (\<lambda>_. [])); run = qoder_run env in
    file_at (snd (receipt_rollback env (snd run) (snd (fst run)))) ''/h/QODER.md'' = Some ''mine''"
proof -
  define env where "env = plain_env (plain_codecs (\<lambda>_. Inl []) (\<lambda>_. []))"
  let ?s = "fs_of [(''/h/QODER.md'', ''mine'')]"
  obtain res s1 r where run: "qoder_run env = ((res, s1), r)" by (metis prod.exhaust)
  obtain summary s2 where roll: "receipt_rollback env r s1 = (summary, s2)" by fastforce
  have at: "file_at ?s ''/h/QODER.md'' = Some ''mine''" by (simp add: fs_of_def file_at_def)
  have "find_block ''mine'' = None" by (simp add: find_block_def str_find.simps MARKER_START_PREFIX_def)
  then obtain t where t: "inject (sha256_fn (ce_codecs env)) ''mine'' (agents_md_body (ce_codecs env)) ''/h/QODER.md'' False = Inr t"
    by (simp add: inject_def Let_def)
  have dirs: "clean_dir ''/h''" "clean_dir ''/w''" by (simp_all add: clean_dir_def strip_slashes_def)
  have calm: "no_faults (ce_os env)" by (simp add: env_def plain_env_def)
  have plain: "plain_name ''QODER.md''" by (simp add: plain_name_def)
  have path: "''/h/QODER.md'' = manifest_path Qoder home_ctx"
    by (simp add: scoped_def home_ctx_def joins_def path_join_clean[OF dirs(1) plain])
  have "dir_entries ?s ''/h'' = [''QODER.md'']"
    using file_name_in[OF plain, of "''/h''"] path_parent_in[OF plain, of "''/h''"]
    by (simp add: dir_entries_def fs_of_def parent_in_clean[OF dirs(1)] map_filter_simps)
  then have none: "find_latest_mneme_bak env ''/h/QODER.md'' ?s = None"
    using find_latest_in[OF calm plain, of "''/h''" ?s]
    by (simp add: parent_in_clean[OF dirs(1)] bak_prefix_def stem_of_name_def sort_desc_def)
  have "file_at s2 ''/h/QODER.md'' = file_at ?s ''/h/QODER.md''"
    using manifest_restored[of env home_ctx "''/h/QODER.md''" Qoder ?s t no_receipt res s1 r summary s2] calm path none run[unfolded qoder_run_def] roll t at dirs
    by (simp add: home_ctx_def no_receipt_def fs_of_def)
  then show ?thesis using at by (simp add: Let_def env_def[symmetric] run roll)
qed

section \<open>Registries are not restored\<close>

lemma platform_from_id_id [simp]: "platform_from_id (platform_id p) = Inr p"
  by (cases p) (simp_all add: platform_from_id_def all_known_def eq_ignore_ascii_case_def to_ascii_lowercase_def ascii_lower_def Let_def)

lemma mcp_config_path_clean:
  assumes "clean_dir (cx_home ctx)" and "cx_scope ctx = User"
  shows "in_clean_dir (mcp_config_path p ctx)"
proof -
  have "in_clean_dir (path_join (vscode_user_config_dir ctx) ''mcp.json'')"
    using in_clean_dir_joins[OF assms(1), of "[''.config'', ''Code'', ''User'']" "''mcp.json''"]
    by (simp add: vscode_user_config_dir_def joins_def file_names_def plain_name_def)
  then show ?thesis
    by (cases p) (simp_all add: scoped_def assms zed_settings_path_def in_clean_dir_segs file_names_def plain_name_def)
qed

lemma install_mcp_calm:
  assumes calm: "no_faults (ce_os env)" and dry: "\<not> cx_dry_run ctx" and path: "path = mcp_config_path p ctx"
    and at: "path = d @ ''/'' @ n" "clean_dir d" "n \<in> set file_names" and dir: "path \<notin> set (fs_dirs s)"
    and p: "p \<noteq> Zed" "p \<noteq> Aider"
    and merged: "merge_mcp (ce_codecs env) (mcp_format p) (case file_at s path of Some t \<Rightarrow> t | None \<Rightarrow> empty_config (mcp_format p)) = Inr merged"
  shows "install_mcp env p ctx s r = ((Inr (), written (ce_os env) (made s d) path merged),
    rc_push (McpRegistered (platform_id p) path)
      (record_write env (file_at s path \<noteq> None) (case file_at s path of None \<Rightarrow> [] | Some old \<Rightarrow> hex_lower (sha256_fn (ce_codecs env) old)) path
        (written (ce_os env) (made s d) path merged) r))"
proof -
  have plain: "plain_name n" by (rule fit_nameD(1)[OF at(3)])
  have "write_mcp_config (ce_os env) (ce_codecs env) p ctx s = (Inr path, written (ce_os env) (made s d) path merged)"
    using edit_file_calm[OF calm dry plain at(1) dir, of "merge_mcp (ce_codecs env) (mcp_format p)", OF merged] p
    by (simp add: write_mcp_config_cases(3) write_mcp_config_default_def path[symmetric] act_bind_def[of _ "\<lambda>_. act_ok path"] act_ok_def)
  moreover have "path_exists s path \<longleftrightarrow> file_at s path \<noteq> None" using dir by (simp add: path_exists_alt)
  ultimately show ?thesis
    using dry by (cases "file_at s path") (simp_all add: install_mcp_def path[symmetric] Let_def sha_calm[OF calm])
qed

text \<open>Taking mneme out of the registry again rewrites the file.\<close>

lemma rollback_mcp_calm:
  assumes calm: "no_faults (ce_os env)" and path: "path = mcp_config_path p (rollback_context env)" and name: "file_name path = Some n"
    and there: "file_at s path = Some t" and dir: "path \<notin> set (fs_dirs s)"
    and stripped: "strip_mcp (ce_codecs env) (mcp_format p) t = Inr u"
  shows "rollback_mcp_entry env (platform_id p) host s = (Inr (), written (ce_os env) s path u)"
proof -
  have "remove_mcp_entry (ce_os env) (ce_codecs env) path (mcp_format p) (rollback_context env) s = (Inr (), written (ce_os env) s path u)"
    using read_calm[OF calm there] backup_then_write_written[OF calm name dir] stripped
    by (simp add: remove_mcp_entry_def act_bind_def act_of_def act_if_def rollback_context_def AdapterContext_new_def)
  then show ?thesis by (simp add: rollback_mcp_entry_def path[symmetric] Let_def)
qed

text \<open>
  A registry is never restored. An installation records the write of the registry and then the
  registration; the rollback reverses the registration first and rewrites the file, so the drift check of the
  write finds a text nobody but the rollback edited and refuses. The file keeps the rewritten text: its old
  one is not put back, and a file the installation created is not deleted. For the user's own registries,
  whatever they held, as long as the hashes of the two texts differ.
\<close>

theorem registry_never_restored:
  assumes calm: "no_faults (ce_os env)" and ctx: "ctx = rollback_context env" and home: "clean_dir (cx_home ctx)"
    and path: "path = mcp_config_path p ctx" and dir: "path \<notin> set (fs_dirs s)" and p: "p \<noteq> Zed" "p \<noteq> Aider"
    and merged: "merge_mcp (ce_codecs env) (mcp_format p) (case file_at s path of Some t \<Rightarrow> t | None \<Rightarrow> empty_config (mcp_format p)) = Inr merged"
    and stripped: "strip_mcp (ce_codecs env) (mcp_format p) merged = Inr u"
    and hash: "sha256_fn (ce_codecs env) merged \<noteq> sha256_fn (ce_codecs env) u" "sha256_fn (ce_codecs env) merged \<noteq> []"
      "sha256_fn (ce_codecs env) u \<noteq> []"
    and empty: "rc_actions r0 = []"
    and inst: "install_one env p ctx \<lparr>skip_mcp = False, skip_hooks = True, skip_manifest = True\<rparr> s r0 = ((res, s1), r)"
    and roll: "receipt_rollback env r s1 = (summary, s2)"
  shows "res = Inr () \<and> file_at s1 path = Some merged \<and> file_at s2 path = Some u \<and>
    rs_reversed summary = [''removed mneme MCP entry from '' @ path] \<and> length (rs_skipped summary) = 1"
proof -
  obtain d n where at: "path = d @ ''/'' @ n" "clean_dir d" "n \<in> set file_names" and plain: "plain_name n" and name: "file_name path = Some n"
    by (rule in_clean_dirE[OF mcp_config_path_clean[OF home, of p, folded path]]) (simp add: ctx rollback_context_def AdapterContext_new_def, blast)
  let ?s = "written (ce_os env) (made s d) path merged" and ?sha = "hex_lower (sha256_fn (ce_codecs env) merged)"
  have dry: "\<not> cx_dry_run ctx" by (simp add: ctx rollback_context_def AdapterContext_new_def)
  have "install_one env p ctx \<lparr>skip_mcp = False, skip_hooks = True, skip_manifest = True\<rparr> s r0 =
    ((Inr (), ?s), rc_push (McpRegistered (platform_id p) path)
      (record_write env (file_at s path \<noteq> None) (case file_at s path of None \<Rightarrow> [] | Some old \<Rightarrow> hex_lower (sha256_fn (ce_codecs env) old)) path ?s r0))"
    unfolding install_one_def then_step_def by (simp add: install_mcp_calm[OF calm dry path at dir p merged])
  then have s1: "res = Inr ()" "s1 = ?s" and r: "r = rc_push (McpRegistered (platform_id p) path)
      (record_write env (file_at s path \<noteq> None) (case file_at s path of None \<Rightarrow> [] | Some old \<Rightarrow> hex_lower (sha256_fn (ce_codecs env) old)) path ?s r0)"
    using inst by simp_all
  have dir': "path \<notin> set (fs_dirs ?s)" using dir not_above[of path d n] at(1) plain by (auto simp: plain_name_def)
  have mcp: "rollback_mcp_entry env (platform_id p) path ?s = (Inr (), written (ce_os env) ?s path u)"
    by (rule rollback_mcp_calm[OF calm path[unfolded ctx] name _ dir' stripped]) simp
  have "?sha \<noteq> []" "hex_lower (sha256_fn (ce_codecs env) u) \<noteq> []"
    using hash(2,3) by (metis hex_lower.simps(1) hex_lower_inj)+
  then have drift: "drifted env (written (ce_os env) ?s path u) path ?sha"
    using hash(1) hex_lower_inj by (auto simp: drifted_def sha_calm[OF calm])
  have "\<exists>a. rc_actions r = [a, McpRegistered (platform_id p) path] \<and> (a = FileCreated path ?sha \<or> (\<exists>b sb. a = FileModified path b sb ?sha))"
  proof (cases "file_at s path")
    case None
    then show ?thesis using empty by (simp add: r record_write_def rc_push_def sha_calm[OF calm] Let_def)
  next
    case (Some old)
    then have "file_at ?s (backup_path path (os_clock (ce_os env) (clock_reads s))) \<noteq> None"
      using backup_paths_distinct[OF name] by (simp add: written_def)
    then obtain b where "find_latest_mneme_bak env path ?s = Some b"
      using find_latest_some[OF calm plain fit_nameD(2)[OF at(3), of d]] unfolding at(1) by blast
    then show ?thesis using Some empty by (simp add: r record_write_def rc_push_def sha_calm[OF calm] Let_def)
  qed
  then show ?thesis
    using roll s1 mcp drift
    by (auto simp: receipt_rollback_def note_outcome_def rollback_file_modified_def rollback_file_created_def path_exists_alt)
qed

definition registered_doc :: json where
  "registered_doc = JObj [(''mcpServers'', JObj [(''mneme'', mneme_mcp_entry)])]"

definition toy_env :: cli_env where
  "toy_env = plain_env (plain_codecs (\<lambda>t. Inr (if t = ''{}'' then JObj [] else registered_doc)) (\<lambda>v. if v = registered_doc then ''M'' else ''UU''))"

definition claude_run :: step_result where
  "claude_run = install_one toy_env ClaudeCode (rollback_context toy_env) \<lparr>skip_mcp = False, skip_hooks = True, skip_manifest = True\<rparr>
     (fs_of []) no_receipt"

theorem registry_never_restored_witness:
  "file_at (snd (receipt_rollback toy_env (snd claude_run) (snd (fst claude_run)))) ''/h/.claude.json'' = Some (''UU'' @ newline)"
proof -
  let ?s = "fs_of []" and ?c = "ce_codecs toy_env"
  obtain res s1 r where run: "claude_run = ((res, s1), r)" by (metis prod.exhaust)
  obtain summary s2 where roll: "receipt_rollback toy_env r s1 = (summary, s2)" by fastforce
  have codecs: "json_parse ?c = (\<lambda>t. Inr (if t = ''{}'' then JObj [] else registered_doc))"
    "json_pretty ?c = (\<lambda>v. if v = registered_doc then ''M'' else ''UU'')" "sha256_fn ?c = (\<lambda>t. [word_of_nat (length t)])"
    by (simp_all add: toy_env_def plain_env_def plain_codecs_def)
  have "plain (CHR 0x7B)" "plain (CHR 0x7D)" by (simp_all add: plain_def)
  then have "trim ''{}'' = ''{}''"
    by (simp add: trim_def trim_start_def trim_end_def strip_ws_plain[OF ws_family_tokens(1)] strip_ws_plain[OF ws_family_tokens(2)])
  then have merged: "merge_mcp ?c JsonObject (empty_config JsonObject) = Inr (''M'' @ newline)"
    by (simp add: merge_mcp_json_object_def with_json_def strip_bom_def strip_prefix_def utf8_def parse_json_def codecs entry_or_def registered_doc_def)
  have stripped: "strip_mcp ?c JsonObject (''M'' @ newline) = Inr (''UU'' @ newline)"
    by (simp add: strip_mcp_json_object_def with_json_def strip_bom_def strip_prefix_def utf8_def parse_json_def codecs registered_doc_def newline_def)
  have ctx: "rollback_context toy_env = \<lparr>cx_scope = User, cx_home = ''/h'', cx_project_root = ''/w'', cx_dry_run = False, cx_force = False\<rparr>"
    by (simp add: rollback_context_def AdapterContext_new_def toy_env_def plain_env_def)
  have home: "clean_dir ''/h''" by (simp add: clean_dir_def strip_slashes_def)
  have path: "''/h/.claude.json'' = mcp_config_path ClaudeCode (rollback_context toy_env)"
    by (simp add: ctx scoped_def joins_def path_join_clean[OF home] plain_name_def)
  have "word_of_nat 2 \<noteq> (word_of_nat 3 :: 8 word)" by simp
  then have "file_at s2 ''/h/.claude.json'' = Some (''UU'' @ newline)"
    using registry_never_restored[of toy_env "rollback_context toy_env" "''/h/.claude.json''" ClaudeCode ?s "''M'' @ newline" "''UU'' @ newline"
        no_receipt res s1 r summary s2] path run[unfolded claude_run_def] roll home merged stripped
    by (simp add: ctx codecs fs_of_def file_at_def no_receipt_def newline_def) (simp add: toy_env_def plain_env_def)
  then show ?thesis by (simp add: run roll)
qed

end
