(* ===== verification/Brain_Base.thy ===== *)
theory Brain_Base
  imports Supervisor_Error Leiden "HOL-Library.Multiset"
begin

text \<open>
  What the modules of \<open>brain/src\<close> share: the error type, the order of \<open>f32\<close> values, the stable sort by
  descending score, and little-endian encodings. The order of floats is defined on their bit patterns, as IEEE 754
  has it; sums, products and the other rounded operations are an argument.
\<close>

unbundle bit_operations_syntax

section \<open>Errors\<close>

datatype BrainError =
    ModelMissing path
  | TokenizerMissing path
  | BrainOnnx string
  | BrainEmbedding string
  | BrainTokenizer string
  | BrainStore string
  | BrainIo io_error
  | BrainSerde string
  | BrainBincode string
  | BrainLeiden string
  | BrainLlm string
  | BrainInvalid string
  | ChannelClosed
  | WorkerDown
  | BrainOther string

section \<open>Floats\<close>

record f32_arith =
  fa_add :: "f32 \<Rightarrow> f32 \<Rightarrow> f32"
  fa_sub :: "f32 \<Rightarrow> f32 \<Rightarrow> f32"
  fa_mul :: "f32 \<Rightarrow> f32 \<Rightarrow> f32"
  fa_div :: "f32 \<Rightarrow> f32 \<Rightarrow> f32"
  fa_sqrt :: "f32 \<Rightarrow> f32"
  fa_ln :: "f32 \<Rightarrow> f32"
  fa_of_nat :: "nat \<Rightarrow> f32"

definition f32_zero :: f32 where "f32_zero = 0"
definition f32_half :: f32 where "f32_half = 0x3F000000"
definition f32_one :: f32 where "f32_one = 0x3F800000"
definition f32_epsilon :: f32 where "f32_epsilon = 0x34000000"

definition f32_is_nan :: "f32 \<Rightarrow> bool" where
  "f32_is_nan x \<longleftrightarrow> 0x7F800000 < x AND 0x7FFFFFFF"

text \<open>The sign and the magnitude of a number that is not NaN, as an integer: both zeros are 0.\<close>

definition f32_key :: "f32 \<Rightarrow> int" where
  "f32_key x = (let m = uint (x AND 0x7FFFFFFF) in if bit x 31 then - m else m)"

definition f32_less :: "f32 \<Rightarrow> f32 \<Rightarrow> bool" where
  "f32_less x y \<longleftrightarrow> \<not> f32_is_nan x \<and> \<not> f32_is_nan y \<and> f32_key x < f32_key y"

definition f32_le :: "f32 \<Rightarrow> f32 \<Rightarrow> bool" where
  "f32_le x y \<longleftrightarrow> \<not> f32_is_nan x \<and> \<not> f32_is_nan y \<and> f32_key x \<le> f32_key y"

definition f32_eq :: "f32 \<Rightarrow> f32 \<Rightarrow> bool" where
  "f32_eq x y \<longleftrightarrow> \<not> f32_is_nan x \<and> \<not> f32_is_nan y \<and> f32_key x = f32_key y"

text \<open>\<open>f32::max\<close> gives the operand that is a number; \<open>clamp\<close> keeps NaN.\<close>

definition f32_max :: "f32 \<Rightarrow> f32 \<Rightarrow> f32" where
  "f32_max x y = (if f32_is_nan x then y else if f32_less x y then y else x)"

definition f32_clamp :: "f32 \<Rightarrow> f32 \<Rightarrow> f32 \<Rightarrow> f32" where
  "f32_clamp lo hi x = (if f32_less x lo then lo else if f32_less hi x then hi else x)"

lemma f32_clamp_unit:
  assumes "\<not> f32_is_nan x"
  shows "f32_le f32_zero (f32_clamp f32_zero f32_one x) \<and> f32_le (f32_clamp f32_zero f32_one x) f32_one"
proof -
  have "f32_key f32_zero = 0" "f32_key f32_one = 0x3F800000" "\<not> f32_is_nan f32_zero" "\<not> f32_is_nan f32_one"
    by (simp_all add: f32_key_def f32_zero_def f32_one_def f32_is_nan_def)
  with assms show ?thesis by (auto simp: f32_clamp_def f32_less_def f32_le_def)
qed

section \<open>Sorting by descending score\<close>

text \<open>
  \<open>xs.sort_by(|a, b| b.score.partial_cmp(&a.score).unwrap_or(Equal))\<close>: a stable sort. An element stays behind the
  later ones only if their scores are strictly greater.
\<close>

fun insert_score :: "('a \<Rightarrow> f32) \<Rightarrow> 'a \<Rightarrow> 'a list \<Rightarrow> 'a list" where
  "insert_score score x [] = [x]"
| "insert_score score x (y # ys) =
     (if f32_less (score x) (score y) then y # insert_score score x ys else x # y # ys)"

definition sort_score :: "('a \<Rightarrow> f32) \<Rightarrow> 'a list \<Rightarrow> 'a list" where
  "sort_score score xs = foldr (insert_score score) xs []"

definition no_nan :: "('a \<Rightarrow> f32) \<Rightarrow> 'a list \<Rightarrow> bool" where
  "no_nan score xs \<longleftrightarrow> (\<forall>x \<in> set xs. \<not> f32_is_nan (score x))"

text \<open>The reference: the library's stable sort by the negated score.\<close>

definition rank_key :: "('a \<Rightarrow> f32) \<Rightarrow> 'a \<Rightarrow> int" where
  "rank_key score x = - f32_key (score x)"

lemma mset_insert_score [simp]: "mset (insert_score score x ys) = add_mset x (mset ys)"
  by (induction ys) simp_all

lemma mset_sort_score [simp]: "mset (sort_score score xs) = mset xs"
  by (induction xs) (simp_all add: sort_score_def)

lemma set_sort_score [simp]: "set (sort_score score xs) = set xs"
  by (metis mset_sort_score set_mset_mset)

lemma length_sort_score [simp]: "length (sort_score score xs) = length xs"
  by (metis mset_sort_score size_mset)

lemma sort_score_simps [simp]:
  "sort_score score [] = []" "sort_score score (x # xs) = insert_score score x (sort_score score xs)"
  by (simp_all add: sort_score_def)

lemma insert_score_insort:
  "no_nan score (x # ys) \<Longrightarrow> insert_score score x ys = insort_key (rank_key score) x ys"
  by (induction ys) (auto simp: no_nan_def f32_less_def rank_key_def)

lemma sort_score_sort_key: "no_nan score xs \<Longrightarrow> sort_score score xs = sort_key (rank_key score) xs"
proof (induction xs)
  case (Cons x xs)
  then have "sort_score score xs = sort_key (rank_key score) xs" by (simp add: no_nan_def)
  moreover have "no_nan score (x # sort_key (rank_key score) xs)" using Cons.prems by (simp add: no_nan_def)
  ultimately show ?case by (simp add: insert_score_insort)
qed simp

lemma sort_score_sorted:
  assumes "no_nan score xs"
  shows "sorted_wrt (\<lambda>a b. f32_le (score b) (score a)) (sort_score score xs)"
proof -
  have "sorted (map (rank_key score) (sort_score score xs))"
    by (simp add: sort_score_sort_key[OF assms] sorted_sort_key)
  then have "sorted_wrt (\<lambda>a b. rank_key score a \<le> rank_key score b) (sort_score score xs)"
    by (simp add: sorted_map)
  then show ?thesis
    using assms by (rule_tac sorted_wrt_mono_rel) (auto simp: no_nan_def f32_le_def rank_key_def)
qed

text \<open>Inserting behind the elements that are not greater: what one more element at the end of the list does.\<close>

fun append_insert :: "('a \<Rightarrow> int) \<Rightarrow> 'a \<Rightarrow> 'a list \<Rightarrow> 'a list" where
  "append_insert f x [] = [x]"
| "append_insert f x (y # ys) = (if f y \<le> f x then y # append_insert f x ys else x # y # ys)"

lemma length_append_insert [simp]: "length (append_insert f x ys) = Suc (length ys)"
  by (induction ys) simp_all

lemma insort_append_insert:
  "insort_key f p (append_insert f x ys) = append_insert f x (insort_key f p ys)"
  by (induction ys) auto

lemma sort_key_snoc: "sort_key f (xs @ [x]) = append_insert f x (sort_key f xs)"
  by (induction xs) (simp_all add: insort_append_insert)

lemma take_append_insert_less:
  "n < length ys \<Longrightarrow> f x < f (ys ! n) \<Longrightarrow> take (Suc n) (append_insert f x ys) = append_insert f x (take n ys)"
proof (induction ys arbitrary: n)
  case (Cons y ys)
  then show ?case by (cases n) auto
qed simp

lemma take_append_insert_le:
  "k \<le> length ys \<Longrightarrow> (\<forall>y \<in> set (take k ys). f y \<le> f x) \<Longrightarrow> take k (append_insert f x ys) = take k ys"
proof (induction ys arbitrary: k)
  case (Cons y ys)
  then show ?case by (cases k) auto
qed simp

section \<open>Little-endian encodings\<close>

definition le_bytes :: "nat \<Rightarrow> nat \<Rightarrow> bytes" where
  "le_bytes k n = map (\<lambda>i. word_of_nat (n div 256 ^ i)) [0..<k]"

definition from_le :: "bytes \<Rightarrow> nat" where
  "from_le bs = foldr (\<lambda>b n. unat b + 256 * n) bs 0"

lemma length_le_bytes [simp]: "length (le_bytes k n) = k"
  by (simp add: le_bytes_def)

lemma le_bytes_Suc: "le_bytes (Suc k) n = word_of_nat n # le_bytes k (n div 256)"
  by (simp add: le_bytes_def map_upt_Suc div_mult2_eq del: upt_Suc)

lemma from_le_le_bytes [simp]: "from_le (le_bytes k n) = n mod 256 ^ k"
proof (induction k arbitrary: n)
  case (Suc k)
  have "from_le (le_bytes (Suc k) n) = n mod 256 + 256 * (n div 256 mod 256 ^ k)"
    using Suc.IH[of "n div 256"] by (simp add: from_le_def le_bytes_Suc unsigned_of_nat take_bit_eq_mod)
  also have "\<dots> = n mod (256 * 256 ^ k)" by (simp add: mod_mult2_eq)
  finally show ?case by simp
qed (simp add: from_le_def le_bytes_def)

definition f32_bytes :: "f32 list \<Rightarrow> bytes" where
  "f32_bytes v = concat (map (\<lambda>x. le_bytes 4 (unat x)) v)"

text \<open>\<open>chunks_exact(4)\<close> leaves a rest of less than four bytes out.\<close>

fun f32_chunks :: "bytes \<Rightarrow> f32 list" where
  "f32_chunks (a # b # c # d # bs) = word_of_nat (from_le [a, b, c, d]) # f32_chunks bs"
| "f32_chunks _ = []"

lemma length_f32_bytes [simp]: "length (f32_bytes v) = 4 * length v"
  by (induction v) (simp_all add: f32_bytes_def)

lemma f32_chunks_f32_bytes [simp]: "f32_chunks (f32_bytes v) = v"
proof (induction v)
  case (Cons x v)
  have "le_bytes 4 (unat x) = [word_of_nat (unat x), word_of_nat (unat x div 256), word_of_nat (unat x div 256\<^sup>2),
      word_of_nat (unat x div 256 ^ 3)]"
    by (simp add: le_bytes_def upt_rec)
  moreover have "from_le (le_bytes 4 (unat x)) = unat x"
  proof -
    have "unat x < 256 ^ 4" using unsigned_less[of x] by simp
    then show ?thesis by (simp add: mod_less)
  qed
  ultimately show ?case using Cons.IH by (simp add: f32_bytes_def del: from_le_le_bytes)
qed (simp add: f32_bytes_def)

end
