(* ===== verification/Embed_Store.thy ===== *)
theory Embed_Store
  imports Brain_Base
begin

text \<open>
  The embedding store (\<open>brain/src/embed_store.rs\<close>): vectors in one flat array beside their identifiers, the file
  they are saved to, and the search for the nearest ones. A slice out of range panics, so an operation is
  \<open>None\<close> where it would. Products and sums of floats are an argument.
\<close>

section \<open>State\<close>

definition EMBEDDING_DIM :: nat where "EMBEDDING_DIM = 384"
definition MAGIC :: nat where "MAGIC = 0x44544231"

record embed_state =
  es_ids :: "NodeId list"
  es_vectors :: "f32 list"
  es_dirty :: bool

definition empty_state :: embed_state where
  "empty_state = \<lparr>es_ids = [], es_vectors = [], es_dirty = False\<rparr>"

definition embed_len :: "embed_state \<Rightarrow> nat" where
  "embed_len s = length (es_ids s)"

text \<open>\<open>iter().position(|n| *n == node)\<close>.\<close>

fun position :: "'a \<Rightarrow> 'a list \<Rightarrow> nat option" where
  "position x [] = None"
| "position x (y # ys) = (if y = x then Some 0 else map_option Suc (position x ys))"

definition row_at :: "embed_state \<Rightarrow> nat \<Rightarrow> f32 list option" where
  "row_at s i =
     (let off = i * EMBEDDING_DIM in
      if off + EMBEDDING_DIM \<le> length (es_vectors s) then Some (take EMBEDDING_DIM (drop off (es_vectors s))) else None)"

section \<open>Writing\<close>

definition length_error :: "f32 list \<Rightarrow> BrainError" where
  "length_error v = BrainInvalid
     (''vector length '' @ show_nat (length v) @ '' != EMBEDDING_DIM ('' @ show_nat EMBEDDING_DIM @ '')'')"

definition put_row :: "NodeId \<Rightarrow> f32 list \<Rightarrow> embed_state \<Rightarrow> embed_state option" where
  "put_row node v s =
     (case position node (es_ids s) of
        Some pos \<Rightarrow>
          let off = pos * EMBEDDING_DIM in
          if off + EMBEDDING_DIM \<le> length (es_vectors s) \<and> length v = EMBEDDING_DIM then
            Some (s\<lparr>es_vectors := take off (es_vectors s) @ v @ drop (off + EMBEDDING_DIM) (es_vectors s)\<rparr>)
          else None
      | None \<Rightarrow> Some (s\<lparr>es_ids := es_ids s @ [node], es_vectors := es_vectors s @ v\<rparr>))"

definition upsert :: "NodeId \<Rightarrow> f32 list \<Rightarrow> embed_state \<Rightarrow> ((BrainError + unit) \<times> embed_state) option" where
  "upsert node v s =
     (if length v \<noteq> EMBEDDING_DIM then Some (Inl (length_error v), s)
      else map_option (\<lambda>s'. (Inr (), s'\<lparr>es_dirty := True\<rparr>)) (put_row node v s))"

fun put_rows :: "(NodeId \<times> f32 list) list \<Rightarrow> embed_state \<Rightarrow> embed_state option" where
  "put_rows [] s = Some s"
| "put_rows ((node, v) # items) s = Option.bind (put_row node v s) (put_rows items)"

definition upsert_many :: "(NodeId \<times> f32 list) list \<Rightarrow> embed_state \<Rightarrow> ((BrainError + unit) \<times> embed_state) option" where
  "upsert_many items s =
     (case find (\<lambda>(_, v). length v \<noteq> EMBEDDING_DIM) items of
        Some (_, v) \<Rightarrow> Some (Inl (length_error v), s)
      | None \<Rightarrow> map_option (\<lambda>s'. (Inr (), s'\<lparr>es_dirty := True\<rparr>)) (put_rows items s))"

definition remove_node :: "NodeId \<Rightarrow> embed_state \<Rightarrow> (bool \<times> embed_state) option" where
  "remove_node node s =
     (case position node (es_ids s) of
        Some pos \<Rightarrow>
          let off = pos * EMBEDDING_DIM in
          if off + EMBEDDING_DIM \<le> length (es_vectors s) then
            Some (True, s\<lparr>es_ids := take pos (es_ids s) @ drop (Suc pos) (es_ids s),
              es_vectors := take off (es_vectors s) @ drop (off + EMBEDDING_DIM) (es_vectors s), es_dirty := True\<rparr>)
          else None
      | None \<Rightarrow> Some (False, s))"

section \<open>Memory\<close>

text \<open>
  \<open>Vec::with_capacity\<close> panics when the bytes exceed \<open>isize::MAX\<close>, and the process aborts when they cannot be had;
  whether the allocator has so many bytes is an argument.
\<close>

definition isize_max :: nat where "isize_max = 2 ^ 63 - 1"

definition can_reserve :: "(nat \<Rightarrow> bool) \<Rightarrow> nat \<Rightarrow> nat \<Rightarrow> bool" where
  "can_reserve alloc elem n \<longleftrightarrow> n * elem \<le> isize_max \<and> alloc (n * elem)"

section \<open>The nearest vectors\<close>

record NearestHit =
  hit_node :: NodeId
  hit_score :: f32

definition dot :: "f32_arith \<Rightarrow> f32 list \<Rightarrow> f32 list \<Rightarrow> f32" where
  "dot F row query = foldl (\<lambda>acc (r, q). fa_add F acc (fa_mul F r q)) f32_zero (zip row query)"

definition row_hit :: "f32_arith \<Rightarrow> f32 list \<Rightarrow> NodeId \<Rightarrow> f32 list \<Rightarrow> NearestHit" where
  "row_hit F query node row = \<lparr>hit_node = node, hit_score = dot F row query\<rparr>"

definition heap_push :: "nat \<Rightarrow> NearestHit \<Rightarrow> NearestHit list \<Rightarrow> NearestHit list" where
  "heap_push k hit heap =
     (if length heap < k then sort_score hit_score (heap @ [hit])
      else if heap \<noteq> [] \<and> f32_less (hit_score (last heap)) (hit_score hit) then
        sort_score hit_score (butlast heap @ [hit])
      else heap)"

fun scan :: "f32_arith \<Rightarrow> embed_state \<Rightarrow> f32 list \<Rightarrow> nat \<Rightarrow> nat list \<Rightarrow> NearestHit list \<Rightarrow> NearestHit list option" where
  "scan F s query k [] heap = Some heap"
| "scan F s query k (i # is) heap =
     (case row_at s i of
        None \<Rightarrow> None
      | Some row \<Rightarrow> scan F s query k is (heap_push k (row_hit F query (es_ids s ! i) row) heap))"

text \<open>
  Room for \<open>k + 1\<close> hits is asked for before the scan, however few vectors are stored; the sum wraps at the width of
  \<open>usize\<close>. A hit has 32 bytes: an identifier of 128 bits, a score of 32, and the padding of the alignment.
\<close>

definition hit_size :: nat where "hit_size = 32"

definition nearest :: "(nat \<Rightarrow> bool) \<Rightarrow> f32_arith \<Rightarrow> f32 list \<Rightarrow> nat \<Rightarrow> embed_state \<Rightarrow> NearestHit list option" where
  "nearest alloc F query k s =
     (if length query \<noteq> EMBEDDING_DIM \<or> k = 0 then Some []
      else if es_ids s = [] then Some []
      else if \<not> can_reserve alloc hit_size (Suc k mod 2 ^ 64) then None
      else scan F s query k [0..<length (es_ids s)] [])"

section \<open>The file\<close>

text \<open>The two files of the directory: \<open>index.bin\<close> and \<open>index.bin.tmp\<close>.\<close>

record embed_dir =
  ed_index :: "bytes option"
  ed_tmp :: "bytes option"

fun index_rows :: "embed_state \<Rightarrow> nat list \<Rightarrow> bytes option" where
  "index_rows s [] = Some []"
| "index_rows s (i # is) =
     (case row_at s i of
        None \<Rightarrow> None
      | Some row \<Rightarrow> map_option (\<lambda>bs. le_bytes 16 (unat (es_ids s ! i)) @ f32_bytes row @ bs) (index_rows s is))"

definition index_bytes :: "embed_state \<Rightarrow> bytes option" where
  "index_bytes s =
     map_option (\<lambda>bs. le_bytes 4 MAGIC @ le_bytes 4 EMBEDDING_DIM @ le_bytes 8 (length (es_ids s)) @ bs)
       (index_rows s [0..<length (es_ids s)])"

definition read_exact_n :: "nat \<Rightarrow> bytes \<Rightarrow> (bytes \<times> bytes) option" where
  "read_exact_n n bs = (if length bs < n then None else Some (take n bs, drop n bs))"

definition eof_error :: BrainError where
  "eof_error = BrainIo (IoError UnexpectedEof ''failed to fill whole buffer'')"

definition hex8 :: "nat \<Rightarrow> string" where
  "hex8 m = ''0x'' @ map (\<lambda>i. ''0123456789abcdef'' ! (m div 16 ^ (7 - i) mod 16)) [0..<8]"

primrec read_rows :: "nat \<Rightarrow> bytes \<Rightarrow> BrainError + NodeId list \<times> f32 list" where
  "read_rows 0 bs = Inr ([], [])"
| "read_rows (Suc n) bs =
     (case read_exact_n 16 bs of
        None \<Rightarrow> Inl eof_error
      | Some (b, bs1) \<Rightarrow>
          (case read_exact_n (EMBEDDING_DIM * 4) bs1 of
             None \<Rightarrow> Inl eof_error
           | Some (row, bs2) \<Rightarrow>
               (case read_rows n bs2 of
                  Inl e \<Rightarrow> Inl e
                | Inr (ids, vs) \<Rightarrow> Inr (word_of_nat (from_le b) # ids, f32_chunks row @ vs))))"

text \<open>The product of the count and the dimension wraps.\<close>

definition load_file :: "(nat \<Rightarrow> bool) \<Rightarrow> bytes \<Rightarrow> (BrainError + embed_state) option" where
  "load_file alloc bs =
     (case read_exact_n 4 bs of
        None \<Rightarrow> Some (Inl eof_error)
      | Some (m, bs1) \<Rightarrow>
          if from_le m \<noteq> MAGIC then Some (Inl (BrainStore (''bad magic: '' @ hex8 (from_le m))))
          else (case read_exact_n 4 bs1 of
              None \<Rightarrow> Some (Inl eof_error)
            | Some (d, bs2) \<Rightarrow>
                if from_le d \<noteq> EMBEDDING_DIM then
                  Some (Inl (BrainStore (''dim mismatch: file='' @ show_nat (from_le d) @ '' expected='' @ show_nat EMBEDDING_DIM)))
                else (case read_exact_n 8 bs2 of
                    None \<Rightarrow> Some (Inl eof_error)
                  | Some (c, bs3) \<Rightarrow>
                      let count = from_le c in
                      if \<not> can_reserve alloc 16 count \<or> \<not> can_reserve alloc 4 (count * EMBEDDING_DIM mod 2 ^ 64) then None
                      else Some (case read_rows count bs3 of
                          Inl e \<Rightarrow> Inl e
                        | Inr (ids, vs) \<Rightarrow> Inr \<lparr>es_ids = ids, es_vectors = vs, es_dirty = False\<rparr>))))"

text \<open>The answers of the operating system to the calls of \<open>open\<close> and \<open>flush\<close>; a failing write leaves a prefix.\<close>

record embed_os =
  eo_mkdir :: "io_error option"
  eo_read :: "io_error option"
  eo_create :: "io_error option"
  eo_write :: "(io_error \<times> nat) option"
  eo_remove :: "io_error option"
  eo_rename :: "io_error option"

definition calm_disk :: embed_os where
  "calm_disk = \<lparr>eo_mkdir = None, eo_read = None, eo_create = None, eo_write = None, eo_remove = None, eo_rename = None\<rparr>"

definition open_store :: "embed_os \<Rightarrow> (nat \<Rightarrow> bool) \<Rightarrow> embed_dir \<Rightarrow> (BrainError + embed_state) option" where
  "open_store os alloc d =
     (case eo_mkdir os of
        Some e \<Rightarrow> Some (Inl (BrainIo e))
      | None \<Rightarrow>
          (case ed_index d of
             None \<Rightarrow> Some (Inr empty_state)
           | Some bs \<Rightarrow>
               (case eo_read os of
                  Some _ \<Rightarrow> Some (Inr empty_state)
                | None \<Rightarrow>
                    (case load_file alloc bs of
                       None \<Rightarrow> None
                     | Some (Inl _) \<Rightarrow> Some (Inr empty_state)
                     | Some (Inr s) \<Rightarrow> Some (Inr s)))))"

definition flush_store ::
  "embed_os \<Rightarrow> embed_state \<Rightarrow> embed_dir \<Rightarrow> ((BrainError + unit) \<times> embed_state \<times> embed_dir) option" where
  "flush_store os s d =
     (if \<not> es_dirty s then Some (Inr (), s, d)
      else case eo_create os of
        Some e \<Rightarrow> Some (Inl (BrainIo e), s, d)
      | None \<Rightarrow>
          (case index_bytes s of
             None \<Rightarrow> None
           | Some bs \<Rightarrow>
               (case eo_write os of
                  Some (e, n) \<Rightarrow> Some (Inl (BrainIo e), s, d\<lparr>ed_tmp := Some (take n bs)\<rparr>)
                | None \<Rightarrow>
                    let d1 = d\<lparr>ed_tmp := Some bs\<rparr> in
                    if ed_index d \<noteq> None \<and> eo_remove os \<noteq> None then Some (Inl (BrainIo (the (eo_remove os))), s, d1)
                    else let d2 = d1\<lparr>ed_index := None\<rparr> in
                      (case eo_rename os of
                         Some e \<Rightarrow> Some (Inl (BrainIo e), s, d2)
                       | None \<Rightarrow> Some (Inr (), s\<lparr>es_dirty := False\<rparr>, \<lparr>ed_index = Some bs, ed_tmp = None\<rparr>)))))"

text \<open>
  What the directory holds at the successive moments of a flush of the bytes \<open>bs\<close>, where the process may be
  killed: the temporary file grows, the old file is removed, the temporary one takes its name.
\<close>

definition flush_moments :: "bytes \<Rightarrow> embed_dir \<Rightarrow> embed_dir list" where
  "flush_moments bs d =
     d # map (\<lambda>n. d\<lparr>ed_tmp := Some (take n bs)\<rparr>) [0..<Suc (length bs)] @
     [d\<lparr>ed_tmp := Some bs, ed_index := None\<rparr>, \<lparr>ed_index = Some bs, ed_tmp = None\<rparr>]"

end
