(* ===== verification/Embed_Store_Properties.thy ===== *)
theory Embed_Store_Properties
  imports Embed_Store
begin

text \<open>
  The embedding store implements a map from nodes to vectors: no slice of it is out of range, its writes are the
  updates of the map, the search is the top of a full stable sort, and a flush is read back as it was written.
\<close>

section \<open>Rows of a flat array\<close>

definition chunk :: "nat \<Rightarrow> 'a list \<Rightarrow> nat \<Rightarrow> 'a list" where
  "chunk D vs i = take D (drop (i * D) vs)"

lemma chunk_append: "Suc i * D \<le> length vs \<Longrightarrow> chunk D (vs @ ws) i = chunk D vs i"
  by (simp add: chunk_def)

lemma chunk_behind: "length vs = n * D \<Longrightarrow> length v = D \<Longrightarrow> chunk D (vs @ v) n = v"
  by (simp add: chunk_def)

lemma chunk_prefix: "i < p \<Longrightarrow> p * D \<le> length vs \<Longrightarrow> chunk D (take (p * D) vs @ ws) i = chunk D vs i"
proof -
  assume "i < p" "p * D \<le> length vs"
  then have le: "Suc i * D \<le> p * D" by (intro mult_le_mono) auto
  with \<open>p * D \<le> length vs\<close> have "chunk D (take (p * D) vs @ ws) i = chunk D (take (p * D) vs) i"
    by (intro chunk_append) auto
  also have "\<dots> = chunk D vs i"
    using le by (simp add: chunk_def drop_take min_def)
  finally show ?thesis .
qed

lemma chunk_suffix:
  "length pre = p * D \<Longrightarrow> chunk D (pre @ drop n vs) (p + j) = take D (drop (n + j * D) vs)"
  by (simp add: chunk_def algebra_simps)

lemma chunk_update:
  assumes "Suc p * D \<le> length vs" "length v = D"
  shows "chunk D (take (p * D) vs @ v @ drop (p * D + D) vs) i = (if i = p then v else chunk D vs i)"
proof -
  consider "i < p" | "i = p" | j where "i = Suc p + j"
    by (metis less_imp_Suc_add linorder_neqE_nat add_Suc)
  then show ?thesis
  proof cases
    case 1
    with assms show ?thesis by (simp add: chunk_prefix)
  next
    case 2
    with assms show ?thesis by (simp add: chunk_def)
  next
    case (3 j)
    with assms chunk_suffix[of "take (p * D) vs @ v" "Suc p" D "p * D + D" vs j]
    show ?thesis by (simp add: chunk_def algebra_simps)
  qed
qed

lemma chunk_delete:
  assumes "Suc p * D \<le> length vs"
  shows "chunk D (take (p * D) vs @ drop (p * D + D) vs) i = (if i < p then chunk D vs i else chunk D vs (Suc i))"
proof (cases "i < p")
  case True
  with assms show ?thesis by (simp add: chunk_prefix)
next
  case False
  then obtain j where "i = p + j" using le_Suc_ex not_less by blast
  with assms chunk_suffix[of "take (p * D) vs" p D "p * D + D" vs j]
  show ?thesis by (simp add: chunk_def algebra_simps)
qed

section \<open>Well-formed stores and the map they hold\<close>

definition es_wf :: "embed_state \<Rightarrow> bool" where
  "es_wf s \<longleftrightarrow> length (es_vectors s) = length (es_ids s) * EMBEDDING_DIM \<and> distinct (es_ids s)"

definition es_rows :: "embed_state \<Rightarrow> f32 list list" where
  "es_rows s = map (chunk EMBEDDING_DIM (es_vectors s)) [0..<length (es_ids s)]"

definition es_abs :: "embed_state \<Rightarrow> NodeId \<rightharpoonup> f32 list" where
  "es_abs s = map_of (zip (es_ids s) (es_rows s))"

lemma length_es_rows [simp]: "length (es_rows s) = length (es_ids s)"
  by (simp add: es_rows_def)

lemma row_at_chunk:
  assumes "es_wf s" "i < length (es_ids s)"
  shows "row_at s i = Some (es_rows s ! i)" "length (es_rows s ! i) = EMBEDDING_DIM"
proof -
  have "Suc i * EMBEDDING_DIM \<le> length (es_vectors s)"
    using assms unfolding es_wf_def by (metis Suc_leI mult_le_mono1)
  with assms show "row_at s i = Some (es_rows s ! i)" "length (es_rows s ! i) = EMBEDDING_DIM"
    by (simp_all add: row_at_def es_rows_def chunk_def algebra_simps)
qed

lemma position_Some: "position x xs = Some p \<Longrightarrow> p < length xs \<and> xs ! p = x \<and> x \<notin> set (take p xs)"
  by (induction xs arbitrary: p) (auto split: if_splits)

lemma position_None [simp]: "position x xs = None \<longleftrightarrow> x \<notin> set xs"
  by (induction xs) auto

lemma map_of_zip_update:
  "position x xs = Some p \<Longrightarrow> length ys = length xs \<Longrightarrow> map_of (zip xs (ys[p := y])) = (map_of (zip xs ys))(x \<mapsto> y)"
proof (induction xs arbitrary: ys p)
  case (Cons a xs)
  then obtain b bs where "ys = b # bs" by (cases ys) auto
  with Cons show ?case by (auto split: if_splits simp: fun_upd_twist)
qed simp

lemma map_of_zip_delete:
  "position x xs = Some p \<Longrightarrow> length ys = length xs \<Longrightarrow> distinct xs \<Longrightarrow>
   map_of (zip (take p xs @ drop (Suc p) xs) (take p ys @ drop (Suc p) ys)) = (map_of (zip xs ys))(x := None)"
proof (induction xs arbitrary: ys p)
  case (Cons a xs)
  then obtain b bs where "ys = b # bs" by (cases ys) auto
  moreover have "map_of (zip xs bs) a = None"
    using Cons.prems calculation dom_map_of_zip[of xs bs] by (auto simp: domIff[symmetric])
  ultimately show ?case
    using Cons by (auto split: if_splits simp: fun_upd_twist fun_upd_idem)
qed simp

lemma put_row_abs:
  assumes wf: "es_wf s" and v: "length v = EMBEDDING_DIM"
  obtains s' where "put_row node v s = Some s'" "es_wf s'" "es_abs s' = (es_abs s)(node \<mapsto> v)" "es_dirty s' = es_dirty s"
proof (cases "position node (es_ids s)")
  case None
  let ?s = "s\<lparr>es_ids := es_ids s @ [node], es_vectors := es_vectors s @ v\<rparr>"
  have "es_rows ?s = es_rows s @ [v]"
  proof -
    have "map (chunk EMBEDDING_DIM (es_vectors s @ v)) [0..<length (es_ids s)] = es_rows s"
      using wf unfolding es_rows_def es_wf_def
      by (intro map_cong chunk_append) (auto simp: Suc_leI mult_le_mono1 simp del: mult_Suc)
    with wf v show ?thesis by (simp add: es_rows_def chunk_behind es_wf_def)
  qed
  moreover have "dom (es_abs s) \<inter> dom [node \<mapsto> v] = {}"
    using None by (simp add: es_abs_def dom_map_of_zip)
  ultimately have "es_abs ?s = (es_abs s)(node \<mapsto> v)"
    using map_add_comm[of "es_abs s" "[node \<mapsto> v]"] by (simp add: es_abs_def)
  moreover have "node \<notin> set (es_ids s)" using None by simp
  ultimately show ?thesis
    using None wf v by (intro that[of ?s]) (auto simp: put_row_def es_wf_def simp del: position_None)
next
  case (Some p)
  note p = position_Some[OF Some]
  have le: "Suc p * EMBEDDING_DIM \<le> length (es_vectors s)"
    using wf p unfolding es_wf_def by (metis Suc_leI mult_le_mono1)
  let ?o = "p * EMBEDDING_DIM"
  let ?s = "s\<lparr>es_vectors := take ?o (es_vectors s) @ v @ drop (?o + EMBEDDING_DIM) (es_vectors s)\<rparr>"
  have "es_rows ?s = (es_rows s)[p := v]"
    using le v by (intro nth_equalityI) (auto simp: es_rows_def chunk_update nth_list_update simp del: mult_Suc)
  then have "es_abs ?s = (es_abs s)(node \<mapsto> v)"
    using map_of_zip_update[OF Some, of "es_rows s" v] by (simp add: es_abs_def)
  with Some le wf v show ?thesis
    by (intro that[of ?s]) (auto simp: put_row_def es_wf_def Let_def)
qed

lemma put_rows_abs:
  assumes "es_wf s" "\<forall>(node, v) \<in> set items. length v = EMBEDDING_DIM"
  obtains s' where "put_rows items s = Some s'" "es_wf s'" "es_abs s' = es_abs s ++ map_of (rev items)"
  using assms
proof (induction items arbitrary: s thesis)
  case (Cons item items)
  obtain node v where item: "item = (node, v)" by (cases item)
  then have "length v = EMBEDDING_DIM" using Cons.prems(3) by simp
  then obtain s1 where s1: "put_row node v s = Some s1" "es_wf s1" "es_abs s1 = (es_abs s)(node \<mapsto> v)"
    using put_row_abs[OF Cons.prems(2)] by metis
  obtain s2 where "put_rows items s1 = Some s2" "es_wf s2" "es_abs s2 = es_abs s1 ++ map_of (rev items)"
    using Cons.IH[of s1] s1(2) Cons.prems(3) by auto
  with s1 item show ?case by (intro Cons.prems(1)[of s2]) (auto simp: map_add_assoc[symmetric])
qed simp

lemma es_wf_dirty [simp]: "es_wf (s\<lparr>es_dirty := b\<rparr>) = es_wf s"
  by (simp add: es_wf_def)

lemma es_abs_dirty [simp]: "es_abs (s\<lparr>es_dirty := b\<rparr>) = es_abs s"
  by (simp add: es_abs_def es_rows_def)

lemma remove_abs:
  assumes wf: "es_wf s"
  obtains s' where "remove_node node s = Some (node \<in> dom (es_abs s), s')" "es_wf s'" "es_abs s' = (es_abs s)(node := None)"
proof (cases "position node (es_ids s)")
  case None
  then have "node \<notin> dom (es_abs s)" by (simp add: es_abs_def dom_map_of_zip)
  moreover from this have "(es_abs s)(node := None) = es_abs s" by (simp add: domIff fun_upd_idem)
  ultimately show ?thesis using None wf by (intro that[of s]) (auto simp: remove_node_def simp del: position_None)
next
  case (Some p)
  note p = position_Some[OF Some]
  have le: "Suc p * EMBEDDING_DIM \<le> length (es_vectors s)"
    using wf p unfolding es_wf_def by (metis Suc_leI mult_le_mono1)
  let ?o = "p * EMBEDDING_DIM"
  let ?s = "s\<lparr>es_ids := take p (es_ids s) @ drop (Suc p) (es_ids s),
      es_vectors := take ?o (es_vectors s) @ drop (?o + EMBEDDING_DIM) (es_vectors s), es_dirty := True\<rparr>"
  have len: "length (take p (es_ids s) @ drop (Suc p) (es_ids s)) = length (es_ids s) - 1" using p by simp
  have "es_rows ?s = take p (es_rows s) @ drop (Suc p) (es_rows s)"
    using le p by (intro nth_equalityI) (auto simp: es_rows_def chunk_delete nth_append simp del: mult_Suc)
  then have abs: "es_abs ?s = (es_abs s)(node := None)"
    using map_of_zip_delete[OF Some, of "es_rows s"] wf by (simp add: es_abs_def es_wf_def)
  have "distinct (take p (es_ids s) @ drop (Suc p) (es_ids s))"
    using wf by (auto simp: es_wf_def dest: set_take_disj_set_drop_if_distinct[of _ p "Suc p"])
  moreover have "length (es_vectors ?s) = (length (es_ids s) - 1) * EMBEDDING_DIM"
    using le wf by (simp add: es_wf_def diff_mult_distrib)
  ultimately have "es_wf ?s" using len by (simp add: es_wf_def)
  moreover have "node \<in> dom (es_abs s)"
    using p by (auto simp: es_abs_def dom_map_of_zip)
  ultimately show ?thesis using Some le abs by (intro that[of ?s]) (simp_all add: remove_node_def Let_def)
qed

section \<open>The nearest vectors\<close>

definition stored_hits :: "f32_arith \<Rightarrow> f32 list \<Rightarrow> embed_state \<Rightarrow> NearestHit list" where
  "stored_hits F query s = map2 (row_hit F query) (es_ids s) (es_rows s)"

lemma heap_push_top:
  assumes nan: "no_nan hit_score (P @ [x])" and k: "0 < k"
  shows "heap_push k x (take k (sort_key (rank_key hit_score) P)) = take k (sort_key (rank_key hit_score) (P @ [x]))"
proof -
  let ?K = "rank_key hit_score" let ?S = "sort_key ?K P" let ?h = "take k ?S"
  have nanS: "no_nan hit_score (ys @ [x])" if "set ys \<subseteq> set P" for ys
    using nan that by (auto simp: no_nan_def)
  have sorted: "sorted (map ?K ?S)" by simp
  have resort: "sort_score hit_score (take n ?S @ [x]) = append_insert ?K x (take n ?S)" for n
  proof -
    have "sort_key ?K (take n ?S) = take n ?S"
      using sorted by (simp add: sort_key_id_if_sorted take_map[symmetric] sorted_wrt_take)
    moreover have "no_nan hit_score (take n ?S @ [x])"
      using set_take_subset[of n ?S] by (intro nanS) simp
    ultimately show ?thesis by (simp add: sort_score_sort_key sort_key_snoc)
  qed
  show ?thesis
  proof (cases "length ?S < k")
    case True
    then have "take k ?S = ?S" by simp
    with True resort[of k] show ?thesis by (simp add: heap_push_def sort_key_snoc)
  next
    case False
    then have kS: "k \<le> length ?S" by simp
    then have len: "length ?h = k" by simp
    then have h: "?h \<noteq> []" using k by force
    have "last ?h = ?h ! (k - 1)" using last_conv_nth[OF h] len by simp
    with h k kS have h: "?h \<noteq> []" "last ?h = ?S ! (k - 1)" "butlast ?h = take (k - 1) ?S"
      by (simp_all add: butlast_take)
    have mem: "?S ! (k - 1) \<in> set P" using kS k by (metis diff_less length_sort less_le_trans nth_mem set_sort zero_less_one)
    show ?thesis
    proof (cases "?K x < ?K (?S ! (k - 1))")
      case True
      moreover have "f32_less (hit_score (last ?h)) (hit_score x)"
        using True nan mem h by (auto simp: f32_less_def rank_key_def no_nan_def)
      ultimately show ?thesis
        using take_append_insert_less[of "k - 1" ?S ?K x] k kS h resort[of "k - 1"]
        by (simp add: heap_push_def sort_key_snoc)
    next
      case False
      then have "\<not> f32_less (hit_score (last ?h)) (hit_score x)"
        using h by (auto simp: f32_less_def rank_key_def)
      moreover have "\<forall>y \<in> set ?h. ?K y \<le> ?K x"
      proof
        fix y assume "y \<in> set ?h"
        then obtain i where i: "i < k" "y = ?S ! i" by (metis in_set_conv_nth kS length_take min.absorb2 nth_take)
        then have "?K y \<le> ?K (?S ! (k - 1))"
          using sorted kS by (auto simp: sorted_iff_nth_mono)
        with False show "?K y \<le> ?K x" by simp
      qed
      ultimately show ?thesis
        using take_append_insert_le[of k ?S ?K x] kS k by (simp add: heap_push_def sort_key_snoc)
    qed
  qed
qed

lemma scan_top:
  assumes "0 < k" "no_nan hit_score (P @ map h is)"
    and "\<And>i. i \<in> set is \<Longrightarrow> \<exists>row. row_at s i = Some row \<and> row_hit F query (es_ids s ! i) row = h i"
  shows "scan F s query k is (take k (sort_key (rank_key hit_score) P)) =
    Some (take k (sort_key (rank_key hit_score) (P @ map h is)))"
  using assms
proof (induction "is" arbitrary: P)
  case (Cons i "is")
  obtain row where row: "row_at s i = Some row" "row_hit F query (es_ids s ! i) row = h i"
    using Cons.prems(3)[of i] by auto
  have "no_nan hit_score (P @ [h i])" using Cons.prems(2) by (auto simp: no_nan_def)
  from heap_push_top[OF this Cons.prems(1)] row Cons.IH[of "P @ [h i]"] Cons.prems
  show ?case by simp
qed simp

section \<open>Reading back what was written\<close>

lemma index_rows_wf:
  assumes "es_wf s" "\<forall>i \<in> set is. i < length (es_ids s)"
  shows "index_rows s is = Some (concat (map (\<lambda>i. le_bytes 16 (unat (es_ids s ! i)) @ f32_bytes (es_rows s ! i)) is))"
  using assms(2) by (induction "is") (auto simp: row_at_chunk[OF assms(1)])

lemma read_rows_written:
  assumes "es_wf s" "\<forall>i \<in> set is. i < length (es_ids s)"
  shows "read_rows (length is) (concat (map (\<lambda>i. le_bytes 16 (unat (es_ids s ! i)) @ f32_bytes (es_rows s ! i)) is) @ rest) =
    Inr (map ((!) (es_ids s)) is, concat (map ((!) (es_rows s)) is))"
  using assms(2)
proof (induction "is")
  case (Cons i "is")
  then have "length (f32_bytes (es_rows s ! i)) = EMBEDDING_DIM * 4"
    using row_at_chunk(2)[OF assms(1), of i] by simp
  moreover have "word_of_nat (unat (es_ids s ! i) mod 256 ^ 16) = es_ids s ! i"
  proof -
    have "unat (es_ids s ! i) < 256 ^ 16" using unsigned_less[of "es_ids s ! i"] by simp
    then show ?thesis by (simp add: mod_less del: power_numeral)
  qed
  ultimately show ?case using Cons by (simp add: read_exact_n_def)
qed simp

lemma concat_es_rows:
  assumes "es_wf s" shows "concat (es_rows s) = es_vectors s"
proof -
  have "concat (map (chunk D vs) [0..<n]) = take (n * D) vs" if "n * D \<le> length vs" for n D and vs :: "f32 list"
    using that
  proof (induction n)
    case (Suc n)
    then have "take (Suc n * D) vs = take (n * D) vs @ chunk D vs n"
      using take_add[of "n * D" D vs] by (simp add: chunk_def add.commute)
    with Suc show ?case by simp
  qed simp
  with assms show ?thesis by (simp add: es_rows_def es_wf_def)
qed

definition header_bytes :: "nat \<Rightarrow> bytes" where
  "header_bytes n = le_bytes 4 MAGIC @ le_bytes 4 EMBEDDING_DIM @ le_bytes 8 n"

lemma index_bytes_wf:
  "es_wf s \<Longrightarrow> index_bytes s = Some (header_bytes (length (es_ids s)) @
     concat (map (\<lambda>i. le_bytes 16 (unat (es_ids s ! i)) @ f32_bytes (es_rows s ! i)) [0..<length (es_ids s)]))"
  by (simp add: index_bytes_def index_rows_wf header_bytes_def)

lemma load_file_header:
  assumes "n < 2 ^ 64"
  shows "load_file alloc (header_bytes n @ bs) =
    (if \<not> can_reserve alloc 16 n \<or> \<not> can_reserve alloc 4 (n * EMBEDDING_DIM mod 2 ^ 64) then None
     else Some (case read_rows n bs of
         Inl e \<Rightarrow> Inl e
       | Inr (ids, vs) \<Rightarrow> Inr \<lparr>es_ids = ids, es_vectors = vs, es_dirty = False\<rparr>))"
proof -
  have "n mod 256 ^ 8 = n" using assms by simp
  moreover have "MAGIC mod 256 ^ 4 = MAGIC" "EMBEDDING_DIM mod 256 ^ 4 = EMBEDDING_DIM"
    by (simp_all add: MAGIC_def EMBEDDING_DIM_def)
  ultimately show ?thesis by (simp add: load_file_def header_bytes_def read_exact_n_def Let_def)
qed

text \<open>What the file of a store needs to be loaded: the memory for its two arrays.\<close>

definition fits_memory :: "(nat \<Rightarrow> bool) \<Rightarrow> embed_state \<Rightarrow> bool" where
  "fits_memory alloc s \<longleftrightarrow>
     can_reserve alloc 16 (length (es_ids s)) \<and> can_reserve alloc 4 (length (es_ids s) * EMBEDDING_DIM)"

lemma load_index_bytes:
  assumes wf: "es_wf s" and mem: "fits_memory alloc s" and bs: "index_bytes s = Some bs"
  shows "load_file alloc bs = Some (Inr (s\<lparr>es_dirty := False\<rparr>))"
proof -
  let ?n = "length (es_ids s)"
  have lt: "?n < 2 ^ 64" "?n * EMBEDDING_DIM < 2 ^ 64"
    using mem by (simp_all add: fits_memory_def can_reserve_def isize_max_def)
  have bs: "bs = header_bytes ?n @ concat (map (\<lambda>i. le_bytes 16 (unat (es_ids s ! i)) @ f32_bytes (es_rows s ! i)) [0..<?n])"
    using bs index_bytes_wf[OF wf] by simp
  have "read_rows ?n (concat (map (\<lambda>i. le_bytes 16 (unat (es_ids s ! i)) @ f32_bytes (es_rows s ! i)) [0..<?n])) =
      Inr (es_ids s, es_vectors s)"
    using read_rows_written[OF wf, of "[0..<?n]" "[]"] concat_es_rows[OF wf] map_nth[of "es_rows s"]
    by (simp add: map_nth)
  then show ?thesis
    unfolding bs load_file_header[OF lt(1)] using mem lt(2) by (simp add: fits_memory_def)
qed

section \<open>Guarantees\<close>

text \<open>
  C35: The embedding store implements a map from nodes to vectors. On a well-formed store no write panics and every write
  leaves it well-formed; an upsert is the update of the map, or an error that changes nothing when the vector has
  the wrong length; a bulk upsert makes all its updates in order, or none; a removal deletes the node and says whether
  it was there.
\<close>

theorem embed_store_refines_map:
  assumes "es_wf s"
  shows "(\<exists>s'. upsert node v s = Some (if length v = EMBEDDING_DIM then Inr () else Inl (length_error v), s') \<and> es_wf s' \<and>
           es_abs s' = (if length v = EMBEDDING_DIM then (es_abs s)(node \<mapsto> v) else es_abs s)) \<and>
    (\<exists>s'. upsert_many items s =
           Some (case find (\<lambda>(_, v). length v \<noteq> EMBEDDING_DIM) items of Some (_, v) \<Rightarrow> Inl (length_error v) | None \<Rightarrow> Inr (), s') \<and>
         es_wf s' \<and>
         es_abs s' = (if find (\<lambda>(_, v). length v \<noteq> EMBEDDING_DIM) items = None then es_abs s ++ map_of (rev items) else es_abs s)) \<and>
    (\<exists>s'. remove_node node s = Some (node \<in> dom (es_abs s), s') \<and> es_wf s' \<and> es_abs s' = (es_abs s)(node := None))"
proof (intro conjI)
  show "\<exists>s'. upsert node v s = Some (if length v = EMBEDDING_DIM then Inr () else Inl (length_error v), s') \<and> es_wf s' \<and>
      es_abs s' = (if length v = EMBEDDING_DIM then (es_abs s)(node \<mapsto> v) else es_abs s)"
  proof (cases "length v = EMBEDDING_DIM")
    case True
    obtain s' where "put_row node v s = Some s'" "es_wf s'" "es_abs s' = (es_abs s)(node \<mapsto> v)"
      using put_row_abs[OF assms True] by metis
    with True show ?thesis by (intro exI[of _ "s'\<lparr>es_dirty := True\<rparr>"]) (simp add: upsert_def)
  next
    case False
    with assms show ?thesis by (simp add: upsert_def)
  qed
  show "\<exists>s'. upsert_many items s =
      Some (case find (\<lambda>(_, v). length v \<noteq> EMBEDDING_DIM) items of Some (_, v) \<Rightarrow> Inl (length_error v) | None \<Rightarrow> Inr (), s') \<and>
      es_wf s' \<and>
      es_abs s' = (if find (\<lambda>(_, v). length v \<noteq> EMBEDDING_DIM) items = None then es_abs s ++ map_of (rev items) else es_abs s)"
  proof (cases "find (\<lambda>(_, v). length v \<noteq> EMBEDDING_DIM) items")
    case None
    then have "\<forall>(node, v) \<in> set items. length v = EMBEDDING_DIM" by (auto simp: find_None_iff)
    then obtain s' where "put_rows items s = Some s'" "es_wf s'" "es_abs s' = es_abs s ++ map_of (rev items)"
      using put_rows_abs[OF assms] by metis
    with None show ?thesis by (intro exI[of _ "s'\<lparr>es_dirty := True\<rparr>"]) (simp add: upsert_many_def)
  next
    case (Some p)
    with assms show ?thesis by (cases p) (simp add: upsert_many_def)
  qed
  show "\<exists>s'. remove_node node s = Some (node \<in> dom (es_abs s), s') \<and> es_wf s' \<and> es_abs s' = (es_abs s)(node := None)"
    using remove_abs[OF assms, of node] by metis
qed

theorem embed_store_refines_map_witness:
  "\<exists>s'. upsert 7 (replicate 384 f32_one) empty_state =
      Some (if length (replicate 384 f32_one) = EMBEDDING_DIM then Inr () else Inl (length_error (replicate 384 f32_one)), s') \<and>
    es_wf s' \<and> es_abs s' = (if length (replicate 384 f32_one) = EMBEDDING_DIM then (es_abs empty_state)(7 \<mapsto> replicate 384 f32_one)
      else es_abs empty_state)"
proof -
  have "es_wf empty_state" by (simp add: es_wf_def empty_state_def)
  from embed_store_refines_map[OF this, of 7 "replicate 384 f32_one" "[]"] show ?thesis by blast
qed

text \<open>
  C34: The search for the nearest vectors, which keeps a list of \<open>k\<close> candidates as it scans, answers what a full
  stable sort by descending score would: the first \<open>k\<close> of all stored vectors, ties in the order of storage. On a
  well-formed store no slice is out of range; the call fails exactly when the store is not empty and the room for
  \<open>k + 1\<close> hits, which is asked for whatever the store holds, is more than a vector may have or than there is
  memory. The scores are those of any arithmetic that makes no NaN of them.
\<close>

theorem nearest_is_top_k:
  assumes "es_wf s" "length query = EMBEDDING_DIM" "no_nan hit_score (stored_hits F query s)"
  shows "nearest alloc F query k s =
    (if k = 0 \<or> es_ids s = [] \<or> can_reserve alloc hit_size (Suc k mod 2 ^ 64)
     then Some (take k (sort_key (\<lambda>h. - f32_key (hit_score h)) (stored_hits F query s))) else None)"
proof (cases "k = 0 \<or> es_ids s = []")
  case True
  with assms(2) show ?thesis by (auto simp: nearest_def stored_hits_def)
next
  case False
  let ?h = "\<lambda>i. row_hit F query (es_ids s ! i) (es_rows s ! i)"
  have all: "stored_hits F query s = map ?h [0..<length (es_ids s)]"
    by (intro nth_equalityI) (simp_all add: stored_hits_def)
  have "scan F s query k [0..<length (es_ids s)] (take k (sort_key (rank_key hit_score) [])) =
      Some (take k (sort_key (rank_key hit_score) ([] @ map ?h [0..<length (es_ids s)])))"
    using False assms(3) row_at_chunk(1)[OF assms(1)] all by (intro scan_top) auto
  with False assms(2) all show ?thesis by (simp add: nearest_def rank_key_def[abs_def])
qed

lemma foldl_fst_last: "foldl (\<lambda>acc (r, q). r) a xs = (if xs = [] then a else fst (last xs))"
  by (induction xs rule: rev_induct) (auto simp: split_def)

theorem nearest_is_top_k_witness:
  "map (\<lambda>k. nearest (\<lambda>n. n \<le> 2 ^ 30)
      \<lparr>fa_add = \<lambda>a b. b, fa_sub = \<lambda>a b. a, fa_mul = \<lambda>a b. a, fa_div = \<lambda>a b. a, fa_sqrt = \<lambda>a. a, fa_ln = \<lambda>a. a, fa_of_nat = word_of_nat\<rparr>
      (replicate 384 f32_one) k \<lparr>es_ids = [1, 2], es_vectors = replicate 384 f32_half @ replicate 384 f32_one, es_dirty = False\<rparr>)
      [1, 2 ^ 58] =
    [Some [\<lparr>hit_node = 2, hit_score = f32_one\<rparr>], None]"
proof -
  let ?F = "\<lparr>fa_add = \<lambda>a b. b, fa_sub = \<lambda>a b. a, fa_mul = \<lambda>a b. a, fa_div = \<lambda>a b. a, fa_sqrt = \<lambda>a. a, fa_ln = \<lambda>a. a, fa_of_nat = word_of_nat\<rparr>"
  let ?s = "\<lparr>es_ids = [1, 2], es_vectors = replicate 384 f32_half @ replicate 384 f32_one, es_dirty = False\<rparr>"
  have wf: "es_wf ?s" by (simp add: es_wf_def EMBEDDING_DIM_def)
  have hits: "stored_hits ?F (replicate 384 f32_one) ?s =
      [\<lparr>hit_node = 1, hit_score = f32_half\<rparr>, \<lparr>hit_node = 2, hit_score = f32_one\<rparr>]"
    by (simp add: stored_hits_def es_rows_def chunk_def EMBEDDING_DIM_def row_hit_def dot_def foldl_fst_last upt_rec zip_replicate)
  have "no_nan hit_score (stored_hits ?F (replicate 384 f32_one) ?s)"
    unfolding hits by (simp add: no_nan_def f32_is_nan_def f32_half_def f32_one_def)
  note top = nearest_is_top_k[OF wf _ this, of "\<lambda>n. n \<le> 2 ^ 30"]
  have "length (replicate 384 f32_one) = EMBEDDING_DIM" by (simp add: EMBEDDING_DIM_def)
  from top[OF this, of 1] top[OF this, of "2 ^ 58"] show ?thesis
    unfolding hits by (simp add: can_reserve_def hit_size_def isize_max_def f32_key_def f32_half_def f32_one_def)
qed

text \<open>
  C36: A flush ends with a file from which the store is read back as it was. A process killed on the way leaves the old
  content or the new one, except between the removal of the old file and the renaming of the new one: there the
  next start finds no file and is an empty store, although the temporary file is complete.
\<close>

theorem flush_killed_and_reopened:
  assumes wf: "es_wf s" and dirty: "es_dirty s" and mem: "fits_memory alloc s" and bs: "index_bytes s = Some bs"
    and old: "ed_index d = Some old" "load_file alloc old = Some (Inr s0)"
  shows "map (open_store calm_disk alloc) (flush_moments bs d) =
      replicate (length bs + 2) (Some (Inr s0)) @ [Some (Inr empty_state), Some (Inr (s\<lparr>es_dirty := False\<rparr>))] \<and>
    flush_store calm_disk s d = Some (Inr (), s\<lparr>es_dirty := False\<rparr>, last (flush_moments bs d))"
proof
  have kept: "open_store calm_disk alloc (d\<lparr>ed_tmp := t\<rparr>) = Some (Inr s0)" "open_store calm_disk alloc d = Some (Inr s0)" for t
    using old by (simp_all add: open_store_def calm_disk_def)
  have "map (\<lambda>n. open_store calm_disk alloc (d\<lparr>ed_tmp := Some (take n bs)\<rparr>)) [0..<Suc (length bs)] =
      replicate (Suc (length bs)) (Some (Inr s0))"
    using kept(1) by (simp add: map_replicate_const del: upt_Suc replicate_Suc)
  with kept(2) load_index_bytes[OF wf mem bs]
  show "map (open_store calm_disk alloc) (flush_moments bs d) =
      replicate (length bs + 2) (Some (Inr s0)) @ [Some (Inr empty_state), Some (Inr (s\<lparr>es_dirty := False\<rparr>))]"
    by (simp add: flush_moments_def o_def open_store_def[of _ _ "d\<lparr>ed_tmp := _, ed_index := _\<rparr>"]
        open_store_def[of _ _ "\<lparr>ed_index = _, ed_tmp = _\<rparr>"] calm_disk_def del: upt_Suc)
  show "flush_store calm_disk s d = Some (Inr (), s\<lparr>es_dirty := False\<rparr>, last (flush_moments bs d))"
    using dirty bs by (simp add: flush_store_def calm_disk_def flush_moments_def)
qed

theorem flush_killed_and_reopened_witness:
  "map (open_store calm_disk (\<lambda>_. True)) (flush_moments
       (the (index_bytes \<lparr>es_ids = [5], es_vectors = replicate 384 f32_one, es_dirty = True\<rparr>))
       \<lparr>ed_index = Some (header_bytes 0), ed_tmp = None\<rparr>) =
     replicate (length (the (index_bytes \<lparr>es_ids = [5], es_vectors = replicate 384 f32_one, es_dirty = True\<rparr>)) + 2)
       (Some (Inr empty_state)) @
     [Some (Inr empty_state), Some (Inr \<lparr>es_ids = [5], es_vectors = replicate 384 f32_one, es_dirty = False\<rparr>)]"
proof -
  let ?s = "\<lparr>es_ids = [5], es_vectors = replicate 384 f32_one, es_dirty = True\<rparr>"
  have wf: "es_wf ?s" by (simp add: es_wf_def EMBEDDING_DIM_def)
  have mem: "fits_memory (\<lambda>_. True) ?s" by (simp add: fits_memory_def can_reserve_def isize_max_def EMBEDDING_DIM_def)
  have bs: "index_bytes ?s = Some (the (index_bytes ?s))" by (simp add: index_bytes_wf[OF wf])
  have old: "load_file (\<lambda>_. True) (header_bytes 0) = Some (Inr empty_state)"
    using load_file_header[of 0 "\<lambda>_. True" "[]"] by (simp add: can_reserve_def empty_state_def)
  from flush_killed_and_reopened[OF wf _ mem bs, of "\<lparr>ed_index = Some (header_bytes 0), ed_tmp = None\<rparr>", OF _ _ old]
  show ?thesis by (simp del: replicate_Suc)
qed

text \<open>
  C37: A flush that fails keeps the vectors and the mark that they are unsaved, so the next flush that finds the system
  in order saves them.
\<close>

theorem failed_flush_retried:
  assumes "flush_store os s d = Some (Inl e, s', d')" and bs: "index_bytes s = Some bs"
  shows "s' = s \<and> flush_store calm_disk s' d' = Some (Inr (), s\<lparr>es_dirty := False\<rparr>, \<lparr>ed_index = Some bs, ed_tmp = None\<rparr>)"
proof -
  have "s' = s" "es_dirty s"
    using assms by (auto simp: flush_store_def Let_def split: if_splits option.splits prod.splits)
  then show ?thesis using bs by (simp add: flush_store_def calm_disk_def)
qed

theorem failed_flush_retried_witness:
  "flush_store calm_disk \<lparr>es_ids = [5], es_vectors = replicate 384 f32_one, es_dirty = True\<rparr>
       \<lparr>ed_index = None, ed_tmp = index_bytes \<lparr>es_ids = [5], es_vectors = replicate 384 f32_one, es_dirty = True\<rparr>\<rparr> =
     Some (Inr (), \<lparr>es_ids = [5], es_vectors = replicate 384 f32_one, es_dirty = False\<rparr>,
       \<lparr>ed_index = index_bytes \<lparr>es_ids = [5], es_vectors = replicate 384 f32_one, es_dirty = True\<rparr>, ed_tmp = None\<rparr>)"
proof -
  let ?os = "calm_disk\<lparr>eo_rename := Some (IoError PermissionDenied ''denied'')\<rparr>"
  define v where "v = replicate 384 f32_one"
  define s where "s = \<lparr>es_ids = [5], es_vectors = v, es_dirty = True\<rparr>"
  have "length v = 384" by (simp only: v_def length_replicate)
  then have "es_wf s" by (simp add: es_wf_def s_def EMBEDDING_DIM_def)
  from index_bytes_wf[OF this] obtain bs where bs: "index_bytes s = Some bs" by blast
  have dirty: "es_dirty s" "s\<lparr>es_dirty := False\<rparr> = \<lparr>es_ids = [5], es_vectors = v, es_dirty = False\<rparr>"
    by (simp_all add: s_def)
  have "flush_store ?os s \<lparr>ed_index = None, ed_tmp = None\<rparr> =
      Some (Inl (BrainIo (IoError PermissionDenied ''denied'')), s, \<lparr>ed_index = None, ed_tmp = Some bs\<rparr>)"
    using dirty(1) by (simp add: flush_store_def calm_disk_def bs)
  from failed_flush_retried[OF this bs] show ?thesis
    unfolding v_def[symmetric] s_def[symmetric] by (simp only: bs dirty(2))
qed

text \<open>
  A damaged count in the header does not lead to an empty store, as every other damage does: from \<open>2 ^ 59\<close> nodes on,
  reserving the memory for them panics, whatever the rest of the file holds.
\<close>

theorem damaged_count_panics:
  assumes "2 ^ 59 \<le> n" "n < 2 ^ 64" "eo_mkdir os = None" "eo_read os = None" "ed_index d = Some (header_bytes n @ bs)"
  shows "open_store os alloc d = None"
  using assms by (simp add: open_store_def load_file_header can_reserve_def isize_max_def)

end
