(* ===== verification/Unicode_Text.thy ===== *)
theory Unicode_Text
  imports Mneme_Prelude
begin

text \<open>
  Text as Unicode scalar values, where a module goes through \<open>chars()\<close>: the classes and the lower case of ASCII are
  written out, those of other characters are an argument; \<open>as_bytes\<close> is UTF-8.
\<close>

type_synonym utext = "nat list"

definition utext :: "string \<Rightarrow> utext" where
  "utext s = map of_char s"

record unicode =
  u_alnum :: "nat \<Rightarrow> bool"
  u_lower :: "nat \<Rightarrow> utext"

definition is_alphanumeric :: "unicode \<Rightarrow> nat \<Rightarrow> bool" where
  "is_alphanumeric U c =
     (if c < 128 then (48 \<le> c \<and> c \<le> 57) \<or> (65 \<le> c \<and> c \<le> 90) \<or> (97 \<le> c \<and> c \<le> 122) else u_alnum U c)"

definition to_lowercase :: "unicode \<Rightarrow> nat \<Rightarrow> utext" where
  "to_lowercase U c = (if c < 128 then if 65 \<le> c \<and> c \<le> 90 then [c + 32] else [c] else u_lower U c)"

definition utf8_char :: "nat \<Rightarrow> bytes" where
  "utf8_char c = map word_of_nat
     (if c < 0x80 then [c]
      else if c < 0x800 then [0xC0 + c div 64, 0x80 + c mod 64]
      else if c < 0x10000 then [0xE0 + c div 4096, 0x80 + c div 64 mod 64, 0x80 + c mod 64]
      else [0xF0 + c div 262144, 0x80 + c div 4096 mod 64, 0x80 + c div 64 mod 64, 0x80 + c mod 64])"

definition as_bytes :: "utext \<Rightarrow> bytes" where
  "as_bytes s = concat (map utf8_char s)"

end
