(* ===== verification/Retrieval.thy ===== *)
theory Retrieval
  imports Embed_Store Unicode_Text
begin

text \<open>
  Hybrid retrieval (\<open>brain/src/retrieve.rs\<close>, \<open>brain/src/reranker.rs\<close>): the BM25 index, the neighbourhood of anchors in a
  graph, reciprocal rank fusion, the optional reranker and the greedy packing into a token budget. The rounded
  float operations are an argument, as is the order in which a hash map is gone through.
\<close>

section \<open>Data\<close>

datatype RetrievalSource = Bm25 | Semantic | GraphWalk | FromReranker

record ScoredHit =
  sh_id :: utext
  sh_text :: utext
  sh_score :: f32
  sh_sources :: "RetrievalSource list"

record RetrievalResult =
  rr_hits :: "ScoredHit list"
  rr_tokens_used :: u32
  rr_budget_tokens :: u32
  rr_latency_ms :: u64

text \<open>
  The environment: float arithmetic with the constants the sources write in decimal, the memory that can be had, the
  Unicode tables, the lower case of a whole string, and the order of hash maps.
\<close>

record retrieval_env =
  rv_arith :: f32_arith
  rv_alloc :: "nat \<Rightarrow> bool"
  rv_k1 :: f32
  rv_b :: f32
  rv_rrf_k :: f32
  rv_unicode :: unicode
  rv_str_lower :: "utext \<Rightarrow> utext"
  rv_depth_order :: "(utext \<times> u32) list \<Rightarrow> (utext \<times> u32) list"
  rv_fused_order :: "(utext \<times> f32 \<times> RetrievalSource list) list \<Rightarrow> (utext \<times> f32 \<times> RetrievalSource list) list"

definition RERANK_CANDIDATES :: nat where "RERANK_CANDIDATES = 25"
definition CHARS_PER_TOKEN :: nat where "CHARS_PER_TOKEN = 4"

section \<open>BM25\<close>

record DocEntry =
  de_terms :: "(utext, u32) hmap"
  de_len :: u32

record BM25Index =
  bm_docs :: "DocEntry list"
  bm_idf :: "(utext, f32) hmap"
  bm_avg_len :: f32
  bm_texts :: "utext list"
  bm_ids :: "utext list"

fun split_where :: "(nat \<Rightarrow> bool) \<Rightarrow> utext \<Rightarrow> utext \<Rightarrow> utext list" where
  "split_where P w [] = [w]"
| "split_where P w (c # cs) = (if P c then w # split_where P [] cs else split_where P (w @ [c]) cs)"

definition bm_tokenize :: "retrieval_env \<Rightarrow> utext \<Rightarrow> utext list" where
  "bm_tokenize E s =
     filter (\<lambda>t. 2 \<le> length (as_bytes t))
       (split_where (\<lambda>c. \<not> is_alphanumeric (rv_unicode E) c \<and> c \<noteq> 95) [] (rv_str_lower E s))"

definition bump_term :: "utext \<Rightarrow> (utext, u32) hmap \<Rightarrow> (utext, u32) hmap" where
  "bump_term t m = hm_insert t ((case hm_get m t of Some n \<Rightarrow> n | None \<Rightarrow> 0) + 1) m"

definition doc_entry :: "utext list \<Rightarrow> DocEntry" where
  "doc_entry tokens = \<lparr>de_terms = fold bump_term tokens [], de_len = word_of_nat (length tokens)\<rparr>"

definition idf_of :: "f32_arith \<Rightarrow> f32 \<Rightarrow> u32 \<Rightarrow> f32" where
  "idf_of F n d =
     (let d' = fa_of_nat F (unat d) in
      fa_ln F (fa_add F (fa_div F (fa_add F (fa_sub F n d') f32_half) (fa_add F d' f32_half)) f32_one))"

definition build_from_documents :: "retrieval_env \<Rightarrow> (utext \<times> utext) list \<Rightarrow> BM25Index" where
  "build_from_documents E docs =
     (let F = rv_arith E;
          entries = map (\<lambda>(_, t). doc_entry (bm_tokenize E t)) docs;
          df = fold (\<lambda>e m. fold bump_term (hm_keys (de_terms e)) m) entries [];
          total_len = (\<Sum>e\<leftarrow>entries. unat (de_len e));
          n = fa_of_nat F (max (length docs) 1)
      in \<lparr>bm_docs = entries, bm_idf = map (\<lambda>(t, d). (t, idf_of F n d)) df,
          bm_avg_len = (if docs = [] then f32_zero else fa_div F (fa_of_nat F total_len) (fa_of_nat F (length docs))),
          bm_texts = map snd docs, bm_ids = map fst docs\<rparr>)"

definition term_score :: "retrieval_env \<Rightarrow> BM25Index \<Rightarrow> DocEntry \<Rightarrow> utext \<Rightarrow> f32 \<Rightarrow> f32" where
  "term_score E idx doc t s =
     (let F = rv_arith E;
          tf = fa_of_nat F (case hm_get (de_terms doc) t of Some n \<Rightarrow> unat n | None \<Rightarrow> 0)
      in if f32_eq tf f32_zero then s
         else
           let idf = (case hm_get (bm_idf idx) t of Some x \<Rightarrow> x | None \<Rightarrow> f32_zero);
               len = fa_div F (fa_of_nat F (unat (de_len doc))) (f32_max (bm_avg_len idx) f32_one);
               denom = fa_add F tf (fa_mul F (rv_k1 E) (fa_add F (fa_sub F f32_one (rv_b E)) (fa_mul F (rv_b E) len)))
           in fa_add F s (fa_mul F idf (fa_div F (fa_mul F tf (fa_add F (rv_k1 E) f32_one)) (f32_max denom f32_epsilon))))"

definition doc_score :: "retrieval_env \<Rightarrow> BM25Index \<Rightarrow> utext list \<Rightarrow> DocEntry \<Rightarrow> f32" where
  "doc_score E idx q_tokens doc = fold (term_score E idx doc) q_tokens f32_zero"

definition bm_search :: "retrieval_env \<Rightarrow> BM25Index \<Rightarrow> utext \<Rightarrow> nat \<Rightarrow> (utext \<times> f32) list" where
  "bm_search E idx query top_k =
     (if bm_docs idx = [] \<or> top_k = 0 then []
      else
        let scored = filter (\<lambda>(i, s). f32_less f32_zero s)
              (map (\<lambda>(i, doc). (i, doc_score E idx (bm_tokenize E query) doc)) (List.enumerate 0 (bm_docs idx)))
        in map (\<lambda>(i, s). (bm_ids idx ! i, s)) (take top_k (sort_score snd scored)))"

definition bm_text_for :: "BM25Index \<Rightarrow> utext \<Rightarrow> utext option" where
  "bm_text_for idx i = map_option ((!) (bm_texts idx)) (position i (bm_ids idx))"

section \<open>The graph\<close>

record GraphIndex =
  gi_nodes :: "utext list"
  gi_edges :: "(nat \<times> nat) list"
  gi_by_label :: "(utext, nat) hmap"
  gi_text :: "(utext, utext) hmap"

definition empty_graph :: GraphIndex where
  "empty_graph = \<lparr>gi_nodes = [], gi_edges = [], gi_by_label = [], gi_text = []\<rparr>"

definition gi_add_node :: "utext \<Rightarrow> utext \<Rightarrow> GraphIndex \<Rightarrow> nat \<times> GraphIndex" where
  "gi_add_node label t g =
     (case hm_get (gi_by_label g) label of
        Some ix \<Rightarrow> (ix, g)
      | None \<Rightarrow>
          let ix = length (gi_nodes g) in
          (ix, g\<lparr>gi_nodes := gi_nodes g @ [label], gi_by_label := hm_insert label ix (gi_by_label g),
             gi_text := hm_insert label t (gi_text g)\<rparr>))"

definition gi_add_edge :: "utext \<Rightarrow> utext \<Rightarrow> GraphIndex \<Rightarrow> GraphIndex" where
  "gi_add_edge frm to g =
     (let (a, g1) = gi_add_node frm frm g; (b, g2) = gi_add_node to to g1 in
      g2\<lparr>gi_edges := gi_edges g2 @ [(a, b)]\<rparr>)"

text \<open>\<open>neighbors\<close>: the targets of the edges of a node, the latest edge first.\<close>

definition neighbors :: "GraphIndex \<Rightarrow> nat \<Rightarrow> nat list" where
  "neighbors g a = map snd (filter (\<lambda>(x, _). x = a) (rev (gi_edges g)))"

definition or_insert :: "utext \<Rightarrow> u32 \<Rightarrow> (utext, u32) hmap \<Rightarrow> (utext, u32) hmap" where
  "or_insert l d m = (case hm_get m l of Some _ \<Rightarrow> m | None \<Rightarrow> hm_insert l d m)"

definition min_insert :: "u32 \<Rightarrow> utext \<Rightarrow> (utext, u32) hmap \<Rightarrow> (utext, u32) hmap" where
  "min_insert d l m = (case hm_get m l of Some x \<Rightarrow> hm_insert l (min x d) m | None \<Rightarrow> hm_insert l d m)"

definition visit_neighbor :: "GraphIndex \<Rightarrow> nat \<Rightarrow> (utext, u32) hmap \<Rightarrow> (utext, u32) hmap" where
  "visit_neighbor g n1 out =
     fold (\<lambda>n2. min_insert 2 (gi_nodes g ! n2)) (neighbors g n1) (min_insert 1 (gi_nodes g ! n1) out)"

definition visit_anchor :: "GraphIndex \<Rightarrow> utext \<Rightarrow> (utext, u32) hmap \<Rightarrow> (utext, u32) hmap" where
  "visit_anchor g a out =
     (case hm_get (gi_by_label g) a of
        None \<Rightarrow> out
      | Some start \<Rightarrow> fold (visit_neighbor g) (neighbors g start) (or_insert a 0 out))"

definition two_hop :: "retrieval_env \<Rightarrow> GraphIndex \<Rightarrow> utext list \<Rightarrow> (utext \<times> u32) list" where
  "two_hop E g anchors = sort_key (\<lambda>p. unat (snd p)) (rv_depth_order E (fold (visit_anchor g) anchors []))"

section \<open>The engine\<close>

record RetrievalEngine =
  en_bm25 :: BM25Index
  en_embed :: embed_state
  en_graph :: GraphIndex
  en_embedder :: "(utext \<Rightarrow> BrainError + f32 list) option"
  en_node_text :: "(NodeId, utext) hmap"
  en_node_labels :: "(NodeId, utext) hmap"

definition en_text_for :: "RetrievalEngine \<Rightarrow> utext \<Rightarrow> utext option" where
  "en_text_for en i =
     (case bm_text_for (en_bm25 en) i of
        Some t \<Rightarrow> Some t
      | None \<Rightarrow>
          (case hm_get (gi_text (en_graph en)) i of
             Some t \<Rightarrow> Some t
           | None \<Rightarrow>
               Option.bind (find (\<lambda>(_, lbl). lbl = i) (en_node_labels en)) (\<lambda>(nid, _). hm_get (en_node_text en) nid)))"

definition semantic_search ::
  "retrieval_env \<Rightarrow> RetrievalEngine \<Rightarrow> utext \<Rightarrow> nat \<Rightarrow> (BrainError + (utext \<times> f32) list) option" where
  "semantic_search E en query top_k =
     (case en_embedder en of
        None \<Rightarrow> Some (Inr [])
      | Some emb \<Rightarrow>
          (case emb query of
             Inl e \<Rightarrow> Some (Inl e)
           | Inr vector \<Rightarrow>
               map_option (\<lambda>hits. Inr (List.map_filter
                   (\<lambda>h. map_option (\<lambda>lbl. (lbl, hit_score h)) (hm_get (en_node_labels en) (hit_node h))) hits))
                 (nearest (rv_alloc E) (rv_arith E) vector top_k (en_embed en))))"

type_synonym fused = "(utext, f32 \<times> RetrievalSource list) hmap"

definition fuse_hit :: "retrieval_env \<Rightarrow> f32 \<Rightarrow> RetrievalSource \<Rightarrow> nat \<Rightarrow> utext \<Rightarrow> fused \<Rightarrow> fused" where
  "fuse_hit E weight src rank i m =
     (let F = rv_arith E;
          (score, sources) = (case hm_get m i of Some e \<Rightarrow> e | None \<Rightarrow> (f32_zero, []));
          gain = fa_div F weight (fa_add F (fa_add F (rv_rrf_k E) (fa_of_nat F rank)) f32_one)
      in hm_insert i (fa_add F score gain, sources @ [src]) m)"

definition fuse_list :: "retrieval_env \<Rightarrow> f32 \<Rightarrow> RetrievalSource \<Rightarrow> utext list \<Rightarrow> fused \<Rightarrow> fused" where
  "fuse_list E weight src ids m = fold (\<lambda>(rank, i). fuse_hit E weight src rank i) (List.enumerate 0 ids) m"

type_synonym candidate = "utext \<times> f32 \<times> RetrievalSource list"

definition cand_score :: "candidate \<Rightarrow> f32" where
  "cand_score c = fst (snd c)"

text \<open>The scores of the reranker go to the candidates by position.\<close>

fun overwrite_scores :: "candidate list \<Rightarrow> (utext \<times> f32) list \<Rightarrow> candidate list" where
  "overwrite_scores ((i, s, src) # cs) ((_, s') # rs) = (i, s', src @ [FromReranker]) # overwrite_scores cs rs"
| "overwrite_scores cs _ = cs"

definition rerank_step ::
  "RetrievalEngine \<Rightarrow> (utext \<Rightarrow> (utext \<times> f32) list \<Rightarrow> BrainError + (utext \<times> f32) list) option \<Rightarrow> utext \<Rightarrow> candidate list \<Rightarrow> candidate list"
where
  "rerank_step en reranker task cands =
     (case reranker of
        None \<Rightarrow> cands
      | Some rerank \<Rightarrow>
          (case rerank task (map (\<lambda>(i, s, _). (case en_text_for en i of Some t \<Rightarrow> t | None \<Rightarrow> i, s)) (take RERANK_CANDIDATES cands)) of
             Inl _ \<Rightarrow> cands
           | Inr rescored \<Rightarrow> sort_score cand_score (overwrite_scores cands rescored)))"

text \<open>\<open>Reranker::rerank\<close> as it is today, with and without its feature.\<close>

definition reranker_rerank :: "utext \<Rightarrow> (utext \<times> f32) list \<Rightarrow> BrainError + (utext \<times> f32) list" where
  "reranker_rerank query candidates = Inr candidates"

definition estimate_tokens :: "utext \<Rightarrow> u32" where
  "estimate_tokens s =
     (if s = [] then 0
      else word_of_nat ((length (as_bytes s) + CHARS_PER_TOKEN - 1) div CHARS_PER_TOKEN))"

text \<open>The sum of \<open>u32\<close> values wraps in a release build.\<close>

fun pack :: "(utext \<Rightarrow> utext option) \<Rightarrow> u32 \<Rightarrow> u32 \<Rightarrow> candidate list \<Rightarrow> ScoredHit list \<times> u32" where
  "pack txt budget used [] = ([], used)"
| "pack txt budget used ((i, score, sources) # cs) =
     (let t = (case txt i of Some t \<Rightarrow> t | None \<Rightarrow> i); est = estimate_tokens t in
      if budget < used + est then pack txt budget used cs
      else
        let hit = \<lparr>sh_id = i, sh_text = t, sh_score = f32_clamp f32_zero f32_one score, sh_sources = sources\<rparr> in
        if budget \<le> used + est then ([hit], used + est)
        else let (hits, total) = pack txt budget (used + est) cs in (hit # hits, total))"

definition fuse_all ::
  "retrieval_env \<Rightarrow> utext list \<Rightarrow> utext list \<Rightarrow> utext list \<Rightarrow> candidate list" where
  "fuse_all E bm sem gr =
     sort_score cand_score (rv_fused_order E
       (fuse_list E f32_half GraphWalk gr (fuse_list E f32_one Semantic sem (fuse_list E f32_one Bm25 bm []))))"

definition retrieve ::
  "retrieval_env \<Rightarrow> (utext \<Rightarrow> (utext \<times> f32) list \<Rightarrow> BrainError + (utext \<times> f32) list) option \<Rightarrow> nat \<Rightarrow> RetrievalEngine \<Rightarrow>
   utext \<Rightarrow> u32 \<Rightarrow> utext list \<Rightarrow> (BrainError + RetrievalResult) option" where
  "retrieve E reranker elapsed_ms en task budget anchors =
     (case semantic_search E en task 50 of
        None \<Rightarrow> None
      | Some (Inl e) \<Rightarrow> Some (Inl e)
      | Some (Inr semantic_hits) \<Rightarrow>
          let bm25_hits = bm_search E (en_bm25 en) task 50;
              graph_hits = two_hop E (en_graph en) anchors;
              cands = rerank_step en reranker task
                (fuse_all E (map fst bm25_hits) (map fst semantic_hits) (map fst graph_hits));
              (hits, used) = pack (en_text_for en) budget 0 cands
          in Some (Inr \<lparr>rr_hits = hits, rr_tokens_used = used, rr_budget_tokens = budget,
               rr_latency_ms = word_of_nat elapsed_ms\<rparr>))"

end
