(* ===== verification/Retrieval_Properties.thy ===== *)
theory Retrieval_Properties
  imports Retrieval "HOL-Library.Sublist"
begin

text \<open>
  Retrieval answers within its budget and leaves out nothing it found that still fits; a lexical hit shares a term
  with the query; the walk from the anchors finds exactly the labels within two edges.
\<close>

section \<open>Packing\<close>

definition shown :: "(utext \<Rightarrow> utext option) \<Rightarrow> utext \<Rightarrow> utext" where
  "shown tf i = (case tf i of Some t \<Rightarrow> t | None \<Rightarrow> i)"

definition cost :: "(utext \<Rightarrow> utext option) \<Rightarrow> utext \<Rightarrow> nat" where
  "cost tf i = unat (estimate_tokens (shown tf i))"

text \<open>A pack is good for the candidates it was made from.\<close>

definition good_pack :: "(utext \<Rightarrow> utext option) \<Rightarrow> u32 \<Rightarrow> nat \<Rightarrow> candidate list \<Rightarrow> ScoredHit list \<Rightarrow> u32 \<Rightarrow> bool" where
  "good_pack tf budget used cands hits spent \<longleftrightarrow>
     unat spent = used + (\<Sum>h\<leftarrow>hits. cost tf (sh_id h)) \<and> spent \<le> budget \<and>
     subseq (map sh_id hits) (map fst cands) \<and> (\<forall>h \<in> set hits. sh_text h = shown tf (sh_id h)) \<and>
     (\<forall>i \<in> set (map fst cands). i \<in> set (map sh_id hits) \<or> cost tf i = 0 \<or> unat budget < unat spent + cost tf i)"

lemma pack_good:
  assumes "\<And>i. i \<in> set (map fst cands) \<Longrightarrow> unat budget + cost tf i < 2 ^ 32" "used \<le> budget"
  shows "good_pack tf budget (unat used) cands (fst (pack tf budget used cands)) (snd (pack tf budget used cands))"
  using assms
proof (induction tf budget used cands rule: pack.induct)
  case (2 tf budget used i score sources cs)
  let ?est = "estimate_tokens (shown tf i)"
  have le: "unat used \<le> unat budget" using "2.prems"(2) by (simp add: word_le_nat_alt)
  with "2.prems"(1)[of i] have "unat used + unat ?est < 2 ^ 32" by (simp add: cost_def)
  then have sum: "unat (used + ?est) = unat used + cost tf i" by (simp add: unat_word_ariths cost_def)
  show ?case
  proof (cases "budget < used + ?est")
    case True
    have "good_pack tf budget (unat used) cs (fst (pack tf budget used cs)) (snd (pack tf budget used cs))"
      using "2.IH"(1)[OF refl refl] True "2.prems" by (simp add: shown_def)
    moreover have "unat budget < unat used + cost tf i" using True sum by (simp add: word_less_nat_alt)
    ultimately show ?thesis using True by (auto simp: good_pack_def shown_def)
  next
    case fits: False
    let ?hit = "\<lparr>sh_id = i, sh_text = shown tf i, sh_score = f32_clamp f32_zero f32_one score, sh_sources = sources\<rparr>"
    have fit: "used + ?est \<le> budget" using fits by (simp add: not_less)
    show ?thesis
    proof (cases "budget \<le> used + ?est")
      case True
      then have "pack tf budget used ((i, score, sources) # cs) = ([?hit], used + ?est)"
        using fits by (simp add: shown_def Let_def)
      moreover have "unat budget = unat used + cost tf i"
        using True fit sum by (simp add: word_le_nat_alt)
      ultimately show ?thesis using sum fit by (auto simp: good_pack_def)
    next
      case False
      let ?r = "pack tf budget (used + ?est) cs"
      have "good_pack tf budget (unat (used + ?est)) cs (fst ?r) (snd ?r)"
        using "2.IH"(2)[OF refl refl _ refl] False fits fit "2.prems"(1) by (simp add: shown_def)
      moreover have "pack tf budget used ((i, score, sources) # cs) = (?hit # fst ?r, snd ?r)"
        using False fits by (simp add: shown_def Let_def split_def)
      ultimately show ?thesis using sum by (auto simp: good_pack_def)
    qed
  qed
qed (simp add: good_pack_def)

lemma good_packD:
  assumes "good_pack tf budget used cands hits spent"
  shows "unat spent = used + (\<Sum>h\<leftarrow>hits. cost tf (sh_id h))" "spent \<le> budget"
    "set (map sh_id hits) \<subseteq> set (map fst cands)"
    "\<forall>i \<in> set (map fst cands). i \<in> set (map sh_id hits) \<or> cost tf i = 0 \<or> unat budget < unat spent + cost tf i"
proof -
  show "unat spent = used + (\<Sum>h\<leftarrow>hits. cost tf (sh_id h))" "spent \<le> budget"
      "\<forall>i \<in> set (map fst cands). i \<in> set (map sh_id hits) \<or> cost tf i = 0 \<or> unat budget < unat spent + cost tf i"
    using assms unfolding good_pack_def by blast+
  have "subseq (map sh_id hits) (map fst cands)" using assms unfolding good_pack_def by blast
  then obtain N where "map sh_id hits = nths (map fst cands) N" by (auto simp: subseq_conv_nths)
  then show "set (map sh_id hits) \<subseteq> set (map fst cands)" by (simp only: set_nths_subset)
qed

section \<open>Fusion\<close>

lemma keys_fuse_hit [simp]: "set (hm_keys (fuse_hit E w src rank i m)) = insert i (set (hm_keys m))"
  by (simp add: fuse_hit_def Let_def split_def)

lemma keys_fuse_list [simp]: "set (hm_keys (fuse_list E w src ids m)) = set ids \<union> set (hm_keys m)"
proof -
  have "set (hm_keys (fold (\<lambda>(rank, i). fuse_hit E w src rank i) ps m)) = snd ` set ps \<union> set (hm_keys m)" for ps
    by (induction ps arbitrary: m) (auto simp: split_def)
  moreover have "snd ` set (List.enumerate 0 ids) = set ids" by (metis map_snd_enumerate set_map)
  ultimately show ?thesis by (simp add: fuse_list_def)
qed

definition fair_order :: "retrieval_env \<Rightarrow> bool" where
  "fair_order E \<longleftrightarrow> (\<forall>m. mset (rv_fused_order E m) = mset m) \<and> (\<forall>m. mset (rv_depth_order E m) = mset m)"

lemma set_fuse_all:
  assumes "fair_order E"
  shows "fst ` set (fuse_all E bm sem gr) = set bm \<union> set sem \<union> set gr"
proof -
  let ?m = "fuse_list E f32_half GraphWalk gr (fuse_list E f32_one Semantic sem (fuse_list E f32_one Bm25 bm []))"
  have "set (rv_fused_order E ?m) = set ?m" using assms unfolding fair_order_def by (metis set_mset_mset)
  then have "fst ` set (fuse_all E bm sem gr) = set (hm_keys ?m)" by (simp add: fuse_all_def hm_keys_def)
  also have "set (hm_keys ?m) = set bm \<union> set sem \<union> set gr" by (auto simp: hm_keys_def[of "[]"])
  finally show ?thesis .
qed

lemma map_fst_overwrite: "map fst (overwrite_scores cs rs) = map fst cs"
  by (induction cs rs rule: overwrite_scores.induct) auto

lemma set_rerank_step: "fst ` set (rerank_step en rr task cs) = fst ` set cs"
proof -
  have "fst ` set (overwrite_scores cs rs) = fst ` set cs" for rs
    using map_fst_overwrite[of cs rs] by (metis set_map)
  then show ?thesis by (auto simp: rerank_step_def split: option.split sum.split)
qed

text \<open>
  C32: Whenever the query can be embedded, retrieval answers: the tokens of its hits add up to what it reports and stay
  within the budget, every hit was found by one of the three retrievers, and nothing found is left out that has a
  token and would still fit. This holds with any reranker, any rounding and any order of the hash maps, as long as
  the budget and any one text that was found together stay below \<open>2 ^ 32\<close> tokens.
\<close>

theorem retrieve_fills_budget:
  assumes "semantic_search E en task 50 = Some (Inr sem)" "fair_order E"
    and "\<And>i. i \<in> set (map fst (bm_search E (en_bm25 en) task 50) @ map fst sem @ map fst (two_hop E (en_graph en) anchors)) \<Longrightarrow>
      unat budget + cost (en_text_for en) i < 2 ^ 32"
  shows "\<exists>r. retrieve E reranker ms en task budget anchors = Some (Inr r) \<and>
    unat (rr_tokens_used r) = (\<Sum>h\<leftarrow>rr_hits r. cost (en_text_for en) (sh_id h)) \<and> rr_tokens_used r \<le> budget \<and>
    set (map sh_id (rr_hits r)) \<subseteq>
      set (map fst (bm_search E (en_bm25 en) task 50) @ map fst sem @ map fst (two_hop E (en_graph en) anchors)) \<and>
    (\<forall>i \<in> set (map fst (bm_search E (en_bm25 en) task 50) @ map fst sem @ map fst (two_hop E (en_graph en) anchors)).
       i \<in> set (map sh_id (rr_hits r)) \<or> cost (en_text_for en) i = 0 \<or>
       unat budget < unat (rr_tokens_used r) + cost (en_text_for en) i)"
proof -
  let ?found = "map fst (bm_search E (en_bm25 en) task 50) @ map fst sem @ map fst (two_hop E (en_graph en) anchors)"
  let ?c = "rerank_step en reranker task (fuse_all E (map fst (bm_search E (en_bm25 en) task 50)) (map fst sem)
      (map fst (two_hop E (en_graph en) anchors)))"
  let ?p = "pack (en_text_for en) budget 0 ?c"
  have ids: "set (map fst ?c) = set ?found"
    by (simp add: set_rerank_step set_fuse_all[OF assms(2)] Un_assoc)
  obtain hits spent where p: "?p = (hits, spent)" by fastforce
  have "good_pack (en_text_for en) budget (unat (0 :: u32)) ?c hits spent"
    using pack_good[of ?c budget "en_text_for en" 0] assms(3) p unfolding ids by simp
  note good = good_packD[OF this, unfolded ids unsigned_0 add_0]
  have "retrieve E reranker ms en task budget anchors = Some (Inr \<lparr>rr_hits = hits, rr_tokens_used = spent,
      rr_budget_tokens = budget, rr_latency_ms = word_of_nat ms\<rparr>)"
    using assms(1) p by (simp add: retrieve_def)
  then show ?thesis
    using good by (intro exI[of _ "\<lparr>rr_hits = hits, rr_tokens_used = spent, rr_budget_tokens = budget,
      rr_latency_ms = word_of_nat ms\<rparr>"] conjI) (simp_all only: RetrievalResult.select_convs)
qed

definition demo_retrieval :: retrieval_env where
  "demo_retrieval = \<lparr>rv_arith = \<lparr>fa_add = \<lambda>a b. b, fa_sub = \<lambda>a b. a, fa_mul = \<lambda>a b. a, fa_div = \<lambda>a b. a, fa_sqrt = \<lambda>a. a,
       fa_ln = \<lambda>a. a, fa_of_nat = word_of_nat\<rparr>,
     rv_alloc = \<lambda>n. n \<le> 2 ^ 30, rv_k1 = 0x3FC00000, rv_b = 0x3F400000, rv_rrf_k = 0x42700000, rv_unicode = \<lparr>u_alnum = \<lambda>_. False, u_lower = \<lambda>c. [c]\<rparr>,
     rv_str_lower = \<lambda>s. s, rv_depth_order = \<lambda>m. m, rv_fused_order = \<lambda>m. m\<rparr>"

definition demo_index :: RetrievalEngine where
  "demo_index = \<lparr>en_bm25 = build_from_documents demo_retrieval [], en_embed = empty_state,
     en_graph = gi_add_edge [97] [98] empty_graph, en_embedder = None, en_node_text = [], en_node_labels = []\<rparr>"

lemma demo_two_hop: "two_hop demo_retrieval (en_graph demo_index) [[97]] = [([97], 0), ([98], 1)]"
  by (simp add: two_hop_def demo_retrieval_def demo_index_def gi_add_edge_def gi_add_node_def empty_graph_def visit_anchor_def
      visit_neighbor_def neighbors_def or_insert_def min_insert_def)

theorem retrieve_fills_budget_witness:
  "\<exists>r. retrieve demo_retrieval None 0 demo_index [97] 100 [[97]] = Some (Inr r) \<and>
    unat (rr_tokens_used r) = (\<Sum>h\<leftarrow>rr_hits r. cost (en_text_for demo_index) (sh_id h)) \<and> rr_tokens_used r \<le> 100"
proof -
  have sem: "semantic_search demo_retrieval demo_index [97] 50 = Some (Inr [])"
    by (simp add: semantic_search_def demo_index_def)
  have fair: "fair_order demo_retrieval" by (simp add: fair_order_def demo_retrieval_def)
  have bm: "bm_search demo_retrieval (en_bm25 demo_index) [97] 50 = []"
    by (simp add: bm_search_def demo_index_def build_from_documents_def)
  have "cost (en_text_for demo_index) [97] = 1" "cost (en_text_for demo_index) [98] = 1"
    by (simp_all add: cost_def shown_def en_text_for_def demo_index_def build_from_documents_def bm_text_for_def
        gi_add_edge_def gi_add_node_def empty_graph_def estimate_tokens_def as_bytes_def utf8_char_def CHARS_PER_TOKEN_def)
  then have fits: "unat (100 :: u32) + cost (en_text_for demo_index) i < 2 ^ 32"
    if "i \<in> set (map fst (bm_search demo_retrieval (en_bm25 demo_index) [97] 50) @ map fst [] @
      map fst (two_hop demo_retrieval (en_graph demo_index) [[97]]))" for i
    using that by (auto simp: bm demo_two_hop)
  from retrieve_fills_budget[OF sem fair fits, of "[[97]]" None 0] show ?thesis by blast
qed

section \<open>Lexical hits\<close>

lemma term_score_absent:
  "hm_get (de_terms doc) t = None \<Longrightarrow> f32_eq (fa_of_nat (rv_arith E) 0) f32_zero \<Longrightarrow> term_score E idx doc t s = s"
  by (simp add: term_score_def)

lemma doc_score_disjoint:
  assumes "\<forall>t \<in> set q. hm_get (de_terms doc) t = None" "f32_eq (fa_of_nat (rv_arith E) 0) f32_zero"
  shows "doc_score E idx q doc = f32_zero"
proof -
  have "fold (term_score E idx doc) q s = s" for s
    using assms by (induction q arbitrary: s) (simp_all add: term_score_absent)
  then show ?thesis by (simp add: doc_score_def)
qed

lemma terms_of_tokens: "hm_get (de_terms (doc_entry tokens)) t \<noteq> None \<longleftrightarrow> t \<in> set tokens"
proof -
  have "hm_get (fold bump_term tokens m) t \<noteq> None \<longleftrightarrow> t \<in> set tokens \<or> hm_get m t \<noteq> None" for m
    by (induction tokens arbitrary: m) (auto simp: bump_term_def)
  then show ?thesis by (simp add: doc_entry_def)
qed

text \<open>A lexical hit is a document of the corpus that has a term of the query.\<close>

theorem bm_hit_shares_term:
  assumes "f32_eq (fa_of_nat (rv_arith E) 0) f32_zero"
    and hit: "(i, s) \<in> set (bm_search E (build_from_documents E docs) query k)"
  shows "\<exists>t. (i, t) \<in> set docs \<and> set (bm_tokenize E query) \<inter> set (bm_tokenize E t) \<noteq> {}"
proof -
  let ?idx = "build_from_documents E docs" let ?q = "bm_tokenize E query"
  obtain n where n: "n < length (bm_docs ?idx)" "i = bm_ids ?idx ! n"
      "f32_less f32_zero (doc_score E ?idx ?q (bm_docs ?idx ! n))"
    using hit by (fastforce simp: bm_search_def Let_def in_set_enumerate_eq dest!: in_set_takeD split: if_splits)
  obtain j t where jt: "docs ! n = (j, t)" by fastforce
  with n have doc: "bm_docs ?idx ! n = doc_entry (bm_tokenize E t)" "i = j" "n < length docs"
    by (simp_all add: build_from_documents_def Let_def)
  have "\<not> f32_less f32_zero f32_zero" by (simp add: f32_less_def)
  with n(3) doc_score_disjoint[OF _ assms(1)] obtain w where "w \<in> set ?q" "hm_get (de_terms (bm_docs ?idx ! n)) w \<noteq> None"
    by metis
  then have "w \<in> set (bm_tokenize E t)" using doc(1) terms_of_tokens by metis
  with \<open>w \<in> set ?q\<close> doc jt show ?thesis by (metis disjoint_iff nth_mem)
qed

section \<open>The walk from the anchors\<close>

definition gi_wf :: "GraphIndex \<Rightarrow> bool" where
  "gi_wf g \<longleftrightarrow> distinct (gi_nodes g) \<and>
     (\<forall>l i. hm_get (gi_by_label g) l = Some i \<longleftrightarrow> i < length (gi_nodes g) \<and> gi_nodes g ! i = l) \<and>
     (\<forall>(a, b) \<in> set (gi_edges g). a < length (gi_nodes g) \<and> b < length (gi_nodes g))"

definition label_edges :: "GraphIndex \<Rightarrow> (utext \<times> utext) list" where
  "label_edges g = map (\<lambda>(a, b). (gi_nodes g ! a, gi_nodes g ! b)) (gi_edges g)"

lemma gi_wf_empty [simp]: "gi_wf empty_graph" "label_edges empty_graph = []" "gi_nodes empty_graph = []"
  by (simp_all add: gi_wf_def label_edges_def empty_graph_def)

lemma add_node_wf:
  assumes wf: "gi_wf g" and add: "gi_add_node l t g = (ix, g')"
  shows "gi_wf g' \<and> ix < length (gi_nodes g') \<and> gi_nodes g' ! ix = l \<and> label_edges g' = label_edges g \<and>
    set (gi_nodes g') = insert l (set (gi_nodes g)) \<and> gi_edges g' = gi_edges g \<and>
    (\<forall>i < length (gi_nodes g). i < length (gi_nodes g') \<and> gi_nodes g' ! i = gi_nodes g ! i)"
proof (cases "hm_get (gi_by_label g) l")
  case (Some i)
  with assms show ?thesis by (auto simp: gi_add_node_def gi_wf_def)
next
  case None
  have new: "l \<notin> set (gi_nodes g)"
  proof
    assume "l \<in> set (gi_nodes g)"
    then obtain i where "i < length (gi_nodes g)" "gi_nodes g ! i = l" by (auto simp: in_set_conv_nth)
    with wf have "hm_get (gi_by_label g) l = Some i" unfolding gi_wf_def by blast
    with None show False by simp
  qed
  have edges: "a < length (gi_nodes g) \<and> b < length (gi_nodes g)" if "(a, b) \<in> set (gi_edges g)" for a b
    using wf that by (auto simp: gi_wf_def)
  have "label_edges g' = label_edges g"
    using edges add None by (auto simp: gi_add_node_def label_edges_def Let_def nth_append dest: edges)
  moreover have "gi_wf g'"
  proof -
    have by_label: "hm_get (gi_by_label g) l' = Some i \<longleftrightarrow> i < length (gi_nodes g) \<and> gi_nodes g ! i = l'" for l' i
      using wf unfolding gi_wf_def by blast
    have fresh: "i < length (gi_nodes g) \<Longrightarrow> gi_nodes g ! i \<noteq> l" for i using new by force
    have "distinct (gi_nodes g)" using wf by (simp add: gi_wf_def)
    with add None new show ?thesis
      by (auto simp: gi_add_node_def gi_wf_def Let_def by_label nth_append less_Suc_eq fresh dest: edges split: if_splits)
  qed
  ultimately show ?thesis
    using add None by (auto simp: gi_add_node_def Let_def nth_append)
qed

lemma add_edge_wf:
  assumes "gi_wf g"
  shows "gi_wf (gi_add_edge a b g)" "label_edges (gi_add_edge a b g) = label_edges g @ [(a, b)]"
    "set (gi_nodes (gi_add_edge a b g)) = set (gi_nodes g) \<union> {a, b}"
proof -
  obtain i g1 where 1: "gi_add_node a a g = (i, g1)" by fastforce
  obtain j g2 where 2: "gi_add_node b b g1 = (j, g2)" by fastforce
  note w1 = add_node_wf[OF assms 1] then have "gi_wf g1" by blast
  note w2 = add_node_wf[OF this 2]
  have "gi_add_edge a b g = g2\<lparr>gi_edges := gi_edges g2 @ [(i, j)]\<rparr>" using 1 2 by (simp add: gi_add_edge_def)
  with w1 w2 show "gi_wf (gi_add_edge a b g)" "label_edges (gi_add_edge a b g) = label_edges g @ [(a, b)]"
      "set (gi_nodes (gi_add_edge a b g)) = set (gi_nodes g) \<union> {a, b}"
    by (auto simp: gi_wf_def label_edges_def)
qed

definition graph_of :: "(utext \<times> utext) list \<Rightarrow> GraphIndex" where
  "graph_of es = fold (\<lambda>(a, b). gi_add_edge a b) es empty_graph"

lemma graph_of_wf: "gi_wf (graph_of es) \<and> label_edges (graph_of es) = es \<and> set (gi_nodes (graph_of es)) = fst ` set es \<union> snd ` set es"
proof (induction es rule: rev_induct)
  case (snoc e es)
  then show ?case by (cases e) (auto simp: graph_of_def add_edge_wf)
qed (simp add: graph_of_def)

lemma neighbors_labels:
  assumes "gi_wf g" "hm_get (gi_by_label g) a = Some i"
  shows "(\<lambda>n. gi_nodes g ! n) ` set (neighbors g i) = {y. (a, y) \<in> set (label_edges g)}"
    "\<forall>n \<in> set (neighbors g i). hm_get (gi_by_label g) (gi_nodes g ! n) = Some n"
proof -
  have inj: "x = i" if "(x, y) \<in> set (gi_edges g)" "gi_nodes g ! x = a" for x y
    using assms that by (auto simp: gi_wf_def nth_eq_iff_index_eq)
  have i: "gi_nodes g ! i = a" using assms unfolding gi_wf_def by blast
  show "(\<lambda>n. gi_nodes g ! n) ` set (neighbors g i) = {y. (a, y) \<in> set (label_edges g)}"
  proof (intro equalityI subsetI)
    fix y assume "y \<in> (\<lambda>n. gi_nodes g ! n) ` set (neighbors g i)"
    then obtain n where "(i, n) \<in> set (gi_edges g)" "y = gi_nodes g ! n" by (auto simp: neighbors_def)
    then show "y \<in> {y. (a, y) \<in> set (label_edges g)}" using i by (force simp: label_edges_def)
  next
    fix y assume "y \<in> {y. (a, y) \<in> set (label_edges g)}"
    then obtain x n where xn: "(x, n) \<in> set (gi_edges g)" "gi_nodes g ! x = a" "y = gi_nodes g ! n"
      by (auto simp: label_edges_def)
    with inj[OF xn(1,2)] have "n \<in> set (neighbors g i)" by (force simp: neighbors_def)
    with xn(3) show "y \<in> (\<lambda>n. gi_nodes g ! n) ` set (neighbors g i)" by blast
  qed
  show "\<forall>n \<in> set (neighbors g i). hm_get (gi_by_label g) (gi_nodes g ! n) = Some n"
    using assms by (fastforce simp: neighbors_def gi_wf_def)
qed

text \<open>The depth a map holds for a label, with 3 for none.\<close>

definition depth :: "(utext, u32) hmap \<Rightarrow> utext \<Rightarrow> nat" where
  "depth m l = (case hm_get m l of Some d \<Rightarrow> unat d | None \<Rightarrow> 3)"

definition shallow :: "(utext, u32) hmap \<Rightarrow> bool" where
  "shallow m \<longleftrightarrow> hm_wf m \<and> (\<forall>l d. hm_get m l = Some d \<longrightarrow> unat d \<le> 2)"

lemma depth_iff: "shallow m \<Longrightarrow> depth m l < 3 \<longleftrightarrow> l \<in> fst ` set m"
proof (cases "hm_get m l")
  case (Some d)
  moreover assume "shallow m"
  ultimately have "unat d \<le> 2" unfolding shallow_def by blast
  with Some hm_get_iff_keys[of m l] show ?thesis by (simp add: depth_def hm_keys_def)
next
  case None
  with hm_get_iff_keys[of m l] show ?thesis by (simp add: depth_def hm_keys_def)
qed

lemma depth_min_insert [simp]:
  "unat d \<le> 2 \<Longrightarrow> depth (min_insert d l m) l' = (if l' = l then min (depth m l) (unat d) else depth m l')"
  by (auto simp: depth_def min_insert_def min_def word_le_nat_alt split: option.split)

lemma shallow_min_insert [simp]: "shallow m \<Longrightarrow> unat d \<le> 2 \<Longrightarrow> shallow (min_insert d l m)"
  by (auto simp: shallow_def min_insert_def min_def word_le_nat_alt split: option.split)

lemma depth_fold_insert:
  "depth (fold (\<lambda>n2. min_insert 2 (f n2)) ns m) l = (if l \<in> f ` set ns then min (depth m l) 2 else depth m l)"
  by (induction ns arbitrary: m) auto

lemma shallow_fold_insert: "shallow m \<Longrightarrow> shallow (fold (\<lambda>n2. min_insert 2 (f n2)) ns m)"
  by (induction ns arbitrary: m) auto

lemma shallow_le: "shallow m \<Longrightarrow> depth m l \<le> 3"
  by (auto simp: shallow_def depth_def split: option.split) fastforce

lemma visit_neighbor_depth:
  assumes wf: "gi_wf g" and y: "hm_get (gi_by_label g) y = Some n1" and m: "shallow m"
  shows "shallow (visit_neighbor g n1 m)"
    "depth (visit_neighbor g n1 m) l =
       min (depth m l) (if l = y then 1 else if (y, l) \<in> set (label_edges g) then 2 else 3)"
proof -
  have y': "gi_nodes g ! n1 = y" using wf y unfolding gi_wf_def by blast
  show "shallow (visit_neighbor g n1 m)" using m by (simp add: visit_neighbor_def shallow_fold_insert)
  show "depth (visit_neighbor g n1 m) l =
      min (depth m l) (if l = y then 1 else if (y, l) \<in> set (label_edges g) then 2 else 3)"
    unfolding visit_neighbor_def depth_fold_insert neighbors_labels(1)[OF wf y] y'
    using shallow_le[OF m, of l] by simp
qed

lemma visit_neighbors_depth:
  assumes wf: "gi_wf g" and "\<forall>n \<in> set ns. hm_get (gi_by_label g) (gi_nodes g ! n) = Some n" and "shallow m"
  shows "shallow (fold (visit_neighbor g) ns m) \<and> depth (fold (visit_neighbor g) ns m) l =
    min (depth m l) (if l \<in> (\<lambda>n. gi_nodes g ! n) ` set ns then 1
      else if \<exists>y \<in> (\<lambda>n. gi_nodes g ! n) ` set ns. (y, l) \<in> set (label_edges g) then 2 else 3)"
  using assms(2,3)
proof (induction ns arbitrary: m)
  case Nil
  then show ?case using shallow_le[of m l] by simp
next
  case (Cons n ns)
  then have n: "hm_get (gi_by_label g) (gi_nodes g ! n) = Some n" by simp
  note v = visit_neighbor_depth[OF wf n Cons.prems(2)]
  from Cons.IH[OF _ v(1)] Cons.prems(1) show ?case by (auto simp: v(2) min_def)
qed

text \<open>How far a label is from an anchor, one and two edges away; 3 is further.\<close>

definition near :: "(utext \<times> utext) set \<Rightarrow> utext \<Rightarrow> utext \<Rightarrow> nat" where
  "near R a l = (if (a, l) \<in> R then 1 else if (a, l) \<in> R O R then 2 else 3)"

lemma visit_anchor_depth:
  assumes wf: "gi_wf g" and m: "shallow m"
  shows "shallow (visit_anchor g a m) \<and> depth (visit_anchor g a m) l =
    min (if l = a \<and> a \<in> set (gi_nodes g) \<and> hm_get m a = None then 0 else depth m l) (near (set (label_edges g)) a l)"
proof (cases "hm_get (gi_by_label g) a")
  case None
  have no: "a \<notin> set (gi_nodes g)"
  proof
    assume "a \<in> set (gi_nodes g)"
    then obtain i where "i < length (gi_nodes g)" "gi_nodes g ! i = a" by (auto simp: in_set_conv_nth)
    with wf have "hm_get (gi_by_label g) a = Some i" unfolding gi_wf_def by blast
    with None show False by simp
  qed
  moreover have "fst ` set (label_edges g) \<subseteq> set (gi_nodes g)"
    using wf by (auto simp: label_edges_def gi_wf_def)
  ultimately have "near (set (label_edges g)) a l = 3" by (force simp: near_def)
  with None no m shallow_le[OF m, of l] show ?thesis by (simp add: visit_anchor_def)
next
  case (Some i)
  have a: "a \<in> set (gi_nodes g)" using wf Some unfolding gi_wf_def by (metis nth_mem)
  let ?m = "or_insert a 0 m"
  have sh: "shallow ?m" using m by (auto simp: or_insert_def shallow_def split: option.split)
  have d: "depth ?m l = (if l = a \<and> hm_get m a = None then 0 else depth m l)"
    by (auto simp: or_insert_def depth_def split: option.split)
  have "(\<exists>y \<in> {y. (a, y) \<in> R}. (y, l) \<in> R) \<longleftrightarrow> (a, l) \<in> R O R" for R :: "(utext \<times> utext) set" by auto
  with visit_neighbors_depth[OF wf neighbors_labels(2)[OF wf Some] sh, of l] a d
  show ?thesis
    by (simp add: visit_anchor_def Some neighbors_labels(1)[OF wf Some] near_def)
qed

lemma visit_anchor_found:
  assumes "gi_wf g" "shallow m"
  shows "depth (visit_anchor g a m) l < 3 \<longleftrightarrow>
    depth m l < 3 \<or> (l = a \<and> a \<in> set (gi_nodes g)) \<or> near (set (label_edges g)) a l < 3"
proof -
  have "hm_get m l \<noteq> None \<Longrightarrow> depth m l < 3"
    using depth_iff[OF assms(2), of l] hm_get_iff_keys[of m l] by (simp add: hm_keys_def)
  with visit_anchor_depth[OF assms, of a l] show ?thesis by (auto simp: min_less_iff_disj)
qed

lemma visit_anchors_found:
  assumes "gi_wf g" "shallow m"
  shows "shallow (fold (visit_anchor g) as m) \<and> (depth (fold (visit_anchor g) as m) l < 3 \<longleftrightarrow>
    depth m l < 3 \<or> l \<in> set as \<inter> set (gi_nodes g) \<or> (\<exists>a \<in> set as. near (set (label_edges g)) a l < 3))"
  using assms(2)
proof (induction as arbitrary: m)
  case (Cons a as)
  have "shallow (visit_anchor g a m)" using visit_anchor_depth[OF assms(1) Cons.prems] by blast
  from Cons.IH[OF this] visit_anchor_found[OF assms(1) Cons.prems, of a l] show ?case by auto
qed simp

lemma visit_anchors_depth:
  assumes "gi_wf g" "shallow m" "l \<notin> set as"
  shows "depth (fold (visit_anchor g) as m) l =
    fold (\<lambda>a d. min d (near (set (label_edges g)) a l)) as (depth m l)"
  using assms(2,3)
proof (induction as arbitrary: m)
  case (Cons a as)
  have "shallow (visit_anchor g a m)" "depth (visit_anchor g a m) l = min (depth m l) (near (set (label_edges g)) a l)"
    using visit_anchor_depth[OF assms(1) Cons.prems(1), of a l] Cons.prems(2) by simp_all
  with Cons.IH Cons.prems(2) show ?case by simp
qed simp

lemma fold_min_near:
  "d \<le> 3 \<Longrightarrow> fold (\<lambda>a d. min d (near R a l)) as d =
    min d (if \<exists>a \<in> set as. (a, l) \<in> R then 1 else if \<exists>a \<in> set as. (a, l) \<in> R O R then 2 else 3)"
  by (induction as arbitrary: d) (auto simp: near_def min_def)

text \<open>
  C33: The walk finds exactly the labels within two edges of an anchor that is in the graph, the anchors included, each
  once and in the order of their depths; a label that is no anchor has the depth of its shortest way.
\<close>

theorem two_hop_exact:
  assumes "fair_order E"
  shows "set (map fst (two_hop E (graph_of es) anchors)) =
      set anchors \<inter> (fst ` set es \<union> snd ` set es) \<union> {l. \<exists>a \<in> set anchors. (a, l) \<in> set es \<union> set es O set es} \<and>
    distinct (map fst (two_hop E (graph_of es) anchors)) \<and> sorted (map (unat \<circ> snd) (two_hop E (graph_of es) anchors)) \<and>
    (\<forall>(l, d) \<in> set (two_hop E (graph_of es) anchors).
       l \<in> set anchors \<or> unat d = (if \<exists>a \<in> set anchors. (a, l) \<in> set es then 1 else 2))"
proof -
  let ?g = "graph_of es" and ?m = "fold (visit_anchor (graph_of es)) anchors []"
  have g: "gi_wf ?g" "label_edges ?g = es" "set (gi_nodes ?g) = fst ` set es \<union> snd ` set es"
    using graph_of_wf[of es] by blast+
  have empty: "shallow []" "\<And>l. depth [] l = 3" by (simp_all add: shallow_def depth_def)
  note found = visit_anchors_found[OF g(1) empty(1), of anchors, unfolded g(2,3) empty(2)]
  have m: "shallow ?m" using found by blast
  have near: "near R a l < 3 \<longleftrightarrow> (a, l) \<in> R \<union> R O R" for R a l by (simp add: near_def)
  have perm: "mset (two_hop E ?g anchors) = mset ?m"
    using assms by (simp add: two_hop_def fair_order_def)
  then have set: "set (two_hop E ?g anchors) = set ?m" by (metis set_mset_mset)
  have "distinct (map fst ?m)" using m by (simp add: shallow_def hm_wf_def hm_keys_def)
  then have dist: "distinct (map fst (two_hop E ?g anchors))"
    using perm by (metis mset_eq_imp_distinct_iff mset_map)
  have keys: "fst ` set ?m = {l. depth ?m l < 3}" using depth_iff[OF m] by blast
  have "unat d = (if \<exists>a \<in> set anchors. (a, l) \<in> set es then 1 else 2)" if "(l, d) \<in> set ?m" "l \<notin> set anchors" for l d
  proof -
    have "hm_get ?m l = Some d" using m that(1) by (simp add: shallow_def hm_get_mem)
    then have d: "depth ?m l = unat d" by (simp add: depth_def)
    have "l \<in> fst ` set ?m" using that(1) by force
    with keys d have "unat d < 3" by auto
    with d visit_anchors_depth[OF g(1) empty(1) that(2)] show ?thesis
      by (simp add: fold_min_near g(2) empty(2) split: if_splits)
  qed
  moreover have "sorted (map (unat \<circ> snd) (two_hop E ?g anchors))"
    unfolding two_hop_def comp_def by (rule sorted_sort_key)
  moreover have "set (map fst (two_hop E ?g anchors)) =
      set anchors \<inter> (fst ` set es \<union> snd ` set es) \<union> {l. \<exists>a \<in> set anchors. (a, l) \<in> set es \<union> set es O set es}"
    unfolding set_map set keys using found by (auto simp: near)
  ultimately show ?thesis using dist unfolding set by blast
qed

theorem two_hop_exact_witness:
  "set (map fst (two_hop demo_retrieval (graph_of [([97], [98]), ([98], [99]), ([99], [100])]) [[97]])) = {[97], [98], [99]}"
proof -
  have "fair_order demo_retrieval" by (simp add: fair_order_def demo_retrieval_def)
  note e = conjunct1[OF two_hop_exact[OF this, of "[([97], [98]), ([98], [99]), ([99], [100])]" "[[97]]"]]
  show ?thesis unfolding e by auto
qed

text \<open>The depth of an anchor depends on the order of the anchors: one that was met as a neighbour first keeps depth 1.\<close>

theorem anchor_depth_by_order:
  "two_hop demo_retrieval (graph_of [([97], [98])]) [[97], [98]] = [([97], 0), ([98], 1)] \<and>
   two_hop demo_retrieval (graph_of [([97], [98])]) [[98], [97]] = [([98], 0), ([97], 0)]"
  by (simp add: graph_of_def two_hop_def demo_retrieval_def gi_add_edge_def gi_add_node_def empty_graph_def visit_anchor_def
      visit_neighbor_def neighbors_def or_insert_def min_insert_def)

end
