(* ===== verification/Ledger.thy ===== *)
theory Ledger
  imports Brain_Base Unicode_Text
begin

text \<open>
  The step ledger (\<open>brain/src/ledger.rs\<close>): one row per entry in the tasks database and its full-text mirror. The JSON
  codec, the full-text search, the calendar of the \<open>chrono\<close> crate and the failures of the database are arguments. Rows
  stand in the order of their row ids, which no operation reuses since none deletes a row.
\<close>

section \<open>Entries\<close>

datatype StepKind =
    Decision (chosen: string) (rejected: "string list")
  | Implementation
  | Bug (symptom: string) (root_cause: "string option")
  | OpenQuestion (question: string) (resolved_by: "string option")
  | Refactor (before: string) (after: string)
  | Experiment (outcome: string)

fun tag :: "StepKind \<Rightarrow> string" where
  "tag (Decision _ _) = ''decision''"
| "tag Implementation = ''impl''"
| "tag (Bug _ _) = ''bug''"
| "tag (OpenQuestion _ _) = ''open_question''"
| "tag (Refactor _ _) = ''refactor''"
| "tag (Experiment _) = ''experiment''"

record TranscriptRef =
  tr_session_id :: string
  tr_turn_index :: "u64 option"
  tr_message_id :: "string option"

text \<open>An instant of the calendar is its distance from the epoch in nanoseconds.\<close>

type_synonym DateTime = int

record StepEntry =
  se_id :: string
  se_session_id :: string
  se_timestamp :: DateTime
  se_kind :: StepKind
  se_summary :: string
  se_rationale :: "string option"
  se_touched_files :: "path list"
  se_touched_concepts :: "string list"
  se_transcript_span :: "TranscriptRef option"
  se_embedding :: "f32 list option"

record RecallQuery =
  rq_text :: utext
  rq_kinds :: "string list"
  rq_limit :: usize
  rq_since :: "DateTime option"
  rq_session_id :: "string option"
  rq_embedding :: "f32 list option"

record ResumeBundle =
  rb_session_id :: string
  rb_generated_at :: DateTime
  rb_recent_decisions :: "StepEntry list"
  rb_recent_implementations :: "StepEntry list"
  rb_open_questions :: "StepEntry list"
  rb_timeline :: "StepEntry list"

datatype LedgerError = LedgerSqlite string | LedgerIo io_error | LedgerSerde string | LedgerInvalid string

section \<open>Rows\<close>

record ledger_row =
  lr_id :: string
  lr_session_id :: string
  lr_timestamp :: i64
  lr_kind :: string
  lr_summary :: string
  lr_rationale :: "string option"
  lr_touched_files :: string
  lr_touched_concepts :: string
  lr_transcript_ref :: "string option"
  lr_kind_payload :: string
  lr_embedding :: "bytes option"

record ledger_db =
  lb_rows :: "ledger_row list"
  lb_fts :: "(nat \<times> string) list"

record json_codec =
  js_paths :: "path list \<Rightarrow> string + string"
  js_strings :: "string list \<Rightarrow> string + string"
  js_span :: "TranscriptRef \<Rightarrow> string + string"
  js_kind :: "StepKind \<Rightarrow> string + string"
  js_paths_of :: "string \<Rightarrow> string + path list"
  js_strings_of :: "string \<Rightarrow> string + string list"
  js_span_of :: "string \<Rightarrow> string + TranscriptRef"
  js_kind_of :: "string \<Rightarrow> string + StepKind"

text \<open>
  What the database answers: the errors of the statements, the order of the rows a statement that sorts by time
  gives, which SQL leaves open for rows of the same time, and the row ids a full-text query finds, if SQLite
  accepts it. \<open>from_timestamp_millis\<close> has a value in the range of the calendar only.
\<close>

record ledger_env =
  lv_json :: json_codec
  lv_from_millis :: "i64 \<Rightarrow> DateTime option"
  lv_fts :: "utext \<Rightarrow> (nat \<times> string) list \<Rightarrow> nat list option"
  lv_order :: "RecallQuery option \<Rightarrow> ledger_db \<Rightarrow> ledger_row list \<Rightarrow> ledger_row list"
  lv_begin :: "ledger_db \<Rightarrow> string option"
  lv_insert :: "ledger_row \<Rightarrow> ledger_db \<Rightarrow> string option"
  lv_insert_fts :: "ledger_db \<Rightarrow> string option"
  lv_commit :: "ledger_db \<Rightarrow> string option"
  lv_prepare :: "ledger_db \<Rightarrow> string option"

definition timestamp_millis :: "DateTime \<Rightarrow> i64" where
  "timestamp_millis t = t div 1000000"

definition encode_vec_f32 :: "f32 list \<Rightarrow> bytes" where
  "encode_vec_f32 v = f32_bytes v"

definition decode_vec_f32 :: "bytes \<Rightarrow> f32 list option" where
  "decode_vec_f32 bs = (if length bs mod 4 \<noteq> 0 then None else Some (f32_chunks bs))"

text \<open>A row that cannot be decoded is an error; only the transcript reference and the vector may be damaged.\<close>

definition row_to_entry :: "ledger_env \<Rightarrow> DateTime \<Rightarrow> ledger_row \<Rightarrow> string + StepEntry" where
  "row_to_entry V now r =
     (case js_paths_of (lv_json V) (lr_touched_files r) of Inl e \<Rightarrow> Inl e | Inr files \<Rightarrow>
     (case js_strings_of (lv_json V) (lr_touched_concepts r) of Inl e \<Rightarrow> Inl e | Inr concepts \<Rightarrow>
      let span =
        (case lr_transcript_ref r of
           Some t \<Rightarrow> if t \<noteq> [] then (case js_span_of (lv_json V) t of Inl _ \<Rightarrow> None | Inr sp \<Rightarrow> Some sp) else None
         | None \<Rightarrow> None) in
     (case js_kind_of (lv_json V) (lr_kind_payload r) of Inl e \<Rightarrow> Inl e | Inr kind \<Rightarrow>
        Inr \<lparr>se_id = lr_id r, se_session_id = lr_session_id r,
          se_timestamp = (case lv_from_millis V (lr_timestamp r) of Some t \<Rightarrow> t | None \<Rightarrow> now),
          se_kind = kind, se_summary = lr_summary r, se_rationale = lr_rationale r, se_touched_files = files,
          se_touched_concepts = concepts, se_transcript_span = span,
          se_embedding = Option.bind (lr_embedding r) decode_vec_f32\<rparr>)))"

definition entry_to_row :: "json_codec \<Rightarrow> StepEntry \<Rightarrow> string + ledger_row" where
  "entry_to_row J e =
     (case js_paths J (se_touched_files e) of Inl x \<Rightarrow> Inl x | Inr files \<Rightarrow>
     (case js_strings J (se_touched_concepts e) of Inl x \<Rightarrow> Inl x | Inr concepts \<Rightarrow>
     (case (case se_transcript_span e of None \<Rightarrow> Inr None | Some t \<Rightarrow> map_sum (\<lambda>x. x) Some (js_span J t)) of
        Inl x \<Rightarrow> Inl x
      | Inr span \<Rightarrow>
          (case js_kind J (se_kind e) of Inl x \<Rightarrow> Inl x | Inr payload \<Rightarrow>
             Inr \<lparr>lr_id = se_id e, lr_session_id = se_session_id e, lr_timestamp = timestamp_millis (se_timestamp e),
               lr_kind = tag (se_kind e), lr_summary = se_summary e, lr_rationale = se_rationale e,
               lr_touched_files = files, lr_touched_concepts = concepts, lr_transcript_ref = span,
               lr_kind_payload = payload, lr_embedding = map_option encode_vec_f32 (se_embedding e)\<rparr>))))"

section \<open>Appending\<close>

definition fts_text :: "StepEntry \<Rightarrow> string" where
  "fts_text e = se_summary e @ nl 1 @ (case se_rationale e of Some r \<Rightarrow> r | None \<Rightarrow> [])"

definition ledger_append :: "ledger_env \<Rightarrow> StepEntry \<Rightarrow> ledger_db \<Rightarrow> (LedgerError + string) \<times> ledger_db" where
  "ledger_append V e db =
     (case lv_begin V db of Some x \<Rightarrow> (Inl (LedgerSqlite x), db) | None \<Rightarrow>
     (case entry_to_row (lv_json V) e of Inl x \<Rightarrow> (Inl (LedgerSerde x), db) | Inr row \<Rightarrow>
     (case lv_insert V row db of Some x \<Rightarrow> (Inl (LedgerSqlite x), db) | None \<Rightarrow>
        if lr_id row \<in> set (map lr_id (lb_rows db)) then
          (Inl (LedgerSqlite ''UNIQUE constraint failed: ledger_entries.id''), db)
        else
          let db1 = db\<lparr>lb_rows := lb_rows db @ [row]\<rparr>;
              db2 = (case lv_insert_fts V db1 of
                       Some _ \<Rightarrow> db1
                     | None \<Rightarrow> db1\<lparr>lb_fts := lb_fts db1 @ [(length (lb_rows db1), fts_text e)]\<rparr>)
          in (case lv_commit V db2 of
                Some x \<Rightarrow> (Inl (LedgerSqlite x), db)
              | None \<Rightarrow> (Inr (se_id e), db2)))))"

section \<open>Recalling\<close>

definition is_whitespace :: "nat \<Rightarrow> bool" where
  "is_whitespace c \<longleftrightarrow> c \<in> set ([9, 10, 11, 12, 13, 32, 0x85, 0xA0, 0x1680, 0x2028, 0x2029, 0x202F, 0x205F, 0x3000]) \<or>
     (0x2000 \<le> c \<and> c \<le> 0x200A)"

fun split_whitespace_from :: "utext \<Rightarrow> utext \<Rightarrow> utext list" where
  "split_whitespace_from w [] = (if w \<noteq> [] then [w] else [])"
| "split_whitespace_from w (c # cs) =
     (if is_whitespace c then (if w \<noteq> [] then w # split_whitespace_from [] cs else split_whitespace_from [] cs)
      else split_whitespace_from (w @ [c]) cs)"

fun join_with :: "utext \<Rightarrow> utext list \<Rightarrow> utext" where
  "join_with sep [] = []"
| "join_with sep [w] = w"
| "join_with sep (w # v # ws) = w @ sep @ join_with sep (v # ws)"

definition sanitize_fts :: "unicode \<Rightarrow> utext \<Rightarrow> utext" where
  "sanitize_fts U input =
     (let cleaned = map (\<lambda>c. if is_alphanumeric U c \<or> c = 32 then c else 32) input;
          words = split_whitespace_from [] cleaned
      in if words = [] then utext ''*'' else join_with (utext '' OR '') (map (\<lambda>w. w @ utext ''*'') words))"

definition cosine :: "f32_arith \<Rightarrow> f32 list \<Rightarrow> f32 list \<Rightarrow> f32" where
  "cosine F a b =
     (if zip a b = [] then f32_zero
      else
        let sum = (\<lambda>f. foldl (\<lambda>acc p. fa_add F acc (f p)) f32_zero (zip a b));
            d = sum (\<lambda>(x, y). fa_mul F x y);
            na = sum (\<lambda>(x, y). fa_mul F x x);
            nb = sum (\<lambda>(x, y). fa_mul F y y)
        in if f32_le na f32_epsilon \<or> f32_le nb f32_epsilon then f32_zero
           else fa_div F d (fa_mul F (fa_sqrt F na) (fa_sqrt F nb)))"

text \<open>The \<open>WHERE\<close> clause but for the full-text part.\<close>

definition row_matches :: "RecallQuery \<Rightarrow> ledger_row \<Rightarrow> bool" where
  "row_matches q r \<longleftrightarrow>
     (case rq_session_id q of Some sid \<Rightarrow> lr_session_id r = sid | None \<Rightarrow> True) \<and>
     (case rq_since q of Some since \<Rightarrow> timestamp_millis since \<le> lr_timestamp r | None \<Rightarrow> True) \<and>
     (rq_kinds q \<noteq> [] \<longrightarrow> lr_kind r \<in> set (rq_kinds q))"

text \<open>The identifiers that match the text. A query SQLite does not accept fails when its first row is asked for.\<close>

definition fts_ids :: "ledger_env \<Rightarrow> unicode \<Rightarrow> utext \<Rightarrow> ledger_db \<Rightarrow> string list option" where
  "fts_ids V U text db =
     map_option (\<lambda>rowids. map (\<lambda>n. lr_id (lb_rows db ! (n - 1))) (filter (\<lambda>n. 0 < n \<and> n \<le> length (lb_rows db)) rowids))
       (lv_fts V (sanitize_fts U text) (lb_fts db))"

definition recall_pool :: "usize \<Rightarrow> nat" where
  "recall_pool limit = max (max (limit * 4 mod 2 ^ 64) limit) 20"

text \<open>\<open>LIMIT\<close> of a number bound as an \<open>i64\<close>: a negative one is no limit.\<close>

definition sql_limit :: "nat \<Rightarrow> 'a list \<Rightarrow> 'a list" where
  "sql_limit n xs = (if n < 2 ^ 63 then take n xs else xs)"

definition ok_entries :: "ledger_env \<Rightarrow> DateTime \<Rightarrow> ledger_row list \<Rightarrow> StepEntry list" where
  "ok_entries V now rows =
     List.map_filter (\<lambda>r. case row_to_entry V now r of Inl _ \<Rightarrow> None | Inr e \<Rightarrow> Some e) rows"

definition recall_rows :: "ledger_env \<Rightarrow> unicode \<Rightarrow> RecallQuery \<Rightarrow> ledger_db \<Rightarrow> ledger_row list" where
  "recall_rows V U q db =
     (let use_fts = \<not> list_all is_whitespace (rq_text q);
          found = (if use_fts then fts_ids V U (rq_text q) db else Some [])
      in case found of
           None \<Rightarrow> []
         | Some ids \<Rightarrow>
             sql_limit (recall_pool (rq_limit q)) (lv_order V (Some q) db
               (filter (\<lambda>r. row_matches q r \<and> (use_fts \<longrightarrow> lr_id r \<in> set ids)) (lb_rows db))))"

definition recall ::
  "ledger_env \<Rightarrow> unicode \<Rightarrow> f32_arith \<Rightarrow> DateTime \<Rightarrow> RecallQuery \<Rightarrow> ledger_db \<Rightarrow> LedgerError + StepEntry list" where
  "recall V U F now q db =
     (case lv_prepare V db of
        Some x \<Rightarrow> Inl (LedgerSqlite x)
      | None \<Rightarrow>
          let entries = ok_entries V now (recall_rows V U q db);
              ranked = (case rq_embedding q of
                  None \<Rightarrow> entries
                | Some qv \<Rightarrow>
                    sort_score (\<lambda>e. case se_embedding e of Some v \<Rightarrow> cosine F v qv | None \<Rightarrow> f32_zero) entries)
          in Inr (take (rq_limit q) ranked))"

definition is_open :: "StepEntry \<Rightarrow> bool" where
  "is_open e = (case se_kind e of OpenQuestion _ None \<Rightarrow> True | _ \<Rightarrow> False)"

definition open_questions :: "ledger_env \<Rightarrow> DateTime \<Rightarrow> ledger_db \<Rightarrow> LedgerError + StepEntry list" where
  "open_questions V now db =
     (case lv_prepare V db of
        Some x \<Rightarrow> Inl (LedgerSqlite x)
      | None \<Rightarrow>
          Inr (filter is_open (ok_entries V now
            (take 50 (lv_order V None db (filter (\<lambda>r. lr_kind r = ''open_question'') (lb_rows db)))))))"

definition since_query :: "string list \<Rightarrow> nat \<Rightarrow> DateTime \<Rightarrow> RecallQuery" where
  "since_query kinds limit since =
     \<lparr>rq_text = [], rq_kinds = kinds, rq_limit = limit, rq_since = Some since, rq_session_id = None, rq_embedding = None\<rparr>"

definition resume_summary ::
  "ledger_env \<Rightarrow> unicode \<Rightarrow> f32_arith \<Rightarrow> DateTime \<Rightarrow> DateTime \<Rightarrow> ledger_db \<Rightarrow> LedgerError + ResumeBundle" where
  "resume_summary V U F now since db =
     (case recall V U F now (since_query [] 50 since) db of Inl x \<Rightarrow> Inl x | Inr timeline \<Rightarrow>
     (case recall V U F now (since_query [''decision''] 10 since) db of Inl x \<Rightarrow> Inl x | Inr decisions \<Rightarrow>
     (case recall V U F now (since_query [''impl'', ''refactor''] 10 since) db of Inl x \<Rightarrow> Inl x | Inr impls \<Rightarrow>
     (case open_questions V now db of Inl x \<Rightarrow> Inl x | Inr questions \<Rightarrow>
        Inr \<lparr>rb_session_id = (case timeline of [] \<Rightarrow> [] | e # _ \<Rightarrow> se_session_id e), rb_generated_at = now,
          rb_recent_decisions = decisions, rb_recent_implementations = impls, rb_open_questions = questions,
          rb_timeline = rev timeline\<rparr>))))"

end
