(* ===== verification/Ledger_Properties.thy ===== *)
theory Ledger_Properties
  imports Ledger
begin

text \<open>
  The ledger gives back what was appended: recall is the newest entries of those that match, in full and newest
  first, an append that fails leaves no trace, and nothing appended later takes an open question off the list.
\<close>

section \<open>What the environment promises\<close>

text \<open>What the codec prints of an entry it can read again, and the transcript reference is not printed as nothing.\<close>

definition json_ok :: "json_codec \<Rightarrow> StepEntry \<Rightarrow> bool" where
  "json_ok J e \<longleftrightarrow>
     (\<exists>t. js_paths J (se_touched_files e) = Inr t \<and> js_paths_of J t = Inr (se_touched_files e)) \<and>
     (\<exists>t. js_strings J (se_touched_concepts e) = Inr t \<and> js_strings_of J t = Inr (se_touched_concepts e)) \<and>
     (\<forall>sp. se_transcript_span e = Some sp \<longrightarrow> (\<exists>t. js_span J sp = Inr t \<and> t \<noteq> [] \<and> js_span_of J t = Inr sp)) \<and>
     (\<exists>t. js_kind J (se_kind e) = Inr t \<and> js_kind_of J t = Inr (se_kind e))"

definition calm_db :: "ledger_env \<Rightarrow> bool" where
  "calm_db V \<longleftrightarrow>
     (\<forall>db. lv_begin V db = None \<and> lv_commit V db = None \<and> lv_prepare V db = None) \<and> (\<forall>r db. lv_insert V r db = None)"

text \<open>\<open>ORDER BY timestamp DESC\<close> arranges the rows it is given by their times, and rows of the same time as it likes.\<close>

definition sql_orders :: "ledger_env \<Rightarrow> bool" where
  "sql_orders V \<longleftrightarrow>
     (\<forall>q db rows. mset (lv_order V q db rows) = mset rows \<and>
        sorted_wrt (\<lambda>a b. lr_timestamp b \<le> lr_timestamp a) (lv_order V q db rows))"

text \<open>The time of the entry is one that can be read back from its milliseconds.\<close>

definition time_ok :: "ledger_env \<Rightarrow> StepEntry \<Rightarrow> bool" where
  "time_ok V e \<longleftrightarrow>
     lv_from_millis V (timestamp_millis (se_timestamp e)) = Some (timestamp_millis (se_timestamp e) * 1000000)"

definition ledger_ok :: "ledger_env \<Rightarrow> StepEntry list \<Rightarrow> bool" where
  "ledger_ok V es \<longleftrightarrow> calm_db V \<and> sql_orders V \<and> (\<forall>e \<in> set es. json_ok (lv_json V) e \<and> time_ok V e)"

text \<open>The entry as it is read back: its time in whole milliseconds.\<close>

definition stored :: "StepEntry \<Rightarrow> StepEntry" where
  "stored e = e\<lparr>se_timestamp := timestamp_millis (se_timestamp e) * 1000000\<rparr>"

definition row_of :: "json_codec \<Rightarrow> StepEntry \<Rightarrow> ledger_row" where
  "row_of J e = (case entry_to_row J e of Inr r \<Rightarrow> r)"

lemma decode_encode_vec [simp]: "decode_vec_f32 (encode_vec_f32 v) = Some v"
  by (simp add: decode_vec_f32_def encode_vec_f32_def)

lemma entry_to_row_ok:
  assumes "json_ok J e"
  shows "entry_to_row J e = Inr (row_of J e) \<and> lr_id (row_of J e) = se_id e \<and> lr_session_id (row_of J e) = se_session_id e \<and>
    lr_timestamp (row_of J e) = timestamp_millis (se_timestamp e) \<and> lr_kind (row_of J e) = tag (se_kind e)"
proof -
  obtain a b d where "js_paths J (se_touched_files e) = Inr a" "js_strings J (se_touched_concepts e) = Inr b"
      "js_kind J (se_kind e) = Inr d" using assms unfolding json_ok_def by metis
  moreover obtain c where "(case se_transcript_span e of None \<Rightarrow> Inr None | Some t \<Rightarrow> map_sum (\<lambda>x. x) Some (js_span J t)) = Inr c"
    using assms by (cases "se_transcript_span e") (auto simp: json_ok_def)
  ultimately show ?thesis by (simp add: entry_to_row_def row_of_def)
qed

lemma row_to_entry_row_of:
  assumes V: "time_ok V e" and J: "json_ok (lv_json V) e"
  shows "row_to_entry V now (row_of (lv_json V) e) = Inr (stored e)"
proof -
  let ?J = "lv_json V"
  obtain a b d where abd: "js_paths ?J (se_touched_files e) = Inr a" "js_paths_of ?J a = Inr (se_touched_files e)"
      "js_strings ?J (se_touched_concepts e) = Inr b" "js_strings_of ?J b = Inr (se_touched_concepts e)"
      "js_kind ?J (se_kind e) = Inr d" "js_kind_of ?J d = Inr (se_kind e)" using J unfolding json_ok_def by metis
  have emb: "Option.bind (map_option encode_vec_f32 (se_embedding e)) decode_vec_f32 = se_embedding e"
    by (cases "se_embedding e") simp_all
  show ?thesis
  proof (cases "se_transcript_span e")
    case None
    with abd emb assms show ?thesis
      by (simp add: row_to_entry_def row_of_def entry_to_row_def stored_def time_ok_def)
  next
    case (Some sp)
    obtain c where "js_span ?J sp = Inr c" "c \<noteq> []" "js_span_of ?J c = Inr sp"
      using J Some by (auto simp: json_ok_def)
    with Some abd emb assms show ?thesis
      by (simp add: row_to_entry_def row_of_def entry_to_row_def stored_def time_ok_def)
  qed
qed

section \<open>Appending\<close>

definition empty_ledger :: ledger_db where
  "empty_ledger = \<lparr>lb_rows = [], lb_fts = []\<rparr>"

definition ledger_of :: "ledger_env \<Rightarrow> StepEntry list \<Rightarrow> ledger_db" where
  "ledger_of V es = fold (\<lambda>e db. snd (ledger_append V e db)) es empty_ledger"

text \<open>An append is all or nothing; the full-text mirror may miss an entry that was accepted.\<close>

theorem append_all_or_nothing:
  "(case ledger_append V e db of
      (Inl x, db') \<Rightarrow> db' = db
    | (Inr i, db') \<Rightarrow> i = se_id e \<and> se_id e \<notin> set (map lr_id (lb_rows db)) \<and>
        lb_rows db' = lb_rows db @ [row_of (lv_json V) e] \<and>
        (lb_fts db' = lb_fts db \<or> lb_fts db' = lb_fts db @ [(Suc (length (lb_rows db)), fts_text e)]))"
proof (cases "entry_to_row (lv_json V) e")
  case (Inl x)
  then show ?thesis by (simp add: ledger_append_def split: option.split)
next
  case (Inr row)
  then have "lr_id row = se_id e" by (auto simp: entry_to_row_def split: sum.splits)
  with Inr show ?thesis by (simp add: ledger_append_def row_of_def Let_def split: option.split)
qed

lemma ledger_of_rows:
  assumes V: "ledger_ok V es" and d: "distinct (map se_id es)"
  shows "lb_rows (ledger_of V es) = map (row_of (lv_json V)) es"
  using assms
proof (induction es rule: rev_induct)
  case (snoc e es)
  let ?db = "ledger_of V es"
  have J: "json_ok (lv_json V) x" if "x \<in> set (es @ [e])" for x
    using snoc.prems(1) that unfolding ledger_ok_def by blast
  have rows: "lb_rows ?db = map (row_of (lv_json V)) es" using snoc by (simp add: ledger_ok_def)
  have "se_id e \<notin> set (map lr_id (lb_rows ?db))"
    using snoc.prems(2) entry_to_row_ok[OF J] by (auto simp: rows)
  then have "lb_rows (snd (ledger_append V e ?db)) = lb_rows ?db @ [row_of (lv_json V) e]"
    using snoc.prems(1) entry_to_row_ok[OF J, of e]
    by (simp add: ledger_append_def ledger_ok_def calm_db_def Let_def split: option.split)
  with rows show ?case by (simp add: ledger_of_def)
qed (simp add: ledger_of_def empty_ledger_def)

section \<open>Recalling\<close>

text \<open>An arrangement of the images of a list is the image of an arrangement of the list.\<close>

lemma mset_map_arranged: "mset ys = mset (map f zs) \<Longrightarrow> \<exists>xs. mset xs = mset zs \<and> ys = map f xs"
proof (induction ys arbitrary: zs)
  case (Cons y ys)
  have "y \<in> set (map f zs)" using Cons.prems by (metis list.set_intros(1) set_mset_mset)
  then obtain z where z: "z \<in> set zs" "y = f z" by auto
  have "mset zs = add_mset z (mset (remove1 z zs))" using z(1) by simp
  then obtain rest where zs: "mset zs = add_mset z (mset rest)" by blast
  with Cons.prems z(2) have "mset ys = mset (map f rest)" by simp
  from Cons.IH[OF this] obtain xs where "mset xs = mset rest" "ys = map f xs" by blast
  then have "mset (z # xs) = mset zs \<and> y # ys = map f (z # xs)" by (simp add: z(2) zs)
  then show ?case by (rule exI)
qed simp

definition millis :: "StepEntry \<Rightarrow> int" where
  "millis e = timestamp_millis (se_timestamp e)"

definition entry_matches :: "RecallQuery \<Rightarrow> StepEntry \<Rightarrow> bool" where
  "entry_matches q e \<longleftrightarrow>
     (case rq_session_id q of Some sid \<Rightarrow> se_session_id e = sid | None \<Rightarrow> True) \<and>
     (case rq_since q of Some since \<Rightarrow> timestamp_millis since \<le> millis e | None \<Rightarrow> True) \<and>
     (rq_kinds q = [] \<or> tag (se_kind e) \<in> set (rq_kinds q))"

text \<open>
  An arrangement of the entries by their times, the latest first. Where the times differ there is one only.
\<close>

definition newest_first :: "StepEntry list \<Rightarrow> StepEntry list \<Rightarrow> bool" where
  "newest_first es xs \<longleftrightarrow> mset xs = mset es \<and> sorted_wrt (\<lambda>a b. millis b \<le> millis a) xs"

lemma newest_first_set: "newest_first es xs \<Longrightarrow> set xs = set es"
  unfolding newest_first_def by (metis set_mset_mset)

lemma newest_first_unique:
  assumes "newest_first es xs" "distinct (map millis es)"
  shows "xs = rev (sort_key millis es)"
proof -
  have "mset (map millis xs) = mset (map millis es)" using assms(1) by (simp add: newest_first_def)
  from mset_eq_imp_distinct_iff[OF this] have "distinct (rev (map millis xs))" using assms(2) by simp
  then have d: "distinct (map millis (rev xs))" by (simp only: rev_map)
  have "sorted_wrt (\<lambda>a b. a \<le> b) (map millis (rev xs))"
    using assms(1) by (simp add: newest_first_def sorted_wrt_rev sorted_wrt_map)
  moreover have "inj_on millis (set (rev xs) \<union> set (sort_key millis es))"
    using assms(2) newest_first_set[OF assms(1)] by (simp add: distinct_map)
  moreover have "mset (map millis (sort_key millis es)) = mset (map millis es)" by simp
  from mset_eq_imp_distinct_iff[OF this] have "distinct (map millis (sort_key millis es))" using assms(2) by simp
  moreover have "set (rev xs) = set (sort_key millis es)" using newest_first_set[OF assms(1)] by simp
  ultimately have "rev xs = sort_key millis es"
    using d by (intro map_sorted_distinct_set_unique[of millis]) simp_all
  then show ?thesis by (metis rev_rev_ident)
qed

lemma ok_entries_rows:
  "ledger_ok V es \<Longrightarrow> ok_entries V now (map (row_of (lv_json V)) es) = map stored es"
  by (induction es) (simp_all add: ok_entries_def List.map_filter_def row_to_entry_row_of ledger_ok_def)

lemma ledger_ok_sub: "ledger_ok V es \<Longrightarrow> set xs \<subseteq> set es \<Longrightarrow> ledger_ok V xs"
  by (auto simp: ledger_ok_def)

lemma newest_rows:
  assumes "ledger_ok V es"
  shows "\<exists>xs. newest_first es xs \<and> lv_order V q db (map (row_of (lv_json V)) es) = map (row_of (lv_json V)) xs"
proof -
  let ?rows = "lv_order V q db (map (row_of (lv_json V)) es)"
  have "mset ?rows = mset (map (row_of (lv_json V)) es)"
    and sorted: "sorted_wrt (\<lambda>a b. lr_timestamp b \<le> lr_timestamp a) ?rows"
    using assms by (simp_all add: ledger_ok_def sql_orders_def)
  from mset_map_arranged[OF this(1)] obtain xs where xs: "mset xs = mset es" "?rows = map (row_of (lv_json V)) xs" by blast
  have "set xs = set es" using xs(1) by (metis set_mset_mset)
  then have "lr_timestamp (row_of (lv_json V) x) = millis x" if "x \<in> set xs" for x
    using that assms entry_to_row_ok by (auto simp: ledger_ok_def millis_def)
  with sorted have "sorted_wrt (\<lambda>a b. millis b \<le> millis a) xs"
    unfolding xs(2) sorted_wrt_map by (auto elim!: sorted_wrt_mono_rel[rotated])
  with xs show ?thesis by (auto simp: newest_first_def)
qed

lemma filter_rows_of:
  assumes "ledger_ok V es" and "\<And>e. e \<in> set es \<Longrightarrow> P (row_of (lv_json V) e) = Q e"
  shows "filter P (map (row_of (lv_json V)) es) = map (row_of (lv_json V)) (filter Q es)"
  using assms(2) by (simp add: filter_map comp_def cong: filter_cong)

lemma row_matches_row_of: "json_ok J e \<Longrightarrow> row_matches q (row_of J e) = entry_matches q e"
  using entry_to_row_ok[of J e] by (auto simp: row_matches_def entry_matches_def millis_def split: option.split)

lemma recall_rows_of:
  assumes V: "ledger_ok V es" and d: "distinct (map se_id es)" and blank: "list_all is_whitespace (rq_text q)"
  shows "\<exists>xs. newest_first (filter (entry_matches q) es) xs \<and>
    recall_rows V U q (ledger_of V es) = map (row_of (lv_json V)) (sql_limit (recall_pool (rq_limit q)) xs)"
proof -
  have "filter (row_matches q) (map (row_of (lv_json V)) es) = map (row_of (lv_json V)) (filter (entry_matches q) es)"
    using V by (intro filter_rows_of[OF V] row_matches_row_of) (simp add: ledger_ok_def)
  moreover have "ledger_ok V (filter (entry_matches q) es)" by (rule ledger_ok_sub[OF V]) auto
  from newest_rows[OF this] obtain xs where "newest_first (filter (entry_matches q) es) xs"
    "lv_order V (Some q) (ledger_of V es) (map (row_of (lv_json V)) (filter (entry_matches q) es)) =
       map (row_of (lv_json V)) xs" by blast
  ultimately show ?thesis
    using blank by (intro exI[of _ xs]) (simp add: recall_rows_def ledger_of_rows[OF V d] sql_limit_def take_map)
qed

text \<open>Two entries of a session: a question, and the same question with its answer.\<close>

definition demo_entry :: "string \<Rightarrow> DateTime \<Rightarrow> string option \<Rightarrow> StepEntry" where
  "demo_entry i t answer = \<lparr>se_id = i, se_session_id = ''s'', se_timestamp = t, se_kind = OpenQuestion ''Q'' answer,
     se_summary = ''Q'', se_rationale = None, se_touched_files = [], se_touched_concepts = [], se_transcript_span = None,
     se_embedding = None\<rparr>"

definition demo_ledger :: ledger_env where
  "demo_ledger = \<lparr>
     lv_json = \<lparr>js_paths = \<lambda>_. Inr ''[]'', js_strings = \<lambda>_. Inr ''[]'', js_span = \<lambda>_. Inl [],
       js_kind = \<lambda>k. Inr (if resolved_by k = None then ''open'' else ''answered''),
       js_paths_of = \<lambda>_. Inr [], js_strings_of = \<lambda>_. Inr [], js_span_of = \<lambda>_. Inl [],
       js_kind_of = \<lambda>t. Inr (OpenQuestion ''Q'' (if t = ''open'' then None else Some ''A''))\<rparr>,
     lv_from_millis = \<lambda>ms. Some (ms * 1000000), lv_fts = \<lambda>_ _. None,
     lv_order = \<lambda>_ _ rows. rev (sort_key lr_timestamp rows), lv_begin = \<lambda>_. None, lv_insert = \<lambda>_ _. None,
     lv_insert_fts = \<lambda>_. None, lv_commit = \<lambda>_. None, lv_prepare = \<lambda>_. None\<rparr>"

lemma demo_ledger_ok:
  "ledger_ok demo_ledger [demo_entry ''1'' 5000000 None, demo_entry ''2'' 9000000 (Some ''A'')]"
proof -
  have "sorted_wrt (\<lambda>a b. lr_timestamp b \<le> lr_timestamp a) (rev (sort_key lr_timestamp rows))" for rows
    using sorted_sort_key[of lr_timestamp rows] by (simp add: sorted_wrt_rev sorted_wrt_map)
  then show ?thesis
    unfolding ledger_ok_def sql_orders_def
    by (intro conjI allI) (simp_all add: calm_db_def json_ok_def time_ok_def demo_ledger_def demo_entry_def)
qed

text \<open>
  C38: Recall without text gives, of the entries that were appended and match the query, the newest ones first, each as
  it was appended with its time in whole milliseconds, and exactly \<open>limit\<close> of them if there are so many; entries of
  the same millisecond come in an order of the database's choice. With a query vector the candidates are the newest
  \<open>max(4 * limit, 20)\<close> and the answer the most similar of these. The times have to be ones that can be read back.
\<close>

theorem recall_exact:
  assumes "ledger_ok V es" "distinct (map se_id es)" "list_all is_whitespace (rq_text q)" "rq_limit q < 2 ^ 61"
  shows "\<exists>xs. newest_first (filter (entry_matches q) es) xs \<and>
    (distinct (map millis (filter (entry_matches q) es)) \<longrightarrow> xs = rev (sort_key millis (filter (entry_matches q) es))) \<and>
    recall V U F now q (ledger_of V es) = Inr (case rq_embedding q of
      None \<Rightarrow> map stored (take (rq_limit q) xs)
    | Some qv \<Rightarrow> take (rq_limit q)
        (sort_score (\<lambda>e. case se_embedding e of Some v \<Rightarrow> cosine F v qv | None \<Rightarrow> f32_zero)
          (map stored (take (max (4 * rq_limit q) 20) xs))))"
proof -
  have "rq_limit q < 2305843009213693952" using assms(4) by simp
  then have pool: "recall_pool (rq_limit q) = max (4 * rq_limit q) 20" "recall_pool (rq_limit q) < 2 ^ 63"
    by (simp_all add: recall_pool_def)
  from recall_rows_of[OF assms(1-3), of U] obtain xs where xs: "newest_first (filter (entry_matches q) es) xs"
    "recall_rows V U q (ledger_of V es) = map (row_of (lv_json V)) (sql_limit (recall_pool (rq_limit q)) xs)" by blast
  have "recall_rows V U q (ledger_of V es) = map (row_of (lv_json V)) (take (max (4 * rq_limit q) 20) xs)"
    using pool by (simp add: xs(2) sql_limit_def)
  moreover have "lv_prepare V (ledger_of V es) = None" using assms(1) by (simp add: ledger_ok_def calm_db_def)
  moreover have "set (take n xs) \<subseteq> set es" for n
    using newest_first_set[OF xs(1)] set_take_subset[of n xs] by auto
  then have "ledger_ok V (take n xs)" for n by (rule ledger_ok_sub[OF assms(1)])
  ultimately show ?thesis using xs(1) newest_first_unique[OF xs(1)]
    by (intro exI[of _ xs]) (simp add: recall_def Let_def ok_entries_rows take_map split: option.split)
qed

theorem recall_exact_witness:
  "\<forall>U F now. recall demo_ledger U F now
      \<lparr>rq_text = [32], rq_kinds = [], rq_limit = 1, rq_since = None, rq_session_id = None, rq_embedding = None\<rparr>
      (ledger_of demo_ledger [demo_entry ''1'' 5000000 None, demo_entry ''2'' 9000000 (Some ''A'')]) =
    Inr [demo_entry ''2'' 9000000 (Some ''A'')]"
  using recall_exact[OF demo_ledger_ok, of
      "\<lparr>rq_text = [32], rq_kinds = [], rq_limit = 1, rq_since = None, rq_session_id = None, rq_embedding = None\<rparr>"]
  by (simp add: entry_matches_def millis_def timestamp_millis_def demo_entry_def stored_def is_whitespace_def)

lemma open_questions_of:
  assumes V: "ledger_ok V es" and d: "distinct (map se_id es)"
  shows "\<exists>xs. newest_first (filter (\<lambda>e. tag (se_kind e) = ''open_question'') es) xs \<and>
    open_questions V now (ledger_of V es) = Inr (filter is_open (map stored (take 50 xs)))"
proof -
  let ?Q = "filter (\<lambda>e. tag (se_kind e) = ''open_question'') es"
  have "filter (\<lambda>r. lr_kind r = ''open_question'') (map (row_of (lv_json V)) es) = map (row_of (lv_json V)) ?Q"
    using V entry_to_row_ok by (intro filter_rows_of[OF V]) (simp add: ledger_ok_def)
  moreover have sub: "ledger_ok V ?Q" by (rule ledger_ok_sub[OF V]) auto
  from newest_rows[OF sub] obtain xs where xs: "newest_first ?Q xs"
    "lv_order V None (ledger_of V es) (map (row_of (lv_json V)) ?Q) = map (row_of (lv_json V)) xs" by blast
  have "set (take 50 xs) \<subseteq> set es" using newest_first_set[OF xs(1)] set_take_subset[of 50 xs] by auto
  then have "ledger_ok V (take 50 xs)" by (rule ledger_ok_sub[OF V])
  moreover have "lv_prepare V (ledger_of V es) = None" using V by (simp add: ledger_ok_def calm_db_def)
  ultimately show ?thesis using xs
    by (intro exI[of _ xs]) (simp add: open_questions_def ledger_of_rows[OF V d] take_map ok_entries_rows)
qed

text \<open>
  A question that was appended without an answer stays on the list of open questions whatever is appended later,
  the entry that answers it included, as long as it is among the fifty latest questions.
\<close>

theorem answered_question_stays_open:
  assumes "ledger_ok V (es @ later)" "distinct (map se_id (es @ later))" "e \<in> set es" "is_open e"
    and "length (filter (\<lambda>e. tag (se_kind e) = ''open_question'') (es @ later)) \<le> 50"
  shows "\<exists>qs. open_questions V now (ledger_of V (es @ later)) = Inr qs \<and> stored e \<in> set qs"
proof -
  have "tag (se_kind e) = ''open_question''"
    using assms(4) by (auto simp: is_open_def split: StepKind.splits)
  moreover have "is_open (stored e)" using assms(4) by (simp add: is_open_def stored_def)
  moreover from open_questions_of[OF assms(1,2), of now] obtain xs where
    xs: "newest_first (filter (\<lambda>e. tag (se_kind e) = ''open_question'') (es @ later)) xs"
    "open_questions V now (ledger_of V (es @ later)) = Inr (filter is_open (map stored (take 50 xs)))" by blast
  moreover have "length xs \<le> 50" using xs(1) assms(5) unfolding newest_first_def by (metis size_mset)
  ultimately show ?thesis
    using assms(3) newest_first_set[OF xs(1)] by simp
qed

theorem answered_question_stays_open_witness:
  "\<exists>qs. open_questions demo_ledger 0
      (ledger_of demo_ledger ([demo_entry ''1'' 5000000 None] @ [demo_entry ''2'' 9000000 (Some ''A'')])) = Inr qs \<and>
    stored (demo_entry ''1'' 5000000 None) \<in> set qs"
  using answered_question_stays_open[of demo_ledger "[demo_entry ''1'' 5000000 None]" "[demo_entry ''2'' 9000000 (Some ''A'')]"
      "demo_entry ''1'' 5000000 None" 0] demo_ledger_ok
  by (simp add: is_open_def demo_entry_def)

end
