(* ===== verification/Federated.thy ===== *)
theory Federated
  imports Brain_Base Unicode_Text
begin

text \<open>
  Pattern fingerprints (\<open>brain/src/federated.rs\<close>): the tokens of a piece of code, their SimHash and MinHash, the shape
  that is kept of it, and the table of a project's fingerprints. Text is a list of Unicode scalar values. SHA-256,
  the binary codec and the Unicode tables outside ASCII are arguments, as are rounded products of floats.
\<close>

section \<open>Tokens\<close>

text \<open>Letters, digits and the underscore.\<close>

definition is_word :: "unicode \<Rightarrow> nat \<Rightarrow> bool" where
  "is_word U c \<longleftrightarrow> is_alphanumeric U c \<or> c = 95"

fun tokenize_from :: "unicode \<Rightarrow> utext \<Rightarrow> utext \<Rightarrow> utext list" where
  "tokenize_from U current [] = (if current \<noteq> [] then [current] else [])"
| "tokenize_from U current (ch # cs) =
     (if is_word U ch then tokenize_from U (current @ to_lowercase U ch) cs
      else if current \<noteq> [] then current # tokenize_from U [] cs
      else tokenize_from U current cs)"

definition tokenize :: "unicode \<Rightarrow> utext \<Rightarrow> utext list" where
  "tokenize U content = tokenize_from U [] content"

section \<open>Hashes of tokens\<close>

definition MINHASH_K :: nat where "MINHASH_K = 128"
definition SIMHASH_BITS :: nat where "SIMHASH_BITS = 64"

definition hash64 :: "(bytes \<Rightarrow> bytes) \<Rightarrow> utext \<Rightarrow> u64" where
  "hash64 sha tok = word_of_nat (from_le (take 8 (sha (as_bytes tok))))"

definition hash32_salted :: "(bytes \<Rightarrow> bytes) \<Rightarrow> utext \<Rightarrow> nat \<Rightarrow> u32" where
  "hash32_salted sha tok salt = word_of_nat (from_le (take 4 (sha (le_bytes 4 salt @ as_bytes tok))))"

text \<open>The counters are \<open>i32\<close>.\<close>

definition vote :: "u64 \<Rightarrow> i32 list \<Rightarrow> i32 list" where
  "vote h bits = map2 (\<lambda>i b. if bit h i then b + 1 else b - 1) [0..<SIMHASH_BITS] bits"

definition threshold :: "i32 list \<Rightarrow> u64" where
  "threshold bits = foldl (\<lambda>out (i, b). if 0 < sint b then out OR push_bit i 1 else out) 0 (List.enumerate 0 bits)"

definition simhash_64 :: "(bytes \<Rightarrow> bytes) \<Rightarrow> utext list \<Rightarrow> u64" where
  "simhash_64 sha tokens =
     (if tokens = [] then 0
      else threshold (foldl (\<lambda>bits tok. vote (hash64 sha tok) bits) (replicate SIMHASH_BITS 0) tokens))"

definition lower_slots :: "(bytes \<Rightarrow> bytes) \<Rightarrow> utext \<Rightarrow> u32 list \<Rightarrow> u32 list" where
  "lower_slots sha tok sketch =
     map (\<lambda>(i, slot). let h = hash32_salted sha tok i in if h < slot then h else slot) (List.enumerate 0 sketch)"

definition minhash_k :: "(bytes \<Rightarrow> bytes) \<Rightarrow> utext list \<Rightarrow> nat \<Rightarrow> u32 list" where
  "minhash_k sha tokens k = foldl (\<lambda>sketch tok. lower_slots sha tok sketch) (replicate k 0xFFFFFFFF) tokens"

section \<open>The shape\<close>

definition KEEP :: "utext list" where
  "KEEP = map utext
     [''fn'', ''function'', ''def'', ''class'', ''impl'', ''trait'', ''struct'', ''enum'', ''pub'', ''async'',
      ''await'', ''return'', ''if'', ''else'', ''for'', ''while'', ''match'', ''try'', ''catch'', ''throw'',
      ''Result'', ''Option'', ''Vec'', ''String'', ''self'', ''let'', ''const'', ''var'', ''use'', ''import'']"

definition SHAPE_PUNCT :: utext where
  "SHAPE_PUNCT = utext ''()[]{}<>,;:&*?!|-=''"

definition push_word :: "utext \<Rightarrow> utext \<Rightarrow> utext" where
  "push_word cur out =
     (if cur \<noteq> [] \<and> cur \<in> set KEEP then (if out \<noteq> [] then out @ [32] else out) @ cur else out)"

text \<open>What is kept is ASCII, so the length of \<open>out\<close> in bytes is its length.\<close>

fun shape_from :: "unicode \<Rightarrow> utext \<Rightarrow> utext \<Rightarrow> utext \<Rightarrow> utext \<times> utext" where
  "shape_from U out cur [] = (out, cur)"
| "shape_from U out cur (ch # cs) =
     (let (out1, cur1) =
        (if is_word U ch then (out, cur @ [ch])
         else let o' = push_word cur out in (if ch \<in> set SHAPE_PUNCT then o' @ [ch] else o', [])) in
      if 512 < length out1 then (out1, cur1) else shape_from U out1 cur1 cs)"

definition normalise_shape :: "unicode \<Rightarrow> utext \<Rightarrow> utext" where
  "normalise_shape U content = (let (out, cur) = shape_from U [] [] content in push_word cur out)"

section \<open>Fingerprints\<close>

record PatternFingerprint =
  pf_kind :: string
  pf_simhash :: u64
  pf_minhash :: "u32 list"
  pf_shape :: utext
  pf_span_tokens :: u32
  pf_created_at :: i64

definition compute_fingerprint ::
  "unicode \<Rightarrow> (bytes \<Rightarrow> bytes) \<Rightarrow> i64 \<Rightarrow> utext \<Rightarrow> string \<Rightarrow> PatternFingerprint" where
  "compute_fingerprint U sha now content pattern_kind =
     (let tokens = tokenize U content in
      \<lparr>pf_kind = pattern_kind, pf_simhash = simhash_64 sha tokens, pf_minhash = minhash_k sha tokens MINHASH_K,
       pf_shape = normalise_shape U content, pf_span_tokens = word_of_nat (length tokens), pf_created_at = now\<rparr>)"

definition matching_slots :: "u32 list \<Rightarrow> u32 list \<Rightarrow> nat" where
  "matching_slots xs ys = length (filter (\<lambda>(a, b). a = b) (zip xs ys))"

definition jaccard :: "f32_arith \<Rightarrow> PatternFingerprint \<Rightarrow> PatternFingerprint \<Rightarrow> f32" where
  "jaccard F a b =
     (if length (pf_minhash a) \<noteq> length (pf_minhash b) \<or> pf_minhash a = [] then f32_zero
      else fa_div F (fa_of_nat F (matching_slots (pf_minhash a) (pf_minhash b))) (fa_of_nat F (length (pf_minhash a))))"

definition hamming :: "u64 \<Rightarrow> u64 \<Rightarrow> nat" where
  "hamming x y = length (filter (bit (x XOR y)) [0..<64])"

definition simhash_similarity :: "f32_arith \<Rightarrow> PatternFingerprint \<Rightarrow> PatternFingerprint \<Rightarrow> f32" where
  "simhash_similarity F a b =
     fa_sub F f32_one (fa_div F (fa_of_nat F (hamming (pf_simhash a) (pf_simhash b))) (fa_of_nat F SIMHASH_BITS))"

definition similarity :: "f32_arith \<Rightarrow> PatternFingerprint \<Rightarrow> PatternFingerprint \<Rightarrow> f32" where
  "similarity F a b =
     fa_add F (fa_mul F f32_half (simhash_similarity F a b)) (fa_mul F f32_half (jaccard F a b))"

section \<open>The table\<close>

record fp_row =
  fr_id :: string
  fr_kind :: string
  fr_simhash :: i64
  fr_minhash :: bytes
  fr_shape :: utext
  fr_span_tokens :: i64
  fr_created_at :: i64
  fr_source_file :: "string option"
  fr_uploaded :: i64

record bincode =
  bc_serialize :: "u32 list \<Rightarrow> string + bytes"
  bc_deserialize :: "bytes \<Rightarrow> string + u32 list"

text \<open>
  The rows stand in the order of their insertion. A statement that SQLite refuses gives the text of its error; an
  insert is also refused when its identifier is taken.
\<close>

type_synonym fp_table = "fp_row list"

record fp_sql =
  q_insert :: "fp_row \<Rightarrow> fp_table \<Rightarrow> string option"
  q_select :: "fp_table \<Rightarrow> string option"

definition store_err :: "string \<Rightarrow> string \<Rightarrow> BrainError" where
  "store_err what e = BrainInvalid (what @ '': '' @ e)"

definition index_local_with_source ::
  "fp_sql \<Rightarrow> bincode \<Rightarrow> string \<Rightarrow> PatternFingerprint \<Rightarrow> string option \<Rightarrow> fp_table \<Rightarrow> (BrainError + unit) \<times> fp_table" where
  "index_local_with_source Q B uuid fp source_file t =
     (case bc_serialize B (pf_minhash fp) of
        Inl e \<Rightarrow> (Inl (BrainBincode e), t)
      | Inr blob \<Rightarrow>
          let row = \<lparr>fr_id = uuid, fr_kind = pf_kind fp, fr_simhash = u64_as_i64 (pf_simhash fp), fr_minhash = blob,
            fr_shape = pf_shape fp, fr_span_tokens = int (unat (pf_span_tokens fp)), fr_created_at = pf_created_at fp,
            fr_source_file = source_file, fr_uploaded = 0\<rparr> in
          (case q_insert Q row t of
             Some e \<Rightarrow> (Inl (store_err ''insert fingerprint'' e), t)
           | None \<Rightarrow>
               if uuid \<in> set (map fr_id t) then
                 (Inl (store_err ''insert fingerprint'' ''UNIQUE constraint failed: pattern_fingerprints.id''), t)
               else (Inr (), t @ [row])))"

definition index_local ::
  "fp_sql \<Rightarrow> bincode \<Rightarrow> string \<Rightarrow> PatternFingerprint \<Rightarrow> fp_table \<Rightarrow> (BrainError + unit) \<times> fp_table" where
  "index_local Q B uuid fp t = index_local_with_source Q B uuid fp None t"

definition row_to_fp :: "bincode \<Rightarrow> fp_row \<Rightarrow> string + PatternFingerprint" where
  "row_to_fp B r =
     (case bc_deserialize B (fr_minhash r) of
        Inl e \<Rightarrow> Inl e
      | Inr mh \<Rightarrow> Inr \<lparr>pf_kind = fr_kind r, pf_simhash = i64_as_u64 (fr_simhash r), pf_minhash = mh,
          pf_shape = fr_shape r, pf_span_tokens = word_of_int (fr_span_tokens r), pf_created_at = fr_created_at r\<rparr>)"

fun decode_all :: "bincode \<Rightarrow> fp_row list \<Rightarrow> BrainError + PatternFingerprint list" where
  "decode_all B [] = Inr []"
| "decode_all B (r # rs) =
     (case row_to_fp B r of
        Inl e \<Rightarrow> Inl (store_err ''decode fingerprint row'' e)
      | Inr fp \<Rightarrow> (case decode_all B rs of Inl e \<Rightarrow> Inl e | Inr fps \<Rightarrow> Inr (fp # fps)))"

definition query_similar ::
  "fp_sql \<Rightarrow> bincode \<Rightarrow> f32_arith \<Rightarrow> PatternFingerprint \<Rightarrow> nat \<Rightarrow> fp_table \<Rightarrow> BrainError + (PatternFingerprint \<times> f32) list" where
  "query_similar Q B F fp k t =
     (case q_select Q t of
        Some e \<Rightarrow> Inl (store_err ''query fingerprints'' e)
      | None \<Rightarrow>
          (case decode_all B (take 512 (sort_key (\<lambda>r. - fr_created_at r) (filter (\<lambda>r. fr_kind r = pf_kind fp) t))) of
             Inl e \<Rightarrow> Inl e
           | Inr candidates \<Rightarrow> Inr (take k (sort_score snd (map (\<lambda>c. (c, similarity F fp c)) candidates)))))"

definition export_for_upload :: "fp_sql \<Rightarrow> bincode \<Rightarrow> fp_table \<Rightarrow> BrainError + PatternFingerprint list" where
  "export_for_upload Q B t =
     (case q_select Q t of
        Some e \<Rightarrow> Inl (store_err ''export fingerprints'' e)
      | None \<Rightarrow> decode_all B (sort_key fr_created_at (filter (\<lambda>r. fr_uploaded r = 0) t)))"

record FederatedCounts =
  fc_total :: i64
  fc_pending_upload :: i64
  fc_by_kind :: "(string \<times> i64) list"

text \<open>\<open>GROUP BY\<close> goes through the kinds in ascending order, by bytes.\<close>

fun insert_kind :: "string \<Rightarrow> string list \<Rightarrow> string list" where
  "insert_kind k [] = [k]"
| "insert_kind k (x # xs) =
     (if k = x then x # xs else if ord_class.lexordp (map of_char k :: nat list) (map of_char x) then k # x # xs else x # insert_kind k xs)"

definition fp_counts :: "fp_sql \<Rightarrow> fp_table \<Rightarrow> BrainError + FederatedCounts" where
  "fp_counts Q t =
     (case q_select Q t of
        Some e \<Rightarrow> Inl (store_err ''counts total'' e)
      | None \<Rightarrow>
          Inr \<lparr>fc_total = int (length t), fc_pending_upload = int (length (filter (\<lambda>r. fr_uploaded r = 0) t)),
            fc_by_kind = sort_key (\<lambda>p. - snd p)
              (map (\<lambda>k. (k, int (length (filter (\<lambda>r. fr_kind r = k) t)))) (foldr insert_kind (map fr_kind t) []))\<rparr>)"

end
