(* ===== verification/Federated_Properties.thy ===== *)
theory Federated_Properties
  imports Federated
begin

text \<open>
  What a fingerprint tells and what it does not: the shape has no word of the code but the listed keywords, the two
  hashes are the majority votes and the minima of the token hashes, and what is exported is what was computed,
  whatever file it came from.
\<close>

section \<open>The shape\<close>

text \<open>The words of a text: its maximal runs of letters, digits and underscores.\<close>

fun words_from :: "unicode \<Rightarrow> utext \<Rightarrow> utext \<Rightarrow> utext list" where
  "words_from U w [] = (if w \<noteq> [] then [w] else [])"
| "words_from U w (c # cs) =
     (if is_word U c then words_from U (w @ [c]) cs
      else (if w \<noteq> [] then [w] else []) @ words_from U [] cs)"

definition words_of :: "unicode \<Rightarrow> utext \<Rightarrow> utext list" where
  "words_of U s = words_from U [] s"

lemma words_from_break:
  "\<not> is_word U d \<Longrightarrow> words_from U w (xs @ d # ys) = words_from U w xs @ words_from U [] ys"
  by (induction xs arbitrary: w) auto

lemma words_from_run: "\<forall>c \<in> set cur. is_word U c \<Longrightarrow> words_from U w cur = (if w @ cur \<noteq> [] then [w @ cur] else [])"
  by (induction cur arbitrary: w) auto

lemma KEEP_words: "w \<in> set KEEP \<Longrightarrow> w \<noteq> [] \<and> (\<forall>c \<in> set w. is_word U c) \<and> length w \<le> 8"
  by (auto simp: KEEP_def utext_def is_word_def is_alphanumeric_def)

lemma punct_not_word: "c \<in> set SHAPE_PUNCT \<Longrightarrow> \<not> is_word U c"
  by (auto simp: SHAPE_PUNCT_def utext_def is_word_def is_alphanumeric_def)

lemma words_push_word:
  "set (words_of U out) \<subseteq> set KEEP \<Longrightarrow> set (words_of U (push_word cur out)) \<subseteq> set KEEP"
proof -
  assume out: "set (words_of U out) \<subseteq> set KEEP"
  have "\<not> is_word U 32" by (simp add: is_word_def is_alphanumeric_def)
  with out KEEP_words[of cur U] show ?thesis
    by (auto simp: push_word_def words_of_def words_from_break words_from_run)
qed

lemma words_push_punct:
  "set (words_of U out) \<subseteq> set KEEP \<Longrightarrow> c \<in> set SHAPE_PUNCT \<Longrightarrow> set (words_of U (out @ [c])) \<subseteq> set KEEP"
  by (simp add: words_of_def words_from_break punct_not_word)

lemma length_push_word: "length (push_word cur out) \<le> length out + 9"
  using KEEP_words[of cur] by (fastforce simp: push_word_def)

lemma shape_from_safe:
  assumes "set (words_of U out) \<subseteq> set KEEP" "length out \<le> 512"
  shows "set (words_of U (fst (shape_from U out cur cs))) \<subseteq> set KEEP \<and>
    (length (fst (shape_from U out cur cs)) \<le> 512 \<or>
     length (fst (shape_from U out cur cs)) \<le> 522 \<and> snd (shape_from U out cur cs) = [])"
  using assms
proof (induction U out cur cs rule: shape_from.induct)
  case (2 U out cur ch cs)
  show ?case
  proof (cases "is_word U ch")
    case True
    with 2 show ?thesis by simp
  next
    case False
    let ?o = "if ch \<in> set SHAPE_PUNCT then push_word cur out @ [ch] else push_word cur out"
    have safe: "set (words_of U ?o) \<subseteq> set KEEP"
      using words_push_word[OF "2.prems"(1)] words_push_punct by auto
    have len: "length ?o \<le> 522"
      using length_push_word[of cur out] "2.prems"(2) by auto
    show ?thesis
    proof (cases "512 < length ?o")
      case True
      with False safe len show ?thesis by (simp add: Let_def)
    next
      case short: False
      have eq: "shape_from U out cur (ch # cs) = shape_from U ?o [] cs"
        using False short by (simp add: Let_def)
      have "(?o, []) = (if is_word U ch then (out, cur @ [ch])
          else let o' = push_word cur out in (if ch \<in> set SHAPE_PUNCT then o' @ [ch] else o', []))"
        using False by (simp add: Let_def)
      from "2.IH"[OF this refl] short safe show ?thesis unfolding eq by simp
    qed
  qed
qed simp

section \<open>The two hashes\<close>

lemma length_vote [simp]: "length bits = SIMHASH_BITS \<Longrightarrow> length (vote h bits) = SIMHASH_BITS"
  by (simp add: vote_def)

lemma votes:
  assumes "length bits = SIMHASH_BITS" "i < SIMHASH_BITS"
  shows "foldl (\<lambda>bits tok. vote (hash64 sha tok) bits) bits tokens ! i =
    bits ! i + of_int (2 * int (length (filter (\<lambda>tok. bit (hash64 sha tok) i) tokens)) - int (length tokens))"
  using assms
proof (induction tokens arbitrary: bits)
  case (Cons tok tokens)
  then have "vote (hash64 sha tok) bits ! i = (if bit (hash64 sha tok) i then bits ! i + 1 else bits ! i - 1)"
    by (simp add: vote_def)
  with Cons show ?case by (simp add: algebra_simps)
qed simp

lemma length_votes: "length bits = SIMHASH_BITS \<Longrightarrow>
    length (foldl (\<lambda>bits tok. vote (hash64 sha tok) bits) bits tokens) = SIMHASH_BITS"
  by (induction tokens arbitrary: bits) simp_all

lemma bit_threshold_from:
  "bit (foldl (\<lambda>out (i, b). if 0 < sint b then out OR push_bit i 1 else out) (w :: u64) (List.enumerate n bits)) i \<longleftrightarrow>
     bit w i \<or> (n \<le> i \<and> i < n + length bits \<and> i < 64 \<and> 0 < sint (bits ! (i - n)))"
proof (induction bits arbitrary: w n)
  case (Cons b bits)
  show ?case
  proof (cases "i = n")
    case True
    show ?thesis
      by (simp only: enumerate_simps foldl_Cons prod.case Cons.IH) (use True in \<open>auto simp: bit_or_iff bit_exp_iff\<close>)
  next
    case False
    then have "n \<le> i \<longleftrightarrow> Suc n \<le> i" "Suc n \<le> i \<Longrightarrow> (b # bits) ! (i - n) = bits ! (i - Suc n)"
      by (auto simp: nth_Cons')
    with False show ?thesis
      by (simp only: enumerate_simps foldl_Cons prod.case Cons.IH) (auto simp: bit_or_iff bit_exp_iff)
  qed
qed auto

lemma sint_word_of_int: "- (2 ^ 31) \<le> k \<Longrightarrow> k < 2 ^ 31 \<Longrightarrow> sint (word_of_int k :: i32) = k"
  by (simp add: signed_of_int signed_take_bit_int_eq_self)

lemma length_lower_slots [simp]: "length (lower_slots sha tok sk) = length sk"
  by (simp add: lower_slots_def)

lemma length_minhash_k [simp]: "length (minhash_k sha tokens k) = k"
proof -
  have "length (foldl (\<lambda>sk tok. lower_slots sha tok sk) sk tokens) = length sk" for sk
    by (induction tokens arbitrary: sk) simp_all
  then show ?thesis by (simp add: minhash_k_def)
qed

lemma nth_lower_slots:
  "i < length sk \<Longrightarrow> lower_slots sha tok sk ! i = min (sk ! i) (hash32_salted sha tok i)"
  by (simp add: lower_slots_def nth_enumerate_eq Let_def min_def) (auto simp: not_less)

lemma nth_minhash:
  "i < length sk \<Longrightarrow> foldl (\<lambda>sk tok. lower_slots sha tok sk) sk tokens ! i =
     Min (insert (sk ! i) ((\<lambda>tok. hash32_salted sha tok i) ` set tokens))"
proof (induction tokens arbitrary: sk)
  case (Cons tok tokens)
  then show ?case
    by (cases "tokens = []") (simp_all add: nth_lower_slots ac_simps)
qed simp

section \<open>Guarantees\<close>

text \<open>
  C39: The shape of a fingerprint holds no name of the code it was taken from: its words are listed keywords, whatever
  the code and whatever the Unicode tables, and it is at most 522 characters long.
\<close>

theorem shape_keeps_no_name:
  "set (words_of U (normalise_shape U content)) \<subseteq> set KEEP \<and> length (normalise_shape U content) \<le> 522"
proof -
  have "set (words_of U []) \<subseteq> set KEEP" by (simp add: words_of_def)
  note safe = shape_from_safe[OF this, of "[]" content, simplified]
  obtain out cur where r: "shape_from U [] [] content = (out, cur)" by fastforce
  have "length (push_word cur out) \<le> 522"
  proof (cases "cur = []")
    case True
    with safe r show ?thesis by (auto simp: push_word_def)
  next
    case False
    with safe r length_push_word[of cur out] show ?thesis by auto
  qed
  with safe r show ?thesis by (simp add: normalise_shape_def words_push_word)
qed

text \<open>
  C40: Bit \<open>i\<close> of the SimHash is the strict majority of the token hashes, counted with multiplicity, as long as the
  counters do not overflow; slot \<open>i\<close> of the MinHash is the least of the \<open>i\<close>th hashes of the tokens. So the first
  depends only on the multiset of the tokens and the second only on their set.
\<close>

theorem sketches_exact:
  assumes "length tokens < 2 ^ 31"
  shows "(bit (simhash_64 sha tokens) i \<longleftrightarrow>
       i < 64 \<and> length tokens < 2 * length (filter (\<lambda>tok. bit (hash64 sha tok) i) tokens)) \<and>
     (j < k \<longrightarrow> minhash_k sha tokens k ! j = Min (insert 0xFFFFFFFF ((\<lambda>tok. hash32_salted sha tok j) ` set tokens)))"
proof
  let ?c = "length (filter (\<lambda>tok. bit (hash64 sha tok) i) tokens)"
  let ?b = "foldl (\<lambda>bits tok. vote (hash64 sha tok) bits) (replicate SIMHASH_BITS 0) tokens"
  show "bit (simhash_64 sha tokens) i \<longleftrightarrow> i < 64 \<and> length tokens < 2 * ?c"
  proof (cases "tokens = [] \<or> 64 \<le> i")
    case True
    then show ?thesis by (auto simp: simhash_64_def dest: bit_imp_le_length)
  next
    case False
    then have "?b ! i = word_of_int (2 * int ?c - int (length tokens))"
      using votes[of "replicate SIMHASH_BITS 0" i sha tokens] by (simp add: SIMHASH_BITS_def)
    moreover have "?c \<le> length tokens" by simp
    moreover from this have "int ?c \<le> int (length tokens)" "int (length tokens) < 2147483648" using assms by simp_all
    then have "- 2147483648 \<le> 2 * int ?c - int (length tokens) \<and> 2 * int ?c - int (length tokens) < 2147483648"
      by linarith
    then have "sint (word_of_int (2 * int ?c - int (length tokens)) :: i32) = 2 * int ?c - int (length tokens)"
      using sint_word_of_int[of "2 * int ?c - int (length tokens)"] by simp
    ultimately have "0 < sint (?b ! i) \<longleftrightarrow> length tokens < 2 * ?c" by auto
    moreover have "length ?b = 64" by (simp add: length_votes SIMHASH_BITS_def[symmetric])
    ultimately show ?thesis
      using False bit_threshold_from[of 0 0 ?b i] by (simp add: simhash_64_def threshold_def)
  qed
  show "j < k \<longrightarrow> minhash_k sha tokens k ! j = Min (insert 0xFFFFFFFF ((\<lambda>tok. hash32_salted sha tok j) ` set tokens))"
    by (simp add: minhash_k_def nth_minhash)
qed

theorem sketches_exact_witness:
  "bit (simhash_64 (\<lambda>bs. bs @ replicate 32 0) [[97], [97], [98]]) 0"
  using sketches_exact[of "[[97], [97], [98]]" "\<lambda>bs. bs @ replicate 32 0" 0]
  by (simp add: hash64_def as_bytes_def utf8_char_def from_le_def bit_0)

section \<open>The table\<close>

definition bincode_ok :: "bincode \<Rightarrow> bool" where
  "bincode_ok B \<longleftrightarrow> (\<forall>v. \<exists>b. bc_serialize B v = Inr b \<and> bc_deserialize B b = Inr v)"

definition calm_sql :: fp_sql where
  "calm_sql = \<lparr>q_insert = \<lambda>_ _. None, q_select = \<lambda>_. None\<rparr>"

text \<open>A run of insertions, each with the identifier drawn for it and the file it came from.\<close>

fun index_all :: "bincode \<Rightarrow> (string \<times> PatternFingerprint \<times> string option) list \<Rightarrow> fp_table \<Rightarrow> fp_table" where
  "index_all B [] t = t"
| "index_all B ((uuid, fp, src) # items) t = index_all B items (snd (index_local_with_source calm_sql B uuid fp src t))"

definition holds_row :: "bincode \<Rightarrow> string \<times> PatternFingerprint \<times> string option \<Rightarrow> fp_row \<Rightarrow> bool" where
  "holds_row B item r \<longleftrightarrow> (case item of (uuid, fp, src) \<Rightarrow>
     fr_id r = uuid \<and> row_to_fp B r = Inr fp \<and> fr_kind r = pf_kind fp \<and> fr_created_at r = pf_created_at fp \<and> fr_uploaded r = 0)"

lemma index_one_row:
  assumes "bincode_ok B" "uuid \<notin> set (map fr_id t)"
  obtains row where "index_local_with_source calm_sql B uuid fp src t = (Inr (), t @ [row])" "holds_row B (uuid, fp, src) row"
proof -
  obtain b where "bc_serialize B (pf_minhash fp) = Inr b" "bc_deserialize B b = Inr (pf_minhash fp)"
    using assms(1) by (auto simp: bincode_ok_def)
  with assms(2) show ?thesis
    by (intro that) (auto simp: index_local_with_source_def calm_sql_def holds_row_def row_to_fp_def Let_def)
qed

lemma index_all_rows:
  assumes "bincode_ok B" "distinct (map fst items)" "set (map fst items) \<inter> set (map fr_id t) = {}"
  shows "\<exists>rows. index_all B items t = t @ rows \<and> list_all2 (holds_row B) items rows"
  using assms(2,3)
proof (induction items arbitrary: t)
  case (Cons item items)
  obtain uuid fp src where item: "item = (uuid, fp, src)" by (cases item)
  then have "uuid \<notin> set (map fr_id t)" using Cons.prems by auto
  then obtain row where row: "index_local_with_source calm_sql B uuid fp src t = (Inr (), t @ [row])"
      "holds_row B (uuid, fp, src) row"
    using index_one_row[OF assms(1)] by metis
  have "set (map fst items) \<inter> set (map fr_id (t @ [row])) = {}"
    using Cons.prems row(2) item by (auto simp: holds_row_def)
  then obtain rows where "index_all B items (t @ [row]) = (t @ [row]) @ rows" "list_all2 (holds_row B) items rows"
    using Cons.IH[of "t @ [row]"] Cons.prems by auto
  with row item show ?case by (intro exI[of _ "row # rows"]) simp
qed simp

lemma decode_rows:
  "list_all2 (holds_row B) items rows \<Longrightarrow> decode_all B rows = Inr (map (fst \<circ> snd) items)"
  by (induction rule: list_all2_induct) (auto simp: holds_row_def)

lemma insort_rows:
  assumes "list_all2 (holds_row B) items rows" "holds_row B item r"
    and key: "\<And>item r. holds_row B item r \<Longrightarrow> f r = g item"
  shows "list_all2 (holds_row B) (insort_key g item items) (insort_key f r rows)"
  using assms(1)
proof (induction rule: list_all2_induct)
  case (Cons x xs y ys)
  with assms(2) key[OF Cons.hyps(1)] key[OF assms(2)] show ?case by simp
qed (use assms(2) in simp)

lemma sort_rows:
  assumes "list_all2 (holds_row B) items rows" "\<And>item r. holds_row B item r \<Longrightarrow> f r = g item"
  shows "list_all2 (holds_row B) (sort_key g items) (sort_key f rows)"
  using assms(1)
  by (induction rule: list_all2_induct) (auto intro!: insort_rows assms(2))

lemma filter_rows:
  assumes "list_all2 (holds_row B) items rows" "\<And>item r. holds_row B item r \<Longrightarrow> P r = Q item"
  shows "list_all2 (holds_row B) (filter Q items) (filter P rows)"
  using assms(1) by (induction rule: list_all2_induct) (auto simp: assms(2))

text \<open>
  What is exported for upload is every fingerprint that was indexed, field by field, oldest first, and nothing of
  where it came from: the export is the same function of the fingerprints whatever files they were taken from.
\<close>

theorem export_exact:
  assumes "bincode_ok B" "distinct (map fst items)"
  shows "export_for_upload calm_sql B (index_all B items []) =
    Inr (map (fst \<circ> snd) (sort_key (pf_created_at \<circ> (fst \<circ> snd)) items))"
proof -
  obtain rows where rows: "index_all B items [] = rows" "list_all2 (holds_row B) items rows"
    using index_all_rows[OF assms, of "[]"] by auto
  have "filter (\<lambda>r. fr_uploaded r = 0) rows = rows"
    using rows(2) by (induction rule: list_all2_induct) (auto simp: holds_row_def)
  moreover have "list_all2 (holds_row B) (sort_key (pf_created_at \<circ> (fst \<circ> snd)) items) (sort_key fr_created_at rows)"
    using rows(2) by (rule sort_rows) (auto simp: holds_row_def)
  ultimately show ?thesis
    using rows(1) by (simp add: export_for_upload_def calm_sql_def decode_rows)
qed

definition demo_bincode :: bincode where
  "demo_bincode = \<lparr>bc_serialize = \<lambda>v. Inr (f32_bytes v), bc_deserialize = \<lambda>b. Inr (f32_chunks b)\<rparr>"

definition demo_fp :: "i64 \<Rightarrow> PatternFingerprint" where
  "demo_fp t = \<lparr>pf_kind = ''k'', pf_simhash = 5, pf_minhash = [7], pf_shape = [], pf_span_tokens = 1, pf_created_at = t\<rparr>"

theorem export_exact_witness:
  "export_for_upload calm_sql demo_bincode
     (index_all demo_bincode [(''b'', demo_fp 9, Some ''/secret''), (''a'', demo_fp 4, None)] []) = Inr [demo_fp 4, demo_fp 9]"
proof -
  have "bincode_ok demo_bincode" by (auto simp: bincode_ok_def demo_bincode_def)
  from export_exact[OF this, of "[(''b'', demo_fp 9, Some ''/secret''), (''a'', demo_fp 4, None)]"]
  show ?thesis by (simp add: demo_fp_def)
qed

text \<open>
  The search for similar fingerprints looks at those of the same kind only, the 512 latest of them, and ranks them by
  similarity; a fingerprint of another kind is not found however close its SimHash is.
\<close>

theorem query_similar_exact:
  assumes "bincode_ok B" "distinct (map fst items)"
  shows "query_similar calm_sql B F fp k (index_all B items []) =
    Inr (take k (sort_score snd (map (\<lambda>c. (c, similarity F fp c)) (take 512 (map (fst \<circ> snd)
      (sort_key (\<lambda>i. - pf_created_at (fst (snd i))) (filter (\<lambda>i. pf_kind (fst (snd i)) = pf_kind fp) items)))))))"
proof -
  obtain rows where rows: "index_all B items [] = rows" "list_all2 (holds_row B) items rows"
    using index_all_rows[OF assms, of "[]"] by auto
  have "list_all2 (holds_row B)
      (take 512 (sort_key (\<lambda>i. - pf_created_at (fst (snd i))) (filter (\<lambda>i. pf_kind (fst (snd i)) = pf_kind fp) items)))
      (take 512 (sort_key (\<lambda>r. - fr_created_at r) (filter (\<lambda>r. fr_kind r = pf_kind fp) rows)))"
    by (intro list_all2_takeI sort_rows filter_rows[OF rows(2)]) (auto simp: holds_row_def)
  from decode_rows[OF this] rows(1) show ?thesis
    by (simp add: query_similar_def calm_sql_def take_map)
qed

text \<open>Similarity is symmetric, whatever the rounding.\<close>

lemma matching_slots_sym: "matching_slots xs ys = matching_slots ys xs"
  unfolding matching_slots_def by (induction xs ys rule: list_induct2') auto

theorem similarity_sym: "similarity F a b = similarity F b a"
  by (auto simp: similarity_def simhash_similarity_def jaccard_def hamming_def matching_slots_sym xor.commute)

end
