(* ===== verification/Spec2Isabelle.thy ===== *)
theory Spec2Isabelle
  imports
    Manager_Lifecycle Manager_Dispatch Restart_Budget Watchdog Queue_Behaviour
    Queue_Interleaving Subscribers Markers Blast Cluster_Runner Ipc_Client Store_Write Parser_Worker
    Reindex Build_Lock Rollback Embed_Store_Properties Retrieval_Properties Ledger_Properties Federated_Properties
begin

text \<open>
  Verification of mneme, a local daemon that keeps a code graph of a project and serves it to coding
  tools. Paths below are relative to \<open>src/\<close>.

  \<^bold>\<open>The program.\<close> A supervisor process starts and watches worker processes, keeps a durable queue of jobs
  for them, and answers commands on a local socket. Workers parse and scan files, compute embeddings and
  ingest documents; they take jobs as lines on stdin and report completions on the socket. The command
  line is a client of the socket and reads the databases directly when the supervisor is down. The store
  keeps one SQLite file per project and layer. The event bus fans events out to subscribers.

  \<^bold>\<open>Theories and what they model.\<close>

  \<^item> \<open>Mneme_Prelude\<close>: machine types, hash maps, strings and paths of the standard library; the interfaces
    \<open>transition_invariant\<close> (an inductive invariant of a step relation) and \<open>bounded_log\<close> (a log that keeps its
    most recent entries), each interpreted by the components that implement it.
  \<^item> \<open>Jobs\<close>, \<open>Durable_Queue\<close>, \<open>Job_Queue\<close>: \<open>common/src/jobs.rs\<close>, \<open>supervisor/src/job_queue_db.rs\<close> and
    \<open>supervisor/src/job_queue.rs\<close>. The jobs table is a map from identifiers to rows with one operation per SQL
    statement; the queue is a record with one function per method, each mirroring to the table. The interface
    \<open>job_store\<close> states what the queue needs of the table.
  \<^item> \<open>Router\<close>, \<open>Supervisor_System\<close>, \<open>Boot\<close>, \<open>Supervisor_Guarantees\<close>, \<open>Queue_Behaviour\<close>: the router and boot of
    \<open>supervisor/src/lib.rs\<close>, and the queue as a transition system of submissions, routing, completions, worker
    deaths and crashes in any order, one method a step. The capacity is respected; single operations are
    characterised exactly.
  \<^item> \<open>Queue_Interleaving\<close>: the same files at the grain of the queue's lock. Drawing an identifier, the locked part of a
    method, each of its writes to the disk, the dispatch and \<open>mark_assigned\<close> are steps of their own, and a boot may find
    the database closed or a statement failing. Outstanding jobs stand in exactly one place whatever the disk does, and
    with a working disk accepted jobs survive crashes at any moment.
  \<^item> \<open>Supervisor_Error\<close>, \<open>Child\<close>, \<open>Supervisor_Config\<close>, \<open>Log_Ring\<close>, \<open>Manager\<close>, \<open>Manager_Lifecycle\<close>, \<open>Restart_Budget\<close>,
    \<open>Manager_Dispatch\<close>, \<open>Watchdog\<close>: the files of the same names under \<open>supervisor/src\<close>. The life of a child is a
    transition system; a child about to be respawned has no live process, a degraded child stays down,
    respawns are rate bounded, and dispatch and watchdog do exactly what is stated.
  \<^item> \<open>Ipc_Frame\<close>, \<open>Control_Plane\<close>, \<open>Control_Plane_Properties\<close>, \<open>Ipc_Client\<close>: \<open>supervisor/src/ipc.rs\<close>, \<open>cli/src/ipc.rs\<close> and
    \<open>common/src/worker_ipc.rs\<close>. Any bytes on the socket leave the supervisor in a state its own steps reach;
    sessions are answered in order; a request and a worker's report work end to end.
  \<^item> \<open>Blast_Query\<close>, \<open>Recall_Query\<close>: the queries of \<open>supervisor/src/ipc.rs\<close> and the commands of the same names under
    \<open>cli/src/commands\<close>. The blast walk returns exactly the nodes within reach, each with its distance, and
    both paths to it agree.
  \<^item> \<open>Common_Types\<close>: \<open>common/src/{ids,layer,paths,event,error,response}.rs\<close>.
  \<^item> \<open>Store_Write\<close>: \<open>store/src/query.rs\<close> and \<open>store/src/inject.rs\<close>: the writer of a shard, batches, the audit trail
    and idempotency keys.
  \<^item> \<open>Parser_Languages\<close>, \<open>Incremental_Parser\<close>, \<open>Parser_Worker\<close>: \<open>parsers/src/{language,parser_pool,incremental,job,worker,main}.rs\<close>.
    The cache of trees is invisible as long as a path keeps its language; the edits handed to tree-sitter are
    exact; the job line the router writes is what the worker decodes, with the exceptions stated.
  \<^item> \<open>Query_Cache\<close>, \<open>Extractor\<close>: \<open>parsers/src/{query_cache,extractor}.rs\<close>. The cache of compiled queries is invisible; the
    extracted graph is anchored at its file, and syntax errors always mark it.
  \<^item> \<open>File_Watcher\<close>, \<open>Reindex\<close>: \<open>supervisor/src/watcher.rs\<close> and the graph tables of \<open>store/src/schema.rs\<close>. A burst of events
    becomes one change per file; a change rewrites the rows of its file as stated, through the parser, the
    extractor and the store's layers above.
  \<^item> \<open>Topics\<close>, \<open>Bus_Event\<close>, \<open>Subscribers\<close>: \<open>livebus/src/{bus,event,error,subscriber}.rs\<close>.
  \<^item> \<open>Cli_Error\<close>, \<open>Markers\<close>: \<open>cli/src/error.rs\<close> and \<open>cli/src/markers.rs\<close>.
  \<^item> \<open>Build_Lock\<close>: \<open>cli/src/build_lock.rs\<close>, as processes over a file system whose locks belong to open files.
  \<^item> \<open>Calendar\<close>, \<open>File_System\<close>, \<open>Platforms\<close>, \<open>Receipts\<close>: \<open>cli/src/platforms\<close>, \<open>cli/src/receipts.rs\<close> and the install, uninstall
    and rollback commands. Each adapter is a record of the trait's methods over a file system in which any call
    may fail. \<open>Install_Safety\<close>, \<open>Mcp_Registry\<close> (the interface \<open>mcp_registry\<close> of the three formats) and \<open>Rollback\<close> show what
    dry runs, backups, edits and rollbacks keep, and what they do not.
  \<^item> \<open>Leiden\<close>, \<open>Leiden_Properties\<close>, \<open>Cluster_Runner\<close>, \<open>Blast\<close>: \<open>brain/src/{leiden,cluster_runner,blast}.rs\<close>; the interface
    \<open>community_solver\<close> is what the runner needs of a solver.

  \<^item> \<open>Brain_Base\<close>, \<open>Unicode_Text\<close>: what the next modules share: the order of \<open>f32\<close> on bit patterns, the stable sort by
    score against the library's, little-endian bytes, and text as Unicode scalar values.
  \<^item> \<open>Embed_Store\<close>, \<open>Embed_Store_Properties\<close>: \<open>brain/src/embed_store.rs\<close>. A flat array of floats implements a map from nodes
    to vectors, the bounded search is the top of a full sort, and the file is read back at every moment a flush
    may be killed, but for one.
  \<^item> \<open>Retrieval\<close>, \<open>Retrieval_Properties\<close>: \<open>brain/src/{retrieve,reranker}.rs\<close>. Packing stays within the budget and leaves out
    nothing that fits; the walk from the anchors is the composition of edge relations.
  \<^item> \<open>Ledger\<close>, \<open>Ledger_Properties\<close>: \<open>brain/src/ledger.rs\<close>, rows and their decoding; recall is the newest matching entries.
  \<^item> \<open>Federated\<close>, \<open>Federated_Properties\<close>: \<open>brain/src/federated.rs\<close>. The sketches are majority votes and minima, and no name
    of the code survives in the shape.

  \<^bold>\<open>Conventions.\<close> Strings are the bytes of their UTF-8 encoding. A hash map is an association list with
  distinct keys in arbitrary order. Integers keep their width where they can wrap; \<open>usize\<close> quantities that are
  lengths are natural numbers. Time is in natural numbers of the clock's unit. Errors are values. Loops are
  recursive functions that are proved total; the only bounds are those of the code itself. A method that holds
  its lock throughout is one step; the interleavings of such steps are explicit.

  \<^bold>\<open>Arguments.\<close> What is not in the repository is an argument of the definitions: SQLite, the JSON and TOML codecs,
  SHA-256 and BLAKE3, the clocks, the file system, processes and sockets, tokio's channels and timeouts,
  rounded floating-point arithmetic, the shuffle, Unicode tables, the LRU cache and tree-sitter. What is assumed of them is a named
  hypothesis of the theorem that uses it, and every such theorem has a witness.

  \<^bold>\<open>Not modelled.\<close> Embedding models, text generation and the regular-expression scanners, whose behaviour
  lies in libraries; the SQL schema beyond the graph tables; service installation, HTTP and WebSocket
  transports, and the glue of the command line; Windows variants; the plugins in other languages. Logging and
  metrics have no effect on the state and are left out.
\<close>

end
